(* ===== verification/Prelude.thy ===== *)
theory Prelude
  imports Main "HOL-Library.Word" "HOL-Library.Multiset"
begin

section \<open>Shared notions: outcomes of C routines, arrays, loops, signed wrap-around\<close>

text \<open>
  Every routine of the daemon that can stop the process is a function into
  \<open>stop + 'a\<close>: \<open>Inl\<close> is the process ending in \<open>Alarm( EXIT, .. )\<close>, \<open>SPLOG_FATAL\<close> or a
  failed \<open>assert\<close>, and \<open>Inr\<close> is the normal return. This theory holds that outcome type,
  its sequencing operator, two predicates on outcomes (\<open>lands\<close>, partial; \<open>returns\<close>, total),
  the loop combinators the handlers use, C array writes on lists, and the conversion of an
  \<open>int\<close> to a C \<open>int16\<close>. The collection \<open>outcome_simps\<close> carries the component proofs.
\<close>

unbundle bit_operations_syntax

named_theorems outcome_simps \<open>evaluation of sequenced outcomes\<close>
named_theorems outcome_intros \<open>introduction rules for lands and returns\<close>

subsection \<open>Outcomes\<close>

text \<open>
  \<open>Alarm_exit f\<close>: routine \<open>f\<close> called \<open>Alarm( EXIT, .. )\<close> (or \<open>Alarmp( SPLOG_FATAL, .. )\<close>).
  \<open>Assert_fail f\<close>: an \<open>assert\<close> of \<open>f\<close> failed. \<open>Undefined f\<close>: \<open>f\<close> read memory whose
  contents the C program does not determine (an array cell outside the array, a body with
  the wrong layout). \<open>Hang f\<close>: a loop of \<open>f\<close> makes no progress.
\<close>

datatype stop = Alarm_exit string | Assert_fail string | Undefined string | Hang string

type_synonym 'a outcome = "stop + 'a"

definition bindE :: "'a outcome \<Rightarrow> ('a \<Rightarrow> 'b outcome) \<Rightarrow> 'b outcome" where
  "bindE r f = (case r of Inl e \<Rightarrow> Inl e | Inr a \<Rightarrow> f a)"

definition lands :: "'a outcome \<Rightarrow> ('a \<Rightarrow> bool) \<Rightarrow> bool" where
  "lands r Q = (case r of Inl _ \<Rightarrow> True | Inr a \<Rightarrow> Q a)"

definition returns :: "'a outcome \<Rightarrow> ('a \<Rightarrow> bool) \<Rightarrow> bool" where
  "returns r Q = (case r of Inl _ \<Rightarrow> False | Inr a \<Rightarrow> Q a)"

subsection \<open>Loops\<close>

text \<open>\<open>for_each\<close>: a \<open>for\<close> loop whose body always falls through.\<close>

fun for_each :: "('x \<Rightarrow> 's \<Rightarrow> 's outcome) \<Rightarrow> 'x list \<Rightarrow> 's \<Rightarrow> 's outcome" where
  "for_each f [] s = Inr s"
| "for_each f (x # xs) s = bindE (f x s) (for_each f xs)"

text \<open>
  \<open>for_until\<close>: a loop whose body may \<open>break\<close> (or \<open>return\<close> from the routine): the flag \<open>True\<close>
  in the body's result ends the loop.
\<close>

fun for_until :: "('x \<Rightarrow> 's \<Rightarrow> (bool \<times> 's) outcome) \<Rightarrow> 'x list \<Rightarrow> 's \<Rightarrow> 's outcome" where
  "for_until f [] s = Inr s"
| "for_until f (x # xs) s =
     bindE (f x s) (\<lambda>(stop, s'). if stop then Inr s' else for_until f xs s')"

text \<open>The first index from \<open>i\<close> whose element satisfies the test, or \<open>-1\<close>: the C search loop.\<close>

fun find_from :: "int \<Rightarrow> ('x \<Rightarrow> bool) \<Rightarrow> 'x list \<Rightarrow> int" where
  "find_from i p [] = -1"
| "find_from i p (x # xs) = (if p x then i else find_from (i + 1) p xs)"

abbreviation find_index :: "('x \<Rightarrow> bool) \<Rightarrow> 'x list \<Rightarrow> int" where
  "find_index \<equiv> find_from 0"

subsection \<open>Arrays\<close>

text \<open>
  The used part of a C array is a list. \<open>arr_put xs i x\<close> is \<open>xs[i] = x\<close> for
  \<open>0 \<le> i \<le> length xs\<close>: it overwrites a cell or uses the first free one.
\<close>

definition arr_put :: "'a list \<Rightarrow> int \<Rightarrow> 'a \<Rightarrow> 'a list" where
  "arr_put xs i x = take (nat i) xs @ [x] @ drop (Suc (nat i)) xs"

text \<open>
  Removal by moving the last element into the hole, as the code does wherever it deletes
  from an unordered array: \<open>xs[i] = xs[--n]\<close>.
\<close>

definition swap_remove :: "'a list \<Rightarrow> nat \<Rightarrow> 'a list" where
  "swap_remove xs i = butlast (xs[i := last xs])"

definition prefix_of :: "int \<Rightarrow> 'a list \<Rightarrow> 'a list" where
  "prefix_of n xs = take (nat n) xs"

subsection \<open>C integers\<close>

text \<open>
  \<open>int\<close> and \<open>int32\<close> values are unbounded \<open>int\<close>s (signed overflow is undefined in C, so a
  defined run never leaves the range); an assignment to an \<open>int16\<close> field truncates.
\<close>

definition int16_of :: "int \<Rightarrow> int" where
  "int16_of x = signed_take_bit 15 x"

definition is_int16 :: "int \<Rightarrow> bool" where
  "is_int16 x \<longleftrightarrow> - 32768 \<le> x \<and> x < 32768"

definition is_int32 :: "int \<Rightarrow> bool" where
  "is_int32 x \<longleftrightarrow> - 2147483648 \<le> x \<and> x < 2147483648"

subsection \<open>Lemmas on outcomes\<close>

lemma bindE_Inl [simp, outcome_simps]: "bindE (Inl e) f = Inl e"
  by (simp add: bindE_def)

lemma bindE_Inr [simp, outcome_simps]: "bindE (Inr a) f = f a"
  by (simp add: bindE_def)

lemma bindE_assoc: "bindE (bindE r f) g = bindE r (\<lambda>a. bindE (f a) g)"
  by (cases r) simp_all

lemma bindE_eq_Inr: "bindE r f = Inr b \<longleftrightarrow> (\<exists>a. r = Inr a \<and> f a = Inr b)"
  by (cases r) simp_all

lemma bindE_Inr_right [simp]: "bindE r Inr = r"
  by (cases r) simp_all

lemma lands_Inl [simp, outcome_simps]: "lands (Inl e) Q"
  by (simp add: lands_def)

lemma lands_Inr [simp, outcome_simps]: "lands (Inr a) Q = Q a"
  by (simp add: lands_def)

lemma returns_Inl [simp, outcome_simps]: "returns (Inl e) Q = False"
  by (simp add: returns_def)

lemma returns_Inr [simp, outcome_simps]: "returns (Inr a) Q = Q a"
  by (simp add: returns_def)

lemma lands_iff: "lands r Q \<longleftrightarrow> (\<forall>a. r = Inr a \<longrightarrow> Q a)"
  by (cases r) simp_all

lemma returns_iff: "returns r Q \<longleftrightarrow> (\<exists>a. r = Inr a \<and> Q a)"
  by (cases r) simp_all

lemma landsD: "lands r Q \<Longrightarrow> r = Inr a \<Longrightarrow> Q a"
  by (simp add: lands_iff)

lemma returnsE:
  assumes "returns r Q"
  obtains a where "r = Inr a" and "Q a"
  using assms by (auto simp: returns_iff)

lemma lands_bindE [outcome_simps]: "lands (bindE r f) Q = lands r (\<lambda>a. lands (f a) Q)"
  by (cases r) simp_all

lemma returns_bindE [outcome_simps]: "returns (bindE r f) Q = returns r (\<lambda>a. returns (f a) Q)"
  by (cases r) simp_all

lemma lands_mono: "lands r P \<Longrightarrow> (\<And>a. P a \<Longrightarrow> Q a) \<Longrightarrow> lands r Q"
  by (cases r) simp_all

lemma returns_mono: "returns r P \<Longrightarrow> (\<And>a. P a \<Longrightarrow> Q a) \<Longrightarrow> returns r Q"
  by (cases r) simp_all

lemma returns_lands: "returns r Q \<Longrightarrow> lands r Q"
  by (cases r) simp_all

lemma lands_conj: "lands r P \<Longrightarrow> lands r Q \<Longrightarrow> lands r (\<lambda>a. P a \<and> Q a)"
  by (cases r) simp_all

lemma lands_True [simp]: "lands r (\<lambda>_. True)"
  by (cases r) simp_all

lemma lands_if [outcome_simps]:
  "lands (if c then r else r') Q = ((c \<longrightarrow> lands r Q) \<and> (\<not> c \<longrightarrow> lands r' Q))"
  by simp

lemma returns_if [outcome_simps]:
  "returns (if c then r else r') Q = ((c \<longrightarrow> returns r Q) \<and> (\<not> c \<longrightarrow> returns r' Q))"
  by simp

lemma lands_seq [outcome_intros]:
  "lands r P \<Longrightarrow> (\<And>a. P a \<Longrightarrow> lands (f a) Q) \<Longrightarrow> lands (bindE r f) Q"
  by (cases r) simp_all

lemma returns_seq [outcome_intros]:
  "returns r P \<Longrightarrow> (\<And>a. P a \<Longrightarrow> returns (f a) Q) \<Longrightarrow> returns (bindE r f) Q"
  by (cases r) simp_all

subsection \<open>Lemmas on loops\<close>

lemma for_each_append: "for_each f (xs @ ys) s = bindE (for_each f xs s) (for_each f ys)"
  by (induction xs arbitrary: s) (auto simp: bindE_def split: sum.split)

lemma lands_for_each:
  assumes "\<And>x s. x \<in> set xs \<Longrightarrow> I s \<Longrightarrow> lands (f x s) I" and "I s"
  shows "lands (for_each f xs s) I"
  using assms by (induction xs arbitrary: s) (auto intro!: lands_seq)

lemma returns_for_each:
  assumes "\<And>x s. x \<in> set xs \<Longrightarrow> I s \<Longrightarrow> returns (f x s) I" and "I s"
  shows "returns (for_each f xs s) I"
  using assms by (induction xs arbitrary: s) (auto intro!: returns_seq)

lemma lands_for_until:
  assumes "\<And>x s. x \<in> set xs \<Longrightarrow> I s \<Longrightarrow> lands (f x s) (\<lambda>(b, s'). I s')" and "I s"
  shows "lands (for_until f xs s) I"
  using assms
  by (induction xs arbitrary: s) (auto intro!: lands_seq [where P = "\<lambda>(b, s'). I s'"])

lemma find_from_shift: "find_from i p xs = (if find_from 0 p xs = -1 then -1 else i + find_from 0 p xs)
    \<and> (find_from 0 p xs = -1 \<or> 0 \<le> find_from 0 p xs)"
proof (induction xs arbitrary: i)
  case (Cons x xs)
  from Cons [of 1] Cons [of "i + 1"] show ?case by (auto split: if_splits)
qed simp

lemma find_index_range: "find_index p xs = -1 \<or> 0 \<le> find_index p xs"
  using find_from_shift by blast

lemma find_index_Cons:
  "find_index p (x # xs) =
     (if p x then 0 else if find_index p xs = -1 then -1 else 1 + find_index p xs)"
  using find_from_shift [of 1 p xs] by simp

lemma find_index_none: "find_index p xs = -1 \<longleftrightarrow> (\<forall>x \<in> set xs. \<not> p x)"
proof (induction xs)
  case (Cons x xs)
  with find_index_range [of p xs] show ?case
    by (auto simp: find_index_Cons simp del: find_from.simps(2))
qed simp

lemma find_index_some:
  assumes "find_index p xs = i" and "i \<noteq> -1"
  shows "0 \<le> i \<and> nat i < length xs \<and> p (xs ! nat i) \<and> (\<forall>j < nat i. \<not> p (xs ! j))"
  using assms
proof (induction xs arbitrary: i)
  case (Cons x xs)
  show ?case
  proof (cases "p x")
    case True
    with Cons.prems show ?thesis by auto
  next
    case False
    with Cons.prems have r: "find_index p xs \<noteq> -1" and i: "i = 1 + find_index p xs"
      by (auto simp: find_index_Cons simp del: find_from.simps(2) split: if_splits)
    have IH: "0 \<le> find_index p xs \<and> nat (find_index p xs) < length xs
        \<and> p (xs ! nat (find_index p xs)) \<and> (\<forall>j < nat (find_index p xs). \<not> p (xs ! j))"
      using Cons.IH [OF refl r] .
    then have n: "nat i = Suc (nat (find_index p xs))"
      using i IH by (simp add: nat_add_distrib)
    from IH False show ?thesis unfolding n using i by (auto simp: less_Suc_eq_0_disj)
  qed
qed simp

subsection \<open>Lemmas on arrays and int16\<close>

lemma arr_put_end: "nat i = length xs \<Longrightarrow> arr_put xs i x = xs @ [x]"
  by (simp add: arr_put_def)

lemma prefix_of_all [simp]: "prefix_of (int (length xs)) xs = xs"
  by (simp add: prefix_of_def)

lemma prefix_of_0 [simp]: "prefix_of 0 xs = []"
  by (simp add: prefix_of_def)

lemma prefix_of_arr_put:
  assumes "0 \<le> n" and "nat n \<le> length xs"
  shows "prefix_of (n + 1) (arr_put xs n x) = prefix_of n xs @ [x]"
  using assms by (simp add: prefix_of_def arr_put_def nat_add_distrib min_def)

lemma length_prefix_of: "0 \<le> n \<Longrightarrow> nat n \<le> length xs \<Longrightarrow> length (prefix_of n xs) = nat n"
  by (simp add: prefix_of_def)

lemma length_arr_put: "0 \<le> n \<Longrightarrow> nat n \<le> length xs \<Longrightarrow>
    length (arr_put xs n x) = max (length xs) (Suc (nat n))"
  by (auto simp: arr_put_def max_def)

lemma mset_swap_remove:
  assumes "i < length xs"
  shows "mset (swap_remove xs i) = mset xs - {# xs ! i #}"
proof -
  obtain ys z where xs: "xs = ys @ [z]" using assms by (cases xs rule: rev_cases) auto
  show ?thesis
  proof (cases "i < length ys")
    case True
    then have "mset (ys[i := z]) = add_mset z (mset ys - {# ys ! i #})" by (rule mset_update)
    moreover have "ys ! i \<in># mset ys" using True by simp
    ultimately show ?thesis using True
      by (simp add: xs swap_remove_def list_update_append nth_append)
  next
    case False
    then have "i = length ys" using assms xs by simp
    then show ?thesis by (simp add: xs swap_remove_def)
  qed
qed

lemma in_set_swap_remove:
  assumes "x \<in> set xs" and "i < length xs" and "x \<noteq> xs ! i"
  shows "x \<in> set (swap_remove xs i)"
proof -
  have "x \<in># mset (swap_remove xs i)"
    unfolding mset_swap_remove [OF assms(2)] using assms by (simp add: in_diff_count)
  then show ?thesis by simp
qed

lemma in_set_update_other:
  assumes "x \<in> set xs" and "x \<noteq> xs ! i"
  shows "x \<in> set (xs[i := y])"
proof -
  from assms obtain k where "k < length xs" "xs ! k = x" "k \<noteq> i" by (auto simp: in_set_conv_nth)
  then show ?thesis by (metis length_list_update nth_list_update_neq nth_mem)
qed

lemma length_swap_remove: "i < length xs \<Longrightarrow> Suc (length (swap_remove xs i)) = length xs"
  by (simp add: swap_remove_def)

lemma distinct_map_submset:
  assumes "distinct (map f xs)" and "mset ys \<subseteq># mset xs"
  shows "distinct (map f ys)"
proof -
  have "count (mset (map f ys)) a \<le> 1" for a
  proof -
    have "count (mset (map f ys)) a \<le> count (mset (map f xs)) a"
      using image_mset_subseteq_mono [OF assms(2), of f] by (simp add: mset_subset_eq_count)
    also have "\<dots> \<le> 1" using assms(1) by (simp add: distinct_count_atmost_1)
    finally show ?thesis .
  qed
  then show ?thesis
    by (metis (no_types, lifting) count_greater_zero_iff distinct_count_atmost_1 le_antisym
        less_one linorder_not_less not_in_iff set_mset_mset)
qed

lemma int16_of_id [simp]: "is_int16 x \<Longrightarrow> int16_of x = x"
  by (auto simp: is_int16_def int16_of_def signed_take_bit_int_eq_self)

lemma is_int16_of [simp, intro]: "is_int16 (int16_of x)"
  using signed_take_bit_int_greater_eq_minus_exp [of 15 x] signed_take_bit_int_less_exp [of 15 x]
  by (simp add: is_int16_def int16_of_def)

lemma int16_of_mod: "int16_of x = (x + 32768) mod 65536 - 32768"
  by (simp add: int16_of_def signed_take_bit_eq_take_bit_shift take_bit_eq_mod)

end
