(* ===== verification/Net_Types.thy ===== *)
theory Net_Types
  imports Prelude
begin

section \<open>Wire types: flag words, endianness, packet and token headers\<close>

text \<open>
  The type word of every packet and token (\<open>daemon/net_types.h\<close>), the byte-order macros
  (\<open>daemon/arch.h\<close>) and the headers they sit in. Flag words and addresses are \<open>32 word\<close>s;
  sequence numbers, times, lengths and indices are \<open>int\<close>s that are \<open>int32\<close> or \<open>int16\<close> on
  the wire, flipped through the word of their width. The locale \<open>byte_flip\<close> is the contract
  of a byte-order conversion; it is interpreted on the two macros and on the header
  conversions of \<open>daemon/network.c\<close>.
\<close>

type_synonym proc_id = "32 word"

subsection \<open>Flag words\<close>

definition UNRELIABLE_TYPE :: "32 word" where "UNRELIABLE_TYPE = 0x00000001"
definition RELIABLE_TYPE :: "32 word" where "RELIABLE_TYPE = 0x00000002"
definition FIFO_TYPE :: "32 word" where "FIFO_TYPE = 0x00000004"
definition AGREED_TYPE :: "32 word" where "AGREED_TYPE = 0x00000008"
definition SAFE_TYPE :: "32 word" where "SAFE_TYPE = 0x00000010"
definition REGULAR_TYPE :: "32 word" where "REGULAR_TYPE = 0x0000001f"
definition ROUTED_TYPE :: "32 word" where "ROUTED_TYPE = 0x00000020"
definition HURRY_TYPE :: "32 word" where "HURRY_TYPE = 0x00000040"
definition ALIVE_TYPE :: "32 word" where "ALIVE_TYPE = 0x00000100"
definition JOIN_TYPE :: "32 word" where "JOIN_TYPE = 0x00000200"
definition REFER_TYPE :: "32 word" where "REFER_TYPE = 0x00000400"
definition MEMBERSHIP_TYPE :: "32 word" where "MEMBERSHIP_TYPE = 0x00000700"
definition FORM1_TYPE :: "32 word" where "FORM1_TYPE = 0x00001000"
definition FORM2_TYPE :: "32 word" where "FORM2_TYPE = 0x00002000"
definition FORM_TYPE :: "32 word" where "FORM_TYPE = 0x00003000"
definition ARQ_TYPE :: "32 word" where "ARQ_TYPE = 0x000f0000"
definition RETRANS_TYPE :: "32 word" where "RETRANS_TYPE = 0x00f00000"
definition STATUS_TYPE :: "32 word" where "STATUS_TYPE = 0x01000000"
definition PARTITION_TYPE :: "32 word" where "PARTITION_TYPE = 0x02000000"
definition FC_TYPE :: "32 word" where "FC_TYPE = 0x04000000"
definition RELOAD_TYPE :: "32 word" where "RELOAD_TYPE = 0x08000000"
definition ENDIAN_TYPE :: "32 word" where "ENDIAN_TYPE = 0x80000080"

text \<open>\<open>ARCH_ENDIAN\<close> of a little-endian build.\<close>

definition ARCH_ENDIAN :: "32 word" where "ARCH_ENDIAN = 0x80000080"

definition Is_reliable :: "32 word \<Rightarrow> bool" where "Is_reliable t \<longleftrightarrow> t AND RELIABLE_TYPE \<noteq> 0"
definition Is_safe :: "32 word \<Rightarrow> bool" where "Is_safe t \<longleftrightarrow> t AND SAFE_TYPE \<noteq> 0"
definition Is_regular :: "32 word \<Rightarrow> bool" where "Is_regular t \<longleftrightarrow> t AND REGULAR_TYPE \<noteq> 0"
definition Is_routed :: "32 word \<Rightarrow> bool" where "Is_routed t \<longleftrightarrow> t AND ROUTED_TYPE \<noteq> 0"
definition Set_routed :: "32 word \<Rightarrow> 32 word" where "Set_routed t = t OR ROUTED_TYPE"
definition Clear_routed :: "32 word \<Rightarrow> 32 word" where "Clear_routed t = t AND NOT ROUTED_TYPE"
definition Is_hurry :: "32 word \<Rightarrow> bool" where "Is_hurry t \<longleftrightarrow> t AND HURRY_TYPE \<noteq> 0"
definition Is_alive :: "32 word \<Rightarrow> bool" where "Is_alive t \<longleftrightarrow> t AND ALIVE_TYPE \<noteq> 0"
definition Is_join :: "32 word \<Rightarrow> bool" where "Is_join t \<longleftrightarrow> t AND JOIN_TYPE \<noteq> 0"
definition Is_refer :: "32 word \<Rightarrow> bool" where "Is_refer t \<longleftrightarrow> t AND REFER_TYPE \<noteq> 0"
definition Is_membership :: "32 word \<Rightarrow> bool" where "Is_membership t \<longleftrightarrow> t AND MEMBERSHIP_TYPE \<noteq> 0"
definition Is_form :: "32 word \<Rightarrow> bool" where "Is_form t \<longleftrightarrow> t AND FORM_TYPE \<noteq> 0"
definition Is_form1 :: "32 word \<Rightarrow> bool" where "Is_form1 t \<longleftrightarrow> t AND FORM1_TYPE \<noteq> 0"
definition Is_form2 :: "32 word \<Rightarrow> bool" where "Is_form2 t \<longleftrightarrow> t AND FORM2_TYPE \<noteq> 0"
definition Is_status :: "32 word \<Rightarrow> bool" where "Is_status t \<longleftrightarrow> t AND STATUS_TYPE \<noteq> 0"
definition Is_partition :: "32 word \<Rightarrow> bool" where "Is_partition t \<longleftrightarrow> t AND PARTITION_TYPE \<noteq> 0"
definition Is_fc :: "32 word \<Rightarrow> bool" where "Is_fc t \<longleftrightarrow> t AND FC_TYPE \<noteq> 0"
definition Is_conf_reload :: "32 word \<Rightarrow> bool" where "Is_conf_reload t \<longleftrightarrow> t AND RELOAD_TYPE \<noteq> 0"

lemmas type_defs =
  UNRELIABLE_TYPE_def RELIABLE_TYPE_def FIFO_TYPE_def AGREED_TYPE_def SAFE_TYPE_def
  REGULAR_TYPE_def ROUTED_TYPE_def HURRY_TYPE_def ALIVE_TYPE_def JOIN_TYPE_def REFER_TYPE_def
  MEMBERSHIP_TYPE_def FORM1_TYPE_def FORM2_TYPE_def FORM_TYPE_def ARQ_TYPE_def RETRANS_TYPE_def
  STATUS_TYPE_def PARTITION_TYPE_def FC_TYPE_def RELOAD_TYPE_def ENDIAN_TYPE_def ARCH_ENDIAN_def

lemmas type_tests =
  Is_reliable_def Is_safe_def Is_regular_def Is_routed_def Is_hurry_def Is_alive_def Is_join_def
  Is_refer_def Is_membership_def Is_form_def Is_form1_def Is_form2_def Is_status_def
  Is_partition_def Is_fc_def Is_conf_reload_def

text \<open>
  The token's two counters live in the type word: \<open>arq\<close> in bits 16 to 19, \<open>retrans\<close> in bits
  20 to 23. The C reads them as \<open>int\<close>s.
\<close>

definition Get_arq :: "32 word \<Rightarrow> int" where
  "Get_arq t = uint (drop_bit 16 (t AND ARQ_TYPE))"

definition Set_arq :: "32 word \<Rightarrow> int \<Rightarrow> 32 word" where
  "Set_arq t v = (t AND NOT ARQ_TYPE) OR (push_bit 16 (word_of_int v) AND ARQ_TYPE)"

definition Get_retrans :: "32 word \<Rightarrow> int" where
  "Get_retrans t = uint (drop_bit 20 (t AND RETRANS_TYPE))"

definition Set_retrans :: "32 word \<Rightarrow> int \<Rightarrow> 32 word" where
  "Set_retrans t v = (t AND NOT RETRANS_TYPE) OR (push_bit 20 (word_of_int v) AND RETRANS_TYPE)"

definition Set_endian :: "32 word \<Rightarrow> 32 word" where
  "Set_endian t = (t AND NOT ENDIAN_TYPE) OR ARCH_ENDIAN"

definition Same_endian :: "32 word \<Rightarrow> bool" where
  "Same_endian t \<longleftrightarrow> t AND ENDIAN_TYPE = ARCH_ENDIAN"

definition Flip_int16 :: "16 word \<Rightarrow> 16 word" where
  "Flip_int16 t = (drop_bit 8 t AND 0x00ff) OR (push_bit 8 t AND 0xff00)"

definition Flip_int32 :: "32 word \<Rightarrow> 32 word" where
  "Flip_int32 t = (drop_bit 24 t AND 0x000000ff) OR (drop_bit 8 t AND 0x0000ff00)
     OR (push_bit 8 t AND 0x00ff0000) OR (push_bit 24 t AND 0xff000000)"

text \<open>The macros on fields the model keeps as \<open>int\<close>s.\<close>

definition flip_i16 :: "int \<Rightarrow> int" where
  "flip_i16 x = sint (Flip_int16 (word_of_int x))"

definition flip_i32 :: "int \<Rightarrow> int" where
  "flip_i32 x = sint (Flip_int32 (word_of_int x))"

subsection \<open>Headers\<close>

record membership_id =
  mid_proc_id :: proc_id
  mid_time :: int

record packet_header =
  ph_type :: "32 word"
  ph_transmiter_id :: proc_id
  ph_proc_id :: proc_id
  ph_memb_id :: membership_id
  ph_seq :: int
  ph_fifo_seq :: int
  ph_packet_index :: int
  ph_data_len :: int
  ph_conf_hash :: "32 word"

record token_header =
  tk_type :: "32 word"
  tk_transmiter_id :: proc_id
  tk_seq :: int
  tk_proc_id :: proc_id
  tk_aru :: int
  tk_aru_last_id :: proc_id
  tk_flow_control :: int
  tk_rtr_len :: int
  tk_conf_hash :: "32 word"

text \<open>
  A \<open>ring_rtr\<close> record of the token body and the \<open>num_seq\<close> sequence numbers that follow it
  in the buffer; \<open>num_seq\<close> is the length of the list.
\<close>

record ring_rtr =
  rtr_memb_id :: membership_id
  rtr_proc_id :: proc_id
  rtr_seg_index :: int
  rtr_seqs :: "int list"

definition MAX_PACKET_SIZE :: int where "MAX_PACKET_SIZE = 1472"
definition sizeof_packet_header :: int where "sizeof_packet_header = 36"
definition sizeof_token_header :: int where "sizeof_token_header = 32"
definition sizeof_token_body :: int where "sizeof_token_body = MAX_PACKET_SIZE - sizeof_token_header"
definition sizeof_ring_rtr :: int where "sizeof_ring_rtr = 16"
definition sizeof_int32 :: int where "sizeof_int32 = 4"
definition sizeof_int16 :: int where "sizeof_int16 = 2"

lemmas size_defs = MAX_PACKET_SIZE_def sizeof_packet_header_def sizeof_token_header_def
  sizeof_token_body_def sizeof_ring_rtr_def sizeof_int32_def sizeof_int16_def

text \<open>The bytes one \<open>ring_rtr\<close> entry, and a list of them, take in the token body.\<close>

definition rtr_bytes :: "ring_rtr \<Rightarrow> int" where
  "rtr_bytes r = sizeof_ring_rtr + int (length (rtr_seqs r)) * sizeof_int32"

definition rtr_list_bytes :: "ring_rtr list \<Rightarrow> int" where
  "rtr_list_bytes rs = sum_list (map rtr_bytes rs)"

definition flip_memb_id :: "membership_id \<Rightarrow> membership_id" where
  "flip_memb_id m = \<lparr>mid_proc_id = Flip_int32 (mid_proc_id m), mid_time = flip_i32 (mid_time m)\<rparr>"

definition Flip_pack :: "packet_header \<Rightarrow> packet_header" where
  "Flip_pack p = p\<lparr>
     ph_type := Flip_int32 (ph_type p),
     ph_transmiter_id := Flip_int32 (ph_transmiter_id p),
     ph_proc_id := Flip_int32 (ph_proc_id p),
     ph_memb_id := flip_memb_id (ph_memb_id p),
     ph_seq := flip_i32 (ph_seq p),
     ph_fifo_seq := flip_i32 (ph_fifo_seq p),
     ph_packet_index := flip_i16 (ph_packet_index p),
     ph_data_len := flip_i16 (ph_data_len p),
     ph_conf_hash := Flip_int32 (ph_conf_hash p)\<rparr>"

definition Flip_token :: "token_header \<Rightarrow> token_header" where
  "Flip_token t = t\<lparr>
     tk_type := Flip_int32 (tk_type t),
     tk_transmiter_id := Flip_int32 (tk_transmiter_id t),
     tk_seq := flip_i32 (tk_seq t),
     tk_proc_id := Flip_int32 (tk_proc_id t),
     tk_aru := flip_i32 (tk_aru t),
     tk_aru_last_id := Flip_int32 (tk_aru_last_id t),
     tk_flow_control := flip_i16 (tk_flow_control t),
     tk_rtr_len := flip_i16 (tk_rtr_len t),
     tk_conf_hash := Flip_int32 (tk_conf_hash t)\<rparr>"

subsection \<open>Lemmas: bits of the converted words\<close>

lemma mask8_16: "(0x00ff :: 16 word) = mask 8" and mask8_16_high: "(0xff00 :: 16 word) = push_bit 8 (mask 8)"
  by (simp_all add: mask_eq_exp_minus_1)

lemma bit_Flip_int16: "bit (Flip_int16 t) n \<longleftrightarrow> n < 16 \<and> bit t (if n < 8 then n + 8 else n - 8)"
  unfolding Flip_int16_def mask8_16 mask8_16_high
  by (auto simp: bit_simps add.commute dest: bit_imp_le_length)

lemma Flip_int16_flip: "Flip_int16 (Flip_int16 t) = t"
  by (rule bit_word_eqI) (auto simp: bit_Flip_int16)

lemma mask8_32:
  "(0x000000ff :: 32 word) = mask 8" "(0x0000ff00 :: 32 word) = push_bit 8 (mask 8)"
  "(0x00ff0000 :: 32 word) = push_bit 16 (mask 8)" "(0xff000000 :: 32 word) = push_bit 24 (mask 8)"
  by (simp_all add: mask_eq_exp_minus_1)

lemma bit_Flip_int32:
  "bit (Flip_int32 t) n \<longleftrightarrow> n < 32 \<and>
     bit t (if n < 8 then n + 24 else if n < 16 then n + 8 else if n < 24 then n - 8 else n - 24)"
  unfolding Flip_int32_def mask8_32
  by (auto simp: bit_simps add.commute dest: bit_imp_le_length)

lemma Flip_int32_flip: "Flip_int32 (Flip_int32 t) = t"
  by (rule bit_word_eqI) (auto simp: bit_Flip_int32)

lemma bit_ENDIAN_TYPE: "bit ENDIAN_TYPE n \<longleftrightarrow> n = 7 \<or> n = 31"
proof -
  have e: "ENDIAN_TYPE = push_bit 7 1 OR push_bit 31 1" by (simp add: ENDIAN_TYPE_def)
  have "bit ENDIAN_TYPE n \<longleftrightarrow> bit (push_bit 7 (1 :: 32 word)) n \<or> bit (push_bit 31 (1 :: 32 word)) n"
    by (simp only: e bit_or_iff)
  then show ?thesis by (simp only: bit_push_bit_iff bit_1_iff) auto
qed

text \<open>The endianness mark \<open>0x80000080\<close> reads the same in both byte orders.\<close>

lemma Same_endian_Flip [simp]: "Same_endian (Flip_int32 t) = Same_endian t"
proof -
  have *: "u AND ENDIAN_TYPE = ARCH_ENDIAN \<longleftrightarrow> bit u 7 \<and> bit u 31" for u :: "32 word"
  proof
    assume "u AND ENDIAN_TYPE = ARCH_ENDIAN"
    then have "bit (u AND ENDIAN_TYPE) n = bit ENDIAN_TYPE n" for n
      by (simp add: ARCH_ENDIAN_def ENDIAN_TYPE_def)
    from this [of 7] this [of 31] show "bit u 7 \<and> bit u 31"
      by (simp add: bit_and_iff bit_ENDIAN_TYPE)
  next
    assume "bit u 7 \<and> bit u 31"
    then have "u AND ENDIAN_TYPE = ENDIAN_TYPE"
      by (intro bit_word_eqI) (auto simp: bit_and_iff bit_ENDIAN_TYPE)
    then show "u AND ENDIAN_TYPE = ARCH_ENDIAN" by (simp add: ARCH_ENDIAN_def ENDIAN_TYPE_def)
  qed
  show ?thesis unfolding Same_endian_def * by (auto simp: bit_Flip_int32)
qed

lemma Same_endian_Set_endian [simp]: "Same_endian (Set_endian t)"
  unfolding Same_endian_def Set_endian_def ARCH_ENDIAN_def ENDIAN_TYPE_def
  by (rule bit_word_eqI) (auto simp: bit_simps)

subsection \<open>Lemmas: the token counters\<close>

lemma counter_masks: "ARQ_TYPE = push_bit 16 (mask 4)" "RETRANS_TYPE = push_bit 20 (mask 4)"
  by (simp_all add: ARQ_TYPE_def RETRANS_TYPE_def mask_eq_exp_minus_1)

lemma Get_arq_alt: "Get_arq t = uint (take_bit 4 (drop_bit 16 t))"
  unfolding Get_arq_def counter_masks
  by (rule arg_cong [where f = uint], rule bit_word_eqI) (auto simp: bit_simps)

lemma Get_retrans_alt: "Get_retrans t = uint (take_bit 4 (drop_bit 20 t))"
  unfolding Get_retrans_def counter_masks
  by (rule arg_cong [where f = uint], rule bit_word_eqI) (auto simp: bit_simps)

lemma uint_low4: "uint (take_bit 4 (word_of_int v :: 32 word)) = v mod 16"
  unfolding unsigned_take_bit_eq
  by (simp add: uint_word_of_int_eq take_bit_eq_mod mod_mod_cancel)

lemma Get_arq_Set_arq [simp]: "Get_arq (Set_arq t v) = v mod 16"
proof -
  have "take_bit 4 (drop_bit 16 (Set_arq t v)) = take_bit 4 (word_of_int v :: 32 word)"
    unfolding Set_arq_def counter_masks by (rule bit_word_eqI) (auto simp: bit_simps)
  then show ?thesis by (simp add: Get_arq_alt uint_low4)
qed

lemma Get_retrans_Set_retrans [simp]: "Get_retrans (Set_retrans t v) = v mod 16"
proof -
  have "take_bit 4 (drop_bit 20 (Set_retrans t v)) = take_bit 4 (word_of_int v :: 32 word)"
    unfolding Set_retrans_def counter_masks by (rule bit_word_eqI) (auto simp: bit_simps)
  then show ?thesis by (simp add: Get_retrans_alt uint_low4)
qed

lemma Get_arq_Set_retrans [simp]: "Get_arq (Set_retrans t v) = Get_arq t"
  unfolding Get_arq_alt Set_retrans_def counter_masks
  by (rule arg_cong [where f = uint], rule bit_word_eqI) (auto simp: bit_simps)

lemma Get_retrans_Set_arq [simp]: "Get_retrans (Set_arq t v) = Get_retrans t"
  unfolding Get_retrans_alt Set_arq_def counter_masks
  by (rule arg_cong [where f = uint], rule bit_word_eqI) (auto simp: bit_simps)

lemma Get_arq_range: "0 \<le> Get_arq t \<and> Get_arq t < 16"
  using uint_low4 [of "uint (drop_bit 16 t)"] by (simp add: Get_arq_alt)

lemma Get_retrans_range: "0 \<le> Get_retrans t \<and> Get_retrans t < 16"
  using uint_low4 [of "uint (drop_bit 20 t)"] by (simp add: Get_retrans_alt)

subsection \<open>The contract of a byte-order conversion\<close>

locale byte_flip =
  fixes flip :: "'a \<Rightarrow> 'a" and wf :: "'a \<Rightarrow> bool"
  assumes flip_wf: "wf x \<Longrightarrow> wf (flip x)"
    and flip_flip: "wf x \<Longrightarrow> flip (flip x) = x"
begin

lemma flip_inject: "wf x \<Longrightarrow> wf y \<Longrightarrow> flip x = flip y \<longleftrightarrow> x = y"
  by (metis flip_flip)

lemma flip_surj: "wf y \<Longrightarrow> \<exists>x. wf x \<and> flip x = y"
  by (blast intro: flip_wf flip_flip)

lemma flip_list: "list_all wf xs \<Longrightarrow> map flip (map flip xs) = xs"
  by (induction xs) (simp_all add: flip_flip)

lemma flip_list_wf: "list_all wf xs \<Longrightarrow> list_all wf (map flip xs)"
  by (induction xs) (simp_all add: flip_wf)

end

interpretation flip16: byte_flip Flip_int16 "\<lambda>_. True"
  by unfold_locales (simp_all add: Flip_int16_flip)

interpretation flip32: byte_flip Flip_int32 "\<lambda>_. True"
  by unfold_locales (simp_all add: Flip_int32_flip)

lemma is_int16_sint: "is_int16 (sint (w :: 16 word))"
  using sint_greater_eq [of w] sint_less [of w] by (simp add: is_int16_def)

lemma is_int32_sint: "is_int32 (sint (w :: 32 word))"
  using sint_greater_eq [of w] sint_less [of w] by (simp add: is_int32_def)

lemma sint_of_int16: "is_int16 x \<Longrightarrow> sint (word_of_int x :: 16 word) = x"
  by (simp add: is_int16_def sint_sbintrunc' signed_take_bit_int_eq_self)

lemma sint_of_int32: "is_int32 x \<Longrightarrow> sint (word_of_int x :: 32 word) = x"
  by (simp add: is_int32_def sint_sbintrunc' signed_take_bit_int_eq_self)

interpretation flip_i16: byte_flip flip_i16 is_int16
  by unfold_locales (simp_all add: flip_i16_def is_int16_sint Flip_int16_flip sint_of_int16)

interpretation flip_i32: byte_flip flip_i32 is_int32
  by unfold_locales (simp_all add: flip_i32_def is_int32_sint Flip_int32_flip sint_of_int32)

text \<open>The ranges the fields of a header have on the wire.\<close>

definition wf_packet_header :: "packet_header \<Rightarrow> bool" where
  "wf_packet_header p \<longleftrightarrow> is_int32 (mid_time (ph_memb_id p)) \<and> is_int32 (ph_seq p)
     \<and> is_int32 (ph_fifo_seq p) \<and> is_int16 (ph_packet_index p) \<and> is_int16 (ph_data_len p)"

definition wf_token_header :: "token_header \<Rightarrow> bool" where
  "wf_token_header t \<longleftrightarrow> is_int32 (tk_seq t) \<and> is_int32 (tk_aru t)
     \<and> is_int16 (tk_flow_control t) \<and> is_int16 (tk_rtr_len t)"

interpretation flip_pack: byte_flip Flip_pack wf_packet_header
  by unfold_locales
    (simp_all add: Flip_pack_def flip_memb_id_def wf_packet_header_def flip_i16.flip_wf
       flip_i32.flip_wf flip_i16.flip_flip flip_i32.flip_flip flip32.flip_flip)

interpretation flip_token: byte_flip Flip_token wf_token_header
  by unfold_locales
    (simp_all add: Flip_token_def wf_token_header_def flip_i16.flip_wf
       flip_i32.flip_wf flip_i16.flip_flip flip_i32.flip_flip flip32.flip_flip)

subsection \<open>Properties\<close>

text \<open>
  a header crosses hosts of different byte order intact. Converting a packet or token
  header whose fields are in the range of their C types twice gives the header back and
  keeps the ranges, and a receiver finds the sender's byte order in the type word before or
  after the conversion.
\<close>

theorem headers_flip_back:
  assumes "wf_packet_header h" and "wf_token_header t"
  shows "Flip_pack (Flip_pack h) = h \<and> wf_packet_header (Flip_pack h)
    \<and> Flip_token (Flip_token t) = t \<and> wf_token_header (Flip_token t)
    \<and> Same_endian (ph_type (Flip_pack (h\<lparr>ph_type := Set_endian (ph_type h)\<rparr>)))
    \<and> Same_endian (tk_type (Flip_token t)) = Same_endian (tk_type t)"
  using assms
  by (simp add: flip_pack.flip_flip flip_pack.flip_wf flip_token.flip_flip flip_token.flip_wf)
    (simp add: Flip_pack_def Flip_token_def)

definition token_header_example :: token_header where
  "token_header_example = \<lparr>tk_type = ARCH_ENDIAN, tk_transmiter_id = 0x0A000001, tk_seq = -2,
     tk_proc_id = 0x0A000002, tk_aru = 7, tk_aru_last_id = 0, tk_flow_control = 300,
     tk_rtr_len = 40, tk_conf_hash = 99\<rparr>"

definition packet_header_example :: packet_header where
  "packet_header_example = \<lparr>ph_type = ARCH_ENDIAN OR SAFE_TYPE, ph_transmiter_id = 0x0A000001,
     ph_proc_id = 0x0A000001, ph_memb_id = \<lparr>mid_proc_id = 0x0A000001, mid_time = 1000\<rparr>,
     ph_seq = 12, ph_fifo_seq = 3, ph_packet_index = -1, ph_data_len = 100, ph_conf_hash = 99\<rparr>"

theorem headers_flip_back_witness:
  "Flip_pack (Flip_pack packet_header_example) = packet_header_example
    \<and> Flip_token (Flip_token token_header_example) = token_header_example"
  using headers_flip_back [of packet_header_example token_header_example]
  by (simp add: wf_packet_header_def wf_token_header_def is_int16_def is_int32_def
      packet_header_example_def token_header_example_def)

text \<open>
  The two counters of the token's type word do not disturb each other or the rest of the
  word, and each counts modulo 16.
\<close>

theorem token_counters:
  "Get_arq (Set_arq t v) = v mod 16 \<and> Get_retrans (Set_retrans t v) = v mod 16
   \<and> Get_arq (Set_retrans t v) = Get_arq t \<and> Get_retrans (Set_arq t v) = Get_retrans t
   \<and> Set_arq t v AND NOT ARQ_TYPE = t AND NOT ARQ_TYPE
   \<and> Set_retrans t v AND NOT RETRANS_TYPE = t AND NOT RETRANS_TYPE"
proof -
  have "((t AND NOT m) OR (u AND m)) AND NOT m = t AND NOT m" for t u m :: "32 word"
    by (rule bit_word_eqI) (auto simp: bit_simps)
  then show ?thesis by (simp, simp add: Set_arq_def Set_retrans_def)
qed

end
