(* ===== verification/Events.thy ===== *)
theory Events
  imports Net_Types
begin

section \<open>The event system: timers and file descriptors\<close>

text \<open>
  Model of \<open>daemon/events.c\<close>. The first half is the queue of time events (\<open>Time_queue\<close>): one
  entry per (function, code, data), kept in time order by \<open>E_queue\<close>. The second half is the
  registration of file descriptors in \<open>Fd_queue\<close> and the select masks \<open>Fd_mask\<close> derived from
  it. \<open>gettimeofday\<close> is the field \<open>time_of_day\<close>: its \<open>n\<close>-th answer. The locale \<open>timer_queue\<close>
  is the contract the membership algorithm relies on (arm, cancel, the set of pending
  timers); it is interpreted on \<open>E_queue\<close> and \<open>E_dequeue\<close> at the end of the first half.
\<close>

subsection \<open>Times\<close>

datatype sp_time = Sp_time (sec: int) (usec: int)

definition E_sub_time :: "sp_time \<Rightarrow> sp_time \<Rightarrow> sp_time" where
  "E_sub_time t delta_t =
     (let s = sec t - sec delta_t; u = usec t - usec delta_t
      in if u < 0 then Sp_time (s - 1) (u + 1000000) else Sp_time s u)"

definition E_add_time :: "sp_time \<Rightarrow> sp_time \<Rightarrow> sp_time" where
  "E_add_time t delta_t =
     (let s = sec t + sec delta_t; u = usec t + usec delta_t
      in if u > 1000000 then Sp_time (s + 1) (u - 1000000) else Sp_time s u)"

definition E_compare_time :: "sp_time \<Rightarrow> sp_time \<Rightarrow> int" where
  "E_compare_time t1 t2 =
     (if sec t1 > sec t2 then 1
      else if sec t1 < sec t2 then -1
      else if usec t1 > usec t2 then 1
      else if usec t1 < usec t2 then -1
      else 0)"

instantiation sp_time :: linorder
begin

definition less_eq_sp_time :: "sp_time \<Rightarrow> sp_time \<Rightarrow> bool" where
  "less_eq_sp_time t1 t2 \<longleftrightarrow> sec t1 < sec t2 \<or> sec t1 = sec t2 \<and> usec t1 \<le> usec t2"

definition less_sp_time :: "sp_time \<Rightarrow> sp_time \<Rightarrow> bool" where
  "less_sp_time t1 t2 \<longleftrightarrow> sec t1 < sec t2 \<or> sec t1 = sec t2 \<and> usec t1 < usec t2"

instance
  by standard (auto simp: less_eq_sp_time_def less_sp_time_def sp_time.expand)

end

text \<open>Microseconds a time stands for, and the times with a proper microsecond part.\<close>

definition micros :: "sp_time \<Rightarrow> int" where
  "micros t = sec t * 1000000 + usec t"

definition normal_time :: "sp_time \<Rightarrow> bool" where
  "normal_time t \<longleftrightarrow> 0 \<le> usec t \<and> usec t < 1000000"

subsection \<open>Time events\<close>

text \<open>
  The callbacks the protocol, membership and network modules queue. A function pointer is
  compared for identity only, so each callback is a constructor.
\<close>

datatype timer_fn =
    T_Memb_token_loss | T_Prot_token_hurry | T_Send_join | T_Form_or_fail | T_Scast_alive
  | T_Gather_or_represented | T_Shift_to_seg | T_Memb_lookup_new_members | T_Clear_partition_cb

record time_event =
  te_t :: sp_time
  te_func :: timer_fn
  te_code :: int
  te_data :: nat

record ev_st =
  Time_queue :: "time_event list"
  Now :: sp_time
  time_of_day :: "nat \<Rightarrow> sp_time"
  time_reads :: nat

definition E_get_time :: "'a ev_st_scheme \<Rightarrow> sp_time \<times> 'a ev_st_scheme" where
  "E_get_time s =
     (let t = time_of_day s (time_reads s)
      in (t, s\<lparr>Now := t, time_reads := Suc (time_reads s)\<rparr>))"

definition same_event :: "time_event \<Rightarrow> timer_fn \<Rightarrow> int \<Rightarrow> nat \<Rightarrow> bool" where
  "same_event e f code data \<longleftrightarrow> te_func e = f \<and> te_data e = data \<and> te_code e = code"

text \<open>
  The \<open>while\<close> loop of \<open>E_queue\<close> from \<open>t_post\<close> on: it deletes an event with the same key,
  inserts before the first later event, and stops when both are done.
\<close>

fun E_queue_scan :: "time_event \<Rightarrow> bool \<Rightarrow> bool \<Rightarrow> time_event list \<Rightarrow> time_event list" where
  "E_queue_scan e inserted deleted [] = (if inserted then [] else [e])"
| "E_queue_scan e inserted deleted (p # rest) =
     (if inserted \<and> deleted then p # rest
      else if same_event p (te_func e) (te_code e) (te_data e)
      then E_queue_scan e inserted True rest
      else if \<not> inserted \<and> E_compare_time (te_t e) (te_t p) < 0
      then e # p # E_queue_scan e True deleted rest
      else p # E_queue_scan e inserted deleted rest)"

definition E_queue_event :: "time_event \<Rightarrow> time_event list \<Rightarrow> time_event list" where
  "E_queue_event e q =
     (let deleted = (case q of [] \<Rightarrow> False
                     | h # _ \<Rightarrow> same_event h (te_func e) (te_code e) (te_data e));
          q1 = (if deleted then tl q else q)
      in case q1 of [] \<Rightarrow> [e]
         | h # rest \<Rightarrow>
             if E_compare_time (te_t e) (te_t h) < 0
             then e # E_queue_scan e True deleted (h # rest)
             else h # E_queue_scan e False deleted rest)"

definition E_queue :: "timer_fn \<Rightarrow> int \<Rightarrow> nat \<Rightarrow> sp_time \<Rightarrow> 'a ev_st_scheme \<Rightarrow> 'a ev_st_scheme" where
  "E_queue f code data delta_time s =
     (let (now, s1) = E_get_time s;
          e = \<lparr>te_t = E_add_time now delta_time, te_func = f, te_code = code, te_data = data\<rparr>
      in s1\<lparr>Time_queue := E_queue_event e (Time_queue s1)\<rparr>)"

fun E_dequeue_scan :: "timer_fn \<Rightarrow> int \<Rightarrow> nat \<Rightarrow> time_event list \<Rightarrow> (time_event list) option" where
  "E_dequeue_scan f code data [] = None"
| "E_dequeue_scan f code data (p # rest) =
     (if same_event p f code data then Some rest
      else map_option (Cons p) (E_dequeue_scan f code data rest))"

definition E_dequeue :: "timer_fn \<Rightarrow> int \<Rightarrow> nat \<Rightarrow> 'a ev_st_scheme \<Rightarrow> int \<times> 'a ev_st_scheme" where
  "E_dequeue f code data s =
     (case E_dequeue_scan f code data (Time_queue s) of
        None \<Rightarrow> (-1, s)
      | Some q \<Rightarrow> (0, s\<lparr>Time_queue := q\<rparr>))"

text \<open>
  One turn of the loop of \<open>E_handle_events\<close> over the time events: the head is taken off and
  executed when it is due, otherwise the select timeout is the time left. \<open>first\<close> is the
  flag that keeps timers from firing before the first poll.
\<close>

definition long_timeout :: sp_time where "long_timeout = Sp_time 10000 0"

definition E_time_step ::
  "bool \<Rightarrow> 'a ev_st_scheme \<Rightarrow> time_event option \<times> sp_time \<times> 'a ev_st_scheme" where
  "E_time_step first s =
     (case Time_queue s of
        [] \<Rightarrow> (None, long_timeout, s)
      | h # q \<Rightarrow>
          (let s1 = snd (E_get_time s)
           in if \<not> first \<and> E_compare_time (Now s1) (te_t h) \<ge> 0
              then (Some h, long_timeout, s1\<lparr>Time_queue := q\<rparr>)
              else (let timeout = E_sub_time (te_t h) (Now s1)
                    in (None, if sec timeout < 0 then Sp_time 0 0 else timeout, s1))))"

subsection \<open>Time arithmetic\<close>

lemma E_compare_time_less: "E_compare_time a b < 0 \<longleftrightarrow> a < b"
  by (auto simp: E_compare_time_def less_sp_time_def)

lemma E_compare_time_le: "E_compare_time a b \<le> 0 \<longleftrightarrow> a \<le> b"
  by (auto simp: E_compare_time_def less_eq_sp_time_def)

lemma E_compare_time_ge: "E_compare_time a b \<ge> 0 \<longleftrightarrow> b \<le> a"
  by (auto simp: E_compare_time_def less_eq_sp_time_def)

lemma micros_E_add_time: "micros (E_add_time t d) = micros t + micros d"
  by (simp add: micros_def E_add_time_def Let_def)

lemma micros_E_sub_time: "micros (E_sub_time t d) = micros t - micros d"
  by (simp add: micros_def E_sub_time_def Let_def)

lemma normal_E_sub_time: "normal_time t \<Longrightarrow> normal_time d \<Longrightarrow> normal_time (E_sub_time t d)"
  by (auto simp: normal_time_def E_sub_time_def Let_def)

lemma micros_less_iff: "normal_time a \<Longrightarrow> normal_time b \<Longrightarrow> micros a < micros b \<longleftrightarrow> a < b"
  by (auto simp: micros_def normal_time_def less_sp_time_def)

subsection \<open>The timer queue: order, uniqueness, and what each operation leaves\<close>

definition event_key :: "time_event \<Rightarrow> timer_fn \<times> int \<times> nat" where
  "event_key e = (te_func e, te_code e, te_data e)"

text \<open>The queue's invariant: in time order, one event per key.\<close>

definition tq_ok :: "time_event list \<Rightarrow> bool" where
  "tq_ok q \<longleftrightarrow> sorted (map te_t q) \<and> distinct (map event_key q)"

text \<open>
  The specification of \<open>E_queue\<close>: drop the event with the same key, then insert behind every
  event that is not later.
\<close>

definition tq_without :: "timer_fn \<times> int \<times> nat \<Rightarrow> time_event list \<Rightarrow> time_event list" where
  "tq_without k q = filter (\<lambda>p. event_key p \<noteq> k) q"

fun tq_insert :: "time_event \<Rightarrow> time_event list \<Rightarrow> time_event list" where
  "tq_insert e [] = [e]"
| "tq_insert e (p # q) = (if te_t e < te_t p then e # p # q else p # tq_insert e q)"

lemma same_event_key: "same_event p f c d \<longleftrightarrow> event_key p = (f, c, d)"
  by (auto simp: same_event_def event_key_def)

lemma key_of_event: "(te_func e, te_code e, te_data e) = event_key e"
  by (simp add: event_key_def)

lemma tq_without_Nil [simp]: "tq_without k [] = []"
  by (simp add: tq_without_def)

lemma tq_without_Cons:
  "tq_without k (p # q) = (if event_key p = k then tq_without k q else p # tq_without k q)"
  by (simp add: tq_without_def)

lemma tq_without_id: "k \<notin> event_key ` set q \<Longrightarrow> tq_without k q = q"
  by (induction q) (auto simp: tq_without_Cons)

lemma E_queue_scan_inserted:
  assumes "distinct (map event_key q)" and "deleted \<Longrightarrow> event_key e \<notin> event_key ` set q"
  shows "E_queue_scan e True deleted q = tq_without (event_key e) q"
  using assms
  by (induction q arbitrary: deleted)
    (auto simp: same_event_key key_of_event tq_without_Cons tq_without_id)

lemma E_queue_scan_spec:
  assumes "distinct (map event_key q)" and "deleted \<Longrightarrow> event_key e \<notin> event_key ` set q"
  shows "E_queue_scan e False deleted q = tq_insert e (tq_without (event_key e) q)"
  using assms
proof (induction q arbitrary: deleted)
  case (Cons p q)
  have d: "distinct (map event_key q)" using Cons.prems by simp
  show ?case
  proof (cases "event_key p = event_key e")
    case True
    then have "event_key e \<notin> event_key ` set q" using Cons.prems(1) by force
    with Cons.IH [OF d, of True] True show ?thesis
      by (simp add: same_event_key key_of_event tq_without_Cons)
  next
    case False
    have "deleted \<Longrightarrow> event_key e \<notin> event_key ` set q" using Cons.prems(2) by simp
    with Cons.IH [OF d, of deleted] E_queue_scan_inserted [OF d, of deleted e] False show ?thesis
      by (simp add: same_event_key key_of_event tq_without_Cons E_compare_time_less)
  qed
qed simp

lemma E_queue_event_spec:
  assumes "distinct (map event_key q)"
  shows "E_queue_event e q = tq_insert e (tq_without (event_key e) q)"
proof (cases q)
  case Nil
  then show ?thesis by (simp add: E_queue_event_def)
next
  case (Cons h t)
  have dt: "distinct (map event_key t)" and hn: "event_key h \<notin> event_key ` set t"
    using assms Cons by auto
  show ?thesis
  proof (cases "event_key h = event_key e")
    case False
    have "h # E_queue_scan e False False t = tq_insert e (tq_without (event_key e) (h # t))"
      if "\<not> te_t e < te_t h"
      using E_queue_scan_spec [OF dt, of False e] that False by (simp add: tq_without_Cons)
    moreover have "e # E_queue_scan e True False (h # t) = tq_insert e (tq_without (event_key e) (h # t))"
      if "te_t e < te_t h"
      using E_queue_scan_inserted [OF dt, of False e] that False
      by (simp add: tq_without_Cons same_event_key key_of_event)
    ultimately show ?thesis
      using False Cons
      by (simp add: E_queue_event_def same_event_key key_of_event E_compare_time_less
          del: E_queue_scan.simps)
  next
    case True
    then have ne: "event_key e \<notin> event_key ` set t" using hn by simp
    have "E_queue_event e q = tq_insert e t"
    proof (cases t)
      case Nil
      then show ?thesis using True Cons by (simp add: E_queue_event_def same_event_key key_of_event)
    next
      case t: (Cons h2 t2)
      have d2: "distinct (map event_key t2)" and ne2: "event_key e \<notin> event_key ` set t2"
        using dt ne t by auto
      have "E_queue_scan e False True t2 = tq_insert e t2"
        using E_queue_scan_spec [OF d2, of True e] ne2 by (simp add: tq_without_id)
      then show ?thesis using True Cons t
        by (simp add: E_queue_event_def same_event_key key_of_event E_compare_time_less)
    qed
    then show ?thesis using True Cons ne by (simp add: tq_without_Cons tq_without_id)
  qed
qed

lemma set_tq_insert [simp]: "set (tq_insert e q) = insert e (set q)"
  by (induction q) auto

lemma sorted_tq_insert: "sorted (map te_t q) \<Longrightarrow> sorted (map te_t (tq_insert e q))"
  by (induction q) (auto simp: less_imp_le)

lemma distinct_tq_insert:
  "distinct (map event_key q) \<Longrightarrow> event_key e \<notin> event_key ` set q
    \<Longrightarrow> distinct (map event_key (tq_insert e q))"
  by (induction q) auto

lemma sorted_tq_without: "sorted (map te_t q) \<Longrightarrow> sorted (map te_t (tq_without k q))"
  by (induction q) (auto simp: tq_without_def)

lemma keys_tq_without: "event_key ` set (tq_without k q) = event_key ` set q - {k}"
  by (auto simp: tq_without_def)

lemma distinct_tq_without: "distinct (map event_key q) \<Longrightarrow> distinct (map event_key (tq_without k q))"
  by (induction q) (auto simp: tq_without_def)

lemma tq_ok_E_queue_event: "tq_ok q \<Longrightarrow> tq_ok (E_queue_event e q)"
proof -
  have "event_key e \<notin> event_key ` set (tq_without (event_key e) q)"
    by (simp add: keys_tq_without)
  then show "tq_ok q \<Longrightarrow> tq_ok (E_queue_event e q)"
    by (simp add: tq_ok_def E_queue_event_spec sorted_tq_insert sorted_tq_without
        distinct_tq_insert distinct_tq_without)
qed

lemma E_dequeue_scan_spec:
  assumes "distinct (map event_key q)"
  shows "E_dequeue_scan f c d q =
    (if (f, c, d) \<in> event_key ` set q then Some (tq_without (f, c, d) q) else None)"
  using assms
proof (induction q)
  case (Cons p q)
  have IH: "E_dequeue_scan f c d q =
    (if (f, c, d) \<in> event_key ` set q then Some (tq_without (f, c, d) q) else None)"
    using Cons by simp
  show ?case
  proof (cases "event_key p = (f, c, d)")
    case True
    then have "(f, c, d) \<notin> event_key ` set q" using Cons.prems by force
    with True show ?thesis by (simp add: same_event_key tq_without_Cons tq_without_id)
  next
    case False
    then have "(f, c, d) \<in> event_key ` set (p # q) \<longleftrightarrow> (f, c, d) \<in> event_key ` set q" by auto
    with False IH show ?thesis by (simp add: same_event_key tq_without_Cons)
  qed
qed simp

subsection \<open>The contract of the timer queue\<close>

locale timer_queue =
  fixes arm :: "'k \<Rightarrow> 'd \<Rightarrow> 's \<Rightarrow> 's"
    and cancel :: "'k \<Rightarrow> 's \<Rightarrow> 's"
    and pending :: "'s \<Rightarrow> 'k set"
    and ok :: "'s \<Rightarrow> bool"
  assumes ok_arm: "ok s \<Longrightarrow> ok (arm k d s)"
    and ok_cancel: "ok s \<Longrightarrow> ok (cancel k s)"
    and pending_arm: "ok s \<Longrightarrow> pending (arm k d s) = insert k (pending s)"
    and pending_cancel: "ok s \<Longrightarrow> pending (cancel k s) = pending s - {k}"
begin

lemma ok_cancel_all: "ok s \<Longrightarrow> ok (fold cancel ks s)"
  by (induction ks arbitrary: s) (simp_all add: ok_cancel)

lemma pending_cancel_all: "ok s \<Longrightarrow> pending (fold cancel ks s) = pending s - set ks"
  by (induction ks arbitrary: s) (auto simp: ok_cancel pending_cancel)

lemma rearm: "ok s \<Longrightarrow> pending (arm k d (arm k d' s)) = pending (arm k d s)"
  by (simp add: pending_arm ok_arm)

lemma cancel_armed: "ok s \<Longrightarrow> k \<notin> pending s \<Longrightarrow> pending (cancel k (arm k d s)) = pending s"
  by (auto simp: pending_arm pending_cancel ok_arm)

end

definition timers_ok :: "'a ev_st_scheme \<Rightarrow> bool" where
  "timers_ok s \<longleftrightarrow> tq_ok (Time_queue s)"

definition pending :: "'a ev_st_scheme \<Rightarrow> (timer_fn \<times> int \<times> nat) set" where
  "pending s = event_key ` set (Time_queue s)"

definition E_arm :: "timer_fn \<times> int \<times> nat \<Rightarrow> sp_time \<Rightarrow> 'a ev_st_scheme \<Rightarrow> 'a ev_st_scheme" where
  "E_arm k d s = E_queue (fst k) (fst (snd k)) (snd (snd k)) d s"

definition E_cancel :: "timer_fn \<times> int \<times> nat \<Rightarrow> 'a ev_st_scheme \<Rightarrow> 'a ev_st_scheme" where
  "E_cancel k s = snd (E_dequeue (fst k) (fst (snd k)) (snd (snd k)) s)"

lemma timers_ok_E_queue [simp, intro]: "timers_ok s \<Longrightarrow> timers_ok (E_queue f c d t s)"
  by (simp add: timers_ok_def E_queue_def E_get_time_def Let_def tq_ok_E_queue_event)

lemma pending_E_queue [simp]: "timers_ok s \<Longrightarrow> pending (E_queue f c d t s) = insert (f, c, d) (pending s)"
  by (auto simp: timers_ok_def tq_ok_def pending_def E_queue_def E_get_time_def Let_def
      E_queue_event_spec event_key_def tq_without_def)

lemma timers_ok_E_dequeue [simp, intro]: "timers_ok s \<Longrightarrow> timers_ok (snd (E_dequeue f c d s))"
  by (auto simp: timers_ok_def E_dequeue_def tq_ok_def E_dequeue_scan_spec sorted_tq_without
      distinct_tq_without split: option.splits)

lemma pending_E_dequeue [simp]: "timers_ok s \<Longrightarrow> pending (snd (E_dequeue f c d s)) = pending s - {(f, c, d)}"
  by (auto simp: timers_ok_def tq_ok_def pending_def E_dequeue_def E_dequeue_scan_spec
      keys_tq_without split: option.splits)

interpretation tq: timer_queue E_arm E_cancel pending timers_ok
  by unfold_locales (auto simp: E_arm_def E_cancel_def)


subsection \<open>File descriptors\<close>

definition NUM_PRIORITY :: int where "NUM_PRIORITY = 3"
definition LOW_PRIORITY :: int where "LOW_PRIORITY = 0"
definition NUM_FDTYPES :: int where "NUM_FDTYPES = 3"
definition MAX_FD_EVENTS :: int where "MAX_FD_EVENTS = 2000"
definition FD_SETSIZE :: int where "FD_SETSIZE = 1024"

lemmas fd_consts = NUM_PRIORITY_def LOW_PRIORITY_def NUM_FDTYPES_def MAX_FD_EVENTS_def FD_SETSIZE_def

text \<open>
  \<open>fe_func\<close> names the handler and \<open>fe_data\<close> its argument. The events array of a queue is
  the list \<open>fq_events\<close>, whose length is \<open>num_fds\<close>; \<open>num_active_fds\<close> is the counter the
  code keeps beside it. \<open>Fd_mask\<close> has one set of descriptors per descriptor type.
\<close>

record fd_event =
  fe_fd :: int
  fe_type :: int
  fe_func :: nat
  fe_code :: int
  fe_data :: nat
  fe_active :: bool

record fd_queue =
  num_active_fds :: int
  fq_events :: "fd_event list"

record fd_st =
  Fd_queue :: "fd_queue list"
  Fd_mask :: "int set list"
  Active_priority :: int

definition E_init_fds :: fd_st where
  "E_init_fds = \<lparr>Fd_queue = replicate (nat NUM_PRIORITY) \<lparr>num_active_fds = 0, fq_events = []\<rparr>,
     Fd_mask = replicate (nat NUM_FDTYPES) {}, Active_priority = LOW_PRIORITY\<rparr>"

text \<open>
  \<open>FD_SET\<close> and \<open>FD_CLR\<close> on \<open>Fd_mask[fd_type]\<close>: undefined outside the mask array or for a
  descriptor an \<open>fd_set\<close> has no bit for.
\<close>

definition FD_SET :: "string \<Rightarrow> int \<Rightarrow> int \<Rightarrow> fd_st \<Rightarrow> fd_st outcome" where
  "FD_SET who fd t s =
     (if 0 \<le> t \<and> t < NUM_FDTYPES \<and> 0 \<le> fd \<and> fd < FD_SETSIZE
      then Inr (s\<lparr>Fd_mask := (Fd_mask s)[nat t := insert fd (Fd_mask s ! nat t)]\<rparr>)
      else Inl (Undefined who))"

definition FD_CLR :: "string \<Rightarrow> int \<Rightarrow> int \<Rightarrow> fd_st \<Rightarrow> fd_st outcome" where
  "FD_CLR who fd t s =
     (if 0 \<le> t \<and> t < NUM_FDTYPES \<and> 0 \<le> fd \<and> fd < FD_SETSIZE
      then Inr (s\<lparr>Fd_mask := (Fd_mask s)[nat t := Fd_mask s ! nat t - {fd}]\<rparr>)
      else Inl (Undefined who))"

definition fd_match :: "int \<Rightarrow> int \<Rightarrow> fd_event \<Rightarrow> bool" where
  "fd_match fd t e \<longleftrightarrow> fe_fd e = fd \<and> fe_type e = t"

definition put_queue :: "int \<Rightarrow> fd_queue \<Rightarrow> fd_st \<Rightarrow> fd_st" where
  "put_queue p q s = s\<lparr>Fd_queue := (Fd_queue s)[nat p := q]\<rparr>"

definition E_attach_fd ::
  "int \<Rightarrow> int \<Rightarrow> nat \<Rightarrow> int \<Rightarrow> nat \<Rightarrow> int \<Rightarrow> fd_st \<Rightarrow> (int \<times> fd_st) outcome" where
  "E_attach_fd fd fd_type func code data priority s =
     (if priority < 0 \<or> priority > NUM_PRIORITY then Inr (-1, s)
      else if fd_type < 0 \<or> fd_type > NUM_FDTYPES then Inr (-1, s)
      else if fd < 0 \<or> fd > FD_SETSIZE then Inr (-1, s)
      else if priority = NUM_PRIORITY then Inl (Undefined ''E_attach_fd'')
      else
        let q = Fd_queue s ! nat priority;
            j = find_index (fd_match fd fd_type) (fq_events q)
        in if j \<noteq> -1 then
             (let e = fq_events q ! nat j;
                  e' = e\<lparr>fe_func := func, fe_code := code, fe_data := data, fe_active := True\<rparr>
              in Inr (1, put_queue priority
                   \<lparr>num_active_fds = num_active_fds q + (if fe_active e then 0 else 1),
                    fq_events = (fq_events q)[nat j := e']\<rparr> s))
           else if int (length (fq_events q)) = MAX_FD_EVENTS then Inr (-1, s)
           else
             (let e = \<lparr>fe_fd = fd, fe_type = fd_type, fe_func = func, fe_code = code,
                       fe_data = data, fe_active = True\<rparr>;
                  s1 = put_queue priority
                         \<lparr>num_active_fds = num_active_fds q + 1, fq_events = fq_events q @ [e]\<rparr> s
              in if Active_priority s \<le> priority
                 then bindE (FD_SET ''E_attach_fd'' fd fd_type s1) (\<lambda>s2. Inr (0, s2))
                 else Inr (0, s1)))"

text \<open>
  The loop over the priorities that \<open>E_detach_fd\<close>, \<open>E_deactivate_fd\<close> and \<open>E_activate_fd\<close>
  share: \<open>act i j q s\<close> treats the first match (index \<open>j\<close>) in queue \<open>i\<close>; the flag says
  whether any queue had one.
\<close>

fun fd_priorities ::
  "(int \<Rightarrow> int \<Rightarrow> fd_queue \<Rightarrow> fd_st \<Rightarrow> fd_st outcome) \<Rightarrow> int \<Rightarrow> int \<Rightarrow> int list \<Rightarrow> bool
     \<Rightarrow> fd_st \<Rightarrow> (bool \<times> fd_st) outcome" where
  "fd_priorities act fd t [] found s = Inr (found, s)"
| "fd_priorities act fd t (i # is) found s =
     (let q = Fd_queue s ! nat i; j = find_index (fd_match fd t) (fq_events q)
      in if j = -1 then fd_priorities act fd t is found s
         else bindE (act i j q s) (fd_priorities act fd t is True))"

definition fd_operation ::
  "(int \<Rightarrow> int \<Rightarrow> fd_queue \<Rightarrow> fd_st \<Rightarrow> fd_st outcome) \<Rightarrow> int \<Rightarrow> int \<Rightarrow> fd_st \<Rightarrow> (int \<times> fd_st) outcome" where
  "fd_operation act fd fd_type s =
     (if fd_type < 0 \<or> fd_type > NUM_FDTYPES then Inr (-1, s)
      else bindE (fd_priorities act fd fd_type [0, 1, 2] False s)
             (\<lambda>(found, s'). Inr (if found then 0 else -1, s')))"

definition E_detach_fd :: "int \<Rightarrow> int \<Rightarrow> fd_st \<Rightarrow> (int \<times> fd_st) outcome" where
  "E_detach_fd fd fd_type = fd_operation (\<lambda>i j q s.
     let e = fq_events q ! nat j;
         q' = \<lparr>num_active_fds = num_active_fds q - (if fe_active e then 1 else 0),
               fq_events = swap_remove (fq_events q) (nat j)\<rparr>
     in FD_CLR ''E_detach_fd'' fd fd_type (put_queue i q' s)) fd fd_type"

definition E_deactivate_fd :: "int \<Rightarrow> int \<Rightarrow> fd_st \<Rightarrow> (int \<times> fd_st) outcome" where
  "E_deactivate_fd fd fd_type = fd_operation (\<lambda>i j q s.
     let e = fq_events q ! nat j;
         q' = \<lparr>num_active_fds = num_active_fds q - (if fe_active e then 1 else 0),
               fq_events = (fq_events q)[nat j := e\<lparr>fe_active := False\<rparr>]\<rparr>
     in FD_CLR ''E_deactivate_fd'' fd fd_type (put_queue i q' s)) fd fd_type"

definition E_activate_fd :: "int \<Rightarrow> int \<Rightarrow> fd_st \<Rightarrow> (int \<times> fd_st) outcome" where
  "E_activate_fd fd fd_type = fd_operation (\<lambda>i j q s.
     let e = fq_events q ! nat j;
         q' = \<lparr>num_active_fds = num_active_fds q + (if fe_active e then 0 else 1),
               fq_events = (fq_events q)[nat j := e\<lparr>fe_active := True\<rparr>]\<rparr>;
         s1 = put_queue i q' s
     in if i \<ge> Active_priority s then FD_SET ''E_activate_fd'' fd fd_type s1 else Inr s1) fd fd_type"

definition E_set_active_threshold :: "int \<Rightarrow> fd_st \<Rightarrow> (int \<times> fd_st) outcome" where
  "E_set_active_threshold priority s =
     (if priority < 0 \<or> priority > NUM_PRIORITY then Inr (-1, s)
      else if priority = Active_priority s then Inr (priority, s)
      else
        (let s1 = s\<lparr>Active_priority := priority, Fd_mask := replicate (nat NUM_FDTYPES) {}\<rparr>
         in bindE (for_each (\<lambda>i. for_each (\<lambda>e s'.
                if fe_active e then FD_SET ''E_set_active_threshold'' (fe_fd e) (fe_type e) s' else Inr s')
                (fq_events (Fd_queue s ! nat i))) [priority .. NUM_PRIORITY - 1] s1)
              (\<lambda>s2. Inr (priority, s2))))"

definition E_num_active :: "int \<Rightarrow> fd_st \<Rightarrow> int outcome" where
  "E_num_active priority s =
     (if priority < 0 \<or> priority > NUM_PRIORITY then Inr (-1)
      else if priority = NUM_PRIORITY then Inl (Undefined ''E_num_active'')
      else Inr (num_active_fds (Fd_queue s ! nat priority)))"


subsection \<open>The registration invariant\<close>

text \<open>
  \<open>queue_ok\<close>: the counter is the number of active events, a (descriptor, type) pair is
  registered once, and every registration has a mask. \<open>mask_sound\<close>: whatever \<open>select\<close> is
  asked to watch is an active registration at or above the active priority.
\<close>

definition fd_key :: "fd_event \<Rightarrow> int \<times> int" where
  "fd_key e = (fe_fd e, fe_type e)"

definition queue_ok :: "fd_queue \<Rightarrow> bool" where
  "queue_ok q \<longleftrightarrow> num_active_fds q = int (size (filter_mset fe_active (mset (fq_events q))))
     \<and> distinct (map fd_key (fq_events q))"

definition watched :: "fd_st \<Rightarrow> int \<Rightarrow> int \<Rightarrow> bool" where
  "watched s fd t \<longleftrightarrow> (\<exists>p \<in> {0, 1, 2}. Active_priority s \<le> int p \<and>
     (\<exists>e \<in> set (fq_events (Fd_queue s ! p)). fd_match fd t e \<and> fe_active e))"

definition mask_sound :: "fd_st \<Rightarrow> bool" where
  "mask_sound s \<longleftrightarrow> (\<forall>t \<in> {0, 1, 2}. \<forall>fd \<in> Fd_mask s ! t. watched s fd (int t))"

definition fd_ok :: "fd_st \<Rightarrow> bool" where
  "fd_ok s \<longleftrightarrow> length (Fd_queue s) = 3 \<and> length (Fd_mask s) = 3
     \<and> (\<forall>q \<in> set (Fd_queue s). queue_ok q) \<and> mask_sound s"

lemma fd_ok_init: "fd_ok E_init_fds"
  by (simp add: fd_ok_def E_init_fds_def fd_consts queue_ok_def mask_sound_def numeral_3_eq_3)

lemma queue_ok_update:
  assumes "queue_ok q" and j: "j < length (fq_events q)"
    and e': "fd_key e' = fd_key (fq_events q ! j)"
    and n: "n = num_active_fds q - (if fe_active (fq_events q ! j) then 1 else 0)
                  + (if fe_active e' then 1 else 0)"
  shows "queue_ok \<lparr>num_active_fds = n, fq_events = (fq_events q)[j := e']\<rparr>"
proof -
  let ?es = "fq_events q"
  have "?es ! j \<in># mset ?es" using j by simp
  then obtain M where M: "mset ?es = add_mset (?es ! j) M" by (metis mset_add)
  have "mset (?es[j := e']) = add_mset e' M" using mset_update [OF j, of e'] M by simp
  moreover have "distinct (map fd_key (?es[j := e']))"
    using assms(1) e' j by (simp add: queue_ok_def map_update)
      (metis length_map list_update_id map_update nth_map)
  ultimately show ?thesis using assms(1) M n by (simp add: queue_ok_def)
qed

lemma queue_ok_remove:
  assumes "queue_ok q" and j: "j < length (fq_events q)"
    and n: "n = num_active_fds q - (if fe_active (fq_events q ! j) then 1 else 0)"
  shows "queue_ok \<lparr>num_active_fds = n, fq_events = swap_remove (fq_events q) j\<rparr>"
proof -
  let ?es = "fq_events q"
  have "?es ! j \<in># mset ?es" using j by simp
  then obtain M where M: "mset ?es = add_mset (?es ! j) M" by (metis mset_add)
  have "mset (swap_remove ?es j) = M" using mset_swap_remove [OF j] M by simp
  moreover have "distinct (map fd_key (swap_remove ?es j))"
    using assms(1) by (rule_tac distinct_map_submset) (auto simp: queue_ok_def mset_swap_remove [OF j])
  ultimately show ?thesis using assms(1) M n by (simp add: queue_ok_def)
qed

lemma match_unique:
  assumes "queue_ok q" and "e \<in> set (fq_events q)" and "fd_match fd t e"
    and "e' \<in> set (fq_events q)" and "fd_match fd t e'"
  shows "e = e'"
  using assms by (auto simp: queue_ok_def fd_match_def fd_key_def distinct_map inj_on_def)

text \<open>The first match of a queue, as the three loops find it.\<close>

lemma first_match:
  assumes "find_index (fd_match fd t) es = j" and "j \<noteq> -1"
  shows "nat j < length es" and "fd_match fd t (es ! nat j)"
  using find_index_some [OF assms] by auto

lemma put_queue_simps [simp]:
  "Fd_mask (put_queue p q s) = Fd_mask s" "Active_priority (put_queue p q s) = Active_priority s"
  "length (Fd_queue (put_queue p q s)) = length (Fd_queue s)"
  by (simp_all add: put_queue_def)

lemma watched_put:
  assumes "watched s fd t" and "length (Fd_queue s) = 3"
    and "\<And>e. e \<in> set (fq_events (Fd_queue s ! nat p)) \<Longrightarrow> fd_match fd t e \<Longrightarrow> fe_active e \<Longrightarrow>
           \<exists>e' \<in> set (fq_events q'). fd_match fd t e' \<and> fe_active e'"
  shows "watched (put_queue p q' s) fd t"
proof -
  from assms(1) obtain n e where n: "n \<in> {0, 1, 2}" "Active_priority s \<le> int n"
    and e: "e \<in> set (fq_events (Fd_queue s ! n))" "fd_match fd t e" "fe_active e"
    unfolding watched_def by blast
  have "\<exists>e' \<in> set (fq_events (Fd_queue (put_queue p q' s) ! n)). fd_match fd t e' \<and> fe_active e'"
  proof (cases "n = nat p")
    case True
    then have "Fd_queue (put_queue p q' s) ! n = q'" using n assms(2) by (auto simp: put_queue_def)
    with assms(3) e True show ?thesis by simp
  next
    case False
    then show ?thesis using e by (auto simp: put_queue_def)
  qed
  with n show ?thesis unfolding watched_def by auto
qed

lemma queues_ok_put:
  assumes "\<forall>q \<in> set (Fd_queue s). queue_ok q" and "queue_ok q'"
  shows "\<forall>q \<in> set (Fd_queue (put_queue p q' s)). queue_ok q"
  using assms set_update_subset_insert [of "Fd_queue s" "nat p" q'] by (auto simp: put_queue_def)

lemma queue_ok_nth: "fd_ok s \<Longrightarrow> i \<in> {0, 1, 2} \<Longrightarrow> queue_ok (Fd_queue s ! nat i)"
  by (auto simp: fd_ok_def)

text \<open>Replacing a queue and clearing the bit, and replacing a queue and setting the bit.\<close>

lemma fd_ok_CLR:
  assumes "fd_ok s" and "queue_ok q'"
    and keep: "\<And>e. e \<in> set (fq_events (Fd_queue s ! nat i)) \<Longrightarrow> \<not> fd_match fd t e \<Longrightarrow> e \<in> set (fq_events q')"
  shows "lands (FD_CLR who fd t (put_queue i q' s)) fd_ok"
proof (cases "0 \<le> t \<and> t < 3 \<and> 0 \<le> fd \<and> fd < FD_SETSIZE")
  case True
  let ?s = "put_queue i q' s"
  let ?s' = "?s\<lparr>Fd_mask := (Fd_mask s)[nat t := Fd_mask s ! nat t - {fd}]\<rparr>"
  have len: "length (Fd_queue s) = 3" "length (Fd_mask s) = 3" and ms: "mask_sound s"
    using assms(1) by (auto simp: fd_ok_def)
  have "watched ?s' fd' (int n)" if n: "n \<in> {0, 1, 2}" and fd': "fd' \<in> Fd_mask ?s' ! n" for n fd'
  proof -
    have old: "fd' \<in> Fd_mask s ! n" and ne: "\<not> (fd' = fd \<and> int n = t)"
      using fd' n len True by (auto simp: nth_list_update split: if_splits)
    have "watched s fd' (int n)" using ms old n by (auto simp: mask_sound_def)
    then have "watched ?s fd' (int n)"
      using len(1) keep ne by (rule_tac watched_put) (auto simp: fd_match_def)
    then show ?thesis by (simp add: watched_def)
  qed
  then have "mask_sound ?s'" by (auto simp: mask_sound_def)
  moreover have "\<forall>q \<in> set (Fd_queue ?s'). queue_ok q"
    using queues_ok_put [of s q' i] assms by (simp add: fd_ok_def)
  ultimately show ?thesis using True len by (simp add: FD_CLR_def fd_consts fd_ok_def)
qed (auto simp: FD_CLR_def fd_consts)

lemma fd_ok_SET:
  assumes "fd_ok s" and "queue_ok q'" and i: "i \<in> {0, 1, 2}"
    and keep: "\<And>e. e \<in> set (fq_events (Fd_queue s ! nat i)) \<Longrightarrow> fe_active e \<Longrightarrow>
           \<exists>e' \<in> set (fq_events q'). fd_key e' = fd_key e \<and> fe_active e'"
    and new: "\<exists>e' \<in> set (fq_events q'). fd_match fd t e' \<and> fe_active e'"
    and pr: "Active_priority s \<le> i"
  shows "lands (FD_SET who fd t (put_queue i q' s)) fd_ok"
proof (cases "0 \<le> t \<and> t < 3 \<and> 0 \<le> fd \<and> fd < FD_SETSIZE")
  case True
  let ?s = "put_queue i q' s"
  let ?s' = "?s\<lparr>Fd_mask := (Fd_mask s)[nat t := insert fd (Fd_mask s ! nat t)]\<rparr>"
  have len: "length (Fd_queue s) = 3" "length (Fd_mask s) = 3" and ms: "mask_sound s"
    using assms(1) by (auto simp: fd_ok_def)
  have "Fd_queue ?s ! nat i = q'" using i len by (auto simp: put_queue_def)
  then have "watched ?s fd t"
    unfolding watched_def using new pr i by (intro bexI [of _ "nat i"]) auto
  moreover have "watched ?s fd' (int n)" if n: "n \<in> {0, 1, 2}" and old: "fd' \<in> Fd_mask s ! n" for n fd'
  proof -
    have "watched s fd' (int n)" using ms old n by (auto simp: mask_sound_def)
    then show ?thesis
      by (rule watched_put) (use len keep in \<open>force simp: fd_match_def fd_key_def\<close>)+
  qed
  moreover have "fd' \<in> Fd_mask s ! n \<or> (fd' = fd \<and> int n = t)"
    if "n \<in> {0, 1, 2}" and "fd' \<in> Fd_mask ?s' ! n" for n fd'
    using that len True by (auto simp: nth_list_update split: if_splits)
  ultimately have "\<forall>n \<in> {0, 1, 2}. \<forall>fd' \<in> Fd_mask ?s' ! n. watched ?s fd' (int n)" by blast
  then have "mask_sound ?s'" by (simp add: mask_sound_def watched_def)
  moreover have "\<forall>q \<in> set (Fd_queue ?s'). queue_ok q"
    using queues_ok_put [of s q' i] assms by (simp add: fd_ok_def)
  ultimately show ?thesis using True len by (simp add: FD_SET_def fd_consts fd_ok_def)
qed (auto simp: FD_SET_def fd_consts)

lemma fd_ok_keep:
  assumes "fd_ok s" and "queue_ok q'"
    and keep: "\<And>e. e \<in> set (fq_events (Fd_queue s ! nat i)) \<Longrightarrow> fe_active e \<Longrightarrow>
           \<exists>e' \<in> set (fq_events q'). fd_key e' = fd_key e \<and> fe_active e'"
  shows "fd_ok (put_queue i q' s)"
proof -
  have len: "length (Fd_queue s) = 3" and ms: "mask_sound s" using assms(1) by (auto simp: fd_ok_def)
  have "watched (put_queue i q' s) fd' (int n)" if n: "n \<in> {0, 1, 2}" and old: "fd' \<in> Fd_mask s ! n" for n fd'
  proof -
    have "watched s fd' (int n)" using ms old n by (auto simp: mask_sound_def)
    then show ?thesis
      by (rule watched_put) (use len keep in \<open>force simp: fd_match_def fd_key_def\<close>)+
  qed
  then show ?thesis using assms(1) queues_ok_put [of s q' i] assms(2)
    by (auto simp: fd_ok_def mask_sound_def)
qed

lemma lands_fd_priorities:
  assumes "\<And>i j s. i \<in> {0, 1, 2} \<Longrightarrow> fd_ok s \<Longrightarrow> j \<noteq> -1 \<Longrightarrow>
      find_index (fd_match fd t) (fq_events (Fd_queue s ! nat i)) = j \<Longrightarrow>
      lands (act i j (Fd_queue s ! nat i) s) fd_ok"
    and "set is \<subseteq> {0, 1, 2}" and "fd_ok s"
  shows "lands (fd_priorities act fd t is found s) (\<lambda>(b, s'). fd_ok s')"
  using assms(2,3)
proof (induction "is" arbitrary: found s)
  case (Cons i "is")
  let ?j = "find_index (fd_match fd t) (fq_events (Fd_queue s ! nat i))"
  show ?case
  proof (cases "?j = -1")
    case False
    then have "lands (act i ?j (Fd_queue s ! nat i) s) fd_ok"
      using assms(1) Cons.prems by auto
    then show ?thesis using False Cons by (auto simp: Let_def intro!: lands_seq)
  qed (use Cons in \<open>auto simp: Let_def\<close>)
qed simp

lemma lands_fd_operation:
  assumes "\<And>i j s. i \<in> {0, 1, 2} \<Longrightarrow> fd_ok s \<Longrightarrow> j \<noteq> -1 \<Longrightarrow>
      find_index (fd_match fd t) (fq_events (Fd_queue s ! nat i)) = j \<Longrightarrow>
      lands (act i j (Fd_queue s ! nat i) s) fd_ok"
    and "fd_ok s"
  shows "lands (fd_operation act fd t s) (\<lambda>(r, s'). fd_ok s')"
  unfolding fd_operation_def
  using assms lands_fd_priorities [of fd t act "[0, 1, 2]" s False]
  by (auto simp: lands_if intro!: lands_seq)

lemma E_detach_fd_ok: "fd_ok s \<Longrightarrow> lands (E_detach_fd fd t s) (\<lambda>(r, s'). fd_ok s')"
  unfolding E_detach_fd_def Let_def
proof (rule lands_fd_operation)
  fix i j s
  assume i: "i \<in> {0, 1, 2}" and s: "fd_ok s" and j: "j \<noteq> -1"
    and f: "find_index (fd_match fd t) (fq_events (Fd_queue s ! nat i)) = j"
  let ?q = "Fd_queue s ! nat i"
  note m = first_match [OF f j]
  have "e \<in> set (swap_remove (fq_events ?q) (nat j))"
    if e: "e \<in> set (fq_events ?q)" and ne: "\<not> fd_match fd t e" for e
    using e m ne by (intro in_set_swap_remove) auto
  then show "lands (FD_CLR ''E_detach_fd'' fd t (put_queue i
      \<lparr>num_active_fds = num_active_fds ?q - (if fe_active (fq_events ?q ! nat j) then 1 else 0),
       fq_events = swap_remove (fq_events ?q) (nat j)\<rparr> s)) fd_ok"
    using s queue_ok_remove [OF queue_ok_nth [OF s i] m(1) refl] by (intro fd_ok_CLR) auto
qed

lemma E_deactivate_fd_ok: "fd_ok s \<Longrightarrow> lands (E_deactivate_fd fd t s) (\<lambda>(r, s'). fd_ok s')"
  unfolding E_deactivate_fd_def Let_def
proof (rule lands_fd_operation)
  fix i j s
  assume i: "i \<in> {0, 1, 2}" and s: "fd_ok s" and j: "j \<noteq> -1"
    and f: "find_index (fd_match fd t) (fq_events (Fd_queue s ! nat i)) = j"
  let ?q = "Fd_queue s ! nat i"
  let ?e = "fq_events ?q ! nat j"
  note m = first_match [OF f j]
  have "e \<in> set ((fq_events ?q)[nat j := ?e\<lparr>fe_active := False\<rparr>])"
    if e: "e \<in> set (fq_events ?q)" and ne: "\<not> fd_match fd t e" for e
    using e m ne by (intro in_set_update_other) auto
  then show "lands (FD_CLR ''E_deactivate_fd'' fd t (put_queue i
      \<lparr>num_active_fds = num_active_fds ?q - (if fe_active ?e then 1 else 0),
       fq_events = (fq_events ?q)[nat j := ?e\<lparr>fe_active := False\<rparr>]\<rparr> s)) fd_ok"
    using s queue_ok_update [OF queue_ok_nth [OF s i] m(1), of "?e\<lparr>fe_active := False\<rparr>"]
    by (intro fd_ok_CLR) (auto simp: fd_key_def)
qed

lemma keep_active_update:
  assumes "e \<in> set es" and "fe_active e" and "j < length es"
    and "fd_key e' = fd_key (es ! j)" and "fe_active e'"
  shows "\<exists>x \<in> set (es[j := e']). fd_key x = fd_key e \<and> fe_active x"
proof -
  from assms(1) obtain k where k: "k < length es" "es ! k = e" by (auto simp: in_set_conv_nth)
  show ?thesis
  proof (cases "k = j")
    case True
    then show ?thesis using assms k by (intro bexI [of _ e']) (auto intro: set_update_memI)
  next
    case False
    then have "es[j := e'] ! k = e" using k by simp
    then have "e \<in> set (es[j := e'])" using k by (metis length_list_update nth_mem)
    with assms(2) show ?thesis by blast
  qed
qed

lemma E_activate_fd_ok: "fd_ok s \<Longrightarrow> lands (E_activate_fd fd t s) (\<lambda>(r, s'). fd_ok s')"
  unfolding E_activate_fd_def Let_def
proof (rule lands_fd_operation)
  fix i j s
  assume i: "i \<in> {0, 1, 2}" and s: "fd_ok s" and j: "j \<noteq> -1"
    and f: "find_index (fd_match fd t) (fq_events (Fd_queue s ! nat i)) = j"
  let ?q = "Fd_queue s ! nat i"
  let ?e = "fq_events ?q ! nat j"
  let ?q' = "\<lparr>num_active_fds = num_active_fds ?q + (if fe_active ?e then 0 else 1),
       fq_events = (fq_events ?q)[nat j := ?e\<lparr>fe_active := True\<rparr>]\<rparr>"
  note m = first_match [OF f j]
  have q': "queue_ok ?q'"
    using queue_ok_update [OF queue_ok_nth [OF s i] m(1), of "?e\<lparr>fe_active := True\<rparr>"]
    by (auto simp: fd_key_def)
  have keep: "\<exists>e' \<in> set (fq_events ?q'). fd_key e' = fd_key e \<and> fe_active e'"
    if "e \<in> set (fq_events ?q)" "fe_active e" for e
    using keep_active_update [OF that m(1), of "?e\<lparr>fe_active := True\<rparr>"] by (simp add: fd_key_def)
  have new: "\<exists>e' \<in> set (fq_events ?q'). fd_match fd t e' \<and> fe_active e'"
    using m by (intro bexI [of _ "?e\<lparr>fe_active := True\<rparr>"]) (auto simp: fd_match_def intro: set_update_memI)
  show "lands (if Active_priority s \<le> i then FD_SET ''E_activate_fd'' fd t (put_queue i ?q' s)
               else Inr (put_queue i ?q' s)) fd_ok"
    using fd_ok_SET [OF s q' i keep new] fd_ok_keep [OF s q' keep] by (auto simp: lands_if)
qed

lemma E_attach_fd_ok: "fd_ok s \<Longrightarrow> lands (E_attach_fd fd t func code data p s) (\<lambda>(r, s'). fd_ok s')"
proof (cases "0 \<le> p \<and> p < NUM_PRIORITY")
  case True
  assume s: "fd_ok s"
  let ?q = "Fd_queue s ! nat p"
  let ?j = "find_index (fd_match fd t) (fq_events ?q)"
  have p: "p \<in> {0, 1, 2}" using True by (auto simp: fd_consts)
  note q = queue_ok_nth [OF s p]
  show ?thesis
  proof (cases "?j = -1")
    case False
    note m = first_match [OF refl False]
    let ?e' = "(fq_events ?q ! nat ?j)\<lparr>fe_func := func, fe_code := code, fe_data := data, fe_active := True\<rparr>"
    have "fd_ok (put_queue p \<lparr>num_active_fds = num_active_fds ?q + (if fe_active (fq_events ?q ! nat ?j) then 0 else 1),
         fq_events = (fq_events ?q)[nat ?j := ?e']\<rparr> s)"
      using queue_ok_update [OF q m(1), of ?e'] keep_active_update [OF _ _ m(1), of _ ?e'] s
      by (intro fd_ok_keep) (auto simp: fd_key_def)
    then show ?thesis using False s by (auto simp: E_attach_fd_def Let_def lands_if)
  next
    case new: True
    let ?e = "\<lparr>fe_fd = fd, fe_type = t, fe_func = func, fe_code = code, fe_data = data, fe_active = True\<rparr>"
    let ?q' = "\<lparr>num_active_fds = num_active_fds ?q + 1, fq_events = fq_events ?q @ [?e]\<rparr>"
    have q': "queue_ok ?q'"
      using q new by (auto simp: queue_ok_def find_index_none fd_match_def fd_key_def)
    have keep: "\<exists>e' \<in> set (fq_events ?q'). fd_key e' = fd_key e \<and> fe_active e'"
      if "e \<in> set (fq_events ?q)" "fe_active e" for e using that by auto
    have hit: "\<exists>e' \<in> set (fq_events ?q'). fd_match fd t e' \<and> fe_active e'"
      by (auto simp: fd_match_def)
    have "lands (FD_SET ''E_attach_fd'' fd t (put_queue p ?q' s)) fd_ok" if "Active_priority s \<le> p"
      using fd_ok_SET [OF s q' p keep hit that] by simp
    moreover have "fd_ok (put_queue p ?q' s)" using fd_ok_keep [OF s q' keep] by simp
    ultimately show ?thesis using new s
      by (auto simp: E_attach_fd_def Let_def lands_if lands_bindE)
  qed
qed (auto simp: E_attach_fd_def lands_if fd_consts)

lemma put_same_queue: "put_queue i (Fd_queue s ! nat i) s = s"
  by (simp add: put_queue_def)

lemma E_set_active_threshold_ok:
  assumes s: "fd_ok s"
  shows "lands (E_set_active_threshold p s) (\<lambda>(r, s'). fd_ok s')"
proof (cases "0 \<le> p")
  case True
  let ?s1 = "s\<lparr>Active_priority := p, Fd_mask := replicate (nat NUM_FDTYPES) {}\<rparr>"
  let ?I = "\<lambda>s'. fd_ok s' \<and> Fd_queue s' = Fd_queue s \<and> Active_priority s' = p"
  have "?I ?s1"
    using s by (auto simp: fd_ok_def mask_sound_def fd_consts numeral_3_eq_3 numeral_2_eq_2)
  moreover have "lands (FD_SET ''E_set_active_threshold'' (fe_fd e) (fe_type e) s') ?I"
    if i: "i \<in> set [p .. NUM_PRIORITY - 1]" and s': "?I s'"
      and e: "e \<in> set (fq_events (Fd_queue s ! nat i))" "fe_active e" for i e s'
  proof -
    have i3: "i \<in> {0, 1, 2}" using i True by (auto simp: fd_consts)
    have "lands (FD_SET ''E_set_active_threshold'' (fe_fd e) (fe_type e)
        (put_queue i (Fd_queue s' ! nat i) s')) fd_ok"
    proof (rule fd_ok_SET)
      show "queue_ok (Fd_queue s' ! nat i)" using s' i3 by (intro queue_ok_nth) auto
      show "\<exists>e' \<in> set (fq_events (Fd_queue s' ! nat i)). fd_match (fe_fd e) (fe_type e) e' \<and> fe_active e'"
        using e s' by (auto simp: fd_match_def)
    qed (use s' i i3 in auto)
    then show ?thesis using s' unfolding put_same_queue by (auto simp: FD_SET_def lands_if)
  qed
  ultimately have "lands (for_each (\<lambda>i. for_each (\<lambda>e s'.
      if fe_active e then FD_SET ''E_set_active_threshold'' (fe_fd e) (fe_type e) s' else Inr s')
      (fq_events (Fd_queue s ! nat i))) [p .. NUM_PRIORITY - 1] ?s1) ?I"
    by (intro lands_for_each) (auto simp: lands_if simp del: set_upto)
  then show ?thesis using s
    unfolding E_set_active_threshold_def
    by (auto simp: lands_if lands_bindE Let_def elim!: lands_mono)
qed (simp add: E_set_active_threshold_def lands_if s)

text \<open>The calls of the interface, and a run of them.\<close>

datatype fd_call =
    Attach int int nat int nat int
  | Detach int int
  | Deactivate int int
  | Activate int int
  | Threshold int

fun fd_step :: "fd_call \<Rightarrow> fd_st \<Rightarrow> fd_st outcome" where
  "fd_step (Attach fd t func code data p) s = bindE (E_attach_fd fd t func code data p s) (\<lambda>(r, s'). Inr s')"
| "fd_step (Detach fd t) s = bindE (E_detach_fd fd t s) (\<lambda>(r, s'). Inr s')"
| "fd_step (Deactivate fd t) s = bindE (E_deactivate_fd fd t s) (\<lambda>(r, s'). Inr s')"
| "fd_step (Activate fd t) s = bindE (E_activate_fd fd t s) (\<lambda>(r, s'). Inr s')"
| "fd_step (Threshold p) s = bindE (E_set_active_threshold p s) (\<lambda>(r, s'). Inr s')"

lemma fd_step_ok: "fd_ok s \<Longrightarrow> lands (fd_step c s) fd_ok"
  by (cases c)
    (auto intro!: lands_seq E_attach_fd_ok E_detach_fd_ok E_deactivate_fd_ok E_activate_fd_ok
       E_set_active_threshold_ok)


lemma sorted_head_le:
  "tq_ok (h # q) \<Longrightarrow> e \<in> set (h # q) \<Longrightarrow> te_t h \<le> te_t e"
  by (auto simp: tq_ok_def)

subsection \<open>Properties\<close>

text \<open>
  C31: \<open>E_queue\<close> refines its specification. On an ordered queue with one event per (function,
  code, data) it drops the event with the same key, inserts the new one, due \<open>delta_time\<close>
  from now, behind every event that is not later, keeps the queue ordered and
  duplicate-free, and adds exactly that key to the pending ones.
\<close>

theorem E_queue_refines:
  assumes "timers_ok s"
  shows "Time_queue (E_queue f c d t s) =
           tq_insert \<lparr>te_t = E_add_time (time_of_day s (time_reads s)) t,
                      te_func = f, te_code = c, te_data = d\<rparr> (tq_without (f, c, d) (Time_queue s))
    \<and> timers_ok (E_queue f c d t s) \<and> pending (E_queue f c d t s) = insert (f, c, d) (pending s)"
proof -
  have "distinct (map event_key (Time_queue s))" using assms by (simp add: timers_ok_def tq_ok_def)
  then have "Time_queue (E_queue f c d t s) =
           tq_insert \<lparr>te_t = E_add_time (time_of_day s (time_reads s)) t,
                      te_func = f, te_code = c, te_data = d\<rparr> (tq_without (f, c, d) (Time_queue s))"
    by (simp add: E_queue_def E_get_time_def Let_def E_queue_event_spec event_key_def)
  with assms show ?thesis by simp
qed

definition ev_example :: ev_st where
  "ev_example = \<lparr>Time_queue = [\<lparr>te_t = Sp_time 5 0, te_func = T_Send_join, te_code = 0, te_data = 0\<rparr>,
       \<lparr>te_t = Sp_time 9 0, te_func = T_Form_or_fail, te_code = 0, te_data = 0\<rparr>],
     Now = Sp_time 0 0, time_of_day = (\<lambda>n. Sp_time (6 + int n) 999999), time_reads = 0\<rparr>"

lemma ev_example_ok: "timers_ok ev_example"
  by (simp add: ev_example_def timers_ok_def tq_ok_def event_key_def less_eq_sp_time_def)

theorem E_queue_refines_witness:
  "map te_t (Time_queue (E_queue T_Send_join 0 0 (Sp_time 1 0) ev_example)) = [Sp_time 7 999999, Sp_time 9 0]
    \<and> pending (E_queue T_Send_join 0 0 (Sp_time 1 0) ev_example) = {(T_Send_join, 0, 0), (T_Form_or_fail, 0, 0)}"
  using E_queue_refines [OF ev_example_ok, of T_Send_join 0 0 "Sp_time 1 0"]
  by (auto simp: ev_example_def tq_without_def event_key_def E_add_time_def pending_def less_sp_time_def)

text \<open>
  \<open>E_dequeue\<close> removes exactly the event with the given key: it returns 0 when the key was
  pending and -1 (queue untouched) when it was not; order and uniqueness are kept.
\<close>

theorem E_dequeue_refines:
  assumes "timers_ok s"
  shows "E_dequeue f c d s =
      (if (f, c, d) \<in> pending s then (0, s\<lparr>Time_queue := tq_without (f, c, d) (Time_queue s)\<rparr>) else (-1, s))
    \<and> timers_ok (snd (E_dequeue f c d s))
    \<and> pending (snd (E_dequeue f c d s)) = pending s - {(f, c, d)}"
proof -
  have "E_dequeue f c d s =
      (if (f, c, d) \<in> pending s then (0, s\<lparr>Time_queue := tq_without (f, c, d) (Time_queue s)\<rparr>) else (-1, s))"
    using assms by (simp add: E_dequeue_def E_dequeue_scan_spec timers_ok_def tq_ok_def pending_def)
  then show ?thesis using timers_ok_E_dequeue [OF assms] pending_E_dequeue [OF assms] by blast
qed

theorem E_dequeue_refines_witness:
  "fst (E_dequeue T_Form_or_fail 0 0 ev_example) = 0
    \<and> pending (snd (E_dequeue T_Form_or_fail 0 0 ev_example)) = {(T_Send_join, 0, 0)}
    \<and> E_dequeue T_Scast_alive 1 0 ev_example = (-1, ev_example)"
proof -
  have p: "pending ev_example = {(T_Send_join, 0, 0), (T_Form_or_fail, 0, 0)}"
    by (simp add: ev_example_def pending_def event_key_def)
  have "fst (E_dequeue T_Form_or_fail 0 0 ev_example) = 0"
    using E_dequeue_refines [OF ev_example_ok, of T_Form_or_fail 0 0] by (simp add: p)
  moreover have "pending (snd (E_dequeue T_Form_or_fail 0 0 ev_example)) = {(T_Send_join, 0, 0)}"
    unfolding pending_E_dequeue [OF ev_example_ok] by (auto simp: p)
  moreover have "E_dequeue T_Scast_alive 1 0 ev_example = (-1, ev_example)"
    using E_dequeue_refines [OF ev_example_ok, of T_Scast_alive 1 0] by (simp add: p)
  ultimately show ?thesis by blast
qed

text \<open>
  The event loop never fires a timer early or out of order. A turn of
  \<open>E_handle_events\<close> that fires takes the earliest pending event, which is due, and leaves all
  the others; a turn that does not fire leaves the queue alone, and then (after the first
  poll) every pending event is still in the future.
\<close>

theorem E_time_step_due:
  assumes "timers_ok s" and "E_time_step first s = (fired, timeout, s')"
  shows "case fired of
      Some e \<Rightarrow> \<not> first \<and> te_t e \<le> Now s' \<and> e \<in> set (Time_queue s)
        \<and> (\<forall>e' \<in> set (Time_queue s). te_t e \<le> te_t e')
        \<and> pending s' = pending s - {event_key e} \<and> timers_ok s'
    | None \<Rightarrow> Time_queue s' = Time_queue s
        \<and> (first \<or> (\<forall>e \<in> set (Time_queue s). Now s' < te_t e))"
proof (cases "Time_queue s")
  case Nil
  then show ?thesis using assms(2) by (auto simp: E_time_step_def)
next
  case (Cons h q)
  have ok: "tq_ok (h # q)" using assms(1) Cons by (simp add: timers_ok_def)
  then have "event_key h \<notin> event_key ` set q" and "tq_ok q" by (auto simp: tq_ok_def)
  then have p: "event_key ` set (h # q) - {event_key h} = event_key ` set q" by auto
  have le: "\<forall>e' \<in> set (h # q). te_t h \<le> te_t e'" using sorted_head_le [OF ok] by blast
  show ?thesis
    using assms(2) Cons le \<open>tq_ok q\<close> p
    by (auto simp: E_time_step_def Let_def E_get_time_def E_compare_time_ge pending_def
        timers_ok_def split: if_splits)
qed

theorem E_time_step_due_witness:
  "fst (E_time_step False ev_example) = Some (hd (Time_queue ev_example))
    \<and> te_t (hd (Time_queue ev_example)) \<le> Now (snd (snd (E_time_step False ev_example)))
    \<and> te_t (hd (Time_queue ev_example)) \<le> te_t (Time_queue ev_example ! 1)"
proof -
  obtain f t s' where e: "E_time_step False ev_example = (f, t, s')" by (metis prod_cases3)
  then have f: "f = Some (hd (Time_queue ev_example))"
    by (auto simp: ev_example_def E_time_step_def E_get_time_def E_compare_time_def Let_def)
  have "Time_queue ev_example ! 1 \<in> set (Time_queue ev_example)" by (simp add: ev_example_def)
  then show ?thesis using E_time_step_due [OF ev_example_ok e] e f by simp
qed

text \<open>
  The sum of two normalised times stands for the sum of the microseconds, but the
  normalisation stops one short: the microsecond part reaches 1000000 (and is then not
  normalised), which happens exactly when the parts add up to a full second. Subtraction is
  exact and always normalised.
\<close>

theorem E_add_time_normalisation:
  assumes "normal_time t" and "normal_time d"
  shows "micros (E_add_time t d) = micros t + micros d
    \<and> 0 \<le> usec (E_add_time t d) \<and> usec (E_add_time t d) \<le> 1000000
    \<and> (normal_time (E_add_time t d) \<longleftrightarrow> usec t + usec d \<noteq> 1000000)
    \<and> micros (E_sub_time t d) = micros t - micros d \<and> normal_time (E_sub_time t d)"
  using assms normal_E_sub_time [OF assms]
  unfolding micros_E_add_time micros_E_sub_time
  by (auto simp: normal_time_def E_add_time_def Let_def)

theorem E_add_time_normalisation_witness:
  "E_add_time (Sp_time 1 400000) (Sp_time 2 600000) = Sp_time 3 1000000
    \<and> \<not> normal_time (E_add_time (Sp_time 1 400000) (Sp_time 2 600000))"
  using E_add_time_normalisation [of "Sp_time 1 400000" "Sp_time 2 600000"]
  by (simp add: normal_time_def E_add_time_def)

text \<open>
  \<open>select\<close> never watches a descriptor nobody wants. After any sequence of attach, detach,
  deactivate, activate and threshold calls from \<open>E_init\<close> that stays inside the arrays, every
  descriptor in a select mask is an active registration of that type at or above the active
  priority, no (descriptor, type) is registered twice in a priority, and each priority's
  \<open>num_active_fds\<close> is its number of active registrations.
\<close>

theorem fd_masks_sound: "lands (for_each fd_step calls E_init_fds) fd_ok"
  by (intro lands_for_each fd_step_ok fd_ok_init)

text \<open>
  the converse fails: attaching again a descriptor that was deactivated marks it active,
  and counts it, without putting it back into the select mask, so its events are lost until
  the next threshold change.
\<close>

theorem reattach_leaves_unwatched:
  "lands (for_each fd_step [Attach 5 0 1 0 0 1, Deactivate 5 0, Attach 5 0 1 0 0 1] E_init_fds)
     (\<lambda>s. watched s 5 0 \<and> num_active_fds (Fd_queue s ! 1) = 1 \<and> 5 \<notin> Fd_mask s ! 0)
   \<and> returns (for_each fd_step [Attach 5 0 1 0 0 1, Deactivate 5 0, Attach 5 0 1 0 0 1] E_init_fds)
     (\<lambda>s. True)"
  by (simp add: E_attach_fd_def E_deactivate_fd_def fd_operation_def E_init_fds_def fd_consts
      put_queue_def fd_match_def FD_SET_def FD_CLR_def watched_def numeral_3_eq_3 Let_def)

end
