(* ===== verification/Configuration.thy ===== *)
theory Configuration
  imports Events
begin

section \<open>Configurations: processes, segments, lookups, reload\<close>

text \<open>
  Model of \<open>daemon/configuration.c\<close>. A configuration is a list of segments; a segment lists
  its processes as pointers into the array \<open>Config_procs\<close>, here indices into that list, so
  that a membership keeps pointing at the array a reload rewrites. \<open>num_segments\<close>,
  \<open>num_procs\<close>, \<open>num_if\<close> and \<open>num_total_procs\<close> are the lengths of the lists. What the yacc
  parser leaves in \<open>Config\<close>, \<open>Config_procs\<close> and \<open>ConfStringRep\<close>, and what the resolver
  answers, are arguments. \<open>conf_ids\<close> (the members in ring order) is the abstraction the
  lookups are specified against.
\<close>

subsection \<open>Data\<close>

record spread_if_info =
  if_ip :: proc_id
  if_port :: int
  if_type :: int

record proc =
  p_name :: string
  p_port :: int
  p_seg_index :: int
  p_index_in_seg :: int
  p_id :: proc_id
  p_ifc :: "spread_if_info list"

record segment =
  seg_bcast_address :: "32 word"
  seg_port :: int
  seg_procs :: "nat list"

record configuration =
  hash_code :: "32 word"
  segments :: "segment list"

record conf_st = ev_st +
  Config :: configuration
  Config_procs :: "proc list"
  My :: proc
  Conf_Reload_State :: bool
  EnableDangerousMonitor :: bool

definition MAX_PROC_NAME :: nat where "MAX_PROC_NAME = 20"

subsection \<open>The hash of a configuration string\<close>

text \<open>\<open>*kit\<close> is a (signed) \<open>char\<close>, widened to 32 bits by the addition.\<close>

definition conf_hash_byte :: "32 word \<Rightarrow> 8 word \<Rightarrow> 32 word" where
  "conf_hash_byte ret k =
     (let r1 = ret + scast k;
          r2 = r1 + push_bit 10 r1
      in r2 XOR drop_bit 6 r2)"

definition conf_hash_final :: "32 word \<Rightarrow> 32 word" where
  "conf_hash_final ret =
     (let r1 = ret + push_bit 3 ret;
          r2 = r1 XOR drop_bit 11 r1
      in r2 + push_bit 15 r2)"

definition conf_hash_string :: "8 word list \<Rightarrow> 32 word" where
  "conf_hash_string key =
     (let len = of_nat (length key);
          ret = len XOR push_bit 8 len XOR push_bit 16 len XOR push_bit 24 len
      in conf_hash_final (foldl conf_hash_byte ret key))"

subsection \<open>Lookups\<close>

definition has_ip :: "proc_id \<Rightarrow> proc \<Rightarrow> bool" where
  "has_ip i p \<longleftrightarrow> (\<exists>f \<in> set (p_ifc p). if_ip f = i)"

text \<open>The index of the process and the process, or \<open>None\<close> for \<open>-1\<close>.\<close>

definition Conf_proc_by_id :: "proc list \<Rightarrow> proc_id \<Rightarrow> (int \<times> proc) option" where
  "Conf_proc_by_id procs i =
     (let k = find_index (has_ip i) procs
      in if k = -1 then None else Some (k, procs ! nat k))"

definition Conf_proc_by_name :: "proc list \<Rightarrow> string \<Rightarrow> (int \<times> proc) option" where
  "Conf_proc_by_name procs name =
     (let k = find_index (\<lambda>p. p_name p = name) procs
      in if k = -1 then None else Some (k, procs ! nat k))"

definition Conf_id_in_seg :: "proc list \<Rightarrow> segment \<Rightarrow> proc_id \<Rightarrow> int" where
  "Conf_id_in_seg procs seg i = find_index (\<lambda>k. has_ip i (procs ! k)) (seg_procs seg)"

definition Conf_id_in_conf :: "proc list \<Rightarrow> configuration \<Rightarrow> proc_id \<Rightarrow> int" where
  "Conf_id_in_conf procs config i =
     find_index (\<lambda>seg. Conf_id_in_seg procs seg i \<ge> 0) (segments config)"

definition Conf_config_lookup_id :: "proc list \<Rightarrow> proc_id \<Rightarrow> int" where
  "Conf_config_lookup_id procs i = find_index (has_ip i) procs"

definition Conf_append_id_to_seg :: "proc list \<Rightarrow> segment \<Rightarrow> proc_id \<Rightarrow> int \<times> segment" where
  "Conf_append_id_to_seg procs seg i =
     (case Conf_proc_by_id procs i of
        Some (k, _) \<Rightarrow> (0, seg\<lparr>seg_procs := seg_procs seg @ [nat k]\<rparr>)
      | None \<Rightarrow> (-1, seg))"

definition Conf_num_procs :: "configuration \<Rightarrow> int" where
  "Conf_num_procs config = foldl (\<lambda>ret seg. ret + int (length (seg_procs seg))) 0 (segments config)"

definition Conf_num_segments :: "configuration \<Rightarrow> int" where
  "Conf_num_segments config = int (length (segments config))"

definition Conf_num_procs_in_seg :: "configuration \<Rightarrow> int \<Rightarrow> int" where
  "Conf_num_procs_in_seg config seg_index = int (length (seg_procs (segments config ! nat seg_index)))"

fun first_proc :: "segment list \<Rightarrow> nat option" where
  "first_proc [] = None"
| "first_proc (seg # segs) =
     (case seg_procs seg of [] \<Rightarrow> first_proc segs | k # _ \<Rightarrow> Some k)"

definition Conf_leader :: "proc list \<Rightarrow> configuration \<Rightarrow> proc_id outcome" where
  "Conf_leader procs config =
     (case first_proc (segments config) of
        Some k \<Rightarrow> Inr (p_id (procs ! k))
      | None \<Rightarrow> Inl (Alarm_exit ''Conf_leader''))"

text \<open>The loop of \<open>Conf_last\<close> runs down from the last segment.\<close>

fun last_proc_down :: "segment list \<Rightarrow> nat option" where
  "last_proc_down [] = None"
| "last_proc_down (seg # segs) =
     (if seg_procs seg \<noteq> [] then Some (last (seg_procs seg)) else last_proc_down segs)"

definition Conf_last :: "proc list \<Rightarrow> configuration \<Rightarrow> proc_id outcome" where
  "Conf_last procs config =
     (case last_proc_down (rev (segments config)) of
        Some k \<Rightarrow> Inr (p_id (procs ! k))
      | None \<Rightarrow> Inl (Alarm_exit ''Conf_last''))"

definition Conf_seg_leader :: "proc list \<Rightarrow> configuration \<Rightarrow> int \<Rightarrow> proc_id outcome" where
  "Conf_seg_leader procs config seg_index =
     (case seg_procs (segments config ! nat seg_index) of
        k # _ \<Rightarrow> Inr (p_id (procs ! k))
      | [] \<Rightarrow> Inl (Alarm_exit ''Conf_seg_leader''))"

definition Conf_seg_last :: "proc list \<Rightarrow> configuration \<Rightarrow> int \<Rightarrow> proc_id outcome" where
  "Conf_seg_last procs config seg_index =
     (let ks = seg_procs (segments config ! nat seg_index)
      in if ks \<noteq> [] then Inr (p_id (procs ! last ks)) else Inl (Alarm_exit ''Conf_seg_last''))"

subsection \<open>Copying a configuration\<close>

text \<open>
  \<open>Conf_config_copy\<close>: the processes are copied to the new array, and every segment entry is
  redirected to the copy of the process it points to, found by its id.
\<close>

fun copy_pointers :: "proc list \<Rightarrow> proc list \<Rightarrow> nat list \<Rightarrow> nat list outcome" where
  "copy_pointers src dst [] = Inr []"
| "copy_pointers src dst (k # ks) =
     (let p_index = Conf_config_lookup_id dst (p_id (src ! k))
      in if p_index = -1 then Inl (Assert_fail ''Conf_config_copy'')
         else bindE (copy_pointers src dst ks) (\<lambda>ks'. Inr (nat p_index # ks')))"

fun copy_segments :: "proc list \<Rightarrow> proc list \<Rightarrow> segment list \<Rightarrow> segment list outcome" where
  "copy_segments src dst [] = Inr []"
| "copy_segments src dst (seg # segs) =
     bindE (copy_pointers src dst (seg_procs seg)) (\<lambda>ks.
     bindE (copy_segments src dst segs) (\<lambda>segs'. Inr (seg\<lparr>seg_procs := ks\<rparr> # segs')))"

definition Conf_config_copy ::
  "configuration \<Rightarrow> proc list \<Rightarrow> (configuration \<times> proc list) outcome" where
  "Conf_config_copy src_conf src_procs =
     (let dst_procs = src_procs
      in bindE (copy_segments src_procs dst_procs (segments src_conf)) (\<lambda>segs.
         let dst_conf = src_conf\<lparr>segments := segs\<rparr>
         in if list_all2 (\<lambda>d s. map (\<lambda>k. p_id (dst_procs ! k)) (seg_procs d)
                               = map (\<lambda>k. p_id (src_procs ! k)) (seg_procs s)) segs (segments src_conf)
            then Inr (dst_conf, dst_procs)
            else Inl (Assert_fail ''Conf_config_copy'')))"

subsection \<open>Loading and reloading\<close>

text \<open>
  What \<open>yyparse\<close> leaves behind, and what \<open>gethostname\<close> and \<open>gethostbyname\<close> answer
  (\<open>None\<close>: no such host).
\<close>

record conf_file =
  cf_config :: configuration
  cf_procs :: "proc list"
  cf_string :: "8 word list"

record resolver =
  host_name :: string
  host_addrs :: "proc_id list option"

definition MAX_CONF_STRING :: int where "MAX_CONF_STRING = 20000"

definition version_string :: "8 word list" where
  "version_string = map of_char (''Version: 4.0'' @ [CHR 0x0A])"

definition is_localhost_seg :: "segment \<Rightarrow> bool" where
  "is_localhost_seg seg \<longleftrightarrow> drop_bit 24 (seg_bcast_address seg AND 0xff000000) = 127"

fun first_configured :: "proc list \<Rightarrow> proc_id list \<Rightarrow> proc option" where
  "first_configured procs [] = None"
| "first_configured procs (a # as) =
     (case Conf_proc_by_id procs a of Some (_, p) \<Rightarrow> Some p | None \<Rightarrow> first_configured procs as)"

definition Conf_load_conf_file ::
  "conf_file \<Rightarrow> string option \<Rightarrow> resolver \<Rightarrow> 'a conf_st_scheme \<Rightarrow> 'a conf_st_scheme outcome" where
  "Conf_load_conf_file f my_name res s =
     (let segs = segments (cf_config f) in
      if length segs > 1 \<and> (\<exists>g \<in> set segs. is_localhost_seg g) \<and> (\<exists>g \<in> set segs. \<not> is_localhost_seg g)
      then Inl (Alarm_exit ''Conf_load_conf_file'')
      else if int (length version_string) > MAX_CONF_STRING - int (length (cf_string f))
      then Inl (Alarm_exit ''Conf_load_conf_file'')
      else
        let h = conf_hash_string (cf_string f @ version_string);
            s1 = s\<lparr>Config := (cf_config f)\<lparr>hash_code := h\<rparr>, Config_procs := cf_procs f\<rparr>
        in case my_name of
             None \<Rightarrow>
               (case host_addrs res of
                  None \<Rightarrow> Inl (Alarm_exit ''Conf_load_conf_file'')
                | Some as \<Rightarrow>
                    (case first_configured (cf_procs f) as of
                       None \<Rightarrow> Inl (Alarm_exit ''Conf_load_conf_file'')
                     | Some p \<Rightarrow> Inr (s1\<lparr>My := p\<rparr>)))
           | Some name \<Rightarrow>
               if name = ''Monitor'' then
                 (case host_addrs res of
                    None \<Rightarrow> Inl (Alarm_exit ''Conf_load_conf_file'')
                  | Some [] \<Rightarrow> Inl (Undefined ''Conf_load_conf_file'')
                  | Some (a # _) \<Rightarrow>
                      Inr (s1\<lparr>My := (My s)\<lparr>p_id := a, p_name := take MAX_PROC_NAME (host_name res)\<rparr>\<rparr>))
               else
                 (case Conf_proc_by_name (cf_procs f) (take MAX_PROC_NAME name) of
                    None \<Rightarrow> Inl (Alarm_exit ''Conf_load_conf_file'')
                  | Some (_, p) \<Rightarrow> Inr (s1\<lparr>My := p\<rparr>)))"

text \<open>
  The comparison of a daemon's entries in the new and the old configuration: name, number of
  interfaces and broadcast address of its segment, then the interfaces one by one. Where the
  numbers of interfaces differ the first test has already fired, so the interface loop is
  only compared on the entries both have.
\<close>

definition identity_changed :: "configuration \<Rightarrow> configuration \<Rightarrow> proc \<Rightarrow> proc \<Rightarrow> bool" where
  "identity_changed new old np op \<longleftrightarrow>
     take MAX_PROC_NAME (p_name np) \<noteq> take MAX_PROC_NAME (p_name op)
     \<or> length (p_ifc np) \<noteq> length (p_ifc op)
     \<or> seg_bcast_address (segments new ! nat (p_seg_index np))
         \<noteq> seg_bcast_address (segments old ! nat (p_seg_index op))"

definition ifc_changed :: "proc \<Rightarrow> proc \<Rightarrow> bool" where
  "ifc_changed np op \<longleftrightarrow> (\<exists>(a, b) \<in> set (zip (p_ifc np) (p_ifc op)).
     if_ip a \<noteq> if_ip b \<or> if_port a \<noteq> if_port b \<or> if_type a \<noteq> if_type b)"

definition Conf_reload_initiate ::
  "conf_file \<Rightarrow> string option \<Rightarrow> resolver \<Rightarrow> 'a conf_st_scheme \<Rightarrow> (bool \<times> 'a conf_st_scheme) outcome" where
  "Conf_reload_initiate f my_name res s =
     bindE (Conf_config_copy (Config s) (Config_procs s)) (\<lambda>(old, old_procs).
     bindE (Conf_load_conf_file f my_name res s) (\<lambda>s1.
       case Conf_proc_by_id (Config_procs s1) (p_id (My s1)) of
         None \<Rightarrow> Inl (Alarm_exit ''Conf_reload_initiate'')
       | Some (_, np) \<Rightarrow>
           (case Conf_proc_by_id old_procs (p_id (My s1)) of
              None \<Rightarrow> Inl (Alarm_exit ''Conf_reload_initiate'')
            | Some (_, op) \<Rightarrow>
                if identity_changed (Config s1) old np op \<or> ifc_changed np op
                then Inl (Alarm_exit ''Conf_reload_initiate'')
                else
                  Inr (list_ex (\<lambda>p.
                         (case Conf_proc_by_id old_procs (p_id p) of
                            None \<Rightarrow> False
                          | Some (_, oq) \<Rightarrow> identity_changed (Config s1) old p oq \<or> ifc_changed p oq))
                         (Config_procs s1), s1))))"

definition Conf_reload_state_begin :: "'a conf_st_scheme \<Rightarrow> 'a conf_st_scheme" where
  "Conf_reload_state_begin s = s\<lparr>Conf_Reload_State := True\<rparr>"

definition Conf_reload_state_end :: "'a conf_st_scheme \<Rightarrow> 'a conf_st_scheme" where
  "Conf_reload_state_end s = s\<lparr>Conf_Reload_State := False\<rparr>"

definition Conf_set_dangerous_monitor_state :: "int \<Rightarrow> 'a conf_st_scheme \<Rightarrow> 'a conf_st_scheme" where
  "Conf_set_dangerous_monitor_state new_state s =
     (if new_state = 0 then s\<lparr>EnableDangerousMonitor := False\<rparr>
      else if new_state = 1 then s\<lparr>EnableDangerousMonitor := True\<rparr>
      else s)"

subsection \<open>The hash: no two strings that differ in one byte collide\<close>

lemma odd_mult_inject:
  fixes x y c d :: "32 word"
  assumes "d * c = 1" and "c * x = c * y"
  shows "x = y"
proof -
  have "d * (c * x) = d * (c * y)" using assms(2) by simp
  then have "(d * c) * x = (d * c) * y" by (simp only: mult.assoc)
  then show ?thesis by (simp add: assms(1))
qed

lemma add_shift_inject:
  fixes x y :: "32 word"
  shows "x + push_bit 10 x = y + push_bit 10 y \<Longrightarrow> x = y"
    and "x + push_bit 3 x = y + push_bit 3 y \<Longrightarrow> x = y"
    and "x + push_bit 15 x = y + push_bit 15 y \<Longrightarrow> x = y"
proof -
  have *: "z + push_bit 10 z = 1025 * z" "z + push_bit 3 z = 9 * z" "z + push_bit 15 z = 32769 * z"
    for z :: "32 word" by (simp_all add: push_bit_eq_mult algebra_simps)
  have inv: "(0xC00FFC01 :: 32 word) * 1025 = 1" "(0x38E38E39 :: 32 word) * 9 = 1"
    "(0x3FFF8001 :: 32 word) * 32769 = 1" by simp_all
  show "x + push_bit 10 x = y + push_bit 10 y \<Longrightarrow> x = y"
    unfolding * by (rule odd_mult_inject [OF inv(1)])
  show "x + push_bit 3 x = y + push_bit 3 y \<Longrightarrow> x = y"
    unfolding * by (rule odd_mult_inject [OF inv(2)])
  show "x + push_bit 15 x = y + push_bit 15 y \<Longrightarrow> x = y"
    unfolding * by (rule odd_mult_inject [OF inv(3)])
qed

lemma xor_shift_inject:
  fixes x y :: "32 word"
  assumes "0 < k" and eq: "x XOR drop_bit k x = y XOR drop_bit k y"
  shows "x = y"
proof (rule bit_word_eqI)
  fix n :: nat
  have step: "bit x n = bit y n" for n
  proof (induction "32 - n" arbitrary: n rule: less_induct)
    case less
    show ?case
    proof (cases "n < 32")
      case True
      then have "bit x (k + n) = bit y (k + n)" using less assms(1) by simp
      moreover have "bit (x XOR drop_bit k x) n = bit (y XOR drop_bit k y) n" using eq by simp
      ultimately show ?thesis
        by (cases "bit y (k + n)") (auto simp: bit_xor_iff bit_drop_bit_eq add.commute)
    next
      case False
      then show ?thesis by (auto dest: bit_imp_le_length)
    qed
  qed
  show "bit x n = bit y n" by (rule step)
qed

lemma hash_mix_inject:
  fixes x y :: "32 word"
  assumes "(x + push_bit 10 x) XOR drop_bit 6 (x + push_bit 10 x)
    = (y + push_bit 10 y) XOR drop_bit 6 (y + push_bit 10 y)"
  shows "x = y"
proof -
  have "x + push_bit 10 x = y + push_bit 10 y"
    by (rule xor_shift_inject [OF _ assms]) simp
  then show ?thesis by (rule add_shift_inject(1))
qed

lemma scast_8_32_inject:
  fixes j k :: "8 word"
  assumes "(scast j :: 32 word) = scast k"
  shows "j = k"
proof -
  have "bit j n = bit k n" if "n < 8" for n
  proof -
    have "bit (scast j :: 32 word) n = bit (scast k :: 32 word) n" using assms by simp
    with that show ?thesis by (cases "n = 7") (auto simp: bit_signed_iff min_def split: if_splits)
  qed
  then show ?thesis by (auto intro!: bit_word_eqI)
qed

lemma conf_hash_byte_inject_state:
  assumes "conf_hash_byte r k = conf_hash_byte r' k"
  shows "r = r'"
proof -
  have "r + scast k = r' + scast k"
    by (rule hash_mix_inject) (rule assms [unfolded conf_hash_byte_def Let_def])
  then show ?thesis by simp
qed

lemma conf_hash_byte_inject_key:
  assumes "conf_hash_byte r k = conf_hash_byte r k'"
  shows "k = k'"
proof -
  have "r + scast k = r + scast k'"
    by (rule hash_mix_inject) (rule assms [unfolded conf_hash_byte_def Let_def])
  then show ?thesis by (intro scast_8_32_inject) simp
qed

lemma conf_hash_final_inject:
  assumes "conf_hash_final r = conf_hash_final r'"
  shows "r = r'"
proof -
  have "(r + push_bit 3 r) XOR drop_bit 11 (r + push_bit 3 r)
    = (r' + push_bit 3 r') XOR drop_bit 11 (r' + push_bit 3 r')"
    by (rule add_shift_inject(3)) (rule assms [unfolded conf_hash_final_def Let_def])
  then have "r + push_bit 3 r = r' + push_bit 3 r'"
    by (rule xor_shift_inject [rotated]) simp
  then show ?thesis by (rule add_shift_inject(2))
qed

lemma foldl_hash_inject: "foldl conf_hash_byte r ks = foldl conf_hash_byte r' ks \<Longrightarrow> r = r'"
  by (induction ks arbitrary: r r') (auto dest: conf_hash_byte_inject_state)


definition conf_hash_start :: "nat \<Rightarrow> 32 word" where
  "conf_hash_start n = (let len = of_nat n in
     len XOR push_bit 8 len XOR push_bit 16 len XOR push_bit 24 len)"

lemma conf_hash_string_alt:
  "conf_hash_string key = conf_hash_final (foldl conf_hash_byte (conf_hash_start (length key)) key)"
  unfolding conf_hash_string_def conf_hash_start_def Let_def by (rule refl)

subsection \<open>The members in ring order\<close>

definition conf_ids :: "proc list \<Rightarrow> configuration \<Rightarrow> proc_id list" where
  "conf_ids procs config = concat (map (\<lambda>seg. map (\<lambda>k. p_id (procs ! k)) (seg_procs seg)) (segments config))"

text \<open>What the parser guarantees: a daemon's id is one of its interfaces, no interface is shared.\<close>

definition wf_procs :: "proc list \<Rightarrow> bool" where
  "wf_procs procs \<longleftrightarrow> (\<forall>p \<in> set procs. has_ip (p_id p) p)
     \<and> (\<forall>i < length procs. \<forall>j < length procs. \<forall>f \<in> set (p_ifc (procs ! i)).
          has_ip (if_ip f) (procs ! j) \<longrightarrow> i = j)"

definition wf_conf :: "proc list \<Rightarrow> configuration \<Rightarrow> bool" where
  "wf_conf procs config \<longleftrightarrow> wf_procs procs
     \<and> (\<forall>seg \<in> set (segments config). \<forall>k \<in> set (seg_procs seg). k < length procs)"

lemma foldl_count_procs:
  "foldl (\<lambda>ret seg. ret + int (length (seg_procs seg))) n segs
     = n + int (length (concat (map (\<lambda>seg. map (\<lambda>k. p_id (procs ! k)) (seg_procs seg)) segs)))"
  by (induction segs arbitrary: n) simp_all

lemma Conf_num_procs_eq: "Conf_num_procs config = int (length (conf_ids procs config))"
  by (simp only: Conf_num_procs_def conf_ids_def foldl_count_procs [where procs = procs])

lemma first_proc_None: "first_proc segs = None \<longleftrightarrow> concat (map seg_procs segs) = []"
  by (induction segs rule: first_proc.induct) (auto split: list.split)

lemma first_proc_Some: "first_proc segs = Some k \<Longrightarrow> k = hd (concat (map seg_procs segs))"
  by (induction segs rule: first_proc.induct) (auto split: list.splits)

lemma last_proc_down_None: "last_proc_down segs = None \<longleftrightarrow> concat (map seg_procs segs) = []"
  by (induction segs) auto

lemma last_proc_down_Some:
  "last_proc_down (rev segs) = Some k \<Longrightarrow> k = last (concat (map seg_procs segs))"
  by (induction segs rule: rev_induct) (auto split: if_splits)

lemma conf_ids_map: "conf_ids procs config = map (\<lambda>k. p_id (procs ! k)) (concat (map seg_procs (segments config)))"
  by (simp add: conf_ids_def map_concat comp_def)

lemma Conf_leader_eq:
  "Conf_leader procs config = (if conf_ids procs config = [] then Inl (Alarm_exit ''Conf_leader'')
     else Inr (hd (conf_ids procs config)))"
proof (cases "first_proc (segments config)")
  case None
  then have "concat (map seg_procs (segments config)) = []" by (simp only: first_proc_None)
  with None show ?thesis by (simp add: Conf_leader_def conf_ids_map)
next
  case (Some k)
  then have "concat (map seg_procs (segments config)) \<noteq> []"
    using first_proc_None [of "segments config"] by (metis option.distinct(1))
  with Some first_proc_Some [OF Some] show ?thesis
    by (simp add: Conf_leader_def conf_ids_map hd_map del: concat_eq_Nil_conv)
qed

lemma Conf_last_eq:
  "Conf_last procs config = (if conf_ids procs config = [] then Inl (Alarm_exit ''Conf_last'')
     else Inr (last (conf_ids procs config)))"
proof (cases "last_proc_down (rev (segments config))")
  case None
  then have "concat (map seg_procs (segments config)) = []"
    by (auto simp: last_proc_down_None)
  with None show ?thesis by (simp add: Conf_last_def conf_ids_map)
next
  case (Some k)
  then have "concat (map seg_procs (segments config)) \<noteq> []"
    using last_proc_down_None [of "rev (segments config)"] by auto
  with Some last_proc_down_Some [OF Some] show ?thesis
    by (simp add: Conf_last_def conf_ids_map last_map del: concat_eq_Nil_conv)
qed

subsection \<open>Lookups by id\<close>

lemma Conf_proc_by_id_spec:
  "Conf_proc_by_id procs i = Some (k, p) \<Longrightarrow>
     0 \<le> k \<and> nat k < length procs \<and> p = procs ! nat k \<and> has_ip i p"
  using find_index_some [of "has_ip i" procs k]
  by (auto simp: Conf_proc_by_id_def Let_def split: if_splits)

lemma wf_procs_same:
  assumes "wf_procs procs" "k < length procs" "j < length procs" "has_ip (p_id (procs ! k)) (procs ! j)"
  shows "j = k"
proof -
  have "has_ip (p_id (procs ! k)) (procs ! k)" using assms by (auto simp: wf_procs_def)
  then obtain f where "f \<in> set (p_ifc (procs ! k))" "if_ip f = p_id (procs ! k)"
    by (auto simp: has_ip_def)
  with assms show ?thesis unfolding wf_procs_def by metis
qed

lemma lookup_self:
  assumes "wf_procs procs" and "k < length procs"
  shows "Conf_config_lookup_id procs (p_id (procs ! k)) = int k"
proof -
  let ?i = "find_index (has_ip (p_id (procs ! k))) procs"
  have "has_ip (p_id (procs ! k)) (procs ! k)" using assms by (auto simp: wf_procs_def)
  then have ne: "?i \<noteq> -1" using assms(2) unfolding find_index_none by (metis nth_mem)
  from find_index_some [OF refl ne] wf_procs_same [OF assms, of "nat ?i"]
  have "nat ?i = k" "0 \<le> ?i" by auto
  then show ?thesis by (simp add: Conf_config_lookup_id_def)
qed

lemma Conf_proc_by_id_self:
  assumes "wf_procs procs" and "k < length procs"
  shows "Conf_proc_by_id procs (p_id (procs ! k)) = Some (int k, procs ! k)"
  using lookup_self [OF assms] by (simp add: Conf_config_lookup_id_def Conf_proc_by_id_def)

lemma copy_pointers_id:
  "wf_procs procs \<Longrightarrow> \<forall>k \<in> set ks. k < length procs \<Longrightarrow> copy_pointers procs procs ks = Inr ks"
  by (induction ks) (auto simp: lookup_self)

lemma copy_segments_id:
  "wf_procs procs \<Longrightarrow> \<forall>seg \<in> set segs. \<forall>k \<in> set (seg_procs seg). k < length procs \<Longrightarrow>
     copy_segments procs procs segs = Inr segs"
  by (induction segs) (auto simp: copy_pointers_id)

lemma Conf_config_copy_id:
  "wf_conf procs config \<Longrightarrow> Conf_config_copy config procs = Inr (config, procs)"
  by (simp add: wf_conf_def Conf_config_copy_def copy_segments_id list_all2_same)


subsection \<open>What a reload leaves alone\<close>

lemma ifc_unchanged:
  assumes "\<not> ifc_changed np op" and "length (p_ifc np) = length (p_ifc op)"
  shows "p_ifc np = p_ifc op"
proof (rule nth_equalityI)
  fix i assume i: "i < length (p_ifc np)"
  then have "(p_ifc np ! i, p_ifc op ! i) \<in> set (zip (p_ifc np) (p_ifc op))"
    using assms(2) by (auto simp: set_zip)
  then show "p_ifc np ! i = p_ifc op ! i"
    using assms(1) by (auto simp: ifc_changed_def)
qed (use assms(2) in simp)

text \<open>A daemon kept its identity: same name, interfaces and segment broadcast address.\<close>

definition same_daemon :: "configuration \<Rightarrow> configuration \<Rightarrow> proc \<Rightarrow> proc \<Rightarrow> bool" where
  "same_daemon new old np op \<longleftrightarrow>
     take MAX_PROC_NAME (p_name np) = take MAX_PROC_NAME (p_name op) \<and> p_ifc np = p_ifc op
     \<and> seg_bcast_address (segments new ! nat (p_seg_index np))
         = seg_bcast_address (segments old ! nat (p_seg_index op))"

lemma same_daemon_unchanged:
  "\<not> (identity_changed new old np op \<or> ifc_changed np op) \<Longrightarrow> same_daemon new old np op"
  by (simp add: same_daemon_def identity_changed_def ifc_unchanged)

lemma reload_result:
  assumes wf: "wf_conf (Config_procs s) (Config s)"
    and r: "Conf_reload_initiate f my_name res s = Inr (singleton, s')"
  shows "singleton = list_ex (\<lambda>p. case Conf_proc_by_id (Config_procs s) (p_id p) of
      None \<Rightarrow> False
    | Some (_, q) \<Rightarrow> identity_changed (Config s') (Config s) p q \<or> ifc_changed p q) (Config_procs s')"
  using r
  by (simp add: Conf_reload_initiate_def Conf_config_copy_id [OF wf] bindE_eq_Inr
      split: option.splits prod.splits if_splits) auto

subsection \<open>Properties\<close>

text \<open>
  The configuration hash tells apart any two configuration strings that differ in exactly
  one byte: every step of the hash is a bijection of the 32-bit state, so a changed
  character of the configuration file always changes the hash the daemons compare.
\<close>

theorem conf_hash_detects_byte:
  "conf_hash_string (xs @ a # ys) = conf_hash_string (xs @ b # ys) \<longleftrightarrow> a = b"
proof
  let ?h = "\<lambda>c. foldl conf_hash_byte (conf_hash_start (length (xs @ a # ys))) (xs @ c # ys)"
  assume "conf_hash_string (xs @ a # ys) = conf_hash_string (xs @ b # ys)"
  then have "conf_hash_final (?h a) = conf_hash_final (?h b)"
    unfolding conf_hash_string_alt by (simp only: length_append length_Cons)
  then have "?h a = ?h b" by (rule conf_hash_final_inject)
  then show "a = b"
    unfolding foldl_append foldl_Cons
    by (intro conf_hash_byte_inject_key) (rule foldl_hash_inject)
qed simp

text \<open>
  The lookups over a configuration are those of its list of members in ring order
  (\<open>conf_ids\<close>): \<open>Conf_num_procs\<close> is its length, \<open>Conf_leader\<close> its head and \<open>Conf_last\<close> its
  last element, both stopping the daemon when it is empty, empty segments skipped.
\<close>

theorem configuration_lookups:
  "Conf_num_procs config = int (length (conf_ids procs config))
   \<and> Conf_leader procs config = (if conf_ids procs config = [] then Inl (Alarm_exit ''Conf_leader'')
       else Inr (hd (conf_ids procs config)))
   \<and> Conf_last procs config = (if conf_ids procs config = [] then Inl (Alarm_exit ''Conf_last'')
       else Inr (last (conf_ids procs config)))"
  by (simp add: Conf_leader_eq Conf_last_eq Conf_num_procs_eq [where procs = procs])

text \<open>
  a reload that reports that no singleton partition is needed has changed no daemon's
  identity. When \<open>Conf_reload_initiate\<close> returns false from a well-formed configuration,
  every daemon the old and the new configuration share keeps name, interfaces and
  broadcast address in its segment.
\<close>

theorem reload_keeps_identities:
  assumes wf: "wf_conf (Config_procs s) (Config s)"
    and r: "Conf_reload_initiate f my_name res s = Inr (singleton, s')"
    and p: "p \<in> set (Config_procs s')" and q: "q \<in> set (Config_procs s)" and id: "p_id p = p_id q"
    and "\<not> singleton"
  shows "same_daemon (Config s') (Config s) p q"
proof -
  from q obtain k where k: "k < length (Config_procs s)" "q = Config_procs s ! k"
    by (auto simp: in_set_conv_nth)
  have "Conf_proc_by_id (Config_procs s) (p_id p) = Some (int k, q)"
    using wf Conf_proc_by_id_self [of "Config_procs s" k] k id by (simp add: wf_conf_def)
  then have "\<not> (identity_changed (Config s') (Config s) p q \<or> ifc_changed p q)"
    using reload_result [OF wf r] p \<open>\<not> singleton\<close> by (auto simp: list_ex_iff)
  then show ?thesis by (rule same_daemon_unchanged)
qed

definition conf_example :: conf_st where
  "conf_example =
     (let a = \<lparr>p_name = ''a'', p_port = 4803, p_seg_index = 0, p_index_in_seg = 0, p_id = 11,
               p_ifc = [\<lparr>if_ip = 11, if_port = 0, if_type = 7\<rparr>]\<rparr>;
          b = \<lparr>p_name = ''b'', p_port = 4803, p_seg_index = 0, p_index_in_seg = 1, p_id = 12,
               p_ifc = [\<lparr>if_ip = 12, if_port = 0, if_type = 7\<rparr>]\<rparr>
      in \<lparr>Time_queue = [], Now = Sp_time 0 0, time_of_day = (\<lambda>_. Sp_time 0 0), time_reads = 0,
          Config = \<lparr>hash_code = 0, segments =
            [\<lparr>seg_bcast_address = 255, seg_port = 4803, seg_procs = [0, 1]\<rparr>]\<rparr>,
          Config_procs = [a, b], My = a, Conf_Reload_State = False, EnableDangerousMonitor = False\<rparr>)"

definition conf_file_example :: conf_file where
  "conf_file_example = \<lparr>cf_config = Config conf_example, cf_procs = Config_procs conf_example,
     cf_string = [1, 2]\<rparr>"

lemma conf_example_wf: "wf_conf (Config_procs conf_example) (Config conf_example)"
  by (simp add: conf_example_def Let_def wf_conf_def wf_procs_def has_ip_def less_Suc_eq)

lemma conf_example_reload:
  "Conf_reload_initiate conf_file_example (Some ''a'') \<lparr>host_name = ''a'', host_addrs = None\<rparr> conf_example
     = Inr (False, conf_example\<lparr>Config := (Config conf_example)\<lparr>hash_code := conf_hash_string ([1, 2] @ version_string)\<rparr>\<rparr>)"
  unfolding Conf_reload_initiate_def Conf_config_copy_id [OF conf_example_wf]
  by (simp add: Conf_load_conf_file_def conf_file_example_def conf_example_def version_string_def
      MAX_CONF_STRING_def MAX_PROC_NAME_def Conf_proc_by_name_def Conf_proc_by_id_def has_ip_def
      identity_changed_def ifc_changed_def Let_def)

theorem reload_keeps_identities_witness:
  "same_daemon (Config conf_example\<lparr>hash_code := conf_hash_string ([1, 2] @ version_string)\<rparr>)
     (Config conf_example) (Config_procs conf_example ! 1) (Config_procs conf_example ! 1)"
  using reload_keeps_identities [OF conf_example_wf conf_example_reload,
      of "Config_procs conf_example ! 1" "Config_procs conf_example ! 1"]
  by (simp add: conf_example_def Let_def)

end
