(* ===== verification/Wire.thy ===== *)
theory Wire
  imports Net_Types
begin

section \<open>Packet and token bodies\<close>

text \<open>
  The structures that travel behind the headers of \<open>Net_Types\<close>: the member and representative
  lists and the ring descriptions of \<open>daemon/membership.c\<close>, the retransmission requests of a
  regular token, and the bodies of monitor requests. The C reads them by casting the byte
  buffer; here a body is a value with one constructor per layout, and reading it with another
  layout is \<open>Undefined\<close> where the handlers do so. An array is the list of its initialised
  cells, its count a field of its own where the code has one; the counts that only say how
  many words follow (\<open>num_holes\<close>, \<open>num_commit\<close>, \<open>num_seq\<close>) are the lengths of the lists.
  The locale \<open>foreign_order\<close> is the contract of the in-place conversions \<open>Flip_members\<close>,
  \<open>Flip_reps\<close>, \<open>Flip_rings\<close> and \<open>Flip_token_body\<close>.
\<close>

subsection \<open>Structures\<close>

definition POTENTIAL_REP :: int where "POTENTIAL_REP = 0"
definition SEG_REP :: int where "SEG_REP = 1"
definition RING_REP :: int where "RING_REP = 2"

lemmas rep_types = POTENTIAL_REP_def SEG_REP_def RING_REP_def

definition MAX_PROCS_RING :: int where "MAX_PROCS_RING = 128"
definition MAX_REPS :: int where "MAX_REPS = 25"
definition MAX_FORM_REPS :: int where "MAX_FORM_REPS = 20"

record members_info =
  mi_num_members :: int
  mi_num_pending :: int
  mi_members :: "proc_id list"

record rep_info =
  rep_proc_id :: proc_id
  rep_type :: int
  rep_seg_index :: int

record reps_info =
  ri_num_reps :: int
  ri_rep_index :: int
  ri_reps :: "rep_info list"

record ring_info =
  rg_memb_id :: membership_id
  rg_trans_time :: int
  rg_aru :: int
  rg_highest_seq :: int
  rg_num_trans :: int
  rg_holes :: "int list"
  rg_commit :: "proc_id list"

text \<open>
  \<open>Data\<close>: the bytes of a regular packet. \<open>Alive\<close> and \<open>Join\<close>: membership packets. \<open>Int16s\<close>:
  the array of a flow control or partition request. \<open>Empty\<close>: a packet with no body.
\<close>

datatype pkt_body =
    Data "8 word list"
  | Alive_body members_info
  | Join_body members_info reps_info
  | Int16s "int list"
  | Empty

datatype tok_body =
    Rtr_body "ring_rtr list"
  | Form1_body members_info reps_info "ring_info list"
  | Form2_body members_info membership_id "ring_info list"

record packet =
  pkt_head :: packet_header
  pkt_body :: pkt_body

record token =
  tok_head :: token_header
  tok_body :: tok_body

subsection \<open>Sizes\<close>

definition sizeof_members_info :: int where "sizeof_members_info = 516"
definition sizeof_reps_info :: int where "sizeof_reps_info = 204"
definition sizeof_ring_info :: int where "sizeof_ring_info = 28"
definition sizeof_rep_info :: int where "sizeof_rep_info = 8"
definition sizeof_membership_id :: int where "sizeof_membership_id = 8"

lemmas struct_sizes = sizeof_members_info_def sizeof_reps_info_def sizeof_ring_info_def
  sizeof_rep_info_def sizeof_membership_id_def

text \<open>The bytes of the member list and representative list that a packet carries.\<close>

definition members_bytes :: "members_info \<Rightarrow> int" where
  "members_bytes m = 2 * sizeof_int16 + mi_num_members m * sizeof_int32"

definition reps_bytes :: "reps_info \<Rightarrow> int" where
  "reps_bytes r = 2 * sizeof_int16 + ri_num_reps r * sizeof_rep_info"

definition ring_bytes :: "ring_info \<Rightarrow> int" where
  "ring_bytes g = sizeof_ring_info
     + (int (length (rg_holes g)) + int (length (rg_commit g))) * sizeof_int32"

definition rings_bytes :: "ring_info list \<Rightarrow> int" where
  "rings_bytes gs = sizeof_int32 + sum_list (map ring_bytes gs)"

fun tok_body_bytes :: "tok_body \<Rightarrow> int" where
  "tok_body_bytes (Rtr_body rs) = rtr_list_bytes rs"
| "tok_body_bytes (Form1_body m r gs) = sizeof_members_info + sizeof_reps_info + rings_bytes gs"
| "tok_body_bytes (Form2_body m mid gs) = sizeof_members_info + sizeof_membership_id + rings_bytes gs"

text \<open>The lengths of the scatter elements a packet is sent from: its header, then its body.\<close>

fun body_lens :: "int \<Rightarrow> pkt_body \<Rightarrow> int list" where
  "body_lens len (Data d) = [len]"
| "body_lens len (Alive_body m) = [len]"
| "body_lens len (Join_body m r) = [members_bytes m, reps_bytes r]"
| "body_lens len (Int16s xs) = [len]"
| "body_lens len Empty = []"

definition scat_lens :: "packet \<Rightarrow> int list" where
  "scat_lens p = sizeof_packet_header # body_lens (ph_data_len (pkt_head p)) (pkt_body p)"

subsection \<open>Reading the arrays\<close>

definition members_of :: "members_info \<Rightarrow> proc_id list" where
  "members_of m = prefix_of (mi_num_members m) (mi_members m)"

definition reps_of :: "reps_info \<Rightarrow> rep_info list" where
  "reps_of r = prefix_of (ri_num_reps r) (ri_reps r)"

definition member_at :: "string \<Rightarrow> members_info \<Rightarrow> int \<Rightarrow> proc_id outcome" where
  "member_at who m i =
     (if 0 \<le> i \<and> nat i < length (mi_members m) then Inr (mi_members m ! nat i)
      else Inl (Undefined who))"

definition rep_at :: "string \<Rightarrow> reps_info \<Rightarrow> int \<Rightarrow> rep_info outcome" where
  "rep_at who r i =
     (if 0 \<le> i \<and> nat i < length (ri_reps r) then Inr (ri_reps r ! nat i)
      else Inl (Undefined who))"

subsection \<open>Conversion of the bodies\<close>

definition Flip_members :: "members_info \<Rightarrow> members_info" where
  "Flip_members m =
     (let nm = flip_i16 (mi_num_members m); np = flip_i16 (mi_num_pending m)
      in \<lparr>mi_num_members = nm, mi_num_pending = np,
          mi_members = map Flip_int32 (prefix_of (nm + np) (mi_members m))
                         @ drop (nat (nm + np)) (mi_members m)\<rparr>)"

definition flip_rep :: "rep_info \<Rightarrow> rep_info" where
  "flip_rep r = \<lparr>rep_proc_id = Flip_int32 (rep_proc_id r), rep_type = flip_i16 (rep_type r),
     rep_seg_index = flip_i16 (rep_seg_index r)\<rparr>"

definition Flip_reps :: "reps_info \<Rightarrow> reps_info" where
  "Flip_reps r =
     (let n = flip_i16 (ri_num_reps r)
      in \<lparr>ri_num_reps = n, ri_rep_index = flip_i16 (ri_rep_index r),
          ri_reps = map flip_rep (prefix_of n (ri_reps r)) @ drop (nat n) (ri_reps r)\<rparr>)"

definition flip_ring :: "ring_info \<Rightarrow> ring_info" where
  "flip_ring g = \<lparr>rg_memb_id = flip_memb_id (rg_memb_id g), rg_trans_time = flip_i32 (rg_trans_time g),
     rg_aru = flip_i32 (rg_aru g), rg_highest_seq = flip_i32 (rg_highest_seq g),
     rg_num_trans = flip_i16 (rg_num_trans g), rg_holes = map flip_i32 (rg_holes g),
     rg_commit = map Flip_int32 (rg_commit g)\<rparr>"

definition Flip_rings :: "ring_info list \<Rightarrow> ring_info list" where
  "Flip_rings gs = map flip_ring gs"

definition flip_rtr :: "ring_rtr \<Rightarrow> ring_rtr" where
  "flip_rtr r = \<lparr>rtr_memb_id = flip_memb_id (rtr_memb_id r), rtr_proc_id = Flip_int32 (rtr_proc_id r),
     rtr_seg_index = flip_i16 (rtr_seg_index r), rtr_seqs = map flip_i32 (rtr_seqs r)\<rparr>"

definition Flip_token_body :: "ring_rtr list \<Rightarrow> ring_rtr list" where
  "Flip_token_body rs = map flip_rtr rs"

subsection \<open>What a host of the other byte order finds in memory\<close>

definition foreign_members :: "members_info \<Rightarrow> members_info" where
  "foreign_members m = \<lparr>mi_num_members = flip_i16 (mi_num_members m),
     mi_num_pending = flip_i16 (mi_num_pending m), mi_members = map Flip_int32 (mi_members m)\<rparr>"

definition foreign_reps :: "reps_info \<Rightarrow> reps_info" where
  "foreign_reps r = \<lparr>ri_num_reps = flip_i16 (ri_num_reps r), ri_rep_index = flip_i16 (ri_rep_index r),
     ri_reps = map flip_rep (ri_reps r)\<rparr>"

text \<open>Counts and fields in the range of their C types, and counts that cover the list.\<close>

definition wf_members :: "members_info \<Rightarrow> bool" where
  "wf_members m \<longleftrightarrow> is_int16 (mi_num_members m) \<and> is_int16 (mi_num_pending m)
     \<and> mi_num_members m + mi_num_pending m = int (length (mi_members m))"

definition wf_rep :: "rep_info \<Rightarrow> bool" where
  "wf_rep r \<longleftrightarrow> is_int16 (rep_type r) \<and> is_int16 (rep_seg_index r)"

definition wf_reps :: "reps_info \<Rightarrow> bool" where
  "wf_reps r \<longleftrightarrow> is_int16 (ri_num_reps r) \<and> is_int16 (ri_rep_index r)
     \<and> ri_num_reps r = int (length (ri_reps r)) \<and> list_all wf_rep (ri_reps r)"

definition wf_memb_id :: "membership_id \<Rightarrow> bool" where
  "wf_memb_id m \<longleftrightarrow> is_int32 (mid_time m)"

definition wf_ring :: "ring_info \<Rightarrow> bool" where
  "wf_ring g \<longleftrightarrow> wf_memb_id (rg_memb_id g) \<and> is_int32 (rg_trans_time g) \<and> is_int32 (rg_aru g)
     \<and> is_int32 (rg_highest_seq g) \<and> is_int16 (rg_num_trans g) \<and> list_all is_int32 (rg_holes g)"

definition wf_rtr :: "ring_rtr \<Rightarrow> bool" where
  "wf_rtr r \<longleftrightarrow> wf_memb_id (rtr_memb_id r) \<and> is_int16 (rtr_seg_index r) \<and> list_all is_int32 (rtr_seqs r)"

subsection \<open>The contract of an in-place conversion\<close>

locale foreign_order =
  fixes foreign :: "'a \<Rightarrow> 'a" and convert :: "'a \<Rightarrow> 'a" and wf :: "'a \<Rightarrow> bool"
  assumes convert_foreign: "wf x \<Longrightarrow> convert (foreign x) = x"
begin

lemma foreign_inject: "wf x \<Longrightarrow> wf y \<Longrightarrow> foreign x = foreign y \<longleftrightarrow> x = y"
  by (metis convert_foreign)

lemma convert_foreign_list: "list_all wf xs \<Longrightarrow> map convert (map foreign xs) = xs"
  by (induction xs) (simp_all add: convert_foreign)

end

lemma Flip_int32_list [simp]: "map Flip_int32 (map Flip_int32 xs) = xs"
  by (rule flip32.flip_list) (simp add: list_all_iff)

lemma flip_memb_id_flip: "wf_memb_id m \<Longrightarrow> flip_memb_id (flip_memb_id m) = m"
  by (simp add: flip_memb_id_def wf_memb_id_def flip_i32.flip_flip flip32.flip_flip)

lemma flip_rep_flip: "wf_rep r \<Longrightarrow> flip_rep (flip_rep r) = r"
  by (simp add: flip_rep_def wf_rep_def flip_i16.flip_flip flip32.flip_flip)

lemma wf_memb_id_flip: "wf_memb_id m \<Longrightarrow> wf_memb_id (flip_memb_id m)"
  by (simp add: wf_memb_id_def flip_memb_id_def flip_i32.flip_wf)

interpretation flip_rep: byte_flip flip_rep wf_rep
  by unfold_locales (simp_all add: flip_rep_flip, simp add: wf_rep_def flip_rep_def flip_i16.flip_wf)

interpretation flip_ring: byte_flip flip_ring wf_ring
  by unfold_locales
    (simp_all add: wf_ring_def flip_ring_def flip_i32.flip_wf flip_i16.flip_wf wf_memb_id_flip
      flip_i32.flip_list_wf flip_i32.flip_flip flip_i16.flip_flip flip_memb_id_flip
      flip_i32.flip_list del: map_map)

interpretation flip_rtr: byte_flip flip_rtr wf_rtr
  by unfold_locales
    (simp_all add: wf_rtr_def flip_rtr_def flip_i32.flip_wf flip_i16.flip_wf wf_memb_id_flip
      flip_i32.flip_list_wf flip_i32.flip_flip flip_i16.flip_flip flip_memb_id_flip
      flip_i32.flip_list flip32.flip_flip del: map_map)

interpretation members_order: foreign_order foreign_members Flip_members wf_members
  by unfold_locales
    (simp add: foreign_members_def Flip_members_def wf_members_def flip_i16.flip_flip
      prefix_of_def Let_def del: map_map)

interpretation reps_order: foreign_order foreign_reps Flip_reps wf_reps
  by unfold_locales
    (clarsimp simp: foreign_reps_def Flip_reps_def wf_reps_def flip_i16.flip_flip prefix_of_def
      Let_def flip_rep.flip_list simp del: map_map)

interpretation rings_order: foreign_order Flip_rings Flip_rings "list_all wf_ring"
  by unfold_locales (simp add: Flip_rings_def flip_ring.flip_list del: map_map)

interpretation rtr_order: foreign_order Flip_token_body Flip_token_body "list_all wf_rtr"
  by unfold_locales (simp add: Flip_token_body_def flip_rtr.flip_list del: map_map)

subsection \<open>Properties\<close>

text \<open>
  The bodies cross hosts of different byte order intact. What a receiver finds after
  \<open>Flip_members\<close>, \<open>Flip_reps\<close>, \<open>Flip_rings\<close> and \<open>Flip_token_body\<close> is what the sender wrote,
  for structures whose counts and fields are in range; the counts are converted first, so the
  loops over the arrays run the sender's counts.
\<close>

theorem bodies_flip_back:
  assumes "wf_members m" and "wf_reps r" and "list_all wf_ring gs" and "list_all wf_rtr rs"
  shows "Flip_members (foreign_members m) = m \<and> Flip_reps (foreign_reps r) = r
    \<and> Flip_rings (Flip_rings gs) = gs \<and> Flip_token_body (Flip_token_body rs) = rs"
  using assms members_order.convert_foreign reps_order.convert_foreign
    rings_order.convert_foreign rtr_order.convert_foreign by blast

definition ring_example :: ring_info where
  "ring_example = \<lparr>rg_memb_id = \<lparr>mid_proc_id = 11, mid_time = 77\<rparr>, rg_trans_time = 0, rg_aru = 3,
     rg_highest_seq = 9, rg_num_trans = 1, rg_holes = [4, 6], rg_commit = [11, 12]\<rparr>"

definition rtr_example :: ring_rtr where
  "rtr_example = \<lparr>rtr_memb_id = \<lparr>mid_proc_id = 11, mid_time = 77\<rparr>, rtr_proc_id = -1,
     rtr_seg_index = -1, rtr_seqs = [5, 6]\<rparr>"

theorem bodies_flip_back_witness:
  "Flip_members (foreign_members \<lparr>mi_num_members = 1, mi_num_pending = 1, mi_members = [11, 12]\<rparr>)
     = \<lparr>mi_num_members = 1, mi_num_pending = 1, mi_members = [11, 12]\<rparr>
   \<and> Flip_rings (Flip_rings [ring_example]) = [ring_example]
   \<and> Flip_token_body (Flip_token_body [rtr_example]) = [rtr_example]"
  using bodies_flip_back [of "\<lparr>mi_num_members = 1, mi_num_pending = 1, mi_members = [11, 12]\<rparr>"
      "\<lparr>ri_num_reps = 1, ri_rep_index = 0, ri_reps = [\<lparr>rep_proc_id = 11, rep_type = 2, rep_seg_index = 0\<rparr>]\<rparr>"
      "[ring_example]" "[rtr_example]"]
  by (simp add: wf_members_def wf_reps_def wf_rep_def wf_ring_def wf_rtr_def wf_memb_id_def
      is_int16_def is_int32_def ring_example_def rtr_example_def)

end
