(* ===== verification/Network.thy ===== *)
theory Network
  imports Configuration Wire
begin

section \<open>The network module: sending, packing, receiving, the token's route\<close>

text \<open>
  Model of \<open>daemon/network.c\<close>. \<open>DL_send\<close> (\<open>data_link.c\<close>, the \<open>sendmsg\<close> wrapper) is an entry
  in the log \<open>Output\<close> with the result \<open>dl_ret n\<close> for the \<open>n\<close>-th call, \<open>DL_recv\<close> an argument
  of the receiving routine. The scatter \<open>Queue_scat\<close> of packed packets is a list of pads and
  packets. \<open>Send_list\<close> is the arrays \<open>Send_address\<close> and \<open>Send_ports\<close> with \<open>Num_send_needed\<close> its
  length. The routines that write into the caller's header return it. A datagram is its
  length and what the buffer reads as a packet at each byte offset.
  The lemmas give the layout invariant of the packing queue and the route of the token.
\<close>

subsection \<open>Data\<close>

datatype scat_elem = Pad int | Pkt packet

record datagram =
  dg_len :: int
  dg_view :: "int \<Rightarrow> packet"

datatype payload = Packets_out "scat_elem list" | Datagram_out datagram | Token_out token

text \<open>What leaves the protocol: datagrams, and the calls into the session layer.\<close>

datatype out_event =
    Dl_send proc_id int payload
  | Sess_message "pkt_body list"
  | Sess_trans_memb configuration membership_id
  | Sess_reg_memb configuration membership_id
  | Sess_block
  | Sess_unblock
  | Sess_conf_reload

record net_st = conf_st +
  Bcast_channel :: "int list"
  Token_channel :: "int list"
  Bcast_needed :: bool
  Bcast_address :: "32 word"
  Bcast_port :: int
  Send_list :: "(proc_id \<times> int) list"
  Queued_bytes :: int
  Queue_scat :: "scat_elem list"
  Token_address :: proc_id
  Token_port :: int
  Net_membership :: configuration
  Segment_leader :: bool
  Partition :: "int \<Rightarrow> int"
  Partition_my_index :: int
  dl_ret :: "nat \<Rightarrow> int"
  dl_sends :: nat
  Output :: "out_event list"

definition ARCH_SCATTER_SIZE :: int where "ARCH_SCATTER_SIZE = 1024"
definition MONITOR_HASH :: "32 word" where "MONITOR_HASH = 1100"
definition MONITOR_ID :: proc_id where "MONITOR_ID = 15051963"
definition Partition_timeout :: sp_time where "Partition_timeout = Sp_time 60 0"

definition emit :: "out_event \<Rightarrow> 'a net_st_scheme \<Rightarrow> 'a net_st_scheme" where
  "emit e s = s\<lparr>Output := Output s @ [e]\<rparr>"

definition DL_send :: "proc_id \<Rightarrow> int \<Rightarrow> payload \<Rightarrow> 'a net_st_scheme \<Rightarrow> int \<times> 'a net_st_scheme" where
  "DL_send address port p s =
     (dl_ret s (dl_sends s), emit (Dl_send address port p) (s\<lparr>dl_sends := Suc (dl_sends s)\<rparr>))"

subsection \<open>Initialisation and partitions\<close>

definition Net_clear_partition :: "'a net_st_scheme \<Rightarrow> 'a net_st_scheme" where
  "Net_clear_partition s =
     s\<lparr>Partition := (\<lambda>i. if 0 \<le> i \<and> i < Conf_num_procs (Config s) then 0 else Partition s i)\<rparr>"

definition Net_set_partition :: "(int \<Rightarrow> int) \<Rightarrow> 'a net_st_scheme \<Rightarrow> 'a net_st_scheme" where
  "Net_set_partition new_partition s =
     (if Conf_Reload_State s then s
      else s\<lparr>Partition := (\<lambda>i. if 0 \<le> i \<and> i < Conf_num_procs (Config s) then new_partition i
                            else Partition s i)\<rparr>)"

definition conf_index :: "proc_id \<Rightarrow> 'a conf_st_scheme \<Rightarrow> int" where
  "conf_index i s = (case Conf_proc_by_id (Config_procs s) i of None \<Rightarrow> -1 | Some (k, _) \<Rightarrow> k)"

definition is_daemon_ifc :: "spread_if_info \<Rightarrow> bool" where
  "is_daemon_ifc f \<longleftrightarrow> (word_of_int (if_type f) :: 32 word) AND 0x4 \<noteq> 0"

definition is_any_ifc :: "spread_if_info \<Rightarrow> bool" where
  "is_any_ifc f \<longleftrightarrow> (word_of_int (if_type f) :: 32 word) AND 0x8 \<noteq> 0"

text \<open>
  The channels \<open>Net_init\<close> opens: \<open>chan n\<close> is the \<open>n\<close>-th result of \<open>DL_init_channel\<close>. The
  accumulator is the number of channels opened, whether the broadcast address is bound, and
  the two channel arrays.
\<close>

fun open_channels ::
  "(nat \<Rightarrow> int) \<Rightarrow> bool \<Rightarrow> spread_if_info list \<Rightarrow> nat \<times> bool \<times> int list \<times> int list \<Rightarrow> int list \<times> int list" where
  "open_channels chan needed [] (n, bound, bc, tc) = (bc, tc)"
| "open_channels chan needed (f # fs) (n, bound, bc, tc) =
     (if is_daemon_ifc f \<or> is_any_ifc f then
        if \<not> is_any_ifc f \<and> needed \<and> \<not> bound
        then open_channels chan needed fs
               (n + 3, True, bc @ [chan n, chan (n + 1)], tc @ [chan (n + 2)])
        else open_channels chan needed fs (n + 2, bound, bc @ [chan n], tc @ [chan (n + 1)])
      else open_channels chan needed fs (n, bound, bc, tc))"

definition Net_init :: "(nat \<Rightarrow> int) \<Rightarrow> 'a net_st_scheme \<Rightarrow> 'a net_st_scheme" where
  "Net_init chan s =
     (let s1 = Net_clear_partition (s\<lparr>Partition_my_index := conf_index (p_id (My s)) s\<rparr>);
          seg = segments (Config s) ! nat (p_seg_index (My s));
          s2 = (if length (seg_procs seg) > 1
                then s1\<lparr>Bcast_needed := True, Bcast_address := seg_bcast_address seg,
                        Bcast_port := p_port (My s)\<rparr>
                else s1\<lparr>Bcast_needed := False, Bcast_address := 0\<rparr>);
          (bc, tc) = open_channels chan (Bcast_needed s2) (p_ifc (My s)) (0, False, [], [])
      in s2\<lparr>Bcast_channel := bc, Token_channel := tc, Send_list := []\<rparr>)"

definition Net_signal_conf_reload :: "'a net_st_scheme \<Rightarrow> 'a net_st_scheme" where
  "Net_signal_conf_reload s = s\<lparr>Partition_my_index := conf_index (p_id (My s)) s\<rparr>"

definition Clear_partition_cb :: "'a net_st_scheme \<Rightarrow> 'a net_st_scheme" where
  "Clear_partition_cb s = Net_clear_partition s"

definition In_my_component :: "proc_id \<Rightarrow> 'a net_st_scheme \<Rightarrow> bool" where
  "In_my_component i s =
     (case Conf_proc_by_id (Config_procs s) i of
        None \<Rightarrow> False
      | Some (k, _) \<Rightarrow> Partition s (Partition_my_index s) = Partition s k)"

subsection \<open>The route of packets and of the token\<close>

text \<open>
  The loop of \<open>Net_set_membership\<close> over the segments of the configuration: the leaders of the
  other non-empty segments, and how many of them come before this daemon's segment
  (\<open>my_next_index\<close>, -1 when the loop never met it).
\<close>

definition send_step ::
  "proc list \<Rightarrow> configuration \<Rightarrow> int \<Rightarrow> (proc_id \<times> int) list \<times> int \<Rightarrow> nat \<Rightarrow> (proc_id \<times> int) list \<times> int" where
  "send_step procs memb my_seg_index acc i =
     (let (sends, my_next_index) = acc; seg = segments memb ! i
      in if int i = my_seg_index then (sends, int (length sends))
         else case seg_procs seg of
                k # _ \<Rightarrow> (sends @ [(p_id (procs ! k), seg_port seg)], my_next_index)
              | [] \<Rightarrow> acc)"

definition Net_set_membership :: "configuration \<Rightarrow> 'a net_st_scheme \<Rightarrow> 'a net_st_scheme outcome" where
  "Net_set_membership memb s =
     (let procs = Config_procs s;
          my_seg = segments memb ! nat (p_seg_index (My s));
          my_index_in_seg = Conf_id_in_seg procs my_seg (p_id (My s))
      in if my_index_in_seg < 0 then Inl (Alarm_exit ''Net_set_membership'')
         else
           let (sends, my_next_index) =
                 foldl (send_step procs memb (p_seg_index (My s))) ([], -1)
                   [0..<nat (Conf_num_segments (Config s))];
               s1 = s\<lparr>Net_membership := memb, Segment_leader := (my_index_in_seg = 0), Send_list := sends\<rparr>
           in if my_next_index = -1 then Inl (Assert_fail ''Net_set_membership'')
              else if my_index_in_seg < int (length (seg_procs my_seg)) - 1 then
                Inr (s1\<lparr>Token_address := p_id (procs ! (seg_procs my_seg ! nat (my_index_in_seg + 1))),
                        Token_port := seg_port my_seg + 1\<rparr>)
              else if sends = [] then
                Inr (s1\<lparr>Token_address := p_id (procs ! (seg_procs my_seg ! 0)),
                        Token_port := seg_port my_seg + 1\<rparr>)
              else if int (length sends) = my_next_index then
                Inr (s1\<lparr>Token_address := fst (sends ! 0), Token_port := snd (sends ! 0) + 1\<rparr>)
              else
                Inr (s1\<lparr>Token_address := fst (sends ! nat my_next_index),
                        Token_port := snd (sends ! nat my_next_index) + 1\<rparr>))"

subsection \<open>Sending packets\<close>

definition stamp :: "'a net_st_scheme \<Rightarrow> packet_header \<Rightarrow> packet_header" where
  "stamp s h = h\<lparr>ph_type := Set_endian (ph_type h), ph_conf_hash := hash_code (Config s),
     ph_transmiter_id := p_id (My s)\<rparr>"

definition head_routed :: "packet_header \<Rightarrow> packet_header" where
  "head_routed h = h\<lparr>ph_type := Set_routed (ph_type h)\<rparr>"

definition head_unrouted :: "packet_header \<Rightarrow> packet_header" where
  "head_unrouted h = h\<lparr>ph_type := Clear_routed (ph_type h)\<rparr>"

fun send_each :: "payload \<Rightarrow> (proc_id \<times> int) list \<Rightarrow> int \<Rightarrow> 'a net_st_scheme \<Rightarrow> int \<times> 'a net_st_scheme" where
  "send_each d [] ret s = (ret, s)"
| "send_each d ((a, port) # rest) ret s = (let (r, s') = DL_send a port d s in send_each d rest r s')"

definition Net_bcast :: "packet \<Rightarrow> 'a net_st_scheme \<Rightarrow> int \<times> packet_header \<times> 'a net_st_scheme" where
  "Net_bcast p s =
     (let h = stamp s (head_routed (pkt_head p));
          (ret, s1) = send_each (Packets_out [Pkt (p\<lparr>pkt_head := h\<rparr>)]) (Send_list s) 0 s;
          h1 = head_unrouted h;
          (ret1, s2) = (if Bcast_needed s1
                        then DL_send (Bcast_address s1) (Bcast_port s1) (Packets_out [Pkt (p\<lparr>pkt_head := h1\<rparr>)]) s1
                        else (ret, s1))
      in (if \<not> Bcast_needed s \<and> Send_list s = [] then 1 else ret1, h1, s2))"

fun clear_first :: "scat_elem list \<Rightarrow> scat_elem list" where
  "clear_first (Pkt p # es) = Pkt (p\<lparr>pkt_head := head_unrouted (pkt_head p)\<rparr>) # es"
| "clear_first es = es"

definition Net_flush_bcast :: "'a net_st_scheme \<Rightarrow> int \<times> 'a net_st_scheme" where
  "Net_flush_bcast s =
     (if Queued_bytes s = 0 then (0, s)
      else
        let (ret, s1) = send_each (Packets_out (Queue_scat s)) (Send_list s) 0 s;
            es = clear_first (Queue_scat s);
            (ret1, s2) = (if Bcast_needed s1
                          then DL_send (Bcast_address s1) (Bcast_port s1) (Packets_out es) s1
                          else (ret, s1))
        in (if \<not> Bcast_needed s \<and> Send_list s = [] then 1 else ret1,
            s2\<lparr>Queue_scat := [], Queued_bytes := 0\<rparr>))"

text \<open>The bytes the \<open>switch\<close> on \<open>n % 4\<close> adds.\<close>

definition align_pad :: "int \<Rightarrow> int" where
  "align_pad n = (if n mod 4 = 1 then 3 else if n mod 4 = 2 then 2 else if n mod 4 = 3 then 1 else 0)"

definition elem_count :: "scat_elem \<Rightarrow> int" where
  "elem_count e = (case e of Pad _ \<Rightarrow> 1 | Pkt p \<Rightarrow> int (length (scat_lens p)))"

definition num_elements :: "scat_elem list \<Rightarrow> int" where
  "num_elements es = sum_list (map elem_count es)"

definition packet_bytes :: "packet \<Rightarrow> int" where
  "packet_bytes p = sum_list (scat_lens p)"

text \<open>
  The header returned is the caller's buffer as it is once the queue is flushed: the routed
  mark of the first packet, set while it waits, is cleared there by \<open>Net_flush_bcast\<close>.
\<close>

definition Net_queue_bcast :: "packet \<Rightarrow> 'a net_st_scheme \<Rightarrow> int \<times> packet_header \<times> 'a net_st_scheme" where
  "Net_queue_bcast p s =
     (let s0 = (if Queued_bytes s = 0 then s\<lparr>Queue_scat := []\<rparr> else s);
          new_bytes = packet_bytes p;
          align = align_pad (Queued_bytes s0);
          (ret, s1, align_bytes) =
            (if Queued_bytes s0 + new_bytes + align > MAX_PACKET_SIZE
              \<or> num_elements (Queue_scat s0) + int (length (scat_lens p)) + (if align > 0 then 1 else 0)
                  > ARCH_SCATTER_SIZE
             then (let (r, s') = Net_flush_bcast s0 in (r, s', 0)) else (0, s0, align));
          first = (Queued_bytes s1 = 0);
          h = (if first then stamp s1 (head_routed (pkt_head p)) else pkt_head p);
          pad = (if align_bytes > 0 then [Pad align_bytes] else [])
      in (ret, if first then head_unrouted h else h,
          s1\<lparr>Queue_scat := Queue_scat s1 @ pad @ [Pkt (p\<lparr>pkt_head := h\<rparr>)],
             Queued_bytes := Queued_bytes s1 + align_bytes + new_bytes\<rparr>))"

definition Net_scast :: "int \<Rightarrow> packet \<Rightarrow> 'a net_st_scheme \<Rightarrow> int \<times> packet_header \<times> 'a net_st_scheme" where
  "Net_scast seg_index p s =
     (let h = stamp s (pkt_head p)
      in if seg_index = p_seg_index (My s) then
           if Bcast_needed s then
             let (ret, s1) = DL_send (Bcast_address s) (Bcast_port s) (Packets_out [Pkt (p\<lparr>pkt_head := h\<rparr>)]) s
             in (ret, h, s1)
           else (1, h, s)
         else
           let seg = segments (Net_membership s) ! nat seg_index
           in case seg_procs seg of
                [] \<Rightarrow> (1, h, s)
              | k # _ \<Rightarrow>
                  let (ret, s1) = DL_send (p_id (Config_procs s ! k)) (seg_port seg)
                                    (Packets_out [Pkt (p\<lparr>pkt_head := head_routed h\<rparr>)]) s
                  in (ret, head_unrouted (head_routed h), s1))"

definition Net_ucast :: "proc_id \<Rightarrow> packet \<Rightarrow> 'a net_st_scheme \<Rightarrow> int \<times> packet_header \<times> 'a net_st_scheme" where
  "Net_ucast i p s =
     (let h = stamp s (pkt_head p)
      in case Conf_proc_by_id (Config_procs s) i of
           None \<Rightarrow> (-1, h, s)
         | Some (_, q) \<Rightarrow>
             let (ret, s1) = DL_send i (p_port q) (Packets_out [Pkt (p\<lparr>pkt_head := h\<rparr>)]) s
             in (ret, h, s1))"

subsection \<open>Sending tokens\<close>

definition stamp_token :: "'a net_st_scheme \<Rightarrow> token \<Rightarrow> token" where
  "stamp_token s t = t\<lparr>tok_head := (tok_head t)\<lparr>tk_type := Set_endian (tk_type (tok_head t)),
     tk_conf_hash := hash_code (Config s), tk_transmiter_id := p_id (My s)\<rparr>\<rparr>"

definition Net_send_token :: "token \<Rightarrow> 'a net_st_scheme \<Rightarrow> (int \<times> token \<times> 'a net_st_scheme) outcome" where
  "Net_send_token t s =
     (let t1 = stamp_token s t
      in if tk_rtr_len (tok_head t1) > MAX_PACKET_SIZE - sizeof_token_header
         then Inl (Alarm_exit ''Net_send_token'')
         else let (ret, s1) = DL_send (Token_address s) (Token_port s) (Token_out t1) s
              in Inr (ret, t1, s1))"

definition Net_ucast_token :: "proc_id \<Rightarrow> token \<Rightarrow> 'a net_st_scheme \<Rightarrow> (int \<times> token \<times> 'a net_st_scheme) outcome" where
  "Net_ucast_token i t s =
     (let t1 = stamp_token s t
      in case Conf_proc_by_id (Config_procs s) i of
           None \<Rightarrow> Inr (-1, t1, s)
         | Some (_, q) \<Rightarrow>
             if tk_rtr_len (tok_head t1) > MAX_PACKET_SIZE - sizeof_token_header
             then Inl (Alarm_exit ''Net_ucast_token'')
             else let (ret, s1) = DL_send i (p_port q + 1) (Token_out t1) s
                  in Inr (ret, t1, s1))"

subsection \<open>Receiving\<close>

definition put_head :: "int \<Rightarrow> packet_header \<Rightarrow> datagram \<Rightarrow> datagram" where
  "put_head k h d = d\<lparr>dg_view := (dg_view d)(k := (dg_view d k)\<lparr>pkt_head := h\<rparr>)\<rparr>"

definition head_at :: "int \<Rightarrow> datagram \<Rightarrow> packet_header" where
  "head_at k d = pkt_head (dg_view d k)"

definition to_my_form :: "packet_header \<Rightarrow> packet_header" where
  "to_my_form h = (if Same_endian (ph_type h) then h else Flip_pack h)"

definition step_over :: "int \<Rightarrow> int \<Rightarrow> int" where
  "step_over received n = (if n < received then n + align_pad n else n)"

text \<open>
  The loop of \<open>Net_recv\<close> over the packed headers. A data length that moves the position back
  before the first header reads outside the buffer; one that never reaches the end loops for
  ever, which is the fuel running out.
\<close>

fun recv_loop :: "nat \<Rightarrow> bool \<Rightarrow> int \<Rightarrow> int \<Rightarrow> datagram \<Rightarrow> (int \<times> datagram) outcome" where
  "recv_loop 0 same received n d = Inl (Hang ''Net_recv'')"
| "recv_loop (Suc fuel) same received n d =
     (if \<not> n < received then Inr (n, d)
      else if n < sizeof_packet_header then Inl (Undefined ''Net_recv'')
      else
        let h = (if same then head_at n d else Flip_pack (head_at n d));
            d1 = put_head n h d;
            n1 = n + sizeof_packet_header + ph_data_len h
        in recv_loop fuel same received (step_over received n1) d1)"

text \<open>
  \<open>forward_routed\<close>: the segment leader's re-broadcast of a packet routed to it, in the byte
  order it came in; the buffer ends as it was, with the routed mark cleared.
\<close>

definition forward_routed :: "datagram \<Rightarrow> 'a net_st_scheme \<Rightarrow> datagram \<times> 'a net_st_scheme" where
  "forward_routed d s =
     (let h = (head_unrouted (head_at 0 d))\<lparr>ph_transmiter_id := p_id (My s)\<rparr>;
          wire = to_my_form h;
          (_, s1) = DL_send (Bcast_address s) (Bcast_port s) (Datagram_out (put_head 0 wire d)) s
      in (put_head 0 (to_my_form wire) d, s1))"

definition monitor_partition :: "packet \<Rightarrow> 'a net_st_scheme \<Rightarrow> 'a net_st_scheme outcome" where
  "monitor_partition p s =
     (let h = pkt_head p; n = Conf_num_procs (Config s)
      in case pkt_body p of
           Int16s xs \<Rightarrow>
             if int (length xs) < n then Inl (Undefined ''Net_recv'')
             else
               let cur = map (\<lambda>x. if Same_endian (ph_type h) then x else flip_i16 x) xs;
                   s1 = Net_set_partition (\<lambda>i. cur ! nat i) s;
                   s2 = E_queue T_Clear_partition_cb 0 0 Partition_timeout s1
               in if Partition s2 (Partition_my_index s2) = -1 then Inl (Alarm_exit ''Net_recv'')
                  else Inr s2
         | _ \<Rightarrow> Inl (Undefined ''Net_recv''))"

definition Net_recv :: "int \<Rightarrow> datagram \<Rightarrow> 'a net_st_scheme \<Rightarrow> (int \<times> datagram \<times> 'a net_st_scheme) outcome" where
  "Net_recv fd d s =
     (if fd \<notin> set (Bcast_channel s) then Inl (Alarm_exit ''Net_recv'')
      else if dg_len d \<le> 0 then Inr (dg_len d, d, s)
      else if dg_len d < sizeof_packet_header then Inr (-1, d, s)
      else
        let h = to_my_form (head_at 0 d); d1 = put_head 0 h d
        in if ph_conf_hash h \<noteq> hash_code (Config s) \<and> ph_conf_hash h \<noteq> MONITOR_HASH
           then Inr (0, d1, s)
           else if Is_partition (ph_type h) then
             if \<not> EnableDangerousMonitor s then Inr (0, d1, s)
             else if \<not> (mid_proc_id (ph_memb_id h) = MONITOR_ID
                       \<and> Conf_id_in_conf (Config_procs s) (Config s) (ph_proc_id h) \<noteq> -1)
             then Inr (0, d1, s)
             else bindE (monitor_partition (dg_view d1 0) s) (\<lambda>s1. Inr (0, d1, s1))
           else if \<not> (mid_proc_id (ph_memb_id h) = MONITOR_ID \<or> In_my_component (ph_transmiter_id h) s)
           then Inr (0, d1, s)
           else if ph_transmiter_id h = p_id (My s) then Inr (0, d1, s)
           else
             let (d2, s2) = (if Bcast_needed s \<and> Is_routed (ph_type h) then forward_routed d1 s else (d1, s));
                 h2 = head_unrouted (head_at 0 d2);
                 d3 = put_head 0 h2 d2;
                 n0 = sizeof_packet_header + ph_data_len h2
             in bindE (recv_loop (Suc (nat (dg_len d))) (Same_endian (ph_type h2)) (dg_len d)
                         (step_over (dg_len d) n0) d3)
                  (\<lambda>(n, d4). Inr (if n \<noteq> dg_len d then -1 else dg_len d, d4, s2)))"

text \<open>
  \<open>Net_recv_token\<close>: \<open>ret\<close> is the result of \<open>DL_recv\<close> and \<open>t\<close> what the token buffer then holds.
\<close>

definition Net_recv_token :: "int \<Rightarrow> int \<Rightarrow> token \<Rightarrow> 'a net_st_scheme \<Rightarrow> (int \<times> token) outcome" where
  "Net_recv_token fd ret t s =
     (if fd \<notin> set (Token_channel s) then Inl (Alarm_exit ''Net_recv'')
      else if ret \<le> 0 then Inr (ret, t)
      else
        let h = (if Same_endian (tk_type (tok_head t)) then tok_head t else Flip_token (tok_head t));
            t1 = t\<lparr>tok_head := h\<rparr>
        in if tk_conf_hash h \<noteq> hash_code (Config s) then Inr (0, t1)
           else if \<not> In_my_component (tk_transmiter_id h) s then Inr (0, t1)
           else Inr (ret, t1))"
subsection \<open>The ring of daemons the token follows\<close>

text \<open>
  \<open>token_stops\<close>: the members of a configuration in ring order, each with the port its token
  goes to. \<open>seg_leaders\<close>: the leaders of the non-empty segments, with their packet ports.
\<close>

definition seg_stops :: "proc list \<Rightarrow> segment \<Rightarrow> (proc_id \<times> int) list" where
  "seg_stops procs seg = map (\<lambda>k. (p_id (procs ! k), seg_port seg + 1)) (seg_procs seg)"

definition token_stops :: "proc list \<Rightarrow> segment list \<Rightarrow> (proc_id \<times> int) list" where
  "token_stops procs segs = concat (map (seg_stops procs) segs)"

definition seg_leaders :: "proc list \<Rightarrow> segment list \<Rightarrow> (proc_id \<times> int) list" where
  "seg_leaders procs segs = concat (map (\<lambda>seg. case seg_procs seg of
      k # _ \<Rightarrow> [(p_id (procs ! k), seg_port seg)] | [] \<Rightarrow> []) segs)"

lemma token_stops_ids: "map fst (token_stops procs (segments memb)) = conf_ids procs memb"
  by (simp add: token_stops_def seg_stops_def conf_ids_def map_concat comp_def)

lemma seg_leaders_append: "seg_leaders procs (xs @ ys) = seg_leaders procs xs @ seg_leaders procs ys"
  by (simp add: seg_leaders_def)

lemma token_stops_append: "token_stops procs (xs @ ys) = token_stops procs xs @ token_stops procs ys"
  by (simp add: token_stops_def)

lemma seg_leaders_Nil: "seg_leaders procs segs = [] \<longleftrightarrow> token_stops procs segs = []"
  by (induction segs) (auto simp: seg_leaders_def token_stops_def seg_stops_def split: list.split)

lemma seg_leaders_hd:
  "seg_leaders procs segs \<noteq> [] \<Longrightarrow>
     (fst (hd (seg_leaders procs segs)), snd (hd (seg_leaders procs segs)) + 1) = hd (token_stops procs segs)"
  by (induction segs) (auto simp: seg_leaders_def token_stops_def seg_stops_def split: list.splits)

lemma send_step_own: "int k = m \<Longrightarrow> send_step procs memb m (sends, x) k = (sends, int (length sends))"
  by (simp add: send_step_def)

lemma send_step_other:
  "int k \<noteq> m \<Longrightarrow> send_step procs memb m (sends, x) k = (sends @ seg_leaders procs [segments memb ! k], x)"
  by (auto simp: send_step_def seg_leaders_def split: list.split)

lemma send_loop_before:
  "k \<le> length (segments memb) \<Longrightarrow> int k \<le> m \<Longrightarrow>
     foldl (send_step procs memb m) ([], -1) [0..<k] = (seg_leaders procs (take k (segments memb)), -1)"
proof (induction k)
  case (Suc k)
  then show ?case
    using seg_leaders_append [of procs "take k (segments memb)" "[segments memb ! k]"]
    by (simp add: send_step_other take_Suc_conv_app_nth)
qed (simp add: seg_leaders_def)

lemma send_loop_after:
  assumes "m < length (segments memb)" and "m < k" and "k \<le> length (segments memb)"
  shows "foldl (send_step procs memb (int m)) ([], -1) [0..<k] =
    (seg_leaders procs (take m (segments memb))
       @ seg_leaders procs (drop (Suc m) (take k (segments memb))),
     int (length (seg_leaders procs (take m (segments memb)))))"
  using assms(2,3)
proof (induction k)
  case (Suc k)
  show ?case
  proof (cases "k = m")
    case True
    have "seg_leaders procs (drop (Suc m) (take (Suc m) (segments memb))) = []"
      by (simp add: seg_leaders_def)
    then show ?thesis using True assms(1) send_loop_before [of m memb "int m" procs]
      by (simp add: send_step_own)
  next
    case False
    then have "drop (Suc m) (take (Suc k) (segments memb))
      = drop (Suc m) (take k (segments memb)) @ [segments memb ! k]"
      using Suc.prems by (simp add: take_Suc_conv_app_nth)
    then show ?thesis using Suc False by (simp add: send_step_other seg_leaders_append)
  qed
qed simp

text \<open>One step round a list cut into what is before, inside and after a segment.\<close>

lemma next_in_ring:
  assumes "i < length B"
  shows "(A @ B @ C) ! ((length A + i + 1) mod length (A @ B @ C)) =
    (if i + 1 < length B then B ! (i + 1) else if C \<noteq> [] then hd C else if A \<noteq> [] then hd A else hd B)"
proof (cases "i + 1 < length B \<or> C \<noteq> []")
  case True
  then have "length A + i + 1 < length (A @ B @ C)"
    using assms by (cases C) auto
  then show ?thesis using assms True
    by (auto simp: nth_append hd_conv_nth)
next
  case False
  then have "length A + i + 1 = length (A @ B @ C)" using assms by simp
  then show ?thesis using False assms by (cases A; cases B) auto
qed

text \<open>The four branches of the token address, as one pair.\<close>

definition token_stop :: "proc list \<Rightarrow> segment \<Rightarrow> nat \<Rightarrow> (proc_id \<times> int) list \<Rightarrow> nat \<Rightarrow> proc_id \<times> int" where
  "token_stop procs seg i sends n =
     (if i + 1 < length (seg_procs seg) then (p_id (procs ! (seg_procs seg ! (i + 1))), seg_port seg + 1)
      else if sends = [] then (p_id (procs ! (seg_procs seg ! 0)), seg_port seg + 1)
      else if length sends = n then (fst (sends ! 0), snd (sends ! 0) + 1)
      else (fst (sends ! n), snd (sends ! n) + 1))"

lemma Net_set_membership_eq:
  assumes "Conf_id_in_seg (Config_procs s) (segments memb ! nat (p_seg_index (My s))) (p_id (My s)) = int i"
    and "foldl (send_step (Config_procs s) memb (p_seg_index (My s))) ([], -1)
           [0..<nat (Conf_num_segments (Config s))] = (sends, int n)"
  shows "Net_set_membership memb s =
    (let stop = token_stop (Config_procs s) (segments memb ! nat (p_seg_index (My s))) i sends n
     in Inr (s\<lparr>Net_membership := memb, Segment_leader := (i = 0), Send_list := sends,
               Token_address := fst stop, Token_port := snd stop\<rparr>))"
proof -
  have "int i < int (length (seg_procs (segments memb ! nat (p_seg_index (My s))))) - 1
      \<longleftrightarrow> i + 1 < length (seg_procs (segments memb ! nat (p_seg_index (My s))))" by linarith
  then show ?thesis
    unfolding Net_set_membership_def Let_def assms
    by (simp add: token_stop_def nat_add_distrib)
qed

lemma token_stop_next:
  assumes "i < length (seg_procs seg)"
  shows "token_stop procs seg i (seg_leaders procs as @ seg_leaders procs cs) (length (seg_leaders procs as)) =
    (if i + 1 < length (seg_stops procs seg) then seg_stops procs seg ! (i + 1)
     else if token_stops procs cs \<noteq> [] then hd (token_stops procs cs)
     else if token_stops procs as \<noteq> [] then hd (token_stops procs as) else hd (seg_stops procs seg))"
proof -
  have B: "hd (seg_stops procs seg) = (p_id (procs ! (seg_procs seg ! 0)), seg_port seg + 1)"
    using assms by (cases "seg_procs seg") (auto simp: seg_stops_def)
  have L: "seg_leaders procs xs \<noteq> [] \<Longrightarrow>
      hd (token_stops procs xs) = (fst (seg_leaders procs xs ! 0), snd (seg_leaders procs xs ! 0) + 1)" for xs
    using seg_leaders_hd [of procs xs] by (simp add: hd_conv_nth)
  show ?thesis
  proof (cases "i + 1 < length (seg_procs seg)")
    case True
    then show ?thesis by (simp add: token_stop_def seg_stops_def)
  next
    case False
    then show ?thesis
      unfolding token_stop_def seg_leaders_Nil [symmetric]
      using B L [of as] L [of cs]
      by (cases "seg_leaders procs cs = []"; cases "seg_leaders procs as = []")
        (simp_all add: nth_append seg_stops_def)
  qed
qed

lemma Net_set_membership_stops:
  fixes s :: "'a net_st_scheme"
  assumes len: "length (segments memb) = length (segments (Config s))"
    and m: "p_seg_index (My s) = int m" "m < length (segments memb)"
    and i: "Conf_id_in_seg (Config_procs s) (segments memb ! m) (p_id (My s)) = int i"
  shows "\<exists>s'. Net_set_membership memb s = Inr s'
    \<and> Send_list s' = seg_leaders (Config_procs s) (take m (segments memb) @ drop (Suc m) (segments memb))
    \<and> Segment_leader s' = (i = 0)
    \<and> (Token_address s', Token_port s') = token_stops (Config_procs s) (segments memb) !
         ((length (token_stops (Config_procs s) (take m (segments memb))) + i + 1)
            mod length (token_stops (Config_procs s) (segments memb)))"
proof -
  let ?P = "Config_procs s" and ?S = "segments memb"
  let ?LA = "seg_leaders ?P (take m ?S)" and ?LC = "seg_leaders ?P (drop (Suc m) ?S)"
  let ?A = "token_stops ?P (take m ?S)" and ?C = "token_stops ?P (drop (Suc m) ?S)"
  let ?B = "seg_stops ?P (?S ! m)"
  let ?stop = "token_stop ?P (?S ! m) i (?LA @ ?LC) (length ?LA)"
  have loop: "foldl (send_step ?P memb (p_seg_index (My s))) ([], -1) [0..<nat (Conf_num_segments (Config s))]
      = (?LA @ ?LC, int (length ?LA))"
    using send_loop_after [of m memb "length ?S" ?P] m len by (simp add: Conf_num_segments_def)
  have i': "i < length (seg_procs (?S ! m))"
    using find_index_some [OF i [unfolded Conf_id_in_seg_def]] by simp
  have "?S = take m ?S @ [?S ! m] @ drop (Suc m) ?S"
    using m(2) by (simp add: id_take_nth_drop)
  then have "token_stops ?P ?S = token_stops ?P (take m ?S @ [?S ! m] @ drop (Suc m) ?S)"
    by (rule arg_cong)
  then have split: "token_stops ?P ?S = ?A @ ?B @ ?C"
    unfolding token_stops_append by (simp add: token_stops_def)
  have "token_stops ?P ?S ! ((length ?A + i + 1) mod length (token_stops ?P ?S)) = ?stop"
    unfolding split token_stop_next [OF i'] using i' by (intro next_in_ring) (simp add: seg_stops_def)
  moreover have "Net_set_membership memb s = Inr (s\<lparr>Net_membership := memb, Segment_leader := (i = 0),
      Send_list := ?LA @ ?LC, Token_address := fst ?stop, Token_port := snd ?stop\<rparr>)"
    using Net_set_membership_eq [OF _ loop, of i] i m(1) by (simp add: Let_def)
  ultimately show ?thesis by (simp add: seg_leaders_append)
qed

subsection \<open>The layout of packed packets\<close>

definition elem_bytes :: "scat_elem \<Rightarrow> int" where
  "elem_bytes e = (case e of Pad n \<Rightarrow> n | Pkt p \<Rightarrow> packet_bytes p)"

definition elems_bytes :: "scat_elem list \<Rightarrow> int" where
  "elems_bytes es = sum_list (map elem_bytes es)"

fun packets_in :: "scat_elem list \<Rightarrow> packet list" where
  "packets_in [] = []"
| "packets_in (Pkt p # es) = p # packets_in es"
| "packets_in (Pad n # es) = packets_in es"

text \<open>
  The layout the queue must have: every packet behind the padding that aligns it on a
  multiple of four. \<open>places\<close> are the byte offsets of the packets, \<open>span\<close> where the last ends.
\<close>

definition pad_for :: "int \<Rightarrow> scat_elem list" where
  "pad_for n = (if align_pad n > 0 then [Pad (align_pad n)] else [])"

definition pack_list :: "packet list \<Rightarrow> scat_elem list" where
  "pack_list ps = foldl (\<lambda>es p. es @ pad_for (elems_bytes es) @ [Pkt p]) [] ps"

definition next_place :: "int \<Rightarrow> packet \<Rightarrow> int" where
  "next_place k p = k + packet_bytes p + align_pad (k + packet_bytes p)"

fun places :: "int \<Rightarrow> packet list \<Rightarrow> (int \<times> packet) list" where
  "places k [] = []"
| "places k (p # ps) = (k, p) # places (next_place k p) ps"

fun span :: "int \<Rightarrow> packet list \<Rightarrow> int" where
  "span k [] = k"
| "span k (p # ps) = (if ps = [] then k + packet_bytes p else span (next_place k p) ps)"

lemma align_pad_range: "0 \<le> align_pad n \<and> align_pad n \<le> 3"
  by (simp add: align_pad_def)

lemma align_pad_mod: "(n + align_pad n) mod 4 = 0"
  unfolding align_pad_def by presburger

lemma align_pad_aligned: "n mod 4 = 0 \<Longrightarrow> align_pad n = 0"
  by (simp add: align_pad_def)

lemma elems_bytes_simps [simp]:
  "elems_bytes [] = 0" "elems_bytes (e # es) = elem_bytes e + elems_bytes es"
  "elems_bytes (es @ es') = elems_bytes es + elems_bytes es'"
  by (simp_all add: elems_bytes_def)

lemma elem_bytes_simps [simp]: "elem_bytes (Pad n) = n" "elem_bytes (Pkt p) = packet_bytes p"
  by (simp_all add: elem_bytes_def)

lemma packets_in_append [simp]: "packets_in (es @ es') = packets_in es @ packets_in es'"
  by (induction es rule: packets_in.induct) simp_all

lemma packets_in_pad [simp]: "packets_in (pad_for n) = []"
  by (simp add: pad_for_def)

lemma elems_bytes_pad [simp]: "elems_bytes (pad_for n) = align_pad n"
  using align_pad_range [of n] by (simp add: pad_for_def)

lemma pack_list_Nil [simp]: "pack_list [] = []"
  by (simp add: pack_list_def)

lemma pack_list_snoc: "pack_list (ps @ [p]) = pack_list ps @ pad_for (elems_bytes (pack_list ps)) @ [Pkt p]"
  by (simp add: pack_list_def)

lemma pack_list_single [simp]: "pack_list [p] = [Pkt p]"
  by (simp add: pack_list_def pad_for_def align_pad_def)

lemma packets_in_pack_list [simp]: "packets_in (pack_list ps) = ps"
  by (induction ps rule: rev_induct) (simp_all add: pack_list_snoc)

lemma span_snoc: "span k (ps @ [p]) = (if ps = [] then k else span k ps + align_pad (span k ps)) + packet_bytes p"
  by (induction ps arbitrary: k) (auto simp: next_place_def)

lemma span_pack_list: "elems_bytes (pack_list ps) = span 0 ps"
proof (induction ps rule: rev_induct)
  case (snoc p ps)
  then show ?case by (cases "ps = []") (simp_all add: pack_list_snoc span_snoc align_pad_def)
qed simp

lemma next_place_mod: "next_place k p mod 4 = 0"
  unfolding next_place_def by (rule align_pad_mod)

lemma places_aligned: "k mod 4 = 0 \<Longrightarrow> (j, p) \<in> set (places k ps) \<Longrightarrow> j mod 4 = 0"
proof (induction ps arbitrary: k)
  case (Cons q ps)
  then show ?case using Cons.IH [OF next_place_mod [of k q]] by auto
qed simp

lemma places_ge: "\<forall>p \<in> set ps. 0 < packet_bytes p \<Longrightarrow> (j, p) \<in> set (places k ps) \<Longrightarrow> k \<le> j"
proof (induction ps arbitrary: k)
  case (Cons q ps)
  then show ?case
    using align_pad_range [of "k + packet_bytes q"] by (fastforce simp: next_place_def)
qed simp

lemma span_ge: "\<forall>p \<in> set ps. 0 < packet_bytes p \<Longrightarrow> ps \<noteq> [] \<Longrightarrow> k < span k ps"
proof (induction ps arbitrary: k)
  case (Cons q ps)
  then show ?case
    using align_pad_range [of "k + packet_bytes q"] Cons.IH [of "next_place k q"]
    by (fastforce simp: next_place_def)
qed simp

subsection \<open>The packing queue keeps its layout\<close>

text \<open>
  The queue's invariant: its elements are the canonical layout of its packets, \<open>Queued_bytes\<close>
  is their length, and a datagram and a scatter can hold them.
\<close>

definition queue_inv :: "'a net_st_scheme \<Rightarrow> bool" where
  "queue_inv s \<longleftrightarrow> Queue_scat s = pack_list (packets_in (Queue_scat s))
     \<and> Queued_bytes s = elems_bytes (Queue_scat s)
     \<and> Queued_bytes s \<le> MAX_PACKET_SIZE \<and> num_elements (Queue_scat s) \<le> ARCH_SCATTER_SIZE
     \<and> (\<forall>p \<in> set (packets_in (Queue_scat s)). 0 < packet_bytes p)"

definition queued :: "'a net_st_scheme \<Rightarrow> packet list" where
  "queued s = packets_in (Queue_scat s)"

lemma send_each_frame [simp]:
  "Queue_scat (snd (send_each d xs r s)) = Queue_scat s"
  "Queued_bytes (snd (send_each d xs r s)) = Queued_bytes s"
  "Bcast_needed (snd (send_each d xs r s)) = Bcast_needed s"
  "Bcast_address (snd (send_each d xs r s)) = Bcast_address s"
  "Bcast_port (snd (send_each d xs r s)) = Bcast_port s"
  "Send_list (snd (send_each d xs r s)) = Send_list s"
  "Config (snd (send_each d xs r s)) = Config s" "My (snd (send_each d xs r s)) = My s"
  by (induction d xs r s rule: send_each.induct)
    (simp_all add: DL_send_def emit_def)

lemma send_each_Output:
  "Output (snd (send_each d xs r s)) = Output s @ map (\<lambda>(a, port). Dl_send a port d) xs"
  by (induction d xs r s rule: send_each.induct) (simp_all add: DL_send_def emit_def)

lemma DL_send_frame [simp]:
  "Queue_scat (snd (DL_send a p d s)) = Queue_scat s" "Queued_bytes (snd (DL_send a p d s)) = Queued_bytes s"
  "Config (snd (DL_send a p d s)) = Config s" "My (snd (DL_send a p d s)) = My s"
  "Bcast_needed (snd (DL_send a p d s)) = Bcast_needed s" "Send_list (snd (DL_send a p d s)) = Send_list s"
  "Output (snd (DL_send a p d s)) = Output s @ [Dl_send a p d]"
  by (simp_all add: DL_send_def emit_def)

lemma flush_frame [simp]:
  "Config (snd (Net_flush_bcast s)) = Config s" "My (snd (Net_flush_bcast s)) = My s"
  "Bcast_needed (snd (Net_flush_bcast s)) = Bcast_needed s"
  "Send_list (snd (Net_flush_bcast s)) = Send_list s"
  by (simp_all add: Net_flush_bcast_def Let_def split_beta)

lemma flush_empty:
  "Queued_bytes s \<noteq> 0 \<Longrightarrow> Queue_scat (snd (Net_flush_bcast s)) = []"
  "Queued_bytes (snd (Net_flush_bcast s)) = 0"
  by (simp_all add: Net_flush_bcast_def Let_def split_beta)

lemma flush_Output:
  "Output (snd (Net_flush_bcast s)) = Output s @
     (if Queued_bytes s = 0 then []
      else map (\<lambda>(a, port). Dl_send a port (Packets_out (Queue_scat s))) (Send_list s)
        @ (if Bcast_needed s
           then [Dl_send (Bcast_address s) (Bcast_port s) (Packets_out (clear_first (Queue_scat s)))] else []))"
  by (simp add: Net_flush_bcast_def Let_def split_beta send_each_Output)

lemma packet_bytes_head [simp]:
  "scat_lens (p\<lparr>pkt_head := stamp s h\<rparr>) = scat_lens (p\<lparr>pkt_head := h\<rparr>)"
  "scat_lens (p\<lparr>pkt_head := head_routed h\<rparr>) = scat_lens (p\<lparr>pkt_head := h\<rparr>)"
  "scat_lens (p\<lparr>pkt_head := head_unrouted h\<rparr>) = scat_lens (p\<lparr>pkt_head := h\<rparr>)"
  by (simp_all add: scat_lens_def stamp_def head_routed_def head_unrouted_def)

lemma packet_bytes_first [simp]:
  "scat_lens (p\<lparr>pkt_head := stamp s (head_routed (pkt_head p))\<rparr>) = scat_lens p"
  by simp

lemma clear_first_bytes [simp]: "elems_bytes (clear_first es) = elems_bytes es"
  by (cases es rule: clear_first.cases) (simp_all add: packet_bytes_def)

definition fits :: "packet \<Rightarrow> 'a net_st_scheme \<Rightarrow> bool" where
  "fits p s \<longleftrightarrow> Queued_bytes s + packet_bytes p + align_pad (Queued_bytes s) \<le> MAX_PACKET_SIZE
     \<and> num_elements (Queue_scat s) + int (length (scat_lens p))
         + (if align_pad (Queued_bytes s) > 0 then 1 else 0) \<le> ARCH_SCATTER_SIZE"

text \<open>
  What a single call does to a queue with the invariant: the packet goes behind the others,
  or, when it does not fit, alone behind a flush of the others. The first packet of a
  datagram carries the stamp and the routed mark.
\<close>

definition as_queued :: "'a net_st_scheme \<Rightarrow> packet \<Rightarrow> packet" where
  "as_queued s p = (if Queued_bytes s = 0 then p\<lparr>pkt_head := stamp s (head_routed (pkt_head p))\<rparr> else p)"

lemma num_elements_simps [simp]:
  "num_elements [] = 0" "num_elements (es @ es') = num_elements es + num_elements es'"
  "num_elements [Pkt p] = int (length (scat_lens p))" "num_elements [Pad n] = 1"
  by (simp_all add: num_elements_def elem_count_def)

lemma queue_inv_empty: "queue_inv s \<Longrightarrow> Queued_bytes s = 0 \<longleftrightarrow> Queue_scat s = []"
proof -
  assume inv: "queue_inv s"
  then have b: "Queued_bytes s = span 0 (packets_in (Queue_scat s))"
    unfolding queue_inv_def by (metis span_pack_list)
  show ?thesis
  proof
    assume "Queued_bytes s = 0"
    then have "packets_in (Queue_scat s) = []"
      using b span_ge [of "packets_in (Queue_scat s)" 0] inv by (auto simp: queue_inv_def)
    then show "Queue_scat s = []" using inv by (metis queue_inv_def pack_list_Nil)
  qed (use inv in \<open>simp add: queue_inv_def\<close>)
qed

lemma Net_queue_bcast_fits:
  assumes inv: "queue_inv s" and fit: "fits p s"
  shows "Net_queue_bcast p s =
    (0, if Queued_bytes s = 0 then head_unrouted (stamp s (head_routed (pkt_head p))) else pkt_head p,
     s\<lparr>Queue_scat := pack_list (queued s @ [as_queued s p]),
       Queued_bytes := Queued_bytes s + align_pad (Queued_bytes s) + packet_bytes p\<rparr>)"
proof -
  have "(if Queued_bytes s = 0 then s\<lparr>Queue_scat := []\<rparr> else s) = s"
    using queue_inv_empty [OF inv] by simp
  moreover have "pack_list (queued s @ [q]) = Queue_scat s @ pad_for (Queued_bytes s) @ [Pkt q]" for q
    unfolding pack_list_snoc using inv by (simp add: queue_inv_def queued_def)
  moreover have "align_pad 0 = 0" by (simp add: align_pad_def)
  ultimately show ?thesis
    using fit unfolding Net_queue_bcast_def Let_def fits_def
    by (auto simp: as_queued_def pad_for_def)
qed

lemma Net_queue_bcast_full:
  assumes inv: "queue_inv s" and fit: "\<not> fits p s" and ne: "Queued_bytes s \<noteq> 0"
  shows "snd (snd (Net_queue_bcast p s)) = (snd (Net_flush_bcast s))
      \<lparr>Queue_scat := [Pkt (as_queued (snd (Net_flush_bcast s)) p)], Queued_bytes := packet_bytes p\<rparr>"
proof -
  have "Queued_bytes s + packet_bytes p + align_pad (Queued_bytes s) > MAX_PACKET_SIZE
      \<or> num_elements (Queue_scat s) + int (length (scat_lens p)) + (if align_pad (Queued_bytes s) > 0 then 1 else 0)
          > ARCH_SCATTER_SIZE"
    using fit by (auto simp: fits_def)
  then show ?thesis
    using ne flush_empty [of s] unfolding Net_queue_bcast_def Let_def
    by (simp add: split_beta as_queued_def)
qed

lemma queue_inv_Net_queue_bcast:
  assumes inv: "queue_inv s" and p: "0 < packet_bytes p" "packet_bytes p \<le> MAX_PACKET_SIZE"
    "int (length (scat_lens p)) \<le> ARCH_SCATTER_SIZE"
  shows "queue_inv (snd (snd (Net_queue_bcast p s)))
    \<and> queued (snd (snd (Net_queue_bcast p s))) =
        (if fits p s then queued s @ [as_queued s p] else [as_queued (snd (Net_flush_bcast s)) p])"
proof (cases "fits p s")
  case True
  have b: "packet_bytes (as_queued s p) = packet_bytes p" "length (scat_lens (as_queued s p)) = length (scat_lens p)"
    by (simp_all add: as_queued_def packet_bytes_def)
  have l: "pack_list (queued s @ [as_queued s p]) = Queue_scat s @ pad_for (Queued_bytes s) @ [Pkt (as_queued s p)]"
    unfolding pack_list_snoc using inv by (simp add: queue_inv_def queued_def)
  have n: "num_elements (pad_for (Queued_bytes s)) = (if align_pad (Queued_bytes s) > 0 then 1 else 0)"
    by (simp add: pad_for_def)
  show ?thesis
    unfolding Net_queue_bcast_fits [OF inv True] using True inv p b l n
    by (auto simp: queue_inv_def queued_def fits_def)
next
  case False
  have ne: "Queued_bytes s \<noteq> 0"
  proof
    assume "Queued_bytes s = 0"
    then show False using False p queue_inv_empty [OF inv] by (simp add: fits_def align_pad_def)
  qed
  have b: "packet_bytes (as_queued s' p) = packet_bytes p" "length (scat_lens (as_queued s' p)) = length (scat_lens p)"
    for s' :: "'a net_st_scheme" by (simp_all add: as_queued_def packet_bytes_def)
  show ?thesis
    using False p unfolding Net_queue_bcast_full [OF inv False ne]
    by (simp add: queue_inv_def queued_def b)
qed

lemma queue_inv_flush: "queue_inv s \<Longrightarrow> queue_inv (snd (Net_flush_bcast s)) \<and> queued (snd (Net_flush_bcast s)) = []"
proof (cases "Queued_bytes s = 0")
  case True
  then show "queue_inv s \<Longrightarrow> ?thesis" using queue_inv_empty [of s]
    by (simp add: Net_flush_bcast_def queued_def)
next
  case False
  then show ?thesis
    by (simp add: queue_inv_def queued_def flush_empty MAX_PACKET_SIZE_def ARCH_SCATTER_SIZE_def)
qed

subsection \<open>A received datagram is taken apart at the places it was packed at\<close>

text \<open>
  \<open>wf_packed\<close>: a packet whose length field is the length of its body. \<open>wire_form\<close>: what a
  receiver finds, its own byte order being the sender's or the other one.
\<close>

definition wf_packed :: "packet \<Rightarrow> bool" where
  "wf_packed p \<longleftrightarrow> packet_bytes p = sizeof_packet_header + ph_data_len (pkt_head p)
     \<and> 0 \<le> ph_data_len (pkt_head p) \<and> wf_packet_header (pkt_head p)"

definition wire_form :: "bool \<Rightarrow> packet \<Rightarrow> packet" where
  "wire_form same p = (if same then p else p\<lparr>pkt_head := Flip_pack (pkt_head p)\<rparr>)"

definition holds :: "bool \<Rightarrow> int \<Rightarrow> packet list \<Rightarrow> datagram \<Rightarrow> bool" where
  "holds same k ps d \<longleftrightarrow> (\<forall>(j, p) \<in> set (places k ps). dg_view d j = wire_form same p)"

lemma wf_packed_pos: "wf_packed p \<Longrightarrow> 36 \<le> packet_bytes p"
  by (simp add: wf_packed_def sizeof_packet_header_def)

lemma next_place_gt: "wf_packed p \<Longrightarrow> k + 36 \<le> next_place k p"
  using align_pad_range [of "k + packet_bytes p"] wf_packed_pos [of p] by (simp add: next_place_def)

lemma span_length: "list_all wf_packed ps \<Longrightarrow> k + int (length ps) \<le> span k ps"
proof (induction ps arbitrary: k)
  case (Cons p ps)
  then have "next_place k p + int (length ps) \<le> span (next_place k p) ps"
    "k + 36 \<le> next_place k p" "36 \<le> packet_bytes p"
    using next_place_gt [of p k] wf_packed_pos [of p] by simp_all
  then show ?case by (cases "ps = []") auto
qed simp

lemma places_ge_wf: "list_all wf_packed ps \<Longrightarrow> (j, p) \<in> set (places k ps) \<Longrightarrow> k \<le> j"
  by (rule places_ge) (fastforce simp: list_all_iff dest: wf_packed_pos)+

lemma head_back: "wf_packed p \<Longrightarrow> (if same then pkt_head (wire_form same p)
    else Flip_pack (pkt_head (wire_form same p))) = pkt_head p"
  by (simp add: wire_form_def wf_packed_def flip_pack.flip_flip)

declare recv_loop.simps(2) [simp del]

lemma recv_loop_done: "recv_loop (Suc f) same n n d = Inr (n, d)"
  by (simp add: recv_loop.simps(2))

lemma recv_loop_places:
  assumes "list_all wf_packed ps" and "holds same n ps d" and "length ps < fuel" and "36 \<le> n"
  shows "\<exists>d'. recv_loop fuel same (span n ps) n d = Inr (span n ps, d') \<and> dg_len d' = dg_len d
    \<and> holds True n ps d' \<and> (\<forall>j < n. dg_view d' j = dg_view d j)"
  using assms
proof (induction ps arbitrary: n d fuel)
  case Nil
  then show ?case by (cases fuel) (auto simp: holds_def recv_loop_done)
next
  case (Cons p ps)
  obtain f where fuel: "fuel = Suc f" using Cons.prems(3) by (cases fuel) auto
  have wp: "wf_packed p" and wps: "list_all wf_packed ps" using Cons.prems by simp_all
  let ?n = "next_place n p" and ?d = "put_head n (pkt_head p) d"
  have gt: "n < ?n" "36 \<le> ?n" using next_place_gt [OF wp, of n] Cons.prems(4) by auto
  have view: "dg_view d n = wire_form same p" using Cons.prems(2) by (simp add: holds_def)
  have viewn: "dg_view ?d n = p" using view by (simp add: put_head_def wire_form_def)
  have "holds same ?n ps ?d"
    using Cons.prems(2) places_ge_wf [OF wps, of _ _ ?n] gt
    by (fastforce simp: holds_def put_head_def)
  from Cons.IH [OF wps this _ gt(2), of f] obtain d' where
    d': "recv_loop f same (span ?n ps) ?n ?d = Inr (span ?n ps, d')" "dg_len d' = dg_len ?d"
      "holds True ?n ps d'" "\<forall>j < ?n. dg_view d' j = dg_view ?d j"
    using Cons.prems(3) fuel by auto
  have n1: "n + sizeof_packet_header + ph_data_len (pkt_head p) = n + packet_bytes p"
    using wp by (simp add: wf_packed_def)
  have step: "step_over (span n (p # ps)) (n + packet_bytes p) = (if ps = [] then n + packet_bytes p else ?n)"
    using span_length [OF wps, of ?n] align_pad_range [of "n + packet_bytes p"]
    by (cases ps) (auto simp: step_over_def next_place_def)
  have lt: "n < span n (p # ps)" using span_length [of "p # ps" n] Cons.prems(1) by simp
  have unfold: "recv_loop fuel same (span n (p # ps)) n d =
    recv_loop f same (span n (p # ps)) (if ps = [] then n + packet_bytes p else ?n) ?d"
    unfolding fuel recv_loop.simps Let_def head_at_def view head_back [OF wp] n1 step
    using lt Cons.prems(4) by (simp add: sizeof_packet_header_def)
  show ?case
  proof (cases "ps = []")
    case True
    then have "0 < f" using Cons.prems(3) fuel by simp
    then obtain g where "f = Suc g" by (cases f) auto
    then show ?thesis using True unfold viewn
      by (intro exI [of _ ?d]) (auto simp: holds_def put_head_def wire_form_def recv_loop_done)
  next
    case False
    have "dg_view d' n = p" using d'(4) gt viewn by simp
    then show ?thesis using False unfold d' gt
      by (intro exI [of _ d']) (auto simp: holds_def put_head_def wire_form_def)
  qed
qed

lemma Clear_routed_endian [simp]: "Same_endian (Clear_routed t) = Same_endian t"
  by (simp add: Same_endian_def Clear_routed_def ROUTED_TYPE_def ENDIAN_TYPE_def and.assoc)

text \<open>The packets as the upper layer sees them: the first one's routed mark is cleared.\<close>

fun first_unrouted :: "packet list \<Rightarrow> packet list" where
  "first_unrouted (p # ps) = p\<lparr>pkt_head := head_unrouted (pkt_head p)\<rparr> # ps"
| "first_unrouted [] = []"

lemma Net_recv_places:
  assumes ps: "list_all wf_packed (p # ps)" and hold: "holds (Same_endian (ph_type (pkt_head p))) 0 (p # ps) d"
    and len: "dg_len d = span 0 (p # ps)" and fd: "fd \<in> set (Bcast_channel s)"
    and hash: "ph_conf_hash (pkt_head p) = hash_code (Config s)"
    and np: "\<not> Is_partition (ph_type (pkt_head p))"
    and comp: "In_my_component (ph_transmiter_id (pkt_head p)) s" "ph_transmiter_id (pkt_head p) \<noteq> p_id (My s)"
    and nf: "\<not> (Bcast_needed s \<and> Is_routed (ph_type (pkt_head p)))"
  shows "\<exists>d'. Net_recv fd d s = Inr (dg_len d, d', s) \<and> dg_len d' = dg_len d
    \<and> holds True 0 (first_unrouted (p # ps)) d'"
proof -
  let ?same = "Same_endian (ph_type (pkt_head p))"
  let ?h = "head_unrouted (pkt_head p)" and ?n = "next_place 0 p"
  have wp: "wf_packed p" and wps: "list_all wf_packed ps" using ps by simp_all
  have view: "dg_view d 0 = wire_form ?same p" using hold by (simp add: holds_def)
  have "Same_endian (ph_type (Flip_pack (pkt_head p))) = ?same" by (simp add: Flip_pack_def)
  then have h: "to_my_form (head_at 0 d) = pkt_head p"
    using head_back [OF wp, of ?same] by (simp add: to_my_form_def head_at_def view wire_form_def split: if_splits)
  let ?d1 = "put_head 0 (pkt_head p) d" let ?d3 = "put_head 0 ?h ?d1"
  have n0: "sizeof_packet_header + ph_data_len ?h = packet_bytes p"
    using wp by (simp add: wf_packed_def head_unrouted_def)
  have pos: "sizeof_packet_header \<le> dg_len d" "0 < dg_len d"
    using len span_ge [of ps ?n] wf_packed_pos [OF wp] next_place_gt [OF wp, of 0] wps
      span_length [OF wps, of ?n]
    by (auto simp: sizeof_packet_header_def)
  have step: "step_over (dg_len d) (packet_bytes p) = (if ps = [] then packet_bytes p else ?n)"
    using span_length [OF wps, of ?n] align_pad_range [of "packet_bytes p"]
    by (cases ps) (auto simp: step_over_def next_place_def len)
  have hold3: "holds ?same ?n ps ?d3"
    using hold places_ge_wf [OF wps, of _ _ ?n] next_place_gt [OF wp, of 0]
    by (fastforce simp: holds_def put_head_def)
  have view3: "dg_view ?d3 0 = p\<lparr>pkt_head := ?h\<rparr>"
    using view by (simp add: put_head_def wire_form_def)
  have fuel: "length ps < Suc (nat (dg_len d))"
    using span_length [OF ps, of 0] len by simp
  have "\<exists>d'. recv_loop (Suc (nat (dg_len d))) ?same (dg_len d) (step_over (dg_len d) (packet_bytes p)) ?d3
      = Inr (dg_len d, d') \<and> dg_len d' = dg_len d \<and> holds True ?n ps d' \<and> dg_view d' 0 = p\<lparr>pkt_head := ?h\<rparr>"
  proof (cases "ps = []")
    case True
    then have "dg_len d = packet_bytes p" using len by simp
    then show ?thesis using True view3 unfolding step
      by (intro exI [of _ ?d3]) (simp add: recv_loop_done holds_def put_head_def)
  next
    case False
    then have l: "dg_len d = span ?n ps" using len by simp
    have "36 \<le> ?n" using next_place_gt [OF wp, of 0] by simp
    from recv_loop_places [OF wps hold3 fuel this] obtain d' where
      "recv_loop (Suc (nat (dg_len d))) ?same (span ?n ps) ?n ?d3 = Inr (span ?n ps, d')"
      "dg_len d' = dg_len ?d3" "holds True ?n ps d'" "\<forall>j < ?n. dg_view d' j = dg_view ?d3 j" by blast
    then show ?thesis using False view3 next_place_gt [OF wp, of 0] unfolding step
      by (intro exI [of _ d']) (simp add: l put_head_def)
  qed
  then obtain d' where d': "recv_loop (Suc (nat (dg_len d))) ?same (dg_len d)
      (step_over (dg_len d) (packet_bytes p)) ?d3 = Inr (dg_len d, d')"
    "dg_len d' = dg_len d" "holds True ?n ps d'" "dg_view d' 0 = p\<lparr>pkt_head := ?h\<rparr>" by blast
  have "head_at 0 ?d1 = pkt_head p" by (simp add: head_at_def put_head_def)
  moreover have "Same_endian (ph_type ?h) = ?same" by (simp add: head_unrouted_def)
  moreover have "(Bcast_needed s \<and> Is_routed (ph_type (pkt_head p))) = False" using nf by simp
  ultimately have "Net_recv fd d s = Inr (dg_len d, d', s)"
    using fd pos hash np comp d'(1) by (simp only: Net_recv_def h Let_def n0) (simp add: n0)
  moreover have "holds True 0 (first_unrouted (p # ps)) d'"
    using d' by (simp add: holds_def wire_form_def next_place_def packet_bytes_def)
  ultimately show ?thesis using d'(2) by blast
qed

subsection \<open>Properties\<close>

definition net_example :: net_st where
  "net_example =
     (let p = \<lambda>n a g i. \<lparr>p_name = n, p_port = 4803, p_seg_index = g, p_index_in_seg = i, p_id = a,
                  p_ifc = [\<lparr>if_ip = a, if_port = 0, if_type = 7\<rparr>]\<rparr>;
          c = \<lparr>hash_code = 5, segments =
                [\<lparr>seg_bcast_address = 255, seg_port = 4803, seg_procs = [0, 1]\<rparr>,
                 \<lparr>seg_bcast_address = 511, seg_port = 4810, seg_procs = []\<rparr>,
                 \<lparr>seg_bcast_address = 767, seg_port = 4820, seg_procs = [2]\<rparr>]\<rparr>
      in \<lparr>Time_queue = [], Now = Sp_time 0 0, time_of_day = (\<lambda>_. Sp_time 0 0), time_reads = 0,
          Config = c, Config_procs = [p ''a'' 11 0 0, p ''b'' 12 0 1, p ''c'' 13 2 0],
          My = p ''b'' 12 0 1, Conf_Reload_State = False, EnableDangerousMonitor = False,
          Bcast_channel = [3], Token_channel = [4], Bcast_needed = True, Bcast_address = 255,
          Bcast_port = 4803, Send_list = [], Queued_bytes = 0, Queue_scat = [], Token_address = 0,
          Token_port = 0, Net_membership = c, Segment_leader = False, Partition = (\<lambda>_. 0),
          Partition_my_index = 1, dl_ret = (\<lambda>_. 1), dl_sends = 0, Output = []\<rparr>)"

lemmas net_example_simps = net_example_def Let_def Conf_id_in_seg_def has_ip_def

text \<open>
  C1: the token visits the members in ring order. For a membership this daemon belongs to,
  \<open>Net_set_membership\<close> sends the token to the member after this one in the list of all
  members, segment by segment, wrapping from the last to the first and skipping empty
  segments, on that member's segment's token port; \<open>Send_list\<close> is the leaders of the other
  non-empty segments, and the daemon leads its segment exactly when it is first in it.
\<close>

theorem token_route:
  assumes "length (segments memb) = length (segments (Config s))"
    and "p_seg_index (My s) = int m" and "m < length (segments memb)"
    and "Conf_id_in_seg (Config_procs s) (segments memb ! m) (p_id (My s)) = int i"
  shows "returns (Net_set_membership memb s) (\<lambda>s'.
     (Token_address s', Token_port s') = token_stops (Config_procs s) (segments memb) !
        ((length (token_stops (Config_procs s) (take m (segments memb))) + i + 1)
           mod length (token_stops (Config_procs s) (segments memb)))
     \<and> Send_list s' = seg_leaders (Config_procs s) (take m (segments memb) @ drop (Suc m) (segments memb))
     \<and> Segment_leader s' = (i = 0))"
  using Net_set_membership_stops [OF assms] by (auto simp: returns_iff)

theorem token_route_witness:
  "returns (Net_set_membership (Config net_example) net_example) (\<lambda>s'.
     (Token_address s', Token_port s') = (13, 4821) \<and> Send_list s' = [(13, 4820)] \<and> \<not> Segment_leader s')"
proof -
  have t: "token_stops (Config_procs net_example) (segments (Config net_example)) = [(11, 4804), (12, 4804), (13, 4821)]"
    and t0: "token_stops (Config_procs net_example) [] = []"
    and l: "seg_leaders (Config_procs net_example) (drop (Suc 0) (segments (Config net_example))) = [(13, 4820)]"
    by (simp_all add: net_example_def Let_def token_stops_def seg_stops_def seg_leaders_def)
  show ?thesis
    by (rule returns_mono [OF token_route [of "Config net_example" net_example 0 1]])
      (use t t0 l in \<open>simp_all add: net_example_simps\<close>)
qed

text \<open>
  C16: \<open>Net_queue_bcast\<close> packs correctly. It keeps the invariant of the packing queue: every
  packet starts on a multiple of four behind the padding its predecessor needs, the byte and
  element counts are exact and within a datagram and a scatter. A packet that fits goes behind
  the queued ones; one that does not is queued alone after the others were flushed. The first
  packet of a datagram, and no other, is stamped and marked as routed.
\<close>

theorem Net_queue_bcast_packs:
  assumes "queue_inv s" and "0 < packet_bytes p" and "packet_bytes p \<le> MAX_PACKET_SIZE"
    and "int (length (scat_lens p)) \<le> ARCH_SCATTER_SIZE"
  shows "queue_inv (snd (snd (Net_queue_bcast p s)))
    \<and> queued (snd (snd (Net_queue_bcast p s))) =
        (if fits p s then queued s @ [as_queued s p] else [as_queued (snd (Net_flush_bcast s)) p])
    \<and> queued (snd (Net_flush_bcast s)) = []"
  using queue_inv_Net_queue_bcast [OF assms] queue_inv_flush [OF assms(1)] by blast

definition data_packet :: "int \<Rightarrow> 8 word list \<Rightarrow> packet" where
  "data_packet n d = \<lparr>pkt_head = \<lparr>ph_type = RELIABLE_TYPE, ph_transmiter_id = 0, ph_proc_id = 11,
     ph_memb_id = \<lparr>mid_proc_id = 11, mid_time = 1\<rparr>, ph_seq = n, ph_fifo_seq = n, ph_packet_index = -1,
     ph_data_len = int (length d), ph_conf_hash = 5\<rparr>, pkt_body = Data d\<rparr>"

theorem Net_queue_bcast_packs_witness:
  "queued (snd (snd (Net_queue_bcast (data_packet 1 [7]) net_example)))
     = [as_queued net_example (data_packet 1 [7])]"
proof -
  have "queue_inv net_example" by (simp add: queue_inv_def net_example_def Let_def size_defs ARCH_SCATTER_SIZE_def)
  moreover have "scat_lens (data_packet 1 [7]) = [36, 1]"
    by (simp add: scat_lens_def data_packet_def sizeof_packet_header_def)
  moreover have "queued net_example = []" by (simp add: queued_def net_example_def Let_def)
  moreover have "Queued_bytes net_example = 0" "Queue_scat net_example = []"
    by (simp_all add: net_example_def Let_def)
  ultimately show ?thesis using Net_queue_bcast_packs [of net_example "data_packet 1 [7]"]
    by (simp add: packet_bytes_def fits_def size_defs ARCH_SCATTER_SIZE_def align_pad_def)
qed

text \<open>
  a flush hands over what was queued, once. \<open>Net_flush_bcast\<close> sends the queued layout to
  the leader of every other segment, marked as routed, then broadcasts it in its own segment
  with the mark cleared, and leaves the queue empty; with nothing queued it does nothing.
\<close>

theorem Net_flush_bcast_sends:
  "Output (snd (Net_flush_bcast s)) = Output s @
     (if Queued_bytes s = 0 then []
      else map (\<lambda>(a, port). Dl_send a port (Packets_out (Queue_scat s))) (Send_list s)
        @ (if Bcast_needed s
           then [Dl_send (Bcast_address s) (Bcast_port s) (Packets_out (clear_first (Queue_scat s)))] else []))
   \<and> Queued_bytes (snd (Net_flush_bcast s)) = 0
   \<and> (Queued_bytes s = 0 \<or> Queue_scat (snd (Net_flush_bcast s)) = [])"
  using flush_empty [of s] by (auto simp: flush_Output)



end
