(* ===== verification/Membership_Lists.thy ===== *)
theory Membership_Lists
  imports Configuration Wire "HOL-Library.Product_Lexorder"
begin

section \<open>The member and representative lists of the membership algorithm\<close>

text \<open>
  Model of the list routines of \<open>daemon/membership.c\<close>: \<open>Insert_member\<close>, \<open>Insert_rep\<close>,
  \<open>Smallest_member\<close>, \<open>Smallest_rep\<close>, \<open>Sort_members\<close>, \<open>Sort_reps\<close>. The invariants say what the
  comments of the code rely on: no duplicates, and a potential representative only in a
  segment nobody else represents. The two sorts share the selection sort of the locale
  \<open>selection\<close>, which removes the chosen element by moving the last one into its place.
\<close>

subsection \<open>Insertion\<close>

definition Insert_member :: "members_info \<Rightarrow> proc_id \<Rightarrow> int \<times> members_info" where
  "Insert_member m i =
     (if i \<in> set (members_of m) then (0, m)
      else if mi_num_members m = MAX_PROCS_RING then (0, m)
      else (1, m\<lparr>mi_members := arr_put (mi_members m) (mi_num_members m) i,
                 mi_num_members := mi_num_members m + 1\<rparr>))"

text \<open>
  What an entry in the way of a new representative of type \<open>t\<close> and process \<open>p\<close> does:
  \<open>None\<close>, go on; \<open>Some None\<close>, return 0; \<open>Some (Some r')\<close>, become \<open>r'\<close> and return 1.
\<close>

definition rep_clash :: "int \<Rightarrow> proc \<Rightarrow> rep_info \<Rightarrow> rep_info option option" where
  "rep_clash t p r =
     (if rep_seg_index r \<noteq> p_seg_index p then None
      else if t = POTENTIAL_REP then Some None
      else if t = SEG_REP then
        if rep_type r = POTENTIAL_REP then Some (Some (r\<lparr>rep_type := SEG_REP, rep_proc_id := p_id p\<rparr>))
        else if rep_type r = SEG_REP then if rep_proc_id r = p_id p then Some None else None
        else if rep_type r = RING_REP \<and> rep_proc_id r = p_id p then Some (Some (r\<lparr>rep_type := SEG_REP\<rparr>))
        else None
      else
        if rep_type r = POTENTIAL_REP then Some (Some (r\<lparr>rep_type := RING_REP, rep_proc_id := p_id p\<rparr>))
        else if rep_type r = SEG_REP then
          if rep_proc_id r = p_id p then Some (Some (r\<lparr>rep_type := RING_REP\<rparr>)) else None
        else if rep_type r = RING_REP \<and> rep_proc_id r = p_id p then Some None
        else None)"

fun scan_reps :: "(rep_info \<Rightarrow> rep_info option option) \<Rightarrow> rep_info list \<Rightarrow> (int \<times> rep_info list) option" where
  "scan_reps f [] = None"
| "scan_reps f (r # rs) =
     (case f r of
        None \<Rightarrow> map_option (\<lambda>(ret, rs'). (ret, r # rs')) (scan_reps f rs)
      | Some None \<Rightarrow> Some (0, r # rs)
      | Some (Some r') \<Rightarrow> Some (1, r' # rs))"

definition Insert_rep :: "proc list \<Rightarrow> reps_info \<Rightarrow> rep_info \<Rightarrow> (int \<times> reps_info) outcome" where
  "Insert_rep procs r rep =
     (case Conf_proc_by_id procs (rep_proc_id rep) of
        None \<Rightarrow> Inl (Alarm_exit ''Insert_rep'')
      | Some (_, p) \<Rightarrow>
          if rep_type rep \<noteq> POTENTIAL_REP \<and> rep_type rep \<noteq> SEG_REP \<and> rep_type rep \<noteq> RING_REP
          then Inl (Alarm_exit ''Insert_rep'')
          else case scan_reps (rep_clash (rep_type rep) p) (reps_of r) of
                 Some (ret, rs) \<Rightarrow> Inr (ret, r\<lparr>ri_reps := rs @ drop (nat (ri_num_reps r)) (ri_reps r)\<rparr>)
               | None \<Rightarrow>
                   if ri_num_reps r = MAX_REPS then Inr (0, r)
                   else Inr (1, r\<lparr>ri_reps := arr_put (ri_reps r) (ri_num_reps r) rep,
                                  ri_num_reps := ri_num_reps r + 1\<rparr>))"

text \<open>The calls that ignore the result.\<close>

definition insert_reps :: "proc list \<Rightarrow> rep_info list \<Rightarrow> reps_info \<Rightarrow> reps_info outcome" where
  "insert_reps procs reps r = for_each (\<lambda>rep r. bindE (Insert_rep procs r rep) (\<lambda>(_, r'). Inr r')) reps r"

subsection \<open>Smallest\<close>

definition proc_before :: "proc \<Rightarrow> proc \<Rightarrow> bool" where
  "proc_before p q \<longleftrightarrow> p_seg_index p < p_seg_index q
     \<or> p_seg_index p = p_seg_index q \<and> p_index_in_seg p < p_index_in_seg q"

fun smallest_member_loop :: "proc list \<Rightarrow> nat \<Rightarrow> proc \<Rightarrow> nat \<Rightarrow> proc_id list \<Rightarrow> nat outcome" where
  "smallest_member_loop procs current curr_proc i [] = Inr current"
| "smallest_member_loop procs current curr_proc i (x # xs) =
     (case Conf_proc_by_id procs x of
        None \<Rightarrow> Inl (Alarm_exit ''Smallest_member'')
      | Some (_, p) \<Rightarrow>
          if proc_before p curr_proc then smallest_member_loop procs i p (Suc i) xs
          else smallest_member_loop procs current curr_proc (Suc i) xs)"

definition smallest_member_index :: "proc list \<Rightarrow> proc_id list \<Rightarrow> nat outcome" where
  "smallest_member_index procs ms =
     (case ms of
        [] \<Rightarrow> Inl (Undefined ''Smallest_member'')
      | x # xs \<Rightarrow>
          (case Conf_proc_by_id procs x of
             None \<Rightarrow> Inl (Alarm_exit ''Smallest_member'')
           | Some (_, p) \<Rightarrow> smallest_member_loop procs 0 p 1 xs))"

text \<open>
  The first cell is read even when the list is empty; the result is the id and its index.
\<close>

definition Smallest_member :: "proc list \<Rightarrow> members_info \<Rightarrow> (proc_id \<times> nat) outcome" where
  "Smallest_member procs m =
     (let ms = (if mi_num_members m \<le> 0 then take 1 (mi_members m) else members_of m)
      in bindE (smallest_member_index procs ms) (\<lambda>k. Inr (ms ! k, k)))"

text \<open>Whether entry \<open>r\<close> replaces the current smallest \<open>c\<close>.\<close>

definition rep_before :: "proc list \<Rightarrow> rep_info \<Rightarrow> rep_info \<Rightarrow> bool outcome" where
  "rep_before procs r c =
     (if rep_type c = SEG_REP then
        Inr (rep_type r = SEG_REP \<and> rep_seg_index r < rep_seg_index c)
      else if rep_type c = RING_REP then
        if rep_type r = RING_REP then
          if rep_seg_index r < rep_seg_index c then Inr True
          else if rep_seg_index r = rep_seg_index c then
            case (Conf_proc_by_id procs (rep_proc_id c), Conf_proc_by_id procs (rep_proc_id r)) of
              (Some (_, curr_p), Some (_, i_p)) \<Rightarrow> Inr (p_index_in_seg i_p < p_index_in_seg curr_p)
            | _ \<Rightarrow> Inl (Undefined ''Smallest_rep'')
          else Inr False
        else Inr (rep_type r = SEG_REP)
      else Inl (Alarm_exit ''Smallest_rep''))"

fun smallest_rep_loop :: "proc list \<Rightarrow> nat \<Rightarrow> rep_info \<Rightarrow> nat \<Rightarrow> rep_info list \<Rightarrow> nat outcome" where
  "smallest_rep_loop procs current c i [] = Inr current"
| "smallest_rep_loop procs current c i (r # rs) =
     bindE (rep_before procs r c) (\<lambda>b.
       if b then smallest_rep_loop procs i r (Suc i) rs
       else smallest_rep_loop procs current c (Suc i) rs)"

definition smallest_rep_index :: "proc list \<Rightarrow> rep_info list \<Rightarrow> nat outcome" where
  "smallest_rep_index procs rs =
     (case rs of [] \<Rightarrow> Inl (Undefined ''Smallest_rep'') | r # rest \<Rightarrow> smallest_rep_loop procs 0 r 1 rest)"

definition Smallest_rep :: "proc list \<Rightarrow> reps_info \<Rightarrow> (proc_id \<times> nat) outcome" where
  "Smallest_rep procs r =
     (let rs = (if ri_num_reps r \<le> 0 then take 1 (ri_reps r) else reps_of r)
      in bindE (smallest_rep_index procs rs) (\<lambda>k. Inr (rep_proc_id (rs ! k), k)))"

subsection \<open>Sorting\<close>

text \<open>
  \<open>pick\<close> is the smallest index; the chosen element leaves the working copy, whose last
  element takes its place.
\<close>

fun selection_sort :: "('a list \<Rightarrow> nat outcome) \<Rightarrow> nat \<Rightarrow> 'a list \<Rightarrow> 'a list outcome" where
  "selection_sort pick 0 xs = Inr []"
| "selection_sort pick (Suc n) xs =
     bindE (pick xs) (\<lambda>i. bindE (selection_sort pick n (swap_remove xs i)) (\<lambda>ys. Inr (xs ! i # ys)))"

definition Sort_members :: "proc list \<Rightarrow> members_info \<Rightarrow> members_info outcome" where
  "Sort_members procs m =
     bindE (selection_sort (smallest_member_index procs) (length (members_of m)) (members_of m)) (\<lambda>ms.
       Inr (m\<lparr>mi_members := ms @ drop (nat (mi_num_members m)) (mi_members m)\<rparr>))"

definition Sort_reps :: "proc list \<Rightarrow> reps_info \<Rightarrow> reps_info outcome" where
  "Sort_reps procs r =
     bindE (selection_sort (smallest_rep_index procs) (length (reps_of r)) (reps_of r)) (\<lambda>rs.
       Inr (r\<lparr>ri_reps := rs @ drop (nat (ri_num_reps r)) (ri_reps r)\<rparr>))"

subsection \<open>The contract of a selection\<close>

locale selection =
  fixes pick :: "'a list \<Rightarrow> nat outcome"
    and key :: "'a \<Rightarrow> 'k::linorder"
    and known :: "'a \<Rightarrow> bool"
  assumes pick_min: "xs \<noteq> [] \<Longrightarrow> list_all known xs \<Longrightarrow>
      \<exists>i. pick xs = Inr i \<and> i < length xs \<and> (\<forall>x \<in> set xs. key (xs ! i) \<le> key x)"
begin

lemma selection_sort_sorts:
  "list_all known xs \<Longrightarrow>
     \<exists>ys. selection_sort pick (length xs) xs = Inr ys \<and> mset ys = mset xs \<and> sorted (map key ys)"
proof (induction "length xs" arbitrary: xs)
  case (Suc n)
  from Suc.hyps(2) have ne: "xs \<noteq> []" by auto
  from pick_min [OF ne Suc.prems] obtain i where
    i: "pick xs = Inr i" "i < length xs" "\<forall>x \<in> set xs. key (xs ! i) \<le> key x" by blast
  let ?xs = "swap_remove xs i"
  have m: "mset ?xs = mset xs - {# xs ! i #}" by (rule mset_swap_remove [OF i(2)])
  have n: "n = length ?xs" using length_swap_remove [OF i(2)] Suc.hyps(2) by simp
  have "set ?xs \<subseteq> set xs" using m by (metis diff_subset_eq_self set_mset_mono set_mset_mset)
  then have known: "list_all known ?xs" using Suc.prems by (auto simp: list_all_iff)
  from Suc.hyps(1) [OF n known] obtain ys where
    ys: "selection_sort pick (length ?xs) ?xs = Inr ys" "mset ys = mset ?xs" "sorted (map key ys)" by blast
  have "set ys = set ?xs" using ys(2) by (metis set_mset_mset)
  then have "sorted (map key (xs ! i # ys))" using ys(3) i(3) \<open>set ?xs \<subseteq> set xs\<close> by auto
  moreover have "mset (xs ! i # ys) = mset xs" using ys(2) m i(2) by simp
  ultimately show ?case using i(1) ys(1) n by (simp add: Suc.hyps(2) [symmetric])
qed simp

lemma pick_member: "xs \<noteq> [] \<Longrightarrow> list_all known xs \<Longrightarrow> returns (pick xs) (\<lambda>i. i < length xs)"
  using pick_min by (auto simp: returns_iff)

end

text \<open>The orders the two sorts follow.\<close>

definition proc_of :: "proc list \<Rightarrow> proc_id \<Rightarrow> proc" where
  "proc_of procs i = (case Conf_proc_by_id procs i of Some (_, p) \<Rightarrow> p | None \<Rightarrow> procs ! 0)"

definition known_id :: "proc list \<Rightarrow> proc_id \<Rightarrow> bool" where
  "known_id procs i \<longleftrightarrow> Conf_proc_by_id procs i \<noteq> None"

definition member_key :: "proc list \<Rightarrow> proc_id \<Rightarrow> int \<times> int" where
  "member_key procs i = (p_seg_index (proc_of procs i), p_index_in_seg (proc_of procs i))"

definition rep_key :: "proc list \<Rightarrow> rep_info \<Rightarrow> int \<times> int \<times> int" where
  "rep_key procs r = (rep_type r, rep_seg_index r,
     if rep_type r = SEG_REP then 0 else p_index_in_seg (proc_of procs (rep_proc_id r)))"

definition known_rep :: "proc list \<Rightarrow> rep_info \<Rightarrow> bool" where
  "known_rep procs r \<longleftrightarrow> known_id procs (rep_proc_id r) \<and> (rep_type r = SEG_REP \<or> rep_type r = RING_REP)"

text \<open>Both loops look for the first smallest key.\<close>

fun argmin_from :: "('a \<Rightarrow> 'k::linorder) \<Rightarrow> nat \<Rightarrow> 'a \<Rightarrow> nat \<Rightarrow> 'a list \<Rightarrow> nat" where
  "argmin_from key current c i [] = current"
| "argmin_from key current c i (x # xs) =
     (if key x < key c then argmin_from key i x (Suc i) xs else argmin_from key current c (Suc i) xs)"

lemma argmin_from_min:
  assumes "xs = drop i full" and "i \<le> length full" and "current < i" and "c = full ! current"
    and "\<forall>j < i. key c \<le> key (full ! j)"
  shows "argmin_from key current c i xs < length full
    \<and> (\<forall>j < length full. key (full ! argmin_from key current c i xs) \<le> key (full ! j))"
  using assms
proof (induction xs arbitrary: current c i)
  case (Cons x xs)
  have i1: "i < length full" using Cons.prems(1) by (metis drop_all list.distinct(1) not_le)
  then have "drop i full = full ! i # drop (Suc i) full" by (rule Cons_nth_drop_Suc [symmetric])
  then have i: "i < length full" "x = full ! i" "xs = drop (Suc i) full"
    using i1 Cons.prems(1) by simp_all
  show ?case
  proof (cases "key x < key c")
    case True
    then have "\<forall>j < Suc i. key x \<le> key (full ! j)"
      using Cons.prems(5) i(2) by (auto simp: less_Suc_eq intro: less_imp_le order.strict_trans2)
    from Cons.IH [OF i(3) _ _ i(2) this] True i(1) show ?thesis by simp
  next
    case False
    then have "\<forall>j < Suc i. key c \<le> key (full ! j)" using Cons.prems(5) i(2) by (auto simp: less_Suc_eq)
    from Cons.IH [OF i(3) _ _ Cons.prems(4) this] False i(1) Cons.prems(3) show ?thesis by simp
  qed
qed (auto simp: le_antisym)

lemma argmin_min:
  "argmin_from key 0 x 1 xs < length (x # xs)
    \<and> (\<forall>y \<in> set (x # xs). key ((x # xs) ! argmin_from key 0 x 1 xs) \<le> key y)"
proof -
  from argmin_from_min [of xs 1 "x # xs" 0 x key]
  have *: "argmin_from key 0 x 1 xs < length (x # xs)
    \<and> (\<forall>j < length (x # xs). key ((x # xs) ! argmin_from key 0 x 1 xs) \<le> key ((x # xs) ! j))" by simp
  then show ?thesis by (metis in_set_conv_nth)
qed

lemma smallest_member_loop_argmin:
  "list_all (known_id procs) xs \<Longrightarrow>
     smallest_member_loop procs current (proc_of procs c) i xs = Inr (argmin_from (member_key procs) current c i xs)"
proof (induction xs arbitrary: current c i)
  case (Cons z zs)
  obtain j where "Conf_proc_by_id procs z = Some (j, proc_of procs z)"
    using Cons.prems by (auto simp: known_id_def proc_of_def)
  moreover have "proc_before (proc_of procs z) (proc_of procs c) \<longleftrightarrow> member_key procs z < member_key procs c"
    by (auto simp: proc_before_def member_key_def)
  ultimately show ?case using Cons by simp
qed simp

interpretation member_sort: selection "smallest_member_index procs" "member_key procs" "known_id procs" for procs
proof
  fix xs :: "proc_id list"
  assume "xs \<noteq> []" and k: "list_all (known_id procs) xs"
  then obtain x ys where xs: "xs = x # ys" by (cases xs) auto
  then obtain j p where "Conf_proc_by_id procs x = Some (j, p)" using k by (auto simp: known_id_def)
  then have "smallest_member_index procs xs = Inr (argmin_from (member_key procs) 0 x 1 ys)"
    using smallest_member_loop_argmin [of procs ys 0 x 1] k
    by (simp add: smallest_member_index_def xs proc_of_def)
  with argmin_min [where key = "member_key procs" and x = x and xs = ys]
  show "\<exists>i. smallest_member_index procs xs = Inr i \<and> i < length xs
    \<and> (\<forall>y \<in> set xs. member_key procs (xs ! i) \<le> member_key procs y)" unfolding xs by blast
qed

lemma rep_before_key:
  assumes "known_rep procs r" and "known_rep procs c"
  shows "rep_before procs r c = Inr (rep_key procs r < rep_key procs c)"
proof -
  obtain j p k q where "Conf_proc_by_id procs (rep_proc_id r) = Some (j, p)"
    "Conf_proc_by_id procs (rep_proc_id c) = Some (k, q)"
    using assms by (auto simp: known_rep_def known_id_def)
  then show ?thesis using assms
    by (auto simp: rep_before_def rep_key_def known_rep_def rep_types proc_of_def)
qed

lemma smallest_rep_loop_argmin:
  "list_all (known_rep procs) (c # xs) \<Longrightarrow>
     smallest_rep_loop procs current c i xs = Inr (argmin_from (rep_key procs) current c i xs)"
  by (induction xs arbitrary: current c i) (simp_all add: rep_before_key)

interpretation rep_sort: selection "smallest_rep_index procs" "rep_key procs" "known_rep procs" for procs
proof
  fix xs :: "rep_info list"
  assume "xs \<noteq> []" and k: "list_all (known_rep procs) xs"
  then obtain x ys where xs: "xs = x # ys" by (cases xs) auto
  then have "smallest_rep_index procs xs = Inr (argmin_from (rep_key procs) 0 x 1 ys)"
    using smallest_rep_loop_argmin k by (simp add: smallest_rep_index_def)
  with argmin_min [where key = "rep_key procs" and x = x and xs = ys]
  show "\<exists>i. smallest_rep_index procs xs = Inr i \<and> i < length xs
    \<and> (\<forall>y \<in> set xs. rep_key procs (xs ! i) \<le> rep_key procs y)" unfolding xs by blast
qed


subsection \<open>Invariants of the lists\<close>

definition members_inv :: "members_info \<Rightarrow> bool" where
  "members_inv m \<longleftrightarrow> 0 \<le> mi_num_members m \<and> mi_num_members m \<le> MAX_PROCS_RING
     \<and> mi_num_members m \<le> int (length (mi_members m)) \<and> distinct (members_of m)"

text \<open>
  A representative is a configured daemon under its own id, filed under its segment.
  \<open>rep_apart\<close>: two entries are of different daemons, and share a segment only when neither is
  a mere potential representative.
\<close>

definition rep_ok :: "proc list \<Rightarrow> rep_info \<Rightarrow> bool" where
  "rep_ok procs r \<longleftrightarrow> (\<exists>k p. Conf_proc_by_id procs (rep_proc_id r) = Some (k, p)
       \<and> p_id p = rep_proc_id r \<and> p_seg_index p = rep_seg_index r)
     \<and> (rep_type r = POTENTIAL_REP \<or> rep_type r = SEG_REP \<or> rep_type r = RING_REP)"

definition rep_apart :: "rep_info \<Rightarrow> rep_info \<Rightarrow> bool" where
  "rep_apart r q \<longleftrightarrow> rep_proc_id r \<noteq> rep_proc_id q
     \<and> (rep_seg_index r = rep_seg_index q \<longrightarrow> rep_type r \<noteq> POTENTIAL_REP \<and> rep_type q \<noteq> POTENTIAL_REP)"

definition reps_inv :: "proc list \<Rightarrow> reps_info \<Rightarrow> bool" where
  "reps_inv procs r \<longleftrightarrow> 0 \<le> ri_num_reps r \<and> ri_num_reps r \<le> MAX_REPS
     \<and> ri_num_reps r \<le> int (length (ri_reps r))
     \<and> list_all (rep_ok procs) (reps_of r) \<and> sorted_wrt rep_apart (reps_of r)"

lemma members_of_put:
  "0 \<le> mi_num_members m \<Longrightarrow> mi_num_members m \<le> int (length (mi_members m)) \<Longrightarrow>
     members_of (m\<lparr>mi_members := arr_put (mi_members m) (mi_num_members m) i,
                   mi_num_members := mi_num_members m + 1\<rparr>) = members_of m @ [i]"
  by (simp add: members_of_def prefix_of_arr_put nat_le_iff)

lemma Insert_member_inv:
  assumes "members_inv m"
  shows "members_inv (snd (Insert_member m i))"
    and "members_of (snd (Insert_member m i)) =
      members_of m @ (if i \<in> set (members_of m) \<or> mi_num_members m = MAX_PROCS_RING then [] else [i])"
    and "fst (Insert_member m i) = (if i \<in> set (members_of m) \<or> mi_num_members m = MAX_PROCS_RING then 0 else 1)"
    and "mi_num_pending (snd (Insert_member m i)) = mi_num_pending m"
proof -
  have "length (arr_put (mi_members m) (mi_num_members m) i) = max (length (mi_members m)) (Suc (nat (mi_num_members m)))"
    using assms by (intro length_arr_put) (auto simp: members_inv_def nat_le_iff)
  then show "members_inv (snd (Insert_member m i))"
    using assms members_of_put [of m i] by (auto simp: Insert_member_def members_inv_def)
qed (use assms members_of_put [of m i] in \<open>auto simp: Insert_member_def members_inv_def\<close>)

lemma rep_apart_sym: "rep_apart r q \<Longrightarrow> rep_apart q r"
  by (auto simp: rep_apart_def)

lemma scan_reps_Some:
  "scan_reps f rs = Some (ret, rs') \<Longrightarrow>
     \<exists>as r bs x. rs = as @ r # bs \<and> f r = Some x \<and> ret = (if x = None then 0 else 1)
       \<and> rs' = as @ (case x of None \<Rightarrow> r | Some r' \<Rightarrow> r') # bs"
proof (induction rs arbitrary: ret rs')
  case (Cons q rs)
  show ?case
  proof (cases "f q")
    case None
    then obtain rs2 where r2: "scan_reps f rs = Some (ret, rs2)" "rs' = q # rs2"
      using Cons.prems by auto
    from Cons.IH [OF r2(1)] obtain as r bs x where
      "rs = as @ r # bs" "f r = Some x" "ret = (if x = None then 0 else 1)"
      "rs2 = as @ (case x of None \<Rightarrow> r | Some r' \<Rightarrow> r') # bs" by blast
    then show ?thesis using r2(2) by (intro exI [of _ "q # as"] exI [of _ r] exI [of _ bs] exI [of _ x]) simp
  next
    case (Some x)
    then show ?thesis using Cons.prems
      by (intro exI [of _ "[]"] exI [of _ q] exI [of _ rs] exI [of _ x]) (auto split: option.splits)
  qed
qed simp

lemma scan_reps_None: "scan_reps f rs = None \<longleftrightarrow> (\<forall>r \<in> set rs. f r = None)"
  by (induction rs) (auto split: option.splits)

lemma rep_ok_other_seg:
  "rep_ok procs q \<Longrightarrow> Conf_proc_by_id procs (p_id p) = Some (k, p) \<Longrightarrow>
     rep_seg_index q \<noteq> p_seg_index p \<Longrightarrow> rep_proc_id q \<noteq> p_id p"
  by (auto simp: rep_ok_def)

text \<open>An entry that gives way to \<open>p\<close> stays well formed and apart from the others.\<close>

lemma rep_clash_replace:
  assumes "rep_clash t p r = Some (Some r')" and "Conf_proc_by_id procs (p_id p) = Some (k, p)"
    and "rep_ok procs r"
  shows "rep_ok procs r' \<and> rep_seg_index r' = rep_seg_index r
    \<and> (\<forall>q. rep_ok procs q \<and> rep_apart r q \<longrightarrow> rep_apart r' q)"
proof -
  have seg: "rep_seg_index r = p_seg_index p" using assms(1) by (auto simp: rep_clash_def split: if_splits)
  have ok: "rep_ok procs r'" "rep_seg_index r' = rep_seg_index r"
    using assms seg by (auto simp: rep_clash_def rep_ok_def rep_types split: if_splits)
  moreover have "rep_apart r' q" if q: "rep_ok procs q" "rep_apart r q" for q
  proof (cases "rep_seg_index q = p_seg_index p")
    case True
    then show ?thesis using assms(1) q seg
      by (auto simp: rep_clash_def rep_apart_def rep_types split: if_splits)
  next
    case False
    then show ?thesis using rep_ok_other_seg [OF q(1) assms(2)] assms(1) q seg
      by (auto simp: rep_clash_def rep_apart_def split: if_splits)
  qed
  ultimately show ?thesis by blast
qed

lemma rep_clash_None:
  assumes "rep_clash (rep_type rep) p q = None" and "Conf_proc_by_id procs (p_id p) = Some (k, p)"
    and "rep_ok procs q" and "rep_ok procs rep" and "rep_proc_id rep = p_id p" and "rep_seg_index rep = p_seg_index p"
  shows "rep_apart q rep"
proof (cases "rep_seg_index q = p_seg_index p")
  case True
  then show ?thesis using assms(1,3-6)
    by (auto simp: rep_clash_def rep_apart_def rep_ok_def rep_types split: if_splits)
next
  case False
  then show ?thesis using rep_ok_other_seg [OF assms(3,2)] assms(5,6) by (simp add: rep_apart_def)
qed

lemma reps_of_update:
  assumes "0 \<le> ri_num_reps r" and "ri_num_reps r \<le> int (length (ri_reps r))" and "length rs = length (reps_of r)"
  shows "reps_of (r\<lparr>ri_reps := rs @ drop (nat (ri_num_reps r)) (ri_reps r)\<rparr>) = rs"
    and "length (rs @ drop (nat (ri_num_reps r)) (ri_reps r)) = length (ri_reps r)"
  using assms by (auto simp: reps_of_def prefix_of_def nat_le_iff min_def)

lemma reps_of_put:
  "0 \<le> ri_num_reps r \<Longrightarrow> ri_num_reps r \<le> int (length (ri_reps r)) \<Longrightarrow>
     reps_of (r\<lparr>ri_reps := arr_put (ri_reps r) (ri_num_reps r) rep, ri_num_reps := ri_num_reps r + 1\<rparr>)
       = reps_of r @ [rep]"
  by (simp add: reps_of_def prefix_of_arr_put nat_le_iff)

lemma Insert_rep_inv:
  assumes inv: "reps_inv procs r" and ok: "rep_ok procs rep"
  shows "returns (Insert_rep procs r rep) (\<lambda>(ret, r'). reps_inv procs r'
    \<and> rep_seg_index ` set (reps_of r') =
       (if ret = 0 then rep_seg_index ` set (reps_of r) else insert (rep_seg_index rep) (rep_seg_index ` set (reps_of r)))
    \<and> (ret = 0 \<longrightarrow> ri_num_reps r = MAX_REPS \<or> rep_seg_index rep \<in> rep_seg_index ` set (reps_of r)))"
proof -
  obtain k p where p: "Conf_proc_by_id procs (rep_proc_id rep) = Some (k, p)" "p_id p = rep_proc_id rep"
      "p_seg_index p = rep_seg_index rep"
    and t: "rep_type rep = POTENTIAL_REP \<or> rep_type rep = SEG_REP \<or> rep_type rep = RING_REP"
    using ok by (auto simp: rep_ok_def)
  have self: "Conf_proc_by_id procs (p_id p) = Some (k, p)" using p by simp
  have n: "0 \<le> ri_num_reps r" "ri_num_reps r \<le> int (length (ri_reps r))" using inv by (auto simp: reps_inv_def)
  show ?thesis
  proof (cases "scan_reps (rep_clash (rep_type rep) p) (reps_of r)")
    case None
    then have "\<forall>q \<in> set (reps_of r). rep_apart q rep"
      using rep_clash_None [OF _ self _ ok] p inv by (auto simp: scan_reps_None reps_inv_def list_all_iff)
    moreover have "length (arr_put (ri_reps r) (ri_num_reps r) rep) = max (length (ri_reps r)) (Suc (nat (ri_num_reps r)))"
      using n by (intro length_arr_put) (auto simp: nat_le_iff)
    ultimately show ?thesis
      using None p t inv ok reps_of_put [OF n, of rep]
      by (auto simp: Insert_rep_def reps_inv_def sorted_wrt_append)
  next
    case (Some x)
    obtain ret rs' where x: "x = (ret, rs')" by (cases x)
    from scan_reps_Some [OF Some [unfolded x]] obtain as q bs y where
      q: "reps_of r = as @ q # bs" "rep_clash (rep_type rep) p q = Some y" "ret = (if y = None then 0 else 1)"
        "rs' = as @ (case y of None \<Rightarrow> q | Some r' \<Rightarrow> r') # bs" by blast
    have seg: "rep_seg_index q = rep_seg_index rep"
      using q(2) p(3) by (auto simp: rep_clash_def split: if_splits)
    have eq: "Insert_rep procs r rep = Inr (ret, r\<lparr>ri_reps := rs' @ drop (nat (ri_num_reps r)) (ri_reps r)\<rparr>)"
      using Some x p t by (auto simp: Insert_rep_def)
    have len: "length rs' = length (reps_of r)" using q by simp
    have up: "reps_of (r\<lparr>ri_reps := rs' @ drop (nat (ri_num_reps r)) (ri_reps r)\<rparr>) = rs'"
      "length (rs' @ drop (nat (ri_num_reps r)) (ri_reps r)) = length (ri_reps r)"
      by (rule reps_of_update [OF n len])+
    have "list_all (rep_ok procs) rs' \<and> sorted_wrt rep_apart rs'
        \<and> rep_seg_index ` set rs' = rep_seg_index ` set (reps_of r)"
    proof (cases y)
      case None
      then show ?thesis using q inv by (auto simp: reps_inv_def)
    next
      case (Some r')
      note rep = rep_clash_replace [OF q(2) [unfolded Some] self]
      have "rep_ok procs q" using inv q(1) by (simp add: reps_inv_def)
      note rep = rep [OF this]
      have all: "sorted_wrt rep_apart (as @ q # bs)" "list_all (rep_ok procs) (as @ q # bs)"
        using inv q(1) by (auto simp: reps_inv_def)
      have "rep_apart x r'" if "x \<in> set as" for x
      proof -
        have "rep_apart q x" "rep_ok procs x"
          using that all by (auto simp: sorted_wrt_append list_all_iff intro: rep_apart_sym)
        then show ?thesis using rep by (blast intro: rep_apart_sym)
      qed
      then have "sorted_wrt rep_apart (as @ r' # bs)"
        using all rep by (auto simp: sorted_wrt_append list_all_iff)
      moreover have "list_all (rep_ok procs) (as @ r' # bs)" using inv q(1) rep by (simp add: reps_inv_def)
      moreover have "rep_seg_index ` set (as @ r' # bs) = rep_seg_index ` set (as @ q # bs)"
        using rep by simp
      ultimately show ?thesis using q(1,4) Some by simp
    qed
    then show ?thesis unfolding eq using inv up q seg n
      by (auto simp: reps_inv_def)
  qed
qed

subsection \<open>Properties\<close>

text \<open>
  \<open>Insert_member\<close> keeps the member list a set: from a list without duplicates it returns 1
  and appends the id exactly when it is new and the array is not full, and otherwise returns 0
  and changes nothing; the count stays within the array.
\<close>

theorem Insert_member_set:
  assumes "members_inv m"
  shows "members_inv (snd (Insert_member m i))
    \<and> members_of (snd (Insert_member m i)) =
      members_of m @ (if i \<in> set (members_of m) \<or> mi_num_members m = MAX_PROCS_RING then [] else [i])
    \<and> fst (Insert_member m i) = (if i \<in> set (members_of m) \<or> mi_num_members m = MAX_PROCS_RING then 0 else 1)
    \<and> mi_num_pending (snd (Insert_member m i)) = mi_num_pending m"
  using Insert_member_inv [OF assms] by blast

theorem Insert_member_set_witness:
  "members_of (snd (Insert_member \<lparr>mi_num_members = 1, mi_num_pending = 0, mi_members = [11, 13]\<rparr> 12)) = [11, 12]"
  using Insert_member_set [of "\<lparr>mi_num_members = 1, mi_num_pending = 0, mi_members = [11, 13]\<rparr>" 12]
  by (simp add: members_inv_def members_of_def prefix_of_def MAX_PROCS_RING_def)

text \<open>
  \<open>Insert_rep\<close> keeps the representatives apart. From a well-formed list (configured
  daemons, each once, a potential representative alone in its segment) and a well-formed
  entry it never stops the daemon, keeps the list well formed and within the array, and
  afterwards the entry's segment is represented unless the array is full; no segment loses
  its representation.
\<close>

theorem Insert_rep_represents:
  assumes "reps_inv procs r" and "rep_ok procs rep"
  shows "returns (Insert_rep procs r rep) (\<lambda>(ret, r'). reps_inv procs r'
    \<and> rep_seg_index ` set (reps_of r') =
       (if ret = 0 then rep_seg_index ` set (reps_of r) else insert (rep_seg_index rep) (rep_seg_index ` set (reps_of r)))
    \<and> (ret = 0 \<longrightarrow> ri_num_reps r = MAX_REPS \<or> rep_seg_index rep \<in> rep_seg_index ` set (reps_of r)))"
  using assms by (rule Insert_rep_inv)

definition procs_example :: "proc list" where
  "procs_example = [\<lparr>p_name = ''a'', p_port = 1, p_seg_index = 0, p_index_in_seg = 0, p_id = 11,
        p_ifc = [\<lparr>if_ip = 11, if_port = 0, if_type = 7\<rparr>]\<rparr>,
     \<lparr>p_name = ''b'', p_port = 1, p_seg_index = 0, p_index_in_seg = 1, p_id = 12,
        p_ifc = [\<lparr>if_ip = 12, if_port = 0, if_type = 7\<rparr>]\<rparr>,
     \<lparr>p_name = ''c'', p_port = 1, p_seg_index = 1, p_index_in_seg = 0, p_id = 13,
        p_ifc = [\<lparr>if_ip = 13, if_port = 0, if_type = 7\<rparr>]\<rparr>]"

lemma procs_example_lookup:
  "Conf_proc_by_id procs_example 11 = Some (0, procs_example ! 0)"
  "Conf_proc_by_id procs_example 12 = Some (1, procs_example ! 1)"
  "Conf_proc_by_id procs_example 13 = Some (2, procs_example ! 2)"
  by (simp_all add: Conf_proc_by_id_def has_ip_def procs_example_def Let_def)

theorem Insert_rep_represents_witness:
  "returns (Insert_rep procs_example
      \<lparr>ri_num_reps = 1, ri_rep_index = 0, ri_reps = [\<lparr>rep_proc_id = 11, rep_type = 0, rep_seg_index = 0\<rparr>]\<rparr>
      \<lparr>rep_proc_id = 12, rep_type = 1, rep_seg_index = 0\<rparr>)
    (\<lambda>(ret, r'). reps_inv procs_example r' \<and> ret = 1 \<and> map rep_proc_id (reps_of r') = [12])"
proof -
  let ?r = "\<lparr>ri_num_reps = 1, ri_rep_index = 0, ri_reps = [\<lparr>rep_proc_id = 11, rep_type = 0, rep_seg_index = 0\<rparr>]\<rparr>"
  let ?rep = "\<lparr>rep_proc_id = 12, rep_type = 1, rep_seg_index = 0\<rparr>"
  have inv: "reps_inv procs_example ?r"
    by (simp add: reps_inv_def reps_of_def prefix_of_def rep_ok_def procs_example_lookup rep_types MAX_REPS_def)
      (simp add: procs_example_def)
  have ok: "rep_ok procs_example ?rep"
    by (simp add: rep_ok_def procs_example_lookup rep_types) (simp add: procs_example_def)
  have "rep_clash 1 (procs_example ! 1) \<lparr>rep_proc_id = 11, rep_type = 0, rep_seg_index = 0\<rparr>
      = Some (Some \<lparr>rep_proc_id = 12, rep_type = 1, rep_seg_index = 0\<rparr>)"
    by (simp add: rep_clash_def rep_types procs_example_def)
  then have x: "Insert_rep procs_example ?r ?rep = Inr (1, ?r\<lparr>ri_reps := [?rep]\<rparr>)"
    by (simp add: Insert_rep_def procs_example_lookup rep_types reps_of_def prefix_of_def)
  with Insert_rep_represents [OF inv ok] show ?thesis by (simp add: reps_of_def prefix_of_def)
qed

text \<open>
  C30: the lists that decide the ring are sorted. On lists of configured members (and of segment
  and ring representatives) \<open>Sort_members\<close> and \<open>Sort_reps\<close> return a permutation in
  configuration order: members by segment and position; representatives segment leaders first,
  then ring leaders, by segment (and position for ring leaders).
\<close>

theorem sorts_sort:
  assumes "list_all (known_id procs) (members_of m)" and "list_all (known_rep procs) (reps_of r)"
    and "0 \<le> mi_num_members m" "mi_num_members m \<le> int (length (mi_members m))"
    and "0 \<le> ri_num_reps r" "ri_num_reps r \<le> int (length (ri_reps r))"
  shows "returns (Sort_members procs m) (\<lambda>m'. mset (members_of m') = mset (members_of m)
      \<and> sorted (map (member_key procs) (members_of m')))
    \<and> returns (Sort_reps procs r) (\<lambda>r'. mset (reps_of r') = mset (reps_of r)
      \<and> sorted (map (rep_key procs) (reps_of r')))"
proof -
  obtain ms where ms: "selection_sort (smallest_member_index procs) (length (members_of m)) (members_of m) = Inr ms"
    "mset ms = mset (members_of m)" "sorted (map (member_key procs) ms)"
    using member_sort.selection_sort_sorts [OF assms(1)] by blast
  obtain rs where rs: "selection_sort (smallest_rep_index procs) (length (reps_of r)) (reps_of r) = Inr rs"
    "mset rs = mset (reps_of r)" "sorted (map (rep_key procs) rs)"
    using rep_sort.selection_sort_sorts [OF assms(2)] by blast
  have "length ms = length (members_of m)" "length rs = length (reps_of r)"
    using ms(2) rs(2) by (metis size_mset)+
  then have "members_of (m\<lparr>mi_members := ms @ drop (nat (mi_num_members m)) (mi_members m)\<rparr>) = ms"
    "reps_of (r\<lparr>ri_reps := rs @ drop (nat (ri_num_reps r)) (ri_reps r)\<rparr>) = rs"
    using assms(3-6) by (auto simp: members_of_def reps_of_def prefix_of_def nat_le_iff min_def)
  with ms rs show ?thesis by (simp add: Sort_members_def Sort_reps_def)
qed

theorem sorts_sort_witness:
  "returns (Sort_members procs_example \<lparr>mi_num_members = 3, mi_num_pending = 0, mi_members = [13, 12, 11]\<rparr>)
     (\<lambda>m'. mset (members_of m') = {#11, 12, 13#} \<and> sorted (map (member_key procs_example) (members_of m')))"
  using sorts_sort [of procs_example "\<lparr>mi_num_members = 3, mi_num_pending = 0, mi_members = [13, 12, 11]\<rparr>"
      "\<lparr>ri_num_reps = 0, ri_rep_index = 0, ri_reps = []\<rparr>"]
  by (simp add: members_of_def reps_of_def prefix_of_def known_id_def procs_example_lookup
      add_mset_commute)

text \<open>
  \<open>Smallest_member\<close> and \<open>Smallest_rep\<close> choose the leader every daemon agrees on: the entry
  first in configuration order, at the index they return, whatever the order of the list.
\<close>

theorem smallest_is_least:
  assumes "0 < mi_num_members m" and "members_of m \<noteq> []" and "list_all (known_id procs) (members_of m)"
    and "0 < ri_num_reps r" and "reps_of r \<noteq> []" and "list_all (known_rep procs) (reps_of r)"
  shows "returns (Smallest_member procs m) (\<lambda>(x, k). k < length (members_of m) \<and> x = members_of m ! k
      \<and> (\<forall>y \<in> set (members_of m). member_key procs x \<le> member_key procs y))
    \<and> returns (Smallest_rep procs r) (\<lambda>(x, k). k < length (reps_of r) \<and> x = rep_proc_id (reps_of r ! k)
      \<and> (\<forall>y \<in> set (reps_of r). rep_key procs (reps_of r ! k) \<le> rep_key procs y))"
proof -
  obtain k where "smallest_member_index procs (members_of m) = Inr k" "k < length (members_of m)"
    "\<forall>y \<in> set (members_of m). member_key procs (members_of m ! k) \<le> member_key procs y"
    using member_sort.pick_min [OF assms(2,3)] by blast
  moreover obtain j where "smallest_rep_index procs (reps_of r) = Inr j" "j < length (reps_of r)"
    "\<forall>y \<in> set (reps_of r). rep_key procs (reps_of r ! j) \<le> rep_key procs y"
    using rep_sort.pick_min [OF assms(5,6)] by blast
  ultimately show ?thesis using assms(1,4) by (simp add: Smallest_member_def Smallest_rep_def Let_def)
qed

theorem smallest_is_least_witness:
  "returns (Smallest_member procs_example \<lparr>mi_num_members = 2, mi_num_pending = 0, mi_members = [13, 12]\<rparr>)
     (\<lambda>(x, k). member_key procs_example x \<le> member_key procs_example 12)"
  by (rule returns_mono [OF conjunct1 [OF smallest_is_least
        [of "\<lparr>mi_num_members = 2, mi_num_pending = 0, mi_members = [13, 12]\<rparr>" procs_example
          "\<lparr>ri_num_reps = 1, ri_rep_index = 0, ri_reps = [\<lparr>rep_proc_id = 11, rep_type = 1, rep_seg_index = 0\<rparr>]\<rparr>"]]])
    (auto simp: members_of_def reps_of_def prefix_of_def known_id_def known_rep_def rep_types procs_example_lookup)

end
