(* ===== verification/Daemon_State.thy ===== *)
theory Daemon_State
  imports Network Membership_Lists
begin

section \<open>The state of the protocol and of the membership algorithm\<close>

text \<open>
  The globals of \<open>daemon/protocol.c\<close>, \<open>prot_body.h\<close>, \<open>flow_control.c\<close> and
  \<open>membership.c\<close>, in one record on top of the network's. \<open>Packets\<close> is the ring of
  \<open>MAX_PACKETS_IN_STRUCT\<close> slots a sequence number is masked into; a slot's \<open>pk_exist\<close> is 0 (free),
  1 (received), 2 (delivered) or 3 (a hole everybody misses). Message bodies are values, so the
  copies made for aliasing reasons and the memory pools do not appear. A down queue's
  \<open>num_mess\<close> is the length of its list. The files keep a copy of \<open>My\<close> each; they are equal and
  one field here. \<open>packets_delivered\<close> logs the headers \<open>Deliver_packet\<close> counts in
  \<open>GlobalStatus.packet_delivered\<close>; of the other status fields only \<open>gstate\<close> is read.
\<close>

subsection \<open>Data\<close>

datatype memb_state = OP | SEG | REPRESENTED | GATHER | FORM | EVS

record packet_info =
  pk_head :: packet_header
  pk_body :: pkt_body
  pk_exist :: int
  pk_proc_index :: int

record up_queue =
  uq_exist :: bool
  uq_mess :: "pkt_body list"

text \<open>A message on its way down: its type and its fragments.\<close>

record down_link =
  dl_type :: "32 word"
  dl_mess :: "(int \<times> pkt_body) list"

record down_queue =
  dq_links :: "down_link list"
  dq_cur_element :: int

record timeouts =
  Token_timeout :: sp_time
  Hurry_timeout :: sp_time
  Alive_timeout :: sp_time
  Join_timeout :: sp_time
  Rep_timeout :: sp_time
  Seg_timeout :: sp_time
  Gather_timeout :: sp_time
  Form_timeout :: sp_time
  Lookup_timeout :: sp_time

record prot_st = net_st +
  Packets :: "nat \<Rightarrow> packet_info"
  Up_queue :: "nat \<Rightarrow> up_queue"
  Protocol_down_queue :: "nat \<Rightarrow> down_queue"
  Down_queue_ptr :: nat
  Aru :: int
  My_aru :: int
  Highest_seq :: int
  Highest_fifo_seq :: int
  Last_discarded :: int
  Last_delivered :: int
  Last_seq :: int
  Token_rounds :: int
  Last_token :: token_header
  Set_aru :: int
  Token_counter :: int
  Last_num_retrans :: int
  Last_num_sent :: int
  My_index :: int
  Hurry_head :: packet_header
  Window :: int
  Personal_window :: int
  gstate :: int
  packets_delivered :: "packet_header list"

record daemon = prot_st +
  timeo :: timeouts
  Wide_network :: bool
  State :: memb_state
  Token_alive :: bool
  Transitional :: bool
  Membership :: configuration
  Membership_id :: membership_id
  Future_membership :: configuration
  Future_membership_id :: membership_id
  Reg_membership :: configuration
  Trans_membership :: configuration
  Commit_membership :: configuration
  Trans_memb_id :: membership_id
  F_trans_memb_time :: int
  Last_time_used :: int
  My_seg_rep :: proc_id
  Foreign_found :: bool
  F_members :: members_info
  F_reps :: reps_info
  Potential_reps :: reps_info
  Commit_set :: members_info
  Future_commit_set :: members_info
  Memb_head :: packet_header

definition MAX_SEQ_GAP :: int where "MAX_SEQ_GAP = 1600"
definition MAX_EVS_ROUNDS :: int where "MAX_EVS_ROUNDS = 500"
definition WATER_MARK :: int where "WATER_MARK = 500"
definition MAX_PACKETS_IN_STRUCT :: int where "MAX_PACKETS_IN_STRUCT = 8192"

subsection \<open>Slots\<close>

text \<open>\<open>seq & PACKET_MASK\<close>, which on two's complement numbers is the remainder modulo 8192.\<close>

definition pack_entry :: "int \<Rightarrow> nat" where
  "pack_entry seq = nat (seq mod MAX_PACKETS_IN_STRUCT)"

definition slot :: "int \<Rightarrow> 'a prot_st_scheme \<Rightarrow> packet_info" where
  "slot seq s = Packets s (pack_entry seq)"

definition exist :: "int \<Rightarrow> 'a prot_st_scheme \<Rightarrow> int" where
  "exist seq s = pk_exist (slot seq s)"

definition set_exist :: "int \<Rightarrow> int \<Rightarrow> 'a prot_st_scheme \<Rightarrow> 'a prot_st_scheme" where
  "set_exist seq v s =
     s\<lparr>Packets := (Packets s)(pack_entry seq := (slot seq s)\<lparr>pk_exist := v\<rparr>)\<rparr>"

definition set_slot_head :: "int \<Rightarrow> packet_header \<Rightarrow> 'a prot_st_scheme \<Rightarrow> 'a prot_st_scheme" where
  "set_slot_head seq h s =
     s\<lparr>Packets := (Packets s)(pack_entry seq := (slot seq s)\<lparr>pk_head := h\<rparr>)\<rparr>"

text \<open>The sequence numbers a loop from \<open>a\<close> to \<open>b\<close> visits that are missing.\<close>

definition missing :: "int \<Rightarrow> int \<Rightarrow> 'a prot_st_scheme \<Rightarrow> int list" where
  "missing a b s = filter (\<lambda>i. exist i s = 0) [a .. b]"

text \<open>\<open>while( next exists ) My_aru++\<close>, as both \<open>Prot_handle_bcast\<close> and \<open>Prot_handle_token\<close> do.\<close>

fun advance_aru :: "int list \<Rightarrow> int \<Rightarrow> 'a prot_st_scheme \<Rightarrow> int" where
  "advance_aru [] aru s = aru"
| "advance_aru (i # is) aru s = (if exist i s = 0 then aru else advance_aru is (aru + 1) s)"

subsection \<open>Accessors\<close>

definition my_id :: "'a conf_st_scheme \<Rightarrow> proc_id" where
  "my_id s = p_id (My s)"

definition my_seg :: "'a conf_st_scheme \<Rightarrow> int" where
  "my_seg s = p_seg_index (My s)"

definition Memb_active :: "daemon \<Rightarrow> configuration" where
  "Memb_active s = (if State s = EVS then Future_membership s else Membership s)"

definition Memb_is_equal :: "membership_id \<Rightarrow> membership_id \<Rightarrow> bool" where
  "Memb_is_equal m1 m2 \<longleftrightarrow> mid_proc_id m1 = mid_proc_id m2 \<and> mid_time m1 = mid_time m2"

text \<open>\<open>Conf_leader( memb ) == My.id\<close>; an empty membership stops the daemon.\<close>

definition leads :: "configuration \<Rightarrow> daemon \<Rightarrow> bool outcome" where
  "leads memb s = bindE (Conf_leader (Config_procs s) memb) (\<lambda>l. Inr (l = my_id s))"

definition in_memb :: "proc_id \<Rightarrow> configuration \<Rightarrow> daemon \<Rightarrow> bool" where
  "in_memb i memb s \<longleftrightarrow> Conf_id_in_conf (Config_procs s) memb i \<noteq> -1"

text \<open>The fields of a packet or token header that the code leaves uninitialised.\<close>

definition blank_header :: packet_header where
  "blank_header = \<lparr>ph_type = 0, ph_transmiter_id = 0, ph_proc_id = 0,
     ph_memb_id = \<lparr>mid_proc_id = 0, mid_time = 0\<rparr>, ph_seq = 0, ph_fifo_seq = 0, ph_packet_index = 0,
     ph_data_len = 0, ph_conf_hash = 0\<rparr>"

definition blank_token :: token_header where
  "blank_token = \<lparr>tk_type = 0, tk_transmiter_id = 0, tk_seq = 0, tk_proc_id = 0, tk_aru = 0,
     tk_aru_last_id = 0, tk_flow_control = 0, tk_rtr_len = 0, tk_conf_hash = 0\<rparr>"

subsection \<open>Timers, as the daemon arms and cancels them\<close>

definition arm :: "timer_fn \<Rightarrow> sp_time \<Rightarrow> daemon \<Rightarrow> daemon" where
  "arm f t s = E_queue f 0 0 t s"

definition disarm :: "timer_fn \<Rightarrow> daemon \<Rightarrow> daemon" where
  "disarm f s = snd (E_dequeue f 0 0 s)"

definition armed :: "timer_fn \<Rightarrow> daemon \<Rightarrow> bool" where
  "armed f s \<longleftrightarrow> (f, 0, 0) \<in> pending s"

lemma arm_eq: "arm f t s = E_arm (f, 0, 0) t s"
  by (simp add: arm_def E_arm_def)

lemma disarm_eq: "disarm f s = E_cancel (f, 0, 0) s"
  by (simp add: disarm_def E_cancel_def)

lemma timers_ok_arm [simp]: "timers_ok s \<Longrightarrow> timers_ok (arm f t s)"
  by (simp add: arm_eq tq.ok_arm)

lemma timers_ok_disarm [simp]: "timers_ok s \<Longrightarrow> timers_ok (disarm f s)"
  by (simp add: disarm_eq tq.ok_cancel)

lemma armed_arm [simp]: "timers_ok s \<Longrightarrow> armed g (arm f t s) \<longleftrightarrow> g = f \<or> armed g s"
  by (auto simp: armed_def arm_eq tq.pending_arm)

lemma armed_disarm [simp]: "timers_ok s \<Longrightarrow> armed g (disarm f s) \<longleftrightarrow> g \<noteq> f \<and> armed g s"
  by (auto simp: armed_def disarm_eq tq.pending_cancel)

lemma pending_Time_queue: "Time_queue s = Time_queue s' \<Longrightarrow> pending s = pending s'"
  by (simp add: pending_def)

text \<open>Arming and cancelling touches nothing but the event queue and the clock.\<close>

lemma arm_more: "prot_st.more (arm f t s) = prot_st.more s" "net_st.more (arm f t s) = net_st.more s"
  "conf_st.more (arm f t s) = conf_st.more s" "ev_st.more (arm f t s) = ev_st.more s"
  by (simp_all add: arm_def E_queue_def E_get_time_def Let_def)

lemma disarm_more: "prot_st.more (disarm f s) = prot_st.more s" "net_st.more (disarm f s) = net_st.more s"
  "conf_st.more (disarm f s) = conf_st.more s" "ev_st.more (disarm f s) = ev_st.more s"
  by (auto simp: disarm_def E_dequeue_def split: option.split)

subsection \<open>A daemon to evaluate the definitions on\<close>

text \<open>
  The second of three daemons, in an operational ring with the other two; the configuration
  is that of \<open>net_example\<close>.
\<close>

definition daemon_example :: daemon where
  "daemon_example =
     (let c = Config net_example; mid = \<lparr>mid_proc_id = 11, mid_time = 50\<rparr>;
          commit = \<lparr>mi_num_members = 3, mi_num_pending = 2, mi_members = [13, 12, 11]\<rparr>;
          reps = \<lparr>ri_num_reps = 0, ri_rep_index = 0, ri_reps = []\<rparr>
      in \<lparr>Time_queue = [], Now = Sp_time 0 0, time_of_day = (\<lambda>n. Sp_time (100 + int n) 0), time_reads = 0,
          Config = c, Config_procs = Config_procs net_example, My = My net_example,
          Conf_Reload_State = False, EnableDangerousMonitor = False,
          Bcast_channel = [3], Token_channel = [4], Bcast_needed = True, Bcast_address = 255,
          Bcast_port = 4803, Send_list = [(13, 4820)], Queued_bytes = 0, Queue_scat = [],
          Token_address = 13, Token_port = 4821, Net_membership = c, Segment_leader = False,
          Partition = (\<lambda>_. 0), Partition_my_index = 1, dl_ret = (\<lambda>_. 1), dl_sends = 0, Output = [],
          Packets = (\<lambda>_. \<lparr>pk_head = blank_header, pk_body = Data [], pk_exist = 0, pk_proc_index = 0\<rparr>),
          Up_queue = (\<lambda>_. \<lparr>uq_exist = False, uq_mess = []\<rparr>),
          Protocol_down_queue = (\<lambda>_. \<lparr>dq_links = [], dq_cur_element = 0\<rparr>), Down_queue_ptr = 0,
          Aru = 0, My_aru = 0, Highest_seq = 0, Highest_fifo_seq = 0, Last_discarded = 0,
          Last_delivered = 0, Last_seq = 0, Token_rounds = 1, Last_token = blank_token, Set_aru = -1,
          Token_counter = 0, Last_num_retrans = 0, Last_num_sent = 0, My_index = 1,
          Hurry_head = blank_header\<lparr>ph_type := HURRY_TYPE, ph_proc_id := 12\<rparr>, Window = 60,
          Personal_window = 15, gstate = 1, packets_delivered = [],
          timeo = \<lparr>Token_timeout = Sp_time 20 0, Hurry_timeout = Sp_time 6 0, Alive_timeout = Sp_time 1 0,
            Join_timeout = Sp_time 1 0, Rep_timeout = Sp_time 5 0, Seg_timeout = Sp_time 2 0,
            Gather_timeout = Sp_time 10 0, Form_timeout = Sp_time 10 0, Lookup_timeout = Sp_time 90 0\<rparr>,
          Wide_network = False, State = OP, Token_alive = True, Transitional = False,
          Membership = c, Membership_id = mid, Future_membership = c, Future_membership_id = mid,
          Reg_membership = c, Trans_membership = c, Commit_membership = c, Trans_memb_id = mid,
          F_trans_memb_time = 49, Last_time_used = 50, My_seg_rep = -1, Foreign_found = False,
          F_members = \<lparr>mi_num_members = 1, mi_num_pending = 0, mi_members = [12]\<rparr>, F_reps = reps,
          Potential_reps = reps, Commit_set = commit, Future_commit_set = commit, Memb_head = blank_header\<rparr>)"

lemmas daemon_example_simps = daemon_example_def net_example_def Let_def

lemma daemon_example_conf: "wf_conf (Config_procs daemon_example) (Config daemon_example)"
  by (simp add: daemon_example_simps wf_conf_def wf_procs_def has_ip_def less_Suc_eq)

end
