(* ===== verification/Flow_Control.thy ===== *)
theory Flow_Control
  imports Daemon_State
begin

section \<open>Flow control\<close>

text \<open>
  Model of \<open>daemon/flow_control.c\<close>: the window sizes, how many datagrams a token visit may
  send, and the monitor's request to change the windows.
\<close>

definition FC_init :: "'a prot_st_scheme \<Rightarrow> 'a prot_st_scheme" where
  "FC_init s = s\<lparr>Window := 60, Personal_window := 15\<rparr>"

definition FC_new_configuration :: "'a prot_st_scheme \<Rightarrow> 'a prot_st_scheme" where
  "FC_new_configuration s = s\<lparr>Last_num_retrans := 0, Last_num_sent := 0\<rparr>"

definition FC_allowed :: "int \<Rightarrow> int \<Rightarrow> daemon \<Rightarrow> int" where
  "FC_allowed flow_control num_retrans s =
     (if State s = EVS then 0
      else if Highest_seq s > Aru s + MAX_SEQ_GAP then 0
      else
        let a = Window s + Personal_window s - flow_control;
            a1 = (if a < 0 then 0 else a);
            a2 = (if a1 > Window s then Window s else a1)
        in if a2 > Personal_window s then Personal_window s else a2)"

definition FC_handle_message :: "packet \<Rightarrow> 'a prot_st_scheme \<Rightarrow> 'a prot_st_scheme outcome" where
  "FC_handle_message p s =
     (let h = pkt_head p
      in if \<not> EnableDangerousMonitor s then Inr s
         else if \<not> (mid_proc_id (ph_memb_id h) = MONITOR_ID
                   \<and> Conf_id_in_conf (Config_procs s) (Config s) (ph_proc_id h) \<noteq> -1)
         then Inr s
         else case pkt_body p of
             Int16s xs \<Rightarrow>
               let n = Conf_num_procs (Config s); my_index = conf_index (my_id s) s;
                   read = (\<lambda>i. if Same_endian (ph_type h) then xs ! nat i else flip_i16 (xs ! nat i))
               in if my_index < 0 \<or> int (length xs) \<le> my_index \<or> int (length xs) \<le> n
                  then Inl (Undefined ''FC_handle_message'')
                  else Inr (s\<lparr>Window := if read n \<noteq> -1 then read n else Window s,
                              Personal_window := if read my_index \<noteq> -1 then read my_index
                                                 else Personal_window s\<rparr>)
           | _ \<Rightarrow> Inl (Undefined ''FC_handle_message''))"



end
