(* ===== verification/Memb_View.thy ===== *)
theory Memb_View
  imports Flow_Control
begin

section \<open>Installing memberships\<close>

text \<open>
  Model of the routines of \<open>daemon/membership.c\<close> that compute and install views:
  \<open>Memb_commit\<close>, \<open>Memb_transitional\<close>, \<open>Memb_regular\<close>, and \<open>Backoff_membership\<close>, which
  returns to the old membership when the new one fails.
\<close>

subsection \<open>Views\<close>

definition Memb_commit :: "daemon \<Rightarrow> daemon" where
  "Memb_commit s = s\<lparr>Commit_set := Future_commit_set s\<rparr>"

text \<open>The processes of a configured segment that are in a set of ids, in configuration order.\<close>

fun collect_seg :: "string \<Rightarrow> proc list \<Rightarrow> proc_id list \<Rightarrow> nat list \<Rightarrow> segment \<Rightarrow> segment outcome" where
  "collect_seg who procs ids [] seg = Inr seg"
| "collect_seg who procs ids (k # ks) seg =
     (let i = p_id (procs ! k)
      in if i \<in> set ids then
           let (ret, seg') = Conf_append_id_to_seg procs seg i
           in if ret = -1 then Inl (Alarm_exit who) else collect_seg who procs ids ks seg'
         else collect_seg who procs ids ks seg)"

definition empty_seg :: segment where
  "empty_seg = \<lparr>seg_bcast_address = 0, seg_port = 0, seg_procs = []\<rparr>"

fun collect_segs :: "string \<Rightarrow> proc list \<Rightarrow> proc_id list \<Rightarrow> segment list \<Rightarrow> segment list outcome" where
  "collect_segs who procs ids [] = Inr []"
| "collect_segs who procs ids (g # gs) =
     bindE (collect_seg who procs ids (seg_procs g) empty_seg) (\<lambda>g'.
     bindE (collect_segs who procs ids gs) (\<lambda>gs'. Inr (g' # gs')))"

definition Memb_transitional :: "daemon \<Rightarrow> daemon outcome" where
  "Memb_transitional s =
     (let collect = (\<lambda>ids. collect_segs ''Memb_transitional'' (Config_procs s) ids (segments (Config s)));
          members = mi_members (Commit_set s)
      in bindE (collect (prefix_of (mi_num_pending (Commit_set s)) members)) (\<lambda>trans.
         let s1 = s\<lparr>Transitional := True,
                    Trans_membership := (Trans_membership s)\<lparr>segments := trans\<rparr>\<rparr>
         in bindE (Conf_leader (Config_procs s1) (Trans_membership s1)) (\<lambda>l.
            bindE (collect (prefix_of (mi_num_members (Commit_set s)) members)) (\<lambda>commit.
              Inr (s1\<lparr>Trans_memb_id := \<lparr>mid_proc_id = l, mid_time = F_trans_memb_time s\<rparr>,
                      Commit_membership := (Commit_membership s)\<lparr>segments := commit\<rparr>\<rparr>)))))"

definition Memb_regular :: "daemon \<Rightarrow> daemon outcome" where
  "Memb_regular s =
     (let s1 = s\<lparr>Transitional := False, State := OP, Membership := Future_membership s,
                 Membership_id := Future_membership_id s, Reg_membership := Future_membership s,
                 Foreign_found := False\<rparr>
      in bindE (leads (Membership s1) s1) (\<lambda>b.
         Inr (if b then arm T_Memb_lookup_new_members (Lookup_timeout (timeo s1)) s1 else s1)))"

subsection \<open>Backing off\<close>

text \<open>
  The first loop turns the holes back into missing packets. The second is to find how far the
  packets reach, but it tests the slot the first loop stopped at (\<open>-1\<close>, no slot, when that
  loop did not run, and then the second does not run either).
\<close>

fun clear_holes :: "int list \<Rightarrow> daemon \<Rightarrow> daemon" where
  "clear_holes [] s = s"
| "clear_holes (i # is) s = clear_holes is (if exist i s = 3 then set_exist i 0 s else s)"

fun backoff_aru :: "int \<Rightarrow> int list \<Rightarrow> int \<Rightarrow> daemon \<Rightarrow> int" where
  "backoff_aru stale [] aru s = aru"
| "backoff_aru stale (i # is) aru s =
     (if exist stale s = 0 then aru else backoff_aru stale is (aru + 1) s)"

definition Backoff_membership :: "daemon \<Rightarrow> daemon" where
  "Backoff_membership s =
     (let range = [Last_discarded s + 1 .. Highest_seq s];
          s1 = (clear_holes range s)\<lparr>Aru := Last_discarded s, My_aru := Last_discarded s\<rparr>
      in s1\<lparr>My_aru := backoff_aru (last range) range (Last_discarded s) s1\<rparr>)"

lemma backoff_aru_all_or_nothing:
  "backoff_aru stale is aru s = (if exist stale s = 0 then aru else aru + int (length is))"
  by (induction "is" arbitrary: aru) auto

lemma clear_holes_frame [simp]:
  "Highest_seq (clear_holes is s) = Highest_seq s" "Last_discarded (clear_holes is s) = Last_discarded s"
  "State (clear_holes is s) = State s" "Token_alive (clear_holes is s) = Token_alive s"
  "Time_queue (clear_holes is s) = Time_queue s"
  by (induction "is" arbitrary: s) (simp_all add: set_exist_def)

subsection \<open>Properties\<close>

lemma collect_seg_filter:
  assumes "wf_procs procs" and "\<forall>k \<in> set ks. k < length procs"
  shows "collect_seg who procs ids ks seg =
    Inr (seg\<lparr>seg_procs := seg_procs seg @ filter (\<lambda>k. p_id (procs ! k) \<in> set ids) ks\<rparr>)"
  using assms(2)
proof (induction ks arbitrary: seg)
  case (Cons k ks)
  then have "Conf_append_id_to_seg procs seg (p_id (procs ! k)) = (0, seg\<lparr>seg_procs := seg_procs seg @ [k]\<rparr>)" for seg
    using Conf_proc_by_id_self [OF assms(1), of k] by (simp add: Conf_append_id_to_seg_def)
  with Cons show ?case by simp
qed simp

lemma collect_segs_filter:
  assumes "wf_procs procs" and "\<forall>g \<in> set segs. \<forall>k \<in> set (seg_procs g). k < length procs"
  shows "collect_segs who procs ids segs =
    Inr (map (\<lambda>g. empty_seg\<lparr>seg_procs := filter (\<lambda>k. p_id (procs ! k) \<in> set ids) (seg_procs g)\<rparr>) segs)"
  using assms(2)
  by (induction segs) (simp_all add: collect_seg_filter [OF assms(1)] empty_seg_def)

lemma conf_ids_collected:
  "conf_ids procs (c\<lparr>segments := map (\<lambda>g. empty_seg\<lparr>seg_procs := filter (\<lambda>k. p_id (procs ! k) \<in> set ids) (seg_procs g)\<rparr>) segs\<rparr>)
     = filter (\<lambda>i. i \<in> set ids) (conf_ids procs (c\<lparr>segments := segs\<rparr>))"
proof -
  have "map (\<lambda>k. p_id (procs ! k)) (filter (\<lambda>k. p_id (procs ! k) \<in> set ids) ks)
      = filter (\<lambda>i. i \<in> set ids) (map (\<lambda>k. p_id (procs ! k)) ks)" for ks
    by (induction ks) simp_all
  then show ?thesis by (simp add: conf_ids_def empty_seg_def filter_concat comp_def)
qed

text \<open>
  C20: the transitional and the committed view are the members of the commit set, in
  configuration order. From a well-formed configuration, with at least one transitional
  member configured, \<open>Memb_transitional\<close> does not stop the daemon; the transitional view lists
  the configured daemons among the first \<open>num_pending\<close> ids of the commit set, the committed
  view those among all \<open>num_members\<close> of them, and the view's id carries the first
  transitional member and the ring's agreed time.
\<close>

theorem Memb_transitional_views:
  fixes s :: daemon
  assumes "wf_conf (Config_procs s) (Config s)"
    and "i \<in> set (conf_ids (Config_procs s) (Config s))"
    and "i \<in> set (prefix_of (mi_num_pending (Commit_set s)) (mi_members (Commit_set s)))"
  shows "returns (Memb_transitional s) (\<lambda>s'.
      conf_ids (Config_procs s) (Trans_membership s') = filter (\<lambda>i. i \<in>
        set (prefix_of (mi_num_pending (Commit_set s)) (mi_members (Commit_set s)))) (conf_ids (Config_procs s) (Config s))
    \<and> conf_ids (Config_procs s) (Commit_membership s') = filter (\<lambda>i. i \<in>
        set (members_of (Commit_set s))) (conf_ids (Config_procs s) (Config s))
    \<and> Trans_memb_id s' = \<lparr>mid_proc_id = hd (conf_ids (Config_procs s) (Trans_membership s')),
        mid_time = F_trans_memb_time s\<rparr> \<and> Transitional s' \<and> State s' = State s)"
proof -
  let ?T = "set (prefix_of (mi_num_pending (Commit_set s)) (mi_members (Commit_set s)))"
  have col: "collect_segs ''Memb_transitional'' (Config_procs s) ids (segments (Config s)) =
    Inr (map (\<lambda>g. empty_seg\<lparr>seg_procs := filter (\<lambda>k. p_id (Config_procs s ! k) \<in> set ids) (seg_procs g)\<rparr>)
      (segments (Config s)))" for ids
    using assms(1) by (intro collect_segs_filter) (auto simp: wf_conf_def)
  have seg: "conf_ids (Config_procs s) (c\<lparr>segments := segments (Config s)\<rparr>) = conf_ids (Config_procs s) (Config s)"
    for c :: configuration by (simp add: conf_ids_def)
  have ne: "filter (\<lambda>i. i \<in> ?T) (conf_ids (Config_procs s) (Config s)) \<noteq> []"
    using assms(2,3) by (auto simp: filter_empty_conv)
  show ?thesis
    using ne by (simp add: Memb_transitional_def Let_def col Conf_leader_eq conf_ids_collected seg members_of_def)
qed

theorem Memb_transitional_views_witness:
  "returns (Memb_transitional daemon_example) (\<lambda>s'.
     conf_ids (Config_procs daemon_example) (Trans_membership s') = [12, 13]
     \<and> mid_proc_id (Trans_memb_id s') = 12)"
  by (rule returns_mono [OF Memb_transitional_views [OF daemon_example_conf, of 12]])
    (auto simp: daemon_example_simps conf_ids_def prefix_of_def)

lemma exist_clear_holes_0: "exist i s = 0 \<Longrightarrow> exist i (clear_holes js s) = 0"
proof (induction js arbitrary: s)
  case (Cons j js)
  have "exist i (if exist j s = 3 then set_exist j 0 s else s) = 0"
    using Cons.prems by (auto simp: exist_def slot_def set_exist_def)
  then show ?case using Cons.IH by simp
qed simp

lemma exist_clear_holes: "i \<in> set js \<Longrightarrow> exist i (clear_holes js s) \<noteq> 3"
proof (induction js arbitrary: s)
  case (Cons j js)
  show ?case
  proof (cases "i \<in> set js")
    case False
    then have ij: "i = j" using Cons.prems by simp
    show ?thesis
    proof (cases "exist j s = 3")
      case True
      have "exist i (set_exist j 0 s) = 0" by (simp add: ij exist_def slot_def set_exist_def)
      then show ?thesis using True exist_clear_holes_0 by simp
    next
      case ne: False
      have "exist i (clear_holes js t) \<noteq> 3" if "exist i t \<noteq> 3" for t
        using that
      proof (induction js arbitrary: t)
        case (Cons k ks)
        have "exist i (if exist k t = 3 then set_exist k 0 t else t) \<noteq> 3"
          using Cons.prems by (auto simp: exist_def slot_def set_exist_def)
        then show ?case using Cons.IH by simp
      qed simp
      then show ?thesis using ne ij by simp
    qed
  qed (use Cons.IH in simp)
qed simp

text \<open>
  backing off forgets the holes, or the packets behind the last one. \<open>Backoff_membership\<close>
  restores \<open>Aru\<close> to the last discarded packet and leaves no dummy in the slots up to the
  highest sequence number; but it computes \<open>My_aru\<close> from the last slot alone, so \<open>My_aru\<close> is
  either the highest sequence number or the last discarded one, whatever is missing between.
\<close>

theorem Backoff_membership_aru:
  fixes s :: daemon
  assumes "Last_discarded s < i" and "i \<le> Highest_seq s"
  shows "exist i (Backoff_membership s) \<noteq> 3 \<and> Aru (Backoff_membership s) = Last_discarded s
    \<and> My_aru (Backoff_membership s) =
        (if exist (Highest_seq s) (Backoff_membership s) = 0 then Last_discarded s else Highest_seq s)"
proof -
  have l: "last [Last_discarded s + 1 .. Highest_seq s] = Highest_seq s"
    using assms upto_rec2 [of "Last_discarded s + 1" "Highest_seq s"] by simp
  have "exist i (clear_holes [Last_discarded s + 1 .. Highest_seq s] s) \<noteq> 3"
    using assms by (intro exist_clear_holes) simp
  moreover have "exist j (t\<lparr>Aru := a, My_aru := b\<rparr>) = exist j t" "exist j (t\<lparr>My_aru := b\<rparr>) = exist j t"
    for j a b and t :: daemon by (simp_all add: exist_def slot_def)
  ultimately show ?thesis using assms
    by (simp add: Backoff_membership_def Let_def l backoff_aru_all_or_nothing)
qed

text \<open>A ring state with packet 1 missing and packet 2 received: \<open>My_aru\<close> becomes 2.\<close>

definition backoff_example :: daemon where
  "backoff_example = daemon_example\<lparr>State := EVS, Highest_seq := 2,
     Packets := (Packets daemon_example)(1 := (Packets daemon_example 1)\<lparr>pk_exist := 3\<rparr>,
                                         2 := (Packets daemon_example 2)\<lparr>pk_exist := 1\<rparr>)\<rparr>"

theorem Backoff_membership_aru_witness:
  "exist 1 (Backoff_membership backoff_example) = 0 \<and> My_aru (Backoff_membership backoff_example) = 2"
proof -
  have h: "Last_discarded backoff_example = 0" "Highest_seq backoff_example = 2"
    by (simp_all add: backoff_example_def daemon_example_simps)
  have e: "exist 1 (Backoff_membership backoff_example) = 0" "exist 2 (Backoff_membership backoff_example) = 1"
    by (simp_all add: Backoff_membership_def h backoff_example_def exist_def slot_def set_exist_def
        pack_entry_def MAX_PACKETS_IN_STRUCT_def daemon_example_simps upto_rec1)
  show ?thesis using Backoff_membership_aru [of backoff_example 1] by (simp add: h e)
qed

end
