(* ===== verification/Delivery.thy ===== *)
theory Delivery
  imports Memb_View
begin

section \<open>Delivering and discarding packets\<close>

text \<open>
  Model of the delivery half of \<open>daemon/protocol.c\<close>: \<open>Deliver_packet\<close> chains a packet to its
  sender's message and hands complete messages up; \<open>Deliver_reliable_packets\<close>,
  \<open>Deliver_agreed_packets\<close> and \<open>Discard_packets\<close> decide which packets are due. The lemmas
  give the order of delivery and what a delivery leaves of the slots.
\<close>

subsection \<open>One packet\<close>

definition set_up_queue :: "nat \<Rightarrow> up_queue \<Rightarrow> 'a prot_st_scheme \<Rightarrow> 'a prot_st_scheme" where
  "set_up_queue k q s = s\<lparr>Up_queue := (Up_queue s)(k := q)\<rparr>"

definition Deliver_packet :: "int \<Rightarrow> 'a prot_st_scheme \<Rightarrow> 'a prot_st_scheme outcome" where
  "Deliver_packet seq s =
     (let p = slot seq s; h = pk_head p;
          proc_index = (if Is_reliable (ph_type h) \<and> ph_packet_index h = -1 then MAX_PROCS_RING
                        else pk_proc_index p);
          up = Up_queue s (nat proc_index);
          mess = (if uq_exist up then uq_mess up else []);
          index = \<bar>ph_packet_index h\<bar>
      in if int (length mess) + 1 \<noteq> index then Inl (Alarm_exit ''Deliver_packet'')
         else
           let mess' = mess @ [pk_body p];
               s1 = set_exist seq 2 (s\<lparr>packets_delivered := packets_delivered s @ [h]\<rparr>)
           in if ph_packet_index h < 0
              then Inr (emit (Sess_message mess') (set_up_queue (nat proc_index) \<lparr>uq_exist = False, uq_mess = mess'\<rparr> s1))
              else Inr (set_up_queue (nat proc_index) \<lparr>uq_exist = True, uq_mess = mess'\<rparr> s1))"

subsection \<open>Reliable and agreed packets\<close>

definition deliver_if_reliable :: "int \<Rightarrow> daemon \<Rightarrow> daemon outcome" where
  "deliver_if_reliable i s =
     (if exist i s = 1 \<and> Is_reliable (ph_type (pk_head (slot i s))) \<and> ph_packet_index (pk_head (slot i s)) = -1
      then Deliver_packet i s else Inr s)"

definition Deliver_reliable_packets :: "int \<Rightarrow> int \<Rightarrow> daemon \<Rightarrow> daemon outcome" where
  "Deliver_reliable_packets start_seq num_packets s =
     (if State s = EVS then Inr s
      else
        let end_seq = start_seq + num_packets - 1;
            start = (if start_seq \<le> Last_delivered s then Last_delivered s + 1 else start_seq)
        in for_each deliver_if_reliable [start .. end_seq] s)"

text \<open>The body of the loop of \<open>Deliver_agreed_packets\<close>; \<open>True\<close> is its \<open>return\<close>.\<close>

definition deliver_agreed_step :: "int \<Rightarrow> daemon \<Rightarrow> (bool \<times> daemon) outcome" where
  "deliver_agreed_step i s =
     (if exist i s = 1 then
        if \<not> Is_safe (ph_type (pk_head (slot i s)))
        then bindE (Deliver_packet i s) (\<lambda>s'. Inr (False, s'\<lparr>Last_delivered := Last_delivered s' + 1\<rparr>))
        else Inr (True, s)
      else if exist i s = 2 then Inr (False, s\<lparr>Last_delivered := Last_delivered s + 1\<rparr>)
      else Inl (Alarm_exit ''Deliver_agreed_packets''))"

definition Deliver_agreed_packets :: "daemon \<Rightarrow> daemon outcome" where
  "Deliver_agreed_packets s =
     (if My_aru s \<le> Last_delivered s then Inr s
      else if State s = EVS then Inr s
      else for_until deliver_agreed_step [Last_delivered s + 1 .. My_aru s] s)"

subsection \<open>Discarding\<close>

definition discard_step :: "int \<Rightarrow> daemon \<Rightarrow> daemon outcome" where
  "discard_step i s =
     (if exist i s = 0 then Inl (Alarm_exit ''Discard_packets'')
      else bindE (if exist i s = 1 then Deliver_packet i s else Inr s) (\<lambda>s'. Inr (set_exist i 0 s')))"

text \<open>The loop before the transitional signal: up to the first hole or safe packet.\<close>

definition evs_before_step :: "int \<Rightarrow> daemon \<Rightarrow> (bool \<times> daemon) outcome" where
  "evs_before_step i s =
     (if exist i s = 0 then Inl (Alarm_exit ''Discard_packets'')
      else if exist i s = 3 then Inr (True, s)
      else if Is_safe (ph_type (pk_head (slot i s))) then Inr (True, s)
      else bindE (if exist i s = 1 then Deliver_packet i s else Inr s) (\<lambda>s'.
             Inr (False, (set_exist i 0 s')\<lparr>Last_discarded := i\<rparr>)))"

text \<open>The loop after it: behind a hole only the packets of committed members.\<close>

definition evs_after_step :: "int \<Rightarrow> bool \<times> daemon \<Rightarrow> (bool \<times> daemon) outcome" where
  "evs_after_step i fs =
     (let (found_hole, s) = fs
      in if exist i s = 0 then Inl (Alarm_exit ''Discard_packets'')
         else if exist i s = 3 then Inr (True, set_exist i 0 s)
         else if \<not> found_hole \<or> in_memb (ph_proc_id (pk_head (slot i s))) (Commit_membership s) s
         then bindE (if exist i s = 1 then Deliver_packet i s else Inr s) (\<lambda>s'.
                Inr (found_hole, set_exist i 0 s'))
         else Inr (found_hole, set_exist i 0 s))"

definition clear_queues :: "daemon \<Rightarrow> daemon" where
  "clear_queues s =
     (let q = Protocol_down_queue s (Down_queue_ptr s);
          s1 = (if dq_links q \<noteq> []
                then s\<lparr>Protocol_down_queue := (Protocol_down_queue s)(Down_queue_ptr s := q\<lparr>dq_cur_element := 0\<rparr>)\<rparr>
                else s)
      in s1\<lparr>Up_queue := (\<lambda>k. if k < nat MAX_PROCS_RING \<and> uq_exist (Up_queue s1 k)
                             then (Up_queue s1 k)\<lparr>uq_exist := False\<rparr> else Up_queue s1 k)\<rparr>)"

definition finish_reload :: "daemon \<Rightarrow> daemon outcome" where
  "finish_reload s =
     (if Conf_Reload_State s then
        if gstate s \<noteq> 1 \<or> Conf_num_procs (Reg_membership s) \<noteq> 1 then Inl (Alarm_exit ''Discard_packets'')
        else Inr (Conf_reload_state_end (arm T_Memb_lookup_new_members (Sp_time 0 0) (Net_clear_partition s)))
      else Inr s)"

definition reset_for_next_membership :: "daemon \<Rightarrow> daemon" where
  "reset_for_next_membership s =
     s\<lparr>Last_token := (Last_token s)\<lparr>tk_aru := 0\<rparr>, Highest_seq := 0, Highest_fifo_seq := 0, My_aru := 0,
       Aru := 0, Set_aru := -1, Last_discarded := 0, Last_delivered := 0, Token_counter := 0\<rparr>"

definition Discard_packets_evs :: "daemon \<Rightarrow> daemon outcome" where
  "Discard_packets_evs s =
     bindE (for_until evs_before_step [Last_discarded s + 1 .. Highest_seq s] s) (\<lambda>s1.
     bindE (Memb_transitional s1) (\<lambda>s2.
       let s3 = emit (Sess_trans_memb (Trans_membership s2) (Trans_memb_id s2)) s2
       in bindE (for_each evs_after_step [Last_discarded s3 + 1 .. Highest_seq s3] (False, s3)) (\<lambda>(_, s4).
          bindE (Memb_regular (clear_queues s4)) (\<lambda>s5.
          bindE (finish_reload (emit (Sess_reg_memb (Reg_membership s5) (Membership_id s5)) s5)) (\<lambda>s6.
            Inr (reset_for_next_membership s6))))))"

definition Discard_packets :: "daemon \<Rightarrow> daemon outcome" where
  "Discard_packets s =
     (if Aru s \<le> Last_discarded s then Inr s
      else if State s = EVS then (if Aru s \<noteq> Last_seq s then Inr s else Discard_packets_evs s)
      else bindE (for_each discard_step [Last_discarded s + 1 .. Aru s] s) (\<lambda>s1.
             let s2 = s1\<lparr>Last_discarded := Aru s1\<rparr>
             in Inr (if Last_delivered s2 < Last_discarded s2 then s2\<lparr>Last_delivered := Last_discarded s2\<rparr> else s2)))"

subsection \<open>Slots\<close>

lemma pack_entry_inject:
  assumes "pack_entry i = pack_entry j" and "\<bar>i - j\<bar> < MAX_PACKETS_IN_STRUCT"
  shows "i = j"
proof -
  have "i mod 8192 = j mod 8192"
    using assms(1) by (simp add: pack_entry_def MAX_PACKETS_IN_STRUCT_def nat_eq_iff)
  then show ?thesis using assms(2) unfolding MAX_PACKETS_IN_STRUCT_def
    by (metis (no_types, opaque_lifting) abs_if diff_0 diff_zero dvd_imp_le_int linorder_not_le
        mod_eq_dvd_iff abs_numeral right_minus_eq)
qed

lemma slot_set_exist:
  "slot j (set_exist i v s) = (if pack_entry j = pack_entry i then (slot i s)\<lparr>pk_exist := v\<rparr> else slot j s)"
  by (simp add: slot_def set_exist_def)

lemma exist_set_exist:
  "exist j (set_exist i v s) = (if pack_entry j = pack_entry i then v else exist j s)"
  by (simp add: exist_def slot_set_exist)

lemma Deliver_packet_spec:
  "lands (Deliver_packet i s) (\<lambda>s'. Packets s' = Packets (set_exist i 2 s)
     \<and> packets_delivered s' = packets_delivered s @ [pk_head (slot i s)])"
  by (simp add: Deliver_packet_def Let_def lands_if emit_def set_up_queue_def set_exist_def slot_def)

text \<open>
  \<open>delivery_frame\<close>: what every delivery leaves alone. \<open>same_core\<close> is the part the membership
  algorithm depends on: its state, whether the token is alive, and the timers.
\<close>

definition same_core :: "daemon \<Rightarrow> daemon \<Rightarrow> bool" where
  "same_core s s' \<longleftrightarrow> State s' = State s \<and> Token_alive s' = Token_alive s \<and> Time_queue s' = Time_queue s"

definition same_counters :: "daemon \<Rightarrow> daemon \<Rightarrow> bool" where
  "same_counters s s' \<longleftrightarrow> Aru s' = Aru s \<and> My_aru s' = My_aru s \<and> Highest_seq s' = Highest_seq s
     \<and> Last_discarded s' = Last_discarded s \<and> Last_delivered s' = Last_delivered s"

lemma same_core_refl [simp]: "same_core s s"
  by (simp add: same_core_def)

lemma same_core_trans: "same_core s t \<Longrightarrow> same_core t u \<Longrightarrow> same_core s u"
  by (simp add: same_core_def)

lemma same_counters_refl [simp]: "same_counters s s"
  by (simp add: same_counters_def)

lemma same_counters_trans: "same_counters s t \<Longrightarrow> same_counters t u \<Longrightarrow> same_counters s u"
  by (simp add: same_counters_def)

lemma Deliver_packet_frame:
  "lands (Deliver_packet i s) (\<lambda>s'. same_core s s' \<and> same_counters s s' \<and> Config_procs s' = Config_procs s)"
  by (simp add: Deliver_packet_def Let_def lands_if emit_def set_up_queue_def set_exist_def
      same_core_def same_counters_def)

text \<open>The slots of a range of sequence numbers shorter than the ring do not collide.\<close>

lemma range_no_clash:
  "a < i \<Longrightarrow> i \<le> b \<Longrightarrow> a < j \<Longrightarrow> j \<le> b \<Longrightarrow> b - a \<le> MAX_PACKETS_IN_STRUCT \<Longrightarrow>
     pack_entry i = pack_entry j \<longleftrightarrow> i = j"
  using pack_entry_inject [of i j] by auto

subsection \<open>The order of delivery\<close>

text \<open>The headers in the occupied, undelivered slots of a range, in sequence order.\<close>

definition undelivered :: "int \<Rightarrow> int \<Rightarrow> 'a prot_st_scheme \<Rightarrow> packet_header list" where
  "undelivered a b s = map (\<lambda>i. pk_head (slot i s)) (filter (\<lambda>i. exist i s = 1) [a .. b])"

definition is_safe_slot :: "int \<Rightarrow> 'a prot_st_scheme \<Rightarrow> bool" where
  "is_safe_slot i s \<longleftrightarrow> exist i s = 1 \<and> Is_safe (ph_type (pk_head (slot i s)))"

lemma undelivered_Cons:
  "a \<le> b \<Longrightarrow> undelivered a b s = (if exist a s = 1 then [pk_head (slot a s)] else []) @ undelivered (a + 1) b s"
  by (simp add: undelivered_def upto_rec1)

lemma undelivered_empty [simp]: "b < a \<Longrightarrow> undelivered a b s = []"
  by (simp add: undelivered_def)

definition agreed_result :: "int \<Rightarrow> int \<Rightarrow> daemon \<Rightarrow> packet_header list \<Rightarrow> daemon \<Rightarrow> bool" where
  "agreed_result c b s log s' \<longleftrightarrow> (\<exists>k. c \<le> k \<and> k \<le> b \<and> Last_delivered s' = k
     \<and> packets_delivered s' = log @ undelivered (c + 1) k s
     \<and> (\<forall>i. c < i \<and> i \<le> k \<longrightarrow> (exist i s = 1 \<or> exist i s = 2) \<and> \<not> is_safe_slot i s)
     \<and> (k < b \<longrightarrow> is_safe_slot (k + 1) s))"

lemma agreed_result_step:
  assumes "agreed_result (c + 1) b s (log @ (if exist (c + 1) s = 1 then [pk_head (slot (c + 1) s)] else [])) s'"
    and "exist (c + 1) s = 1 \<or> exist (c + 1) s = 2" and "\<not> is_safe_slot (c + 1) s"
  shows "agreed_result c b s log s'"
proof -
  from assms(1) obtain k where k: "c + 1 \<le> k" "k \<le> b" "Last_delivered s' = k"
    "packets_delivered s' = (log @ (if exist (c + 1) s = 1 then [pk_head (slot (c + 1) s)] else [])) @ undelivered (c + 1 + 1) k s"
    "\<forall>i. c + 1 < i \<and> i \<le> k \<longrightarrow> (exist i s = 1 \<or> exist i s = 2) \<and> \<not> is_safe_slot i s"
    "k < b \<longrightarrow> is_safe_slot (k + 1) s"
    unfolding agreed_result_def by blast
  have "\<forall>i. c < i \<and> i \<le> k \<longrightarrow> (exist i s = 1 \<or> exist i s = 2) \<and> \<not> is_safe_slot i s"
  proof (intro allI impI)
    fix i assume i: "c < i \<and> i \<le> k"
    show "(exist i s = 1 \<or> exist i s = 2) \<and> \<not> is_safe_slot i s"
    proof (cases "i = c + 1")
      case True then show ?thesis using assms(2,3) by simp
    next
      case False then show ?thesis using k(5) i by simp
    qed
  qed
  then show ?thesis
    unfolding agreed_result_def using k undelivered_Cons [of "c + 1" k s] by (intro exI [of _ k]) simp
qed

lemma agreed_loop:
  assumes "Last_delivered t = c" and "\<forall>j. c < j \<and> j \<le> b \<longrightarrow> slot j t = slot j s"
    and "b - c \<le> MAX_PACKETS_IN_STRUCT" and "c \<le> b"
  shows "lands (for_until deliver_agreed_step [c + 1 .. b] t) (agreed_result c b s (packets_delivered t))"
  using assms
proof (induction "nat (b - c)" arbitrary: c t)
  case 0
  then show ?case by (auto simp: agreed_result_def)
next
  case (Suc n)
  then have lt: "c < b" by simp
  have n: "n = nat (b - (c + 1))" using Suc.hyps(2) by simp
  have l: "[c + 1 .. b] = (c + 1) # [c + 1 + 1 .. b]" using lt by (simp add: upto_rec1)
  have sl: "slot (c + 1) t = slot (c + 1) s" and ex: "exist (c + 1) t = exist (c + 1) s"
    using Suc.prems(2) lt by (auto simp: exist_def)
  have IH: "lands (for_until deliver_agreed_step [c + 1 + 1 .. b] u) (agreed_result c b s (packets_delivered t))"
    if u: "Last_delivered u = c + 1" "\<forall>j. c + 1 < j \<and> j \<le> b \<longrightarrow> slot j u = slot j s"
      "packets_delivered u = packets_delivered t @ (if exist (c + 1) s = 1 then [pk_head (slot (c + 1) s)] else [])"
      and ok: "exist (c + 1) s = 1 \<or> exist (c + 1) s = 2" "\<not> is_safe_slot (c + 1) s" for u
    using Suc.hyps(1) [OF n u(1,2)] Suc.prems(3) lt agreed_result_step [OF _ ok]
    by (auto elim!: lands_mono simp: u(3))
  show ?case
  proof (cases "exist (c + 1) s = 1")
    case True
    show ?thesis
    proof (cases "Is_safe (ph_type (pk_head (slot (c + 1) s)))")
      case safe: True
      then have "deliver_agreed_step (c + 1) t = Inr (True, t)"
        using True by (simp add: deliver_agreed_step_def sl ex)
      then show ?thesis using True safe Suc.prems(1) lt
        by (auto simp: l agreed_result_def is_safe_slot_def)
    next
      case False
      have "lands (Deliver_packet (c + 1) t) (\<lambda>u. lands (for_until deliver_agreed_step [c + 1 + 1 .. b]
          (u\<lparr>Last_delivered := Last_delivered u + 1\<rparr>)) (agreed_result c b s (packets_delivered t)))"
      proof (rule lands_mono [OF lands_conj [OF Deliver_packet_spec Deliver_packet_frame]])
        fix u
        assume u: "(Packets u = Packets (set_exist (c + 1) 2 t) \<and> packets_delivered u = packets_delivered t @ [pk_head (slot (c + 1) t)])
          \<and> same_core t u \<and> same_counters t u \<and> Config_procs u = Config_procs t"
        have "slot j u = slot j s" if "c + 1 < j" "j \<le> b" for j
        proof -
          have "pack_entry j \<noteq> pack_entry (c + 1)"
            using range_no_clash [of c j b "c + 1"] that Suc.prems(3) by auto
          then show ?thesis using u Suc.prems(2) that
            by (simp add: slot_def set_exist_def)
        qed
        then show "lands (for_until deliver_agreed_step [c + 1 + 1 .. b] (u\<lparr>Last_delivered := Last_delivered u + 1\<rparr>))
            (agreed_result c b s (packets_delivered t))"
          using u True False Suc.prems(1) sl
          by (intro IH) (auto simp: same_counters_def is_safe_slot_def slot_def)
      qed
      then show ?thesis using True False
        by (simp add: l deliver_agreed_step_def sl ex lands_bindE bindE_assoc)
    qed
  next
    case False
    show ?thesis
    proof (cases "exist (c + 1) s = 2")
      case True
      have "lands (for_until deliver_agreed_step [c + 1 + 1 .. b] (t\<lparr>Last_delivered := Last_delivered t + 1\<rparr>))
          (agreed_result c b s (packets_delivered t))"
        using True Suc.prems lt by (intro IH) (auto simp: is_safe_slot_def slot_def)
      then show ?thesis using True by (simp add: l deliver_agreed_step_def ex)
    next
      case n2: False
      then show ?thesis using False by (simp add: l deliver_agreed_step_def ex)
    qed
  qed
qed

lemma discard_loop:
  assumes "\<forall>j. c < j \<and> j \<le> b \<longrightarrow> slot j t = slot j s" and "b - c \<le> MAX_PACKETS_IN_STRUCT" and "c \<le> b"
  shows "lands (for_each discard_step [c + 1 .. b] t) (\<lambda>s'.
    packets_delivered s' = packets_delivered t @ undelivered (c + 1) b s \<and> same_core t s' \<and> same_counters t s'
    \<and> (\<forall>i. c < i \<and> i \<le> b \<longrightarrow> exist i s \<noteq> 0 \<and> exist i s' = 0)
    \<and> (\<forall>e. e \<notin> pack_entry ` {c<..b} \<longrightarrow> Packets s' e = Packets t e))"
  using assms
proof (induction "nat (b - c)" arbitrary: c t)
  case 0
  then show ?case by simp
next
  case (Suc n)
  then have lt: "c < b" by simp
  have n: "n = nat (b - (c + 1))" using Suc.hyps(2) by simp
  have l: "[c + 1 .. b] = (c + 1) # [c + 1 + 1 .. b]" using lt by (simp add: upto_rec1)
  have sl: "slot (c + 1) t = slot (c + 1) s" and ex: "exist (c + 1) t = exist (c + 1) s"
    using Suc.prems(1) lt by (auto simp: exist_def)
  have clash: "pack_entry j \<noteq> pack_entry (c + 1)" if "c + 1 < j" "j \<le> b" for j
    using range_no_clash [of c j b "c + 1"] that Suc.prems(2) by auto
  have un: "undelivered (c + 1) b s = (if exist (c + 1) s = 1 then [pk_head (slot (c + 1) s)] else []) @ undelivered (c + 1 + 1) b s"
    using lt by (intro undelivered_Cons) simp
  let ?R = "\<lambda>s'. packets_delivered s' = packets_delivered t @ undelivered (c + 1) b s \<and> same_core t s'
    \<and> same_counters t s' \<and> (\<forall>i. c < i \<and> i \<le> b \<longrightarrow> exist i s \<noteq> 0 \<and> exist i s' = 0)
    \<and> (\<forall>e. e \<notin> pack_entry ` {c<..b} \<longrightarrow> Packets s' e = Packets t e)"
  have IH: "lands (for_each discard_step [c + 1 + 1 .. b] (set_exist (c + 1) 0 u)) ?R"
    if u: "\<forall>e. e \<noteq> pack_entry (c + 1) \<longrightarrow> Packets u e = Packets t e" "same_core t u" "same_counters t u"
      "packets_delivered u = packets_delivered t @ (if exist (c + 1) s = 1 then [pk_head (slot (c + 1) s)] else [])"
      and ne: "exist (c + 1) s \<noteq> 0" for u
  proof (rule lands_mono [OF Suc.hyps(1) [OF n]])
    show "\<forall>j. c + 1 < j \<and> j \<le> b \<longrightarrow> slot j (set_exist (c + 1) 0 u) = slot j s"
      using u(1) Suc.prems(1) clash by (auto simp: slot_set_exist) (simp add: slot_def)
  next
    fix s'
    assume s': "packets_delivered s' = packets_delivered (set_exist (c + 1) 0 u) @ undelivered (c + 1 + 1) b s
      \<and> same_core (set_exist (c + 1) 0 u) s' \<and> same_counters (set_exist (c + 1) 0 u) s'
      \<and> (\<forall>i. c + 1 < i \<and> i \<le> b \<longrightarrow> exist i s \<noteq> 0 \<and> exist i s' = 0)
      \<and> (\<forall>e. e \<notin> pack_entry ` {c + 1<..b} \<longrightarrow> Packets s' e = Packets (set_exist (c + 1) 0 u) e)"
    have "pack_entry (c + 1) \<notin> pack_entry ` {c + 1<..b}"
    proof
      assume "pack_entry (c + 1) \<in> pack_entry ` {c + 1<..b}"
      then obtain j where "pack_entry (c + 1) = pack_entry j" "c + 1 < j" "j \<le> b" by auto
      then show False using clash [of j] by simp
    qed
    then have "exist (c + 1) s' = 0" using s' by (simp add: exist_def slot_def set_exist_def)
    then have e: "\<forall>i. c < i \<and> i \<le> b \<longrightarrow> exist i s \<noteq> 0 \<and> exist i s' = 0"
      using s' ne by (metis add1_zle_eq order_le_less)
    have p: "Packets s' e = Packets t e" if "e \<notin> pack_entry ` {c<..b}" for e
    proof -
      have "e \<noteq> pack_entry (c + 1)" "e \<notin> pack_entry ` {c + 1<..b}" using that lt by auto
      then show ?thesis using s' u(1) by (simp add: set_exist_def)
    qed
    show "?R s'" using s' u e p un
      by (auto simp: same_core_def same_counters_def set_exist_def)
  qed (use Suc.prems lt in auto)
  show ?case
  proof (cases "exist (c + 1) s = 1")
    case True
    have "lands (Deliver_packet (c + 1) t) (\<lambda>u. lands (for_each discard_step [c + 1 + 1 .. b] (set_exist (c + 1) 0 u)) ?R)"
    proof (rule lands_mono [OF lands_conj [OF Deliver_packet_spec Deliver_packet_frame]])
      fix u
      assume u: "(Packets u = Packets (set_exist (c + 1) 2 t) \<and> packets_delivered u = packets_delivered t @ [pk_head (slot (c + 1) t)])
          \<and> same_core t u \<and> same_counters t u \<and> Config_procs u = Config_procs t"
      then show "lands (for_each discard_step [c + 1 + 1 .. b] (set_exist (c + 1) 0 u)) ?R"
        using True sl by (intro IH) (auto simp: set_exist_def)
    qed
    then show ?thesis using True by (simp add: l discard_step_def ex lands_bindE bindE_assoc)
  next
    case False
    show ?thesis
    proof (cases "exist (c + 1) s = 0")
      case z: False
      then show ?thesis using False IH [of t] by (simp add: l discard_step_def ex)
    qed (simp add: l discard_step_def ex)
  qed
qed

subsection \<open>Properties\<close>

text \<open>
  C4: agreed delivery is in order and without gaps. Outside EVS \<open>Deliver_agreed_packets\<close> either
  stops the daemon or delivers, from the first sequence number not yet delivered, every
  packet in its slot in sequence order, skipping those delivered as reliable before, and stops
  at \<open>My_aru\<close> or right in front of the first safe packet, to which \<open>Last_delivered\<close> then points;
  nothing is missing on the way.
\<close>

theorem agreed_in_order:
  assumes "State s \<noteq> EVS" and "Last_delivered s \<le> My_aru s"
    and "My_aru s - Last_delivered s \<le> MAX_PACKETS_IN_STRUCT"
  shows "lands (Deliver_agreed_packets s)
    (agreed_result (Last_delivered s) (My_aru s) s (packets_delivered s))"
  using assms agreed_loop [OF refl, of s "My_aru s" s]
  by (auto simp: Deliver_agreed_packets_def agreed_result_def)

definition packet_slot :: "int \<Rightarrow> 32 word \<Rightarrow> packet_info" where
  "packet_slot n t = \<lparr>pk_head = (pkt_head (data_packet n []))\<lparr>ph_type := t\<rparr>, pk_body = Data [],
     pk_exist = 1, pk_proc_index = 0\<rparr>"

definition deliver_example :: daemon where
  "deliver_example = daemon_example\<lparr>Highest_seq := 2, My_aru := 2, Aru := 1,
     Packets := (Packets daemon_example)(1 := packet_slot 1 AGREED_TYPE, 2 := packet_slot 2 SAFE_TYPE)\<rparr>"

lemma deliver_example_slots:
  "exist 1 deliver_example = 1" "exist 2 deliver_example = 1"
  "is_safe_slot 1 deliver_example = False" "is_safe_slot 2 deliver_example = True"
  "slot 1 deliver_example = packet_slot 1 AGREED_TYPE"
  by (simp_all add: deliver_example_def exist_def slot_def pack_entry_def MAX_PACKETS_IN_STRUCT_def
      is_safe_slot_def packet_slot_def Is_safe_def type_defs)

theorem agreed_in_order_witness:
  "lands (Deliver_agreed_packets deliver_example) (\<lambda>s'. Last_delivered s' = 1
     \<and> map ph_seq (packets_delivered s') = [1])"
proof (rule lands_mono [OF agreed_in_order])
  fix s' assume "agreed_result (Last_delivered deliver_example) (My_aru deliver_example) deliver_example
      (packets_delivered deliver_example) s'"
  then obtain k where k: "0 \<le> k" "k \<le> 2" "Last_delivered s' = k"
    "packets_delivered s' = undelivered 1 k deliver_example"
    "\<forall>i. 0 < i \<and> i \<le> k \<longrightarrow> \<not> is_safe_slot i deliver_example"
    "k < 2 \<longrightarrow> is_safe_slot (k + 1) deliver_example"
    unfolding agreed_result_def by (auto simp: deliver_example_def daemon_example_simps)
  have "k \<noteq> 2" using k(5) deliver_example_slots by auto
  moreover have "k \<noteq> 0" using k(6) deliver_example_slots by auto
  ultimately have "k = 1" using k(1,2) by simp
  then show "Last_delivered s' = 1 \<and> map ph_seq (packets_delivered s') = [1]"
    using k(3,4) deliver_example_slots by (simp add: undelivered_def packet_slot_def data_packet_def)
qed (simp_all add: deliver_example_def daemon_example_simps MAX_PACKETS_IN_STRUCT_def)

text \<open>
  C8: what everybody has is delivered and dropped. Outside EVS \<open>Discard_packets\<close> either stops
  the daemon or delivers, in sequence order, all packets up to \<open>Aru\<close> not yet delivered, the
  safe ones included and nothing beyond \<open>Aru\<close>, frees exactly their slots, all of which
  held a packet, and moves \<open>Last_discarded\<close> to \<open>Aru\<close>, \<open>Last_delivered\<close> at least there.
\<close>

theorem discard_up_to_aru:
  assumes "State s \<noteq> EVS" and "Last_discarded s < Aru s" and "Aru s - Last_discarded s \<le> MAX_PACKETS_IN_STRUCT"
  shows "lands (Discard_packets s) (\<lambda>s'.
    packets_delivered s' = packets_delivered s @ undelivered (Last_discarded s + 1) (Aru s) s
    \<and> Last_discarded s' = Aru s \<and> Last_delivered s' = max (Last_delivered s) (Aru s)
    \<and> (\<forall>i. Last_discarded s < i \<and> i \<le> Aru s \<longrightarrow> exist i s \<noteq> 0 \<and> exist i s' = 0)
    \<and> (\<forall>e. e \<notin> pack_entry ` {Last_discarded s<..Aru s} \<longrightarrow> Packets s' e = Packets s e))"
proof -
  have e: "exist i (s'\<lparr>Last_discarded := a\<rparr>) = exist i s'" "exist i (s'\<lparr>Last_discarded := a, Last_delivered := b\<rparr>) = exist i s'"
    for i a b and s' :: daemon by (simp_all add: exist_def slot_def)
  show ?thesis
    using assms unfolding Discard_packets_def
    by (auto simp: lands_bindE Let_def e same_counters_def max_def
        intro!: lands_mono [OF discard_loop [where s = s]])
qed

theorem discard_up_to_aru_witness:
  "lands (Discard_packets deliver_example) (\<lambda>s'. map ph_seq (packets_delivered s') = [1]
     \<and> Last_discarded s' = 1)"
proof (rule lands_mono [OF discard_up_to_aru])
  have "Aru deliver_example = 1" "Last_discarded deliver_example = 0" "packets_delivered deliver_example = []"
    by (simp_all add: deliver_example_def daemon_example_simps)
  then show "map ph_seq (packets_delivered s') = [1] \<and> Last_discarded s' = 1"
    if "packets_delivered s' = packets_delivered deliver_example @
          undelivered (Last_discarded deliver_example + 1) (Aru deliver_example) deliver_example
      \<and> Last_discarded s' = Aru deliver_example \<and> Last_delivered s' = max (Last_delivered deliver_example) (Aru deliver_example)
      \<and> (\<forall>i. Last_discarded deliver_example < i \<and> i \<le> Aru deliver_example \<longrightarrow> exist i deliver_example \<noteq> 0 \<and> exist i s' = 0)
      \<and> (\<forall>e. e \<notin> pack_entry ` {Last_discarded deliver_example<..Aru deliver_example} \<longrightarrow>
            Packets s' e = Packets deliver_example e)" for s'
    using that deliver_example_slots by (simp add: undelivered_def packet_slot_def data_packet_def)
qed (simp_all add: deliver_example_def daemon_example_simps MAX_PACKETS_IN_STRUCT_def)

end
