(* ===== verification/Memb_Invariant.thy ===== *)
theory Memb_Invariant
  imports Delivery
begin

section \<open>The invariant of the membership algorithm\<close>

text \<open>
  What the handlers of \<open>daemon/membership.c\<close> rely on without checking: in each state exactly
  the timers of that state are pending, and the token is alive in \<open>OP\<close> and \<open>EVS\<close>, not
  alive in \<open>SEG\<close>, \<open>REPRESENTED\<close> and \<open>FORM\<close>. A timer that has just been taken off the
  queue is excepted (\<open>memb_inv_but\<close>). The frames say that sending changes none of this.
\<close>

subsection \<open>Definitions\<close>

fun wanted :: "timer_fn \<Rightarrow> daemon \<Rightarrow> bool" where
  "wanted T_Memb_token_loss s = (Token_alive s \<or> State s = FORM)"
| "wanted T_Gather_or_represented s = (State s = SEG)"
| "wanted T_Scast_alive s = (State s = SEG)"
| "wanted T_Shift_to_seg s = (State s = REPRESENTED)"
| "wanted T_Send_join s = (State s = GATHER)"
| "wanted T_Form_or_fail s = (State s = GATHER)"
| "wanted T_Prot_token_hurry s = True"
| "wanted T_Memb_lookup_new_members s = True"
| "wanted T_Clear_partition_cb s = True"

definition state_timer :: "timer_fn \<Rightarrow> bool" where
  "state_timer f \<longleftrightarrow> f \<in> {T_Memb_token_loss, T_Gather_or_represented, T_Scast_alive, T_Shift_to_seg,
     T_Send_join, T_Form_or_fail}"

text \<open>The queue is in order, and every timer was queued with code 0 and no data.\<close>

definition clock_ok :: "daemon \<Rightarrow> bool" where
  "clock_ok s \<longleftrightarrow> timers_ok s \<and> (\<forall>k \<in> pending s. snd k = (0, 0))"

lemma clock_okD [simp]: "clock_ok s \<Longrightarrow> timers_ok s"
  by (simp add: clock_ok_def)

lemma clock_ok_arm [simp]: "clock_ok s \<Longrightarrow> clock_ok (arm f t s)"
  by (auto simp: clock_ok_def arm_eq tq.pending_arm tq.ok_arm)

lemma clock_ok_disarm [simp]: "clock_ok s \<Longrightarrow> clock_ok (disarm f s)"
  by (auto simp: clock_ok_def disarm_eq tq.pending_cancel tq.ok_cancel)

definition token_inv :: "daemon \<Rightarrow> bool" where
  "token_inv s \<longleftrightarrow> (State s = OP \<or> State s = EVS \<longrightarrow> Token_alive s)
     \<and> (State s = SEG \<or> State s = REPRESENTED \<or> State s = FORM \<longrightarrow> \<not> Token_alive s)"

definition memb_inv_but :: "timer_fn option \<Rightarrow> daemon \<Rightarrow> bool" where
  "memb_inv_but x s \<longleftrightarrow> clock_ok s \<and> token_inv s
     \<and> (\<forall>f. state_timer f \<longrightarrow> armed f s = (wanted f s \<and> x \<noteq> Some f))
     \<and> (armed T_Prot_token_hurry s \<longrightarrow> Token_alive s)"

abbreviation memb_inv :: "daemon \<Rightarrow> bool" where
  "memb_inv \<equiv> memb_inv_but None"

lemma all_state_timers:
  "(\<forall>f. state_timer f \<longrightarrow> P f) \<longleftrightarrow> P T_Memb_token_loss \<and> P T_Gather_or_represented \<and> P T_Scast_alive
     \<and> P T_Shift_to_seg \<and> P T_Send_join \<and> P T_Form_or_fail"
  unfolding state_timer_def by blast

lemma memb_inv_but_alt:
  "memb_inv_but x s \<longleftrightarrow> clock_ok s \<and> token_inv s
     \<and> armed T_Memb_token_loss s = ((Token_alive s \<or> State s = FORM) \<and> x \<noteq> Some T_Memb_token_loss)
     \<and> armed T_Gather_or_represented s = (State s = SEG \<and> x \<noteq> Some T_Gather_or_represented)
     \<and> armed T_Scast_alive s = (State s = SEG \<and> x \<noteq> Some T_Scast_alive)
     \<and> armed T_Shift_to_seg s = (State s = REPRESENTED \<and> x \<noteq> Some T_Shift_to_seg)
     \<and> armed T_Send_join s = (State s = GATHER \<and> x \<noteq> Some T_Send_join)
     \<and> armed T_Form_or_fail s = (State s = GATHER \<and> x \<noteq> Some T_Form_or_fail)
     \<and> (armed T_Prot_token_hurry s \<longrightarrow> Token_alive s)"
  unfolding memb_inv_but_def all_state_timers by (simp only: wanted.simps conj_assoc option.inject)

subsection \<open>Frames\<close>

lemma armed_same: "Time_queue s' = Time_queue s \<Longrightarrow> armed f s' = armed f s"
  by (simp add: armed_def pending_def)

lemma clock_ok_same: "Time_queue s' = Time_queue s \<Longrightarrow> clock_ok s' = clock_ok s"
  by (simp add: clock_ok_def timers_ok_def pending_def)

lemma memb_inv_same_core:
  assumes "same_core s s'"
  shows "memb_inv_but x s' = memb_inv_but x s"
proof -
  have q: "Time_queue s' = Time_queue s" and c: "State s' = State s" "Token_alive s' = Token_alive s"
    using assms by (simp_all add: same_core_def)
  have t: "clock_ok s' = clock_ok s" "armed f s' = armed f s" for f
    using clock_ok_same [OF q] armed_same [OF q] by blast+
  show ?thesis by (simp only: memb_inv_but_alt token_inv_def t c)
qed

lemma memb_inv_frame: "memb_inv_but x s \<Longrightarrow> lands r (same_core s) \<Longrightarrow> lands r (memb_inv_but x)"
  by (erule lands_mono) (rule memb_inv_same_core [THEN iffD2])

lemma same_core_armed: "same_core s s' \<Longrightarrow> armed f s' = armed f s"
  unfolding same_core_def by (elim conjE) (rule armed_same)

text \<open>Arming and cancelling change only the queue and the clock.\<close>

lemma arm_daemon: "\<exists>q n r. arm f t s = s\<lparr>Time_queue := q, Now := n, time_reads := r\<rparr>"
  by (rule exI [of _ "Time_queue (arm f t s)"], rule exI [of _ "Now (arm f t s)"],
      rule exI [of _ "time_reads (arm f t s)"]) (simp add: arm_def E_queue_def E_get_time_def Let_def)

lemma disarm_daemon: "\<exists>q. disarm f s = s\<lparr>Time_queue := q\<rparr>"
  unfolding disarm_def E_dequeue_def by (cases "E_dequeue_scan f 0 0 (Time_queue s)") (auto intro: exI [of _ "Time_queue s"])

lemma arm_fields [simp]:
  "State (arm f t s) = State s" "Token_alive (arm f t s) = Token_alive s" "timeo (arm f t s) = timeo s"
  "My (arm f t s) = My s" "Config_procs (arm f t s) = Config_procs s" "Config (arm f t s) = Config s"
  "F_reps (arm f t s) = F_reps s" "F_members (arm f t s) = F_members s" "Last_token (arm f t s) = Last_token s"
  "Membership (arm f t s) = Membership s" "Aru (arm f t s) = Aru s" "Highest_seq (arm f t s) = Highest_seq s"
  using arm_daemon [of f t s] by auto

lemma disarm_fields [simp]:
  "State (disarm f s) = State s" "Token_alive (disarm f s) = Token_alive s" "timeo (disarm f s) = timeo s"
  "My (disarm f s) = My s" "Config_procs (disarm f s) = Config_procs s" "Config (disarm f s) = Config s"
  "F_reps (disarm f s) = F_reps s" "F_members (disarm f s) = F_members s" "Last_token (disarm f s) = Last_token s"
  "Membership (disarm f s) = Membership s" "Aru (disarm f s) = Aru s" "Highest_seq (disarm f s) = Highest_seq s"
  using disarm_daemon [of f s] by auto

lemma same_core_update [simp]:
  "same_core s (t\<lparr>F_members := a\<rparr>) = same_core s t" "same_core s (t\<lparr>F_reps := b\<rparr>) = same_core s t"
  "same_core s (t\<lparr>Potential_reps := b\<rparr>) = same_core s t" "same_core s (t\<lparr>Commit_set := a\<rparr>) = same_core s t"
  "same_core s (t\<lparr>Memb_head := h\<rparr>) = same_core s t" "same_core s (t\<lparr>My_seg_rep := i\<rparr>) = same_core s t"
  "same_core s (t\<lparr>Foreign_found := c\<rparr>) = same_core s t" "same_core s (t\<lparr>Last_token := tk\<rparr>) = same_core s t"
  "same_core s (t\<lparr>Token_rounds := n\<rparr>) = same_core s t" "same_core s (t\<lparr>Packets := p\<rparr>) = same_core s t"
  "same_core s (t\<lparr>Highest_seq := n\<rparr>) = same_core s t" "same_core s (t\<lparr>Aru := n\<rparr>) = same_core s t"
  "same_core s (t\<lparr>My_aru := n\<rparr>) = same_core s t" "same_core s (t\<lparr>Set_aru := n\<rparr>) = same_core s t"
  "same_core s (t\<lparr>Last_seq := n\<rparr>) = same_core s t" "same_core s (t\<lparr>Token_counter := n\<rparr>) = same_core s t"
  "same_core s (t\<lparr>Last_num_retrans := n\<rparr>) = same_core s t" "same_core s (t\<lparr>Last_num_sent := n\<rparr>) = same_core s t"
  "same_core s (t\<lparr>Highest_fifo_seq := n\<rparr>) = same_core s t" "same_core s (t\<lparr>Last_time_used := n\<rparr>) = same_core s t"
  "same_core s (t\<lparr>Future_membership := m\<rparr>) = same_core s t"
  "same_core s (t\<lparr>Future_membership_id := mid\<rparr>) = same_core s t"
  "same_core s (t\<lparr>Future_commit_set := a\<rparr>) = same_core s t" "same_core s (t\<lparr>F_trans_memb_time := n\<rparr>) = same_core s t"
  "same_core s (t\<lparr>Protocol_down_queue := q\<rparr>) = same_core s t" "same_core s (t\<lparr>Last_discarded := n\<rparr>) = same_core s t"
  "same_core s (t\<lparr>Last_delivered := n\<rparr>) = same_core s t" "same_core s (t\<lparr>Hurry_head := h\<rparr>) = same_core s t"
  by (simp_all add: same_core_def)

lemma armed_update [simp]:
  "armed f (s\<lparr>State := v0\<rparr>) = armed f s"
  "armed f (s\<lparr>Token_alive := v1\<rparr>) = armed f s"
  "armed f (s\<lparr>F_members := v2\<rparr>) = armed f s"
  "armed f (s\<lparr>F_reps := v3\<rparr>) = armed f s"
  "armed f (s\<lparr>Potential_reps := v4\<rparr>) = armed f s"
  "armed f (s\<lparr>Commit_set := v5\<rparr>) = armed f s"
  "armed f (s\<lparr>Membership := v6\<rparr>) = armed f s"
  "armed f (s\<lparr>Last_token := v7\<rparr>) = armed f s"
  "armed f (s\<lparr>My_seg_rep := v8\<rparr>) = armed f s"
  "armed f (s\<lparr>Memb_head := v9\<rparr>) = armed f s"
  by (simp_all add: armed_def pending_def)

lemma clock_ok_update [simp]:
  "clock_ok (s\<lparr>State := v0\<rparr>) = clock_ok s"
  "clock_ok (s\<lparr>Token_alive := v1\<rparr>) = clock_ok s"
  "clock_ok (s\<lparr>F_members := v2\<rparr>) = clock_ok s"
  "clock_ok (s\<lparr>F_reps := v3\<rparr>) = clock_ok s"
  "clock_ok (s\<lparr>Potential_reps := v4\<rparr>) = clock_ok s"
  "clock_ok (s\<lparr>Commit_set := v5\<rparr>) = clock_ok s"
  "clock_ok (s\<lparr>Membership := v6\<rparr>) = clock_ok s"
  "clock_ok (s\<lparr>Last_token := v7\<rparr>) = clock_ok s"
  "clock_ok (s\<lparr>My_seg_rep := v8\<rparr>) = clock_ok s"
  "clock_ok (s\<lparr>Memb_head := v9\<rparr>) = clock_ok s"
  by (simp_all add: clock_ok_def timers_ok_def pending_def)

text \<open>What sending may change: the record of what was sent, and the queue of packed packets.\<close>

definition net_frame :: "daemon \<Rightarrow> daemon \<Rightarrow> bool" where
  "net_frame s s' \<longleftrightarrow> (\<exists>n out q b. s' = s\<lparr>dl_sends := n, Output := out, Queue_scat := q, Queued_bytes := b\<rparr>)"

lemma net_frameI: "s' = s\<lparr>dl_sends := n, Output := out, Queue_scat := q, Queued_bytes := b\<rparr> \<Longrightarrow> net_frame s s'"
  unfolding net_frame_def by blast

lemma net_frame_refl [simp]: "net_frame s s"
  by (rule net_frameI [where n = "dl_sends s" and out = "Output s" and q = "Queue_scat s" and b = "Queued_bytes s"]) simp

lemma net_frame_trans: "net_frame s t \<Longrightarrow> net_frame t u \<Longrightarrow> net_frame s u"
  unfolding net_frame_def by force

lemma net_frame_core: "net_frame s s' \<Longrightarrow> same_core s s'"
  by (auto simp: net_frame_def same_core_def)

lemma net_frame_same: "net_frame t t' \<Longrightarrow> same_core s t \<Longrightarrow> same_core s t'"
  by (blast intro: same_core_trans net_frame_core)

lemma net_frame_emit [simp]: "net_frame s (emit e s)"
  by (rule net_frameI [where n = "dl_sends s" and out = "Output s @ [e]" and q = "Queue_scat s"
      and b = "Queued_bytes s"]) (simp add: emit_def)

lemma net_frame_DL_send [simp]: "net_frame s (snd (DL_send a port d s))"
  by (rule net_frameI [where n = "Suc (dl_sends s)" and out = "Output s @ [Dl_send a port d]"
      and q = "Queue_scat s" and b = "Queued_bytes s"]) (simp add: DL_send_def emit_def)

lemma net_frame_send_each [simp]: "net_frame s (snd (send_each d xs r s))"
proof (induction xs arbitrary: r s)
  case (Cons x xs)
  obtain a port where "x = (a, port)" by fastforce
  with Cons show ?case
    by (auto simp: split_beta Let_def intro: net_frame_trans [OF net_frame_DL_send])
qed simp


lemma net_frame_queue [simp]: "net_frame s (s\<lparr>Queue_scat := q\<rparr>)"
  by (rule net_frameI [where n = "dl_sends s" and out = "Output s" and q = q and b = "Queued_bytes s"]) simp

lemma net_frame_bytes [simp]: "net_frame s (s\<lparr>Queued_bytes := b\<rparr>)"
  by (rule net_frameI [where n = "dl_sends s" and out = "Output s" and q = "Queue_scat s" and b = b]) simp

lemma net_frame_set_queue: "net_frame s t \<Longrightarrow> net_frame s (t\<lparr>Queue_scat := q, Queued_bytes := b\<rparr>)"
  by (erule net_frame_trans) (rule net_frame_trans [OF net_frame_queue net_frame_bytes])

lemma net_frame_flush [simp]: "net_frame s (snd (Net_flush_bcast s))"
proof -
  have "net_frame s (snd (DL_send a port d (snd (send_each d' xs r s))))" for a port d d' xs r
    by (rule net_frame_trans [OF net_frame_send_each net_frame_DL_send])
  then show ?thesis by (simp add: Net_flush_bcast_def Let_def split_beta net_frame_set_queue)
qed

lemma net_frame_queue_bcast [simp]: "net_frame s (snd (snd (Net_queue_bcast p s)))"
proof -
  define s0 where "s0 = (if Queued_bytes s = 0 then s\<lparr>Queue_scat := []\<rparr> else s)"
  have "net_frame s s0" by (simp add: s0_def)
  moreover have "net_frame s (snd (Net_flush_bcast s0))"
    using calculation net_frame_trans net_frame_flush by blast
  ultimately have "net_frame s (fst (snd (if c then (r, snd (Net_flush_bcast s0), 0) else (0, s0, al))))" for c r al
    by simp
  then show ?thesis
    unfolding Net_queue_bcast_def s0_def [symmetric] Let_def split_beta
    by (simp only: snd_conv fst_conv) (rule net_frame_set_queue)
qed

lemma net_frame_scast [simp]: "net_frame s (snd (snd (Net_scast k p s)))"
  by (simp add: Net_scast_def Let_def split_beta split: list.split)

lemma net_frame_ucast [simp]: "net_frame s (snd (snd (Net_ucast i p s)))"
  by (simp add: Net_ucast_def Let_def split_beta split: option.split)

lemma net_frame_send_token: "lands (Net_send_token t s) (\<lambda>(_, _, s'). net_frame s s')"
  by (simp add: Net_send_token_def Let_def split_beta lands_if)

lemma net_frame_ucast_token: "lands (Net_ucast_token i t s) (\<lambda>(_, _, s'). net_frame s s')"
  by (simp add: Net_ucast_token_def Let_def split_beta lands_if split: option.split)

text \<open>Timers that belong to no state.\<close>

lemma memb_inv_arm_other:
  "memb_inv_but x s \<Longrightarrow> \<not> state_timer f \<Longrightarrow> f = T_Prot_token_hurry \<longrightarrow> Token_alive s \<Longrightarrow>
     memb_inv_but x (arm f t s)"
  by (auto simp: memb_inv_but_alt token_inv_def state_timer_def)

lemma memb_inv_arm_loss:
  "memb_inv_but x s \<Longrightarrow> Token_alive s \<Longrightarrow> x \<noteq> Some T_Memb_token_loss \<Longrightarrow>
     memb_inv_but x (arm T_Memb_token_loss t s)"
  by (auto simp: memb_inv_but_alt token_inv_def)

lemma lands_any: "(\<And>a. lands (f a) Q) \<Longrightarrow> lands (bindE r f) Q"
  by (cases r) simp_all

lemma lands_net:
  "lands r (\<lambda>(_, _, s'). net_frame t s') \<Longrightarrow> same_core s t \<Longrightarrow>
     (\<And>n k s'. same_core s s' \<Longrightarrow> lands (f (n, k, s')) Q) \<Longrightarrow> lands (bindE r f) Q"
  by (rule lands_seq, assumption) (auto intro: net_frame_same)

lemmas lands_ucast_token = lands_net [OF net_frame_ucast_token]

lemmas lands_send_token = lands_net [OF net_frame_send_token]

subsection \<open>Deliveries and the invariant\<close>

lemma set_exist_core [simp]: "same_core s (set_exist i v t) = same_core s t"
  by (simp add: set_exist_def)

lemma emit_core [simp]: "same_core s (emit e t) = same_core s t"
  by (simp add: emit_def same_core_def)

lemma Deliver_packet_core: "same_core s t \<Longrightarrow> lands (Deliver_packet i t) (same_core s)"
  by (rule lands_mono [OF Deliver_packet_frame]) (auto intro: same_core_trans)

lemma discard_step_core: "same_core s t \<Longrightarrow> lands (discard_step i t) (same_core s)"
  by (auto simp: discard_step_def lands_if intro!: lands_seq [OF Deliver_packet_core [of s]])

lemma Discard_packets_core:
  assumes "same_core s t" and "State s \<noteq> EVS"
  shows "lands (Discard_packets t) (same_core s)"
proof -
  have "lands (for_each discard_step is t) (same_core s)" for "is"
    by (rule lands_for_each) (use assms discard_step_core in auto)
  then have "lands (bindE (for_each discard_step is t) (\<lambda>s1. Inr (if c s1 then s1\<lparr>Last_discarded := a s1, Last_delivered := b s1\<rparr>
      else s1\<lparr>Last_discarded := a s1\<rparr>))) (same_core s)" for "is" a b c
    by (rule lands_seq) simp
  moreover have "State t \<noteq> EVS" using assms by (simp add: same_core_def)
  ultimately show ?thesis using assms(1) by (simp add: Discard_packets_def Let_def)
qed

lemma agreed_step_core: "same_core s t \<Longrightarrow> lands (deliver_agreed_step i t) (\<lambda>(_, u). same_core s u)"
  by (auto simp: deliver_agreed_step_def lands_if intro!: lands_seq [OF Deliver_packet_core [of s]])

lemma Deliver_agreed_core: "same_core s t \<Longrightarrow> lands (Deliver_agreed_packets t) (same_core s)"
  by (auto simp: Deliver_agreed_packets_def lands_if intro!: lands_for_until agreed_step_core)

lemma Deliver_reliable_core: "same_core s t \<Longrightarrow> lands (Deliver_reliable_packets a n t) (same_core s)"
  by (auto simp: Deliver_reliable_packets_def deliver_if_reliable_def Let_def lands_if
      intro!: lands_for_each Deliver_packet_core)

lemma evs_before_core: "same_core s t \<Longrightarrow> lands (evs_before_step i t) (\<lambda>(_, u). same_core s u)"
  by (auto simp: evs_before_step_def lands_if intro!: lands_seq [where P = "same_core s"] Deliver_packet_core)

lemma evs_after_core: "same_core s (snd t) \<Longrightarrow> lands (evs_after_step i t) (\<lambda>u. same_core s (snd u))"
  by (auto simp: evs_after_step_def Let_def split_beta lands_if
      intro!: lands_seq [where P = "same_core s"] Deliver_packet_core)

lemma Memb_transitional_core: "same_core s t \<Longrightarrow> lands (Memb_transitional t) (same_core s)"
  by (auto simp: Memb_transitional_def Let_def same_core_def intro!: lands_any)

lemma Memb_commit_core [simp]: "same_core s (Memb_commit t) = same_core s t"
  by (simp add: Memb_commit_def)

text \<open>Installing the new membership takes the daemon from \<open>EVS\<close> to \<open>OP\<close>.\<close>

definition installs :: "daemon \<Rightarrow> daemon \<Rightarrow> bool" where
  "installs s s' \<longleftrightarrow> State s' = OP \<and> Token_alive s' = Token_alive s \<and> (clock_ok s \<longrightarrow> clock_ok s')
     \<and> (clock_ok s \<longrightarrow> (\<forall>f. f \<noteq> T_Memb_lookup_new_members \<longrightarrow> armed f s' = armed f s))"

lemma installs_inv: "installs s s' \<Longrightarrow> memb_inv_but x s \<Longrightarrow> State s = EVS \<Longrightarrow> memb_inv_but x s'"
  by (simp add: installs_def memb_inv_but_alt token_inv_def)

lemma installs_same: "installs s t \<Longrightarrow> same_core t u \<Longrightarrow> installs s u"
  unfolding installs_def using same_core_armed [of t u] clock_ok_same [of u t]
  by (simp add: same_core_def)

lemma same_installs: "same_core s t \<Longrightarrow> installs t u \<Longrightarrow> installs s u"
  unfolding installs_def using same_core_armed [of s t] clock_ok_same [of t s]
  by (simp add: same_core_def)

lemma installs_arm: "installs s t \<Longrightarrow> installs s (arm T_Memb_lookup_new_members d t)"
  unfolding installs_def by simp

lemma Memb_regular_installs:
  assumes "same_core s t"
  shows "lands (Memb_regular t) (installs s)"
proof -
  define u where "u = t\<lparr>Transitional := False, State := OP, Membership := Future_membership t,
    Membership_id := Future_membership_id t, Reg_membership := Future_membership t, Foreign_found := False\<rparr>"
  have q: "Time_queue u = Time_queue t" by (simp add: u_def)
  have "installs t u"
    unfolding installs_def using armed_same [OF q] clock_ok_same [OF q] by (simp add: u_def)
  then have "installs s u" using assms same_installs by blast
  then show ?thesis
    unfolding Memb_regular_def Let_def u_def [symmetric] by (intro lands_any) (simp add: installs_arm)
qed

lemma finish_reload_installs:
  assumes "installs s t"
  shows "lands (finish_reload t) (installs s)"
proof -
  have "same_core t (Net_clear_partition t)" by (simp add: Net_clear_partition_def same_core_def)
  then have "installs s (arm T_Memb_lookup_new_members (Sp_time 0 0) (Net_clear_partition t))"
    using assms by (blast intro: installs_arm installs_same)
  moreover have "same_core u (Conf_reload_state_end u)" for u
    by (simp add: Conf_reload_state_end_def same_core_def)
  ultimately have "installs s (Conf_reload_state_end (arm T_Memb_lookup_new_members (Sp_time 0 0) (Net_clear_partition t)))"
    by (blast intro: installs_same)
  with assms show ?thesis by (simp add: finish_reload_def lands_if)
qed

lemma Discard_packets_evs_installs:
  assumes "same_core s t"
  shows "lands (Discard_packets_evs t) (installs s)"
proof -
  have before: "lands (for_until evs_before_step is t) (same_core s)" for "is"
    by (rule lands_for_until) (use assms evs_before_core in auto)
  have after: "lands (for_each evs_after_step is (False, u)) (\<lambda>v. same_core s (snd v))"
    if "same_core s u" for "is" u
    by (rule lands_for_each) (use that evs_after_core in auto)
  have fin: "lands (bindE (Memb_regular (clear_queues u)) (\<lambda>s5.
      bindE (finish_reload (emit (e s5) s5)) (\<lambda>s6. Inr (reset_for_next_membership s6)))) (installs s)"
    if "same_core s u" for u e
  proof -
    have "same_core s (clear_queues u)" using that by (simp add: clear_queues_def Let_def same_core_def)
    moreover have "lands (bindE (finish_reload (emit (e v) v)) (\<lambda>s6. Inr (reset_for_next_membership s6))) (installs s)"
      if "installs s v" for v
    proof -
      have "installs s (emit (e v) v)" using that by (rule installs_same) simp
      then show ?thesis
        by (rule lands_seq [OF finish_reload_installs])
          (auto intro: installs_same simp: reset_for_next_membership_def)
    qed
    ultimately show ?thesis by (rule lands_seq [OF Memb_regular_installs])
  qed
  show ?thesis
    unfolding Discard_packets_evs_def Let_def
    by (rule lands_seq [OF before], rule lands_seq [OF Memb_transitional_core], assumption,
        rule lands_seq [OF after]) (auto intro: fin)
qed

text \<open>So discarding keeps the invariant, whether or not it installs a membership.\<close>

lemma Discard_packets_inv:
  assumes "memb_inv_but x s"
  shows "lands (Discard_packets s) (memb_inv_but x)"
proof (cases "State s = EVS")
  case True
  then show ?thesis using assms
    by (auto simp: Discard_packets_def lands_if intro: lands_mono [OF Discard_packets_evs_installs [of s]] installs_inv)
next
  case False
  then show ?thesis using memb_inv_frame [OF assms] Discard_packets_core [of s s] by simp
qed

end
