(* ===== verification/Form_Token.thy ===== *)
theory Form_Token
  imports Memb_Invariant
begin

section \<open>Forming a ring: the form tokens\<close>

text \<open>
  Model of \<open>Create_form1\<close>, \<open>Fill_form1\<close> and \<open>Read_form2\<close> of \<open>daemon/membership.c\<close>. The first
  form token collects the members and what each old ring knows of its messages; the second
  carries the new membership's id and lets every member install the future membership. The
  byte positions in the token buffer are gone: a body is the member list, the representative
  list (or the membership id) and the list of ring descriptions. Header fields the code does
  not set in a fresh token are 0.
\<close>

subsection \<open>Shared steps\<close>

definition ring_members :: "daemon \<Rightarrow> proc_id list" where
  "ring_members s = conf_ids (Config_procs s) (Membership s)"

text \<open>\<open>/* update potential in case of failure */\<close>: the representatives of the other segments.\<close>

definition update_potential :: "rep_info list \<Rightarrow> daemon \<Rightarrow> daemon outcome" where
  "update_potential reps s =
     bindE (insert_reps (Config_procs s)
              (map (\<lambda>r. r\<lparr>rep_type := POTENTIAL_REP\<rparr>) (filter (\<lambda>r. rep_seg_index r \<noteq> my_seg s) reps))
              ((Potential_reps s)\<lparr>ri_num_reps := 0\<rparr>))
       (\<lambda>p. Inr (s\<lparr>Potential_reps := p\<rparr>))"

text \<open>The commit set as written into a ring description: this daemon, then the others.\<close>

definition commit_list :: "daemon \<Rightarrow> proc_id list" where
  "commit_list s = my_id s # filter (\<lambda>i. i \<noteq> my_id s) (members_of (Commit_set s))"

text \<open>The first eight bytes of a representative list, read as a membership id.\<close>

definition reps_as_memb_id :: "reps_info \<Rightarrow> membership_id" where
  "reps_as_memb_id r =
     \<lparr>mid_proc_id = word_of_int (ri_num_reps r mod 65536 + 65536 * (ri_rep_index r mod 65536)),
      mid_time = (case ri_reps r of [] \<Rightarrow> 0 | q # _ \<Rightarrow> sint (rep_proc_id q))\<rparr>"

definition form_token :: "token_header \<Rightarrow> tok_body \<Rightarrow> token" where
  "form_token h b = \<lparr>tok_head = h\<lparr>tk_rtr_len := int16_of (tok_body_bytes b)\<rparr>, tok_body = b\<rparr>"

definition ucast_token_twice :: "proc_id \<Rightarrow> token \<Rightarrow> daemon \<Rightarrow> daemon outcome" where
  "ucast_token_twice i t s =
     bindE (Net_ucast_token i t s) (\<lambda>(_, t1, s1). bindE (Net_ucast_token i t1 s1) (\<lambda>(_, _, s2). Inr s2))"

text \<open>Entering FORM, as \<open>Create_form1\<close> and \<open>Fill_form1\<close> end.\<close>

definition enter_form :: "daemon \<Rightarrow> daemon" where
  "enter_form s =
     (disarm T_Prot_token_hurry (arm T_Memb_token_loss (Form_timeout (timeo s)) s))
       \<lparr>Token_alive := False, State := FORM\<rparr>"

subsection \<open>Starting the form token\<close>

definition Create_form1 :: "daemon \<Rightarrow> daemon outcome" where
  "Create_form1 s =
     bindE (rep_at ''Create_form1'' (F_reps s) 0) (\<lambda>rep0.
       let fm = F_members s;
           ring = ring_members s;
           fm1 = (if rep_type rep0 = RING_REP
                  then fm\<lparr>mi_num_members := int (length ring),
                          mi_members := ring @ drop (length ring) (mi_members fm)\<rparr> else fm);
           rep_ids = map rep_proc_id (reps_of (F_reps s));
           valid = filter (\<lambda>x. \<not> (x \<in> set rep_ids \<and> x \<noteq> my_id s)) (members_of fm1);
           fm2 = \<lparr>mi_num_members = 1, mi_num_pending = int (length valid) - 1,
                  mi_members = valid @ drop (length valid) (mi_members fm1)\<rparr>
       in bindE (Sort_reps (Config_procs s) (F_reps s)) (\<lambda>sorted.
          let fr = sorted\<lparr>ri_rep_index := 1\<rparr>
          in bindE (update_potential (reps_of fr) (s\<lparr>F_members := fm2, F_reps := fr\<rparr>)) (\<lambda>s1.
             let ring_rec = \<lparr>rg_memb_id = Membership_id s1, rg_trans_time = 0, rg_aru = Aru s1,
                   rg_highest_seq = Highest_seq s1, rg_num_trans = 1,
                   rg_holes = missing (My_aru s1 + 1) (Highest_seq s1) s1, rg_commit = commit_list s1\<rparr>;
                 h = blank_token\<lparr>tk_type := FORM1_TYPE, tk_seq := Highest_seq s1 + 3333, tk_proc_id := my_id s1\<rparr>;
                 tok = form_token h (Form1_body fm2 fr [ring_rec])
             in bindE (if mi_num_pending fm2 > 0 then
                         bindE (member_at ''Create_form1'' fm2 (mi_num_members fm2)) (\<lambda>i.
                           ucast_token_twice i tok s1)
                       else if ri_rep_index fr < ri_num_reps fr then
                         bindE (rep_at ''Create_form1'' fr (ri_rep_index fr)) (\<lambda>q.
                           ucast_token_twice (rep_proc_id q) tok s1)
                       else
                         let fm3 = fm2\<lparr>mi_num_pending := 1, mi_num_members := 0\<rparr>;
                             tok2 = form_token (h\<lparr>tk_type := FORM2_TYPE\<rparr>)
                                      (Form2_body fm3 (reps_as_memb_id fr) [ring_rec])
                         in bindE (Net_ucast_token (my_id s1) tok2 (s1\<lparr>F_members := fm3\<rparr>)) (\<lambda>(_, _, s2). Inr s2))
                  (\<lambda>s2. Inr (enter_form (disarm T_Send_join s2))))))"

subsection \<open>Adding to the form token\<close>

text \<open>
  \<open>/* update members and reps */\<close>: \<open>None\<close> is a failed validity check, after which the token
  is dropped.
\<close>

definition fill_members ::
  "members_info \<Rightarrow> reps_info \<Rightarrow> daemon \<Rightarrow> (members_info \<times> reps_info \<times> daemon) option outcome" where
  "fill_members m r s =
     (if State s = OP \<or> State s = REPRESENTED then
        if mi_num_pending m \<le> 0 then Inr None
        else bindE (member_at ''Fill_form1'' m (mi_num_members m)) (\<lambda>i.
               if i \<noteq> my_id s then Inr None
               else Inr (Some (m\<lparr>mi_num_members := mi_num_members m + 1,
                                 mi_num_pending := mi_num_pending m - 1\<rparr>, r, s)))
      else if State s = GATHER then
        bindE (rep_at ''Fill_form1'' r (ri_rep_index r)) (\<lambda>q.
          if rep_proc_id q \<noteq> my_id s \<or> mi_num_pending m \<noteq> 0 then Inr None
          else
            let fm = F_members s;
                valid = filter (\<lambda>x. x \<notin> set (members_of m)
                          \<and> \<not> (x \<in> rep_proc_id ` set (reps_of r) \<and> x \<noteq> my_id s)
                          \<and> \<not> (x \<in> rep_proc_id ` set (reps_of (F_reps s)) \<and> x \<noteq> my_id s)) (members_of fm);
                s1 = s\<lparr>F_members := fm\<lparr>mi_num_members := int (length valid),
                                        mi_members := valid @ drop (length valid) (mi_members fm)\<rparr>\<rparr>;
                fill = (\<lambda>xs. m\<lparr>mi_members := members_of m @ xs @ drop (nat (mi_num_members m) + length xs) (mi_members m),
                               mi_num_pending := int (length xs) - 1, mi_num_members := mi_num_members m + 1\<rparr>);
                r1 = r\<lparr>ri_rep_index := ri_rep_index r + 1\<rparr>
            in if rep_type q = SEG_REP \<or> rep_type q = RING_REP then
                 let xs = (if rep_type q = SEG_REP then valid else ring_members s)
                 in if mi_num_members m + int (length xs) > MAX_PROCS_RING then Inl (Undefined ''Fill_form1'')
                    else Inr (Some (fill xs, r1, s1))
               else Inl (Alarm_exit ''Fill_form1''))
      else Inl (Alarm_exit ''Fill_form1''))"

definition is_my_ring :: "daemon \<Rightarrow> ring_info \<Rightarrow> bool" where
  "is_my_ring s g \<longleftrightarrow> Memb_is_equal (rg_memb_id g) (Membership_id s)"

definition insert_all :: "proc_id list \<Rightarrow> members_info \<Rightarrow> members_info" where
  "insert_all ids m = foldl (\<lambda>m i. snd (Insert_member m i)) m ids"

definition no_members :: members_info where
  "no_members = \<lparr>mi_num_members = 0, mi_num_pending = 0, mi_members = []\<rparr>"

text \<open>This daemon's contribution to the description of its ring that is already in the token.\<close>

definition merge_my_ring :: "ring_info \<Rightarrow> daemon \<Rightarrow> ring_info outcome" where
  "merge_my_ring g s =
     (let n = nat (rg_num_trans g);
          t1 = insert_all (take n (rg_commit g)) no_members;
          t2 = snd (Insert_member t1 (my_id s))
      in if mi_num_members t2 \<noteq> rg_num_trans g + 1 then Inl (Alarm_exit ''Fill_form1'')
         else
           let t3 = insert_all (members_of (Commit_set s)) (insert_all (drop n (rg_commit g)) t2)
           in Inr \<lparr>rg_memb_id = Membership_id s, rg_trans_time = 0,
                   rg_aru = (if rg_aru g > Aru s then rg_aru g else Aru s),
                   rg_highest_seq = (if rg_highest_seq g > Highest_seq s then rg_highest_seq g else Highest_seq s),
                   rg_num_trans = rg_num_trans g + 1,
                   rg_holes = filter (\<lambda>i. exist i s = 0) (rg_holes g)
                     @ missing (rg_highest_seq g + 1) (Highest_seq s) s,
                   rg_commit = members_of t3\<rparr>)"

definition new_ring :: "daemon \<Rightarrow> ring_info" where
  "new_ring s = \<lparr>rg_memb_id = Membership_id s, rg_trans_time = 0, rg_aru = Aru s,
     rg_highest_seq = Highest_seq s, rg_num_trans = 1,
     rg_holes = missing (Last_discarded s + 1) (Highest_seq s) s, rg_commit = commit_list s\<rparr>"

text \<open>The ring does not fit: the daemon takes itself out of the member list.\<close>

definition leave_members :: "members_info \<Rightarrow> daemon \<Rightarrow> members_info" where
  "leave_members m s =
     (let i = find_index (\<lambda>x. x = my_id s) (members_of m)
      in m\<lparr>mi_num_members := mi_num_members m - 1,
           mi_members := if i = -1 then mi_members m
             else take (nat i) (mi_members m) @ drop (Suc (nat i)) (mi_members m)\<rparr>)"

definition fill_rings ::
  "members_info \<Rightarrow> ring_info list \<Rightarrow> daemon \<Rightarrow> (members_info \<times> ring_info list) outcome" where
  "fill_rings m gs s =
     (let mine = filter (is_my_ring s) gs; others = filter (\<lambda>g. \<not> is_my_ring s g) gs
      in if mine = [] then
           if int (length others) + 1 > MAX_FORM_REPS then Inr (leave_members m s, others)
           else Inr (m, others @ [new_ring s])
         else bindE (merge_my_ring (last mine) s) (\<lambda>g. Inr (m, others @ [g])))"

text \<open>The form token goes to the next member or representative, or starts its second round.\<close>

definition pass_form1 ::
  "token_header \<Rightarrow> members_info \<Rightarrow> reps_info \<Rightarrow> ring_info list \<Rightarrow> daemon \<Rightarrow> daemon outcome" where
  "pass_form1 h m r gs s =
     (let tok = form_token h (Form1_body m r gs)
      in if mi_num_pending m > 0 then
           bindE (member_at ''Fill_form1'' m (mi_num_members m)) (\<lambda>i. ucast_token_twice i tok s)
         else if ri_rep_index r < ri_num_reps r then
           bindE (rep_at ''Fill_form1'' r (ri_rep_index r)) (\<lambda>q. ucast_token_twice (rep_proc_id q) tok s)
         else
           bindE (Sort_members (Config_procs s) m) (\<lambda>m3.
             let m4 = m3\<lparr>mi_num_pending := mi_num_members m3, mi_num_members := 0\<rparr>;
                 tok2 = form_token (h\<lparr>tk_type := FORM2_TYPE\<rparr>) (Form2_body m4 (reps_as_memb_id r) gs)
             in bindE (member_at ''Fill_form1'' m4 0) (\<lambda>i. ucast_token_twice i tok2 s)))"

definition Fill_form1 :: "token \<Rightarrow> daemon \<Rightarrow> daemon outcome" where
  "Fill_form1 t s =
     (case tok_body t of
        Form1_body m0 r0 gs0 \<Rightarrow>
          let h = tok_head t; same = Same_endian (tk_type h);
              m = (if same then m0 else Flip_members m0);
              r = (if same then r0 else Flip_reps r0);
              gs = (if same then gs0 else Flip_rings gs0);
              h1 = h\<lparr>tk_proc_id := my_id s,
                     tk_seq := if tk_seq h < Highest_seq s + 3333 then Highest_seq s + 3333 else tk_seq h\<rparr>
          in bindE (fill_members m r s) (\<lambda>filled.
             case filled of
               None \<Rightarrow> Inr s
             | Some (m1, r1, s1) \<Rightarrow>
                 bindE (update_potential (reps_of r1) s1) (\<lambda>s2.
                 bindE (fill_rings m1 gs s2) (\<lambda>(m2, gs2).
                   bindE (pass_form1 h1 m2 r1 gs2 s2)
                        (\<lambda>s3. Inr (enter_form (disarm T_Shift_to_seg (disarm T_Form_or_fail
                                    (disarm T_Send_join s3))))))))
      | _ \<Rightarrow> Inl (Undefined ''Fill_form1''))"

subsection \<open>The second round\<close>

text \<open>\<open>memb_time\<close>: the current second, or one past the last time used.\<close>

definition next_time :: "daemon \<Rightarrow> int \<times> daemon" where
  "next_time s =
     (let (now, s1) = E_get_time s;
          t = (if sec now \<le> Last_time_used s1 then Last_time_used s1 + 1 else sec now)
      in (t, s1\<lparr>Last_time_used := t\<rparr>))"

definition empty_conf :: "configuration \<Rightarrow> configuration" where
  "empty_conf c = c\<lparr>segments := map (\<lambda>g. g\<lparr>seg_procs := []\<rparr>) (segments c)\<rparr>"

fun build_future :: "proc list \<Rightarrow> proc_id list \<Rightarrow> configuration \<Rightarrow> configuration outcome" where
  "build_future procs [] c = Inr c"
| "build_future procs (i # is) c =
     (case Conf_proc_by_id procs i of
        None \<Rightarrow> Inl (Alarm_exit ''Read_form2'')
      | Some (_, p) \<Rightarrow>
          let k = nat (p_seg_index p);
              (ret, g) = Conf_append_id_to_seg procs (segments c ! k) (p_id p)
          in if ret = -1 then Inl (Alarm_exit ''Read_form2'')
             else build_future procs is (c\<lparr>segments := (segments c)[k := g]\<rparr>))"

definition mark_hole :: "int \<Rightarrow> daemon \<Rightarrow> daemon outcome" where
  "mark_hole i s = (if exist i s \<noteq> 0 then Inl (Alarm_exit ''Read_form2'') else Inr (set_exist i 3 s))"

text \<open>Writing the transitional time into the last description of this daemon's ring.\<close>

fun set_trans_time :: "(ring_info \<Rightarrow> bool) \<Rightarrow> int \<Rightarrow> ring_info list \<Rightarrow> ring_info list" where
  "set_trans_time mine t [] = []"
| "set_trans_time mine t (g # gs) =
     (if mine g \<and> \<not> list_ex mine gs then g\<lparr>rg_trans_time := t\<rparr> # gs else g # set_trans_time mine t gs)"

definition future_commit :: "ring_info \<Rightarrow> members_info \<Rightarrow> members_info" where
  "future_commit g old = \<lparr>mi_num_members = int (length (rg_commit g)), mi_num_pending = rg_num_trans g,
     mi_members = rg_commit g @ drop (length (rg_commit g)) (mi_members old)\<rparr>"

text \<open>The last step: pass the form token on, or turn it into the first regular token.\<close>

definition pass_form2 :: "token_header \<Rightarrow> tok_body \<Rightarrow> daemon \<Rightarrow> daemon outcome" where
  "pass_form2 h b s =
     bindE (Conf_last (Config_procs s) (Future_membership s)) (\<lambda>l.
       if l \<noteq> my_id s then
         bindE (Net_send_token \<lparr>tok_head = h, tok_body = b\<rparr> s) (\<lambda>(_, t1, s1).
         bindE (Net_send_token t1 s1) (\<lambda>(_, _, s2). Inr (s2\<lparr>Token_rounds := 0\<rparr>)))
       else
         bindE (Net_send_token \<lparr>tok_head = h\<lparr>tk_type := 0, tk_seq := 0, tk_aru := Last_seq s,
                                            tk_flow_control := 0, tk_rtr_len := 0\<rparr>, tok_body = Rtr_body []\<rparr> s)
           (\<lambda>(_, _, s1). Inr (s1\<lparr>Token_rounds := 1\<rparr>)))"

definition enter_evs :: "daemon \<Rightarrow> daemon" where
  "enter_evs s =
     (let s1 = arm T_Memb_token_loss (Token_timeout (timeo s)) (s\<lparr>Token_alive := True\<rparr>)
      in s1\<lparr>Last_token := (Last_token s1)\<lparr>tk_type := 0, tk_seq := 0, tk_aru := 0\<rparr>, State := EVS\<rparr>)"

text \<open>The first daemon on the second round makes up the id of the new membership.\<close>

definition new_memb_id :: "members_info \<Rightarrow> membership_id \<Rightarrow> daemon \<Rightarrow> int \<times> membership_id \<times> daemon" where
  "new_memb_id m mid s =
     (if mi_num_members m = 1 then
        let (tm, s') = next_time s
        in (tm, \<lparr>mid_proc_id = my_id s, mid_time = tm + 1\<rparr>, s'\<lparr>Last_time_used := tm + 1\<rparr>)
      else (0, mid, s))"

text \<open>What the daemon takes over from the description of its own ring.\<close>

definition read_my_ring :: "ring_info \<Rightarrow> daemon \<Rightarrow> daemon outcome" where
  "read_my_ring g s =
     bindE (Discard_packets (s\<lparr>Highest_seq := rg_highest_seq g, Aru := rg_aru g\<rparr>)) (\<lambda>s1.
     bindE (for_each mark_hole (rg_holes g) s1) (\<lambda>s2.
       Inr (s2\<lparr>Future_commit_set := future_commit g (Future_commit_set s2)\<rparr>)))"

text \<open>The time of the transitional membership: the ring's, this round's, or a new one.\<close>

definition trans_time :: "ring_info \<Rightarrow> int \<Rightarrow> daemon \<Rightarrow> int \<times> daemon" where
  "trans_time g memb_time s =
     (if rg_trans_time g \<noteq> 0 then (rg_trans_time g, s)
      else if memb_time \<noteq> 0 then (memb_time, s) else next_time s)"

definition Read_form2 :: "token \<Rightarrow> daemon \<Rightarrow> daemon outcome" where
  "Read_form2 t s =
     (case tok_body t of
        Form2_body m0 mid0 gs0 \<Rightarrow>
          let h = tok_head t; same = Same_endian (tk_type h);
              m = (if same then m0 else Flip_members m0);
              mid = (if same then mid0 else flip_memb_id mid0);
              gs = (if same then gs0 else Flip_rings gs0)
          in if mi_num_pending m \<le> 0 then Inr s
             else bindE (member_at ''Read_form2'' m (mi_num_members m)) (\<lambda>i.
               if i \<noteq> my_id s then Inr s
               else
                 let m1 = m\<lparr>mi_num_members := mi_num_members m + 1, mi_num_pending := mi_num_pending m - 1\<rparr>;
                     (memb_time, mid1, s2) = new_memb_id m1 mid (s\<lparr>Last_seq := tk_seq h\<rparr>)
                 in bindE (build_future (Config_procs s2)
                             (prefix_of (mi_num_members m1 + mi_num_pending m1) (mi_members m1))
                             (empty_conf (Config s2))) (\<lambda>future.
                    bindE (Net_set_membership future
                             (s2\<lparr>Future_membership_id := mid1, Future_membership := future\<rparr>)) (\<lambda>s4.
                      let s5 = FC_new_configuration s4; mine = filter (is_my_ring s5) gs
                      in if mine = [] then Inl (Alarm_exit ''Read_form2'')
                         else bindE (read_my_ring (last mine) s5) (\<lambda>s8.
                           let (tt, s9) = trans_time (last mine) memb_time s8
                           in bindE (pass_form2 (h\<lparr>tk_proc_id := my_id s\<rparr>)
                                       (Form2_body m1 mid1 (set_trans_time (is_my_ring s5) tt gs))
                                       (s9\<lparr>F_trans_memb_time := tt\<rparr>))
                                (\<lambda>s11. Inr (enter_evs s11))))))
      | _ \<Rightarrow> Inl (Undefined ''Read_form2''))"

subsection \<open>The invariant across the form tokens\<close>

lemma ucast_token_twice_core: "same_core s t \<Longrightarrow> lands (ucast_token_twice i tok t) (same_core s)"
  unfolding ucast_token_twice_def by (simp add: lands_ucast_token)

lemma update_potential_core: "same_core s t \<Longrightarrow> lands (update_potential rs t) (same_core s)"
  by (simp add: update_potential_def lands_bindE)

lemma enter_form_inv:
  assumes "clock_ok s" and "\<forall>f \<in> {T_Gather_or_represented, T_Scast_alive, T_Shift_to_seg, T_Send_join,
    T_Form_or_fail}. \<not> armed f s"
  shows "memb_inv (enter_form s)"
proof -
  define t where "t = disarm T_Prot_token_hurry (arm T_Memb_token_loss (Form_timeout (timeo s)) s)"
  have t: "clock_ok t" "armed f t = (f \<noteq> T_Prot_token_hurry \<and> (f = T_Memb_token_loss \<or> armed f s))" for f
    using assms(1) by (auto simp: t_def)
  have q: "Time_queue (enter_form s) = Time_queue t" by (simp add: enter_form_def t_def)
  have "clock_ok (enter_form s)" "armed f (enter_form s) = armed f t" for f
    using t(1) clock_ok_same [OF q] armed_same [OF q] by simp_all
  moreover have "State (enter_form s) = FORM" "\<not> Token_alive (enter_form s)" by (simp_all add: enter_form_def)
  ultimately show ?thesis using assms(2) by (simp add: memb_inv_but_alt token_inv_def t)
qed

lemma Create_form1_inv:
  assumes "memb_inv_but (Some T_Form_or_fail) s" and "State s = GATHER"
  shows "lands (Create_form1 s) memb_inv"
proof -
  have fin: "memb_inv (enter_form (disarm T_Send_join s2))" if "same_core s s2" for s2
  proof -
    have "memb_inv_but (Some T_Form_or_fail) s2" "State s2 = GATHER"
      using that assms memb_inv_same_core [OF that] by (simp_all add: same_core_def)
    then show ?thesis by (intro enter_form_inv) (auto simp: memb_inv_but_alt)
  qed
  show ?thesis
    unfolding Create_form1_def Let_def
    by (rule lands_any, rule lands_any, rule lands_seq [OF update_potential_core [of s]], simp,
        rule lands_seq [where P = "same_core s"])
      (auto simp: lands_if intro!: lands_ucast_token [where s = s] fin ucast_token_twice_core intro: lands_any)
qed


lemma fill_members_core:
  assumes "same_core s t"
  shows "lands (fill_members m r t) (\<lambda>f. case f of None \<Rightarrow> True | Some (_, _, s1) \<Rightarrow> same_core s s1)"
  using assms by (auto simp: fill_members_def Let_def lands_if intro!: lands_any)

lemma pass_form1_core: "same_core s t \<Longrightarrow> lands (pass_form1 h m r gs t) (same_core s)"
  by (auto simp: pass_form1_def Let_def lands_if intro!: lands_any ucast_token_twice_core)

lemma Fill_form1_inv:
  assumes "memb_inv s"
  shows "lands (Fill_form1 t s) memb_inv"
proof -
  have fin: "memb_inv (enter_form (disarm T_Shift_to_seg (disarm T_Form_or_fail (disarm T_Send_join s2))))"
    if "same_core s s2" "State s \<in> {OP, REPRESENTED, GATHER}" for s2
  proof -
    have "memb_inv s2" "State s2 \<in> {OP, REPRESENTED, GATHER}"
      using that assms memb_inv_same_core [OF that(1)] by (simp_all add: same_core_def)
    then show ?thesis by (intro enter_form_inv) (auto simp: memb_inv_but_alt)
  qed
  show ?thesis
  proof (cases "State s \<in> {OP, REPRESENTED, GATHER}")
    case True
    note fin = fin [OF _ True]
    have rest: "lands (case filled of None \<Rightarrow> Inr s | Some (m1, r1, s1) \<Rightarrow>
        bindE (update_potential (reps_of r1) s1) (\<lambda>s2. bindE (fill_rings m1 gs s2) (\<lambda>(m2, gs2).
          bindE (pass_form1 h m2 r1 gs2 s2) (\<lambda>s3. Inr (enter_form (disarm T_Shift_to_seg
            (disarm T_Form_or_fail (disarm T_Send_join s3)))))))) memb_inv"
      if "case filled of None \<Rightarrow> True | Some (_, _, s1) \<Rightarrow> same_core s s1" for filled gs h
      using that assms
      by (auto split: option.splits intro!: lands_seq [OF update_potential_core [of s]]
          lands_seq [OF pass_form1_core [of s]] fin intro: lands_any)
    show ?thesis
    proof (cases "tok_body t")
      case (Form1_body m r gs)
      show ?thesis
        unfolding Fill_form1_def Let_def Form1_body tok_body.case
        by (rule lands_seq [OF fill_members_core [of s]], simp, rule rest)
    qed (simp_all add: Fill_form1_def)
  next
    case False
    then have "fill_members m r s = Inl (Alarm_exit ''Fill_form1'')" for m r
      by (cases "State s") (simp_all add: fill_members_def)
    then show ?thesis by (simp add: Fill_form1_def Let_def split: tok_body.split)
  qed
qed


lemma enter_evs_inv:
  assumes "memb_inv s" and "State s = FORM"
  shows "memb_inv (enter_evs s)"
proof -
  define t where "t = arm T_Memb_token_loss (Token_timeout (timeo s)) (s\<lparr>Token_alive := True\<rparr>)"
  have s: "clock_ok (s\<lparr>Token_alive := True\<rparr>)" "armed f (s\<lparr>Token_alive := True\<rparr>) = armed f s" for f
    using assms by (simp_all add: memb_inv_but_def)
  have t: "clock_ok t" "armed f t = (f = T_Memb_token_loss \<or> armed f s)" for f
    using s(1) by (auto simp: t_def s(2))
  have q: "Time_queue (enter_evs s) = Time_queue t" by (simp add: enter_evs_def t_def Let_def)
  have "clock_ok (enter_evs s)" "armed f (enter_evs s) = armed f t" for f
    using t(1) clock_ok_same [OF q] armed_same [OF q] by simp_all
  moreover have "State (enter_evs s) = EVS" "Token_alive (enter_evs s)"
    by (simp_all add: enter_evs_def Let_def)
  ultimately show ?thesis using assms by (simp add: memb_inv_but_alt token_inv_def t)
qed

lemma next_time_core: "same_core s t \<Longrightarrow> same_core s (snd (next_time t))"
  by (simp add: next_time_def E_get_time_def Let_def same_core_def)

lemma mark_holes_core: "same_core s t \<Longrightarrow> lands (for_each mark_hole is t) (same_core s)"
  by (rule lands_for_each) (auto simp: mark_hole_def lands_if set_exist_def)

lemma pass_form2_core: "same_core s t \<Longrightarrow> lands (pass_form2 h b t) (same_core s)"
  unfolding pass_form2_def
  by (rule lands_any) (auto simp: lands_if intro!: lands_send_token [where s = s])


lemma new_memb_id_core: "same_core s t \<Longrightarrow> same_core s (snd (snd (new_memb_id m mid t)))"
  using next_time_core [of s t] by (simp add: new_memb_id_def Let_def split_beta)

lemma trans_time_core: "same_core s t \<Longrightarrow> same_core s (snd (trans_time g n t))"
  using next_time_core [of s t] by (simp add: trans_time_def)

lemma read_my_ring_core: "same_core s t \<Longrightarrow> State s \<noteq> EVS \<Longrightarrow> lands (read_my_ring g t) (same_core s)"
  unfolding read_my_ring_def
  by (rule lands_seq [OF Discard_packets_core [of s]]) (auto intro!: lands_seq [OF mark_holes_core [of s]])

lemma Net_set_membership_core: "same_core s u \<Longrightarrow> lands (Net_set_membership c u) (same_core s)"
  by (auto simp: Net_set_membership_def Let_def split_beta lands_if same_core_def)

lemma Read_form2_inv:
  assumes "memb_inv s" and "State s = FORM"
  shows "lands (Read_form2 t s) memb_inv"
proof -
  have fin: "memb_inv (enter_evs u)" if "same_core s u" for u
  proof -
    have "memb_inv u" "State u = FORM"
      using that assms memb_inv_same_core [OF that] by (simp_all add: same_core_def)
    then show ?thesis by (rule enter_evs_inv)
  qed
  have pass: "lands (bindE (pass_form2 h b u) (\<lambda>v. Inr (enter_evs v))) memb_inv" if "same_core s u" for h b u
    using that by (rule lands_seq [OF pass_form2_core]) (simp add: fin)
  have ring: "lands (bindE (read_my_ring g (FC_new_configuration u)) (\<lambda>s8. let (tt, s9) = trans_time g n s8
      in bindE (pass_form2 h (b tt) (s9\<lparr>F_trans_memb_time := tt\<rparr>)) (\<lambda>v. Inr (enter_evs v)))) memb_inv"
    if "same_core s u" for g n h b u
    by (rule lands_seq [OF read_my_ring_core [of s]])
      (use that assms(2) in \<open>auto simp: FC_new_configuration_def Let_def split_beta intro!: pass trans_time_core\<close>)
  have new: "same_core s (snd (snd (new_memb_id m mid (s\<lparr>Last_seq := n\<rparr>))))" for m mid n
    by (rule new_memb_id_core) simp
  show ?thesis
  proof (cases "tok_body t")
    case (Form2_body m0 mid0 gs0)
    show ?thesis
      unfolding Read_form2_def Form2_body tok_body.case
      by (auto simp: Let_def split_beta lands_if new assms(1)
          intro!: lands_seq [OF Net_set_membership_core [of s]] ring [unfolded Let_def split_beta]
          lands_any [where r = "member_at w m i" for w m i] lands_any [where r = "build_future p i c" for p i c])
  qed (simp_all add: Read_form2_def)
qed

end
