(* ===== verification/Membership.thy ===== *)
theory Membership
  imports Form_Token
begin

section \<open>The membership algorithm\<close>

text \<open>
  Model of the handlers and timers of \<open>daemon/membership.c\<close>: what a daemon does with alive,
  join, refer and foreign packets, with form tokens, when its token is lost, and when one of
  its timers expires. Each handler is a function of the packet and the daemon; a \<open>switch\<close>
  on \<open>State\<close> is a \<open>case\<close>. A list sent in a packet carries only its used cells. A process
  looked up without a check of the result is \<open>Undefined\<close> when it is unknown.
\<close>

subsection \<open>Lists the handlers rebuild\<close>

definition only_member :: "proc_id \<Rightarrow> members_info \<Rightarrow> members_info" where
  "only_member i m = m\<lparr>mi_num_members := 1, mi_num_pending := 0, mi_members := arr_put (mi_members m) 0 i\<rparr>"

definition commit_alone :: "daemon \<Rightarrow> daemon" where
  "commit_alone s =
     s\<lparr>Commit_set := (Commit_set s)\<lparr>mi_num_members := 1,
                                   mi_members := arr_put (mi_members (Commit_set s)) 0 (my_id s)\<rparr>\<rparr>"

text \<open>A configuration emptied down to this daemon.\<close>

definition alone_in :: "configuration \<Rightarrow> daemon \<Rightarrow> configuration" where
  "alone_in conf s =
     (let c = empty_conf conf; k = nat (my_seg s)
      in c\<lparr>segments := (segments c)[k := snd (Conf_append_id_to_seg (Config_procs s) (segments c ! k) (my_id s))]\<rparr>)"

definition own_rep :: "int \<Rightarrow> daemon \<Rightarrow> rep_info" where
  "own_rep t s = \<lparr>rep_proc_id = my_id s, rep_type = t, rep_seg_index = my_seg s\<rparr>"

definition put_rep0 :: "rep_info \<Rightarrow> reps_info \<Rightarrow> reps_info" where
  "put_rep0 q r = r\<lparr>ri_num_reps := 1, ri_reps := arr_put (ri_reps r) 0 q\<rparr>"

text \<open>
  The loop of \<open>Memb_token_loss\<close> that makes the leader of every other segment (the configured
  one, where \<open>memb\<close> has nobody) a representative of type \<open>t\<close>.
\<close>

definition candidate :: "configuration \<Rightarrow> daemon \<Rightarrow> int \<Rightarrow> proc_id outcome" where
  "candidate memb s i =
     (case seg_procs (segments memb ! nat i) of
        k # _ \<Rightarrow> Inr (p_id (Config_procs s ! k))
      | [] \<Rightarrow> Conf_seg_leader (Config_procs s) (Config s) i)"

definition add_candidates :: "int \<Rightarrow> configuration \<Rightarrow> daemon \<Rightarrow> reps_info \<Rightarrow> reps_info outcome" where
  "add_candidates t memb s r =
     for_each (\<lambda>i r.
         bindE (candidate memb s i) (\<lambda>c.
         bindE (Insert_rep (Config_procs s) r \<lparr>rep_proc_id = c, rep_type = t, rep_seg_index = i\<rparr>)
           (\<lambda>(_, r'). Inr r')))
       (filter (\<lambda>i. i \<noteq> my_seg s) [0 .. Conf_num_segments (Config s) - 1]) r"

definition no_reps :: "reps_info \<Rightarrow> reps_info" where
  "no_reps r = r\<lparr>ri_num_reps := 0\<rparr>"

subsection \<open>Changes of state\<close>

definition Shift_to_seg :: "daemon \<Rightarrow> daemon" where
  "Shift_to_seg s =
     (let s1 = s\<lparr>State := SEG, F_members := only_member (my_id s) (F_members s)\<rparr>
      in arm T_Gather_or_represented (Seg_timeout (timeo s)) (arm T_Scast_alive (Sp_time 0 0) s1))"

definition Shift_to_gather :: "daemon \<Rightarrow> daemon" where
  "Shift_to_gather s =
     (let s1 = s\<lparr>State := GATHER,
                 F_reps := put_rep0 (own_rep (if Token_alive s then RING_REP else SEG_REP) s) (F_reps s)\<rparr>
      in arm T_Form_or_fail (Gather_timeout (timeo s)) (arm T_Send_join (Sp_time 0 0)
           (disarm T_Memb_lookup_new_members (disarm T_Scast_alive s1))))"

definition Shift_to_represented :: "daemon \<Rightarrow> daemon" where
  "Shift_to_represented s =
     arm T_Shift_to_seg (Rep_timeout (timeo s))
       (disarm T_Gather_or_represented (disarm T_Scast_alive (s\<lparr>State := REPRESENTED\<rparr>)))"

definition Gather_or_represented :: "daemon \<Rightarrow> daemon outcome" where
  "Gather_or_represented s =
     (let s1 = s\<lparr>My_seg_rep := -1\<rparr>
      in bindE (Smallest_member (Config_procs s1) (F_members s1)) (\<lambda>(i, _).
           Inr (if i = my_id s1 then Shift_to_gather s1 else Shift_to_represented s1)))"

definition back_to_op :: "daemon \<Rightarrow> daemon" where
  "back_to_op s =
     (arm T_Memb_lookup_new_members (Lookup_timeout (timeo s)) (disarm T_Send_join s))\<lparr>State := OP\<rparr>"

definition Form_or_fail :: "daemon \<Rightarrow> daemon outcome" where
  "Form_or_fail s =
     bindE (Smallest_rep (Config_procs s) (F_reps s)) (\<lambda>(i, _).
       if i = my_id s then
         if Token_alive s \<and> ri_num_reps (F_reps s) = 1 then Inr (back_to_op s) else Create_form1 s
       else if Token_alive s then Inr (back_to_op s)
       else bindE (insert_reps (Config_procs s) (tl (reps_of (F_reps s))) (no_reps (Potential_reps s)))
              (\<lambda>p. Inr (Shift_to_gather
                 (s\<lparr>F_members := only_member (my_id s) (F_members s), Potential_reps := p\<rparr>))))"

subsection \<open>Losing the token\<close>

text \<open>
  Who to look for, by the state the token was lost in. In \<open>GATHER\<close> the type of \<open>temp_rep\<close>
  is still that of the last gathered representative when the second loop starts.
\<close>

definition lost_potential :: "daemon \<Rightarrow> daemon outcome" where
  "lost_potential s =
     (case State s of
        OP \<Rightarrow>
          let s1 = commit_alone s
          in bindE (add_candidates POTENTIAL_REP (Membership s1) s1 (no_reps (Potential_reps s1)))
               (\<lambda>p. Inr (s1\<lparr>Potential_reps := p\<rparr>))
      | SEG \<Rightarrow> Inl (Alarm_exit ''Memb_token_loss'')
      | REPRESENTED \<Rightarrow> Inl (Alarm_exit ''Memb_token_loss'')
      | GATHER \<Rightarrow>
          if \<not> Token_alive s then Inl (Alarm_exit ''Memb_token_loss'')
          else
            let s1 = commit_alone s; gathered = tl (reps_of (F_reps s1));
                t = (if gathered = [] then POTENTIAL_REP else rep_type (last gathered))
            in bindE (insert_reps (Config_procs s1) gathered (no_reps (Potential_reps s1))) (\<lambda>p.
               bindE (add_candidates t (Membership s1) s1 p) (\<lambda>p'. Inr (s1\<lparr>Potential_reps := p'\<rparr>)))
      | FORM \<Rightarrow> Inr s
      | EVS \<Rightarrow>
          let s1 = Backoff_membership s
          in bindE (add_candidates POTENTIAL_REP (Future_membership s1) s1 (no_reps (Potential_reps s1)))
               (\<lambda>p. Inr (s1\<lparr>Potential_reps := p\<rparr>)))"

definition drop_token :: "daemon \<Rightarrow> daemon" where
  "drop_token s =
     (let s1 = disarm T_Memb_lookup_new_members (disarm T_Prot_token_hurry (disarm T_Form_or_fail
                 (disarm T_Send_join (disarm T_Memb_token_loss (s\<lparr>Token_alive := False\<rparr>)))))
      in s1\<lparr>Last_token := (Last_token s1)\<lparr>tk_type := 0, tk_seq := 0, tk_aru := 0\<rparr>,
            Membership := alone_in (Membership s1) s1\<rparr>)"

definition Memb_token_loss :: "daemon \<Rightarrow> daemon outcome" where
  "Memb_token_loss s = bindE (lost_potential s) (\<lambda>s1. Inr (drop_token (Shift_to_seg s1)))"

subsection \<open>Sending membership packets\<close>

definition used_members :: "members_info \<Rightarrow> members_info" where
  "used_members m = m\<lparr>mi_members := members_of m\<rparr>"

definition used_reps :: "reps_info \<Rightarrow> reps_info" where
  "used_reps r = r\<lparr>ri_reps := reps_of r\<rparr>"

text \<open>\<open>code\<close> 0 is the timer's call, which starts the timer again; 1 is an answer.\<close>

definition Scast_alive :: "int \<Rightarrow> daemon \<Rightarrow> daemon" where
  "Scast_alive code s =
     (let h = (Memb_head s)\<lparr>ph_type := ALIVE_TYPE, ph_data_len := int16_of (members_bytes (F_members s))\<rparr>;
          (_, h1, s1) = Net_scast (my_seg s) \<lparr>pkt_head = h, pkt_body = Alive_body (used_members (F_members s))\<rparr> s;
          s2 = s1\<lparr>Memb_head := h1\<rparr>
      in if code = 0 then arm T_Scast_alive (Alive_timeout (timeo s2)) s2 else s2)"

text \<open>One packet to many processes; every send stamps the same header.\<close>

fun ucast_all :: "proc_id list \<Rightarrow> packet \<Rightarrow> daemon \<Rightarrow> packet_header \<times> daemon" where
  "ucast_all [] p s = (pkt_head p, s)"
| "ucast_all (i # is) p s = (let (_, h, s1) = Net_ucast i p s in ucast_all is (p\<lparr>pkt_head := h\<rparr>) s1)"

definition join_packet :: "daemon \<Rightarrow> packet" where
  "join_packet s =
     \<lparr>pkt_head = (Memb_head s)\<lparr>ph_type := JOIN_TYPE,
        ph_data_len := int16_of (members_bytes (F_members s) + reps_bytes (F_reps s))\<rparr>,
      pkt_body = Join_body (used_members (F_members s)) (used_reps (F_reps s))\<rparr>"

definition Send_join :: "daemon \<Rightarrow> daemon" where
  "Send_join s =
     (let p = join_packet s;
          (h1, s1) = (if \<not> Token_alive s
                      then (let (_, h, s') = Net_scast (my_seg s) p s in (h, s')) else (pkt_head p, s));
          (h2, s2) = ucast_all (map rep_proc_id (reps_of (Potential_reps s1))) (p\<lparr>pkt_head := h1\<rparr>) s1
      in arm T_Send_join (Join_timeout (timeo s2)) (s2\<lparr>Memb_head := h2\<rparr>))"

text \<open>The configured daemons a ring leader probes: those its membership does not have.\<close>

definition absentees :: "daemon \<Rightarrow> proc_id list" where
  "absentees s = filter (\<lambda>i. \<not> in_memb i (Reg_membership s) s) (conf_ids (Config_procs s) (Config s))"

definition Memb_lookup_new_members :: "daemon \<Rightarrow> daemon" where
  "Memb_lookup_new_members s =
     (if State s \<noteq> OP then s
      else
        let s1 = s\<lparr>Potential_reps := no_reps (Potential_reps s),
                   F_reps := put_rep0 (own_rep RING_REP s) (F_reps s),
                   F_members := (F_members s)\<lparr>mi_num_members := 0, mi_num_pending := 0\<rparr>\<rparr>;
            p = join_packet s1;
            single = (Conf_num_segments (Config s1) = 1);
            (h, s2) = (if single then (let (_, h', s') = Net_scast (my_seg s1) p s1 in (h', s'))
                       else ucast_all (absentees s1) p s1);
            s3 = s2\<lparr>Memb_head := h\<rparr>
        in if single \<or> absentees s1 \<noteq> [] then Shift_to_gather s3 else s3)"

definition refer_packet :: "proc_id \<Rightarrow> int \<Rightarrow> daemon \<Rightarrow> packet" where
  "refer_packet rep t s =
     \<lparr>pkt_head = blank_header\<lparr>ph_type := REFER_TYPE, ph_proc_id := my_id s,
        ph_memb_id := \<lparr>mid_proc_id = rep, mid_time = t\<rparr>, ph_data_len := 0\<rparr>, pkt_body = Empty\<rparr>"

definition send_refer :: "proc_id \<Rightarrow> proc_id \<Rightarrow> int \<Rightarrow> daemon \<Rightarrow> daemon" where
  "send_refer dest rep t s = snd (snd (Net_ucast dest (refer_packet rep t s) s))"


subsection \<open>Packets of the membership algorithm\<close>

definition insert_form_member :: "proc_id \<Rightarrow> daemon \<Rightarrow> daemon" where
  "insert_form_member i s = s\<lparr>F_members := snd (Insert_member (F_members s) i)\<rparr>"

text \<open>A member of my ring behaves as if it had lost the token: so have I.\<close>

definition lose_with :: "proc_id \<Rightarrow> configuration \<Rightarrow> daemon \<Rightarrow> daemon outcome" where
  "lose_with i memb s =
     (if in_memb i memb s then bindE (Memb_token_loss s) (\<lambda>s1. Inr (insert_form_member i s1)) else Inr s)"

definition Memb_handle_alive :: "packet \<Rightarrow> daemon \<Rightarrow> daemon outcome" where
  "Memb_handle_alive p s =
     (let i = ph_proc_id (pkt_head p)
      in case State s of
           OP \<Rightarrow> lose_with i (Membership s) s
         | SEG \<Rightarrow> Inr (insert_form_member i s)
         | REPRESENTED \<Rightarrow> Inr (arm T_Shift_to_seg (Rep_timeout (timeo s)) s)
         | GATHER \<Rightarrow> if \<not> Token_alive s then Inr (insert_form_member i s) else lose_with i (Membership s) s
         | FORM \<Rightarrow> Inr s
         | EVS \<Rightarrow> lose_with i (Future_membership s) s)"

text \<open>A join in \<open>OP\<close>.\<close>

definition join_in_op :: "proc_id \<Rightarrow> reps_info \<Rightarrow> daemon \<Rightarrow> daemon outcome" where
  "join_in_op i r s =
     (if \<not> in_memb i (Membership s) s then
        bindE (leads (Membership s) s) (\<lambda>leader.
        bindE (rep_at ''Memb_handle_join'' r 0) (\<lambda>rep0.
          if leader then
            Inr (Shift_to_gather (s\<lparr>Potential_reps := put_rep0 rep0 (Potential_reps s),
                                   F_members := (F_members s)\<lparr>mi_num_members := 0, mi_num_pending := 0\<rparr>\<rparr>))
          else
            bindE (if rep_seg_index rep0 \<noteq> my_seg s then Inr True
                   else bindE (Conf_seg_leader (Config_procs s) (Membership s) (my_seg s)) (\<lambda>l. Inr (l = my_id s)))
              (\<lambda>answer.
                if answer then
                  bindE (Conf_leader (Config_procs s) (Membership s)) (\<lambda>l. Inr (send_refer i l RING_REP s))
                else Inr s)))
      else if Conf_num_segments (Config s) > 1 then Memb_token_loss s
      else Inr s)"

text \<open>\<open>Conf_proc_by_id\<close> and the test that the sender is my segment's representative.\<close>

definition from_my_rep :: "proc_id \<Rightarrow> reps_info \<Rightarrow> daemon \<Rightarrow> bool outcome" where
  "from_my_rep i r s =
     (case Conf_proc_by_id (Config_procs s) i of
        None \<Rightarrow> Inl (Undefined ''Memb_handle_join'')
      | Some (_, p) \<Rightarrow>
          if my_seg s \<noteq> p_seg_index p then Inr False
          else bindE (rep_at ''Memb_handle_join'' r 0) (\<lambda>rep0. Inr (rep_type rep0 = SEG_REP)))"

definition join_in_gather :: "reps_info \<Rightarrow> daemon \<Rightarrow> daemon outcome" where
  "join_in_gather r s =
     bindE (rep_at ''Memb_handle_join'' r 0) (\<lambda>rep0.
     bindE (Insert_rep (Config_procs s) (F_reps s) rep0) (\<lambda>(_, fr).
     bindE (insert_reps (Config_procs s) (reps_of r) (Potential_reps s)) (\<lambda>pr.
     bindE (Smallest_rep (Config_procs s) fr) (\<lambda>(small, _).
       let s1 = s\<lparr>F_reps := fr, Potential_reps := pr\<rparr>
       in Inr (if small = rep_proc_id rep0 then arm T_Form_or_fail (Gather_timeout (timeo s1)) s1 else s1)))))"

definition Memb_handle_join :: "packet \<Rightarrow> daemon \<Rightarrow> daemon outcome" where
  "Memb_handle_join p s =
     (case pkt_body p of
        Join_body m0 r0 \<Rightarrow>
          let i = ph_proc_id (pkt_head p); same = Same_endian (ph_type (pkt_head p));
              r = (if same then r0 else Flip_reps r0)
          in (case State s of
                OP \<Rightarrow> join_in_op i r s
              | SEG \<Rightarrow>
                  bindE (from_my_rep i r s) (\<lambda>mine.
                    if mine then Inr (Scast_alive 1 (Shift_to_represented (s\<lparr>My_seg_rep := i\<rparr>))) else Inr s)
              | REPRESENTED \<Rightarrow>
                  bindE (from_my_rep i r s) (\<lambda>mine.
                    if mine then
                      Inr (Scast_alive 1 (arm T_Shift_to_seg (Rep_timeout (timeo s)) (s\<lparr>My_seg_rep := i\<rparr>)))
                    else if My_seg_rep s \<noteq> -1 then Inr (send_refer i (My_seg_rep s) SEG_REP s)
                    else Inr s)
              | GATHER \<Rightarrow> join_in_gather r s
              | FORM \<Rightarrow> Inr s
              | EVS \<Rightarrow> lose_with i (Future_membership s) s)
      | _ \<Rightarrow> Inl (Undefined ''Memb_handle_join''))"

definition Memb_handle_refer :: "packet \<Rightarrow> daemon \<Rightarrow> daemon outcome" where
  "Memb_handle_refer p s =
     (if State s = GATHER then
        let mid = ph_memb_id (pkt_head p)
        in case Conf_proc_by_id (Config_procs s) (mid_proc_id mid) of
             None \<Rightarrow> Inr s
           | Some (_, q) \<Rightarrow>
               bindE (Insert_rep (Config_procs s) (Potential_reps s)
                        \<lparr>rep_proc_id = p_id q, rep_type = int16_of (mid_time mid), rep_seg_index = p_seg_index q\<rparr>)
                 (\<lambda>(_, r). Inr (s\<lparr>Potential_reps := r\<rparr>))
      else Inr s)"

definition Memb_handle_foreign :: "packet \<Rightarrow> daemon \<Rightarrow> daemon outcome" where
  "Memb_handle_foreign p s =
     (if State s = OP then
        case Conf_proc_by_id (Config_procs s) (ph_proc_id (pkt_head p)) of
          None \<Rightarrow> Inr s
        | Some _ \<Rightarrow>
            bindE (Conf_leader (Config_procs s) (Membership s)) (\<lambda>l.
              if l = my_id s then Inr (Memb_lookup_new_members s)
              else
                bindE (Conf_seg_leader (Config_procs s) (Membership s) (my_seg s)) (\<lambda>sl.
                  if sl = my_id s \<and> \<not> Foreign_found s
                  then Inr (snd (ucast_all [l, l] p (s\<lparr>Foreign_found := True\<rparr>)))
                  else Inr s))
      else Inr s)"

definition Memb_handle_message :: "packet \<Rightarrow> daemon \<Rightarrow> daemon outcome" where
  "Memb_handle_message p s =
     (let t = ph_type (pkt_head p)
      in if Is_alive t then Memb_handle_alive p s
         else if Is_join t then Memb_handle_join p s
         else if Is_refer t then Memb_handle_refer p s
         else if Is_regular t then Memb_handle_foreign p s
         else Inl (Alarm_exit ''Memb_handle_message''))"

definition Memb_handle_form1 :: "token \<Rightarrow> daemon \<Rightarrow> daemon outcome" where
  "Memb_handle_form1 t s =
     (case State s of
        OP \<Rightarrow> bindE (leads (Membership s) s) (\<lambda>leader. if leader then Inr s else Fill_form1 t s)
      | REPRESENTED \<Rightarrow> Fill_form1 t s
      | GATHER \<Rightarrow> Fill_form1 t s
      | _ \<Rightarrow> Inr s)"

definition Memb_handle_form2 :: "token \<Rightarrow> daemon \<Rightarrow> daemon outcome" where
  "Memb_handle_form2 t s = (if State s = FORM then Read_form2 t s else Inr s)"

definition Memb_handle_token :: "token \<Rightarrow> daemon \<Rightarrow> daemon outcome" where
  "Memb_handle_token t s =
     (if Is_form1 (tk_type (tok_head t)) then Memb_handle_form1 t s
      else if Is_form2 (tk_type (tok_head t)) then Memb_handle_form2 t s
      else Inl (Alarm_exit ''Memb_handle_token''))"

subsection \<open>Initialisation\<close>

text \<open>Whether a later segment's first process differs in its upper 16 address bits.\<close>

fun first_differs :: "proc list \<Rightarrow> 32 word \<Rightarrow> segment list \<Rightarrow> bool outcome" where
  "first_differs procs subnet [] = Inr False"
| "first_differs procs subnet (g # gs) =
     (case seg_procs g of
        [] \<Rightarrow> Inl (Undefined ''Memb_init'')
      | k # _ \<Rightarrow> if p_id (procs ! k) AND 0xffff0000 \<noteq> subnet then Inr True
                 else first_differs procs subnet gs)"

definition is_wide :: "daemon \<Rightarrow> bool outcome" where
  "is_wide s =
     (case segments (Config s) of
        [] \<Rightarrow> Inl (Undefined ''Memb_init'')
      | g # gs \<Rightarrow> (case seg_procs g of
          [] \<Rightarrow> Inl (Undefined ''Memb_init'')
        | k # _ \<Rightarrow> first_differs (Config_procs s) (p_id (Config_procs s ! k) AND 0xffff0000) gs))"

definition wide_timeouts :: timeouts where
  "wide_timeouts = \<lparr>Token_timeout = Sp_time 20 0, Hurry_timeout = Sp_time 6 0, Alive_timeout = Sp_time 1 0,
     Join_timeout = Sp_time 1 0, Rep_timeout = Sp_time 5 0, Seg_timeout = Sp_time 2 0,
     Gather_timeout = Sp_time 10 0, Form_timeout = Sp_time 10 0, Lookup_timeout = Sp_time 90 0\<rparr>"

definition local_timeouts :: timeouts where
  "local_timeouts = \<lparr>Token_timeout = Sp_time 5 0, Hurry_timeout = Sp_time 2 0, Alive_timeout = Sp_time 1 0,
     Join_timeout = Sp_time 1 0, Rep_timeout = Sp_time 2 500000, Seg_timeout = Sp_time 2 0,
     Gather_timeout = Sp_time 5 0, Form_timeout = Sp_time 5 0, Lookup_timeout = Sp_time 60 0\<rparr>"

definition Memb_init :: "daemon \<Rightarrow> daemon outcome" where
  "Memb_init s =
     bindE (is_wide s) (\<lambda>wide.
       let t = (if wide then wide_timeouts else local_timeouts);
           t1 = (if Conf_num_segments (Config s) = 1 then t\<lparr>Lookup_timeout := Sp_time 300 0\<rparr> else t);
           m = alone_in (Config s) s
       in Memb_token_loss (s\<lparr>State := OP, Wide_network := wide, timeo := t1, Membership := m,
            Membership_id := \<lparr>mid_proc_id = my_id s, mid_time = -1\<rparr>, Last_time_used := -1,
            Transitional := False, Reg_membership := m, Memb_head := (Memb_head s)\<lparr>ph_proc_id := my_id s\<rparr>\<rparr>))"

subsection \<open>The invariant across the handlers\<close>

lemma Shift_to_seg_inv:
  assumes "State s = REPRESENTED" and "memb_inv_but (Some T_Shift_to_seg) s"
  shows "memb_inv (Shift_to_seg s)"
  using assms by (auto simp: Shift_to_seg_def Let_def memb_inv_but_alt token_inv_def)

lemma Shift_to_gather_inv:
  assumes "clock_ok s" and "armed T_Memb_token_loss s = Token_alive s"
    and "armed T_Prot_token_hurry s \<longrightarrow> Token_alive s"
    and "\<not> armed T_Gather_or_represented s" and "\<not> armed T_Shift_to_seg s"
  shows "memb_inv (Shift_to_gather s)"
  using assms by (simp add: Shift_to_gather_def Let_def memb_inv_but_alt token_inv_def)

lemma Shift_to_represented_inv:
  assumes "clock_ok s" and "\<not> Token_alive s" and "\<not> armed T_Memb_token_loss s"
    and "\<not> armed T_Prot_token_hurry s" and "\<not> armed T_Send_join s" and "\<not> armed T_Form_or_fail s"
  shows "memb_inv (Shift_to_represented s)"
  using assms by (simp add: Shift_to_represented_def memb_inv_but_alt token_inv_def)

lemma Gather_or_represented_inv:
  assumes "memb_inv_but (Some T_Gather_or_represented) s" and "State s = SEG"
  shows "lands (Gather_or_represented s) memb_inv"
  using assms(1) [unfolded memb_inv_but_alt token_inv_def] assms(2)
  by (auto simp: Gather_or_represented_def Let_def intro!: lands_any Shift_to_gather_inv Shift_to_represented_inv)

lemma back_to_op_inv:
  assumes "memb_inv_but (Some T_Form_or_fail) s" and "State s = GATHER" and "Token_alive s"
  shows "memb_inv (back_to_op s)"
  using assms by (simp add: back_to_op_def memb_inv_but_alt token_inv_def)

lemma Form_or_fail_inv:
  assumes "memb_inv_but (Some T_Form_or_fail) s" and "State s = GATHER"
  shows "lands (Form_or_fail s) memb_inv"
  using assms assms(1) [unfolded memb_inv_but_alt token_inv_def]
  by (auto simp: Form_or_fail_def lands_if intro!: lands_any back_to_op_inv Create_form1_inv Shift_to_gather_inv)

text \<open>Losing the token is a bug only where no token can be lost.\<close>

definition can_lose :: "daemon \<Rightarrow> bool" where
  "can_lose s \<longleftrightarrow> State s = OP \<or> State s = FORM \<or> State s = EVS \<or> State s = GATHER \<and> Token_alive s"

lemma Backoff_core [simp]: "same_core s (Backoff_membership t) = same_core s t"
  by (simp add: Backoff_membership_def Let_def same_core_def)

lemma lost_potential_core: "lands (lost_potential s) (\<lambda>t. same_core s t \<and> can_lose s)"
  by (cases "State s")
    (auto simp: lost_potential_def can_lose_def commit_alone_def Let_def lands_if
      simp: same_core_def [of s "Backoff_membership s"] intro!: lands_any)

lemma drop_token_inv:
  assumes "clock_ok s" and "State s \<noteq> REPRESENTED" and "\<not> armed T_Shift_to_seg s"
  shows "memb_inv (drop_token (Shift_to_seg s))"
  using assms by (simp add: drop_token_def Shift_to_seg_def Let_def memb_inv_but_alt token_inv_def)

lemma Memb_token_loss_inv:
  assumes "memb_inv_but x s"
  shows "lands (Memb_token_loss s) memb_inv"
  unfolding Memb_token_loss_def
proof (rule lands_seq [OF lost_potential_core], elim conjE)
  fix t assume c: "same_core s t" "can_lose s"
  then have "memb_inv_but x t" using assms memb_inv_same_core [OF c(1)] by simp
  moreover have "State t \<noteq> REPRESENTED" using c by (auto simp: can_lose_def same_core_def)
  ultimately have "clock_ok t" "State t \<noteq> REPRESENTED" "\<not> armed T_Shift_to_seg t"
    by (simp_all add: memb_inv_but_alt)
  then show "lands (Inr (drop_token (Shift_to_seg t))) memb_inv" by (simp add: drop_token_inv)
qed

lemma wanted_arm [simp]: "wanted g (arm f t s) = wanted g s"
  by (cases g) simp_all

lemma arm_wanted_inv:
  assumes "memb_inv_but x s" and "wanted f s" and "x = None \<or> x = Some f" and "state_timer f"
  shows "memb_inv (arm f d s)"
proof -
  have "f \<noteq> T_Prot_token_hurry" using assms(4) by (auto simp: state_timer_def)
  then show ?thesis
    using assms(1-3) unfolding memb_inv_but_def by (auto simp: token_inv_def)
qed

lemma ucast_all_core: "same_core s t \<Longrightarrow> same_core s (snd (ucast_all is p t))"
proof (induction "is" arbitrary: p t)
  case (Cons i "is")
  have "same_core s (snd (snd (Net_ucast i p t)))"
    using net_frame_same [OF net_frame_ucast Cons.prems] .
  then show ?case using Cons.IH by (simp add: Let_def split_beta)
qed simp

lemma scast_core: "same_core s t \<Longrightarrow> same_core s (snd (snd (Net_scast k p t)))"
  by (rule net_frame_same [OF net_frame_scast])

lemma send_refer_core: "same_core s t \<Longrightarrow> same_core s (send_refer i r n t)"
  unfolding send_refer_def by (rule net_frame_same [OF net_frame_ucast])

lemma Scast_alive_answer: "c \<noteq> 0 \<Longrightarrow> same_core s t \<Longrightarrow> same_core s (Scast_alive c t)"
  by (simp add: Scast_alive_def Let_def split_beta scast_core)

lemma Scast_alive_inv:
  assumes "memb_inv_but x s" and "State s = SEG" and "x = None \<or> x = Some T_Scast_alive"
  shows "memb_inv (Scast_alive 0 s)"
proof -
  have "memb_inv (arm T_Scast_alive d t)" if "same_core s t" for d t
    using that assms memb_inv_same_core [OF that]
    by (intro arm_wanted_inv [of x]) (auto simp: same_core_def state_timer_def)
  then show ?thesis by (simp add: Scast_alive_def Let_def split_beta scast_core)
qed

lemma Send_join_inv:
  assumes "memb_inv_but (Some T_Send_join) s" and "State s = GATHER"
  shows "memb_inv (Send_join s)"
proof -
  have "memb_inv (arm T_Send_join d t)" if "same_core s t" for d t
    using that assms memb_inv_same_core [OF that]
    by (intro arm_wanted_inv [of "Some T_Send_join"]) (auto simp: same_core_def state_timer_def)
  then show ?thesis by (simp add: Send_join_def Let_def split_beta scast_core ucast_all_core)
qed

lemma Shift_to_gather_op_inv:
  assumes "memb_inv t" and "State t = OP"
  shows "memb_inv (Shift_to_gather t)"
  using assms by (intro Shift_to_gather_inv) (simp_all add: memb_inv_but_alt token_inv_def)

lemma Memb_lookup_inv:
  assumes "memb_inv s"
  shows "memb_inv (Memb_lookup_new_members s)"
proof -
  have "memb_inv t" "State s = OP \<Longrightarrow> memb_inv (Shift_to_gather t)" if "same_core s t" for t
    using that assms memb_inv_same_core [OF that] by (auto simp: same_core_def intro!: Shift_to_gather_op_inv)
  then show ?thesis
    using assms by (simp add: Memb_lookup_new_members_def Let_def split_beta scast_core ucast_all_core)
qed

lemma insert_form_member_inv: "memb_inv s \<Longrightarrow> memb_inv (insert_form_member i s)"
  using memb_inv_same_core [of s "insert_form_member i s"] by (simp add: insert_form_member_def)

lemma lose_with_inv: "memb_inv s \<Longrightarrow> lands (lose_with i memb s) memb_inv"
  by (auto simp: lose_with_def lands_if insert_form_member_inv
      intro!: lands_seq [OF Memb_token_loss_inv [of None]])

lemma Memb_handle_alive_inv:
  assumes "memb_inv s"
  shows "lands (Memb_handle_alive p s) memb_inv"
proof -
  have "memb_inv (arm T_Shift_to_seg d s)" if "State s = REPRESENTED" for d
    using that assms by (intro arm_wanted_inv [of None]) (simp_all add: state_timer_def)
  then show ?thesis
    using assms
    by (simp add: Memb_handle_alive_def Let_def lands_if lose_with_inv insert_form_member_inv
        split: memb_state.split)
qed

lemma join_in_op_inv:
  assumes "memb_inv s" and "State s = OP"
  shows "lands (join_in_op i r s) memb_inv"
proof -
  have "memb_inv t" "memb_inv (Shift_to_gather t)" if "same_core s t" for t
    using that assms memb_inv_same_core [OF that] by (auto simp: same_core_def intro!: Shift_to_gather_op_inv)
  then show ?thesis
    using assms Memb_token_loss_inv [of None s]
    by (auto simp: join_in_op_def lands_if send_refer_core intro!: lands_any)
qed

lemma join_in_gather_inv:
  assumes "memb_inv s" and "State s = GATHER"
  shows "lands (join_in_gather r s) memb_inv"
proof -
  have "memb_inv t" "memb_inv (arm T_Form_or_fail d t)" if "same_core s t" for d t
    using that assms memb_inv_same_core [OF that]
    by (auto simp: same_core_def state_timer_def intro!: arm_wanted_inv [of None])
  then show ?thesis by (auto simp: join_in_gather_def Let_def split_beta intro!: lands_any)
qed

lemma Memb_handle_join_inv:
  assumes "memb_inv s"
  shows "lands (Memb_handle_join p s) memb_inv"
proof -
  have same: "memb_inv t" if "same_core s t" for t using assms memb_inv_same_core [OF that] by simp
  have seg: "memb_inv (Scast_alive 1 (Shift_to_represented (s\<lparr>My_seg_rep := i\<rparr>)))" if "State s = SEG" for i
  proof -
    have "memb_inv (Shift_to_represented (s\<lparr>My_seg_rep := i\<rparr>))"
      using that assms by (intro Shift_to_represented_inv) (auto simp: memb_inv_but_alt token_inv_def)
    then show ?thesis
      using memb_inv_same_core [OF Scast_alive_answer [of 1 "Shift_to_represented (s\<lparr>My_seg_rep := i\<rparr>)"]] by simp
  qed
  have rep: "memb_inv (Scast_alive 1 (arm T_Shift_to_seg d (s\<lparr>My_seg_rep := i\<rparr>)))" if "State s = REPRESENTED" for i d
  proof -
    have "memb_inv (arm T_Shift_to_seg d (s\<lparr>My_seg_rep := i\<rparr>))"
      using that same [of "s\<lparr>My_seg_rep := i\<rparr>"] by (intro arm_wanted_inv [of None]) (simp_all add: state_timer_def)
    then show ?thesis
      using memb_inv_same_core [OF Scast_alive_answer [of 1 "arm T_Shift_to_seg d (s\<lparr>My_seg_rep := i\<rparr>)"]] by simp
  qed
  show ?thesis
  proof (cases "pkt_body p")
    case (Join_body m r)
    then show ?thesis using assms
      by (cases "State s") (auto simp: Memb_handle_join_def Let_def lands_if join_in_op_inv join_in_gather_inv
          lose_with_inv seg rep same send_refer_core intro!: lands_any)
  qed (simp_all add: Memb_handle_join_def)
qed

lemma Memb_handle_message_inv:
  assumes "memb_inv s"
  shows "lands (Memb_handle_message p s) memb_inv"
proof -
  have same: "memb_inv t" if "same_core s t" for t using assms memb_inv_same_core [OF that] by simp
  have "lands (Memb_handle_refer p s) memb_inv"
    by (auto simp: Memb_handle_refer_def Let_def lands_if assms same split: option.split intro!: lands_any)
  moreover have "lands (Memb_handle_foreign p s) memb_inv"
    using assms by (auto simp del: ucast_all.simps simp: Memb_handle_foreign_def lands_if same ucast_all_core Memb_lookup_inv
        split: option.split intro!: lands_any)
  ultimately show ?thesis
    using assms by (simp add: Memb_handle_message_def Let_def lands_if Memb_handle_alive_inv Memb_handle_join_inv)
qed

lemma Memb_handle_token_inv:
  assumes "memb_inv s"
  shows "lands (Memb_handle_token t s) memb_inv"
  using assms
  by (auto simp: Memb_handle_token_def Memb_handle_form1_def Memb_handle_form2_def lands_if Fill_form1_inv
      Read_form2_inv split: memb_state.split intro!: lands_any)

text \<open>From before the daemon has a queue, \<open>Memb_init\<close> establishes it.\<close>

lemma Memb_init_inv:
  assumes "Time_queue s = []"
  shows "lands (Memb_init s) memb_inv"
proof -
  have init: "lands (Memb_token_loss u) memb_inv" if "Time_queue u = []" "State u = OP" for u
    unfolding Memb_token_loss_def
  proof (rule lands_seq [OF lost_potential_core], elim conjE)
    fix t assume "same_core u t"
    with that have q: "Time_queue t = []" and "State t = OP" by (simp_all add: same_core_def)
    then have "clock_ok t" "\<not> armed f t" for f
      by (simp_all add: clock_ok_def timers_ok_def tq_ok_def armed_def pending_def)
    then show "lands (Inr (drop_token (Shift_to_seg t))) memb_inv"
      using \<open>State t = OP\<close> by (simp add: drop_token_inv)
  qed
  show ?thesis unfolding Memb_init_def Let_def by (rule lands_any, rule init) (simp_all add: assms)
qed

end
