(* ===== verification/Protocol.thy ===== *)
theory Protocol
  imports Membership
begin

section \<open>The ring protocol\<close>

text \<open>
  Model of \<open>daemon/protocol.c\<close> above delivery: receiving packets, the token's visit
  (retransmissions, new packets, flow control, the all-received-up-to value), hurrying the
  token, new messages, configuration reload and initialisation. A received datagram is a view
  of its bytes at every offset; the token buffer is a value. Memory pools, alarms and the
  status counters do not appear. A packet in a slot marked as a hole has no header or body.
\<close>

subsection \<open>The token once more\<close>

text \<open>\<open>send_tokens n\<close>: \<open>n\<close> sends of the same buffer, whose header each send stamps.\<close>

fun send_tokens :: "nat \<Rightarrow> token \<Rightarrow> daemon \<Rightarrow> (token \<times> daemon) outcome" where
  "send_tokens 0 t s = Inr (t, s)"
| "send_tokens (Suc n) t s = bindE (Net_send_token t s) (\<lambda>(_, t1, s1). send_tokens n t1 s1)"

definition Is_token_hold :: "daemon \<Rightarrow> bool" where
  "Is_token_hold s \<longleftrightarrow> (State s = OP \<or> State s = GATHER \<and> Token_alive s)
     \<and> Get_retrans (tk_type (Last_token s)) \<le> 1 \<and> Aru s = Highest_seq s \<and> Token_counter s > 1"

definition To_hold_token :: "daemon \<Rightarrow> bool" where
  "To_hold_token s \<longleftrightarrow> (State s = OP \<or> State s = GATHER \<and> Token_alive s)
     \<and> Get_retrans (tk_type (Last_token s)) \<le> 1 \<and> Aru s = Highest_seq s \<and> Token_counter s > 1"

definition Prot_token_hurry :: "daemon \<Rightarrow> daemon outcome" where
  "Prot_token_hurry s =
     bindE (leads (Memb_active s) s) (\<lambda>leader.
       let lt = (Last_token s)\<lparr>tk_rtr_len := 0\<rparr>;
           lt1 = (if leader then lt\<lparr>tk_type := Set_retrans (tk_type lt) (Get_retrans (tk_type lt) + 1)\<rparr> else lt);
           s1 = (if leader then arm T_Prot_token_hurry (Hurry_timeout (timeo s)) s else s);
           n = (if Get_retrans (tk_type lt1) > 1 then 2 else 0)
       in bindE (if Wide_network s1
                 then bindE (Conf_seg_last (Config_procs s1) (Memb_active s1) (my_seg s1)) (\<lambda>l. Inr (l = my_id s1))
                 else Inr False) (\<lambda>again.
          bindE (send_tokens ((if again then 2 else 1) + n) \<lparr>tok_head = lt1, tok_body = Rtr_body []\<rparr> s1)
            (\<lambda>(t, s2). Inr (s2\<lparr>Last_token := tok_head t\<rparr>))))"

definition Handle_hurry :: "packet_header \<Rightarrow> daemon \<Rightarrow> daemon outcome" where
  "Handle_hurry h s =
     bindE (leads (Memb_active s) s) (\<lambda>leader.
       if leader \<and> Is_token_hold s \<and> in_memb (ph_proc_id h) (Memb_active s) s
       then Prot_token_hurry s else Inr s)"

subsection \<open>Receiving packets\<close>

text \<open>
  The packets behind the first one of a datagram. \<open>received\<close> and \<open>total\<close> count from the end
  of the first header, as in the code. Lengths that never reach the end are the fuel running
  out; a position before the buffer is \<open>Undefined\<close>.
\<close>

fun split_packets :: "nat \<Rightarrow> int \<Rightarrow> int \<Rightarrow> datagram \<Rightarrow> packet list outcome" where
  "split_packets 0 received tot d = Inl (Hang ''Prot_handle_bcast'')"
| "split_packets (Suc fuel) received tot d =
     (if tot < 0 then Inl (Undefined ''Prot_handle_bcast'')
      else
        let t = tot + align_pad tot
        in if \<not> received > t then Inr []
           else
             let p = dg_view d (sizeof_packet_header + t)
             in bindE (split_packets fuel received (t + sizeof_packet_header + ph_data_len (pkt_head p)) d)
                  (\<lambda>ps. Inr (p # ps)))"

definition packets_of :: "int \<Rightarrow> datagram \<Rightarrow> packet list outcome" where
  "packets_of received_bytes d =
     bindE (split_packets (Suc (nat received_bytes)) (received_bytes - sizeof_packet_header)
              (ph_data_len (head_at 0 d)) d)
       (\<lambda>ps. Inr (dg_view d 0 # ps))"

definition set_slot :: "int \<Rightarrow> packet_info \<Rightarrow> 'a prot_st_scheme \<Rightarrow> 'a prot_st_scheme" where
  "set_slot seq p s = s\<lparr>Packets := (Packets s)(pack_entry seq := p)\<rparr>"

definition insert_packet :: "packet \<Rightarrow> daemon \<Rightarrow> daemon outcome" where
  "insert_packet p s =
     (let h = pkt_head p; seq = ph_seq h
      in if seq \<le> Aru s then Inr s
         else if exist seq s \<noteq> 0 then Inr s
         else
           let k = conf_index (ph_proc_id h) s
           in if k < 0 then Inr (set_slot seq ((slot seq s)\<lparr>pk_proc_index := k\<rparr>) s)
              else
                let s1 = set_slot seq \<lparr>pk_head = h, pk_body = pkt_body p, pk_exist = 1, pk_proc_index = k\<rparr> s;
                    s2 = (if Highest_seq s1 < seq then s1\<lparr>Highest_seq := seq\<rparr> else s1)
                in if seq = My_aru s2 + 1
                   then Deliver_agreed_packets
                          (s2\<lparr>My_aru := advance_aru [seq .. Highest_seq s2] (My_aru s2) s2\<rparr>)
                   else Deliver_reliable_packets seq 1 s2)"

subsection \<open>Reloading the configuration\<close>

type_synonym reload_env = "conf_file \<times> string option \<times> resolver"

definition Prot_handle_conf_reload :: "reload_env \<Rightarrow> daemon \<Rightarrow> daemon outcome" where
  "Prot_handle_conf_reload env s =
     (let (f, name, res) = env
      in bindE (Conf_reload_initiate f name res s) (\<lambda>(need_memb_partition, s1).
           let s2 = emit Sess_conf_reload (Net_signal_conf_reload s1);
               s3 = s2\<lparr>My_index := conf_index (my_id s2) s2\<rparr>;
               s4 = (if need_memb_partition then Conf_reload_state_begin (Net_set_partition (\<lambda>i. i) s3) else s3)
           in Inr (arm T_Memb_token_loss (Sp_time 0 0) s4)))"

subsection \<open>A datagram arrives\<close>

text \<open>A regular packet shows the token is alive, and restarts the timers that watch it.\<close>

definition rearm_token_timers :: "daemon \<Rightarrow> daemon outcome" where
  "rearm_token_timers s =
     (if \<not> Token_alive s then Inr s
      else
        let s1 = arm T_Memb_token_loss (Token_timeout (timeo s)) s
        in bindE (leads (Memb_active s1) s1) (\<lambda>leader.
             Inr (if leader then arm T_Prot_token_hurry (Hurry_timeout (timeo s1)) s1 else s1)))"

definition Prot_handle_bcast :: "reload_env \<Rightarrow> int \<Rightarrow> datagram \<Rightarrow> daemon \<Rightarrow> daemon outcome" where
  "Prot_handle_bcast env fd d s =
     bindE (Net_recv fd d s) (\<lambda>(received_bytes, d1, s1).
       if received_bytes \<le> 0 then Inr s1
       else
         let p = dg_view d1 0; t = ph_type (pkt_head p)
         in if Is_status t then Inr s1
            else if Is_fc t then FC_handle_message p s1
            else if Is_conf_reload t then Prot_handle_conf_reload env s1
            else if Is_membership t then Memb_handle_message p s1
            else if Is_hurry t then Handle_hurry (pkt_head p) s1
            else if \<not> Is_regular t then Inr s1
            else if \<not> Memb_is_equal (Membership_id s1) (ph_memb_id (pkt_head p)) then Memb_handle_message p s1
            else bindE (rearm_token_timers s1) (\<lambda>s2.
                 bindE (packets_of received_bytes d1) (\<lambda>ps. for_each insert_packet ps s2)))"

subsection \<open>Answering retransmission requests\<close>

text \<open>
  What \<open>Answer_retrans\<close> keeps while it walks the requests: the datagrams it counts, and the
  addressee of this daemon's own request (\<open>-1\<close>: several daemons, several segments, miss it).
\<close>

record retrans_acc =
  ra_num :: int
  ra_proc_id :: proc_id
  ra_seg_index :: int

definition send_retrans :: "ring_rtr \<Rightarrow> packet \<Rightarrow> daemon \<Rightarrow> int \<times> packet_header \<times> daemon" where
  "send_retrans g p s =
     (if rtr_proc_id g \<noteq> -1 then Net_ucast (rtr_proc_id g) p s
      else if rtr_seg_index g \<noteq> -1 then Net_scast (rtr_seg_index g) p s
      else Net_queue_bcast p s)"

definition answer_one :: "ring_rtr \<Rightarrow> int \<Rightarrow> retrans_acc \<times> daemon \<Rightarrow> (retrans_acc \<times> daemon) outcome" where
  "answer_one g seq as =
     (let (a, s) = as
      in if seq < Aru s then Inl (Alarm_exit ''Answer_retrans'')
         else if exist seq s = 3 then Inl (Undefined ''Answer_retrans'')
         else if exist seq s \<noteq> 0 then
           let (ret, h, s1) = send_retrans g \<lparr>pkt_head = pk_head (slot seq s), pkt_body = pk_body (slot seq s)\<rparr> s
           in Inr (if ret > 0 then a\<lparr>ra_num := ra_num a + 1\<rparr> else a, set_slot_head seq h s1)
         else
           Inr (a\<lparr>ra_proc_id := -1,
                  ra_seg_index := if rtr_seg_index g \<noteq> my_seg s then -1 else ra_seg_index a\<rparr>, s))"

definition answer_ring :: "ring_rtr \<Rightarrow> retrans_acc \<times> daemon \<Rightarrow> (retrans_acc \<times> daemon) outcome" where
  "answer_ring g as =
     (if Memb_is_equal (rtr_memb_id g) (Membership_id (snd as)) then for_each (answer_one g) (rtr_seqs g) as
      else Inr as)"

text \<open>The requests of other rings stay in the token.\<close>

definition Answer_retrans :: "ring_rtr list \<Rightarrow> daemon \<Rightarrow> (ring_rtr list \<times> retrans_acc \<times> daemon) outcome" where
  "Answer_retrans rs s =
     bindE (for_each answer_ring rs (\<lparr>ra_num = 0, ra_proc_id = my_id s, ra_seg_index = my_seg s\<rparr>, s))
       (\<lambda>(a, s1).
         let (ret, s2) = Net_flush_bcast s1
         in Inr (filter (\<lambda>g. \<not> Memb_is_equal (rtr_memb_id g) (Membership_id s)) rs,
                 if ret > 0 then a\<lparr>ra_num := ra_num a + 1\<rparr> else a, s2))"

subsection \<open>Sending new packets\<close>

definition down_q :: "'a prot_st_scheme \<Rightarrow> down_queue" where
  "down_q s = Protocol_down_queue s (Down_queue_ptr s)"

definition set_down_q :: "down_queue \<Rightarrow> 'a prot_st_scheme \<Rightarrow> 'a prot_st_scheme" where
  "set_down_q q s = s\<lparr>Protocol_down_queue := (Protocol_down_queue s)(Down_queue_ptr s := q)\<rparr>"

text \<open>
  The head of the next packet: the element of the first message that \<open>cur_element\<close> points at.
  A message's last packet has minus its number of packets for an index.
\<close>

definition new_head :: "down_link \<Rightarrow> int \<Rightarrow> int \<Rightarrow> daemon \<Rightarrow> packet_header" where
  "new_head l len index s =
     blank_header\<lparr>ph_type := dl_type l, ph_proc_id := my_id s, ph_memb_id := Membership_id s,
       ph_seq := Highest_seq s + 1, ph_fifo_seq := Highest_fifo_seq s + 1, ph_packet_index := index,
       ph_data_len := int16_of len\<rparr>"

definition queue_packet :: "packet_header \<Rightarrow> pkt_body \<Rightarrow> daemon \<Rightarrow> (int \<times> daemon) outcome" where
  "queue_packet h b s =
     (let (ret, h1, s1) = Net_queue_bcast \<lparr>pkt_head = h, pkt_body = b\<rparr> s
      in if exist (ph_seq h) s1 \<noteq> 0 then Inl (Alarm_exit ''Send_new_packets'')
         else Inr (ret, set_slot (ph_seq h)
                     \<lparr>pk_head = h1, pk_body = b, pk_exist = 1, pk_proc_index = My_index s1\<rparr> s1))"

definition send_one :: "down_link \<Rightarrow> down_link list \<Rightarrow> daemon \<Rightarrow> (int \<times> daemon) outcome" where
  "send_one l ls s =
     (let cur = dq_cur_element (down_q s); n = int (length (dl_mess l))
      in if cur < 0 \<or> cur \<ge> n then Inl (Alarm_exit ''Send_new_packets'')
         else
           let (len, b) = dl_mess l ! nat cur;
               h = new_head l len (if cur + 1 < n then cur + 1 else - n) s;
               s1 = s\<lparr>Highest_seq := Highest_seq s + 1, Highest_fifo_seq := Highest_fifo_seq s + 1\<rparr>;
               s2 = (if cur + 1 < n then set_down_q ((down_q s)\<lparr>dq_cur_element := cur + 1\<rparr>) s1
                     else let s' = set_down_q \<lparr>dq_links = ls, dq_cur_element = 0\<rparr> s1
                          in if int (length ls) < WATER_MARK then emit Sess_unblock s' else s')
           in queue_packet h b s2)"

text \<open>
  The loop counts only the calls of \<open>Net_queue_bcast\<close> that sent a datagram, so it ends when
  \<open>num_allowed\<close> datagrams have left or the queue is empty. The fuel is the number of packets
  waiting: one leaves the queue in every round.
\<close>

fun send_loop :: "nat \<Rightarrow> int \<Rightarrow> int \<Rightarrow> daemon \<Rightarrow> (int \<times> daemon) outcome" where
  "send_loop fuel num_allowed num_sent s =
     (if \<not> num_sent < num_allowed then Inr (num_sent, s)
      else case dq_links (down_q s) of
             [] \<Rightarrow> Inr (num_sent, s)
           | l # ls \<Rightarrow>
               (case fuel of
                  0 \<Rightarrow> Inl (Hang ''Send_new_packets'')
                | Suc fuel' \<Rightarrow>
                    bindE (send_one l ls s) (\<lambda>(ret, s1).
                      send_loop fuel' num_allowed (if ret > 0 then num_sent + 1 else num_sent) s1)))"

definition waiting :: "'a prot_st_scheme \<Rightarrow> nat" where
  "waiting s = sum_list (map (\<lambda>l. length (dl_mess l)) (dq_links (down_q s)))"

definition Send_new_packets :: "int \<Rightarrow> daemon \<Rightarrow> (int \<times> daemon) outcome" where
  "Send_new_packets num_allowed s =
     bindE (send_loop (waiting s + length (dq_links (down_q s))) num_allowed 0 s) (\<lambda>(num_sent, s1).
       let (ret, s2) = Net_flush_bcast s1 in Inr (if ret > 0 then num_sent + 1 else num_sent, s2))"

subsection \<open>The token's visit\<close>

text \<open>
  This daemon's own requests: the missing packets among the next \<open>retrans_allowed\<close> sequence
  numbers, as many as the rest of the token body has room for.
\<close>

definition my_requests :: "ring_rtr list \<Rightarrow> retrans_acc \<Rightarrow> daemon \<Rightarrow> ring_rtr list" where
  "my_requests kept a s =
     (let retrans_allowed = (sizeof_token_body - rtr_list_bytes kept - sizeof_ring_rtr) div sizeof_int32
      in if My_aru s < Highest_seq s \<and> retrans_allowed > 1
         then kept @ [\<lparr>rtr_memb_id = Membership_id s, rtr_proc_id = ra_proc_id a,
                       rtr_seg_index = ra_seg_index a,
                       rtr_seqs = filter (\<lambda>i. exist i s = 0)
                         (take (nat retrans_allowed) [My_aru s + 1 .. Highest_seq s])\<rparr>]
         else kept)"

text \<open>Everything of the old ring is here: the daemon is ready to install the new membership.\<close>

definition ready_to_install :: "daemon \<Rightarrow> daemon" where
  "ready_to_install s =
     (if State s = EVS \<and> My_aru s = Highest_seq s then Memb_commit (s\<lparr>My_aru := Last_seq s\<rparr>) else s)"

text \<open>The token's aru, and whether it is this daemon that holds it back (\<open>Set_aru\<close>).\<close>

definition update_aru :: "token_header \<Rightarrow> daemon \<Rightarrow> token_header \<times> daemon" where
  "update_aru h s =
     (if tk_aru h = Set_aru s \<or> tk_aru_last_id h = my_id s \<or> tk_aru h = tk_seq h
      then (h\<lparr>tk_aru := My_aru s, tk_aru_last_id := my_id s\<rparr>,
            s\<lparr>Set_aru := if My_aru s < Highest_seq s then My_aru s else -1\<rparr>)
      else if tk_aru h > My_aru s
      then (h\<lparr>tk_aru := My_aru s, tk_aru_last_id := my_id s\<rparr>, s\<lparr>Set_aru := My_aru s\<rparr>)
      else (h, s\<lparr>Set_aru := -1\<rparr>))"

definition next_arq :: "32 word \<Rightarrow> 32 word" where
  "next_arq t = Set_retrans (Set_arq t ((Get_arq t + 1) mod 16)) 0"

text \<open>The token as it leaves, and the daemon that sends it: all up to \<open>/* Send token */\<close>.\<close>

definition work_on_token ::
  "bool \<Rightarrow> token_header \<Rightarrow> ring_rtr list \<Rightarrow> daemon \<Rightarrow> (int \<times> token \<times> daemon) outcome" where
  "work_on_token leader h rs s =
     (let s1 = (if Highest_seq s < tk_seq h then s\<lparr>Highest_seq := tk_seq h\<rparr> else s)
      in bindE (Answer_retrans rs s1) (\<lambda>(kept, a, s2).
         bindE (Send_new_packets (FC_allowed (tk_flow_control h) (ra_num a) s2) s2) (\<lambda>(num_sent, s3).
           let fc = int16_of (tk_flow_control h - Last_num_retrans s3 - Last_num_sent s3 + ra_num a + num_sent);
               s4 = s3\<lparr>Last_num_retrans := ra_num a, Last_num_sent := num_sent,
                       My_aru := advance_aru [My_aru s3 + 1 .. Highest_seq s3] (My_aru s3) s3\<rparr>;
               body = my_requests kept a s4;
               s5 = ready_to_install s4;
               (h1, s6) = update_aru (h\<lparr>tk_flow_control := fc, tk_rtr_len := int16_of (rtr_list_bytes body)\<rparr>) s5;
               h2 = h1\<lparr>tk_proc_id := my_id s6, tk_seq := if State s6 \<noteq> EVS then Highest_seq s6 else tk_seq h1,
                       tk_type := if leader then next_arq (tk_type h1) else tk_type h1\<rparr>
           in Inr (num_sent, \<lparr>tok_head = h2, tok_body = Rtr_body body\<rparr>, s6))))"

definition forward_token :: "bool \<Rightarrow> token \<Rightarrow> daemon \<Rightarrow> (token \<times> daemon) outcome" where
  "forward_token leader t s =
     (if leader \<and> To_hold_token s then Inr (t, s)
      else bindE (Net_send_token t s) (\<lambda>(_, t1, s1).
             if Get_retrans (tk_type (tok_head t1)) > 1 then send_tokens 2 t1 s1 else Inr (t1, s1)))"

text \<open>After sending: timers, \<open>Aru\<close>, and the packets that are now due.\<close>

definition account_token :: "bool \<Rightarrow> token_header \<Rightarrow> daemon \<Rightarrow> daemon" where
  "account_token leader h s =
     (let s1 = s\<lparr>Token_rounds := Token_rounds s + 1\<rparr>;
          s2 = (if leader then arm T_Prot_token_hurry (Hurry_timeout (timeo s1)) s1 else s1);
          s3 = arm T_Memb_token_loss (Token_timeout (timeo s2)) s2;
          s4 = s3\<lparr>Aru := if tk_aru h > tk_aru (Last_token s3) then tk_aru (Last_token s3) else tk_aru h\<rparr>
      in s4\<lparr>Token_counter := if Highest_seq s4 = Aru s4 then Token_counter s4 + 1 else 0, Last_token := h\<rparr>)"

definition deliver_due :: "int \<Rightarrow> daemon \<Rightarrow> daemon outcome" where
  "deliver_due num_sent s =
     bindE (Discard_packets s) (\<lambda>s1.
     bindE (Deliver_agreed_packets s1) (\<lambda>s2.
     bindE (Deliver_reliable_packets (Highest_seq s2 - num_sent + 1) num_sent s2) (\<lambda>s3.
       if State s3 = EVS \<and> Token_rounds s3 > MAX_EVS_ROUNDS then Memb_token_loss s3 else Inr s3)))"

definition process_token :: "bool \<Rightarrow> token_header \<Rightarrow> ring_rtr list \<Rightarrow> daemon \<Rightarrow> daemon outcome" where
  "process_token leader h rs s =
     bindE (work_on_token leader h rs s) (\<lambda>(num_sent, t, s1).
     bindE (forward_token leader t s1) (\<lambda>(t1, s2).
       deliver_due num_sent (account_token leader (tok_head t1) s2)))"

text \<open>Requests as the code finds them in the token body; there are none when \<open>rtr_len\<close> is not positive.\<close>

definition requests_in :: "token \<Rightarrow> ring_rtr list outcome" where
  "requests_in t =
     (if tk_rtr_len (tok_head t) \<le> 0 then Inr []
      else case tok_body t of
             Rtr_body rs \<Rightarrow>
               let rs' = (if Same_endian (tk_type (tok_head t)) then rs else Flip_token_body rs)
               in if rtr_list_bytes rs' = tk_rtr_len (tok_head t) then Inr rs'
                  else Inl (Undefined ''Prot_handle_token'')
           | _ \<Rightarrow> Inl (Undefined ''Prot_handle_token''))"

text \<open>Duplicates and stale tokens, told by the sequence number in \<open>type\<close>.\<close>

definition accept_token :: "bool \<Rightarrow> token_header \<Rightarrow> ring_rtr list \<Rightarrow> daemon \<Rightarrow> daemon outcome" where
  "accept_token leader h rs s =
     (let arq = Get_arq (tk_type h); last_arq = Get_arq (tk_type (Last_token s)); lt = Last_token s
      in if leader then (if arq \<noteq> last_arq then Inr s else process_token leader h rs s)
         else if arq = last_arq then
           if Get_retrans (tk_type h) > Get_retrans (tk_type lt)
           then Prot_token_hurry (s\<lparr>Last_token := lt\<lparr>tk_type := Set_retrans (tk_type lt) (Get_retrans (tk_type h))\<rparr>\<rparr>)
           else Inr s
         else if arq \<noteq> (last_arq + 1) mod 16 then Inr s
         else process_token leader h rs s)"

definition Prot_handle_token :: "int \<Rightarrow> int \<Rightarrow> token \<Rightarrow> daemon \<Rightarrow> daemon outcome" where
  "Prot_handle_token fd received buf s =
     bindE (Net_recv_token fd received buf s) (\<lambda>(ret, t).
       if ret = 0 then Inr s
       else if Is_form (tk_type (tok_head t)) then Memb_handle_token t s
       else if \<not> Token_alive s then Inr s
       else if ret \<noteq> sizeof_token_header + tk_rtr_len (tok_head t) then Inr s
       else bindE (requests_in t) (\<lambda>rs.
            bindE (leads (Memb_active s) s) (\<lambda>leader. accept_token leader (tok_head t) rs s)))"

subsection \<open>New messages, initialisation\<close>

definition NORMAL_DOWNQUEUE :: int where "NORMAL_DOWNQUEUE = 0"
definition GROUPS_DOWNQUEUE :: int where "GROUPS_DOWNQUEUE = 1"

definition Prot_init_down_queues :: "daemon \<Rightarrow> daemon" where
  "Prot_init_down_queues s =
     s\<lparr>Protocol_down_queue := (Protocol_down_queue s)
        (nat NORMAL_DOWNQUEUE := \<lparr>dq_links = [], dq_cur_element = 0\<rparr>,
         nat GROUPS_DOWNQUEUE := \<lparr>dq_links = [], dq_cur_element = 0\<rparr>)\<rparr>"

definition Prot_set_down_queue :: "int \<Rightarrow> daemon \<Rightarrow> daemon outcome" where
  "Prot_set_down_queue queue_type s =
     (if queue_type = NORMAL_DOWNQUEUE then Inr (s\<lparr>Down_queue_ptr := nat NORMAL_DOWNQUEUE\<rparr>)
      else if queue_type = GROUPS_DOWNQUEUE then Inr (s\<lparr>Down_queue_ptr := nat GROUPS_DOWNQUEUE\<rparr>)
      else Inl (Alarm_exit ''Prot_set_down_queue''))"

definition Prot_Create_Down_Link :: "32 word \<Rightarrow> down_link option" where
  "Prot_Create_Down_Link t = (if t = -1 then None else Some \<lparr>dl_type = t, dl_mess = []\<rparr>)"

text \<open>The leader holding an idle token hurries it; another daemon asks the leader to.\<close>

definition Prot_new_message :: "down_link \<Rightarrow> daemon \<Rightarrow> daemon outcome" where
  "Prot_new_message l s =
     (let s1 = set_down_q ((down_q s)\<lparr>dq_links := dq_links (down_q s) @ [l]\<rparr>) s;
          num_mess = int (length (dq_links (down_q s1)));
          s2 = (if num_mess \<ge> WATER_MARK then emit Sess_block s1 else s1)
      in if num_mess = 1 \<and> Is_token_hold s2
         then bindE (Conf_leader (Config_procs s2) (Memb_active s2)) (\<lambda>leader_id.
                if leader_id = my_id s2 then Handle_hurry (Hurry_head s2) s2
                else let (_, h, s3) = Net_ucast leader_id \<lparr>pkt_head = Hurry_head s2, pkt_body = Empty\<rparr> s2
                     in Inr (s3\<lparr>Hurry_head := h\<rparr>))
         else Inr s2)"

definition Prot_init :: "(nat \<Rightarrow> int) \<Rightarrow> daemon \<Rightarrow> daemon outcome" where
  "Prot_init chan s =
     (let s1 = s\<lparr>My_index := conf_index (my_id s) s,
                 packets_delivered := [],
                 Up_queue := (\<lambda>k. if k < nat MAX_PROCS_RING + 1 then (Up_queue s k)\<lparr>uq_exist := False\<rparr> else Up_queue s k),
                 Packets := (\<lambda>e. if e < nat MAX_PACKETS_IN_STRUCT then (Packets s e)\<lparr>pk_exist := 0\<rparr> else Packets s e),
                 Highest_seq := 0, Highest_fifo_seq := 0, My_aru := 0, Aru := 0, Set_aru := -1,
                 Last_discarded := 0, Last_delivered := 0,
                 Last_token := (Last_token s)\<lparr>tk_type := 0, tk_seq := 0, tk_aru := 0, tk_flow_control := 0,
                                              tk_conf_hash := 0\<rparr>,
                 Hurry_head := (Hurry_head s)\<lparr>ph_proc_id := my_id s, ph_type := HURRY_TYPE\<rparr>\<rparr>
      in bindE (Memb_init (FC_init (Net_init chan s1))) (\<lambda>s2. Net_set_membership (Reg_membership s2) s2))"

subsection \<open>The membership invariant across the protocol\<close>

lemma send_tokens_core: "same_core s t \<Longrightarrow> lands (send_tokens n tok t) (\<lambda>(_, u). same_core s u)"
  by (induction n arbitrary: tok t) (auto intro!: lands_send_token [where s = s])

lemma same_core_inv: "memb_inv_but x s \<Longrightarrow> same_core s t \<Longrightarrow> memb_inv_but x t"
  using memb_inv_same_core by blast

lemma Prot_token_hurry_inv:
  assumes "memb_inv s" and "Token_alive s"
  shows "lands (Prot_token_hurry s) memb_inv"
proof -
  define s1 where "s1 = (\<lambda>b. if b then arm T_Prot_token_hurry (Hurry_timeout (timeo s)) s else s)"
  have i: "memb_inv (s1 b)" for b
    using assms by (simp add: s1_def memb_inv_arm_other state_timer_def)
  have k: "memb_inv (u\<lparr>Last_token := h\<rparr>)" if "same_core (s1 b) u" for u h b
    by (rule same_core_inv [OF i [of b]]) (simp add: that)
  have r: "lands (bindE (send_tokens n tok (s1 b)) (\<lambda>(t, s2). Inr (s2\<lparr>Last_token := tok_head t\<rparr>))) memb_inv"
    for n tok b
    by (intro lands_seq [OF send_tokens_core [of "s1 b"]]) (auto intro!: k [of b])
  show ?thesis
    unfolding Prot_token_hurry_def Let_def by (rule lands_any, rule lands_any, rule r [unfolded s1_def])
qed

lemma Is_token_hold_alive: "memb_inv s \<Longrightarrow> Is_token_hold s \<Longrightarrow> Token_alive s"
  by (auto simp: Is_token_hold_def memb_inv_but_def token_inv_def)

lemma Handle_hurry_inv: "memb_inv s \<Longrightarrow> lands (Handle_hurry h s) memb_inv"
  by (auto simp: Handle_hurry_def lands_if intro!: lands_any Prot_token_hurry_inv Is_token_hold_alive)

lemma set_slot_core [simp]: "same_core s (set_slot i p t) = same_core s t"
  by (simp add: set_slot_def)

lemma insert_packet_core: "same_core s t \<Longrightarrow> lands (insert_packet p t) (same_core s)"
  by (auto simp: insert_packet_def Let_def lands_if intro!: Deliver_agreed_core Deliver_reliable_core)

lemma memb_inv_arm_hurry: "memb_inv s \<Longrightarrow> Token_alive s \<Longrightarrow> memb_inv (arm T_Prot_token_hurry t s)"
  by (simp add: memb_inv_arm_other state_timer_def)

lemma rearm_token_timers_inv: "memb_inv s \<Longrightarrow> lands (rearm_token_timers s) memb_inv"
  by (auto simp: rearm_token_timers_def Let_def lands_if memb_inv_arm_loss memb_inv_arm_hurry intro!: lands_any)

lemma forward_routed_core: "same_core s t \<Longrightarrow> same_core s (snd (forward_routed d t))"
  by (auto simp: forward_routed_def Let_def split_beta intro: net_frame_same [OF net_frame_DL_send])

lemma monitor_partition_inv: "memb_inv s \<Longrightarrow> lands (monitor_partition p s) memb_inv"
proof -
  assume i: "memb_inv s"
  have "memb_inv (arm T_Clear_partition_cb t (Net_set_partition f s))" for t f
    by (rule memb_inv_arm_other, rule same_core_inv [OF i])
      (simp_all add: Net_set_partition_def same_core_def state_timer_def)
  then show ?thesis
    by (simp add: monitor_partition_def Let_def lands_if arm_def [symmetric] split: pkt_body.split)
qed

lemma Net_recv_inv:
  assumes "memb_inv s"
  shows "lands (Net_recv fd d s) (\<lambda>(_, _, s'). memb_inv s')"
proof -
  have "memb_inv (snd (forward_routed d' s))" for d'
    using same_core_inv [OF assms forward_routed_core] by simp
  then show ?thesis
    using assms
    by (auto simp: Net_recv_def Let_def split_beta lands_if
        intro!: lands_seq [OF monitor_partition_inv] lands_any [where r = "recv_loop a b c d e" for a b c d e])
qed


lemma answer_one_core: "same_core s (snd as) \<Longrightarrow> lands (answer_one g i as) (\<lambda>bs. same_core s (snd bs))"
  unfolding answer_one_def send_retrans_def Let_def split_beta
  by (auto simp: lands_if set_slot_head_def intro: net_frame_same [OF net_frame_ucast]
      net_frame_same [OF net_frame_scast] net_frame_same [OF net_frame_queue_bcast])

lemma answer_ring_core: "same_core s (snd as) \<Longrightarrow> lands (answer_ring g as) (\<lambda>bs. same_core s (snd bs))"
  by (auto simp: answer_ring_def lands_if intro!: lands_for_each answer_one_core)

lemma Answer_retrans_core: "same_core s t \<Longrightarrow> lands (Answer_retrans rs t) (\<lambda>(_, _, u). same_core s u)"
  unfolding Answer_retrans_def
  by (rule lands_seq [where P = "\<lambda>bs. same_core s (snd bs)"])
    (auto simp: Let_def split_beta intro!: lands_for_each answer_ring_core net_frame_same [OF net_frame_flush])

lemma send_one_core: "same_core s t \<Longrightarrow> lands (send_one l ls t) (\<lambda>(_, u). same_core s u)"
proof -
  assume st: "same_core s t"
  have "lands (queue_packet h b u) (\<lambda>(_, u'). same_core s u')" if "same_core s u" for h b u
    using net_frame_same [OF net_frame_queue_bcast that] by (simp add: queue_packet_def Let_def split_beta lands_if)
  then show ?thesis using st by (simp add: send_one_def Let_def split_beta lands_if set_down_q_def)
qed

lemma send_loop_core: "same_core s t \<Longrightarrow> lands (send_loop f a n t) (\<lambda>(_, u). same_core s u)"
proof (induction f arbitrary: n t)
  case (Suc f)
  then show ?case
    by (subst send_loop.simps) (auto simp: lands_if split: list.split intro!: lands_seq [OF send_one_core [of s]])
qed (simp split: list.split)

lemma Send_new_packets_core: "same_core s t \<Longrightarrow> lands (Send_new_packets a t) (\<lambda>(_, u). same_core s u)"
  unfolding Send_new_packets_def
  by (rule lands_seq [OF send_loop_core [of s]])
    (auto simp: Let_def split_beta intro!: net_frame_same [OF net_frame_flush])

lemma update_aru_core: "same_core s t \<Longrightarrow> same_core s (snd (update_aru h t))"
  by (simp add: update_aru_def)

lemma ready_core: "same_core s t \<Longrightarrow> same_core s (ready_to_install t)"
  by (simp add: ready_to_install_def)

lemma work_on_token_core: "same_core s t \<Longrightarrow> lands (work_on_token b h rs t) (\<lambda>(_, _, u). same_core s u)"
  unfolding work_on_token_def Let_def
  by (rule lands_seq [OF Answer_retrans_core [of s]]) (auto simp: Let_def split_beta update_aru_core ready_core
      intro!: lands_seq [OF Send_new_packets_core [of s]])

lemma forward_token_core: "same_core s t \<Longrightarrow> lands (forward_token b tok t) (\<lambda>(_, u). same_core s u)"
  by (auto simp del: send_tokens.simps simp: forward_token_def lands_if send_tokens_core
      intro!: lands_send_token [where s = s])

lemma account_token_inv:
  assumes "memb_inv s" and "Token_alive s"
  shows "memb_inv (account_token b h s)"
proof -
  have *: "memb_inv (u\<lparr>Aru := a, Token_counter := c, Last_token := k\<rparr>)" if "memb_inv u" for u a c k
    by (rule same_core_inv [OF that]) simp
  have "memb_inv (s\<lparr>Token_rounds := n\<rparr>)" for n by (rule same_core_inv [OF assms(1)]) simp
  then show ?thesis
    using assms(2) by (auto simp: account_token_def Let_def memb_inv_arm_loss memb_inv_arm_hurry intro!: *)
qed

lemma deliver_due_inv: "memb_inv s \<Longrightarrow> lands (deliver_due n s) memb_inv"
  unfolding deliver_due_def
proof (rule lands_seq [OF Discard_packets_inv], assumption)
  fix s1 assume i: "memb_inv s1"
  show "lands (bindE (Deliver_agreed_packets s1) (\<lambda>s2.
      bindE (Deliver_reliable_packets (Highest_seq s2 - n + 1) n s2) (\<lambda>s3.
        if State s3 = EVS \<and> Token_rounds s3 > MAX_EVS_ROUNDS then Memb_token_loss s3 else Inr s3))) memb_inv"
    by (intro lands_seq [OF Deliver_agreed_core [of s1]] lands_seq [OF Deliver_reliable_core [of s1]])
      (auto simp: lands_if intro!: Memb_token_loss_inv [of None] intro: same_core_inv [OF i])
qed

lemma process_token_inv:
  assumes "memb_inv s" and "Token_alive s"
  shows "lands (process_token b h rs s) memb_inv"
proof -
  have "memb_inv (account_token b k u)" if "same_core s u" for k u
    using that assms by (intro account_token_inv same_core_inv [OF assms(1)]) (simp_all add: same_core_def)
  then show ?thesis
    unfolding process_token_def
    by (intro lands_seq [OF work_on_token_core [of s]])
      (auto intro!: lands_seq [OF forward_token_core [of s]] deliver_due_inv)
qed

lemma Prot_handle_token_inv:
  assumes "memb_inv s"
  shows "lands (Prot_handle_token fd r buf s) memb_inv"
proof -
  have "memb_inv (s\<lparr>Last_token := lt\<rparr>)" for lt by (rule same_core_inv [OF assms]) simp
  then have "lands (accept_token b h rs s) memb_inv" if "Token_alive s" for b h rs
    using assms that by (auto simp: accept_token_def Let_def lands_if intro!: process_token_inv Prot_token_hurry_inv)
  then show ?thesis
    using assms by (auto simp: Prot_handle_token_def lands_if Memb_handle_token_inv intro!: lands_any)
qed

text \<open>\<open>no_reload\<close>: the datagram does not ask for a reload of the configuration.\<close>

definition no_reload :: "datagram \<Rightarrow> bool" where
  "no_reload d \<longleftrightarrow> \<not> Is_conf_reload (ph_type (to_my_form (head_at 0 d)))"

lemma recv_loop_first: "lands (recv_loop f same r n d) (\<lambda>x. dg_view (snd x) 0 = dg_view d 0)"
proof (induction f arbitrary: same n d)
  case (Suc f)
  have "0 \<noteq> n" if "\<not> n < sizeof_packet_header" using that by (auto simp: sizeof_packet_header_def)
  then have *: "dg_view (put_head n h d) 0 = dg_view d 0" if "\<not> n < sizeof_packet_header" for h
    using that by (simp add: put_head_def)
  have **: "lands (recv_loop f same r m (put_head n h d)) (\<lambda>x. dg_view (snd x) 0 = dg_view d 0)"
    if "\<not> n < sizeof_packet_header" for same m h
    using Suc.IH [of same m "put_head n h d"] * [OF that] by simp
  show ?case by (subst recv_loop.simps) (auto simp: Let_def lands_if intro!: **)
qed (simp add: recv_loop.simps)

lemma reload_unrouted [simp]: "Is_conf_reload (ph_type (head_unrouted h)) = Is_conf_reload (ph_type h)"
  by (simp add: head_unrouted_def Clear_routed_def Is_conf_reload_def RELOAD_TYPE_def ROUTED_TYPE_def and.assoc)

lemma head_at_put_0 [simp]: "head_at 0 (put_head 0 h d) = h"
  by (simp add: head_at_def put_head_def)

lemma to_my_form_twice: "ph_type (to_my_form (to_my_form h)) = ph_type h"
  by (simp add: to_my_form_def Flip_pack_def Flip_int32_flip)

lemma reload_forward: "Is_conf_reload (ph_type (head_at 0 (fst (forward_routed d s)))) = Is_conf_reload (ph_type (head_at 0 d))"
  by (simp add: forward_routed_def Let_def split_beta to_my_form_twice)

definition plain :: "datagram \<Rightarrow> bool" where
  "plain d \<longleftrightarrow> \<not> Is_conf_reload (ph_type (head_at 0 d))"

lemma Net_recv_reload:
  assumes "no_reload d"
  shows "lands (Net_recv fd d s) (\<lambda>(r, d', _). r > 0 \<longrightarrow> plain d')"
proof -
  have loop: "lands (recv_loop f same n m d3) (\<lambda>x. plain (snd x))" if "plain d3" for f same n m d3
    using that by (intro lands_mono [OF recv_loop_first]) (simp add: plain_def head_at_def)
  show ?thesis
    unfolding Net_recv_def Let_def split_beta using assms
    by (auto simp: lands_if plain_def [of "put_head 0 h d" for h d] reload_forward no_reload_def
        intro!: lands_any [where r = "monitor_partition p s" for p] lands_seq [OF loop])
qed

lemma Prot_handle_bcast_inv:
  assumes "memb_inv s" and "no_reload d"
  shows "lands (Prot_handle_bcast env fd d s) memb_inv"
proof -
  have main: "lands (if r \<le> 0 then Inr s1 else
      let p = dg_view d1 0; t = ph_type (pkt_head p)
      in if Is_status t then Inr s1
         else if Is_fc t then FC_handle_message p s1
         else if Is_conf_reload t then Prot_handle_conf_reload env s1
         else if Is_membership t then Memb_handle_message p s1
         else if Is_hurry t then Handle_hurry (pkt_head p) s1
         else if \<not> Is_regular t then Inr s1
         else if \<not> Memb_is_equal (Membership_id s1) (ph_memb_id (pkt_head p)) then Memb_handle_message p s1
         else bindE (rearm_token_timers s1) (\<lambda>s2.
              bindE (packets_of r d1) (\<lambda>ps. for_each insert_packet ps s2))) memb_inv"
    if "memb_inv s1" "r > 0 \<longrightarrow> plain d1" for r d1 s1
  proof -
    have fc: "lands (FC_handle_message p s1) memb_inv" for p
    proof (rule memb_inv_frame [OF that(1)])
      show "lands (FC_handle_message p s1) (same_core s1)"
        by (auto simp: FC_handle_message_def Let_def lands_if same_core_def split: pkt_body.split)
    qed
    have "lands (for_each insert_packet ps s2) memb_inv" if "memb_inv s2" for ps s2
      by (rule lands_mono [OF lands_for_each [where I = "same_core s2"]])
        (auto intro: insert_packet_core same_core_inv [OF that])
    then show ?thesis
      using that by (auto simp: Let_def lands_if fc Memb_handle_message_inv Handle_hurry_inv plain_def head_at_def
          intro!: lands_seq [OF rearm_token_timers_inv] lands_any [where r = "packets_of r d1"])
  qed
  show ?thesis
    unfolding Prot_handle_bcast_def
    by (rule lands_seq [OF lands_conj [OF Net_recv_inv [OF assms(1)] Net_recv_reload [OF assms(2)]]])
      (use main in auto)
qed

lemma Prot_new_message_inv:
  assumes "memb_inv s"
  shows "lands (Prot_new_message l s) memb_inv"
proof -
  define s2 where "s2 = (let s1 = set_down_q ((down_q s)\<lparr>dq_links := dq_links (down_q s) @ [l]\<rparr>) s
    in if int (length (dq_links (down_q s1))) \<ge> WATER_MARK then emit Sess_block s1 else s1)"
  have c: "same_core s s2" by (simp add: s2_def Let_def set_down_q_def)
  have i: "memb_inv s2" by (rule same_core_inv [OF assms c])
  have h: "memb_inv (u\<lparr>Hurry_head := h\<rparr>)" if "same_core s2 u" for u h
    by (rule same_core_inv [OF i]) (simp add: that)
  show ?thesis
    unfolding Prot_new_message_def Let_def s2_def [unfolded Let_def, symmetric] using i
    by (auto simp: lands_if split_beta intro!: lands_any Handle_hurry_inv h net_frame_core [OF net_frame_ucast])
qed

lemma Prot_init_inv:
  assumes "Time_queue s = []"
  shows "lands (Prot_init chan s) memb_inv"
proof -
  have "Time_queue (FC_init (Net_init chan u)) = Time_queue u" for u :: daemon
    by (simp add: FC_init_def Net_init_def Let_def Net_clear_partition_def split_beta)
  moreover have "lands (Net_set_membership c u) memb_inv" if "memb_inv u" for c u
    by (rule memb_inv_frame [OF that]) (rule Net_set_membership_core, simp)
  ultimately show ?thesis
    unfolding Prot_init_def Let_def by (intro lands_seq [OF Memb_init_inv]) (simp_all add: assms)
qed

end
