(* ===== verification/Startup.thy ===== *)
theory Startup
  imports Protocol
begin

section \<open>Starting the daemon\<close>

text \<open>
  What \<open>Prot_init\<close> leaves behind on a configuration whose processes know their place: the
  daemon is alone in its ring, looks for others in its own segment first, and knows a
  representative of every other segment.
\<close>

subsection \<open>Definitions\<close>

text \<open>No segment is empty, and a process's segment is the one that lists it.\<close>

definition placed :: "proc list \<Rightarrow> configuration \<Rightarrow> bool" where
  "placed procs c \<longleftrightarrow> wf_conf procs c
     \<and> (\<forall>j < length (segments c). seg_procs (segments c ! j) \<noteq> []
          \<and> (\<forall>k \<in> set (seg_procs (segments c ! j)). p_seg_index (procs ! k) = int j))"

definition at_home :: "daemon \<Rightarrow> bool" where
  "at_home s \<longleftrightarrow> placed (Config_procs s) (Config s)
     \<and> 0 \<le> my_seg s \<and> nat (my_seg s) < length (segments (Config s))
     \<and> (\<exists>m \<in> set (seg_procs (segments (Config s) ! nat (my_seg s))). My s = Config_procs s ! m)"

text \<open>This daemon in a ring of its own.\<close>

definition alone :: "configuration \<Rightarrow> daemon \<Rightarrow> bool" where
  "alone c s \<longleftrightarrow> length (segments c) = length (segments (Config s))
     \<and> (\<forall>j < length (segments c). (seg_procs (segments c ! j) = []) = (int j \<noteq> my_seg s))
     \<and> Conf_id_in_seg (Config_procs s) (segments c ! nat (my_seg s)) (my_id s) = 0
     \<and> conf_ids (Config_procs s) c = [my_id s]"

lemma first_differs_returns:
  "(\<forall>g \<in> set gs. seg_procs g \<noteq> []) \<Longrightarrow> returns (first_differs procs x gs) (\<lambda>_. True)"
  by (induction gs) (auto simp: returns_if split: list.splits)

lemma is_wide_returns:
  assumes "at_home s"
  shows "returns (is_wide s) (\<lambda>_. True)"
proof -
  have "\<forall>g \<in> set (segments (Config s)). seg_procs g \<noteq> []"
    using assms by (auto simp: at_home_def placed_def in_set_conv_nth)
  moreover have "segments (Config s) \<noteq> []" using assms by (auto simp: at_home_def)
  ultimately show ?thesis
    by (cases "segments (Config s)") (auto simp: is_wide_def first_differs_returns split: list.split)
qed

lemma only_entry:
  assumes "k < length gs" and "\<forall>j < length gs. j \<noteq> k \<longrightarrow> f (gs ! j) = []"
  shows "concat (map f gs) = f (gs ! k)"
proof -
  have "gs = take k gs @ gs ! k # drop (Suc k) gs" using assms(1) by (rule id_take_nth_drop)
  moreover have "concat (map f (take k gs)) = []" "concat (map f (drop (Suc k) gs)) = []"
    using assms by (auto simp: in_set_conv_nth)
  ultimately show ?thesis by (metis append_Nil2 append_self_conv2 concat.simps(2) concat_append list.simps(9) map_append)
qed

lemma alone_in_alone:
  assumes "at_home s" and "length (segments c) = length (segments (Config s))"
  shows "alone (alone_in c s) s"
proof -
  obtain m where m: "m \<in> set (seg_procs (segments (Config s) ! nat (my_seg s)))" "My s = Config_procs s ! m"
    using assms by (auto simp: at_home_def)
  have wf: "wf_procs (Config_procs s)" "m < length (Config_procs s)"
    and k: "0 \<le> my_seg s" "nat (my_seg s) < length (segments (Config s))"
    using assms m by (auto simp: at_home_def placed_def wf_conf_def)
  have self: "Conf_proc_by_id (Config_procs s) (my_id s) = Some (int m, Config_procs s ! m)"
    using Conf_proc_by_id_self [OF wf] m(2) by (simp add: my_id_def)
  have ip: "has_ip (my_id s) (Config_procs s ! m)"
    using wf m(2) by (simp add: wf_procs_def my_id_def)
  define c' where "c' = alone_in c s"
  define k where "k = nat (my_seg s)"
  have segs: "length (segments c') = length (segments c)" "seg_procs (segments c' ! k) = [m]"
    "j < length (segments c) \<Longrightarrow> j \<noteq> k \<Longrightarrow> seg_procs (segments c' ! j) = []" for j
    using k assms(2) self
    by (simp_all add: c'_def alone_in_def Let_def empty_conf_def Conf_append_id_to_seg_def k_def)
  have "concat (map seg_procs (segments c')) = [m]"
    using only_entry [of k "segments c'" seg_procs] segs k assms(2) by (simp add: k_def)
  then have "conf_ids (Config_procs s) c' = [my_id s]"
    using m(2) by (simp add: conf_ids_map my_id_def)
  moreover have "int j = my_seg s \<longleftrightarrow> j = k" for j using k by (auto simp: k_def)
  ultimately show ?thesis
    unfolding alone_def c'_def [symmetric] k_def [symmetric]
    using segs assms(2) ip by (auto simp: Conf_id_in_seg_def split: if_splits)
qed

subsection \<open>Representatives of the other segments\<close>

lemma Insert_rep_count: "Insert_rep procs r rep = Inr (ret, r') \<Longrightarrow> ri_num_reps r' \<le> ri_num_reps r + 1"
  by (auto simp: Insert_rep_def Let_def split: option.splits if_splits prod.splits)

definition rep_segs :: "reps_info \<Rightarrow> int set" where
  "rep_segs r = rep_seg_index ` set (reps_of r)"

lemma Insert_rep_room:
  assumes "reps_inv procs r" and "rep_ok procs rep" and "ri_num_reps r < MAX_REPS"
  shows "returns (Insert_rep procs r rep) (\<lambda>(ret, r'). reps_inv procs r'
    \<and> rep_segs r' = insert (rep_seg_index rep) (rep_segs r) \<and> ri_num_reps r' \<le> ri_num_reps r + 1)"
  using Insert_rep_inv [OF assms(1,2)] assms(3) Insert_rep_count [of procs r rep]
  by (fastforce simp: returns_iff rep_segs_def)

lemma candidate_ok:
  assumes "placed (Config_procs s) (Config s)" and "0 \<le> i" and "nat i < length (segments (Config s))"
    and "seg_procs (segments memb ! nat i) = []"
  shows "returns (candidate memb s i) (\<lambda>c. \<forall>t. t = POTENTIAL_REP \<longrightarrow>
    rep_ok (Config_procs s) \<lparr>rep_proc_id = c, rep_type = t, rep_seg_index = i\<rparr>)"
proof -
  obtain k ks where k: "seg_procs (segments (Config s) ! nat i) = k # ks"
    using assms by (auto simp: placed_def neq_Nil_conv)
  have "k \<in> set (seg_procs (segments (Config s) ! nat i))" by (simp add: k)
  then have "k < length (Config_procs s)" "p_seg_index (Config_procs s ! k) = i" "wf_procs (Config_procs s)"
    using assms(1-3) by (auto simp: placed_def wf_conf_def)
  then show ?thesis
    using assms(4) k Conf_proc_by_id_self by (simp add: candidate_def Conf_seg_leader_def rep_ok_def)
qed

lemma candidates_added:
  assumes "placed (Config_procs s) (Config s)"
    and "\<forall>i \<in> set is. 0 \<le> i \<and> nat i < length (segments (Config s)) \<and> seg_procs (segments memb ! nat i) = []"
    and "reps_inv (Config_procs s) r" and "ri_num_reps r + int (length is) \<le> MAX_REPS"
  shows "returns (for_each (\<lambda>i r. bindE (candidate memb s i) (\<lambda>c.
      bindE (Insert_rep (Config_procs s) r \<lparr>rep_proc_id = c, rep_type = POTENTIAL_REP, rep_seg_index = i\<rparr>)
        (\<lambda>(_, r'). Inr r'))) is r)
    (\<lambda>r'. reps_inv (Config_procs s) r' \<and> rep_segs r' = rep_segs r \<union> set is)"
  using assms(2-4)
proof (induction "is" arbitrary: r)
  case (Cons i "is")
  obtain c where c: "candidate memb s i = Inr c"
    "rep_ok (Config_procs s) \<lparr>rep_proc_id = c, rep_type = POTENTIAL_REP, rep_seg_index = i\<rparr>"
    using candidate_ok [OF assms(1), of i memb] Cons.prems(1) by (auto simp: returns_iff)
  obtain ret r' where r': "Insert_rep (Config_procs s) r
      \<lparr>rep_proc_id = c, rep_type = POTENTIAL_REP, rep_seg_index = i\<rparr> = Inr (ret, r')"
    "reps_inv (Config_procs s) r'" "rep_segs r' = insert i (rep_segs r)" "ri_num_reps r' \<le> ri_num_reps r + 1"
    using Insert_rep_room [OF Cons.prems(2) c(2)] Cons.prems(3) by (auto simp: returns_iff)
  have "returns (for_each (\<lambda>i r. bindE (candidate memb s i) (\<lambda>c.
      bindE (Insert_rep (Config_procs s) r \<lparr>rep_proc_id = c, rep_type = POTENTIAL_REP, rep_seg_index = i\<rparr>)
        (\<lambda>(_, r'). Inr r'))) is r')
    (\<lambda>r''. reps_inv (Config_procs s) r'' \<and> rep_segs r'' = rep_segs r' \<union> set is)"
    using Cons.prems r'(2,4) by (intro Cons.IH) auto
  then show ?case by (simp add: c r')
qed simp

lemma add_candidates_alone:
  assumes "at_home s" and "alone memb s" and "reps_inv (Config_procs s) (no_reps r)"
    and "length (segments (Config s)) \<le> nat MAX_REPS"
  shows "returns (add_candidates POTENTIAL_REP memb s (no_reps r)) (\<lambda>p. reps_inv (Config_procs s) p
    \<and> rep_segs p = {0 ..< Conf_num_segments (Config s)} - {my_seg s})"
proof -
  let ?is = "filter (\<lambda>i. i \<noteq> my_seg s) [0 .. Conf_num_segments (Config s) - 1]"
  have "length ?is \<le> length [0 .. Conf_num_segments (Config s) - 1]" by (rule length_filter_le)
  then have len: "ri_num_reps (no_reps r) + int (length ?is) \<le> MAX_REPS"
    using assms(4) by (simp add: no_reps_def Conf_num_segments_def MAX_REPS_def)
  have "returns (add_candidates POTENTIAL_REP memb s (no_reps r)) (\<lambda>p. reps_inv (Config_procs s) p
      \<and> rep_segs p = rep_segs (no_reps r) \<union> set ?is)"
    unfolding add_candidates_def using assms(1-3) len
    by (intro candidates_added) (auto simp: at_home_def alone_def Conf_num_segments_def)
  moreover have "rep_segs (no_reps r) = {}" by (simp add: rep_segs_def no_reps_def reps_of_def prefix_of_def)
  moreover have "set ?is = {0 ..< Conf_num_segments (Config s)} - {my_seg s}" by auto
  ultimately show ?thesis by simp
qed

subsection \<open>Alone, looking for others\<close>

text \<open>What a daemon that has just lost its token looks like.\<close>

definition seeking :: "daemon \<Rightarrow> daemon \<Rightarrow> bool" where
  "seeking s s' \<longleftrightarrow> State s' = SEG \<and> \<not> Token_alive s' \<and> Config s' = Config s
     \<and> Config_procs s' = Config_procs s \<and> My s' = My s \<and> Output s' = Output s
     \<and> members_of (F_members s') = [my_id s] \<and> tk_type (Last_token s') = 0
     \<and> Reg_membership s' = Reg_membership s"

lemma members_of_only [simp]: "members_of (only_member i m) = [i]"
  by (cases "mi_members m") (simp_all add: only_member_def members_of_def prefix_of_def arr_put_def)

lemma arm_reps [simp]:
  "Potential_reps (arm f t s) = Potential_reps s" "Reg_membership (arm f t s) = Reg_membership s"
  "Output (arm f t s) = Output s"
  using arm_daemon [of f t s] by auto

lemma disarm_reps [simp]:
  "Potential_reps (disarm f s) = Potential_reps s" "Reg_membership (disarm f s) = Reg_membership s"
  "Output (disarm f s) = Output s"
  using disarm_daemon [of f s] by auto

lemma alone_in_same: "My t = My s \<Longrightarrow> Config_procs t = Config_procs s \<Longrightarrow> alone_in c t = alone_in c s"
  by (simp add: alone_in_def my_id_def my_seg_def)

lemma drop_token_seeking:
  "seeking s (drop_token (Shift_to_seg s))" "Potential_reps (drop_token (Shift_to_seg s)) = Potential_reps s"
  "Membership (drop_token (Shift_to_seg s)) = alone_in (Membership s) s"
  by (simp_all add: drop_token_def Shift_to_seg_def Let_def seeking_def alone_in_def my_id_def my_seg_def)

lemma at_home_same: "My t = My s \<Longrightarrow> Config t = Config s \<Longrightarrow> Config_procs t = Config_procs s \<Longrightarrow> at_home t = at_home s"
  by (simp add: at_home_def my_seg_def)

lemma alone_same: "My t = My s \<Longrightarrow> Config t = Config s \<Longrightarrow> Config_procs t = Config_procs s \<Longrightarrow> alone c t = alone c s"
  by (simp add: alone_def my_id_def my_seg_def)

lemma no_reps_inv: "reps_inv procs (no_reps r)"
  by (simp add: reps_inv_def no_reps_def reps_of_def prefix_of_def MAX_REPS_def)

lemma token_loss_alone:
  assumes "at_home s" and "State s = OP" and "alone (Membership s) s"
    and "length (segments (Config s)) \<le> nat MAX_REPS"
  shows "returns (Memb_token_loss s) (\<lambda>s'. seeking s s' \<and> alone (Membership s') s' \<and>
    reps_inv (Config_procs s) (Potential_reps s')
    \<and> rep_segs (Potential_reps s') = {0 ..< Conf_num_segments (Config s)} - {my_seg s})"
proof -
  let ?s = "commit_alone s"
  have same: "My ?s = My s" "Config ?s = Config s" "Config_procs ?s = Config_procs s" "Membership ?s = Membership s"
    "State ?s = State s" "my_seg ?s = my_seg s"
    by (simp_all add: commit_alone_def my_seg_def)
  then have "returns (add_candidates POTENTIAL_REP (Membership ?s) ?s (no_reps (Potential_reps ?s)))
      (\<lambda>p. reps_inv (Config_procs ?s) p \<and> rep_segs p = {0 ..< Conf_num_segments (Config ?s)} - {my_seg ?s})"
    using assms at_home_same [of ?s s] alone_same [of ?s s "Membership s"]
    by (intro add_candidates_alone) (simp_all add: no_reps_inv)
  then obtain p where p: "add_candidates POTENTIAL_REP (Membership ?s) ?s (no_reps (Potential_reps ?s)) = Inr p"
      "reps_inv (Config_procs s) p" "rep_segs p = {0 ..< Conf_num_segments (Config s)} - {my_seg s}"
    using same by (auto simp: returns_iff)
  define u where "u = ?s\<lparr>Potential_reps := p\<rparr>"
  have u: "My u = My s" "Config u = Config s" "Config_procs u = Config_procs s" "Membership u = Membership s"
    "Potential_reps u = p" "Output u = Output s" "Reg_membership u = Reg_membership s"
    by (simp_all add: u_def commit_alone_def)
  have "lost_potential s = Inr u"
    using p(1) assms(2) by (simp add: lost_potential_def Let_def u_def)
  moreover have "alone (alone_in (Membership u) u) u"
    using assms(1,3) u at_home_same [of u s] by (intro alone_in_alone) (simp_all add: alone_def)
  moreover have "seeking s (drop_token (Shift_to_seg u))"
    using drop_token_seeking(1) [of u] u by (simp add: seeking_def my_id_def)
  ultimately show ?thesis
    using drop_token_seeking(2,3) [of u] p(2,3) u alone_same [of "drop_token (Shift_to_seg u)" u "alone_in (Membership u) u"]
    by (simp add: Memb_token_loss_def seeking_def)
qed

subsection \<open>Initialisation\<close>

lemma Memb_init_alone:
  assumes "at_home s" and "length (segments (Config s)) \<le> nat MAX_REPS"
  shows "returns (Memb_init s) (\<lambda>s'. seeking (s\<lparr>Reg_membership := alone_in (Config s) s\<rparr>) s'
    \<and> alone (Membership s') s' \<and> reps_inv (Config_procs s) (Potential_reps s')
    \<and> rep_segs (Potential_reps s') = {0 ..< Conf_num_segments (Config s)} - {my_seg s})"
proof -
  obtain wide where wide: "is_wide s = Inr wide" using is_wide_returns [OF assms(1)] by (auto simp: returns_iff)
  define u where "u = s\<lparr>State := OP, Wide_network := wide,
      timeo := (if Conf_num_segments (Config s) = 1
        then (if wide then wide_timeouts else local_timeouts)\<lparr>Lookup_timeout := Sp_time 300 0\<rparr>
        else (if wide then wide_timeouts else local_timeouts)),
      Membership := alone_in (Config s) s, Membership_id := \<lparr>mid_proc_id = my_id s, mid_time = -1\<rparr>,
      Last_time_used := -1, Transitional := False, Reg_membership := alone_in (Config s) s,
      Memb_head := (Memb_head s)\<lparr>ph_proc_id := my_id s\<rparr>\<rparr>"
  have eq: "Memb_init s = Memb_token_loss u" by (simp add: Memb_init_def wide u_def Let_def)
  have u: "My u = My s" "Config u = Config s" "Config_procs u = Config_procs s" "State u = OP"
    "Membership u = alone_in (Config s) s" "Reg_membership u = alone_in (Config s) s" "Output u = Output s"
    by (simp_all add: u_def)
  have "my_seg u = my_seg s" "at_home u" "alone (Membership u) u"
    using alone_in_alone [OF assms(1), of "Config s"] assms(1) at_home_same [of u s] alone_same [of u s] u
    by (simp_all add: my_seg_def)
  then have "returns (Memb_token_loss u) (\<lambda>s'. seeking u s' \<and> alone (Membership s') s' \<and>
      reps_inv (Config_procs s) (Potential_reps s')
      \<and> rep_segs (Potential_reps s') = {0 ..< Conf_num_segments (Config s)} - {my_seg s})"
    using token_loss_alone [of u] assms(2) u by simp
  then show ?thesis
    unfolding eq by (rule returns_mono) (use u in \<open>auto simp: seeking_def my_id_def\<close>)
qed

lemma Net_init_same:
  "My (Net_init chan s) = My s \<and> Config (Net_init chan s) = Config s
     \<and> Config_procs (Net_init chan s) = Config_procs s \<and> Output (Net_init chan s) = Output s
     \<and> Time_queue (Net_init chan s) = Time_queue s"
  by (simp add: Net_init_def Let_def Net_clear_partition_def split_beta)

lemma Net_set_membership_frame:
  fixes s :: daemon
  assumes "Net_set_membership c s = Inr s'"
  shows "s' = s\<lparr>Net_membership := Net_membership s', Segment_leader := Segment_leader s',
     Send_list := Send_list s', Token_address := Token_address s', Token_port := Token_port s'\<rparr>"
  using assms by (auto simp: Net_set_membership_def Let_def split_beta split: if_splits)

text \<open>The ring of one: the token goes from this daemon to itself, and packets to nobody.\<close>

lemma Net_set_membership_alone:
  assumes "at_home s" and "alone c s"
  shows "returns (Net_set_membership c s) (\<lambda>s'. Token_address s' = my_id s \<and> Send_list s' = [])"
proof -
  define m where "m = nat (my_seg s)"
  have m: "p_seg_index (My s) = int m" "m < length (segments c)" "length (segments c) = length (segments (Config s))"
    using assms by (simp_all add: m_def at_home_def alone_def my_seg_def)
  have i: "Conf_id_in_seg (Config_procs s) (segments c ! m) (p_id (My s)) = int 0"
    using assms(2) by (simp add: alone_def m_def my_id_def)
  have stops: "map fst (token_stops (Config_procs s) (segments c)) = [my_id s]"
    using assms(2) by (simp add: alone_def token_stops_ids)
  have "\<forall>j < length (segments c). j \<noteq> m \<longrightarrow> seg_procs (segments c ! j) = []"
    using assms(2) m(1) by (auto simp: alone_def my_seg_def)
  then have "\<forall>g \<in> set (take m (segments c) @ drop (Suc m) (segments c)). seg_procs g = []"
    using m(2) by (auto simp: in_set_conv_nth)
  then have "seg_leaders (Config_procs s) (take m (segments c) @ drop (Suc m) (segments c)) = []"
    by (auto simp: seg_leaders_def split: list.split)
  moreover obtain s' where "Net_set_membership c s = Inr s'"
    "Send_list s' = seg_leaders (Config_procs s) (take m (segments c) @ drop (Suc m) (segments c))"
    "(Token_address s', Token_port s') = token_stops (Config_procs s) (segments c) !
         ((length (token_stops (Config_procs s) (take m (segments c))) + 0 + 1)
            mod length (token_stops (Config_procs s) (segments c)))"
    using Net_set_membership_stops [OF m(3,1,2) i] by blast
  moreover obtain a where "token_stops (Config_procs s) (segments c) = [(my_id s, a)]"
    using stops by auto
  ultimately show ?thesis by simp
qed

definition started :: "daemon \<Rightarrow> daemon \<Rightarrow> bool" where
  "started s s' \<longleftrightarrow> State s' = SEG \<and> \<not> Token_alive s' \<and> Output s' = Output s
     \<and> members_of (F_members s') = [my_id s'] \<and> conf_ids (Config_procs s') (Membership s') = [my_id s']
     \<and> Token_address s' = my_id s' \<and> Send_list s' = []
     \<and> rep_segs (Potential_reps s') = {0 ..< Conf_num_segments (Config s')} - {my_seg s'}
     \<and> reps_inv (Config_procs s') (Potential_reps s')
     \<and> My s' = My s \<and> Config s' = Config s \<and> Config_procs s' = Config_procs s"

lemma Prot_init_starts:
  assumes "at_home s" and "length (segments (Config s)) \<le> nat MAX_REPS"
  shows "returns (Prot_init chan s) (started s)"
proof -
  define u where "u = (\<lambda>s1 :: daemon. FC_init (Net_init chan s1))"
  have u: "My (u t) = My t" "Config (u t) = Config t" "Config_procs (u t) = Config_procs t" "Output (u t) = Output t" for t
    using Net_init_same [of chan t] by (simp_all add: u_def FC_init_def)
  have "returns (bindE (Memb_init (u t)) (\<lambda>s2. Net_set_membership (Reg_membership s2) s2)) (started s)"
    if t: "My t = My s" "Config t = Config s" "Config_procs t = Config_procs s" "Output t = Output s" for t
  proof -
    have home: "at_home (u t)" "length (segments (Config (u t))) \<le> nat MAX_REPS"
      using assms at_home_same [of "u t" s] u t by simp_all
    have my: "my_id (u t) = my_id s" "my_seg (u t) = my_seg s" using u t by (simp_all add: my_id_def my_seg_def)
    obtain v where v: "Memb_init (u t) = Inr v" "seeking ((u t)\<lparr>Reg_membership := alone_in (Config (u t)) (u t)\<rparr>) v"
        "alone (Membership v) v" "reps_inv (Config_procs v) (Potential_reps v)"
        "rep_segs (Potential_reps v) = {0 ..< Conf_num_segments (Config v)} - {my_seg v}"
      using Memb_init_alone [OF home] my by (auto simp: returns_iff seeking_def my_seg_def)
    have w: "My v = My s" "Config v = Config s" "Config_procs v = Config_procs s" "Output v = Output s"
        "Reg_membership v = alone_in (Config (u t)) (u t)" "members_of (F_members v) = [my_id v]"
      using v(2) u t by (simp_all add: seeking_def my_id_def)
    have "at_home v" "alone (Reg_membership v) v"
      using assms(1) at_home_same [of v s] w alone_in_alone [OF home(1), of "Config (u t)"] alone_same [of v "u t"] u t
      by simp_all
    then obtain s' where s': "Net_set_membership (Reg_membership v) v = Inr s'"
        "Token_address s' = my_id v" "Send_list s' = []"
      using Net_set_membership_alone [of v "Reg_membership v"] by (auto simp: returns_iff)
    obtain m l sl a p where e: "s' = v\<lparr>Net_membership := m, Segment_leader := l, Send_list := sl,
        Token_address := a, Token_port := p\<rparr>"
      by (rule that) (rule Net_set_membership_frame [OF s'(1)])
    have "my_id s' = my_id v" "my_seg s' = my_seg v" by (simp_all add: e my_id_def my_seg_def)
    then have "started s s'"
      using v w s'(2,3) by (simp add: started_def e seeking_def alone_def)
    then show ?thesis by (simp add: v(1) s'(1))
  qed
  then show ?thesis unfolding Prot_init_def Let_def u_def by simp
qed

subsection \<open>Properties\<close>

text \<open>
  C28: a daemon always starts. On a configuration whose processes know their segment, without
  empty segments and within the table of representatives, \<open>Prot_init\<close> stops at no check; the
  daemon is then in \<open>SEG\<close> without a token, has sent nothing, is the only member of its ring
  and of the membership it forms, would pass the token to itself, and its potential
  representatives are one or more of every other segment and none of its own.
\<close>

theorem daemon_starts:
  assumes "at_home s" and "length (segments (Config s)) \<le> nat MAX_REPS"
  shows "returns (Prot_init chan s) (\<lambda>s'. State s' = SEG \<and> \<not> Token_alive s' \<and> Output s' = Output s
     \<and> members_of (F_members s') = [my_id s'] \<and> conf_ids (Config_procs s') (Membership s') = [my_id s']
     \<and> Token_address s' = my_id s' \<and> Send_list s' = []
     \<and> rep_seg_index ` set (reps_of (Potential_reps s')) = {0 ..< Conf_num_segments (Config s)} - {my_seg s}
     \<and> reps_inv (Config_procs s) (Potential_reps s'))"
  using Prot_init_starts [OF assms, of chan]
  by (rule returns_mono) (auto simp: started_def rep_segs_def my_seg_def)

text \<open>The daemon of \<open>daemon_example\<close> in a configuration of two segments.\<close>

definition start_example :: daemon where
  "start_example =
     (let p = \<lambda>n a g i. \<lparr>p_name = n, p_port = 4803, p_seg_index = g, p_index_in_seg = i, p_id = a,
                  p_ifc = [\<lparr>if_ip = a, if_port = 0, if_type = 7\<rparr>]\<rparr>;
          c = \<lparr>hash_code = 5, segments =
                [\<lparr>seg_bcast_address = 255, seg_port = 4803, seg_procs = [0, 1]\<rparr>,
                 \<lparr>seg_bcast_address = 767, seg_port = 4820, seg_procs = [2]\<rparr>]\<rparr>
      in daemon_example\<lparr>Config := c, Config_procs := [p ''a'' 11 0 0, p ''b'' 12 0 1, p ''c'' 13 1 0],
           My := p ''b'' 12 0 1\<rparr>)"

lemma start_example_home: "at_home start_example" "length (segments (Config start_example)) \<le> nat MAX_REPS"
  "Time_queue start_example = []" "my_seg start_example = 0" "Conf_num_segments (Config start_example) = 2"
  by (simp_all add: start_example_def daemon_example_simps at_home_def placed_def wf_conf_def wf_procs_def
      has_ip_def my_seg_def less_Suc_eq MAX_REPS_def Conf_num_segments_def)

theorem daemon_starts_witness:
  "returns (Prot_init int start_example) (\<lambda>s'. State s' = SEG
     \<and> rep_seg_index ` set (reps_of (Potential_reps s')) = {1})"
proof -
  have "{0 ..< 2} - {0} = {1 :: int}" by auto
  then show ?thesis
    by (intro returns_mono [OF daemon_starts [OF start_example_home(1,2)]]) (simp add: start_example_home)
qed

end
