(* ===== verification/Stops.thy ===== *)
theory Stops
  imports Protocol
begin

section \<open>Where the daemon stops\<close>

text \<open>
  A handler stops the daemon at an \<open>Alarm(EXIT, ...)\<close>, named by the function that has it. The
  lemmas of the collection \<open>spares\<close> show of every function, bottom up, that it does not stop
  at a given name, here the "bug" exit of \<open>Memb_token_loss\<close>: all of them but that function
  unconditionally, \<open>Memb_token_loss\<close> and its callers where a token can be lost.
\<close>

named_theorems spares \<open>outcomes that do not stop at a given exit\<close>

lemmas outcome_splits = option.split list.split prod.split memb_state.split pkt_body.split tok_body.split

subsection \<open>Sequencing\<close>

definition spares :: "string \<Rightarrow> 'a outcome \<Rightarrow> bool" where
  "spares who r \<longleftrightarrow> r \<noteq> Inl (Alarm_exit who)"

abbreviation not_bug :: "'a outcome \<Rightarrow> bool" where
  "not_bug \<equiv> spares ''Memb_token_loss''"

lemma spares_simps [simp]: "spares w (Inr a)" "spares w (Inl (Undefined v))" "spares w (Inl (Hang v))"
  "spares w (Inl (Assert_fail v))" "spares w (Inl (Alarm_exit v)) = (v \<noteq> w)"
  by (auto simp: spares_def)

lemma spares_bindE [spares]: "spares w r \<Longrightarrow> (\<And>a. spares w (f a)) \<Longrightarrow> spares w (bindE r f)"
  by (cases r) (simp_all add: spares_def)

lemma spares_for_each [spares]: "(\<And>x s. spares w (f x s)) \<Longrightarrow> spares w (for_each f xs s)"
  by (induction xs arbitrary: s) (auto intro: spares)

lemma spares_for_until [spares]: "(\<And>x s. spares w (f x s)) \<Longrightarrow> spares w (for_until f xs s)"
  by (induction xs arbitrary: s) (auto simp: split_beta intro!: spares)

lemma spares_after: "spares w r \<Longrightarrow> lands r P \<Longrightarrow> (\<And>a. P a \<Longrightarrow> spares w (f a)) \<Longrightarrow> spares w (bindE r f)"
  by (cases r) (simp_all add: spares_def)

lemma spares_if [spares]: "(c \<Longrightarrow> spares w r) \<Longrightarrow> (\<not> c \<Longrightarrow> spares w r') \<Longrightarrow> spares w (if c then r else r')"
  by simp

subsection \<open>Lookups, lists and sending\<close>

lemma spares_basic [spares]:
  "not_bug (Conf_leader procs c)" "not_bug (Conf_last procs c)"
  "not_bug (Conf_seg_leader procs c i)" "not_bug (Conf_seg_last procs c i)"
  "not_bug (Insert_rep procs r rep)" "not_bug (rep_before procs q q')"
  "not_bug (member_at who m i)" "not_bug (rep_at who r i)"
  by (auto simp: Conf_leader_def Conf_last_def Conf_seg_leader_def Conf_seg_last_def Insert_rep_def rep_before_def member_at_def rep_at_def Let_def split_beta
      intro!: spares split: outcome_splits)

lemma spares_net [spares]:
  "not_bug (Net_set_membership c u)" "not_bug (Net_send_token t u)"
  "not_bug (Net_ucast_token i t u)" "not_bug (Net_recv_token fd ret t u)"
  "not_bug (monitor_partition p u)"
  by (auto simp: Net_set_membership_def Net_send_token_def Net_ucast_token_def Net_recv_token_def monitor_partition_def Let_def split_beta
      intro!: spares split: outcome_splits)

lemma spares_loops [spares]:
  "not_bug (smallest_member_loop procs cur p i xs)" "not_bug (smallest_rep_loop procs cur c i rs)"
  "(\<And>ys. not_bug (pick ys)) \<Longrightarrow> not_bug (selection_sort pick n zs)"
proof -
  show "not_bug (smallest_member_loop procs cur p i xs)"
    by (induction xs arbitrary: cur p i) (auto split: outcome_splits)
  show "not_bug (smallest_rep_loop procs cur c i rs)"
    by (induction rs arbitrary: cur c i) (auto intro!: spares)
  show "not_bug (selection_sort pick n zs)" if "\<And>ys. not_bug (pick ys)"
    by (induction n arbitrary: zs) (auto intro!: spares that)
qed

lemma spares_more_loops [spares]:
  "w \<noteq> ''Memb_token_loss'' \<Longrightarrow> not_bug (collect_segs w procs ids gs)" "not_bug (build_future procs js c)"
  "not_bug (send_tokens n t s)" "not_bug (split_packets n r k d)" "not_bug (recv_loop n same r k d)"
proof -
  have seg: "not_bug (collect_seg w procs ids ks g)" if "w \<noteq> ''Memb_token_loss''" for ks g
    using that by (induction ks arbitrary: g) (auto simp: Let_def split_beta)
  show "not_bug (collect_segs w procs ids gs)" if "w \<noteq> ''Memb_token_loss''"
    by (induction gs) (auto intro!: spares seg that)
  show "not_bug (build_future procs js c)"
    by (induction js arbitrary: c) (auto simp: Let_def split_beta split: outcome_splits)
  show "not_bug (send_tokens n t s)"
    by (induction n arbitrary: t s) (auto simp: split_beta intro!: spares)
  show "not_bug (split_packets n r k d)"
    by (induction n arbitrary: k) (auto simp: Let_def intro!: spares)
  show "not_bug (recv_loop n same r k d)"
    by (induction n arbitrary: k d) (auto simp: recv_loop.simps Let_def)
qed

lemma spares_lists [spares]:
  "not_bug (leads memb s)" "not_bug (insert_reps procs qs r)"
  "not_bug (smallest_member_index procs ms)" "not_bug (smallest_rep_index procs qs)"
  "not_bug (candidate memb s k)" "not_bug (ucast_token_twice i t s)"
  by (auto simp: leads_def insert_reps_def smallest_member_index_def smallest_rep_index_def candidate_def ucast_token_twice_def Let_def split_beta
      intro!: spares split: outcome_splits)

lemma spares_choices [spares]:
  "not_bug (Smallest_member procs m)" "not_bug (Smallest_rep procs r)"
  "not_bug (Sort_members procs m)" "not_bug (Sort_reps procs r)"
  "not_bug (add_candidates k memb s r)" "not_bug (update_potential qs s)"
  by (auto simp: Smallest_member_def Smallest_rep_def Sort_members_def Sort_reps_def add_candidates_def update_potential_def Let_def split_beta
      intro!: spares split: outcome_splits)

subsection \<open>Delivery\<close>

lemma spares_views [spares]:
  "not_bug (Memb_transitional s)" "not_bug (Memb_regular s)" "not_bug (Deliver_packet i s)"
  "not_bug (finish_reload s)" "not_bug (FC_handle_message p s)"
  by (auto simp: Memb_transitional_def Memb_regular_def Deliver_packet_def finish_reload_def FC_handle_message_def Let_def split_beta
      intro!: spares split: outcome_splits)

lemma spares_delivery_steps [spares]:
  "not_bug (deliver_if_reliable i s)" "not_bug (deliver_agreed_step i s)"
  "not_bug (discard_step i s)" "not_bug (evs_before_step i s)" "not_bug (evs_after_step i fs)"
  by (auto simp: deliver_if_reliable_def deliver_agreed_step_def discard_step_def evs_before_step_def evs_after_step_def Let_def split_beta
      intro!: spares split: outcome_splits)

lemma spares_delivery [spares]:
  "not_bug (Deliver_reliable_packets i n s)" "not_bug (Deliver_agreed_packets s)"
  "not_bug (Discard_packets_evs s)"
  by (auto simp: Deliver_reliable_packets_def Deliver_agreed_packets_def Discard_packets_evs_def Let_def split_beta
      intro!: spares split: outcome_splits)

lemma spares_discard [spares]:
  "not_bug (Discard_packets s)"
  by (auto simp: Discard_packets_def Let_def split_beta
      intro!: spares split: outcome_splits)

subsection \<open>Membership\<close>

lemma spares_form_parts [spares]:
  "not_bug (fill_members m r s)" "not_bug (merge_my_ring g s)" "not_bug (pass_form1 h m r gs s)"
  "not_bug (pass_form2 h tb s)" "not_bug (mark_hole i s)"
  by (auto simp: fill_members_def merge_my_ring_def pass_form1_def pass_form2_def mark_hole_def Let_def split_beta
      intro!: spares split: outcome_splits)

lemma spares_rings [spares]:
  "not_bug (fill_rings m gs s)" "not_bug (read_my_ring g s)"
  by (auto simp: fill_rings_def read_my_ring_def Let_def split_beta
      intro!: spares split: outcome_splits)

lemma spares_form [spares]:
  "not_bug (Create_form1 s)" "not_bug (Fill_form1 t s)" "not_bug (Read_form2 t s)"
  by (auto simp: Create_form1_def Fill_form1_def Read_form2_def Let_def split_beta
      intro!: spares split: outcome_splits)

lemma spares_memb [spares]:
  "not_bug (Gather_or_represented s)" "not_bug (Form_or_fail s)" "not_bug (Memb_handle_refer p s)"
  "not_bug (Memb_handle_foreign p s)" "not_bug (from_my_rep i r s)" "not_bug (join_in_gather r s)"
  by (auto simp: Gather_or_represented_def Form_or_fail_def Memb_handle_refer_def Memb_handle_foreign_def from_my_rep_def join_in_gather_def Let_def split_beta
      intro!: spares split: outcome_splits)

lemma spares_memb_form [spares]:
  "not_bug (Memb_handle_form1 t s)" "not_bug (Memb_handle_form2 t s)"
  by (auto simp: Memb_handle_form1_def Memb_handle_form2_def Let_def split_beta
      intro!: spares split: outcome_splits)

lemma spares_memb_token [spares]:
  "not_bug (Memb_handle_token t s)"
  by (auto simp: Memb_handle_token_def Let_def split_beta
      intro!: spares split: outcome_splits)

subsection \<open>The ring protocol\<close>

lemma spares_prot [spares]:
  "not_bug (Prot_token_hurry s)" "not_bug (packets_of n d)" "not_bug (insert_packet p s)"
  "not_bug (rearm_token_timers s)" "not_bug (answer_one g i as)" "not_bug (queue_packet h b s)"
  "not_bug (requests_in t)" "not_bug (Net_recv fd d s)"
  by (auto simp: Prot_token_hurry_def packets_of_def insert_packet_def rearm_token_timers_def answer_one_def queue_packet_def requests_in_def Net_recv_def Let_def split_beta
      intro!: spares split: outcome_splits)

lemma spares_prot_parts [spares]:
  "not_bug (Handle_hurry h s)" "not_bug (answer_ring g as)" "not_bug (send_one l ls s)"
  "not_bug (forward_token c t s)"
  by (auto simp: Handle_hurry_def answer_ring_def send_one_def forward_token_def Let_def split_beta
      intro!: spares split: outcome_splits)

lemma spares_send_loop [spares]: "not_bug (send_loop n a k s)"
  by (induction n arbitrary: k s)
    (auto simp: send_loop.simps [of 0] send_loop.simps [of "Suc _"] split_beta intro!: spares split: list.split)

lemma spares_token_work [spares]:
  "not_bug (Answer_retrans rs s)" "not_bug (Send_new_packets n s)"
  "not_bug (Prot_new_message l s)"
  by (auto simp: Answer_retrans_def Send_new_packets_def Prot_new_message_def Let_def split_beta
      intro!: spares split: outcome_splits)

lemma spares_token [spares]:
  "not_bug (work_on_token c h rs s)"
  by (auto simp: work_on_token_def Let_def split_beta
      intro!: spares split: outcome_splits)

subsection \<open>Where a token can be lost\<close>

lemma Memb_token_loss_no_bug: "can_lose s \<Longrightarrow> not_bug (Memb_token_loss s)"
  by (cases "State s")
    (auto simp: Memb_token_loss_def lost_potential_def can_lose_def Let_def intro!: spares)

lemma wanted_loss_can_lose: "token_inv s \<Longrightarrow> wanted T_Memb_token_loss s \<Longrightarrow> can_lose s"
  by (cases "State s") (auto simp: token_inv_def can_lose_def)

lemma lose_with_no_bug: "can_lose s \<Longrightarrow> not_bug (lose_with i memb s)"
  by (auto simp: lose_with_def intro!: spares Memb_token_loss_no_bug)

lemma Memb_handle_message_no_bug: "not_bug (Memb_handle_message p s)"
  by (cases "State s")
    (auto simp: Memb_handle_message_def Memb_handle_alive_def Memb_handle_join_def join_in_op_def Let_def
      can_lose_def intro!: spares lose_with_no_bug Memb_token_loss_no_bug split: pkt_body.split)

lemma deliver_due_no_bug: "not_bug (deliver_due n s)"
  by (auto simp: deliver_due_def can_lose_def intro!: spares Memb_token_loss_no_bug)

lemma Prot_handle_token_no_bug: "not_bug (Prot_handle_token fd received buf s)"
  by (auto simp: Prot_handle_token_def accept_token_def process_token_def Let_def split_beta
      intro!: spares deliver_due_no_bug)

lemma Prot_handle_bcast_no_bug:
  assumes "no_reload d"
  shows "not_bug (Prot_handle_bcast env fd d s)"
  unfolding Prot_handle_bcast_def
  by (rule spares_after [OF _ Net_recv_reload [OF assms]])
    (auto simp: plain_def head_at_def Let_def intro!: spares Memb_handle_message_no_bug)

end
