(* ===== verification/Daemon.thy ===== *)
theory Daemon
  imports Startup Stops
begin

section \<open>The daemon as a state machine\<close>

text \<open>
  The handlers put together as \<open>E_handle_events\<close> runs them: one input at a time, a datagram, a
  token, a message from a session, or a turn of the timer loop. \<open>step\<close> takes the inputs
  without a request to reload the configuration. The locale \<open>step_system\<close> carries invariants
  from the first state and the steps to every reachable state; \<open>machine\<close> is its use here.
\<close>

subsection \<open>Steps\<close>

datatype input =
    In_bcast reload_env int datagram
  | In_token int int token
  | In_message down_link
  | In_timers

text \<open>The functions the daemon queues, called with the code they were queued with.\<close>

fun call_timer :: "timer_fn \<Rightarrow> int \<Rightarrow> daemon \<Rightarrow> daemon outcome" where
  "call_timer T_Memb_token_loss c s = Memb_token_loss s"
| "call_timer T_Prot_token_hurry c s = Prot_token_hurry s"
| "call_timer T_Send_join c s = Inr (Send_join s)"
| "call_timer T_Form_or_fail c s = Form_or_fail s"
| "call_timer T_Scast_alive c s = Inr (Scast_alive c s)"
| "call_timer T_Gather_or_represented c s = Gather_or_represented s"
| "call_timer T_Shift_to_seg c s = Inr (Shift_to_seg s)"
| "call_timer T_Memb_lookup_new_members c s = Inr (Memb_lookup_new_members s)"
| "call_timer T_Clear_partition_cb c s = Inr (Clear_partition_cb s)"

definition timer_turn :: "daemon \<Rightarrow> daemon outcome" where
  "timer_turn s =
     (let (fired, _, s1) = E_time_step False s
      in case fired of
           Some e \<Rightarrow> bindE (call_timer (te_func e) (te_code e) s1) (\<lambda>s2. Inr (snd (E_get_time s2)))
         | None \<Rightarrow> Inr s1)"

fun handle :: "input \<Rightarrow> daemon \<Rightarrow> daemon outcome" where
  "handle (In_bcast env fd d) s = Prot_handle_bcast env fd d s"
| "handle (In_token fd received buf) s = Prot_handle_token fd received buf s"
| "handle (In_message l) s = Prot_new_message l s"
| "handle In_timers s = timer_turn s"

fun input_ok :: "input \<Rightarrow> bool" where
  "input_ok (In_bcast env fd d) = no_reload d"
| "input_ok i = True"

inductive step :: "daemon \<Rightarrow> daemon \<Rightarrow> bool" where
  handled: "input_ok i \<Longrightarrow> handle i s = Inr s' \<Longrightarrow> step s s'"

inductive_cases stepE: "step s s'"

text \<open>A run: the daemon starts, then handles inputs.\<close>

definition reachable :: "(nat \<Rightarrow> int) \<Rightarrow> daemon \<Rightarrow> daemon \<Rightarrow> bool" where
  "reachable chan s0 s \<longleftrightarrow> (\<exists>s1. Prot_init chan s0 = Inr s1 \<and> step\<^sup>*\<^sup>* s1 s)"

subsection \<open>Invariants of a state machine\<close>

locale step_system =
  fixes start :: "'s \<Rightarrow> bool" and move :: "'s \<Rightarrow> 's \<Rightarrow> bool" and inv :: "'s \<Rightarrow> bool"
  assumes start_inv: "start s \<Longrightarrow> inv s"
    and move_inv: "inv s \<Longrightarrow> move s s' \<Longrightarrow> inv s'"
begin

lemma moves_inv: "move\<^sup>*\<^sup>* s s' \<Longrightarrow> inv s \<Longrightarrow> inv s'"
  by (induction rule: rtranclp_induct) (auto intro: move_inv)

lemma reached_inv: "start s \<Longrightarrow> move\<^sup>*\<^sup>* s s' \<Longrightarrow> inv s'"
  using moves_inv start_inv by blast

end

subsection \<open>The invariant of the daemon\<close>

lemma timer_fired:
  assumes "clock_ok s" and "E_time_step False s = (Some e, t, s1)"
  shows "clock_ok s1 \<and> (\<forall>f. armed f s1 = (armed f s \<and> f \<noteq> te_func e)) \<and> armed (te_func e) s
    \<and> te_code e = 0 \<and> State s1 = State s \<and> Token_alive s1 = Token_alive s"
proof -
  obtain q n r where q: "Time_queue s = e # q" and s1: "s1 = s\<lparr>Now := n, time_reads := r, Time_queue := q\<rparr>"
    using assms(2) by (auto simp: E_time_step_def Let_def E_get_time_def split: list.splits if_splits)
  have ok: "tq_ok (e # q)" and zero: "\<forall>k \<in> event_key ` set (e # q). snd k = (0, 0)"
    using assms(1) by (simp_all add: clock_ok_def timers_ok_def pending_def q)
  then have "event_key e \<notin> event_key ` set q" and "tq_ok q" by (auto simp: tq_ok_def)
  moreover have e: "event_key e = (te_func e, 0, 0)" "te_code e = 0" using zero by (auto simp: event_key_def)
  moreover have "pending s1 = event_key ` set q" "pending s = insert (event_key e) (event_key ` set q)"
    by (simp_all add: pending_def q s1)
  ultimately show ?thesis
    using zero by (auto simp: clock_ok_def timers_ok_def armed_def s1)
qed

lemma get_time_inv: "memb_inv_but x s \<Longrightarrow> memb_inv_but x (snd (E_get_time s))"
  by (erule same_core_inv) (simp add: same_core_def E_get_time_def Let_def)

lemma timer_turn_inv:
  assumes "memb_inv s"
  shows "lands (timer_turn s) memb_inv"
proof -
  obtain fired t s1 where e: "E_time_step False s = (fired, t, s1)" by (metis prod_cases3)
  show ?thesis
  proof (cases fired)
    case None
    then have "same_core s s1" using e
      by (auto simp: E_time_step_def Let_def E_get_time_def same_core_def split: list.splits if_splits)
    then show ?thesis using assms same_core_inv by (simp add: timer_turn_def e None)
  next
    case (Some ev)
    define f where "f = te_func ev"
    have i: "clock_ok s" "token_inv s" "armed f s"
        "state_timer g \<Longrightarrow> armed g s = wanted g s" "armed T_Prot_token_hurry s \<Longrightarrow> Token_alive s" for g
      using assms timer_fired [of s ev t s1] e Some by (auto simp: memb_inv_but_def f_def)
    have s1: "clock_ok s1" "armed g s1 = (armed g s \<and> g \<noteq> f)" "te_code ev = 0" "State s1 = State s"
        "Token_alive s1 = Token_alive s" for g
      using timer_fired [of s ev t s1] e Some i(1) by (auto simp: f_def)
    have w: "wanted g s1 = wanted g s" for g by (cases g) (simp_all add: s1)
    have inv: "memb_inv_but (Some f) s1"
      unfolding memb_inv_but_def using i s1 w by (auto simp: token_inv_def)
    have inv': "memb_inv s1" if "\<not> state_timer f"
      using inv that by (auto simp: memb_inv_but_def)
    have want: "state_timer f \<Longrightarrow> wanted f s" using i by blast
    have "lands (call_timer f 0 s1) (\<lambda>s2. memb_inv (snd (E_get_time s2)))"
      using inv inv' want i(3,5) s1(4,5)
      by (intro lands_mono [OF _ get_time_inv], cases f) (auto simp: state_timer_def Clear_partition_cb_def Net_clear_partition_def same_core_def
          intro: Memb_token_loss_inv Prot_token_hurry_inv Send_join_inv Form_or_fail_inv Scast_alive_inv
            Gather_or_represented_inv Shift_to_seg_inv Memb_lookup_inv same_core_inv)
    then show ?thesis by (simp add: timer_turn_def e Some s1 f_def lands_bindE)
  qed
qed

lemma handle_inv: "memb_inv s \<Longrightarrow> input_ok i \<Longrightarrow> lands (handle i s) memb_inv"
  by (cases i) (simp_all add: Prot_handle_bcast_inv Prot_handle_token_inv Prot_new_message_inv timer_turn_inv)

interpretation machine: step_system "\<lambda>s. Time_queue s0 = [] \<and> Prot_init chan s0 = Inr s" step memb_inv
  for chan s0
proof unfold_locales
  show "memb_inv s" if "Time_queue s0 = [] \<and> Prot_init chan s0 = Inr s" for s
    using that Prot_init_inv [of s0 chan] by simp
  show "memb_inv s'" if "memb_inv s" "step s s'" for s s'
    using that(2,1) handle_inv by (auto elim!: stepE dest: landsD)
qed

lemma reachable_inv: "reachable chan s0 s \<Longrightarrow> Time_queue s0 = [] \<Longrightarrow> memb_inv s"
  unfolding reachable_def using machine.reached_inv [of s0 chan] by blast

subsection \<open>The timer that finds the token lost\<close>

lemma timer_turn_no_bug:
  assumes "memb_inv s"
  shows "not_bug (timer_turn s)"
proof (cases "fst (E_time_step False s)")
  case None
  then show ?thesis by (simp add: timer_turn_def split_beta)
next
  case (Some e)
  obtain t s1 where e: "E_time_step False s = (Some e, t, s1)" using Some by (metis prod.collapse)
  have f: "armed (te_func e) s" "State s1 = State s" "Token_alive s1 = Token_alive s"
    using timer_fired [OF _ e] assms by (auto simp: memb_inv_but_def)
  have "can_lose s1" if "te_func e = T_Memb_token_loss"
  proof -
    have "wanted T_Memb_token_loss s" using assms f(1) that by (simp add: memb_inv_but_def state_timer_def)
    then have "can_lose s" using assms by (intro wanted_loss_can_lose) (simp_all add: memb_inv_but_def)
    then show ?thesis using f by (simp add: can_lose_def)
  qed
  then show ?thesis
    by (cases "te_func e") (auto simp: timer_turn_def e intro!: spares Memb_token_loss_no_bug)
qed

subsection \<open>Reachable states in terms of the queue\<close>

lemma armed_func:
  assumes "clock_ok s"
  shows "armed f s \<longleftrightarrow> f \<in> te_func ` set (Time_queue s)"
proof -
  have "event_key e = (te_func e, 0, 0)" if "e \<in> set (Time_queue s)" for e
    using assms that by (auto simp: clock_ok_def pending_def event_key_def)
  then show ?thesis by (force simp: armed_def pending_def)
qed

lemma clock_ok_queue:
  assumes "clock_ok s"
  shows "sorted (map te_t (Time_queue s)) \<and> distinct (map te_func (Time_queue s))"
proof -
  have "map event_key (Time_queue s) = map (\<lambda>f. (f, 0, 0)) (map te_func (Time_queue s))"
    using assms by (auto simp: clock_ok_def pending_def event_key_def)
  then have "distinct (map (\<lambda>f. (f, 0 :: int, 0 :: nat)) (map te_func (Time_queue s)))"
    using assms by (metis clock_ok_def timers_ok_def tq_ok_def)
  then show ?thesis
    using assms by (simp only: distinct_map [of "\<lambda>f. (f, 0, 0)"]) (simp add: clock_ok_def timers_ok_def tq_ok_def)
qed

subsection \<open>A reload while the daemon looks for others\<close>

definition clock_frame :: "daemon \<Rightarrow> daemon \<Rightarrow> bool" where
  "clock_frame s s' \<longleftrightarrow> Time_queue s' = Time_queue s \<and> time_of_day s' = time_of_day s
     \<and> time_reads s' = time_reads s \<and> State s' = State s"

lemma Conf_load_clock: "lands (Conf_load_conf_file f name res s) (clock_frame s)"
  by (auto simp: Conf_load_conf_file_def Let_def lands_if clock_frame_def split: option.split list.split prod.split)

lemma Conf_reload_clock: "lands (Conf_reload_initiate f name res s) (\<lambda>(_, s1). clock_frame s s1)"
  unfolding Conf_reload_initiate_def split_beta
  by (rule lands_any, rule lands_seq [OF Conf_load_clock]) (simp add: lands_if split: option.split prod.split)

lemma Prot_handle_conf_reload_clock:
  "lands (Prot_handle_conf_reload env s)
     (\<lambda>s'. \<exists>t. s' = arm T_Memb_token_loss (Sp_time 0 0) t \<and> clock_frame s t)"
proof -
  obtain f name res where env: "env = (f, name, res)" by (cases env)
  have "clock_frame s (if b then Conf_reload_state_begin (Net_set_partition p u) else u)"
    if "clock_frame s u" for b p u
    using that by (simp add: clock_frame_def Conf_reload_state_begin_def Net_set_partition_def)
  moreover have "clock_frame s ((emit e (Net_signal_conf_reload u))\<lparr>My_index := k\<rparr>)" if "clock_frame s u" for e u k
    using that by (simp add: clock_frame_def emit_def Net_signal_conf_reload_def)
  ultimately show ?thesis
    unfolding Prot_handle_conf_reload_def env Let_def split_beta fst_conv snd_conv
    by (intro lands_seq [OF Conf_reload_clock]) (simp only: split_beta lands_Inr, blast)
qed

lemma tq_insert_first: "\<forall>p \<in> set q. te_t e < te_t p \<Longrightarrow> tq_insert e q = e # q"
  by (cases q) auto

subsection \<open>Properties\<close>

lemma start_example_started: "\<exists>s. reachable int start_example s \<and> State s = SEG"
  using Prot_init_starts [OF start_example_home(1,2), of int] by (auto simp: returns_iff reachable_def started_def)





text \<open>
  C3: the daemon never stops at its own bug check. \<open>Memb_token_loss\<close> exits when the token is
  lost in a state that has none ("bug !!!"). In every state the daemon reaches, no datagram
  but a request to reload, no token, no message and no timer leads there: the timer is armed,
  and the handlers call \<open>Memb_token_loss\<close>, only where a token can be lost.
\<close>

theorem never_the_loss_bug:
  assumes "reachable chan s0 s" and "Time_queue s0 = []" and "input_ok i"
  shows "handle i s \<noteq> Inl (Alarm_exit ''Memb_token_loss'')"
proof -
  have inv: "memb_inv s" using assms(1,2) by (rule reachable_inv)
  have "not_bug (handle i s)"
    using assms(3) timer_turn_no_bug [OF inv]
    by (cases i) (simp_all add: Prot_handle_bcast_no_bug Prot_handle_token_no_bug spares_token_work)
  then show ?thesis by (simp add: spares_def)
qed

theorem never_the_loss_bug_witness:
  "\<exists>s. reachable int start_example s \<and> handle In_timers s \<noteq> Inl (Alarm_exit ''Memb_token_loss'')"
proof -
  from start_example_started obtain s where s: "reachable int start_example s" by blast
  with never_the_loss_bug [OF s start_example_home(3), of In_timers] show ?thesis by auto
qed

text \<open>
  C29: a reload while the daemon looks for others kills it. \<open>Prot_handle_conf_reload\<close> queues
  \<open>Memb_token_loss\<close> at once in every state. When it succeeds in \<open>SEG\<close> or \<open>REPRESENTED\<close>, and
  no other timer is due, the next turn of the timer loop ends in the exit of
  \<open>Memb_token_loss\<close> for states that cannot lose a token.
\<close>

theorem reload_while_seeking_kills:
  assumes "Prot_handle_conf_reload env s = Inr s'" and "State s = SEG \<or> State s = REPRESENTED"
    and "distinct (map event_key (Time_queue s))"
    and "\<forall>e \<in> set (Time_queue s). time_of_day s (time_reads s) < te_t e"
    and "normal_time (time_of_day s (time_reads s))"
    and "time_of_day s (time_reads s) \<le> time_of_day s (Suc (time_reads s))"
  shows "timer_turn s' = Inl (Alarm_exit ''Memb_token_loss'')"
proof -
  let ?now = "time_of_day s (time_reads s)"
  obtain t where s': "s' = arm T_Memb_token_loss (Sp_time 0 0) t" and t: "Time_queue t = Time_queue s"
      "time_of_day t = time_of_day s" "time_reads t = time_reads s" "State t = State s"
    using landsD [OF Prot_handle_conf_reload_clock assms(1)] by (auto simp: clock_frame_def)
  let ?e = "\<lparr>te_t = ?now, te_func = T_Memb_token_loss, te_code = 0, te_data = 0\<rparr>"
  have now: "E_add_time ?now (Sp_time 0 0) = ?now"
    using assms(5) by (cases ?now) (simp add: E_add_time_def normal_time_def)
  have "tq_insert ?e (tq_without (event_key ?e) (Time_queue s)) = ?e # tq_without (event_key ?e) (Time_queue s)"
    using assms(4) by (intro tq_insert_first) (auto simp: tq_without_def)
  then have "s' = t\<lparr>Now := ?now, time_reads := Suc (time_reads s), Time_queue := ?e # tq_without (event_key ?e) (Time_queue s)\<rparr>"
    using assms(3) by (simp add: s' arm_def E_queue_def E_get_time_def Let_def t now E_queue_event_spec)
  then show ?thesis
    using assms(2,6) t
    by (auto simp: timer_turn_def E_time_step_def E_get_time_def E_compare_time_ge Let_def Memb_token_loss_def lost_potential_def)
qed

text \<open>The started daemon, told to read its own configuration again.\<close>

definition seeking_example :: daemon where
  "seeking_example = start_example\<lparr>State := SEG, Token_alive := False\<rparr>"

definition reload_example :: reload_env where
  "reload_example = (\<lparr>cf_config = Config start_example, cf_procs = Config_procs start_example, cf_string = [1, 2]\<rparr>,
     Some ''b'', \<lparr>host_name = ''b'', host_addrs = None\<rparr>)"

lemma reload_example_reloads: "returns (Prot_handle_conf_reload reload_example seeking_example) (\<lambda>_. True)"
proof -
  have wf: "wf_conf (Config_procs seeking_example) (Config seeking_example)"
    using start_example_home(1) by (simp add: at_home_def placed_def seeking_example_def)
  show ?thesis
    unfolding Prot_handle_conf_reload_def reload_example_def Let_def split_beta fst_conv snd_conv
      Conf_reload_initiate_def Conf_config_copy_id [OF wf]
    by (simp add: Conf_load_conf_file_def seeking_example_def start_example_def version_string_def
      MAX_CONF_STRING_def MAX_PROC_NAME_def Conf_proc_by_name_def Conf_proc_by_id_def has_ip_def
      identity_changed_def ifc_changed_def Let_def daemon_example_def is_localhost_seg_def)
qed

theorem reload_while_seeking_kills_witness:
  "\<exists>s'. Prot_handle_conf_reload reload_example seeking_example = Inr s'
     \<and> timer_turn s' = Inl (Alarm_exit ''Memb_token_loss'')"
proof -
  obtain s' where "Prot_handle_conf_reload reload_example seeking_example = Inr s'"
    using reload_example_reloads by (auto simp: returns_iff)
  with reload_while_seeking_kills [OF this] show ?thesis
    by (simp add: seeking_example_def start_example_def daemon_example_simps normal_time_def less_eq_sp_time_def)
qed

end
