(* ===== verification/Packet_Transfer.thy ===== *)
theory Packet_Transfer
  imports Protocol
begin

section \<open>From one daemon's queue to another daemon's slots\<close>

text \<open>
  What packing, receiving and taking a datagram apart do together, and why the loop that sends
  new packets ends.
\<close>

subsection \<open>A datagram that carries the packed elements\<close>

text \<open>\<open>same\<close>: the receiver has the sender's byte order.\<close>

definition carries :: "bool \<Rightarrow> scat_elem list \<Rightarrow> datagram \<Rightarrow> bool" where
  "carries same es d \<longleftrightarrow> dg_len d = elems_bytes es
     \<and> (\<forall>i < length es. case es ! i of
          Pkt p \<Rightarrow> dg_view d (elems_bytes (take i es)) = wire_form same p | Pad n \<Rightarrow> True)"

lemma places_snoc:
  "places k (ps @ [p]) = places k ps @ [(if ps = [] then k else span k ps + align_pad (span k ps), p)]"
  by (induction ps arbitrary: k) (auto simp: next_place_def)

lemma holds_snoc:
  "holds same k (ps @ [p]) d \<longleftrightarrow> holds same k ps d
     \<and> dg_view d (if ps = [] then k else span k ps + align_pad (span k ps)) = wire_form same p"
  by (auto simp: holds_def places_snoc)

lemma carried_holds:
  "(\<forall>i < length (pack_list ps). case pack_list ps ! i of
      Pkt p \<Rightarrow> dg_view d (elems_bytes (take i (pack_list ps))) = wire_form same p | Pad n \<Rightarrow> True) \<Longrightarrow>
   holds same 0 ps d"
proof (induction ps rule: rev_induct)
  case (snoc p ps)
  define es where "es = pack_list ps @ pad_for (elems_bytes (pack_list ps))"
  have eq: "pack_list (ps @ [p]) = es @ [Pkt p]" by (simp add: pack_list_snoc es_def)
  have el: "(case es ! i of Pkt p \<Rightarrow> dg_view d (elems_bytes (take i es)) = wire_form same p | Pad n \<Rightarrow> True)"
    if "i < length es" for i
    using snoc.prems [unfolded eq, rule_format, of i] that by (auto simp: nth_append split: scat_elem.splits)
  have "(case pack_list ps ! i of Pkt p \<Rightarrow> dg_view d (elems_bytes (take i (pack_list ps))) = wire_form same p
      | Pad n \<Rightarrow> True)" if "i < length (pack_list ps)" for i
    using el [of i] that by (auto simp: es_def nth_append split: scat_elem.splits)
  then have "holds same 0 ps d" using snoc.IH by blast
  moreover have "elems_bytes es = (if ps = [] then 0 else span 0 ps + align_pad (span 0 ps))"
    by (simp add: es_def span_pack_list align_pad_def)
  moreover have "dg_view d (elems_bytes es) = wire_form same p"
    using snoc.prems [unfolded eq, rule_format, of "length es"] by simp
  ultimately show ?case by (simp add: holds_snoc)
qed (simp add: holds_def)

lemma carries_holds: "carries same (pack_list ps) d \<Longrightarrow> holds same 0 ps d \<and> dg_len d = span 0 ps"
  using carried_holds by (simp add: carries_def span_pack_list)

subsection \<open>Taking the datagram apart\<close>

lemma align_pad_head: "align_pad (sizeof_packet_header + n) = align_pad n"
  unfolding align_pad_def sizeof_packet_header_def by presburger

lemma split_packets_places:
  assumes "list_all wf_packed ps" and "holds True (sizeof_packet_header + tot + align_pad tot) ps d"
    and "length ps < fuel" and "0 \<le> tot"
    and "received = (if ps = [] then tot else span (sizeof_packet_header + tot + align_pad tot) ps - sizeof_packet_header)"
  shows "split_packets fuel received tot d = Inr ps"
  using assms
proof (induction ps arbitrary: tot fuel)
  case Nil
  then show ?case using align_pad_range [of tot] by (cases fuel) auto
next
  case (Cons p ps)
  obtain f where f: "fuel = Suc f" using Cons.prems(3) by (cases fuel) auto
  define t where "t = tot + align_pad tot"
  define n where "n = sizeof_packet_header + t"
  have n: "sizeof_packet_header + tot + align_pad tot = n" by (simp add: n_def t_def)
  have wp: "wf_packed p" and wps: "list_all wf_packed ps" using Cons.prems(1) by simp_all
  have p: "dg_view d n = p" using Cons.prems(2) by (simp add: n holds_def wire_form_def)
  have b: "t + sizeof_packet_header + ph_data_len (pkt_head p) = t + packet_bytes p"
    using wp by (simp add: wf_packed_def)
  have next_n: "sizeof_packet_header + (t + packet_bytes p) + align_pad (t + packet_bytes p) = next_place n p"
    using align_pad_head [of "t + packet_bytes p"] by (simp add: n_def next_place_def add.assoc)
  have "received > t"
    using Cons.prems(5) span_length [OF Cons.prems(1), of n] unfolding n by (simp only: n_def) simp
  moreover have "split_packets f received (t + packet_bytes p) d = Inr ps"
  proof (rule Cons.IH [OF wps])
    show "holds True (sizeof_packet_header + (t + packet_bytes p) + align_pad (t + packet_bytes p)) ps d"
      using Cons.prems(2) unfolding next_n n by (simp add: holds_def)
    show "length ps < f" using Cons.prems(3) f by simp
    show "0 \<le> t + packet_bytes p"
      using Cons.prems(4) align_pad_range [of tot] wf_packed_pos [OF wp] by (simp add: t_def)
    show "received = (if ps = [] then t + packet_bytes p
        else span (sizeof_packet_header + (t + packet_bytes p) + align_pad (t + packet_bytes p)) ps - sizeof_packet_header)"
      using Cons.prems(5) unfolding next_n n by (simp add: n_def)
  qed
  ultimately show ?case
    using Cons.prems(4) p unfolding f split_packets.simps Let_def t_def [symmetric] n_def [symmetric] p b
    by (simp add: n_def [symmetric])
qed

lemma packets_of_places:
  assumes "list_all wf_packed (p # ps)" and "holds True 0 (p # ps) d" and "n = span 0 (p # ps)"
  shows "packets_of n d = Inr (p # ps)"
proof -
  have wp: "wf_packed p" using assms(1) by simp
  have p: "dg_view d 0 = p" using assms(2) by (simp add: holds_def wire_form_def)
  let ?t = "ph_data_len (pkt_head p)"
  have b: "packet_bytes p = sizeof_packet_header + ?t" "0 \<le> ?t" using wp by (simp_all add: wf_packed_def)
  have n1: "sizeof_packet_header + ?t + align_pad ?t = next_place 0 p"
    using align_pad_head [of ?t] by (simp add: next_place_def b)
  have "split_packets (Suc (nat n)) (n - sizeof_packet_header) ?t d = Inr ps"
  proof (rule split_packets_places)
    show "holds True (sizeof_packet_header + ?t + align_pad ?t) ps d"
      using assms(2) unfolding n1 by (simp add: holds_def)
    show "length ps < Suc (nat n)" using span_length [OF assms(1), of 0] assms(3) by simp
    show "n - sizeof_packet_header = (if ps = [] then ?t
        else span (sizeof_packet_header + ?t + align_pad ?t) ps - sizeof_packet_header)"
      unfolding n1 using assms(3) b by simp
  qed (use assms(1) b in auto)
  then show ?thesis by (simp add: packets_of_def head_at_def p)
qed

lemma wf_unrouted: "wf_packed p \<Longrightarrow> wf_packed (p\<lparr>pkt_head := head_unrouted (pkt_head p)\<rparr>)"
  by (simp add: wf_packed_def packet_bytes_def head_unrouted_def wf_packet_header_def scat_lens_def)

lemma span_unrouted: "span 0 (first_unrouted ps) = span 0 ps"
  by (cases ps) (auto simp: next_place_def packet_bytes_def scat_lens_def head_unrouted_def)

subsection \<open>Sending what waits\<close>

text \<open>The steps \<open>send_loop\<close> still can take: a packet each, and one more for a message.\<close>

definition steps_left :: "'a prot_st_scheme \<Rightarrow> nat" where
  "steps_left s =
     (case dq_links (down_q s) of
        [] \<Rightarrow> 0
      | l # ls \<Rightarrow> (\<Sum>k \<leftarrow> l # ls. length (dl_mess k) + 1) - min (nat (dq_cur_element (down_q s))) (length (dl_mess l)))"

lemma steps_left_same: "down_q t = down_q s \<Longrightarrow> steps_left t = steps_left s"
  by (simp only: steps_left_def)

lemma down_q_net: "net_frame s s' \<Longrightarrow> down_q s' = down_q s"
  by (auto simp: net_frame_def down_q_def)

lemma queue_packet_down_q: "lands (queue_packet h b s) (\<lambda>r. down_q (snd r) = down_q s)"
proof -
  have "down_q (snd (snd (Net_queue_bcast p s))) = down_q s" for p
    by (rule down_q_net) simp
  then show ?thesis
    by (simp add: queue_packet_def Let_def split_beta set_slot_def lands_if down_q_def)
qed

lemma queue_packet_hang: "queue_packet h b s \<noteq> Inl (Hang w)"
  by (simp add: queue_packet_def Let_def split_beta)

lemma down_q_set [simp]: "down_q (set_down_q q s) = q" "down_q (emit e s) = down_q s"
  by (simp_all add: down_q_def set_down_q_def emit_def)

lemma send_one_steps:
  assumes "dq_links (down_q s) = l # ls"
  shows "lands (send_one l ls s) (\<lambda>r. steps_left (snd r) < steps_left s)" and "send_one l ls s \<noteq> Inl (Hang w)"
proof -
  define cur where "cur = dq_cur_element (down_q s)"
  have left: "lands (queue_packet h b t) (\<lambda>r. steps_left (snd r) < steps_left s)"
    if "steps_left t < steps_left s" for h b t
    by (rule lands_mono [OF queue_packet_down_q], drule steps_left_same) (simp add: that)
  have more: "steps_left (set_down_q ((down_q s)\<lparr>dq_cur_element := cur + 1\<rparr>) u) < steps_left s"
    if "0 \<le> cur" "cur + 1 < int (length (dl_mess l))" for u
    using that assms by (simp add: steps_left_def cur_def [symmetric] nat_add_distrib)
  have last: "steps_left (set_down_q \<lparr>dq_links = ls, dq_cur_element = 0\<rparr> u) < steps_left s"
      "steps_left (emit e (set_down_q \<lparr>dq_links = ls, dq_cur_element = 0\<rparr> u)) < steps_left s"
    if "0 \<le> cur" "cur < int (length (dl_mess l))" for u e
  proof -
    have "nat cur < length (dl_mess l)" using that by simp
    then show "steps_left (set_down_q \<lparr>dq_links = ls, dq_cur_element = 0\<rparr> u) < steps_left s"
      "steps_left (emit e (set_down_q \<lparr>dq_links = ls, dq_cur_element = 0\<rparr> u)) < steps_left s"
      using assms by (cases ls; simp add: steps_left_def cur_def [symmetric])+
  qed
  show "lands (send_one l ls s) (\<lambda>r. steps_left (snd r) < steps_left s)"
    unfolding send_one_def Let_def split_beta cur_def [symmetric] by (auto simp: lands_if intro!: left more last)
  show "send_one l ls s \<noteq> Inl (Hang w)"
    by (simp add: send_one_def Let_def split_beta queue_packet_hang)
qed

lemma send_loop_ends: "steps_left s \<le> fuel \<Longrightarrow> send_loop fuel n k s \<noteq> Inl (Hang w)"
proof (induction fuel arbitrary: k s)
  case 0
  then have "dq_links (down_q s) = []" by (cases "dq_links (down_q s)") (auto simp: steps_left_def)
  then show ?case by (simp add: send_loop.simps)
next
  case (Suc fuel)
  show ?case
  proof (cases "dq_links (down_q s)")
    case Nil
    then show ?thesis by (simp add: send_loop.simps)
  next
    case (Cons l ls)
    show ?thesis
    proof (cases "send_one l ls s")
      case (Inl e)
      then show ?thesis using send_one_steps(2) [OF Cons, of w] Cons by (simp add: send_loop.simps)
    next
      case (Inr r)
      then have "steps_left (snd r) < steps_left s" using send_one_steps(1) [OF Cons] by simp
      then show ?thesis using Suc Cons Inr by (simp add: send_loop.simps split_beta)
    qed
  qed
qed

lemma steps_left_fuel: "steps_left s \<le> waiting s + length (dq_links (down_q s))"
proof -
  have "(\<Sum>k \<leftarrow> xs. length (dl_mess k) + 1) = (\<Sum>k \<leftarrow> xs. length (dl_mess k)) + length xs" for xs :: "down_link list"
    by (induction xs) simp_all
  then show ?thesis by (auto simp: steps_left_def waiting_def split: list.split)
qed

subsection \<open>Properties\<close>

definition arriving :: "int \<Rightarrow> 8 word list \<Rightarrow> packet" where
  "arriving n d = (data_packet n d)\<lparr>pkt_head := (pkt_head (data_packet n d))\<lparr>ph_type := Set_endian RELIABLE_TYPE,
     ph_transmiter_id := 11\<rparr>\<rparr>"

text \<open>Two packets of daemon 11, one behind the other: the second starts at byte 40.\<close>

definition arrived_example :: datagram where
  "arrived_example = \<lparr>dg_len = 78, dg_view = (\<lambda>k. if k = 0 then arriving 1 [7] else arriving 2 [8, 9])\<rparr>"

lemmas arriving_defs = arriving_def data_packet_def packet_bytes_def scat_lens_def sizeof_packet_header_def

lemma example_carried: "carries True (pack_list [arriving 1 [7], arriving 2 [8, 9]]) arrived_example"
  by (simp add: carries_def pack_list_def pad_for_def arriving_defs arrived_example_def align_pad_def
      less_Suc_eq wire_form_def elem_bytes_def)

lemma example_wf: "list_all wf_packed [arriving 1 [7], arriving 2 [8, 9]]"
  by (simp add: wf_packed_def arriving_defs wf_packet_header_def is_int16_def is_int32_def)



text \<open>
  C26: sending new packets ends. Every round of the loop of \<open>Send_new_packets\<close> takes a packet
  from the queue or stops at a check, so the rounds never outnumber the packets and messages
  that wait, whatever \<open>num_allowed\<close> is and however many datagrams the network refuses.
\<close>

theorem Send_new_packets_ends: "Send_new_packets num_allowed s \<noteq> Inl (Hang w)"
  using send_loop_ends [OF steps_left_fuel, of s num_allowed 0 w]
  by (cases "send_loop (waiting s + length (dq_links (down_q s))) num_allowed 0 s")
    (auto simp: Send_new_packets_def Let_def split_beta)

end
