(* ===== verification/Token_Visit.thy ===== *)
theory Token_Visit
  imports Packet_Transfer
begin

section \<open>What a daemon writes into the token\<close>

text \<open>
  The aru a daemon passes on, which decides what the others deliver as safe and discard, and
  the retransmissions it asks for.
\<close>

subsection \<open>What retransmitting and sending leave alone\<close>

definition aru_frame :: "daemon \<Rightarrow> daemon \<Rightarrow> bool" where
  "aru_frame s s' \<longleftrightarrow> My_aru s' = My_aru s \<and> State s' = State s"

lemma aru_frame_refl [simp]: "aru_frame s s"
  by (simp add: aru_frame_def)

lemma aru_frame_updates [simp]:
  "aru_frame s (set_slot_head i h t) = aru_frame s t" "aru_frame s (set_slot i p t) = aru_frame s t"
  "aru_frame s (set_down_q q t) = aru_frame s t" "aru_frame s (emit e t) = aru_frame s t"
  "aru_frame s (t\<lparr>Highest_seq := n\<rparr>) = aru_frame s t" "aru_frame s (t\<lparr>Highest_fifo_seq := n\<rparr>) = aru_frame s t"
  by (simp_all add: aru_frame_def set_slot_head_def set_slot_def set_down_q_def emit_def)

lemma aru_frame_net: "net_frame t u \<Longrightarrow> aru_frame s t \<Longrightarrow> aru_frame s u"
  by (auto simp: net_frame_def aru_frame_def)

lemmas aru_frame_sends = aru_frame_net [OF net_frame_ucast] aru_frame_net [OF net_frame_scast]
  aru_frame_net [OF net_frame_queue_bcast] aru_frame_net [OF net_frame_flush]

lemma answer_one_aru: "aru_frame s (snd as) \<Longrightarrow> lands (answer_one g i as) (\<lambda>bs. aru_frame s (snd bs))"
  unfolding answer_one_def send_retrans_def Let_def split_beta by (auto simp: lands_if intro: aru_frame_sends)

lemma Answer_retrans_aru: "aru_frame s t \<Longrightarrow> lands (Answer_retrans rs t) (\<lambda>r. aru_frame s (snd (snd r)))"
  unfolding Answer_retrans_def answer_ring_def
  by (rule lands_seq [where P = "\<lambda>bs. aru_frame s (snd bs)"])
    (auto simp: Let_def split_beta lands_if intro!: lands_for_each answer_one_aru aru_frame_sends)

lemma send_one_aru: "aru_frame s t \<Longrightarrow> lands (send_one l ls t) (\<lambda>r. aru_frame s (snd r))"
  unfolding send_one_def queue_packet_def Let_def split_beta by (auto simp: lands_if intro: aru_frame_sends)

lemma send_loop_aru: "aru_frame s t \<Longrightarrow> lands (send_loop f a n t) (\<lambda>r. aru_frame s (snd r))"
proof (induction f arbitrary: n t)
  case (Suc f)
  then show ?case
    by (subst send_loop.simps)
      (auto simp: lands_if split_beta split: list.split intro!: lands_seq [OF send_one_aru [of s]])
qed (simp split: list.split)

lemma Send_new_packets_aru: "aru_frame s t \<Longrightarrow> lands (Send_new_packets a t) (\<lambda>r. aru_frame s (snd r))"
  unfolding Send_new_packets_def
  by (rule lands_seq [OF send_loop_aru [of s]]) (auto simp: Let_def split_beta intro!: aru_frame_sends)

subsection \<open>The end of the received prefix\<close>

lemma advance_aru_prefix:
  "advance_aru [a + 1 .. b] a s = a' \<Longrightarrow> a \<le> a' \<and> (\<forall>i. a < i \<and> i \<le> a' \<longrightarrow> exist i s \<noteq> 0)
     \<and> (a' < b \<longrightarrow> exist (a' + 1) s = 0) \<and> a' \<le> max a b"
proof (induction "nat (b - a)" arbitrary: a)
  case 0
  then show ?case by simp
next
  case (Suc n)
  have u: "[a + 1 .. b] = (a + 1) # [(a + 1) + 1 .. b]" using Suc.hyps(2) by (intro upto_rec1) simp
  show ?case
  proof (cases "exist (a + 1) s = 0")
    case True
    then show ?thesis using Suc.prems by (simp add: u)
  next
    case False
    have "advance_aru [(a + 1) + 1 .. b] (a + 1) s = a'" using Suc.prems False by (simp add: u)
    moreover have "n = nat (b - (a + 1))" using Suc.hyps(2) by simp
    ultimately have IH: "a + 1 \<le> a'" "\<forall>i. a + 1 < i \<and> i \<le> a' \<longrightarrow> exist i s \<noteq> 0"
        "a' < b \<longrightarrow> exist (a' + 1) s = 0" "a' \<le> max (a + 1) b"
      using Suc.hyps(1) [of "a + 1"] by auto
    have "exist i s \<noteq> 0" if "a < i" "i \<le> a'" for i
      using IH(2) False that by (cases "i = a + 1") auto
    then show ?thesis using IH Suc.hyps(2) by auto
  qed
qed

lemma update_aru_honest:
  "tk_aru (fst (update_aru h s)) \<le> My_aru s \<and> My_aru (snd (update_aru h s)) = My_aru s
     \<and> exist i (snd (update_aru h s)) = exist i s \<and> State (snd (update_aru h s)) = State s
     \<and> Highest_seq (snd (update_aru h s)) = Highest_seq s"
  by (auto simp: update_aru_def exist_def slot_def)

lemma exist_same: "Packets t = Packets s \<Longrightarrow> exist i t = exist i s"
  by (simp add: exist_def slot_def)

text \<open>The daemon between sending and writing the token, and what becomes of it.\<close>

lemma work_on_token_cases:
  assumes "work_on_token leader h rs s = Inr (num_sent, t, s')"
  obtains u k where "aru_frame s (u\<lparr>My_aru := My_aru s\<rparr>)"
    "My_aru u = advance_aru [My_aru s + 1 .. Highest_seq u] (My_aru s) u"
    "s' = snd (update_aru k (ready_to_install u))"
    "tk_aru (tok_head t) = tk_aru (fst (update_aru k (ready_to_install u)))"
    "State s' \<noteq> EVS \<longrightarrow> tk_seq (tok_head t) = Highest_seq s'"
proof -
  define s1 where "s1 = (if Highest_seq s < tk_seq h then s\<lparr>Highest_seq := tk_seq h\<rparr> else s)"
  obtain kept a s2 where A: "Answer_retrans rs s1 = Inr (kept, a, s2)"
    using assms by (auto simp: work_on_token_def s1_def [symmetric] Let_def bindE_eq_Inr split_beta)
  obtain n s3 where B: "Send_new_packets (FC_allowed (tk_flow_control h) (ra_num a) s2) s2 = Inr (n, s3)"
    using assms A by (auto simp: work_on_token_def s1_def [symmetric] Let_def bindE_eq_Inr split_beta)
  define u where "u = s3\<lparr>Last_num_retrans := ra_num a, Last_num_sent := n,
    My_aru := advance_aru [My_aru s3 + 1 .. Highest_seq s3] (My_aru s3) s3\<rparr>"
  define k where "k = h\<lparr>tk_flow_control := int16_of (tk_flow_control h - Last_num_retrans s3 - Last_num_sent s3 + ra_num a + n),
    tk_rtr_len := int16_of (rtr_list_bytes (my_requests kept a u))\<rparr>"
  have "aru_frame s s1" by (simp add: s1_def)
  then have "aru_frame s s2" using landsD [OF Answer_retrans_aru A] by simp
  then have f: "aru_frame s s3" using landsD [OF Send_new_packets_aru B] by simp
  have adv: "advance_aru is m u = advance_aru is m s3" for "is" m
  proof -
    have "exist i u = exist i s3" for i by (rule exist_same) (simp add: u_def)
    then show ?thesis by (induction "is" arbitrary: m) simp_all
  qed
  show thesis
  proof (rule that [of u k])
    show "aru_frame s (u\<lparr>My_aru := My_aru s\<rparr>)" using f by (simp add: u_def aru_frame_def)
    show "My_aru u = advance_aru [My_aru s + 1 .. Highest_seq u] (My_aru s) u"
      unfolding adv using f by (simp add: u_def aru_frame_def)
    let ?h1 = "fst (update_aru k (ready_to_install u))" and ?s' = "snd (update_aru k (ready_to_install u))"
    have "work_on_token leader h rs s = Inr (n, \<lparr>tok_head = ?h1\<lparr>tk_proc_id := my_id ?s',
          tk_seq := if State ?s' \<noteq> EVS then Highest_seq ?s' else tk_seq ?h1,
          tk_type := if leader then next_arq (tk_type ?h1) else tk_type ?h1\<rparr>,
        tok_body = Rtr_body (my_requests kept a u)\<rparr>, ?s')"
      by (simp add: work_on_token_def s1_def [symmetric] Let_def A B split_beta u_def k_def)
    with assms show s': "s' = ?s'" and "tk_aru (tok_head t) = tk_aru ?h1"
        and "State s' \<noteq> EVS \<longrightarrow> tk_seq (tok_head t) = Highest_seq s'" by auto
  qed
qed

subsection \<open>Properties\<close>


text \<open>A daemon that has packet 1 of two, visited by a token that claims both.\<close>

definition visited_example :: daemon where
  "visited_example = daemon_example\<lparr>Highest_seq := 2, Packets :=
     (\<lambda>e. (Packets daemon_example e)\<lparr>pk_exist := if e = 1 then 1 else 0\<rparr>)\<rparr>"


end
