(* ===== verification/Recovery.thy ===== *)
theory Recovery
  imports Membership
begin

section \<open>What the form token knows of an old ring\<close>

text \<open>
  The first round of the form token collects a description of every old ring: each member of
  the old ring merges its own state into what the members before it have written
  (\<open>new_ring\<close>, then \<open>merge_my_ring\<close>). Here: the holes that remain are the packets that no
  member has, so everything else can be recovered by retransmission.
\<close>

definition collect_ring :: "daemon list \<Rightarrow> ring_info \<Rightarrow> ring_info outcome" where
  "collect_ring ds g = for_each (\<lambda>d g. merge_my_ring g d) ds g"

text \<open>Packets up to \<open>upper\<close> that a member stores are not above its highest sequence number.\<close>

definition numbered :: "int \<Rightarrow> int \<Rightarrow> daemon \<Rightarrow> bool" where
  "numbered base upper d \<longleftrightarrow> (\<forall>i. base < i \<and> i \<le> upper \<and> exist i d \<noteq> 0 \<longrightarrow> i \<le> Highest_seq d)"

definition common_holes :: "int \<Rightarrow> daemon list \<Rightarrow> ring_info \<Rightarrow> bool" where
  "common_holes base ds g \<longleftrightarrow> (\<forall>d \<in> set ds. Highest_seq d \<le> rg_highest_seq g \<and> Aru d \<le> rg_aru g)
     \<and> rg_highest_seq g \<in> Highest_seq ` set ds \<and> rg_aru g \<in> Aru ` set ds
     \<and> (\<forall>i. i \<in> set (rg_holes g) \<longleftrightarrow> base < i \<and> i \<le> rg_highest_seq g \<and> (\<forall>d \<in> set ds. exist i d = 0))"

lemma new_ring_holes: "common_holes (Last_discarded d) [d] (new_ring d)"
  by (auto simp: common_holes_def new_ring_def missing_def)

lemma merge_my_ring_holes:
  assumes "common_holes base ds g" and "merge_my_ring g d = Inr g'" and "ds \<noteq> []"
    and "\<forall>e \<in> set ds. base \<le> Highest_seq e \<and> numbered base upper e" and "Highest_seq d \<le> upper" and "rg_highest_seq g \<le> upper"
    and "numbered base upper d"
  shows "common_holes base (ds @ [d]) g'" and "rg_highest_seq g' \<le> upper"
proof -
  have h: "rg_highest_seq g' = max (rg_highest_seq g) (Highest_seq d)" "rg_aru g' = max (rg_aru g) (Aru d)"
    and holes: "set (rg_holes g') = {i \<in> set (rg_holes g). exist i d = 0}
      \<union> {i. rg_highest_seq g < i \<and> i \<le> Highest_seq d \<and> exist i d = 0}"
    using assms(2) by (auto simp: merge_my_ring_def Let_def missing_def split: if_splits)
  have c: "\<And>e. e \<in> set ds \<Longrightarrow> Highest_seq e \<le> rg_highest_seq g"
    "\<And>i. i \<in> set (rg_holes g) \<longleftrightarrow> base < i \<and> i \<le> rg_highest_seq g \<and> (\<forall>e \<in> set ds. exist i e = 0)"
    using assms(1) by (simp_all add: common_holes_def)
  obtain e0 where "e0 \<in> set ds" using assms(3) by (cases ds) auto
  then have base: "base \<le> rg_highest_seq g" using c(1) [of e0] assms(4) by force
  show "rg_highest_seq g' \<le> upper" using h assms by simp
  have above: "exist i e = 0" if "e \<in> set ds" "i \<le> Highest_seq d" "rg_highest_seq g < i" for e i
  proof (rule ccontr)
    assume "exist i e \<noteq> 0"
    then have "i \<le> Highest_seq e" using that assms(4,5) base by (auto simp: numbered_def)
    then show False using c(1) [OF that(1)] that(3) by simp
  qed
  have "i \<in> set (rg_holes g') \<longleftrightarrow> base < i \<and> i \<le> rg_highest_seq g' \<and> (\<forall>e \<in> set (ds @ [d]). exist i e = 0)" for i
  proof (cases "i \<le> rg_highest_seq g")
    case True
    then show ?thesis using c(2) [of i] unfolding holes h by auto
  next
    case False
    then show ?thesis using c(2) [of i] base above [of _ i] unfolding holes h by auto
  qed
  then show "common_holes base (ds @ [d]) g'"
    using assms(1) by (auto simp: common_holes_def h max_def)
qed

lemma collect_ring_holes:
  "common_holes base ds g \<Longrightarrow> collect_ring es g = Inr g' \<Longrightarrow> ds \<noteq> [] \<Longrightarrow>
   (\<forall>e \<in> set (ds @ es). base \<le> Highest_seq e \<and> Highest_seq e \<le> upper \<and> numbered base upper e) \<Longrightarrow>
   rg_highest_seq g \<le> upper \<Longrightarrow> common_holes base (ds @ es) g'"
proof (induction es arbitrary: ds g)
  case (Cons e es)
  from Cons.prems(2) obtain g1 where g1: "merge_my_ring g e = Inr g1" "collect_ring es g1 = Inr g'"
    by (auto simp: collect_ring_def bindE_eq_Inr)
  have "common_holes base (ds @ [e]) g1" "rg_highest_seq g1 \<le> upper"
    using merge_my_ring_holes [OF Cons.prems(1) g1(1) Cons.prems(3), of upper] Cons.prems(4,5) by auto
  then show ?case using Cons.IH [of "ds @ [e]" g1] g1(2) Cons.prems(4) by simp
qed (simp add: collect_ring_def)

text \<open>
  C24: the form token finds what can be recovered. When the members \<open>d # ds\<close> of an old ring
  have written their parts into its description, its highest sequence number and its aru are
  the largest of theirs, and its holes, above what the first of them has discarded, are exactly
  the sequence numbers for which no member has the packet.
\<close>

theorem form_token_holes:
  assumes "collect_ring ds (new_ring d) = Inr g"
    and "list_all (\<lambda>e. Last_discarded d \<le> Highest_seq e \<and> Highest_seq e \<le> upper
           \<and> numbered (Last_discarded d) upper e) (d # ds)"
  shows "rg_highest_seq g = Max (Highest_seq ` set (d # ds)) \<and> rg_aru g = Max (Aru ` set (d # ds))
    \<and> set (rg_holes g) = {i. Last_discarded d < i \<and> i \<le> rg_highest_seq g \<and> list_all (\<lambda>e. exist i e = 0) (d # ds)}"
proof -
  have "rg_highest_seq (new_ring d) \<le> upper" using assms(2) by (simp add: new_ring_def)
  then have c: "common_holes (Last_discarded d) ([d] @ ds) g"
    using collect_ring_holes [OF new_ring_holes assms(1), of upper] assms(2) by (simp add: list_all_iff)
  have "rg_highest_seq g = Max (Highest_seq ` set (d # ds))" "rg_aru g = Max (Aru ` set (d # ds))"
    using c by (auto simp: common_holes_def intro!: Max_eqI [symmetric])
  moreover have "set (rg_holes g) = {i. Last_discarded d < i \<and> i \<le> rg_highest_seq g \<and> list_all (\<lambda>e. exist i e = 0) (d # ds)}"
    using c by (auto simp: common_holes_def list_all_iff)
  ultimately show ?thesis by blast
qed

text \<open>Two members: one has packet 2 of three, the other packet 1 of two.\<close>

definition holder :: "int set \<Rightarrow> int \<Rightarrow> daemon" where
  "holder has upper = daemon_example\<lparr>Highest_seq := upper, Packets :=
     (\<lambda>e. (Packets daemon_example e)\<lparr>pk_exist := if int e \<in> has then 1 else 0\<rparr>)\<rparr>"

lemma exist_holder: "exist i (holder has upper) = (if i mod MAX_PACKETS_IN_STRUCT \<in> has then 1 else 0)"
  by (simp add: exist_def slot_def pack_entry_def holder_def MAX_PACKETS_IN_STRUCT_def)

theorem form_token_holes_witness:
  "\<exists>g. collect_ring [(holder {1} 2)\<lparr>My := Config_procs daemon_example ! 0\<rparr>] (new_ring (holder {2} 3)) = Inr g
     \<and> set (rg_holes g) = {3}"
proof -
  let ?d = "holder {2} 3" and ?e = "(holder {1} 2)\<lparr>My := Config_procs daemon_example ! 0\<rparr>"
  have e: "exist i ?e = (if i mod MAX_PACKETS_IN_STRUCT = 1 then 1 else 0)" for i
    using exist_holder [of i "{1}" 2] by (simp add: exist_def slot_def)
  have "rg_num_trans (new_ring ?d) = 1" "rg_commit (new_ring ?d) = [12, 13, 11]"
    by (simp_all add: new_ring_def commit_list_def holder_def my_id_def members_of_def prefix_of_def daemon_example_simps)
  then have "\<not> isl (merge_my_ring (new_ring ?d) ?e)"
    by (simp add: merge_my_ring_def insert_all_def no_members_def Insert_member_def members_of_def prefix_of_def
        arr_put_def my_id_def holder_def daemon_example_simps MAX_PROCS_RING_def)
  then obtain g where g: "collect_ring [?e] (new_ring ?d) = Inr g"
    by (cases "merge_my_ring (new_ring ?d) ?e") (auto simp: collect_ring_def)
  have top: "Highest_seq ?d = 3" "Highest_seq ?e = 2" "Last_discarded ?d = 0" "Last_discarded ?e = 0"
    by (simp_all add: holder_def daemon_example_simps)
  have "list_all (\<lambda>e. Last_discarded ?d \<le> Highest_seq e \<and> Highest_seq e \<le> 3 \<and> numbered (Last_discarded ?d) 3 e) [?d, ?e]"
    by (auto simp: numbered_def top e exist_holder MAX_PACKETS_IN_STRUCT_def)
  from form_token_holes [OF g this] have "rg_highest_seq g = 3"
      "set (rg_holes g) = {i. 0 < i \<and> i \<le> 3 \<and> exist i ?d = 0 \<and> exist i ?e = 0}"
    by (simp_all add: top)
  moreover have "{i. 0 < i \<and> i \<le> 3 \<and> exist i ?d = 0 \<and> exist i ?e = 0} = {3}"
    by (auto simp: e exist_holder MAX_PACKETS_IN_STRUCT_def)
  ultimately show ?thesis using g by auto
qed

end
