(* ===== verification/Bytes.thy ===== *)
theory Bytes
  imports Net_Types "HOL-Library.Char_ord" "HOL-Library.List_Lexorder"
begin

section \<open>Bytes: integers and names in message buffers\<close>

text \<open>
  The buffers of the session and group layers are byte lists. A \<open>memcpy\<close> of an \<open>int32\<close> or
  \<open>int16u\<close> copies its bytes in the order of the host. \<open>bytes32 foreign w\<close> are the bytes a host
  writes, \<open>foreign\<close> telling whether its byte order is the opposite of this daemon's; reading
  them on this daemon gives \<open>w\<close> flipped exactly when \<open>foreign\<close>. A name is a C string in an array
  of \<open>MAX_GROUP_NAME\<close> bytes: the string is the bytes before the first NUL, the rest are zero
  where the code clears the array. Names are ordered as \<open>strcmp\<close> orders them, by the unsigned
  values of their characters.
\<close>

definition MAX_GROUP_NAME :: nat where "MAX_GROUP_NAME = 32"
definition MAX_PRIVATE_NAME :: nat where "MAX_PRIVATE_NAME = 10"

subsection \<open>Integers\<close>

definition host32 :: "32 word \<Rightarrow> 8 word list" where
  "host32 w = [ucast w, ucast (drop_bit 8 w), ucast (drop_bit 16 w), ucast (drop_bit 24 w)]"

definition host16 :: "16 word \<Rightarrow> 8 word list" where
  "host16 w = [ucast w, ucast (drop_bit 8 w)]"

definition bytes32 :: "bool \<Rightarrow> 32 word \<Rightarrow> 8 word list" where
  "bytes32 foreign w = (if foreign then rev (host32 w) else host32 w)"

definition bytes16 :: "bool \<Rightarrow> 16 word \<Rightarrow> 8 word list" where
  "bytes16 foreign w = (if foreign then rev (host16 w) else host16 w)"

definition read32 :: "8 word list \<Rightarrow> 32 word" where
  "read32 bs = ucast (bs ! 0) OR push_bit 8 (ucast (bs ! 1)) OR push_bit 16 (ucast (bs ! 2))
                 OR push_bit 24 (ucast (bs ! 3))"

definition read16 :: "8 word list \<Rightarrow> 16 word" where
  "read16 bs = ucast (bs ! 0) OR push_bit 8 (ucast (bs ! 1))"

lemma length_bytes32 [simp]: "length (bytes32 f w) = 4"
  by (simp add: bytes32_def host32_def)

lemma length_bytes16 [simp]: "length (bytes16 f w) = 2"
  by (simp add: bytes16_def host16_def)

lemma bit_byte_le: "bit (b :: 8 word) n \<Longrightarrow> n < 8"
  using bit_imp_le_length [of b n] by simp

lemma bit_byte_ge: "8 \<le> n \<Longrightarrow> \<not> bit (b :: 8 word) n"
  using bit_byte_le [of b n] by auto

lemma bit_read32: "n < 32 \<Longrightarrow> bit (read32 bs) n \<longleftrightarrow> bit (bs ! (n div 8)) (n mod 8)"
proof -
  assume n: "n < 32"
  consider "n < 8" | "8 \<le> n" "n < 16" | "16 \<le> n" "n < 24" | "24 \<le> n" by linarith
  then show ?thesis
  proof cases
    case 1 then show ?thesis using n by (simp add: read32_def bit_simps)
  next
    case 2
    then have "n div 8 = 1" using n by (intro div_nat_eqI) simp_all
    moreover from this have "n mod 8 = n - 8" by (simp add: modulo_nat_def)
    ultimately show ?thesis using n 2 by (simp add: read32_def bit_simps bit_byte_ge less_imp_diff_less)
  next
    case 3
    then have "n div 8 = 2" using n by (intro div_nat_eqI) simp_all
    moreover from this have "n mod 8 = n - 16" by (simp add: modulo_nat_def)
    ultimately show ?thesis using n 3 by (simp add: read32_def bit_simps bit_byte_ge less_imp_diff_less)
  next
    case 4
    then have "n div 8 = 3" using n by (intro div_nat_eqI) simp_all
    moreover from this have "n mod 8 = n - 24" by (simp add: modulo_nat_def)
    ultimately show ?thesis using n 4 by (simp add: read32_def bit_simps bit_byte_ge less_imp_diff_less)
  qed
qed

lemma bit_read16: "n < 16 \<Longrightarrow> bit (read16 bs) n \<longleftrightarrow> bit (bs ! (n div 8)) (n mod 8)"
proof -
  assume n: "n < 16"
  show ?thesis
  proof (cases "n < 8")
    case True then show ?thesis by (simp add: read16_def bit_simps)
  next
    case False
    then have "n div 8 = 1" using n by (intro div_nat_eqI) simp_all
    moreover from this have "n mod 8 = n - 8" by (simp add: modulo_nat_def)
    ultimately show ?thesis using n False by (simp add: read16_def bit_simps bit_byte_ge less_imp_diff_less)
  qed
qed

lemma bit_host32: "i < 4 \<Longrightarrow> m < 8 \<Longrightarrow> bit (host32 w ! i) m \<longleftrightarrow> bit w (8 * i + m)"
proof -
  assume "i < 4" "m < 8"
  then consider "i = 0" | "i = 1" | "i = 2" | "i = 3" by linarith
  then show ?thesis using \<open>m < 8\<close> by cases (simp_all add: host32_def bit_simps)
qed

lemma bit_host16: "i < 2 \<Longrightarrow> m < 8 \<Longrightarrow> bit (host16 w ! i) m \<longleftrightarrow> bit w (8 * i + m)"
proof -
  assume "i < 2" "m < 8"
  then consider "i = 0" | "i = 1" by linarith
  then show ?thesis using \<open>m < 8\<close> by cases (simp_all add: host16_def bit_simps)
qed

lemma length_host32 [simp]: "length (host32 w) = 4"
  by (simp add: host32_def)

lemma length_host16 [simp]: "length (host16 w) = 2"
  by (simp add: host16_def)

lemma read32_host [simp]: "read32 (host32 w @ rest) = w"
  by (rule bit_word_eqI) (simp add: bit_read32 bit_host32 nth_append div_less_iff_less_mult)

lemma read16_host [simp]: "read16 (host16 w @ rest) = w"
  by (rule bit_word_eqI) (simp add: bit_read16 bit_host16 nth_append div_less_iff_less_mult)

lemma rev_host32: "rev (host32 w) = host32 (Flip_int32 w)"
proof -
  have "ucast (Flip_int32 w) = (ucast (drop_bit 24 w) :: 8 word)"
    "ucast (drop_bit 8 (Flip_int32 w)) = (ucast (drop_bit 16 w) :: 8 word)"
    "ucast (drop_bit 16 (Flip_int32 w)) = (ucast (drop_bit 8 w) :: 8 word)"
    "ucast (drop_bit 24 (Flip_int32 w)) = (ucast w :: 8 word)"
    by (rule bit_word_eqI, simp add: bit_simps bit_Flip_int32 add.commute)+
  then show ?thesis by (simp add: host32_def)
qed

lemma rev_host16: "rev (host16 w) = host16 (Flip_int16 w)"
proof -
  have "ucast (Flip_int16 w) = (ucast (drop_bit 8 w) :: 8 word)"
    "ucast (drop_bit 8 (Flip_int16 w)) = (ucast w :: 8 word)"
    by (rule bit_word_eqI, simp add: bit_simps bit_Flip_int16 add.commute)+
  then show ?thesis by (simp add: host16_def)
qed

lemma read32_rev: "read32 (rev (host32 w) @ rest) = Flip_int32 w"
  by (simp add: rev_host32)

lemma read16_rev: "read16 (rev (host16 w) @ rest) = Flip_int16 w"
  by (simp add: rev_host16)

text \<open>Reading and flipping when the writer's order is foreign gives back the value.\<close>

definition order32 :: "bool \<Rightarrow> 32 word \<Rightarrow> 32 word" where
  "order32 foreign w = (if foreign then Flip_int32 w else w)"

definition order16 :: "bool \<Rightarrow> 16 word \<Rightarrow> 16 word" where
  "order16 foreign w = (if foreign then Flip_int16 w else w)"

lemma order32_read [simp]: "order32 f (read32 (bytes32 f w @ rest)) = w"
  by (simp add: order32_def bytes32_def read32_rev Flip_int32_flip)

lemma order16_read [simp]: "order16 f (read16 (bytes16 f w @ rest)) = w"
  by (simp add: order16_def bytes16_def read16_rev Flip_int16_flip)

subsection \<open>Names\<close>

definition NUL :: char where "NUL = CHR 0x00"

definition cstr :: "char list \<Rightarrow> string" where
  "cstr cs = takeWhile (\<lambda>c. c \<noteq> NUL) cs"

definition name_array :: "string \<Rightarrow> char list" where
  "name_array name = take MAX_GROUP_NAME (name @ replicate MAX_GROUP_NAME NUL)"

definition name_bytes :: "string \<Rightarrow> 8 word list" where
  "name_bytes name = map of_char (name_array name)"

text \<open>A string that fits an array of \<open>n\<close> characters with its terminating NUL.\<close>

definition fits :: "nat \<Rightarrow> string \<Rightarrow> bool" where
  "fits n name \<longleftrightarrow> NUL \<notin> set name \<and> length name < n"

definition chars_of :: "8 word list \<Rightarrow> char list" where
  "chars_of bs = map (\<lambda>b. char_of (unat b)) bs"

lemma length_name_array [simp]: "length (name_array name) = 32"
  by (simp add: name_array_def MAX_GROUP_NAME_def)

lemma length_name_bytes [simp]: "length (name_bytes name) = 32"
  by (simp add: name_bytes_def)

lemma chars_of_bytes [simp]: "chars_of (map of_char cs) = cs"
proof -
  have "char_of (unat (of_char c :: 8 word)) = c" for c
  proof -
    have "(of_char c :: 8 word) = of_nat (of_char c)" by (rule of_nat_of_char [symmetric])
    then have "unat (of_char c :: 8 word) = of_char c"
      using nat_of_char_less_256 [of c] by (simp only: unat_of_nat) simp
    then show ?thesis by simp
  qed
  then show ?thesis by (induction cs) (simp_all add: chars_of_def)
qed

lemma cstr_fits: "fits n name \<Longrightarrow> cstr (name @ NUL # rest) = name"
  unfolding cstr_def fits_def by (subst takeWhile_append2) auto

lemma cstr_name_array: "fits 32 name \<Longrightarrow> cstr (name_array name) = name"
proof -
  assume f: "fits 32 name"
  then obtain k where "32 - length name = Suc k"
    by (metis fits_def Suc_diff_Suc)
  with f have "name_array name = name @ NUL # replicate k NUL"
    by (simp add: name_array_def MAX_GROUP_NAME_def fits_def)
  then show ?thesis using cstr_fits [OF f] by simp
qed

end
