(* ===== verification/Message.thy ===== *)
theory Message
  imports Bytes
begin

section \<open>Messages of clients and groups\<close>

text \<open>
  Model of \<open>daemon/message.c\<close> and of the message header of \<open>sess_types.h\<close>. A message is a
  scatter of at most \<open>MAX_SCATTER_ELEMENTS\<close> packet bodies; the first starts with the header, so it
  is kept as a header and the data bytes of its elements, the first without the header's.
  The array of group names and the user data follow the header, running over the elements.
\<close>

subsection \<open>Types and sizes\<close>

definition UNRELIABLE_MESS :: "32 word" where "UNRELIABLE_MESS = 0x00000001"
definition RELIABLE_MESS :: "32 word" where "RELIABLE_MESS = 0x00000002"
definition FIFO_MESS :: "32 word" where "FIFO_MESS = 0x00000004"
definition CAUSAL_MESS :: "32 word" where "CAUSAL_MESS = 0x00000008"
definition AGREED_MESS :: "32 word" where "AGREED_MESS = 0x00000010"
definition SAFE_MESS :: "32 word" where "SAFE_MESS = 0x00000020"
definition REGULAR_MESS :: "32 word" where "REGULAR_MESS = 0x0000003f"
definition NOT_REGULAR_MESS :: "32 word" where "NOT_REGULAR_MESS = 0x00ffff00"
definition SELF_DISCARD :: "32 word" where "SELF_DISCARD = 0x00000040"
definition REG_MEMB_MESS :: "32 word" where "REG_MEMB_MESS = 0x00001000"
definition TRANSITION_MESS :: "32 word" where "TRANSITION_MESS = 0x00002000"
definition CAUSED_BY_JOIN :: "32 word" where "CAUSED_BY_JOIN = 0x00000100"
definition CAUSED_BY_LEAVE :: "32 word" where "CAUSED_BY_LEAVE = 0x00000200"
definition CAUSED_BY_DISCONNECT :: "32 word" where "CAUSED_BY_DISCONNECT = 0x00000400"
definition CAUSED_BY_NETWORK :: "32 word" where "CAUSED_BY_NETWORK = 0x00000800"
definition JOIN_MESS :: "32 word" where "JOIN_MESS = 0x00010000"
definition LEAVE_MESS :: "32 word" where "LEAVE_MESS = 0x00020000"
definition KILL_MESS :: "32 word" where "KILL_MESS = 0x00040000"
definition GROUPS_MESS :: "32 word" where "GROUPS_MESS = 0x00080000"
definition REJECT_MESS :: "32 word" where "REJECT_MESS = 0x00400000"

definition Is_unreliable_mess :: "32 word \<Rightarrow> bool" where "Is_unreliable_mess t \<longleftrightarrow> t AND UNRELIABLE_MESS \<noteq> 0"
definition Is_reliable_mess :: "32 word \<Rightarrow> bool" where "Is_reliable_mess t \<longleftrightarrow> t AND RELIABLE_MESS \<noteq> 0"
definition Is_fifo_mess :: "32 word \<Rightarrow> bool" where "Is_fifo_mess t \<longleftrightarrow> t AND FIFO_MESS \<noteq> 0"
definition Is_causal_mess :: "32 word \<Rightarrow> bool" where "Is_causal_mess t \<longleftrightarrow> t AND CAUSAL_MESS \<noteq> 0"
definition Is_agreed_mess :: "32 word \<Rightarrow> bool" where "Is_agreed_mess t \<longleftrightarrow> t AND AGREED_MESS \<noteq> 0"
definition Is_safe_mess :: "32 word \<Rightarrow> bool" where "Is_safe_mess t \<longleftrightarrow> t AND SAFE_MESS \<noteq> 0"
definition Is_join_mess :: "32 word \<Rightarrow> bool" where "Is_join_mess t \<longleftrightarrow> t AND JOIN_MESS \<noteq> 0"
definition Is_leave_mess :: "32 word \<Rightarrow> bool" where "Is_leave_mess t \<longleftrightarrow> t AND LEAVE_MESS \<noteq> 0"
definition Is_kill_mess :: "32 word \<Rightarrow> bool" where "Is_kill_mess t \<longleftrightarrow> t AND KILL_MESS \<noteq> 0"
definition Is_groups_mess :: "32 word \<Rightarrow> bool" where "Is_groups_mess t \<longleftrightarrow> t AND GROUPS_MESS \<noteq> 0"
definition Is_reject_mess :: "32 word \<Rightarrow> bool" where "Is_reject_mess t \<longleftrightarrow> t AND REJECT_MESS \<noteq> 0"
definition Is_self_discard :: "32 word \<Rightarrow> bool" where "Is_self_discard t \<longleftrightarrow> t AND SELF_DISCARD \<noteq> 0"
definition Is_only_regular_mess :: "32 word \<Rightarrow> bool" where
  "Is_only_regular_mess t \<longleftrightarrow> t AND REGULAR_MESS \<noteq> 0 \<and> t AND NOT_REGULAR_MESS = 0"

lemmas mess_flags = UNRELIABLE_MESS_def RELIABLE_MESS_def FIFO_MESS_def CAUSAL_MESS_def
  AGREED_MESS_def SAFE_MESS_def REGULAR_MESS_def NOT_REGULAR_MESS_def SELF_DISCARD_def
  REG_MEMB_MESS_def TRANSITION_MESS_def CAUSED_BY_JOIN_def CAUSED_BY_LEAVE_def
  CAUSED_BY_DISCONNECT_def CAUSED_BY_NETWORK_def JOIN_MESS_def LEAVE_MESS_def KILL_MESS_def
  GROUPS_MESS_def REJECT_MESS_def

lemmas mess_tests = Is_unreliable_mess_def Is_reliable_mess_def Is_fifo_mess_def
  Is_causal_mess_def Is_agreed_mess_def Is_safe_mess_def Is_join_mess_def Is_leave_mess_def
  Is_kill_mess_def Is_groups_mess_def Is_reject_mess_def Is_self_discard_def
  Is_only_regular_mess_def

definition MAX_SCATTER_ELEMENTS :: nat where "MAX_SCATTER_ELEMENTS = 100"
definition sizeof_packet_body :: nat where "sizeof_packet_body = 1436"
definition sizeof_message_header :: nat where "sizeof_message_header = 48"
definition MAX_MESSAGE_BODY_LEN :: nat where
  "MAX_MESSAGE_BODY_LEN = MAX_SCATTER_ELEMENTS * (nat MAX_PACKET_SIZE - 32)"
definition MAX_GROUPS_PER_MESSAGE :: nat where "MAX_GROUPS_PER_MESSAGE = 100"

lemmas mess_sizes = MAX_SCATTER_ELEMENTS_def sizeof_packet_body_def sizeof_message_header_def
  MAX_MESSAGE_BODY_LEN_def MAX_GROUPS_PER_MESSAGE_def MAX_PACKET_SIZE_def MAX_GROUP_NAME_def

lemma packet_body_size: "int sizeof_packet_body = MAX_PACKET_SIZE - sizeof_packet_header"
  by (simp add: mess_sizes sizeof_packet_header_def)

subsection \<open>Data\<close>

record message_header =
  mh_type :: "32 word"
  mh_private_group_name :: "char list"
  mh_num_groups :: int
  mh_hint :: "32 word"
  mh_data_len :: int

record message_obj =
  mo_head :: message_header
  mo_data :: "8 word list list"

definition head_bytes :: "message_header \<Rightarrow> 8 word list" where
  "head_bytes h = host32 (mh_type h) @ map of_char (mh_private_group_name h)
     @ host32 (word_of_int (mh_num_groups h)) @ host32 (mh_hint h) @ host32 (word_of_int (mh_data_len h))"

text \<open>The elements as the code has them: the first includes the header.\<close>

definition elements :: "message_obj \<Rightarrow> 8 word list list" where
  "elements m = (case mo_data m of [] \<Rightarrow> [] | d # ds \<Rightarrow> (head_bytes (mo_head m) @ d) # ds)"

definition blank_mess_header :: message_header where
  "blank_mess_header = \<lparr>mh_type = 0, mh_private_group_name = replicate MAX_GROUP_NAME NUL,
     mh_num_groups = 0, mh_hint = 0, mh_data_len = 0\<rparr>"

subsection \<open>Making and reading messages\<close>

definition Message_get_packet_type :: "32 word \<Rightarrow> 32 word" where
  "Message_get_packet_type t =
     (if Is_unreliable_mess t then RELIABLE_TYPE
      else if Is_reliable_mess t then RELIABLE_TYPE
      else if Is_fifo_mess t then FIFO_TYPE
      else if Is_causal_mess t \<or> Is_agreed_mess t then AGREED_TYPE
      else if Is_safe_mess t then SAFE_TYPE
      else if Is_join_mess t then AGREED_TYPE
      else if Is_leave_mess t then AGREED_TYPE
      else if Is_kill_mess t then AGREED_TYPE
      else -1)"

definition Message_new_message :: message_obj where
  "Message_new_message = \<lparr>mo_head = blank_mess_header, mo_data = [[]]\<rparr>"

text \<open>\<open>strncpy( .., sender_name, MAX_GROUP_NAME )\<close> pads with NULs.\<close>

definition Message_create_message :: "32 word \<Rightarrow> string \<Rightarrow> message_obj" where
  "Message_create_message mess_type sender_name =
     Message_new_message\<lparr>mo_head := \<lparr>mh_type = Set_endian mess_type, mh_private_group_name = name_array sender_name,
       mh_num_groups = 0, mh_hint = Set_endian 0, mh_data_len = 0\<rparr>\<rparr>"

definition Flip_mess :: "message_header \<Rightarrow> message_header" where
  "Flip_mess h = h\<lparr>mh_type := Flip_int32 (mh_type h), mh_num_groups := flip_i32 (mh_num_groups h),
     mh_data_len := flip_i32 (mh_data_len h)\<rparr>"

definition Message_endian_correct_message_header :: "message_obj \<Rightarrow> message_obj" where
  "Message_endian_correct_message_header m =
     (if \<not> Same_endian (mh_type (mo_head m)) then m\<lparr>mo_head := Flip_mess (mo_head m)\<rparr> else m)"

text \<open>The bytes from the pointer on, up to the end of its element.\<close>

definition element_data :: "message_obj \<Rightarrow> nat \<Rightarrow> 8 word list" where
  "element_data m i = (if i < length (mo_data m) then mo_data m ! i else [])"

definition Message_get_first_data_ptr :: "message_obj \<Rightarrow> 8 word list" where
  "Message_get_first_data_ptr m =
     (if Is_reject_mess (mh_type (mo_head m)) then element_data m 1 else element_data m 0)"

definition Message_get_first_data_len :: "message_obj \<Rightarrow> int" where
  "Message_get_first_data_len m =
     (if Is_reject_mess (mh_type (mo_head m)) then 0 else int (length (element_data m 0)))"

definition Message_get_first_group :: "message_obj \<Rightarrow> 8 word list" where
  "Message_get_first_group m =
     (if Is_reject_mess (mh_type (mo_head m)) then drop 4 (element_data m 1) else element_data m 0)"

text \<open>
  The array of group names. When it does not fit in the element it starts in, the elements are
  copied to \<open>Temp_buf\<close>, from the start of the element on, and \<open>Temp_buf\<close> is returned.
\<close>

definition Message_get_groups_array :: "message_obj \<Rightarrow> 8 word list outcome" where
  "Message_get_groups_array m =
     (let reject = Is_reject_mess (mh_type (mo_head m));
          start = (if reject then 4 else sizeof_message_header);
          groups_bytes = int start + mh_num_groups (mo_head m) * int MAX_GROUP_NAME;
          els = drop (if reject then 1 else 0) (elements m)
      in case els of
           [] \<Rightarrow> Inl (Undefined ''Message_get_groups_array'')
         | e # _ \<Rightarrow>
             if groups_bytes > int (length e) then
               (if int (length (concat els)) < groups_bytes then Inl (Assert_fail ''Message_get_groups_array'')
                else Inr (take (nat groups_bytes) (concat els)))
             else Inr (drop start e))"

text \<open>
  \<open>Message_Buffer_to_Message_Fragments\<close> spreads a buffer over the elements of a fresh message.
\<close>

fun fragments :: "nat \<Rightarrow> 8 word list \<Rightarrow> 8 word list list" where
  "fragments 0 buf = []"
| "fragments (Suc n) buf = take sizeof_packet_body buf # fragments n (drop sizeof_packet_body buf)"

definition Message_Buffer_to_Message_Fragments :: "message_obj \<Rightarrow> 8 word list \<Rightarrow> message_obj outcome" where
  "Message_Buffer_to_Message_Fragments m buf =
     (let num_elements = (length buf + sizeof_message_header - 1) div sizeof_packet_body + 1;
          bytes_to_copy = min (length buf) (sizeof_packet_body - sizeof_message_header)
      in if num_elements > MAX_SCATTER_ELEMENTS then Inl (Undefined ''Message_Buffer_to_Message_Fragments'')
         else Inr (m\<lparr>mo_data := take bytes_to_copy buf # fragments (num_elements - 1) (drop bytes_to_copy buf)\<rparr>))"

text \<open>
  A message becomes a reject message: a new second element holds the old type, the groups, the
  sender as one more group (in place of the last when there are \<open>MAX_GROUPS_PER_MESSAGE\<close>), and
  what else the first element held. Groups outside the first element are read out of bounds.
\<close>

definition Message_add_oldtype_to_reject :: "32 word \<Rightarrow> message_obj \<Rightarrow> message_obj outcome" where
  "Message_add_oldtype_to_reject old_type m =
     (let h = mo_head m; n = nat (mh_num_groups h); d = element_data m 0; sender = map of_char (mh_private_group_name h)
      in if n * MAX_GROUP_NAME > length d \<or> length (mo_data m) \<ge> MAX_SCATTER_ELEMENTS
         then Inl (Undefined ''Message_add_oldtype_to_reject'')
         else
           let kept = (if n < MAX_GROUPS_PER_MESSAGE then n else n - 1);
               e = host32 old_type @ take (kept * MAX_GROUP_NAME) d @ sender @ drop (n * MAX_GROUP_NAME) d
           in Inr \<lparr>mo_head = (if n < MAX_GROUPS_PER_MESSAGE then h\<lparr>mh_num_groups := mh_num_groups h + 1\<rparr> else h),
                   mo_data = [] # e # tl (mo_data m)\<rparr>)"

subsection \<open>Positions in a message\<close>

record partial_message_info =
  in_mess_head :: bool
  cur_element :: int
  cur_byte :: int
  total_bytes :: int

definition Message_reset_current_location :: partial_message_info where
  "Message_reset_current_location =
     \<lparr>in_mess_head = False, cur_element = 0, cur_byte = 0, total_bytes = 0\<rparr>"

definition Message_set_location_begin_body :: "partial_message_info \<Rightarrow> partial_message_info" where
  "Message_set_location_begin_body p = p\<lparr>in_mess_head := False\<rparr>"

fun locate :: "nat list \<Rightarrow> nat \<Rightarrow> nat \<Rightarrow> nat \<times> nat" where
  "locate [] i len = (i, len)"
| "locate (l # ls) i len = (if len < l then (i, len) else locate ls (Suc i) (len - l))"

definition Message_calculate_current_location ::
  "message_obj \<Rightarrow> nat \<Rightarrow> partial_message_info \<Rightarrow> partial_message_info" where
  "Message_calculate_current_location m len_sent p =
     (let (i, len) = locate (map length (elements m)) 0 len_sent
      in p\<lparr>cur_element := int i, cur_byte := int len, in_mess_head := False\<rparr>)"

text \<open>
  \<open>Message_element_len_fixup\<close> on the lengths of the elements; writing the length of an element
  beyond those in use has no effect unless it is outside the array.
\<close>

definition Message_element_len_fixup :: "message_header \<Rightarrow> nat list \<Rightarrow> nat list outcome" where
  "Message_element_len_fixup h lens =
     (let total_size = nat (mh_data_len h + int MAX_GROUP_NAME * mh_num_groups h + int sizeof_message_header);
          sum_size = sizeof_packet_body * (length lens - 1);
          last = total_size div sizeof_packet_body
      in if total_size < sizeof_packet_body then Inr (lens[last := total_size])
         else if last \<ge> MAX_SCATTER_ELEMENTS then Inl (Undefined ''Message_element_len_fixup'')
         else Inr ((lens[0 := sizeof_packet_body])[last := total_size - sum_size]))"

definition Message_add_scat_element :: "message_obj \<Rightarrow> message_obj outcome" where
  "Message_add_scat_element m =
     (if length (mo_data m) < MAX_SCATTER_ELEMENTS then Inr (m\<lparr>mo_data := mo_data m @ [[]]\<rparr>)
      else Inl (Assert_fail ''Message_add_scat_element''))"

definition Message_remove_scat_element :: "message_obj \<Rightarrow> message_obj outcome" where
  "Message_remove_scat_element m =
     (if mo_data m \<noteq> [] then Inr (m\<lparr>mo_data := butlast (mo_data m)\<rparr>)
      else Inl (Assert_fail ''Message_remove_scat_element''))"

subsection \<open>Lemmas\<close>

definition wf_mess_header :: "message_header \<Rightarrow> bool" where
  "wf_mess_header h \<longleftrightarrow> length (mh_private_group_name h) = MAX_GROUP_NAME"

lemma length_head_bytes [simp]: "wf_mess_header h \<Longrightarrow> length (head_bytes h) = 48"
  by (simp add: head_bytes_def wf_mess_header_def MAX_GROUP_NAME_def)

lemma wf_create [simp]: "wf_mess_header (mo_head (Message_create_message t n))"
  by (simp add: wf_mess_header_def Message_create_message_def MAX_GROUP_NAME_def)

lemma fragments_spec:
  "length buf \<le> n * sizeof_packet_body \<Longrightarrow>
     concat (fragments n buf) = buf \<and> length (fragments n buf) = n
     \<and> (\<forall>e \<in> set (fragments n buf). length e \<le> sizeof_packet_body)"
proof (induction n arbitrary: buf)
  case (Suc n)
  then have "length (drop sizeof_packet_body buf) \<le> n * sizeof_packet_body" by simp
  with Suc.IH [of "drop sizeof_packet_body buf"] show ?case by simp
qed simp

lemma drop_locate:
  assumes "n \<le> length (concat els)" and "locate (map length els) i0 n = (i, k)"
  shows "i0 \<le> i \<and> drop n (concat els) = drop k (concat (take 1 (drop (i - i0) els))) @ concat (drop (Suc (i - i0)) els)"
  using assms
proof (induction els arbitrary: i0 n)
  case (Cons e els)
  show ?case
  proof (cases "n < length e")
    case True
    with Cons.prems show ?thesis by simp
  next
    case False
    then have "locate (map length els) (Suc i0) (n - length e) = (i, k)" "n - length e \<le> length (concat els)"
      using Cons.prems by simp_all
    from Cons.IH [OF this(2,1)] have le: "Suc i0 \<le> i"
      and d: "drop (n - length e) (concat els)
        = drop k (concat (take 1 (drop (i - Suc i0) els))) @ concat (drop (Suc (i - Suc i0)) els)" by auto
    from le have "i - i0 = Suc (i - Suc i0)" by simp
    with le d False show ?thesis by simp
  qed
qed simp

subsection \<open>Properties\<close>

text \<open>
  Spreading a buffer over a message loses nothing: as long as header and buffer fit in
  \<open>MAX_SCATTER_ELEMENTS\<close> packet bodies, the elements put together are the header and the buffer,
  and none is larger than a packet body.
\<close>

theorem fragments_carry_buffer:
  assumes "wf_mess_header (mo_head m)"
    and "length buf + sizeof_message_header \<le> MAX_SCATTER_ELEMENTS * sizeof_packet_body"
  shows "returns (Message_Buffer_to_Message_Fragments m buf)
        (\<lambda>m'. mo_head m' = mo_head m \<and> concat (elements m') = head_bytes (mo_head m) @ buf
          \<and> (\<forall>e \<in> set (elements m'). length e \<le> sizeof_packet_body)
          \<and> length (elements m') \<le> MAX_SCATTER_ELEMENTS)"
proof -
  let ?n = "(47 + length buf) div 1436" and ?c = "min (length buf) 1388"
  have n: "?n + 1 \<le> 100" using assms(2) by (simp add: mess_sizes)
  have "length (drop ?c buf) \<le> ?n * 1436" by simp
  from fragments_spec [of "drop ?c buf" ?n] this
  have f: "concat (fragments ?n (drop ?c buf)) = drop ?c buf" "length (fragments ?n (drop ?c buf)) = ?n"
    "\<forall>e \<in> set (fragments ?n (drop ?c buf)). length e \<le> 1436"
    by (simp_all add: sizeof_packet_body_def)
  show ?thesis
    using f n assms by (simp add: Message_Buffer_to_Message_Fragments_def elements_def mess_sizes Let_def)
qed

definition client_header :: message_header where
  "client_header = \<lparr>mh_type = Set_endian AGREED_MESS, mh_private_group_name = name_array ''#u#d1'',
     mh_num_groups = 44, mh_hint = Set_endian 0, mh_data_len = 0\<rparr>"

lemma wf_client_header [simp]: "wf_mess_header client_header"
  by (simp add: wf_mess_header_def client_header_def MAX_GROUP_NAME_def)

theorem fragments_carry_buffer_witness:
  "returns (Message_Buffer_to_Message_Fragments (Message_new_message\<lparr>mo_head := client_header\<rparr>) (replicate 3000 7))
     (\<lambda>m'. concat (elements m') = head_bytes client_header @ replicate 3000 7)"
  by (rule returns_mono [OF fragments_carry_buffer]) (simp_all add: mess_sizes)

text \<open>
  a client that was sent the first \<open>n\<close> bytes of a message is sent exactly the rest from the
  position \<open>Message_calculate_current_location\<close> computes.
\<close>

theorem resume_sends_rest:
  assumes "n \<le> length (concat (elements m))"
    and "Message_calculate_current_location m n p = q"
  shows "concat (elements m) = take n (concat (elements m))
           @ drop (nat (cur_byte q)) (concat (take 1 (drop (nat (cur_element q)) (elements m))))
           @ concat (drop (Suc (nat (cur_element q))) (elements m))"
proof -
  obtain i k where l: "locate (map length (elements m)) 0 n = (i, k)" by fastforce
  then have "cur_element q = int i" "cur_byte q = int k"
    using assms(2) by (auto simp: Message_calculate_current_location_def)
  then show ?thesis using drop_locate [OF assms(1) l] by (metis append_take_drop_id diff_zero nat_int)
qed

theorem resume_sends_rest_witness:
  "let m = \<lparr>mo_head = client_header, mo_data = [[1, 2], [3, 4, 5], [6]]\<rparr>;
       q = Message_calculate_current_location m 51 Message_reset_current_location
   in cur_element q = 1 \<and> cur_byte q = 1 \<and> concat (elements m) = take 51 (concat (elements m)) @ [4, 5] @ [6]"
proof -
  let ?m = "\<lparr>mo_head = client_header, mo_data = [[1, 2], [3, 4, 5], [6]]\<rparr>"
  let ?q = "Message_calculate_current_location ?m 51 Message_reset_current_location"
  have q: "cur_element ?q = 1 \<and> cur_byte ?q = 1"
    by (simp add: Message_calculate_current_location_def elements_def)
  have "51 \<le> length (concat (elements ?m))" by (simp add: elements_def)
  from resume_sends_rest [OF this refl, of Message_reset_current_location] q
  show ?thesis by (simp add: Let_def elements_def)
qed

text \<open>
  With so many groups that their names leave the first element, the array returned starts
  with the bytes of the message header instead of the first name; with fewer it is the names.
\<close>

theorem groups_array_shifted:
  assumes "wf_mess_header (mo_head m)" and "mo_data m \<noteq> []" and "\<not> Is_reject_mess (mh_type (mo_head m))"
    and "0 \<le> mh_num_groups (mo_head m)"
    and "nat (mh_num_groups (mo_head m)) * MAX_GROUP_NAME \<le> length (concat (mo_data m))"
  shows "returns (Message_get_groups_array m) (\<lambda>arr.
     let n = nat (mh_num_groups (mo_head m)) * MAX_GROUP_NAME
     in if n > length (hd (mo_data m)) then take sizeof_message_header arr = head_bytes (mo_head m)
        else take n arr = take n (concat (mo_data m)))"
proof -
  obtain d ds where m: "mo_data m = d # ds" using assms(2) by (cases "mo_data m") auto
  obtain n where n: "mh_num_groups (mo_head m) = int n" using assms(4) by (metis nonneg_int_cases)
  have e: "elements m = (head_bytes (mo_head m) @ d) # ds" by (simp add: elements_def m)
  show ?thesis
    using assms(1,3,5) unfolding m n Message_get_groups_array_def e by (auto simp: mess_sizes Let_def)
qed

theorem groups_array_shifted_witness:
  "let m = \<lparr>mo_head = client_header, mo_data = [replicate 1388 65, replicate 20 66]\<rparr>
   in returns (Message_get_groups_array m) (\<lambda>arr. take sizeof_message_header arr = head_bytes client_header)"
proof -
  let ?m = "\<lparr>mo_head = client_header, mo_data = [replicate 1388 65, replicate 20 66]\<rparr>"
  have "\<not> Is_reject_mess (mh_type client_header)" by code_simp
  moreover have "mh_num_groups client_header = 44" by (simp add: client_header_def)
  ultimately show ?thesis
    using groups_array_shifted [of ?m] by (simp add: mess_sizes Let_def)
qed

end
