(* ===== verification/Access.thy ===== *)
theory Access
  imports Prelude Bytes
begin

section \<open>Authentication methods and access control policies\<close>

text \<open>
  Model of \<open>daemon/acm.c\<close> and of the methods and policies that register with it:
  \<open>auth-null.c\<close>, \<open>auth-ip.c\<close>, \<open>auth-pword.c\<close> and \<open>acp-permit.c\<close>. The tables of methods and
  policies, the rules and the users are one record \<open>acm\<close>; the function pointers of a method
  are its constructor of \<open>auth_ops\<close>, and what a method does to a session is in
  \<open>Session_Connect\<close>. A policy is the record of its functions, which answer whether access is
  allowed. The lines \<open>fgets\<close> returns from the two access files are arguments, \<open>None\<close> when no
  file was found; \<open>crypt\<close> of the C library is a field.
\<close>

subsection \<open>Data\<close>

datatype auth_ops = Null_ops | IP_ops | Pword_ops

record acp_ops =
  open_connection :: "string \<Rightarrow> bool"
  open_monitor :: "string \<Rightarrow> bool"
  join_group :: "string \<Rightarrow> string \<Rightarrow> bool"
  leave_group :: "string \<Rightarrow> string \<Rightarrow> bool"
  p2p_send :: "string \<Rightarrow> string list \<Rightarrow> 32 word \<Rightarrow> int \<Rightarrow> bool"
  mcast_send :: "string \<Rightarrow> string list \<Rightarrow> 32 word \<Rightarrow> int \<Rightarrow> bool"

record auth_info =
  ai_name :: string
  ai_enabled :: bool
  ai_required :: bool
  ai_ops :: auth_ops

record acp_info =
  ap_name :: string
  ap_ops :: acp_ops

record acm =
  Auth_Methods :: "auth_info list"
  ACP_Methods :: "acp_info list"
  AccessControlPolicy :: int
  Allow_Rules :: "(32 word \<times> int) list"
  IP_File_Loaded :: bool
  Users :: "(string \<times> string) list"
  crypt :: "string \<Rightarrow> string \<Rightarrow> string"

record session_auth =
  sa_mbox :: int
  sa_methods :: "int list"
  sa_results :: "bool list"

definition MAX_AUTH_METHODS :: nat where "MAX_AUTH_METHODS = 3"
definition MAX_AUTH_NAME :: nat where "MAX_AUTH_NAME = 30"
definition MAX_PWORD_USERNAME :: nat where "MAX_PWORD_USERNAME = 32"
definition MAX_PWORD_PASSWORD :: nat where "MAX_PWORD_PASSWORD = 8"
definition MAX_PWORD_CRYPTPASSWORD :: nat where "MAX_PWORD_CRYPTPASSWORD = 13"

text \<open>\<open>strncmp( a, b, n ) = 0\<close>.\<close>

definition strn_eq :: "nat \<Rightarrow> string \<Rightarrow> string \<Rightarrow> bool" where
  "strn_eq n a b \<longleftrightarrow> take n (cstr a) = take n (cstr b)"

subsection \<open>The tables of methods and policies\<close>

definition acm_authname_to_type :: "string \<Rightarrow> acm \<Rightarrow> int" where
  "acm_authname_to_type name a = find_index (\<lambda>m. strn_eq MAX_AUTH_NAME (ai_name m) name) (Auth_Methods a)"

definition acm_acpname_to_type :: "string \<Rightarrow> acm \<Rightarrow> int" where
  "acm_acpname_to_type name a = find_index (\<lambda>m. strn_eq MAX_AUTH_NAME (ap_name m) name) (ACP_Methods a)"

definition upd_method :: "string \<Rightarrow> (auth_info \<Rightarrow> auth_info) \<Rightarrow> acm \<Rightarrow> bool \<times> acm" where
  "upd_method name f a =
     (let t = acm_authname_to_type name a
      in if t = -1 then (False, a)
         else (True, a\<lparr>Auth_Methods := (Auth_Methods a)[nat t := f (Auth_Methods a ! nat t)]\<rparr>))"

definition Acm_auth_set_enabled :: "string \<Rightarrow> acm \<Rightarrow> bool \<times> acm" where
  "Acm_auth_set_enabled name = upd_method name (\<lambda>m. m\<lparr>ai_enabled := True\<rparr>)"

definition Acm_auth_set_disabled :: "string \<Rightarrow> acm \<Rightarrow> bool \<times> acm" where
  "Acm_auth_set_disabled name = upd_method name (\<lambda>m. m\<lparr>ai_enabled := False\<rparr>)"

definition Acm_auth_set_required :: "string \<Rightarrow> acm \<Rightarrow> bool \<times> acm" where
  "Acm_auth_set_required name = upd_method name (\<lambda>m. m\<lparr>ai_required := True\<rparr>)"

definition Acm_auth_add_method :: "string \<Rightarrow> auth_ops \<Rightarrow> acm \<Rightarrow> bool \<times> acm" where
  "Acm_auth_add_method name ops a =
     (if length (Auth_Methods a) = MAX_AUTH_METHODS then (False, a)
      else (True, a\<lparr>Auth_Methods := Auth_Methods a
              @ [\<lparr>ai_name = name, ai_enabled = False, ai_required = False, ai_ops = ops\<rparr>]\<rparr>))"

definition Acm_auth_query_allowed :: "string \<Rightarrow> acm \<Rightarrow> bool" where
  "Acm_auth_query_allowed name a =
     (let t = acm_authname_to_type name a in if t = -1 then False else ai_enabled (Auth_Methods a ! nat t))"

definition Acm_auth_get_auth_client_connection :: "int \<Rightarrow> acm \<Rightarrow> auth_ops option outcome" where
  "Acm_auth_get_auth_client_connection i a =
     (if i < 0 \<or> i \<ge> int MAX_AUTH_METHODS then Inl (Assert_fail ''Acm_auth_get_auth_client_connection'')
      else if nat i < length (Auth_Methods a) then Inr (Some (ai_ops (Auth_Methods a ! nat i)))
      else Inr None)"

definition Acm_auth_get_auth_client_connection_byname :: "string \<Rightarrow> acm \<Rightarrow> auth_ops option outcome" where
  "Acm_auth_get_auth_client_connection_byname name a =
     (let t = acm_authname_to_type name a
      in if t = -1 then Inr None else Acm_auth_get_auth_client_connection t a)"

definition Acm_auth_get_allowed_list :: "acm \<Rightarrow> string" where
  "Acm_auth_get_allowed_list a =
     concat (map (\<lambda>m. if ai_enabled m then cstr (ai_name m) @ '' '' else []) (Auth_Methods a))"

definition Acm_acp_add_method :: "string \<Rightarrow> acp_ops \<Rightarrow> acm \<Rightarrow> bool \<times> acm" where
  "Acm_acp_add_method name ops a =
     (if length (ACP_Methods a) = MAX_AUTH_METHODS then (False, a)
      else (True, a\<lparr>ACP_Methods := ACP_Methods a @ [\<lparr>ap_name = name, ap_ops = ops\<rparr>]\<rparr>))"

definition Acm_acp_query_allowed :: "string \<Rightarrow> acm \<Rightarrow> bool" where
  "Acm_acp_query_allowed name a \<longleftrightarrow> acm_acpname_to_type name a \<noteq> -1"

definition Acm_acp_set_policy :: "string \<Rightarrow> acm \<Rightarrow> bool \<times> acm" where
  "Acm_acp_set_policy name a =
     (if \<not> Acm_acp_query_allowed name a then (False, a)
      else (True, a\<lparr>AccessControlPolicy := acm_acpname_to_type name a\<rparr>))"

definition Acm_acp_fill_ops_byname :: "string \<Rightarrow> acm \<Rightarrow> acp_ops option" where
  "Acm_acp_fill_ops_byname name a =
     (let t = acm_acpname_to_type name a in if t = -1 then None else Some (ap_ops (ACP_Methods a ! nat t)))"

definition Acm_acp_fill_ops :: "acm \<Rightarrow> acp_ops outcome" where
  "Acm_acp_fill_ops a =
     (let p = AccessControlPolicy a
      in if p < 0 \<or> p \<ge> int (length (ACP_Methods a)) then Inl (Assert_fail ''Acm_acp_fill_ops'')
         else Inr (ap_ops (ACP_Methods a ! nat p)))"

subsection \<open>What a client has to pass\<close>

text \<open>
  The client sends an array of \<open>MAX_AUTH_METHODS\<close> names of \<open>MAX_AUTH_NAME\<close> bytes; the loops
  over it end at an empty name, and a full array has none. \<open>n\<close> counts the names left.
\<close>

fun all_allowed :: "nat \<Rightarrow> char list \<Rightarrow> acm \<Rightarrow> bool outcome" where
  "all_allowed 0 buf a = Inl (Undefined ''Sess_recv_client_auth'')"
| "all_allowed (Suc n) buf a =
     (if buf ! 0 = NUL then Inr True
      else if \<not> Acm_auth_query_allowed (take MAX_AUTH_NAME buf) a then Inr False
      else all_allowed n (drop MAX_AUTH_NAME buf) a)"

definition add_auth :: "int \<Rightarrow> int list \<Rightarrow> int list outcome" where
  "add_auth t ts = (if length ts < MAX_AUTH_METHODS then Inr (ts @ [t])
                    else Inl (Undefined ''Acm_auth_create_sess_info''))"

fun requested_auths :: "nat \<Rightarrow> char list \<Rightarrow> acm \<Rightarrow> int list \<Rightarrow> int list outcome" where
  "requested_auths 0 buf a ts = Inl (Undefined ''Acm_auth_create_sess_info'')"
| "requested_auths (Suc n) buf a ts =
     (if buf ! 0 = NUL then Inr ts
      else
        let t = acm_authname_to_type (take MAX_AUTH_NAME buf) a
        in if t = -1 then Inl (Undefined ''Acm_auth_create_sess_info'')
           else bindE (if ai_enabled (Auth_Methods a ! nat t) then add_auth t ts else Inr ts)
                  (requested_auths n (drop MAX_AUTH_NAME buf) a))"

definition required_auths :: "acm \<Rightarrow> int list \<Rightarrow> int list outcome" where
  "required_auths a = for_each (\<lambda>i ts.
     if ai_required (Auth_Methods a ! i) \<and> int i \<notin> set ts then add_auth (int i) ts else Inr ts)
     [0..<length (Auth_Methods a)]"

definition Acm_auth_create_sess_info :: "int \<Rightarrow> char list \<Rightarrow> acm \<Rightarrow> session_auth option outcome" where
  "Acm_auth_create_sess_info mbox auth_name a =
     bindE (requested_auths MAX_AUTH_METHODS auth_name a []) (\<lambda>ts.
       if ts = [] then Inr None
       else bindE (required_auths a ts) (\<lambda>ts'.
         Inr (Some \<lparr>sa_mbox = mbox, sa_methods = ts', sa_results = []\<rparr>)))"

definition Acm_auth_create_sess_info_forIP :: "int \<Rightarrow> acm \<Rightarrow> session_auth" where
  "Acm_auth_create_sess_info_forIP mbox a =
     \<lparr>sa_mbox = mbox, sa_methods = [acm_authname_to_type ''IP'' a], sa_results = []\<rparr>"

subsection \<open>The policy that permits everything\<close>

definition permit_open_connection :: "string \<Rightarrow> bool" where "permit_open_connection user = True"
definition permit_open_monitor :: "string \<Rightarrow> bool" where "permit_open_monitor user = True"
definition permit_join_group :: "string \<Rightarrow> string \<Rightarrow> bool" where "permit_join_group member grp = True"
definition permit_leave_group :: "string \<Rightarrow> string \<Rightarrow> bool" where "permit_leave_group member grp = True"
definition permit_p2p_send :: "string \<Rightarrow> string list \<Rightarrow> 32 word \<Rightarrow> int \<Rightarrow> bool" where
  "permit_p2p_send sender dests service_type mess_type = True"
definition permit_mcast_send :: "string \<Rightarrow> string list \<Rightarrow> 32 word \<Rightarrow> int \<Rightarrow> bool" where
  "permit_mcast_send sender grps service_type mess_type = True"

definition Permit_ops :: acp_ops where
  "Permit_ops = \<lparr>open_connection = permit_open_connection, open_monitor = permit_open_monitor,
     join_group = permit_join_group, leave_group = permit_leave_group,
     p2p_send = permit_p2p_send, mcast_send = permit_mcast_send\<rparr>"

definition permit_init :: "acm \<Rightarrow> acm outcome" where
  "permit_init a = (let (ok, a') = Acm_acp_add_method ''PERMIT'' Permit_ops a
                    in if ok then Inr a' else Inl (Alarm_exit ''permit_init''))"

definition null_init :: "acm \<Rightarrow> acm outcome" where
  "null_init a = (let (ok, a') = Acm_auth_add_method ''NULL'' Null_ops a
                  in if ok then Inr a' else Inl (Alarm_exit ''null_init''))"

definition Acm_init :: "acm \<Rightarrow> acm outcome" where
  "Acm_init a =
     (let (_, a1) = Acm_auth_set_enabled ''NULL'' a; (ok, a2) = Acm_acp_set_policy ''PERMIT'' a1
      in if ok then Inr a2 else Inl (Alarm_exit ''Acm_init''))"

subsection \<open>Scanning the access files\<close>

text \<open>The conversions of \<open>sscanf\<close> the code uses: \<open>%d\<close> (white space, a sign, digits) and \<open>%ns\<close>.\<close>

definition white :: "char \<Rightarrow> bool" where
  "white c \<longleftrightarrow> c = CHR '' '' \<or> (9 \<le> (of_char c :: nat) \<and> (of_char c :: nat) \<le> 13)"

definition digit :: "char \<Rightarrow> bool" where
  "digit c \<longleftrightarrow> 48 \<le> (of_char c :: nat) \<and> (of_char c :: nat) \<le> 57"

definition digits_value :: "string \<Rightarrow> int" where
  "digits_value ds = foldl (\<lambda>n d. 10 * n + (of_char d - 48)) 0 ds"

definition scan_int :: "string \<Rightarrow> (int \<times> string) option" where
  "scan_int str =
     (let s1 = dropWhile white str;
          signed = s1 \<noteq> [] \<and> (hd s1 = CHR ''-'' \<or> hd s1 = CHR ''+'');
          neg = s1 \<noteq> [] \<and> hd s1 = CHR ''-'';
          s2 = (if signed then tl s1 else s1);
          ds = takeWhile digit s2
      in if ds = [] then None
         else Some (if neg then - digits_value ds else digits_value ds, dropWhile digit s2))"

definition scan_word :: "nat \<Rightarrow> string \<Rightarrow> (string \<times> string) option" where
  "scan_word n str =
     (let s1 = dropWhile white str; w = take n (takeWhile (\<lambda>c. \<not> white c) s1)
      in if w = [] then None else Some (w, drop (length w) s1))"

text \<open>\<open>strchr\<close> and the overwriting of the character found by a blank.\<close>

fun blank_char :: "char \<Rightarrow> string \<Rightarrow> string option" where
  "blank_char c [] = None"
| "blank_char c (d # ds) = (if d = c then Some (CHR '' '' # ds) else map_option ((#) d) (blank_char c ds))"

text \<open>Up to \<open>n\<close> integers in a row.\<close>

fun scan_ints :: "nat \<Rightarrow> string \<Rightarrow> int list \<times> string" where
  "scan_ints 0 str = ([], str)"
| "scan_ints (Suc n) str =
     (case scan_int str of None \<Rightarrow> ([], str) | Some (i, rest) \<Rightarrow> let (is, r) = scan_ints n rest in (i # is, r))"

subsection \<open>Rules on IP addresses\<close>

definition insert_ip_rule :: "32 word \<Rightarrow> int \<Rightarrow> acm \<Rightarrow> acm" where
  "insert_ip_rule net prefix a = a\<lparr>Allow_Rules := (net, prefix) # Allow_Rules a\<rparr>"

text \<open>The address and prefix of \<open>"%d%d%d%d/%d"\<close>, with 32 for a missing prefix.\<close>

definition scan_rule :: "string \<Rightarrow> (32 word \<times> int) option" where
  "scan_rule str =
     (case scan_ints 4 str of
        ([i1, i2, i3, i4], rest) \<Rightarrow>
          let net = push_bit 24 (word_of_int i1) OR push_bit 16 (word_of_int i2) OR push_bit 8 (word_of_int i3) OR word_of_int i4
          in (case rest of
                c # cs \<Rightarrow> if c = CHR ''/'' then (case scan_int cs of Some (p, _) \<Rightarrow> Some (net, p) | None \<Rightarrow> Some (net, 32))
                          else Some (net, 32)
              | [] \<Rightarrow> Some (net, 32))
      | _ \<Rightarrow> None)"

definition blank_dots :: "string \<Rightarrow> string option" where
  "blank_dots line = Option.bind (blank_char (CHR ''.'') line)
     (\<lambda>l. Option.bind (blank_char (CHR ''.'') l) (blank_char (CHR ''.'')))"

fun ip_lines :: "string list \<Rightarrow> acm \<Rightarrow> acm outcome" where
  "ip_lines [] a = Inr a"
| "ip_lines (line # ls) a =
     (if take 1 line = ''#'' then ip_lines ls a
      else if take 4 line = ''unix'' then ip_lines ls (insert_ip_rule 0 32 a)
      else if take 5 line = ''local'' then ip_lines ls (insert_ip_rule (push_bit 24 127) 8 a)
      else case blank_dots line of
             None \<Rightarrow> Inr a
           | Some l \<Rightarrow> (case scan_rule l of
                          None \<Rightarrow> Inl (Alarm_exit ''ip_init'')
                        | Some (net, prefix) \<Rightarrow> ip_lines ls (insert_ip_rule net prefix a)))"

definition ip_init :: "string list option \<Rightarrow> acm \<Rightarrow> acm outcome" where
  "ip_init file a =
     (let (ok, a') = Acm_auth_add_method ''IP'' IP_ops a
      in if \<not> ok then Inl (Alarm_exit ''ip_init'')
         else case file of
                None \<Rightarrow> Inr (a'\<lparr>IP_File_Loaded := False\<rparr>)
              | Some ls \<Rightarrow> bindE (ip_lines ls a') (\<lambda>a''. Inr (a''\<lparr>IP_File_Loaded := True\<rparr>)))"

text \<open>The search of \<open>ip_auth_client_connection\<close>; shifting by 32 bits or more is undefined.\<close>

fun ip_matches :: "32 word \<Rightarrow> (32 word \<times> int) list \<Rightarrow> bool outcome" where
  "ip_matches ip [] = Inr False"
| "ip_matches ip ((net, prefix) # rs) =
     (if prefix \<le> 0 \<or> prefix > 32 then Inl (Undefined ''ip_auth_client_connection'')
      else if net = ip AND push_bit (nat (32 - prefix)) (-1) then Inr True else ip_matches ip rs)"

definition ip_allowed :: "32 word \<Rightarrow> acm \<Rightarrow> bool outcome" where
  "ip_allowed ip a = (if \<not> IP_File_Loaded a then Inr False else ip_matches ip (Allow_Rules a))"

subsection \<open>Users and passwords\<close>

definition insert_user :: "string \<Rightarrow> string \<Rightarrow> acm \<Rightarrow> acm" where
  "insert_user username crypt_password a = a\<lparr>Users := (username, crypt_password) # Users a\<rparr>"

fun pword_lines :: "string list \<Rightarrow> acm \<Rightarrow> acm outcome" where
  "pword_lines [] a = Inr a"
| "pword_lines (line # ls) a =
     (if take 1 line = ''#'' then pword_lines ls a
      else case blank_char (CHR '':'') line of
             None \<Rightarrow> Inr a
           | Some l \<Rightarrow> (case scan_word MAX_PWORD_USERNAME l of
                          None \<Rightarrow> Inl (Alarm_exit ''pword_init'')
                        | Some (u, r) \<Rightarrow> (case scan_word MAX_PWORD_CRYPTPASSWORD r of
                                            None \<Rightarrow> Inl (Alarm_exit ''pword_init'')
                                          | Some (p, _) \<Rightarrow> pword_lines ls (insert_user u p a))))"

definition pword_init :: "string list option \<Rightarrow> acm \<Rightarrow> acm outcome" where
  "pword_init file a =
     (let (ok, a') = Acm_auth_add_method ''PWORD'' Pword_ops a
      in if \<not> ok then Inl (Alarm_exit ''pword_init'')
         else case file of None \<Rightarrow> Inl (Alarm_exit ''pword_init'') | Some ls \<Rightarrow> pword_lines ls a')"

text \<open>
  The \<open>next\<close> of the user inserted first is never set, so a search that passes that user follows a
  pointer that is not initialised.
\<close>

fun search_users :: "string \<Rightarrow> (string \<times> string) list \<Rightarrow> string option outcome" where
  "search_users name [] = Inl (Undefined ''lookup_user'')"
| "search_users name ((u, p) # us) =
     (if strn_eq MAX_PWORD_USERNAME name u then Inr (Some p) else search_users name us)"

definition lookup_user :: "string \<Rightarrow> acm \<Rightarrow> string option outcome" where
  "lookup_user name a = (if Users a = [] then Inr None else search_users name (Users a))"

definition check_password :: "string \<Rightarrow> string \<Rightarrow> acm \<Rightarrow> bool outcome" where
  "check_password username clear_password a =
     bindE (lookup_user username a) (\<lambda>u.
       Inr (case u of None \<Rightarrow> False
            | Some p \<Rightarrow> strn_eq MAX_PWORD_CRYPTPASSWORD (crypt a clear_password (take 2 p)) p))"

subsection \<open>Lemmas\<close>

lemma find_from_bounds: "find_from i p xs = -1 \<or> (i \<le> find_from i p xs \<and> find_from i p xs < i + int (length xs)
    \<and> p (xs ! nat (find_from i p xs - i)))" if "0 \<le> i"
  using that
proof (induction xs arbitrary: i)
  case (Cons x xs)
  show ?case
  proof (cases "p x")
    case False
    then have e: "find_from i p (x # xs) = find_from (i + 1) p xs" by simp
    show ?thesis
    proof (cases "find_from (i + 1) p xs = -1")
      case False
      then have f: "i + 1 \<le> find_from (i + 1) p xs" "find_from (i + 1) p xs < i + 1 + int (length xs)"
        "p (xs ! nat (find_from (i + 1) p xs - (i + 1)))" using Cons.IH [of "i + 1"] Cons.prems by simp_all
      from f(1) have "nat (find_from (i + 1) p xs - i) = Suc (nat (find_from (i + 1) p xs - (i + 1)))" by simp
      with f show ?thesis unfolding e by simp
    qed (simp add: e)
  qed simp
qed simp

lemma authname_bounds: "acm_authname_to_type n a \<noteq> -1 \<Longrightarrow>
    0 \<le> acm_authname_to_type n a \<and> acm_authname_to_type n a < int (length (Auth_Methods a))"
  using find_from_bounds [of 0] unfolding acm_authname_to_type_def by force

text \<open>The methods a client has to pass: registered, and each enabled or required.\<close>

definition auths_known :: "acm \<Rightarrow> int list \<Rightarrow> bool" where
  "auths_known a ts \<longleftrightarrow> length ts \<le> MAX_AUTH_METHODS \<and> (\<forall>t \<in> set ts. 0 \<le> t \<and> t < int (length (Auth_Methods a))
     \<and> (ai_enabled (Auth_Methods a ! nat t) \<or> ai_required (Auth_Methods a ! nat t)))"

lemma add_auth_known:
  assumes "auths_known a ts" and "0 \<le> t" and "t < int (length (Auth_Methods a))"
    and "ai_enabled (Auth_Methods a ! nat t) \<or> ai_required (Auth_Methods a ! nat t)"
  shows "lands (add_auth t ts) (\<lambda>ts'. auths_known a ts' \<and> set ts' = insert t (set ts))"
  using assms by (auto simp: add_auth_def auths_known_def)

lemma requested_auths_known: "auths_known a ts \<Longrightarrow> lands (requested_auths n buf a ts) (auths_known a)"
proof (induction n arbitrary: buf ts)
  case (Suc n)
  let ?t = "acm_authname_to_type (take MAX_AUTH_NAME buf) a"
  show ?case
  proof (cases "buf ! 0 = NUL \<or> ?t = -1")
    case False
    have "lands (if ai_enabled (Auth_Methods a ! nat ?t) then add_auth ?t ts else Inr ts) (auths_known a)"
    proof (cases "ai_enabled (Auth_Methods a ! nat ?t)")
      case True
      have "lands (add_auth ?t ts) (auths_known a)"
        using Suc.prems authname_bounds [of "take MAX_AUTH_NAME buf" a] False True
        by (auto intro!: lands_mono [OF add_auth_known [of a ts ?t]])
      then show ?thesis using True by simp
    qed (simp add: Suc.prems)
    then have "lands (bindE (if ai_enabled (Auth_Methods a ! nat ?t) then add_auth ?t ts else Inr ts)
        (requested_auths n (drop MAX_AUTH_NAME buf) a)) (auths_known a)"
      by (rule lands_seq) (rule Suc.IH)
    then show ?thesis using False by (simp add: Let_def)
  qed (auto simp: Suc.prems Let_def)
qed simp

lemma required_auths_complete:
  assumes "auths_known a ts"
  shows "lands (required_auths a ts) (\<lambda>ts'. auths_known a ts' \<and> set ts \<subseteq> set ts'
     \<and> (\<forall>i < length (Auth_Methods a). ai_required (Auth_Methods a ! i) \<longrightarrow> int i \<in> set ts'))"
proof -
  let ?f = "\<lambda>i ts. if ai_required (Auth_Methods a ! i) \<and> int i \<notin> set ts then add_auth (int i) ts else Inr ts"
  have "lands (for_each ?f is us) (\<lambda>ts'. auths_known a ts' \<and> set us \<subseteq> set ts'
      \<and> (\<forall>i \<in> set is. ai_required (Auth_Methods a ! i) \<longrightarrow> int i \<in> set ts'))"
    if "auths_known a us" "set is \<subseteq> {..<length (Auth_Methods a)}" for "is" us
    using that
  proof (induction "is" arbitrary: us)
    case (Cons i "is")
    have "lands (?f i us) (\<lambda>vs. auths_known a vs \<and> set us \<subseteq> set vs \<and> (ai_required (Auth_Methods a ! i) \<longrightarrow> int i \<in> set vs))"
    proof (cases "ai_required (Auth_Methods a ! i) \<and> int i \<notin> set us")
      case True
      have "lands (add_auth (int i) us) (\<lambda>vs. auths_known a vs \<and> set us \<subseteq> set vs \<and> (ai_required (Auth_Methods a ! i) \<longrightarrow> int i \<in> set vs))"
        using Cons.prems True by (intro lands_mono [OF add_auth_known]) auto
      then show ?thesis using True by simp
    qed (use Cons.prems(1) in auto)
    then show ?case unfolding for_each.simps
    proof (rule lands_seq)
      fix vs assume vs: "auths_known a vs \<and> set us \<subseteq> set vs \<and> (ai_required (Auth_Methods a ! i) \<longrightarrow> int i \<in> set vs)"
      have "set is \<subseteq> {..<length (Auth_Methods a)}" using Cons.prems(2) by simp
      from Cons.IH [OF conjunct1 [OF vs] this] vs
      show "lands (for_each ?f is vs) (\<lambda>ts'. auths_known a ts' \<and> set us \<subseteq> set ts'
          \<and> (\<forall>i \<in> set (i # is). ai_required (Auth_Methods a ! i) \<longrightarrow> int i \<in> set ts'))"
        by (elim lands_mono) auto
    qed
  qed simp
  from this [of ts "[0..<length (Auth_Methods a)]"] assms show ?thesis
    unfolding required_auths_def by (auto simp: atLeast0LessThan elim!: lands_mono)
qed

lemma create_sess_info_complete:
  "lands (Acm_auth_create_sess_info mbox buf a) (\<lambda>r. case r of None \<Rightarrow> True | Some sa \<Rightarrow>
     sa_mbox sa = mbox \<and> sa_results sa = [] \<and> sa_methods sa \<noteq> [] \<and> auths_known a (sa_methods sa)
     \<and> (\<forall>i < length (Auth_Methods a). ai_required (Auth_Methods a ! i) \<longrightarrow> int i \<in> set (sa_methods sa)))"
proof -
  have "auths_known a []" by (simp add: auths_known_def)
  note R = requested_auths_known [OF this, of MAX_AUTH_METHODS buf]
  show ?thesis
    unfolding Acm_auth_create_sess_info_def
  proof (rule lands_seq [OF R])
    fix ts assume "auths_known a ts"
    note Q = required_auths_complete [OF this]
    show "lands (if ts = [] then Inr None
       else bindE (required_auths a ts) (\<lambda>ts'. Inr (Some \<lparr>sa_mbox = mbox, sa_methods = ts', sa_results = []\<rparr>)))
      (\<lambda>r. case r of None \<Rightarrow> True | Some sa \<Rightarrow>
     sa_mbox sa = mbox \<and> sa_results sa = [] \<and> sa_methods sa \<noteq> [] \<and> auths_known a (sa_methods sa)
     \<and> (\<forall>i < length (Auth_Methods a). ai_required (Auth_Methods a ! i) \<longrightarrow> int i \<in> set (sa_methods sa)))"
    proof (cases "ts = []")
      case False
      then have ne: "set ts' \<noteq> {}" if "set ts \<subseteq> set ts'" for ts' using that by auto
      have "lands (bindE (required_auths a ts) (\<lambda>ts'. Inr (Some \<lparr>sa_mbox = mbox, sa_methods = ts', sa_results = []\<rparr>)))
        (\<lambda>r. case r of None \<Rightarrow> True | Some sa \<Rightarrow>
     sa_mbox sa = mbox \<and> sa_results sa = [] \<and> sa_methods sa \<noteq> [] \<and> auths_known a (sa_methods sa)
     \<and> (\<forall>i < length (Auth_Methods a). ai_required (Auth_Methods a ! i) \<longrightarrow> int i \<in> set (sa_methods sa)))"
        using ne by (intro lands_seq [OF Q]) auto
      then show ?thesis using False by simp
    qed simp
  qed
qed

lemma mask_prefix:
  assumes "k \<le> 32"
  shows "net = ip AND push_bit k (-1) \<longleftrightarrow> drop_bit k net = drop_bit k ip \<and> take_bit k net = (0 :: 32 word)"
proof
  assume "net = ip AND push_bit k (-1)"
  then show "drop_bit k net = drop_bit k ip \<and> take_bit k net = 0"
    by (auto intro!: bit_word_eqI simp: bit_simps dest: bit_imp_le_length [of ip, simplified])
next
  assume r: "drop_bit k net = drop_bit k ip \<and> take_bit k net = 0"
  show "net = ip AND push_bit k (-1)"
  proof (rule bit_word_eqI)
    fix n assume n: "n < LENGTH(32)"
    have "bit (take_bit k net) n = False" using r by simp
    moreover have "bit net n = bit ip n" if "k \<le> n"
    proof -
      have "bit (drop_bit k net) (n - k) = bit (drop_bit k ip) (n - k)" using r by simp
      then show ?thesis using that by (simp add: bit_simps)
    qed
    ultimately show "bit net n = bit (ip AND push_bit k (-1)) n"
      using n by (cases "n < k") (auto simp: bit_simps)
  qed
qed

lemma ip_matches_spec:
  assumes "\<forall>(net, p) \<in> set rs. 0 < p \<and> p \<le> 32"
  shows "returns (ip_matches ip rs) (\<lambda>b. b \<longleftrightarrow> (\<exists>(net, p) \<in> set rs.
     drop_bit (nat (32 - p)) net = drop_bit (nat (32 - p)) ip \<and> take_bit (nat (32 - p)) net = 0))"
  using assms
proof (induction rs)
  case (Cons r rs)
  obtain net p where r: "r = (net, p)" by fastforce
  have p: "0 < p" "p \<le> 32" using Cons.prems r by auto
  then have "nat (32 - p) \<le> 32" by simp
  note m = mask_prefix [OF this, of net ip]
  have ih: "returns (ip_matches ip rs) (\<lambda>b. b \<longleftrightarrow> (\<exists>(net, p) \<in> set rs.
     drop_bit (nat (32 - p)) net = drop_bit (nat (32 - p)) ip \<and> take_bit (nat (32 - p)) net = 0))"
    using Cons by simp
  show ?case
  proof (cases "net = ip AND push_bit (nat (32 - p)) (-1)")
    case True
    then show ?thesis unfolding r using p m by auto
  next
    case False
    then have e: "ip_matches ip (r # rs) = ip_matches ip rs" using p by (simp add: r)
    show ?thesis unfolding e using False [unfolded m] r by (intro returns_mono [OF ih]) auto
  qed
qed simp

text \<open>Three names that are all allowed fill the array, and the loop reads past it.\<close>

lemma full_array_undefined:
  assumes "\<forall>i < 3. buf ! (30 * i) \<noteq> NUL \<and> Acm_auth_query_allowed (take 30 (drop (30 * i) buf)) a"
    and "length buf = 90"
  shows "all_allowed MAX_AUTH_METHODS buf a = Inl (Undefined ''Sess_recv_client_auth'')"
proof -
  let ?q = "\<lambda>i. buf ! (30 * i) \<noteq> NUL \<and> Acm_auth_query_allowed (take 30 (drop (30 * i) buf)) a"
  have "?q 0" "?q 1" "?q 2" using assms(1) [rule_format, of 0] assms(1) [rule_format, of 1] assms(1) [rule_format, of 2] by simp_all
  then have "buf ! 0 \<noteq> NUL" "Acm_auth_query_allowed (take 30 buf) a"
    "drop 30 buf ! 0 \<noteq> NUL" "Acm_auth_query_allowed (take 30 (drop 30 buf)) a"
    "drop 60 buf ! 0 \<noteq> NUL" "Acm_auth_query_allowed (take 30 (drop 60 buf)) a"
    using assms(2) by simp_all
  moreover have "all_allowed MAX_AUTH_METHODS buf a = all_allowed (Suc (Suc (Suc 0))) buf a"
    by (simp only: MAX_AUTH_METHODS_def numeral_3_eq_3)
  ultimately show ?thesis
    by (simp add: MAX_AUTH_NAME_def drop_drop del: One_nat_def)
qed

end
