(* ===== verification/Session_Table.thy ===== *)
theory Session_Table
  imports Message Configuration Access
begin

section \<open>The table of client sessions\<close>

text \<open>
  Model of the table of \<open>daemon/session.c\<close>: the array \<open>Sessions\<close>, the list of sessions in use in
  the order of their names (\<open>Sessions_head\<close> to \<open>Sessions_tail\<close>), the list of free slots, and the
  hash table from mailboxes (descriptors) to sessions. A linked list is the list of the indices
  of its slots in \<open>Sessions\<close>, following \<open>sort_next\<close> or \<open>hash_next\<close>. The slot \<open>MAX_SESSIONS\<close> is
  the one a connection is built up in before it gets a slot of the table. \<open>Attach_fd\<close> and
  \<open>Detach_fd\<close> stand for both registrations of a descriptor, to read and for exceptions. Socket calls and the
  calls into the other modules are logged in \<open>sess_out\<close>; what \<open>send\<close> answers is the oracle
  \<open>send_ret n len\<close>, for the \<open>n\<close>-th call and a request of \<open>len\<close> bytes. \<open>num_mess\<close>, the number of queued messages, is the length of \<open>ses_queue\<close>.
\<close>

subsection \<open>Data\<close>

record session =
  ses_name :: string
  lib_version :: "int list"
  ses_address :: "32 word"
  ses_status :: "32 word"
  ses_priority :: int
  ses_mbox :: int
  ses_type :: int
  ses_down_queue :: int
  ses_read :: partial_message_info
  read_mess :: "message_obj option"
  ses_write :: partial_message_info
  ses_queue :: "message_obj list"
  ses_acp_ops :: "acp_ops option"

datatype fd_handler = H_accept | H_accept_continue | H_recv_client_auth | H_auth_client_conn_read | H_read

text \<open>
  What leaves the session layer: bytes a socket took, descriptors closed, watched and no longer
  watched, badger and connection timers queued and cancelled, messages and calls for the protocol layer,
  thresholds set in the event system, and entries for the session log.
\<close>

datatype sess_event =
    Client_send int "8 word list"
  | Close_fd int
  | Attach_fd int fd_handler
  | Detach_fd int
  | Queue_badger int
  | Dequeue_badger int
  | Queue_accept_continue
  | Dequeue_accept_continue
  | Down_message "32 word" message_obj int
  | Down_queue_set int
  | Active_threshold int

record sess_st = conf_st +
  Sessions :: "session list"
  Sess_order :: "nat list"
  Sess_free :: "nat list"
  Sess_hash :: "nat \<Rightarrow> nat list"
  Num_sessions :: int
  Session_threshold :: int
  Protocol_threshold :: int
  send_ret :: "nat \<Rightarrow> nat \<Rightarrow> int"
  send_calls :: nat
  sess_out :: "sess_event list"

definition MAX_SESSIONS :: nat where "MAX_SESSIONS = 997"
definition SESSION_FD_HASH_SIZE :: nat where "SESSION_FD_HASH_SIZE = 256"
definition MAX_SESSION_MESSAGES :: nat where "MAX_SESSION_MESSAGES = 1000"

definition MEMB_SESSION :: "32 word" where "MEMB_SESSION = 0x00000001"
definition OP_SESSION :: "32 word" where "OP_SESSION = 0x00000010"
definition PRE_AUTH_SESSION :: "32 word" where "PRE_AUTH_SESSION = 0x00000100"

definition Is_memb_session :: "32 word \<Rightarrow> bool" where "Is_memb_session t \<longleftrightarrow> t AND MEMB_SESSION \<noteq> 0"
definition Is_op_session :: "32 word \<Rightarrow> bool" where "Is_op_session t \<longleftrightarrow> t AND OP_SESSION \<noteq> 0"
definition Is_preauth_session :: "32 word \<Rightarrow> bool" where
  "Is_preauth_session t \<longleftrightarrow> t AND PRE_AUTH_SESSION \<noteq> 0"

lemma max_sessions: "int MAX_SESSIONS = (MAX_FD_EVENTS - 5) div 2"
  by (simp add: MAX_SESSIONS_def MAX_FD_EVENTS_def)

abbreviation ses_at :: "'a sess_st_scheme \<Rightarrow> nat \<Rightarrow> session" where
  "ses_at s i \<equiv> Sessions s ! i"

definition upd_ses :: "nat \<Rightarrow> (session \<Rightarrow> session) \<Rightarrow> 'a sess_st_scheme \<Rightarrow> 'a sess_st_scheme" where
  "upd_ses i f s = s\<lparr>Sessions := (Sessions s)[i := f (Sessions s ! i)]\<rparr>"

definition out :: "sess_event \<Rightarrow> 'a sess_st_scheme \<Rightarrow> 'a sess_st_scheme" where
  "out e s = s\<lparr>sess_out := sess_out s @ [e]\<rparr>"

subsection \<open>Lookups\<close>

text \<open>The exclusive or of the four bytes of the mailbox.\<close>

definition mbox_hash :: "int \<Rightarrow> nat" where
  "mbox_hash mbox =
     (let bs = host32 (word_of_int mbox) in unat (bs ! 0 XOR bs ! 1 XOR bs ! 2 XOR bs ! 3))"

definition Sess_get_session_index :: "int \<Rightarrow> 'a sess_st_scheme \<Rightarrow> int" where
  "Sess_get_session_index mbox s =
     (case List.find (\<lambda>i. ses_mbox (ses_at s i) = mbox) (Sess_hash s (mbox_hash mbox)) of
        Some i \<Rightarrow> int i | None \<Rightarrow> -1)"

text \<open>The walk along the sorted list stops at the first name that is not smaller.\<close>

fun get_session_walk :: "session list \<Rightarrow> string \<Rightarrow> nat list \<Rightarrow> int" where
  "get_session_walk ss name [] = -1"
| "get_session_walk ss name (i # is) =
     (if ses_name (ss ! i) < name then get_session_walk ss name is
      else if ses_name (ss ! i) = name then int i else -1)"

definition Sess_get_session :: "string \<Rightarrow> 'a sess_st_scheme \<Rightarrow> int" where
  "Sess_get_session name s = get_session_walk (Sessions s) name (Sess_order s)"

text \<open>
  The search of \<open>Sess_accept_continue\<close> for a name: the first session whose name is not smaller
  (\<open>None\<close> at the end of the list), and whether the name is unused.
\<close>

fun find_place :: "session list \<Rightarrow> string \<Rightarrow> nat list \<Rightarrow> nat option \<times> bool" where
  "find_place ss name [] = (None, True)"
| "find_place ss name (i # is) =
     (if name \<le> ses_name (ss ! i) then (Some i, name \<noteq> ses_name (ss ! i)) else find_place ss name is)"

subsection \<open>Changing the table\<close>

definition Sess_hash_session :: "nat \<Rightarrow> 'a sess_st_scheme \<Rightarrow> 'a sess_st_scheme" where
  "Sess_hash_session i s =
     (let h = mbox_hash (ses_mbox (ses_at s i)) in s\<lparr>Sess_hash := (Sess_hash s)(h := i # Sess_hash s h)\<rparr>)"

text \<open>Unlinking a session that is not in its chain runs off the end of it.\<close>

definition Sess_unhash_session :: "nat \<Rightarrow> 'a sess_st_scheme \<Rightarrow> 'a sess_st_scheme outcome" where
  "Sess_unhash_session i s =
     (let h = mbox_hash (ses_mbox (ses_at s i))
      in if i \<in> set (Sess_hash s h) then Inr (s\<lparr>Sess_hash := (Sess_hash s)(h := remove1 i (Sess_hash s h))\<rparr>)
         else Inl (Undefined ''Sess_unhash_session''))"

definition Sess_get_free_session :: "'a sess_st_scheme \<Rightarrow> (nat \<times> 'a sess_st_scheme) outcome" where
  "Sess_get_free_session s =
     (case Sess_free s of
        [] \<Rightarrow> Inl (Alarm_exit ''Sess_get_free_session'')
      | i # is \<Rightarrow> Inr (i, s\<lparr>Sess_free := is\<rparr>))"

definition Sess_free_session :: "nat \<Rightarrow> 'a sess_st_scheme \<Rightarrow> 'a sess_st_scheme" where
  "Sess_free_session i s = s\<lparr>Sess_free := i # Sess_free s\<rparr>"

fun insert_before :: "nat option \<Rightarrow> nat \<Rightarrow> nat list \<Rightarrow> nat list" where
  "insert_before whr i [] = [i]"
| "insert_before whr i (j # js) = (if whr = Some j then i # j # js else j # insert_before whr i js)"

definition Sess_insert_new_session ::
  "nat option \<Rightarrow> session \<Rightarrow> 'a sess_st_scheme \<Rightarrow> (nat \<times> 'a sess_st_scheme) outcome" where
  "Sess_insert_new_session whr template s =
     bindE (Sess_get_free_session s) (\<lambda>(i, s1).
       Inr (i, s1\<lparr>Sessions := (Sessions s1)[i := template],
                  Sess_order := insert_before whr i (Sess_order s1)\<rparr>))"

definition Sess_remove_session :: "nat \<Rightarrow> 'a sess_st_scheme \<Rightarrow> 'a sess_st_scheme" where
  "Sess_remove_session i s = Sess_free_session i (s\<lparr>Sess_order := remove1 i (Sess_order s)\<rparr>)"

definition Sess_init_sessions :: "'a sess_st_scheme \<Rightarrow> 'a sess_st_scheme" where
  "Sess_init_sessions s = foldl (\<lambda>s i. Sess_free_session i s)
     (s\<lparr>Sess_hash := (\<lambda>_. []), Sess_free := [], Sess_order := []\<rparr>) [0..<MAX_SESSIONS]"

text \<open>The steps by which a connection enters and leaves the table.\<close>

definition enter_session :: "nat option \<Rightarrow> 'a sess_st_scheme \<Rightarrow> (nat \<times> 'a sess_st_scheme) outcome" where
  "enter_session whr s =
     bindE (Sess_insert_new_session whr (ses_at s MAX_SESSIONS) s) (\<lambda>(i, s1).
       let s2 = s1\<lparr>Num_sessions := Num_sessions s1 + 1\<rparr>;
           s3 = upd_ses i (\<lambda>e. e\<lparr>ses_status := ses_status e OR PRE_AUTH_SESSION\<rparr>) s2
       in Inr (i, Sess_hash_session i s3))"

definition leave_session :: "nat \<Rightarrow> 'a sess_st_scheme \<Rightarrow> 'a sess_st_scheme outcome" where
  "leave_session i s =
     bindE (Sess_unhash_session i s) (\<lambda>s1.
       let s2 = Sess_remove_session i s1 in Inr (s2\<lparr>Num_sessions := Num_sessions s2 - 1\<rparr>))"

subsection \<open>The invariant of the table\<close>

text \<open>
  Every slot is in use or free and in one list once; the sessions in use are in the order of
  their names, no two with the same name; a session is in the hash chain of its mailbox and in no
  other; the counter counts them.
\<close>

definition chain_of :: "'a sess_st_scheme \<Rightarrow> nat \<Rightarrow> nat set" where
  "chain_of s h = {i \<in> set (Sess_order s). mbox_hash (ses_mbox (ses_at s i)) = h}"

definition table_ok :: "'a sess_st_scheme \<Rightarrow> bool" where
  "table_ok s \<longleftrightarrow> length (Sessions s) = MAX_SESSIONS + 1
     \<and> sorted_wrt (\<lambda>i j. ses_name (ses_at s i) < ses_name (ses_at s j)) (Sess_order s)
     \<and> distinct (Sess_order s @ Sess_free s)
     \<and> set (Sess_order s @ Sess_free s) = {..<MAX_SESSIONS}
     \<and> (\<forall>h. distinct (Sess_hash s h) \<and> set (Sess_hash s h) = chain_of s h)
     \<and> Num_sessions s = int (length (Sess_order s))"

abbreviation name_sorted :: "session list \<Rightarrow> nat list \<Rightarrow> bool" where
  "name_sorted ss \<equiv> sorted_wrt (\<lambda>i j. ses_name (ss ! i) < ses_name (ss ! j))"

lemma get_session_walk_some: "name_sorted ss is \<Longrightarrow> i \<in> set is \<Longrightarrow> get_session_walk ss (ses_name (ss ! i)) is = int i"
  by (induction "is") auto

lemma get_session_walk_none: "\<forall>i \<in> set is. ses_name (ss ! i) \<noteq> name \<Longrightarrow> get_session_walk ss name is = -1"
  by (induction "is") auto

lemma Sess_get_session_some:
  "table_ok s \<Longrightarrow> i \<in> set (Sess_order s) \<Longrightarrow> Sess_get_session (ses_name (ses_at s i)) s = int i"
  by (simp add: Sess_get_session_def table_ok_def get_session_walk_some)

lemma Sess_get_session_none:
  "\<forall>i \<in> set (Sess_order s). ses_name (ses_at s i) \<noteq> name \<Longrightarrow> Sess_get_session name s = -1"
  by (simp add: Sess_get_session_def get_session_walk_none)

lemma Sess_get_session_cases:
  assumes "table_ok s"
  obtains (known) i where "i \<in> set (Sess_order s)" "ses_name (ses_at s i) = name" "Sess_get_session name s = int i"
  | (unknown) "\<forall>i \<in> set (Sess_order s). ses_name (ses_at s i) \<noteq> name" "Sess_get_session name s = -1"
  using Sess_get_session_some [OF assms] Sess_get_session_none by metis

lemma Sess_get_session_index_cases:
  assumes "table_ok s"
  obtains (known) i where "i \<in> set (Sess_order s)" "ses_mbox (ses_at s i) = mbox"
      "Sess_get_session_index mbox s = int i"
  | (unknown) "\<forall>i \<in> set (Sess_order s). ses_mbox (ses_at s i) \<noteq> mbox" "Sess_get_session_index mbox s = -1"
proof (cases "List.find (\<lambda>i. ses_mbox (ses_at s i) = mbox) (Sess_hash s (mbox_hash mbox))")
  case None
  then have "\<forall>i \<in> chain_of s (mbox_hash mbox). ses_mbox (ses_at s i) \<noteq> mbox"
    using assms by (auto simp: find_None_iff table_ok_def)
  then have "\<forall>i \<in> set (Sess_order s). ses_mbox (ses_at s i) \<noteq> mbox" by (auto simp: chain_of_def)
  with None show ?thesis by (intro unknown) (simp_all add: Sess_get_session_index_def)
next
  case (Some i)
  then have "i \<in> set (Sess_hash s (mbox_hash mbox))" "ses_mbox (ses_at s i) = mbox"
    by (auto simp: find_Some_iff)
  moreover have "set (Sess_hash s (mbox_hash mbox)) = chain_of s (mbox_hash mbox)"
    using assms by (simp add: table_ok_def)
  ultimately have "i \<in> chain_of s (mbox_hash mbox)" "ses_mbox (ses_at s i) = mbox" by auto
  with Some show ?thesis by (intro known) (auto simp: Sess_get_session_index_def chain_of_def)
qed

subsection \<open>Entering and leaving keep the invariant\<close>

lemma find_place_unique:
  "find_place ss name is = (whr, b) \<Longrightarrow> name_sorted ss is \<Longrightarrow> b \<longleftrightarrow> (\<forall>i \<in> set is. ses_name (ss ! i) \<noteq> name)"
proof (induction "is")
  case (Cons i "is")
  then show ?case by (auto split: if_splits)
qed simp

lemma set_insert_before: "set (insert_before whr i js) = insert i (set js)"
  by (induction js) auto

lemma distinct_insert_before: "i \<notin> set js \<Longrightarrow> distinct js \<Longrightarrow> distinct (insert_before whr i js)"
  by (induction js) (auto simp: set_insert_before)

lemma length_insert_before: "length (insert_before whr i js) = Suc (length js)"
  by (induction js) auto

lemma name_sorted_update: "i \<notin> set js \<Longrightarrow> name_sorted (ss[i := x]) js = name_sorted ss js"
proof (induction js)
  case (Cons j js)
  moreover from Cons.prems have "\<forall>k \<in> set (j # js). ss[i := x] ! k = ss ! k"
    by (metis nth_list_update_neq)
  ultimately show ?case by simp
qed simp

lemma sorted_insert_before:
  assumes "find_place ss (ses_name x) js = (whr, True)" and "name_sorted ss js" and "i \<notin> set js" and "i < length ss"
  shows "name_sorted (ss[i := x]) (insert_before whr i js)"
  using assms
proof (induction js)
  case (Cons j js)
  have ne: "\<forall>k \<in> set (j # js). k \<noteq> i" using Cons.prems(3) by auto
  then have same: "\<forall>k \<in> set js. ss[i := x] ! k = ss ! k" by (metis list.set_intros(2) nth_list_update_neq)
  show ?case
  proof (cases "ses_name x \<le> ses_name (ss ! j)")
    case True
    with Cons.prems(1) have w: "whr = Some j" and lt: "ses_name x < ses_name (ss ! j)" by auto
    have "\<forall>k \<in> set (j # js). ses_name x < ses_name (ss ! k)"
      using Cons.prems(2) lt by (auto intro: less_trans)
    with Cons.prems(2-4) ne w same show ?thesis
      by (simp add: name_sorted_update)
  next
    case False
    then have f: "find_place ss (ses_name x) js = (whr, True)" using Cons.prems(1) by simp
    moreover have "whr \<noteq> Some j"
    proof
      assume "whr = Some j"
      with f have "j \<in> set js" by (induction js) (auto split: if_splits)
      then show False using Cons.prems(2) by auto
    qed
    ultimately show ?thesis using Cons False ne same by (auto simp: set_insert_before)
  qed
qed simp

lemma Sess_init_sessions_eq:
  "Sess_init_sessions s = s\<lparr>Sess_hash := (\<lambda>_. []), Sess_free := rev [0..<MAX_SESSIONS], Sess_order := []\<rparr>"
proof -
  have "foldl (\<lambda>s i. Sess_free_session i s) t is = t\<lparr>Sess_free := rev is @ Sess_free t\<rparr>" for t :: "'a sess_st_scheme" and "is"
    by (induction "is" arbitrary: t) (simp_all add: Sess_free_session_def)
  then show ?thesis by (simp add: Sess_init_sessions_def)
qed

lemma init_table_ok:
  assumes "length (Sessions s) = MAX_SESSIONS + 1"
  shows "table_ok ((Sess_init_sessions s)\<lparr>Num_sessions := 0\<rparr>)"
  using assms by (auto simp: Sess_init_sessions_eq table_ok_def chain_of_def)

lemma enter_table_ok:
  assumes ok: "table_ok s" and place: "find_place (Sessions s) (ses_name (ses_at s MAX_SESSIONS)) (Sess_order s) = (whr, True)"
    and room: "Num_sessions s < int MAX_SESSIONS"
  shows "returns (enter_session whr s) (\<lambda>(i, s'). table_ok s' \<and> i \<notin> set (Sess_order s)
     \<and> set (Sess_order s') = insert i (set (Sess_order s)) \<and> Num_sessions s' = Num_sessions s + 1
     \<and> ses_name (ses_at s' i) = ses_name (ses_at s MAX_SESSIONS)
     \<and> (\<forall>j. j \<noteq> i \<longrightarrow> ses_at s' j = ses_at s j))"
proof -
  let ?u = "set (Sess_order s)" and ?f = "Sess_free s"
  have facts: "length (Sessions s) = MAX_SESSIONS + 1" "name_sorted (Sessions s) (Sess_order s)"
    "distinct (Sess_order s)" "distinct ?f" "?u \<inter> set ?f = {}" "?u \<union> set ?f = {..<MAX_SESSIONS}"
    "\<forall>h. distinct (Sess_hash s h) \<and> set (Sess_hash s h) = chain_of s h"
    "Num_sessions s = int (length (Sess_order s))"
    using ok by (auto simp: table_ok_def)
  have "?f \<noteq> []"
  proof
    assume "?f = []"
    with facts have "?u = {..<MAX_SESSIONS}" by simp
    then have "length (Sess_order s) = MAX_SESSIONS" using facts(3) by (metis card_lessThan distinct_card)
    with room facts(8) show False by simp
  qed
  then obtain i fs where f: "?f = i # fs" by (cases ?f) auto
  have i: "i \<notin> ?u" "i < MAX_SESSIONS" using facts(5,6) f by auto
  let ?t = "(ses_at s MAX_SESSIONS)\<lparr>ses_status := ses_status (ses_at s MAX_SESSIONS) OR PRE_AUTH_SESSION\<rparr>"
  let ?o = "insert_before whr i (Sess_order s)"
  have other: "(Sessions s)[i := ?t] ! j = ses_at s j" if "j \<noteq> i" for j using that by simp
  have "name_sorted ((Sessions s)[i := ?t]) ?o"
    using sorted_insert_before [of "Sessions s" ?t "Sess_order s" whr i] place facts(1,2) i by simp
  moreover have "chain_of (s\<lparr>Sessions := (Sessions s)[i := ?t], Sess_order := ?o\<rparr>) h
      = (if h = mbox_hash (ses_mbox ?t) then insert i (chain_of s h) else chain_of s h)" for h
    using i facts(1) by (auto simp: chain_of_def set_insert_before nth_list_update split: if_splits)
  moreover have "i \<notin> chain_of s h" for h using i by (simp add: chain_of_def)
  ultimately show ?thesis
    using facts i other f
    by (auto simp: enter_session_def Sess_insert_new_session_def Sess_get_free_session_def upd_ses_def
        Sess_hash_session_def Let_def table_ok_def set_insert_before distinct_insert_before
        length_insert_before chain_of_def)
qed

lemma sorted_wrt_remove1: "sorted_wrt P xs \<Longrightarrow> sorted_wrt P (remove1 x xs)"
  by (induction xs) (auto dest: in_set_remove1 [THEN iffD1, rotated] set_mp [OF set_remove1_subset])

lemma leave_table_ok:
  assumes ok: "table_ok s" and i: "i \<in> set (Sess_order s)"
  shows "returns (leave_session i s) (\<lambda>s'. table_ok s' \<and> set (Sess_order s') = set (Sess_order s) - {i}
     \<and> Num_sessions s' = Num_sessions s - 1 \<and> Sessions s' = Sessions s)"
proof -
  let ?h = "mbox_hash (ses_mbox (ses_at s i))"
  have facts: "length (Sessions s) = MAX_SESSIONS + 1" "name_sorted (Sessions s) (Sess_order s)"
    "distinct (Sess_order s)" "distinct (Sess_free s)" "set (Sess_order s) \<inter> set (Sess_free s) = {}"
    "set (Sess_order s) \<union> set (Sess_free s) = {..<MAX_SESSIONS}"
    "\<And>h. distinct (Sess_hash s h)" "\<And>h. set (Sess_hash s h) = chain_of s h"
    "Num_sessions s = int (length (Sess_order s))"
    using ok by (auto simp: table_ok_def)
  have "i \<in> set (Sess_hash s ?h)" using i by (simp add: facts(8) chain_of_def)
  moreover have "chain_of (s\<lparr>Sess_order := remove1 i (Sess_order s)\<rparr>) h = chain_of s h - {i}" for h
    using facts(3) by (auto simp: chain_of_def)
  moreover have "i \<notin> chain_of s h" if "h \<noteq> ?h" for h using that by (simp add: chain_of_def)
  moreover have "int (length (remove1 i (Sess_order s))) = Num_sessions s - 1"
    using i facts(9) length_pos_if_in_set [OF i] by (simp add: length_remove1 of_nat_diff Suc_le_eq)
  ultimately show ?thesis
    using facts i
    by (auto simp: leave_session_def Sess_unhash_session_def Sess_remove_session_def Sess_free_session_def
        Let_def table_ok_def sorted_wrt_remove1 chain_of_def)
qed

subsection \<open>Properties\<close>

text \<open>
  C33: the table keeps its invariant: it holds after \<open>Sess_init_sessions\<close>, when a connection with
  an unused name enters where the walk along the names put it, and when a session leaves; and
  exactly that session is added or removed.
\<close>

theorem session_table_kept:
  assumes "length (Sessions s0) = MAX_SESSIONS + 1" and "table_ok s"
    and "find_place (Sessions s) (ses_name (ses_at s MAX_SESSIONS)) (Sess_order s) = (whr, True)"
    and "Num_sessions s < int MAX_SESSIONS" and "j \<in> set (Sess_order s)"
  shows "table_ok ((Sess_init_sessions s0)\<lparr>Num_sessions := 0\<rparr>)
     \<and> returns (enter_session whr s) (\<lambda>(i, s'). table_ok s' \<and> i \<notin> set (Sess_order s)
          \<and> set (Sess_order s') = insert i (set (Sess_order s)))
     \<and> returns (leave_session j s) (\<lambda>s'. table_ok s' \<and> set (Sess_order s') = set (Sess_order s) - {j})"
  using init_table_ok [OF assms(1)] enter_table_ok [OF assms(2-4)] leave_table_ok [OF assms(2,5)]
  by (auto elim: returns_mono)

text \<open>
  the lookups by name and by mailbox return a session of the table with that name or mailbox,
  and -1 exactly when there is none; the walk of \<open>Sess_accept_continue\<close> finds a name free exactly
  when no session has it.
\<close>

theorem session_lookups:
  assumes "table_ok s"
  shows "(case Sess_get_session name s of r \<Rightarrow>
            if \<exists>i \<in> set (Sess_order s). ses_name (ses_at s i) = name
            then 0 \<le> r \<and> nat r \<in> set (Sess_order s) \<and> ses_name (ses_at s (nat r)) = name else r = -1)
     \<and> (case Sess_get_session_index mbox s of r \<Rightarrow>
            if \<exists>i \<in> set (Sess_order s). ses_mbox (ses_at s i) = mbox
            then 0 \<le> r \<and> nat r \<in> set (Sess_order s) \<and> ses_mbox (ses_at s (nat r)) = mbox else r = -1)
     \<and> (snd (find_place (Sessions s) name (Sess_order s)) \<longleftrightarrow> Sess_get_session name s = -1)"
proof (intro conjI)
  show "case Sess_get_session name s of r \<Rightarrow>
            if \<exists>i \<in> set (Sess_order s). ses_name (ses_at s i) = name
            then 0 \<le> r \<and> nat r \<in> set (Sess_order s) \<and> ses_name (ses_at s (nat r)) = name else r = -1"
    by (rule Sess_get_session_cases [OF assms, of name]) auto
  show "case Sess_get_session_index mbox s of r \<Rightarrow>
            if \<exists>i \<in> set (Sess_order s). ses_mbox (ses_at s i) = mbox
            then 0 \<le> r \<and> nat r \<in> set (Sess_order s) \<and> ses_mbox (ses_at s (nat r)) = mbox else r = -1"
    by (rule Sess_get_session_index_cases [OF assms, of mbox]) auto
  have "snd (find_place (Sessions s) name (Sess_order s)) \<longleftrightarrow>
      (\<forall>i \<in> set (Sess_order s). ses_name (ses_at s i) \<noteq> name)"
    using find_place_unique assms by (metis prod.collapse table_ok_def)
  then show "snd (find_place (Sessions s) name (Sess_order s)) \<longleftrightarrow> Sess_get_session name s = -1"
    by (cases rule: Sess_get_session_cases [OF assms, of name]) auto
qed

subsection \<open>An example\<close>

definition no_session :: session where
  "no_session = \<lparr>ses_name = [], lib_version = [0, 0, 0], ses_address = 0, ses_status = 0, ses_priority = 0,
     ses_mbox = 0, ses_type = 0, ses_down_queue = 0, ses_read = Message_reset_current_location,
     read_mess = None, ses_write = Message_reset_current_location, ses_queue = [], ses_acp_ops = None\<rparr>"

definition sess_blank :: sess_st where
  "sess_blank = \<lparr>Time_queue = [], Now = Sp_time 0 0, time_of_day = (\<lambda>_. Sp_time 0 0), time_reads = 0,
     Config = \<lparr>hash_code = 0, segments = []\<rparr>, Config_procs = [],
     My = \<lparr>p_name = ''d1'', p_port = 4803, p_seg_index = 0, p_index_in_seg = 0, p_id = 11, p_ifc = []\<rparr>,
     Conf_Reload_State = False, EnableDangerousMonitor = False,
     Sessions = replicate (MAX_SESSIONS + 1) no_session, Sess_order = [], Sess_free = [], Sess_hash = (\<lambda>_. []),
     Num_sessions = 0, Session_threshold = 0, Protocol_threshold = 0, send_ret = (\<lambda>_ _. 0), send_calls = 0, sess_out = []\<rparr>"

text \<open>A table with the sessions \<open>v\<close> and \<open>u\<close> and a connection of \<open>w\<close> coming in.\<close>

definition sessions_example :: "session list" where
  "sessions_example = (replicate (MAX_SESSIONS + 1) no_session)
       [0 := no_session\<lparr>ses_name := ''v'', ses_mbox := 7, ses_status := MEMB_SESSION OR OP_SESSION\<rparr>,
        1 := no_session\<lparr>ses_name := ''u'', ses_mbox := 8, ses_status := MEMB_SESSION OR OP_SESSION\<rparr>,
        MAX_SESSIONS := no_session\<lparr>ses_name := ''w'', ses_mbox := 9, ses_status := MEMB_SESSION\<rparr>]"

definition sess_example :: sess_st where
  "sess_example = sess_blank\<lparr>Sessions := sessions_example, Sess_order := [1, 0], Sess_free := [2..<MAX_SESSIONS],
     Sess_hash := (\<lambda>h. if h = 7 then [0] else if h = 8 then [1] else []), Num_sessions := 2\<rparr>"

lemma mbox_hash_small: "mbox_hash 7 = 7 \<and> mbox_hash 8 = 8 \<and> mbox_hash 9 = 9"
  by code_simp

lemma sess_example_at: "ses_at sess_example 0 = no_session\<lparr>ses_name := ''v'', ses_mbox := 7, ses_status := MEMB_SESSION OR OP_SESSION\<rparr>"
  "ses_at sess_example (Suc 0) = no_session\<lparr>ses_name := ''u'', ses_mbox := 8, ses_status := MEMB_SESSION OR OP_SESSION\<rparr>"
  "ses_at sess_example MAX_SESSIONS = no_session\<lparr>ses_name := ''w'', ses_mbox := 9, ses_status := MEMB_SESSION\<rparr>"
  by (simp_all add: sess_example_def sess_blank_def sessions_example_def MAX_SESSIONS_def nth_list_update)

lemma length_sessions_example: "length sessions_example = MAX_SESSIONS + 1"
  by (simp only: sessions_example_def length_list_update length_replicate)

lemma sess_example_fields: "Sess_order sess_example = [Suc 0, 0]" "Sess_free sess_example = [2..<MAX_SESSIONS]"
  "Num_sessions sess_example = 2" "length (Sessions sess_example) = MAX_SESSIONS + 1"
  "Sess_hash sess_example h = (if h = 7 then [0] else if h = 8 then [1] else [])"
  by (simp_all add: sess_example_def sess_blank_def length_sessions_example)

lemma sess_example_chains: "chain_of sess_example h = (if h = 7 then {0} else if h = 8 then {1} else {})"
proof -
  have "chain_of sess_example h = {i. (i = 0 \<and> h = 7) \<or> (i = Suc 0 \<and> h = 8)}"
    unfolding chain_of_def sess_example_fields(1) using mbox_hash_small
    by (intro set_eqI) (auto simp: sess_example_at no_session_def)
  then show ?thesis by auto
qed

lemma sess_example_ok: "table_ok sess_example"
  unfolding table_ok_def sess_example_chains sess_example_fields
proof (intro conjI allI)
  have "(''u'' :: string) < ''v''" by (simp add: less_char_def)
  then show "name_sorted (Sessions sess_example) [Suc 0, 0]" by (simp add: sess_example_at no_session_def)
  have "2 \<le> MAX_SESSIONS" by (simp add: MAX_SESSIONS_def)
  then show "set ([Suc 0, 0] @ [2..<MAX_SESSIONS]) = {..<MAX_SESSIONS}" by auto
  show "distinct ([Suc 0, 0] @ [2..<MAX_SESSIONS])" by simp
qed simp_all

lemma sess_example_place:
  "find_place (Sessions sess_example) (ses_name (ses_at sess_example MAX_SESSIONS)) (Sess_order sess_example) = (None, True)"
proof -
  have "\<not> (''w'' :: string) \<le> ''u''" "\<not> (''w'' :: string) \<le> ''v''" by (simp_all add: less_eq_char_def less_char_def)
  then show ?thesis by (simp add: sess_example_fields sess_example_at no_session_def)
qed

theorem session_table_kept_witness:
  "table_ok ((Sess_init_sessions sess_blank)\<lparr>Num_sessions := 0\<rparr>)
   \<and> returns (enter_session None sess_example) (\<lambda>(i, s'). table_ok s' \<and> Sess_get_session (ses_name (ses_at s' i)) s' = int i)
   \<and> returns (leave_session 0 sess_example) (\<lambda>s'. set (Sess_order s') = {1})"
proof -
  have o: "Sess_order sess_example = [Suc 0, 0]" "Num_sessions sess_example < int MAX_SESSIONS"
    by (simp_all add: sess_example_def MAX_SESSIONS_def)
  have l: "length (Sessions sess_blank) = MAX_SESSIONS + 1" by (simp add: sess_blank_def)
  note k = session_table_kept [OF l sess_example_ok sess_example_place o(2), of 0]
  have "returns (enter_session None sess_example) (\<lambda>(i, s'). table_ok s' \<and> i \<notin> set (Sess_order sess_example)
          \<and> set (Sess_order s') = insert i (set (Sess_order sess_example)))" using k o by simp
  then have "returns (enter_session None sess_example)
      (\<lambda>(i, s'). table_ok s' \<and> Sess_get_session (ses_name (ses_at s' i)) s' = int i)"
    by (rule returns_mono) (auto intro: Sess_get_session_some)
  then show ?thesis using k o by (auto elim: returns_mono)
qed

theorem session_lookups_witness:
  "Sess_get_session_index 8 sess_example = 1 \<and> Sess_get_session ''w'' sess_example = -1"
proof -
  have o: "set (Sess_order sess_example) = {0, Suc 0}" by (auto simp: sess_example_def)
  have "\<not> ses_mbox (ses_at sess_example 0) = 8" "ses_mbox (ses_at sess_example (Suc 0)) = 8"
    "ses_name (ses_at sess_example 0) \<noteq> ''w''" "ses_name (ses_at sess_example (Suc 0)) \<noteq> ''w''"
    by (simp_all add: sess_example_at no_session_def)
  then show ?thesis using session_lookups [OF sess_example_ok, of "''w''" 8] unfolding o by auto
qed

end
