(* ===== verification/Session_Write.thy ===== *)
theory Session_Write
  imports Session_Table
begin

section \<open>Writing to clients\<close>

text \<open>
  Model of \<open>Sess_write\<close>, \<open>Sess_badger\<close> and \<open>Sess_kill\<close> of \<open>daemon/session.c\<close>: a message is sent to
  a client at once as far as its socket takes it, what is left is queued and sent later, and a
  client that does not read is killed. The link that carries a message in a queue may be a copy
  (\<open>needed\<close>); as messages are values here this makes no difference.
\<close>

subsection \<open>Sockets\<close>

definition sock_send :: "int \<Rightarrow> 8 word list \<Rightarrow> 'a sess_st_scheme \<Rightarrow> int \<times> 'a sess_st_scheme" where
  "sock_send mbox bs s =
     (let ret = send_ret s (send_calls s) (length bs)
      in (ret, out (Client_send mbox (take (nat ret) bs)) (s\<lparr>send_calls := Suc (send_calls s)\<rparr>)))"

text \<open>Sending pieces in turn until one is not taken completely: the bytes taken in all.\<close>

fun send_pieces :: "int \<Rightarrow> 8 word list list \<Rightarrow> nat \<Rightarrow> 'a sess_st_scheme \<Rightarrow> nat \<times> 'a sess_st_scheme" where
  "send_pieces mbox [] len_sent s = (len_sent, s)"
| "send_pieces mbox (e # es) len_sent s =
     (let (ret, s1) = sock_send mbox e s
      in if ret \<noteq> int (length e) then (len_sent + nat ret, s1)
         else send_pieces mbox es (len_sent + nat ret) s1)"

subsection \<open>Killing a session\<close>

definition private_group :: "string \<Rightarrow> 'a sess_st_scheme \<Rightarrow> string" where
  "private_group name s = ''#'' @ name @ ''#'' @ p_name (My s)"

definition Sess_kill :: "int \<Rightarrow> 'a sess_st_scheme \<Rightarrow> 'a sess_st_scheme outcome" where
  "Sess_kill mbox s =
     (let ses = Sess_get_session_index mbox s; i = nat ses; e = ses_at s i
      in if ses < 0 \<or> ses \<ge> int MAX_SESSIONS then Inr s
         else if \<not> Is_op_session (ses_status e) \<and> Is_preauth_session (ses_status e)
         then Inl (Alarm_exit ''Sess_kill'')
         else
           let kill_mess = Message_create_message (KILL_MESS OR SAFE_MESS) (private_group (ses_name e) s);
               t = Message_get_packet_type (mh_type (mo_head kill_mess));
               s1 = out (Down_message t kill_mess (ses_down_queue e)) s;
               s2 = upd_ses i (\<lambda>e. e\<lparr>ses_queue := [],
                      ses_read := Message_reset_current_location\<lparr>in_mess_head := True\<rparr>, read_mess := None\<rparr>) s1;
               s3 = out (Close_fd mbox) (out (Detach_fd mbox) (out (Dequeue_badger mbox) s2))
           in Inr (upd_ses i (\<lambda>e. e\<lparr>ses_status := ses_status e AND NOT OP_SESSION\<rparr>) s3))"

subsection \<open>Badgering\<close>

text \<open>
  The elements of the first message from the write position on: whether all of them were taken,
  and the position reached.
\<close>

fun badger_elements :: "int \<Rightarrow> 8 word list list \<Rightarrow> nat \<Rightarrow> nat \<Rightarrow> 'a sess_st_scheme
    \<Rightarrow> (bool \<times> nat \<times> nat) \<times> 'a sess_st_scheme" where
  "badger_elements mbox [] i from s = ((True, i, from), s)"
| "badger_elements mbox (e # es) i from s =
     (let (ret, s1) = sock_send mbox (drop from e) s
      in if ret = int (length (drop from e)) then badger_elements mbox es (Suc i) 0 s1
         else ((False, i, from + nat ret), s1))"

text \<open>
  The header is sent on its own where a position says so; the rest follows unless that failed.
\<close>

definition badger_head :: "int \<Rightarrow> message_obj \<Rightarrow> nat \<Rightarrow> 'a sess_st_scheme \<Rightarrow> bool \<times> 'a sess_st_scheme" where
  "badger_head mbox m i s =
     (let w = ses_write (ses_at s i); from = nat (cur_byte w);
          rest = drop from (head_bytes (mo_head m))
      in if \<not> in_mess_head w then (True, s)
         else
           let (ret, s1) = sock_send mbox rest s
           in if ret = int (length rest)
              then (True, upd_ses i (\<lambda>e. e\<lparr>ses_write := Message_set_location_begin_body (ses_write e)\<rparr>) s1)
              else (False, if ret > 0
                           then upd_ses i (\<lambda>e. e\<lparr>ses_write := (ses_write e)\<lparr>cur_byte := int from + ret\<rparr>\<rparr>) s1
                           else s1))"

definition badger_message :: "int \<Rightarrow> message_obj \<Rightarrow> nat \<Rightarrow> 'a sess_st_scheme \<Rightarrow> bool \<times> 'a sess_st_scheme" where
  "badger_message mbox m i s =
     (let (able, s1) = badger_head mbox m i s
      in if \<not> able then (False, s1)
         else
           let w = ses_write (ses_at s1 i);
               ((able2, k, b), s2) = badger_elements mbox (drop (nat (cur_element w)) (elements m))
                                       (nat (cur_element w)) (nat (cur_byte w)) s1
           in (able2, upd_ses i (\<lambda>e. e\<lparr>ses_write := w\<lparr>cur_element := int k, cur_byte := int b\<rparr>\<rparr>) s2))"

fun badger_loop :: "int \<Rightarrow> nat \<Rightarrow> message_obj list \<Rightarrow> 'a sess_st_scheme \<Rightarrow> 'a sess_st_scheme" where
  "badger_loop mbox i [] s = s"
| "badger_loop mbox i (m # ms) s =
     (let (able, s1) = badger_message mbox m i s
      in if able
         then badger_loop mbox i ms
                (upd_ses i (\<lambda>e. e\<lparr>ses_queue := ms, ses_write := Message_reset_current_location\<rparr>) s1)
         else s1)"

definition Sess_badger :: "int \<Rightarrow> 'a sess_st_scheme \<Rightarrow> 'a sess_st_scheme" where
  "Sess_badger mbox s =
     (let ses = Sess_get_session_index mbox s; i = nat ses
      in if ses < 0 \<or> ses \<ge> int MAX_SESSIONS \<or> \<not> Is_op_session (ses_status (ses_at s i))
            \<or> ses_queue (ses_at s i) = [] then s
         else
           let s1 = badger_loop mbox i (ses_queue (ses_at s i)) s
           in if ses_queue (ses_at s1 i) \<noteq> [] then out (Queue_badger mbox) s1 else s1)"

subsection \<open>Writing a message\<close>

text \<open>The pieces \<open>Sess_write\<close> sends: the header, the first data and the other elements.\<close>

definition write_pieces :: "message_obj \<Rightarrow> 8 word list list" where
  "write_pieces m = head_bytes (mo_head m)
     # take (nat (Message_get_first_data_len m)) (Message_get_first_data_ptr m) # tl (elements m)"

definition link_message :: "nat \<Rightarrow> message_obj \<Rightarrow> nat \<Rightarrow> 'a sess_st_scheme \<Rightarrow> 'a sess_st_scheme" where
  "link_message i m len_sent s =
     (let e = ses_at s i
      in if ses_queue e = []
         then out (Queue_badger (ses_mbox e))
                (upd_ses i (\<lambda>e. e\<lparr>ses_queue := [m],
                   ses_write := Message_calculate_current_location m len_sent (ses_write e)\<rparr>) s)
         else upd_ses i (\<lambda>e. e\<lparr>ses_queue := ses_queue e @ [m]\<rparr>) s)"

definition Sess_write :: "int \<Rightarrow> message_obj \<Rightarrow> 'a sess_st_scheme \<Rightarrow> 'a sess_st_scheme outcome" where
  "Sess_write ses m s =
     (let i = nat ses; e = ses_at s i
      in if ses < 0 \<or> ses > int MAX_SESSIONS then Inl (Undefined ''Sess_write'')
         else if \<not> Is_op_session (ses_status e) then Inr s
         else if length (ses_queue e) \<ge> MAX_SESSION_MESSAGES then Sess_kill (ses_mbox e) s
         else
           let s1 = (if ses_queue e \<noteq> [] then Sess_badger (ses_mbox e) s else s);
               total_to_send = length (concat (elements m));
               (len_sent, s2) = (if ses_queue (ses_at s1 i) = []
                                 then send_pieces (ses_mbox e) (write_pieces m) 0 s1 else (0, s1))
           in Inr (if len_sent < total_to_send then link_message i m len_sent s2 else s2))"

subsection \<open>What a client has been and will be sent\<close>

definition sent_to :: "int \<Rightarrow> 'a sess_st_scheme \<Rightarrow> 8 word list" where
  "sent_to mbox s = concat (map (\<lambda>e. case e of Client_send b bs \<Rightarrow> if b = mbox then bs else [] | _ \<Rightarrow> []) (sess_out s))"

definition rest_at :: "nat \<Rightarrow> nat \<Rightarrow> message_obj \<Rightarrow> 8 word list" where
  "rest_at k b m = drop b (concat (take 1 (drop k (elements m)))) @ concat (drop (Suc k) (elements m))"

fun unsent :: "partial_message_info \<Rightarrow> message_obj list \<Rightarrow> 8 word list" where
  "unsent w [] = []"
| "unsent w (m # ms) = rest_at (nat (cur_element w)) (nat (cur_byte w)) m @ concat (map (\<lambda>m. concat (elements m)) ms)"

definition owed :: "nat \<Rightarrow> 'a sess_st_scheme \<Rightarrow> 8 word list" where
  "owed i s = unsent (ses_write (ses_at s i)) (ses_queue (ses_at s i))"

text \<open>What \<open>send\<close> promises: it takes no more than it was given.\<close>

definition takes_at_most :: "'a sess_st_scheme \<Rightarrow> bool" where
  "takes_at_most s \<longleftrightarrow> (\<forall>n len. send_ret s n len \<le> int len)"

subsection \<open>Lemmas: nothing is lost or sent twice\<close>

text \<open>\<open>same_but_io\<close>: the two states differ in what was sent only.\<close>

definition same_but_io :: "'a sess_st_scheme \<Rightarrow> 'a sess_st_scheme \<Rightarrow> bool" where
  "same_but_io s s' \<longleftrightarrow> (\<exists>n es. s' = s\<lparr>send_calls := n, sess_out := es\<rparr>)"

lemma same_but_io_refl [simp]: "same_but_io s s"
  unfolding same_but_io_def by (rule exI [of _ "send_calls s"], rule exI [of _ "sess_out s"]) simp

lemma same_but_io_trans: "same_but_io s s' \<Longrightarrow> same_but_io s' s'' \<Longrightarrow> same_but_io s s''"
  unfolding same_but_io_def by auto blast

lemma same_but_ioD: "same_but_io s s' \<Longrightarrow> Sessions s' = Sessions s \<and> send_ret s' = send_ret s
    \<and> Sess_hash s' = Sess_hash s \<and> Sess_order s' = Sess_order s"
  by (auto simp: same_but_io_def)

lemma sock_send_io: "sock_send mbox bs s = (ret, s') \<Longrightarrow> same_but_io s s'"
  by (auto simp: sock_send_def out_def Let_def same_but_io_def)

lemma sent_to_sock_send: "sock_send mbox bs s = (ret, s') \<Longrightarrow> sent_to mbox s' = sent_to mbox s @ take (nat ret) bs"
  by (auto simp: sock_send_def out_def Let_def sent_to_def)

lemma sock_send_le: "sock_send mbox bs s = (ret, s') \<Longrightarrow> takes_at_most s \<Longrightarrow> nat ret \<le> length bs"
  by (auto simp: sock_send_def Let_def takes_at_most_def nat_le_iff)

definition after :: "nat \<Rightarrow> 8 word list list \<Rightarrow> 8 word list" where
  "after b els = drop b (concat (take 1 els)) @ concat (drop 1 els)"

lemma rest_at_after: "rest_at k b m = after b (drop k (elements m))"
  by (simp add: rest_at_def after_def)

lemma after_0: "after 0 els = concat els"
  by (cases els) (simp_all add: after_def)

lemma badger_elements_sends:
  assumes "badger_elements mbox els k from s = ((able, k', b'), s')"
  shows "same_but_io s s' \<and> k \<le> k' \<and> sent_to mbox s' @ after b' (drop (k' - k) els) = sent_to mbox s @ after from els
     \<and> (able \<longrightarrow> after b' (drop (k' - k) els) = [])"
  using assms
proof (induction els arbitrary: k "from" s)
  case (Cons e es)
  obtain ret s1 where r: "sock_send mbox (drop from e) s = (ret, s1)" by fastforce
  note io = sock_send_io [OF r] and st = sent_to_sock_send [OF r]
  show ?case
  proof (cases "ret = int (length (drop from e))")
    case True
    then have b: "badger_elements mbox es (Suc k) 0 s1 = ((able, k', b'), s')" using Cons.prems(1) r by simp
    from Cons.IH [OF b] io st True
    have "same_but_io s s'" "Suc k \<le> k'" "sent_to mbox s' @ after b' (drop (k' - Suc k) es) = sent_to mbox s @ drop from e @ concat es"
      "able \<longrightarrow> after b' (drop (k' - Suc k) es) = []"
      by (auto simp: after_0 intro: same_but_io_trans)
    moreover from this(2) have "k' - k = Suc (k' - Suc k)" by simp
    ultimately show ?thesis by (simp add: after_def)
  next
    case False
    then have "able = False" "k' = k" "b' = from + nat ret" "s' = s1" using Cons.prems r by auto
    moreover have "take (nat ret) (drop from e) @ drop (from + nat ret) e @ zs = drop from e @ zs" for zs
      by (metis append_assoc append_take_drop_id add.commute drop_drop)
    ultimately show ?thesis using io st by (simp add: after_def)
  qed
qed (simp add: after_def)

text \<open>
  \<open>stream i b s\<close>: what the client of slot \<open>i\<close> with mailbox \<open>b\<close> has been sent, and then what it is
  owed. \<open>queued i ms s\<close>: the messages waiting, with a position in the body of the first.
\<close>

definition stream :: "nat \<Rightarrow> int \<Rightarrow> 'a sess_st_scheme \<Rightarrow> 8 word list" where
  "stream i b s = sent_to b s @ owed i s"

definition queued :: "nat \<Rightarrow> message_obj list \<Rightarrow> 'a sess_st_scheme \<Rightarrow> bool" where
  "queued i ms s \<longleftrightarrow> i < length (Sessions s) \<and> ses_queue (ses_at s i) = ms
     \<and> \<not> in_mess_head (ses_write (ses_at s i))"

lemma ses_at_upd [simp]: "i < length (Sessions s) \<Longrightarrow> ses_at (upd_ses i f s) i = f (ses_at s i)"
  by (simp add: upd_ses_def)

lemma upd_ses_other [simp]: "j \<noteq> i \<Longrightarrow> ses_at (upd_ses i f s) j = ses_at s j"
  by (simp add: upd_ses_def)

lemma upd_ses_simps [simp]: "length (Sessions (upd_ses i f s)) = length (Sessions s)"
  "send_ret (upd_ses i f s) = send_ret s" "sess_out (upd_ses i f s) = sess_out s"
  "Sess_hash (upd_ses i f s) = Sess_hash s" "Sess_order (upd_ses i f s) = Sess_order s"
  "sent_to b (upd_ses i f s) = sent_to b s"
  by (simp_all add: upd_ses_def sent_to_def)

lemma badger_message_sends:
  assumes "badger_message mbox m i s = (able, s')" and "queued i (m # ms) s"
  shows "queued i (m # ms) s' \<and> stream i mbox s' = stream i mbox s
     \<and> (able \<longrightarrow> owed i s' = concat (map (\<lambda>m. concat (elements m)) ms)) \<and> send_ret s' = send_ret s
     \<and> length (Sessions s') = length (Sessions s)
     \<and> ses_mbox (ses_at s' i) = ses_mbox (ses_at s i) \<and> ses_status (ses_at s' i) = ses_status (ses_at s i)"
proof -
  let ?w = "ses_write (ses_at s i)" let ?k = "nat (cur_element ?w)"
  obtain k' b' s2 where b: "badger_elements mbox (drop ?k (elements m)) ?k (nat (cur_byte ?w)) s = ((able, k', b'), s2)"
    and s': "s' = upd_ses i (\<lambda>e. e\<lparr>ses_write := ?w\<lparr>cur_element := int k', cur_byte := int b'\<rparr>\<rparr>) s2"
    using assms(1,2) by (auto simp: badger_message_def badger_head_def queued_def Let_def split: prod.splits)
  from badger_elements_sends [OF b]
  have io: "same_but_io s s2" and k: "?k \<le> k'"
    and e: "sent_to mbox s2 @ after b' (drop k' (elements m)) = sent_to mbox s @ after (nat (cur_byte ?w)) (drop ?k (elements m))"
    and a: "able \<longrightarrow> after b' (drop k' (elements m)) = []" by auto
  note same = same_but_ioD [OF io]
  have q: "i < length (Sessions s)" "ses_queue (ses_at s i) = m # ms" "\<not> in_mess_head ?w"
    using assms(2) by (simp_all add: queued_def)
  have "owed i s' = after b' (drop k' (elements m)) @ concat (map (\<lambda>m. concat (elements m)) ms)"
    using q same by (simp add: s' owed_def rest_at_after)
  moreover have "owed i s = after (nat (cur_byte ?w)) (drop ?k (elements m)) @ concat (map (\<lambda>m. concat (elements m)) ms)"
    using q by (simp add: owed_def rest_at_after)
  moreover have "sent_to mbox s' = sent_to mbox s2" by (simp add: s')
  ultimately have "stream i mbox s' = stream i mbox s"
    unfolding stream_def by (metis append_assoc e)
  moreover have "able \<longrightarrow> owed i s' = concat (map (\<lambda>m. concat (elements m)) ms)"
    using a \<open>owed i s' = _\<close> by simp
  moreover have "queued i (m # ms) s'" using q same by (simp add: s' queued_def)
  ultimately show ?thesis using q same by (simp add: s')
qed

lemma badger_loop_sends:
  assumes "queued i ms s"
  shows "stream i mbox (badger_loop mbox i ms s) = stream i mbox s
     \<and> (\<exists>ms'. queued i ms' (badger_loop mbox i ms s))
     \<and> send_ret (badger_loop mbox i ms s) = send_ret s
     \<and> length (Sessions (badger_loop mbox i ms s)) = length (Sessions s)
     \<and> ses_mbox (ses_at (badger_loop mbox i ms s) i) = ses_mbox (ses_at s i)
     \<and> ses_status (ses_at (badger_loop mbox i ms s) i) = ses_status (ses_at s i)"
  using assms
proof (induction ms arbitrary: s)
  case (Cons m ms)
  obtain able s1 where b: "badger_message mbox m i s = (able, s1)" by fastforce
  note B = badger_message_sends [OF b Cons.prems]
  show ?case
  proof (cases able)
    case True
    let ?t = "upd_ses i (\<lambda>e. e\<lparr>ses_queue := ms, ses_write := Message_reset_current_location\<rparr>) s1"
    have i: "i < length (Sessions s1)" using B by (simp add: queued_def)
    then have "queued i ms ?t" by (simp add: queued_def Message_reset_current_location_def)
    moreover have "owed i ?t = concat (map (\<lambda>m. concat (elements m)) ms)"
      using i by (cases ms) (simp_all add: owed_def Message_reset_current_location_def rest_at_after after_0)
    then have "owed i ?t = owed i s1" using B True by simp
    then have "stream i mbox ?t = stream i mbox s" using B by (simp add: stream_def)
    ultimately show ?thesis using Cons.IH [of ?t] B b True i by simp
  next
    case False
    then show ?thesis using B b by auto
  qed
qed auto

lemma send_pieces_sends:
  assumes "send_pieces mbox es n s = (n', s')" and "takes_at_most s"
  shows "same_but_io s s' \<and> n \<le> n' \<and> n' - n \<le> length (concat es)
     \<and> sent_to mbox s' = sent_to mbox s @ take (n' - n) (concat es)"
  using assms
proof (induction es arbitrary: n s)
  case (Cons e es)
  obtain ret s1 where r: "sock_send mbox e s = (ret, s1)" by fastforce
  note io = sock_send_io [OF r] and st = sent_to_sock_send [OF r] and le = sock_send_le [OF r Cons.prems(2)]
  show ?case
  proof (cases "ret = int (length e)")
    case True
    then have b: "send_pieces mbox es (n + length e) s1 = (n', s')" using Cons.prems(1) r by simp
    have "takes_at_most s1" using Cons.prems(2) same_but_ioD [OF io] by (simp add: takes_at_most_def)
    from Cons.IH [OF b this] io st True show ?thesis
      by (auto intro: same_but_io_trans)
  next
    case False
    then show ?thesis using Cons.prems(1) r io st le by auto
  qed
qed simp

text \<open>A message that \<open>Sess_write\<close> can send in pieces: a reject message has no first data.\<close>

definition writable :: "message_obj \<Rightarrow> bool" where
  "writable m \<longleftrightarrow> mo_data m \<noteq> [] \<and> (Is_reject_mess (mh_type (mo_head m)) \<longrightarrow> hd (mo_data m) = [])"

lemma write_pieces_concat: "writable m \<Longrightarrow> concat (write_pieces m) = concat (elements m)"
  by (cases "mo_data m")
    (auto simp: writable_def write_pieces_def elements_def Message_get_first_data_len_def
      Message_get_first_data_ptr_def element_data_def)

lemma rest_at_location:
  assumes "n \<le> length (concat (elements m))" and "Message_calculate_current_location m n p = q"
  shows "rest_at (nat (cur_element q)) (nat (cur_byte q)) m = drop n (concat (elements m))"
proof -
  obtain i k where l: "locate (map length (elements m)) 0 n = (i, k)" by fastforce
  then have "cur_element q = int i" "cur_byte q = int k"
    using assms(2) by (auto simp: Message_calculate_current_location_def)
  then show ?thesis using drop_locate [OF assms(1) l] by (simp add: rest_at_def)
qed

lemma link_message_stream:
  assumes "queued i ms s" and "len \<le> length (concat (elements m))" and "ms \<noteq> [] \<Longrightarrow> len = 0"
  shows "queued i (ms @ [m]) (link_message i m len s)
     \<and> stream i b (link_message i m len s) = stream i b s @ drop len (concat (elements m))"
proof (cases ms)
  case Nil
  have "rest_at (nat (cur_element (Message_calculate_current_location m len p)))
      (nat (cur_byte (Message_calculate_current_location m len p))) m = drop len (concat (elements m))" for p
    using rest_at_location [OF assms(2) refl] .
  then show ?thesis using assms(1) Nil
    by (auto simp: link_message_def queued_def stream_def owed_def Let_def out_def upd_ses_def sent_to_def
        Message_calculate_current_location_def split: prod.splits)
next
  case (Cons m' ms')
  then have "unsent w (ms @ [m]) = unsent w ms @ concat (elements m)" for w by simp
  then show ?thesis using assms Cons
    by (auto simp: link_message_def queued_def stream_def owed_def)
qed

lemma badger_stream:
  assumes "queued i ms s" and "Sess_get_session_index b s = int i" and "i < MAX_SESSIONS"
    and "Is_op_session (ses_status (ses_at s i))"
  shows "stream i b (Sess_badger b s) = stream i b s \<and> (\<exists>ms'. queued i ms' (Sess_badger b s))
     \<and> send_ret (Sess_badger b s) = send_ret s
     \<and> ses_mbox (ses_at (Sess_badger b s) i) = ses_mbox (ses_at s i)"
proof -
  have o: "stream i b (out (Queue_badger b) t) = stream i b t" "queued i ms' (out (Queue_badger b) t) = queued i ms' t"
    "send_ret (out e t) = send_ret t" "Sessions (out e t) = Sessions t" for t ms' e
    by (simp_all add: out_def stream_def owed_def queued_def sent_to_def)
  show ?thesis
    using badger_loop_sends [OF assms(1), of b] assms
    by (auto simp: Sess_badger_def Let_def queued_def o)
qed

subsection \<open>Properties\<close>

text \<open>
  C9: the stream of bytes to a client: whatever its socket takes of each request, writing a
  message adds exactly the bytes of that message at the end of what the client has been sent and
  is still owed, and badgering it moves bytes from one to the other without losing or repeating
  any.
\<close>

theorem client_stream:
  assumes "queued i ms s" and "Sess_get_session_index (ses_mbox (ses_at s i)) s = int i" and "i < MAX_SESSIONS"
    and "Is_op_session (ses_status (ses_at s i))" and "length ms < MAX_SESSION_MESSAGES"
    and "takes_at_most s" and "writable m"
  shows "stream i (ses_mbox (ses_at s i)) (Sess_badger (ses_mbox (ses_at s i)) s) = stream i (ses_mbox (ses_at s i)) s
     \<and> returns (Sess_write (int i) m s) (\<lambda>s'.
          stream i (ses_mbox (ses_at s i)) s' = stream i (ses_mbox (ses_at s i)) s @ concat (elements m)
          \<and> (\<exists>ms'. queued i ms' s'))"
proof
  let ?b = "ses_mbox (ses_at s i)"
  note B = badger_stream [OF assms(1-4)]
  show "stream i ?b (Sess_badger ?b s) = stream i ?b s" using B by simp
  define s1 where "s1 = (if ms \<noteq> [] then Sess_badger ?b s else s)"
  have q: "ses_queue (ses_at s i) = ms" using assms(1) by (simp add: queued_def)
  have "\<exists>ms1. queued i ms1 s1 \<and> stream i ?b s1 = stream i ?b s \<and> send_ret s1 = send_ret s"
    using B assms(1) unfolding s1_def by (cases "ms = []") auto
  then obtain ms1 where s1: "queued i ms1 s1" "stream i ?b s1 = stream i ?b s" "send_ret s1 = send_ret s"
    by blast
  obtain n s2 where n: "(if ses_queue (ses_at s1 i) = [] then send_pieces ?b (write_pieces m) 0 s1 else (0, s1)) = (n, s2)"
    by fastforce
  have t: "takes_at_most s1" using assms(6) s1(3) by (simp add: takes_at_most_def)
  have P: "same_but_io s1 s2 \<and> n \<le> length (concat (elements m))
      \<and> sent_to ?b s2 = sent_to ?b s1 @ take n (concat (elements m)) \<and> (ms1 \<noteq> [] \<longrightarrow> n = 0)"
    using send_pieces_sends [OF _ t, of ?b "write_pieces m" 0 n s2] n s1(1) write_pieces_concat [OF assms(7)]
    by (auto simp: queued_def split: if_splits)
  have q2: "queued i ms1 s2" and o2: "owed i s2 = owed i s1"
    using s1(1) same_but_ioD [of s1 s2] P by (simp_all add: queued_def owed_def)
  have st2: "stream i ?b s2 = (if ms1 = [] then stream i ?b s @ take n (concat (elements m)) else stream i ?b s)"
    using P s1 o2 by (auto simp: stream_def owed_def queued_def)
  have e: "Sess_write (int i) m s = Inr (if n < length (concat (elements m)) then link_message i m n s2 else s2)"
  proof -
    have s1': "(if ses_queue (ses_at s i) \<noteq> [] then Sess_badger ?b s else s) = s1" by (simp add: s1_def q)
    show ?thesis
      unfolding Sess_write_def Let_def nat_int s1' n using assms(3-5) by (simp add: q not_le)
  qed
  show "returns (Sess_write (int i) m s) (\<lambda>s'. stream i ?b s' = stream i ?b s @ concat (elements m)
          \<and> (\<exists>ms'. queued i ms' s'))"
  proof (cases "n < length (concat (elements m))")
    case True
    from link_message_stream [OF q2, of n m ?b] P
    have "queued i (ms1 @ [m]) (link_message i m n s2)"
      "stream i ?b (link_message i m n s2) = stream i ?b s2 @ drop n (concat (elements m))" by auto
    then show ?thesis using True P st2 e by auto
  next
    case False
    then have n: "n = length (concat (elements m))" using P by simp
    show ?thesis using False P st2 q2 e unfolding n by auto
  qed
qed

text \<open>A client whose socket takes two bytes of every request.\<close>

definition slow_example :: sess_st where
  "slow_example = sess_example\<lparr>send_ret := (\<lambda>_ len. min 2 (int len))\<rparr>"

definition hello :: message_obj where
  "hello = \<lparr>mo_head = client_header, mo_data = [[72, 101], [108]]\<rparr>"

theorem client_stream_witness:
  "returns (Sess_write 1 hello slow_example) (\<lambda>s'.
     sent_to 8 s' @ owed 1 s' = head_bytes client_header @ [72, 101, 108])"
proof -
  have q: "queued 1 [] slow_example" "ses_mbox (ses_at slow_example 1) = 8"
    "Is_op_session (ses_status (ses_at slow_example 1))"
    "stream 1 8 slow_example = []"
    by (simp_all add: queued_def slow_example_def sess_example_at sess_example_fields MAX_SESSIONS_def no_session_def
        Message_reset_current_location_def Is_op_session_def OP_SESSION_def MEMB_SESSION_def
        stream_def owed_def sent_to_def) (simp add: sess_example_def sess_blank_def)
  have "Sess_get_session_index 8 slow_example = int 1"
    using mbox_hash_small
    by (simp add: Sess_get_session_index_def slow_example_def sess_example_fields sess_example_at no_session_def)
  moreover have "takes_at_most slow_example" by (simp add: takes_at_most_def slow_example_def)
  moreover have "\<not> Is_reject_mess (mh_type client_header)" by code_simp
  then have "writable hello" by (simp add: writable_def hello_def)
  moreover have "concat (elements hello) = head_bytes client_header @ [72, 101, 108]"
    by (simp add: hello_def elements_def)
  ultimately have "returns (Sess_write (int 1) hello slow_example) (\<lambda>s'. stream 1 8 s' = head_bytes client_header @ [72, 101, 108]
      \<and> (\<exists>ms'. queued 1 ms' s'))"
    using client_stream [of 1 "[]" slow_example hello] q by (simp add: MAX_SESSIONS_def MAX_SESSION_MESSAGES_def)
  then show ?thesis by (auto simp: stream_def elim: returns_mono)
qed

end
