(* ===== verification/Skiplist.thy ===== *)
theory Skiplist
  imports Prelude
begin

section \<open>Skip lists\<close>

text \<open>
  Model of the ordered containers of \<open>stdutil/src/stdskl.c\<close> that the group layer keeps its
  groups, daemons and members in. A list is its nodes in order, each with the height it was
  given, and the height of the sentinel \<open>end_node\<close>; the \<open>nexts\<close> and \<open>prevs\<close> pointers of a level
  are determined by these (the node a level points to is the nearest one at least that tall), so
  linking a node in is inserting it. A node is named by its index, \<open>end_node\<close> by the length;
  \<open>curr\<close> counts the nodes up to and including the cursor, so the sentinel as starting point is 0.
  The search runs on the levels as the code does. The sought key appears as the comparison
  \<open>c\<close> of it with an element: the sign of \<open>cmp_fcn( key, element )\<close>. The first part is the
  contract the callers rely on: a strictly ordered list, with \<open>skl_put\<close>, \<open>skl_get\<close>, \<open>skl_del\<close>.
\<close>

subsection \<open>The contract\<close>

fun skl_put :: "('a \<Rightarrow> 'k::linorder) \<Rightarrow> 'a \<Rightarrow> 'a list \<Rightarrow> 'a list" where
  "skl_put key x [] = [x]"
| "skl_put key x (y # ys) =
     (if key x < key y then x # y # ys
      else if key x = key y then x # ys
      else y # skl_put key x ys)"

fun skl_get :: "('a \<Rightarrow> 'k::linorder) \<Rightarrow> 'k \<Rightarrow> 'a list \<Rightarrow> 'a option" where
  "skl_get key k [] = None"
| "skl_get key k (y # ys) = (if key y = k then Some y else skl_get key k ys)"

fun skl_del :: "('a \<Rightarrow> 'k::linorder) \<Rightarrow> 'k \<Rightarrow> 'a list \<Rightarrow> 'a list" where
  "skl_del key k [] = []"
| "skl_del key k (y # ys) = (if key y = k then ys else y # skl_del key k ys)"

definition skl_ok :: "('a \<Rightarrow> 'k::linorder) \<Rightarrow> 'a list \<Rightarrow> bool" where
  "skl_ok key xs \<longleftrightarrow> sorted_wrt (<) (map key xs)"

text \<open>
  The interface the group layer uses, for one way of ordering the elements: what a lookup
  returns after a put or a removal, and that the order is kept.
\<close>

locale ordered_store =
  fixes put :: "'a \<Rightarrow> 's \<Rightarrow> 's" and find :: "'k \<Rightarrow> 's \<Rightarrow> 'a option"
    and del :: "'k \<Rightarrow> 's \<Rightarrow> 's" and key :: "'a \<Rightarrow> 'k" and elems :: "'s \<Rightarrow> 'a set" and ok :: "'s \<Rightarrow> bool"
  assumes ok_put: "ok s \<Longrightarrow> ok (put x s)"
    and ok_del: "ok s \<Longrightarrow> ok (del k s)"
    and find_put: "ok s \<Longrightarrow> find k (put x s) = (if k = key x then Some x else find k s)"
    and find_del: "ok s \<Longrightarrow> find k (del j s) = (if k = j then None else find k s)"
    and find_key: "find k s = Some x \<Longrightarrow> key x = k"
    and elems_find: "ok s \<Longrightarrow> elems s = {x. find (key x) s = Some x}"
begin

lemma elems_put: "ok s \<Longrightarrow> elems (put x s) = insert x {y \<in> elems s. key y \<noteq> key x}"
  by (auto simp: elems_find ok_put find_put)

lemma elems_del: "ok s \<Longrightarrow> elems (del k s) = {y \<in> elems s. key y \<noteq> k}"
  by (auto simp: elems_find ok_del find_del)

lemma find_elems: "ok s \<Longrightarrow> find k s = Some x \<longleftrightarrow> x \<in> elems s \<and> key x = k"
  using find_key by (auto simp: elems_find)

lemma find_none: "ok s \<Longrightarrow> find k s = None \<longleftrightarrow> (\<forall>x \<in> elems s. key x \<noteq> k)"
  using find_elems [of s k] by (cases "find k s") auto

lemma key_unique: "ok s \<Longrightarrow> x \<in> elems s \<Longrightarrow> y \<in> elems s \<Longrightarrow> key x = key y \<Longrightarrow> x = y"
  by (auto simp: elems_find)

lemma put_put: "ok s \<Longrightarrow> find k (put x (put y s)) = (if key x = key y then find k (put x s) else find k (put y (put x s)))"
  by (auto simp: find_put ok_put)

end

lemma skl_ok_Nil [simp]: "skl_ok key []"
  by (simp add: skl_ok_def)

lemma skl_ok_Cons: "skl_ok key (y # ys) \<longleftrightarrow> (\<forall>z \<in> set ys. key y < key z) \<and> skl_ok key ys"
  by (auto simp: skl_ok_def)

lemma set_skl_put_subset: "set (skl_put key x ys) \<subseteq> insert x (set ys)"
  by (induction ys) auto

lemma skl_ok_put: "skl_ok key ys \<Longrightarrow> skl_ok key (skl_put key x ys)"
proof (induction ys)
  case (Cons y ys)
  then show ?case using set_skl_put_subset [of key x ys]
    by (fastforce simp: skl_ok_Cons)
qed (simp add: skl_ok_def)

lemma set_skl_del_subset: "set (skl_del key k ys) \<subseteq> set ys"
  by (induction ys) auto

lemma skl_ok_del: "skl_ok key ys \<Longrightarrow> skl_ok key (skl_del key k ys)"
  using set_skl_del_subset [of key k] by (induction ys) (fastforce simp: skl_ok_Cons)+

lemma skl_get_none: "skl_get key k ys = None \<longleftrightarrow> (\<forall>y \<in> set ys. key y \<noteq> k)"
  by (induction ys) auto

lemma skl_get_some: "skl_get key k ys = Some y \<Longrightarrow> y \<in> set ys \<and> key y = k"
  by (induction ys) (auto split: if_splits)

lemma skl_get_put: "skl_ok key ys \<Longrightarrow>
    skl_get key k (skl_put key x ys) = (if k = key x then Some x else skl_get key k ys)"
  by (induction ys) (auto simp: skl_ok_Cons)

lemma skl_get_del: "skl_ok key ys \<Longrightarrow>
    skl_get key k (skl_del key j ys) = (if k = j then None else skl_get key k ys)"
  by (induction ys) (auto simp: skl_ok_Cons skl_get_none)

lemma skl_elems: "skl_ok key ys \<Longrightarrow> set ys = {x. skl_get key (key x) ys = Some x}"
proof (induction ys)
  case (Cons y ys)
  then have "\<And>x. x \<in> set ys \<Longrightarrow> key y \<noteq> key x" by (auto simp: skl_ok_Cons)
  with Cons show ?case by (auto simp: skl_ok_Cons dest: skl_get_some)
qed simp

interpretation skl: ordered_store "skl_put key" "skl_get key" "skl_del key" key set "skl_ok key"
  by unfold_locales (auto simp: skl_ok_put skl_ok_del skl_get_put skl_get_del skl_elems dest: skl_get_some)

lemma length_skl_put: "skl_ok key ys \<Longrightarrow>
    length (skl_put key x ys) = (if skl_get key (key x) ys = None then Suc (length ys) else length ys)"
  by (induction ys) (auto simp: skl_ok_Cons skl_get_none)

lemma length_skl_del: "skl_get key k ys \<noteq> None \<Longrightarrow> Suc (length (skl_del key k ys)) = length ys"
proof (induction ys)
  case (Cons y ys)
  then show ?case by (cases "key y = k") auto
qed simp

lemma skl_ok_distinct: "skl_ok key ys \<Longrightarrow> distinct (map key ys)"
  by (simp add: skl_ok_def strict_sorted_iff)

lemma skl_del_absent: "skl_get key k ys = None \<Longrightarrow> skl_del key k ys = ys"
  by (induction ys) (auto split: if_splits)

lemma mset_skl_put: "skl_ok key ys \<Longrightarrow> skl_get key (key x) ys = None \<Longrightarrow>
    mset (skl_put key x ys) = add_mset x (mset ys)"
  by (induction ys) (auto simp: skl_ok_Cons skl_get_none)

lemma mset_skl_del: "skl_get key k ys = Some y \<Longrightarrow> add_mset y (mset (skl_del key k ys)) = mset ys"
  by (induction ys) (auto split: if_splits)

lemma mset_skl_replace: "skl_ok key ys \<Longrightarrow> skl_get key (key x) ys = Some y \<Longrightarrow>
    add_mset y (mset (skl_put key x ys)) = add_mset x (mset ys)"
proof (induction ys)
  case (Cons a ys)
  then show ?case using skl_get_some [of key "key x" ys y] by (auto simp: skl_ok_Cons split: if_splits)
qed simp

subsection \<open>Searching\<close>

text \<open>\<open>next_at lvl cur xs\<close>: the node \<open>curr->nexts[lvl]\<close>.\<close>

definition next_at :: "nat \<Rightarrow> nat \<Rightarrow> (nat \<times> 'a) list \<Rightarrow> nat" where
  "next_at lvl cur xs = cur + length (takeWhile (\<lambda>(h, _). h < lvl) (drop cur xs))"

text \<open>Running right on one level: the cursor where the run stops and the node after it.\<close>

function run_right :: "('a \<Rightarrow> int) \<Rightarrow> nat \<Rightarrow> (nat \<times> 'a) list \<Rightarrow> nat \<Rightarrow> nat \<times> nat" where
  "run_right c lvl xs cur =
     (let nxt = next_at lvl cur xs
      in if nxt < length xs \<and> c (snd (xs ! nxt)) > 0 then run_right c lvl xs (Suc nxt) else (cur, nxt))"
  by auto
termination
  by (relation "measure (\<lambda>(c, lvl, xs, cur). length xs - cur)") (auto simp: next_at_def)

declare run_right.simps [simp del]

text \<open>\<open>for( --lvl; lvl > 0 && curr->nexts[lvl] == next; --lvl )\<close>, from \<open>lvl - 1\<close> on.\<close>

fun skip_levels :: "nat \<Rightarrow> nat \<Rightarrow> (nat \<times> 'a) list \<Rightarrow> nat \<Rightarrow> nat" where
  "skip_levels cur nxt xs 0 = 0"
| "skip_levels cur nxt xs (Suc l) =
     (if next_at (Suc l) cur xs = nxt then skip_levels cur nxt xs l else Suc l)"

lemma skip_levels_le: "skip_levels cur nxt xs l \<le> l"
  by (induction l) (simp_all add: le_SucI)

text \<open>
  The search from level \<open>lvl\<close> down. \<open>nxt\<close> is the variable \<open>next\<close> (\<open>None\<close>: still \<open>NULL\<close>); on the
  bottom level the run is left out when the node was already compared.
\<close>

function find_levels :: "('a \<Rightarrow> int) \<Rightarrow> bool \<Rightarrow> (nat \<times> 'a) list \<Rightarrow> nat \<Rightarrow> nat \<Rightarrow> nat option \<Rightarrow> nat \<times> bool" where
  "find_levels c find_any xs lvl cur nxt =
     (if lvl = 0 then
        (let pos = (if nxt = Some cur then cur else snd (run_right c 0 xs cur))
         in (pos, pos < length xs \<and> c (snd (xs ! pos)) = 0))
      else
        (let (cur', nxt') = run_right c lvl xs cur
         in if find_any \<and> nxt' < length xs \<and> c (snd (xs ! nxt')) = 0 then (nxt', True)
            else find_levels c find_any xs (skip_levels cur' nxt' xs (lvl - 1)) cur' (Some nxt')))"
  by auto
termination
  by (relation "measure (\<lambda>(c, f, xs, lvl, cur, nxt). lvl)")
    (auto intro!: le_less_trans [OF skip_levels_le])

declare find_levels.simps [simp del]

text \<open>
  A list: its nodes, the height of \<open>end_node\<close> and the element count, a \<open>size_t\<close>. An iterator is
  an index; \<open>end\<close> is the number of nodes.
\<close>

record 'a skl =
  sk_nodes :: "(nat \<times> 'a) list"
  sk_end_height :: nat
  sk_size :: "64 word"

definition STDSKL_MAX_HEIGHT :: nat where "STDSKL_MAX_HEIGHT = 31"

definition stdskl_construct :: "'a skl" where
  "stdskl_construct = \<lparr>sk_nodes = [], sk_end_height = 4, sk_size = 0\<rparr>"

definition stdskl_end :: "'a skl \<Rightarrow> nat" where
  "stdskl_end l = length (sk_nodes l)"

definition stdskl_low_find_right :: "('a \<Rightarrow> int) \<Rightarrow> bool \<Rightarrow> 'a skl \<Rightarrow> nat \<times> bool" where
  "stdskl_low_find_right c find_any l = find_levels c find_any (sk_nodes l) (sk_end_height l) 0 None"

definition stdskl_find :: "('a \<Rightarrow> int) \<Rightarrow> 'a skl \<Rightarrow> nat" where
  "stdskl_find c l = (let (pos, found) = stdskl_low_find_right c True l in if found then pos else stdskl_end l)"

definition stdskl_lowerb :: "('a \<Rightarrow> int) \<Rightarrow> 'a skl \<Rightarrow> nat" where
  "stdskl_lowerb c l = fst (stdskl_low_find_right c False l)"

definition stdskl_contains :: "('a \<Rightarrow> int) \<Rightarrow> 'a skl \<Rightarrow> bool" where
  "stdskl_contains c l = snd (stdskl_low_find_right c True l)"

subsection \<open>Inserting\<close>

text \<open>
  The height of a new node: it grows while two random bits are both set, up to
  \<open>STDSKL_MAX_HEIGHT\<close>. \<open>draw i\<close> is the \<open>i\<close>-th pair of bits.
\<close>

fun grow_height :: "nat \<Rightarrow> (nat \<Rightarrow> nat) \<Rightarrow> nat \<Rightarrow> nat" where
  "grow_height 0 draw i = 0"
| "grow_height (Suc n) draw i = (if draw i = 3 then Suc (grow_height n draw (Suc i)) else 0)"

definition random_height :: "(nat \<Rightarrow> nat) \<Rightarrow> nat" where
  "random_height draw = grow_height STDSKL_MAX_HEIGHT draw 0"

text \<open>
  The insertion point: with a hint, the hinted node and then its successor (for \<open>end\<close> the first
  node) are tried against their neighbours, and a full search is made when both are unfit. The
  result is the point and whether the node there compared equal.
\<close>

definition compares :: "('a \<Rightarrow> int) \<Rightarrow> (nat \<times> 'a) list \<Rightarrow> nat \<Rightarrow> (int \<Rightarrow> bool) \<Rightarrow> bool" where
  "compares c xs i p \<longleftrightarrow> i < length xs \<and> p (c (snd (xs ! i)))"

definition hint_unfit :: "('a \<Rightarrow> int) \<Rightarrow> (nat \<times> 'a) list \<Rightarrow> nat \<Rightarrow> bool" where
  "hint_unfit c xs i \<longleftrightarrow> compares c xs i (\<lambda>d. d > 0) \<or> (0 < i \<and> compares c xs (i - 1) (\<lambda>d. d < 0))"

definition insert_point :: "('a \<Rightarrow> int) \<Rightarrow> bool \<Rightarrow> nat \<Rightarrow> 'a skl \<Rightarrow> nat \<times> bool" where
  "insert_point c hint i l =
     (let xs = sk_nodes l; j = (if i < length xs then Suc i else 0)
      in if hint \<and> \<not> hint_unfit c xs i then (i, compares c xs i (\<lambda>d. d = 0))
         else if hint \<and> \<not> hint_unfit c xs j then (j, compares c xs j (\<lambda>d. d = 0))
         else stdskl_low_find_right c True l)"

definition link_node :: "nat \<Rightarrow> nat \<Rightarrow> 'a \<Rightarrow> 'a skl \<Rightarrow> 'a skl" where
  "link_node i h x l =
     l\<lparr>sk_nodes := take i (sk_nodes l) @ (h, x) # drop i (sk_nodes l),
       sk_end_height := (if h > sk_end_height l
                         then (if h < STDSKL_MAX_HEIGHT then Suc h else h) else sk_end_height l),
       sk_size := sk_size l + 1\<rparr>"

text \<open>
  The loop of \<open>stdskl_low_insert\<close> over the elements to insert, each with the height its node
  would get; the insertion point of one element is the hint for the next.
\<close>

fun stdskl_low_insert ::
  "('a \<Rightarrow> 'a \<Rightarrow> int) \<Rightarrow> bool \<Rightarrow> bool \<Rightarrow> nat \<Rightarrow> (nat \<times> 'a) list \<Rightarrow> 'a skl \<Rightarrow> 'a skl" where
  "stdskl_low_insert cmp hint overwrite i [] l = l"
| "stdskl_low_insert cmp hint overwrite i ((h, x) # new) l =
     (let (j, eq) = insert_point (cmp x) hint i l
      in if \<not> overwrite \<or> j = stdskl_end l \<or> \<not> eq
         then stdskl_low_insert cmp True overwrite (Suc j) new (link_node j h x l)
         else stdskl_low_insert cmp True overwrite j new
                (l\<lparr>sk_nodes := (sk_nodes l)[j := (fst (sk_nodes l ! j), x)]\<rparr>))"

definition stdskl_put :: "('a \<Rightarrow> 'a \<Rightarrow> int) \<Rightarrow> bool \<Rightarrow> nat \<Rightarrow> nat \<Rightarrow> 'a \<Rightarrow> 'a skl \<Rightarrow> 'a skl" where
  "stdskl_put cmp hint i h x l = stdskl_low_insert cmp hint True i [(h, x)] l"

definition stdskl_insert :: "('a \<Rightarrow> 'a \<Rightarrow> int) \<Rightarrow> bool \<Rightarrow> nat \<Rightarrow> nat \<Rightarrow> 'a \<Rightarrow> 'a skl \<Rightarrow> 'a skl" where
  "stdskl_insert cmp hint i h x l = stdskl_low_insert cmp hint False i [(h, x)] l"

definition stdskl_put_seq :: "('a \<Rightarrow> 'a \<Rightarrow> int) \<Rightarrow> (nat \<times> 'a) list \<Rightarrow> 'a skl \<Rightarrow> 'a skl" where
  "stdskl_put_seq cmp new l = stdskl_low_insert cmp False True (stdskl_end l) new l"

subsection \<open>Erasing\<close>

text \<open>
  The loop frees nodes from \<open>b\<close> up to \<open>num_erase\<close> of them or to \<open>e\<close>; running past the last
  node is undefined. The size is lowered by \<open>num_erase\<close>, whatever was freed.
\<close>

definition stdskl_low_erase :: "nat \<Rightarrow> nat option \<Rightarrow> 64 word \<Rightarrow> 'a skl \<Rightarrow> 'a skl outcome" where
  "stdskl_low_erase b e num_erase l =
     (let k = (case e of None \<Rightarrow> unat num_erase | Some j \<Rightarrow> min (j - b) (unat num_erase))
      in if b + k > stdskl_end l \<or> (case e of None \<Rightarrow> False | Some j \<Rightarrow> j < b) then Inl (Undefined ''stdskl_low_erase'')
         else Inr (l\<lparr>sk_nodes := take b (sk_nodes l) @ drop (b + k) (sk_nodes l),
                     sk_size := sk_size l - num_erase\<rparr>))"

definition stdskl_erase_n :: "nat \<Rightarrow> 64 word \<Rightarrow> 'a skl \<Rightarrow> 'a skl outcome" where
  "stdskl_erase_n b num_erase l = stdskl_low_erase b None num_erase l"

definition stdskl_erase :: "nat \<Rightarrow> 'a skl \<Rightarrow> 'a skl outcome" where
  "stdskl_erase b l = stdskl_erase_n b 1 l"

definition stdskl_erase_seq :: "nat \<Rightarrow> nat \<Rightarrow> 'a skl \<Rightarrow> 'a skl outcome" where
  "stdskl_erase_seq b e l = stdskl_low_erase b (Some e) (-1) l"

fun erase_equal :: "('a \<Rightarrow> int) \<Rightarrow> nat \<Rightarrow> nat \<Rightarrow> 'a skl \<Rightarrow> 'a skl outcome" where
  "erase_equal c 0 i l = Inr l"
| "erase_equal c (Suc n) i l =
     (if compares c (sk_nodes l) i (\<lambda>d. d = 0) then bindE (stdskl_erase i l) (erase_equal c n i) else Inr l)"

definition stdskl_erase_key :: "('a \<Rightarrow> int) \<Rightarrow> 'a skl \<Rightarrow> 'a skl outcome" where
  "stdskl_erase_key c l = erase_equal c (stdskl_end l) (stdskl_lowerb c l) l"

definition stdskl_clear :: "'a skl \<Rightarrow> 'a skl" where
  "stdskl_clear l = l\<lparr>sk_nodes := [], sk_size := 0\<rparr>"

subsection \<open>The search finds the first element that is not smaller\<close>

text \<open>
  \<open>cut c p xs\<close>: the sought key is greater than exactly the first \<open>p\<close> elements.
\<close>

definition cut :: "('a \<Rightarrow> int) \<Rightarrow> nat \<Rightarrow> (nat \<times> 'a) list \<Rightarrow> bool" where
  "cut c p xs \<longleftrightarrow> p \<le> length xs \<and> (\<forall>i < length xs. c (snd (xs ! i)) > 0 \<longleftrightarrow> i < p)"

lemma next_at_bounds: "cur \<le> length xs \<Longrightarrow> cur \<le> next_at lvl cur xs \<and> next_at lvl cur xs \<le> length xs"
  using length_takeWhile_le [of "\<lambda>(h, _). h < lvl" "drop cur xs"] by (auto simp: next_at_def)

lemma next_at_0 [simp]: "next_at 0 cur xs = cur"
proof -
  have "takeWhile (\<lambda>(h, _). h < 0) ys = []" for ys :: "(nat \<times> 'a) list" by (cases ys) auto
  then show ?thesis by (simp add: next_at_def)
qed

lemma run_right_cut:
  assumes "cut c p xs" and "cur \<le> p"
  shows "case run_right c lvl xs cur of (cur', nxt) \<Rightarrow> cur' \<le> p \<and> p \<le> nxt \<and> nxt \<le> length xs
           \<and> (lvl = 0 \<longrightarrow> nxt = cur')"
  using assms
proof (induction c lvl xs cur rule: run_right.induct)
  case (1 c lvl xs cur)
  let ?n = "next_at lvl cur xs"
  have b: "cur \<le> ?n" "?n \<le> length xs"
    using next_at_bounds [of cur xs lvl] "1.prems" by (auto simp: cut_def)
  show ?case
  proof (cases "?n < length xs \<and> c (snd (xs ! ?n)) > 0")
    case True
    then have "?n < p" using "1.prems" unfolding cut_def by blast
    then show ?thesis
      using "1.IH" [OF refl True "1.prems"(1)] True by (subst run_right.simps) (simp add: Let_def)
  next
    case False
    then have "p \<le> ?n" using "1.prems"(1) b unfolding cut_def by (metis leI order_trans)
    then show ?thesis using False b "1.prems" by (subst run_right.simps) (auto simp: Let_def)
  qed
qed

lemma find_levels_cut:
  assumes "cut c p xs" and "cur \<le> p" and "\<And>j. nxt = Some j \<Longrightarrow> p \<le> j"
    and "find_any \<Longrightarrow> \<forall>i < length xs. c (snd (xs ! i)) = 0 \<longrightarrow> i = p"
  shows "find_levels c find_any xs lvl cur nxt = (p, p < length xs \<and> c (snd (xs ! p)) = 0)"
  using assms
proof (induction c find_any xs lvl cur nxt rule: find_levels.induct)
  case (1 c find_any xs lvl cur nxt)
  obtain cur' n where r: "run_right c lvl xs cur = (cur', n)" by fastforce
  have b: "cur' \<le> p" "p \<le> n" "n \<le> length xs" "lvl = 0 \<Longrightarrow> n = cur'"
    using run_right_cut [OF "1.prems"(1,2), of lvl] r by auto
  show ?case
  proof (cases "lvl = 0")
    case True
    then have "(if nxt = Some cur then cur else snd (run_right c 0 xs cur)) = p"
      using b r "1.prems"(2,3) by auto
    then show ?thesis using True by (subst find_levels.simps) (simp add: Let_def)
  next
    case False
    show ?thesis
    proof (cases "find_any \<and> n < length xs \<and> c (snd (xs ! n)) = 0")
      case True
      then have "n = p" using "1.prems"(4) by blast
      then show ?thesis using True False r by (subst find_levels.simps) simp
    next
      case nfound: False
      have "find_levels c find_any xs (skip_levels cur' n xs (lvl - 1)) cur' (Some n)
              = (p, p < length xs \<and> c (snd (xs ! p)) = 0)"
        using "1.IH" [OF False r [symmetric] refl nfound "1.prems"(1) b(1)] b(2) "1.prems"(4) by simp
      then show ?thesis using False nfound r by (subst find_levels.simps) auto
    qed
  qed
qed

definition rank :: "('a \<Rightarrow> 'k::linorder) \<Rightarrow> 'k \<Rightarrow> 'a list \<Rightarrow> nat" where
  "rank key k ys = length (takeWhile (\<lambda>y. key y < k) ys)"

lemma rank_Cons: "rank key k (y # ys) = (if key y < k then Suc (rank key k ys) else 0)"
  by (simp add: rank_def)

lemma rank_Nil [simp]: "rank key k [] = 0"
  by (simp add: rank_def)

lemma rank_le: "rank key k ys \<le> length ys"
  by (simp add: rank_def length_takeWhile_le)

lemma rank_less: "skl_ok key ys \<Longrightarrow> i < length ys \<Longrightarrow> key (ys ! i) < k \<longleftrightarrow> i < rank key k ys"
proof (induction ys arbitrary: i)
  case (Cons y ys)
  show ?case
  proof (cases i)
    case 0 then show ?thesis by (simp add: rank_Cons)
  next
    case (Suc j)
    with Cons.prems have "key y < key (ys ! j)" by (auto simp: skl_ok_Cons)
    moreover have "key (ys ! j) < k \<longleftrightarrow> j < rank key k ys"
      using Suc Cons by (simp add: skl_ok_Cons)
    ultimately show ?thesis using Suc by (auto simp: rank_Cons)
  qed
qed simp

lemma rank_equal: "skl_ok key ys \<Longrightarrow> i < length ys \<Longrightarrow> key (ys ! i) = k \<Longrightarrow> i = rank key k ys"
proof (induction ys arbitrary: i)
  case (Cons y ys)
  then show ?case by (cases i) (auto simp: rank_Cons skl_ok_Cons)
qed simp

lemma skl_get_rank:
  assumes "skl_ok key ys"
  shows "skl_get key k ys =
    (let r = rank key k ys in if r < length ys \<and> key (ys ! r) = k then Some (ys ! r) else None)"
proof (cases "skl_get key k ys")
  case None
  then show ?thesis by (auto simp: skl_get_none Let_def)
next
  case (Some y)
  then obtain i where "i < length ys" "ys ! i = y" "key y = k"
    using skl_get_some by (metis in_set_conv_nth)
  moreover from this have "i = rank key k ys" using rank_equal [OF assms] by blast
  ultimately show ?thesis using Some by (auto simp: Let_def)
qed

lemma skl_put_rank:
  assumes "skl_ok key ys"
  shows "skl_put key x ys =
    (let r = rank key (key x) ys
     in if r < length ys \<and> key (ys ! r) = key x then ys[r := x] else take r ys @ x # drop r ys)"
  using assms
proof (induction ys)
  case (Cons y ys)
  consider "key x < key y" | "key x = key y" | "key y < key x" by force
  then show ?case
  proof cases
    case 3
    then have "key x \<noteq> key y" "\<not> key x < key y" by auto
    with 3 Cons show ?thesis by (auto simp: rank_Cons skl_ok_Cons Let_def)
  qed (auto simp: rank_Cons)
qed simp

subsection \<open>Refinement of the contract\<close>

text \<open>
  \<open>sk_elems l\<close>: the elements in order. \<open>agrees key cmp\<close>: the comparison function orders the
  elements as their keys. \<open>wf_skl\<close>: strictly ordered, with the right count.
\<close>

definition sk_elems :: "'a skl \<Rightarrow> 'a list" where
  "sk_elems l = map snd (sk_nodes l)"

definition agrees :: "('a \<Rightarrow> 'k::linorder) \<Rightarrow> ('a \<Rightarrow> 'a \<Rightarrow> int) \<Rightarrow> bool" where
  "agrees key cmp \<longleftrightarrow> (\<forall>x y. (cmp x y > 0 \<longleftrightarrow> key x > key y) \<and> (cmp x y = 0 \<longleftrightarrow> key x = key y))"

definition wf_skl :: "('a \<Rightarrow> 'k::linorder) \<Rightarrow> 'a skl \<Rightarrow> bool" where
  "wf_skl key l \<longleftrightarrow> skl_ok key (sk_elems l) \<and> sk_size l = of_nat (length (sk_nodes l))"

lemma find_right_rank:
  assumes "agrees key cmp" and "skl_ok key (sk_elems l)"
  shows "stdskl_low_find_right (cmp x) find_any l =
    (let r = rank key (key x) (sk_elems l)
     in (r, r < length (sk_elems l) \<and> key (sk_elems l ! r) = key x))"
proof -
  let ?xs = "sk_nodes l" and ?r = "rank key (key x) (sk_elems l)"
  have nth: "snd (?xs ! i) = sk_elems l ! i" if "i < length ?xs" for i
    using that by (simp add: sk_elems_def)
  have len: "length (sk_elems l) = length ?xs" by (simp add: sk_elems_def)
  have eq: "cmp x y = 0 \<longleftrightarrow> key y = key x" and gt: "cmp x y > 0 \<longleftrightarrow> key y < key x" for y
    using assms(1) unfolding agrees_def by metis+
  have "cut (cmp x) ?r ?xs"
    unfolding cut_def
  proof (intro conjI allI impI)
    show "?r \<le> length ?xs" using rank_le [of key "key x" "sk_elems l"] len by simp
    fix i assume i: "i < length ?xs"
    show "cmp x (snd (?xs ! i)) > 0 \<longleftrightarrow> i < ?r"
      using rank_less [OF assms(2), of i "key x"] i len by (simp only: nth gt)
  qed
  moreover have "\<forall>i < length ?xs. cmp x (snd (?xs ! i)) = 0 \<longrightarrow> i = ?r"
    using rank_equal [OF assms(2), where k = "key x"] by (metis eq nth len)
  ultimately have "stdskl_low_find_right (cmp x) find_any l
      = (?r, ?r < length ?xs \<and> cmp x (snd (?xs ! ?r)) = 0)"
    unfolding stdskl_low_find_right_def by (intro find_levels_cut) simp_all
  moreover have "?r < length ?xs \<Longrightarrow> cmp x (snd (?xs ! ?r)) = 0 \<longleftrightarrow> key (sk_elems l ! ?r) = key x"
    by (simp only: nth eq)
  ultimately show ?thesis by (simp only: Let_def len) blast
qed

lemma insert_point_search:
  assumes "agrees key cmp" and "skl_ok key (sk_elems l)"
  shows "insert_point (cmp x) False i l =
    (let r = rank key (key x) (sk_elems l) in (r, r < length (sk_elems l) \<and> key (sk_elems l ! r) = key x))"
  using find_right_rank [OF assms] by (simp add: insert_point_def Let_def)

lemma sk_elems_link: "sk_elems (link_node i h x l) = take i (sk_elems l) @ x # drop i (sk_elems l)"
  by (simp add: sk_elems_def link_node_def take_map drop_map)

lemma length_sk_elems: "length (sk_elems l) = length (sk_nodes l)"
  by (simp add: sk_elems_def)

lemma sk_size_link: "i \<le> length (sk_nodes l) \<Longrightarrow> sk_size l = of_nat (length (sk_nodes l)) \<Longrightarrow>
    sk_size (link_node i h x l) = of_nat (length (sk_nodes (link_node i h x l)))"
  by (simp add: link_node_def)

lemma put_refines:
  assumes "agrees key cmp" and "wf_skl key l"
  shows "sk_elems (stdskl_put cmp False i h x l) = skl_put key x (sk_elems l)"
    and "wf_skl key (stdskl_put cmp False i h x l)"
proof -
  have ok: "skl_ok key (sk_elems l)" and n: "sk_size l = of_nat (length (sk_nodes l))"
    using assms(2) by (simp_all add: wf_skl_def)
  let ?r = "rank key (key x) (sk_elems l)"
  have r: "?r \<le> length (sk_nodes l)"
    using rank_le [of key "key x" "sk_elems l"] by (simp add: length_sk_elems)
  have upd: "sk_elems (l\<lparr>sk_nodes := (sk_nodes l)[?r := (h', x)]\<rparr>) = (sk_elems l)[?r := x]" for h'
    by (simp add: sk_elems_def map_update)
  show *: "sk_elems (stdskl_put cmp False i h x l) = skl_put key x (sk_elems l)"
    unfolding stdskl_put_def stdskl_low_insert.simps insert_point_search [OF assms(1) ok]
      skl_put_rank [OF ok] using r
    by (auto simp: Let_def stdskl_end_def length_sk_elems upd sk_elems_link)
  show "wf_skl key (stdskl_put cmp False i h x l)"
    unfolding wf_skl_def *
  proof
    show "skl_ok key (skl_put key x (sk_elems l))" using ok by (rule skl_ok_put)
    show "sk_size (stdskl_put cmp False i h x l) = of_nat (length (sk_nodes (stdskl_put cmp False i h x l)))"
      unfolding stdskl_put_def stdskl_low_insert.simps insert_point_search [OF assms(1) ok]
      using r n by (auto simp: Let_def stdskl_end_def length_sk_elems sk_size_link)
  qed
qed

lemma find_refines:
  assumes "agrees key cmp" and "skl_ok key (sk_elems l)"
  shows "(if stdskl_find (cmp x) l = stdskl_end l then None else Some (sk_elems l ! stdskl_find (cmp x) l))
     = skl_get key (key x) (sk_elems l)"
  unfolding stdskl_find_def find_right_rank [OF assms] skl_get_rank [OF assms(2)]
  by (auto simp: Let_def stdskl_end_def length_sk_elems)

lemma skl_del_rank:
  assumes "skl_ok key ys" and "i < length ys" and "key (ys ! i) = k"
  shows "skl_del key k ys = take i ys @ drop (Suc i) ys"
  using assms
proof (induction ys arbitrary: i)
  case (Cons y ys)
  then show ?case by (cases i) (auto simp: skl_ok_Cons)
qed simp

lemma erase_refines:
  assumes "agrees key cmp" and "wf_skl key l" and "stdskl_find (cmp x) l \<noteq> stdskl_end l"
  shows "returns (stdskl_erase (stdskl_find (cmp x) l) l)
           (\<lambda>l'. wf_skl key l' \<and> sk_elems l' = skl_del key (key x) (sk_elems l))"
proof -
  have ok: "skl_ok key (sk_elems l)" and n: "sk_size l = of_nat (length (sk_nodes l))"
    using assms(2) by (simp_all add: wf_skl_def)
  let ?r = "rank key (key x) (sk_elems l)"
  have f: "stdskl_find (cmp x) l = ?r" "?r < length (sk_elems l)" "key (sk_elems l ! ?r) = key x"
    using assms(3) unfolding stdskl_find_def find_right_rank [OF assms(1) ok]
    by (auto simp: Let_def split: if_splits)
  have d: "skl_del key (key x) (sk_elems l) = take ?r (sk_elems l) @ drop (Suc ?r) (sk_elems l)"
    by (rule skl_del_rank [OF ok f(2,3)])
  have "skl_ok key (take ?r (sk_elems l) @ drop (Suc ?r) (sk_elems l))"
    using skl_ok_del [OF ok, of "key x"] unfolding d .
  then show ?thesis unfolding f(1) d using f(2) n
    by (auto simp: stdskl_erase_def stdskl_erase_n_def stdskl_low_erase_def stdskl_end_def wf_skl_def
        length_sk_elems sk_elems_def take_map drop_map of_nat_diff)
qed

text \<open>A hint is only ever taken where the element belongs, when no element has its key yet.\<close>

lemma compares_elem: "compares c (sk_nodes l) i p \<longleftrightarrow> i < length (sk_elems l) \<and> p (c (sk_elems l ! i))"
  by (auto simp: compares_def sk_elems_def)

lemma fit_hint_rank:
  assumes "agrees key cmp" and "skl_ok key (sk_elems l)" and "skl_get key (key x) (sk_elems l) = None"
    and "i \<le> stdskl_end l" and "\<not> hint_unfit (cmp x) (sk_nodes l) i"
  shows "i = rank key (key x) (sk_elems l)"
proof -
  let ?ys = "sk_elems l"
  have ag: "cmp x y > 0 \<longleftrightarrow> key y < key x" "cmp x y = 0 \<longleftrightarrow> key y = key x" for y
    using assms(1) unfolding agrees_def by metis+
  have ne: "j < length ?ys \<Longrightarrow> key (?ys ! j) \<noteq> key x" for j
    using assms(3) by (simp add: skl_get_none)
  have right: "\<not> key (?ys ! i) < key x" if "i < length ?ys"
    using assms(5) that by (auto simp: hint_unfit_def compares_elem ag)
  have left: "key (?ys ! (i - 1)) < key x" if "0 < i"
  proof -
    have "i - 1 < length ?ys" using that assms(4) by (simp add: stdskl_end_def length_sk_elems)
    moreover from this have "\<not> cmp x (?ys ! (i - 1)) < 0"
      using assms(5) that by (auto simp: hint_unfit_def compares_elem)
    ultimately show ?thesis using ne [of "i - 1"] ag [of "?ys ! (i - 1)"] by linarith
  qed
  have "rank key (key x) ?ys \<le> i"
    using right rank_less [OF assms(2), of i "key x"] rank_le [of key "key x" ?ys] by (cases "i < length ?ys") auto
  moreover have "i \<le> rank key (key x) ?ys"
    using left rank_less [OF assms(2), of "i - 1" "key x"] assms(4)
    by (cases i) (auto simp: stdskl_end_def length_sk_elems)
  ultimately show ?thesis by simp
qed

lemma insert_point_fresh:
  assumes "agrees key cmp" and "skl_ok key (sk_elems l)" and "skl_get key (key x) (sk_elems l) = None"
    and "i \<le> stdskl_end l"
  shows "insert_point (cmp x) hint i l = (rank key (key x) (sk_elems l), False)"
proof -
  let ?r = "rank key (key x) (sk_elems l)" and ?j = "if i < length (sk_nodes l) then Suc i else 0"
  have ne: "\<not> compares (cmp x) (sk_nodes l) k (\<lambda>d. d = 0)" for k
    using assms(1,3) by (auto simp: compares_elem agrees_def skl_get_none dest: nth_mem)
  have "?j \<le> stdskl_end l" by (simp add: stdskl_end_def)
  then have "hint_unfit (cmp x) (sk_nodes l) i \<or> i = ?r" "hint_unfit (cmp x) (sk_nodes l) ?j \<or> ?j = ?r"
    using fit_hint_rank [OF assms(1-3)] assms(4) by blast+
  moreover have "stdskl_low_find_right (cmp x) True l = (?r, False)"
    using find_right_rank [OF assms(1,2), of x True] assms(3) by (auto simp: Let_def skl_get_none)
  ultimately show ?thesis
    unfolding insert_point_def Let_def by (auto simp: ne)
qed

lemma put_seq_refines:
  assumes "agrees key cmp" and "wf_skl key l" and "i \<le> stdskl_end l"
    and "distinct (map (key \<circ> snd) new)" and "\<forall>(h, x) \<in> set new. skl_get key (key x) (sk_elems l) = None"
  shows "sk_elems (stdskl_low_insert cmp hint ow i new l) = foldl (\<lambda>ys (h, x). skl_put key x ys) (sk_elems l) new
     \<and> wf_skl key (stdskl_low_insert cmp hint ow i new l)"
  using assms
proof (induction new arbitrary: hint i l)
  case (Cons hx new)
  obtain h x where hx: "hx = (h, x)" by force
  let ?r = "rank key (key x) (sk_elems l)" and ?l = "link_node (rank key (key x) (sk_elems l)) h x l"
  have ok: "skl_ok key (sk_elems l)" and fresh: "skl_get key (key x) (sk_elems l) = None"
    using Cons.prems hx by (auto simp: wf_skl_def)
  have r: "?r \<le> length (sk_nodes l)"
    using rank_le [of key "key x" "sk_elems l"] by (simp add: length_sk_elems)
  have e: "sk_elems ?l = skl_put key x (sk_elems l)"
    using fresh by (auto simp: skl_put_rank [OF ok] sk_elems_link Let_def skl_get_none)
  have "wf_skl key ?l"
    using Cons.prems(2) r unfolding wf_skl_def e by (simp add: skl_ok_put sk_size_link)
  moreover have "\<forall>(h', z) \<in> set new. skl_get key (key z) (sk_elems ?l) = None"
    unfolding e skl_get_put [OF ok] using Cons.prems(4,5) hx by (fastforce simp: image_iff)
  moreover have "Suc ?r \<le> stdskl_end ?l" using r by (simp add: stdskl_end_def link_node_def)
  ultimately have "sk_elems (stdskl_low_insert cmp True ow (Suc ?r) new ?l)
      = foldl (\<lambda>ys (h, x). skl_put key x ys) (sk_elems ?l) new
      \<and> wf_skl key (stdskl_low_insert cmp True ow (Suc ?r) new ?l)"
    using Cons.IH [of ?l "Suc ?r" True] Cons.prems(1,4) by simp
  then show ?case
    unfolding hx e by (simp add: insert_point_fresh [OF Cons.prems(1) ok fresh Cons.prems(3)])
qed simp

subsection \<open>Properties\<close>


definition skl_example :: "nat skl" where
  "skl_example = \<lparr>sk_nodes = [(0, 10), (2, 20), (0, 30), (1, 40)], sk_end_height = 4, sk_size = 4\<rparr>"

definition nat_cmp :: "nat \<Rightarrow> nat \<Rightarrow> int" where
  "nat_cmp a b = int a - int b"

lemma skl_example_wf: "agrees id nat_cmp \<and> wf_skl id skl_example"
  by (auto simp: agrees_def nat_cmp_def wf_skl_def skl_example_def sk_elems_def skl_ok_def)


text \<open>
  A put with the hint \<open>end\<close> of an element that is already the last one does not overwrite it,
  as an unhinted put does: the neighbour on the left is only tested for being greater, so a second
  copy is linked in.
\<close>

theorem hinted_put_duplicates:
  assumes "agrees key cmp" and "sk_nodes l \<noteq> []" and "key x = key (last (sk_elems l))"
  shows "sk_elems (stdskl_put cmp True (stdskl_end l) h x l) = sk_elems l @ [x]"
proof -
  have z: "cmp x y = 0" if "key y = key x" for y using assms(1) that unfolding agrees_def by metis
  have "last (sk_elems l) = snd (sk_nodes l ! (length (sk_nodes l) - 1))"
    using assms(2) by (simp add: sk_elems_def last_map last_conv_nth)
  then have "\<not> hint_unfit (cmp x) (sk_nodes l) (stdskl_end l)"
    using z assms(3) by (simp add: hint_unfit_def compares_def stdskl_end_def)
  then show ?thesis
    by (simp add: stdskl_put_def insert_point_def Let_def stdskl_end_def sk_elems_link length_sk_elems)
qed

theorem hinted_put_duplicates_witness:
  "sk_elems (stdskl_put nat_cmp True 4 0 40 skl_example) = [10, 20, 30, 40, 40]"
proof -
  have e: "stdskl_end skl_example = 4" "sk_elems skl_example = [10, 20, 30, 40]" "sk_nodes skl_example \<noteq> []"
    by (simp_all add: skl_example_def sk_elems_def stdskl_end_def)
  show ?thesis
    using hinted_put_duplicates [of id nat_cmp skl_example 40 0] skl_example_wf e(3) unfolding e(1,2) by simp
qed

text \<open>Erasing a range between two iterators raises the count by one instead of lowering it.\<close>

lemma erase_seq_count:
  assumes "b \<le> e" and "e \<le> stdskl_end l" and "stdskl_end l < 2 ^ 64"
  shows "returns (stdskl_erase_seq b e l)
           (\<lambda>l'. sk_nodes l' = take b (sk_nodes l) @ drop e (sk_nodes l) \<and> sk_size l' = sk_size l + 1)"
proof -
  have "min (e - b) (unat (- 1 :: 64 word)) = e - b"
    using assms by (simp add: unsigned_minus_1_eq_mask mask_eq_exp_minus_1)
  then show ?thesis using assms by (simp add: stdskl_erase_seq_def stdskl_low_erase_def)
qed

end
