(* ===== verification/Group_State.thy ===== *)
theory Group_State
  imports Session_Write Skiplist Daemon_State
begin

section \<open>The state of the process groups\<close>

text \<open>
  The globals of \<open>daemon/groups.c\<close> and the structures of \<open>sess_body.h\<close>, on top of the sessions.
  The three kinds of skip list are the ordered lists of the contract in \<open>Skiplist\<close>: groups by
  name, the members of a daemon by name, and the daemons of a group by their place in the
  configuration. A member is its name. \<open>My\<close> is the one of the configuration module.
  A gathered groups message stays a message; \<open>Gathered\<close> holds one entry per synced set it came
  from, the most recent first, and \<open>gathered_complete\<close> is the flag of the head entry, which
  stands for this daemon's own synced set. A groups buffer is its bytes.
\<close>

subsection \<open>Data\<close>

datatype g_state = GOP | GTRANS | GGATHER | GGT

record group_id =
  gid_memb_id :: membership_id
  gid_index :: int

record daemon_members =
  dm_proc_id :: proc_id
  dm_memb_id :: membership_id
  dm_members :: "string list"

record group =
  grp_name :: string
  grp_id :: group_id
  grp_changed :: bool
  grp_num_members :: int
  grp_daemons :: "daemon_members list"
  grp_mboxes :: "int list"

record groups_message_link =
  gm_rep_proc_id :: proc_id
  gm_complete :: bool
  gm_messages :: "message_obj list"

record groups_st = sess_st +
  Gstate :: g_state
  G_Trans_memb :: configuration
  G_Trans_memb_id :: membership_id
  G_Reg_memb :: configuration
  G_Reg_memb_id :: membership_id
  GroupsList :: "group list"
  Num_groups :: int
  MySyncedSet :: "proc_id list"
  Groups_bufs :: "8 word list list"
  Groups_bufs_fresh :: bool
  Num_mess_gathered :: int
  Num_daemons_gathered :: int
  gathered_complete :: bool
  Gathered :: "groups_message_link list"

subsection \<open>Membership ids\<close>

text \<open>
  A membership id with process id -1 marks a daemon partitioned from this one. The comparison
  subtracts 32-bit numbers, which wraps around.
\<close>

definition unknown_memb_id :: membership_id where
  "unknown_memb_id = \<lparr>mid_proc_id = -1, mid_time = -1\<rparr>"

definition Is_unknown_memb_id :: "membership_id \<Rightarrow> bool" where
  "Is_unknown_memb_id m \<longleftrightarrow> mid_proc_id m = -1"

definition Is_established_daemon :: "daemon_members \<Rightarrow> bool" where
  "Is_established_daemon d \<longleftrightarrow> \<not> Is_unknown_memb_id (dm_memb_id d)"

definition Is_partitioned_daemon :: "daemon_members \<Rightarrow> bool" where
  "Is_partitioned_daemon d \<longleftrightarrow> Is_unknown_memb_id (dm_memb_id d)"

definition G_compare_memb_ids :: "membership_id \<Rightarrow> membership_id \<Rightarrow> int" where
  "G_compare_memb_ids m1 m2 =
     (if Is_unknown_memb_id m1 \<and> Is_unknown_memb_id m2 then 0
      else if Is_unknown_memb_id m1 then 1
      else if Is_unknown_memb_id m2 then -1
      else if mid_proc_id m1 \<noteq> mid_proc_id m2 then sint (mid_proc_id m1 - mid_proc_id m2)
      else if mid_time m1 \<noteq> mid_time m2 then signed_take_bit 31 (mid_time m1 - mid_time m2)
      else 0)"

subsection \<open>Daemons in the order of the configuration\<close>

definition conf_index :: "proc list \<Rightarrow> proc_id \<Rightarrow> int" where
  "conf_index procs i = (case Conf_proc_by_id procs i of Some (k, _) \<Rightarrow> k | None \<Rightarrow> -1)"

definition G_compare_proc_ids_by_conf :: "proc list \<Rightarrow> proc_id \<Rightarrow> proc_id \<Rightarrow> int outcome" where
  "G_compare_proc_ids_by_conf procs a b =
     (let ia = conf_index procs a; ib = conf_index procs b
      in if ia > -1 \<and> ib > -1 then Inr (ia - ib) else Inl (Assert_fail ''G_compare_proc_ids_by_conf''))"

definition G_compare_daemon_vs_set :: "proc list \<Rightarrow> daemon_members \<Rightarrow> daemon_members \<Rightarrow> int outcome" where
  "G_compare_daemon_vs_set procs da db =
     (let cmp = G_compare_memb_ids (dm_memb_id da) (dm_memb_id db)
      in if cmp = 0 then G_compare_proc_ids_by_conf procs (dm_proc_id da) (dm_proc_id db) else Inr cmp)"

text \<open>
  An operation on a list of daemons compares the process id it is about with those in the list;
  the comparison asserts that both are configured. (The skip list may skip some of them; the
  ids in a list are those of configured processes, so only the sought id can fail.)
\<close>

abbreviation dkey :: "proc list \<Rightarrow> daemon_members \<Rightarrow> int" where
  "dkey procs d \<equiv> conf_index procs (dm_proc_id d)"

definition compared :: "proc list \<Rightarrow> proc_id \<Rightarrow> daemon_members list \<Rightarrow> unit outcome" where
  "compared procs i ds =
     (if ds = [] \<or> list_all (\<lambda>j. conf_index procs j > -1) (i # map dm_proc_id ds) then Inr ()
      else Inl (Assert_fail ''G_compare_proc_ids_by_conf''))"

definition G_get_daemon :: "group \<Rightarrow> proc_id \<Rightarrow> 'a conf_st_scheme \<Rightarrow> daemon_members option outcome" where
  "G_get_daemon grp i s =
     bindE (compared (Config_procs s) i (grp_daemons grp))
       (\<lambda>_. Inr (skl_get (dkey (Config_procs s)) (conf_index (Config_procs s) i) (grp_daemons grp)))"

definition put_daemon :: "daemon_members \<Rightarrow> group \<Rightarrow> 'a conf_st_scheme \<Rightarrow> group outcome" where
  "put_daemon d grp s =
     bindE (compared (Config_procs s) (dm_proc_id d) (grp_daemons grp))
       (\<lambda>_. Inr (grp\<lparr>grp_daemons := skl_put (dkey (Config_procs s)) d (grp_daemons grp)\<rparr>))"

subsection \<open>Groups and members\<close>

definition G_get_group :: "string \<Rightarrow> 'a groups_st_scheme \<Rightarrow> group option" where
  "G_get_group name s = skl_get grp_name name (GroupsList s)"

definition put_group :: "group \<Rightarrow> 'a groups_st_scheme \<Rightarrow> 'a groups_st_scheme" where
  "put_group grp s = s\<lparr>GroupsList := skl_put grp_name grp (GroupsList s)\<rparr>"

definition G_get_member :: "daemon_members \<Rightarrow> string \<Rightarrow> string option" where
  "G_get_member d name = skl_get id name (dm_members d)"

definition G_get_num_local :: "string \<Rightarrow> 'a groups_st_scheme \<Rightarrow> int" where
  "G_get_num_local name s =
     (case G_get_group name s of None \<Rightarrow> 0 | Some grp \<Rightarrow> int (length (grp_mboxes grp)))"

text \<open>\<open>G_remove_daemon\<close>: the daemon and all its members leave the group.\<close>

definition G_remove_daemon :: "group \<Rightarrow> daemon_members \<Rightarrow> 'a conf_st_scheme \<Rightarrow> group outcome" where
  "G_remove_daemon grp d s =
     bindE (compared (Config_procs s) (dm_proc_id d) (grp_daemons grp)) (\<lambda>_.
       let k = dkey (Config_procs s) d
       in case skl_get (dkey (Config_procs s)) k (grp_daemons grp) of
            None \<Rightarrow> Inl (Alarm_exit ''G_remove_daemon'')
          | Some _ \<Rightarrow> Inr (grp\<lparr>grp_daemons := skl_del (dkey (Config_procs s)) k (grp_daemons grp),
                             grp_num_members := grp_num_members grp - int (length (dm_members d))\<rparr>))"

definition G_remove_group :: "group \<Rightarrow> 'a groups_st_scheme \<Rightarrow> 'a groups_st_scheme outcome" where
  "G_remove_group grp s =
     (if grp_daemons grp \<noteq> [] \<or> grp_mboxes grp \<noteq> [] then Inl (Assert_fail ''G_remove_group'')
      else if G_get_group (grp_name grp) s = None then Inl (Alarm_exit ''G_remove_group'')
      else Inr (s\<lparr>GroupsList := skl_del grp_name (grp_name grp) (GroupsList s), Num_groups := Num_groups s - 1\<rparr>))"

text \<open>\<open>G_remove_mailbox\<close>: the last mailbox takes the place of the one removed.\<close>

definition G_remove_mailbox :: "group \<Rightarrow> int \<Rightarrow> group outcome" where
  "G_remove_mailbox grp m =
     (let i = find_index (\<lambda>b. b = m) (grp_mboxes grp)
      in if i = -1 then Inl (Alarm_exit ''G_remove_mailbox'')
         else Inr (grp\<lparr>grp_mboxes := swap_remove (grp_mboxes grp) (nat i)\<rparr>))"

definition G_update_daemon_memb_ids :: "group \<Rightarrow> group" where
  "G_update_daemon_memb_ids grp =
     grp\<lparr>grp_daemons := map (\<lambda>d. if Is_established_daemon d
           then d\<lparr>dm_memb_id := gid_memb_id (grp_id grp)\<rparr> else d) (grp_daemons grp)\<rparr>"

subsection \<open>Partitioned daemons\<close>

definition in_trans :: "proc_id \<Rightarrow> 'a groups_st_scheme \<Rightarrow> bool" where
  "in_trans i s \<longleftrightarrow> Conf_id_in_conf (Config_procs s) (G_Trans_memb s) i \<noteq> -1"

text \<open>
  The daemons to drop: in \<open>GGT\<close> those outside the transitional membership, otherwise those marked
  as partitioned. The flag says whether any was dropped.
\<close>

definition to_drop :: "daemon_members \<Rightarrow> 'a groups_st_scheme \<Rightarrow> bool" where
  "to_drop d s \<longleftrightarrow> (if Gstate s = GGT then \<not> in_trans (dm_proc_id d) s else Is_partitioned_daemon d)"

definition G_eliminate_partitioned_daemons_status ::
  "group \<Rightarrow> 'a groups_st_scheme \<Rightarrow> (bool \<times> group) outcome" where
  "G_eliminate_partitioned_daemons_status grp s =
     for_each (\<lambda>d (changed, g).
       if to_drop d s then bindE (G_remove_daemon g d s) (\<lambda>g'. Inr (True, g')) else Inr (changed, g))
       (grp_daemons grp) (False, grp)"

definition G_eliminate_partitioned_daemons :: "group \<Rightarrow> 'a groups_st_scheme \<Rightarrow> group outcome" where
  "G_eliminate_partitioned_daemons grp s =
     bindE (G_eliminate_partitioned_daemons_status grp s) (\<lambda>(_, g). Inr g)"

definition G_check_if_changed_by_cascade :: "group \<Rightarrow> 'a groups_st_scheme \<Rightarrow> bool" where
  "G_check_if_changed_by_cascade grp s = list_ex (\<lambda>d. \<not> in_trans (dm_proc_id d) s) (grp_daemons grp)"

subsection \<open>The synced set\<close>

definition G_update_synced_set_status ::
  "proc_id list \<Rightarrow> configuration \<Rightarrow> 'a conf_st_scheme \<Rightarrow> bool \<times> proc_id list" where
  "G_update_synced_set_status ps memb s =
     (let kept = filter (\<lambda>i. Conf_id_in_conf (Config_procs s) memb i \<ge> 0) ps
      in (length kept \<noteq> length ps, kept))"

definition G_update_synced_set :: "proc_id list \<Rightarrow> configuration \<Rightarrow> 'a conf_st_scheme \<Rightarrow> proc_id list" where
  "G_update_synced_set ps memb s = snd (G_update_synced_set_status ps memb s)"

text \<open>
  \<open>G_add_to_synced_set\<close> merges two sets in the order of the configuration; an id that is not
  configured or in both is fatal, a result larger than the array is undefined.
\<close>

function merge_synced :: "proc list \<Rightarrow> proc_id list \<Rightarrow> proc_id list \<Rightarrow> proc_id list outcome" where
  "merge_synced procs [] [] = Inr []"
| "merge_synced procs (a # as) [] =
     (if conf_index procs a = -1 then Inl (Alarm_exit ''G_add_to_synced_set'')
      else bindE (merge_synced procs as []) (\<lambda>r. Inr (a # r)))"
| "merge_synced procs [] (b # bs) =
     (if conf_index procs b = -1 then Inl (Alarm_exit ''G_add_to_synced_set'')
      else bindE (merge_synced procs [] bs) (\<lambda>r. Inr (b # r)))"
| "merge_synced procs (a # as) (b # bs) =
     (let l = conf_index procs a; r = conf_index procs b
      in if l = -1 \<or> r = -1 then Inl (Alarm_exit ''G_add_to_synced_set'')
         else if l < r then bindE (merge_synced procs as (b # bs)) (\<lambda>rest. Inr (a # rest))
         else if r < l then bindE (merge_synced procs (a # as) bs) (\<lambda>rest. Inr (b # rest))
         else Inl (Alarm_exit ''G_add_to_synced_set''))"
  by pat_completeness auto
termination by (relation "measure (\<lambda>(p, xs, ys). length xs + length ys)") auto

definition G_add_to_synced_set :: "proc_id list \<Rightarrow> 'a groups_st_scheme \<Rightarrow> 'a groups_st_scheme outcome" where
  "G_add_to_synced_set sset s =
     bindE (merge_synced (Config_procs s) (MySyncedSet s) sset) (\<lambda>merged.
       if length merged > nat MAX_PROCS_RING then Inl (Undefined ''G_add_to_synced_set'')
       else Inr (s\<lparr>MySyncedSet := merged\<rparr>))"

definition Is_synced_set_leader :: "proc_id \<Rightarrow> 'a groups_st_scheme \<Rightarrow> bool" where
  "Is_synced_set_leader i s \<longleftrightarrow> MySyncedSet s \<noteq> [] \<and> i = hd (MySyncedSet s)"

subsection \<open>Private group names\<close>

text \<open>
  A private group is named \<open>#private#daemon\<close>. The name is copied into an array of
  \<open>MAX_GROUP_NAME\<close> characters; without a NUL in it the C string functions run off the array.
  \<open>None\<close> is \<open>ILLEGAL_GROUP\<close>; characters are compared as signed numbers, so none from 128 on is
  legal.
\<close>

definition legal_name_char :: "char \<Rightarrow> bool" where
  "legal_name_char c \<longleftrightarrow> CHR ''#'' < c \<and> c \<le> CHR ''~''"

definition G_private_to_names :: "string \<Rightarrow> (string \<times> string) option outcome" where
  "G_private_to_names private_group_name =
     (let arr = name_array private_group_name; tail = tl arr
      in if NUL \<notin> set tail then Inl (Undefined ''G_private_to_names'')
         else
           let rest = cstr tail;
               prvn = takeWhile (\<lambda>c. c \<noteq> CHR ''#'') rest;
               pn = dropWhile (\<lambda>c. c \<noteq> CHR ''#'') rest
           in if pn = [] \<or> hd arr \<noteq> CHR ''#'' \<or> length prvn > MAX_PRIVATE_NAME \<or> length prvn < 1
                 \<or> length (tl pn) \<ge> MAX_PROC_NAME \<or> length (tl pn) < 1
              then Inr None
              else if \<not> list_all legal_name_char prvn \<or> \<not> list_all legal_name_char (tl pn) then Inr None
              else Inr (Some (prvn, tl pn)))"

end
