(* ===== verification/Session_Connect.thy ===== *)
theory Session_Connect
  imports Group_State Access
begin

section \<open>Connecting and authenticating clients\<close>

text \<open>
  Model of the part of \<open>daemon/session.c\<close> that takes a connection from \<open>accept\<close> to an
  operational session: \<open>Sess_accept\<close>, \<open>Sess_accept_continue\<close>, \<open>Sess_recv_client_auth\<close>,
  \<open>Sess_session_report_auth_result\<close>, \<open>Sess_session_denied\<close>, \<open>Sess_session_authorized\<close>, and
  of the connection callbacks of \<open>auth-null.c\<close>, \<open>auth-ip.c\<close> and \<open>auth-pword.c\<close>. What \<open>recv\<close>
  answers is the oracle \<open>recv_ret n len\<close> for the \<open>n\<close>-th call and a request of \<open>len\<close> bytes;
  what was received is logged in \<open>sess_in\<close>. \<open>Randoms\<close> are the numbers \<open>get_rand\<close> will give.
  The descriptor of a client that is asked for a password carries its \<open>session_auth\<close> in
  \<open>Pending_auth\<close>. Socket options and the
  blocking mode are not modelled; a refused name is not kept in the slot \<open>MAX_SESSIONS\<close>.
\<close>

subsection \<open>State\<close>

datatype recv_result = Got "8 word list" | Would_block | Recv_failed

record client_st = groups_st +
  recv_ret :: "nat \<Rightarrow> nat \<Rightarrow> recv_result"
  recv_calls :: nat
  sess_in :: "(int \<times> 8 word list) list"
  Accept_inet_mbox :: "int list"
  Accept_unix_mbox :: int
  Acm :: acm
  Pending_auth :: "int \<Rightarrow> session_auth option"
  Randoms :: "nat list"

definition AF_UNIX :: int where "AF_UNIX = 1"
definition AF_INET :: int where "AF_INET = 2"

definition ACCEPT_SESSION :: int where "ACCEPT_SESSION = 1"
definition REJECT_QUOTA :: int where "REJECT_QUOTA = -3"
definition REJECT_NO_NAME :: int where "REJECT_NO_NAME = -4"
definition REJECT_ILLEGAL_NAME :: int where "REJECT_ILLEGAL_NAME = -5"
definition REJECT_NOT_UNIQUE :: int where "REJECT_NOT_UNIQUE = -6"
definition REJECT_VERSION :: int where "REJECT_VERSION = -7"
definition REJECT_AUTH :: int where "REJECT_AUTH = -9"
definition SP_MAJOR_VERSION :: int where "SP_MAJOR_VERSION = 4"
definition SP_MINOR_VERSION :: int where "SP_MINOR_VERSION = 0"
definition SP_PATCH_VERSION :: int where "SP_PATCH_VERSION = 0"

definition sock_recv :: "int \<Rightarrow> nat \<Rightarrow> 'a client_st_scheme \<Rightarrow> recv_result \<times> 'a client_st_scheme" where
  "sock_recv mbox len s =
     (let s1 = s\<lparr>recv_calls := Suc (recv_calls s)\<rparr>
      in case recv_ret s (recv_calls s) len of
           Got bs \<Rightarrow> (Got (take len bs), s1\<lparr>sess_in := sess_in s1 @ [(mbox, take len bs)]\<rparr>)
         | r \<Rightarrow> (r, s1))"

text \<open>One byte to the client; the result of \<open>send\<close> is ignored.\<close>

definition respond :: "int \<Rightarrow> int \<Rightarrow> 'a sess_st_scheme \<Rightarrow> 'a sess_st_scheme" where
  "respond mbox code s = snd (sock_send mbox [word_of_int code] s)"

definition refuse :: "int option \<Rightarrow> int \<Rightarrow> 'a sess_st_scheme \<Rightarrow> 'a sess_st_scheme" where
  "refuse code mbox s = out (Close_fd mbox) (case code of Some c \<Rightarrow> respond mbox c s | None \<Rightarrow> s)"

subsection \<open>Accepting\<close>

definition Sess_attach_accept :: "'a client_st_scheme \<Rightarrow> 'a client_st_scheme" where
  "Sess_attach_accept s =
     out (Attach_fd (Accept_unix_mbox s) H_accept) (foldl (\<lambda>s m. out (Attach_fd m H_accept) s) s (Accept_inet_mbox s))"

definition Sess_detach_accept :: "'a client_st_scheme \<Rightarrow> 'a client_st_scheme" where
  "Sess_detach_accept s =
     out (Detach_fd (Accept_unix_mbox s)) (foldl (\<lambda>s m. out (Detach_fd m) s) s (Accept_inet_mbox s))"

text \<open>The arguments \<open>fd\<close> and \<open>addr\<close> are what \<open>accept\<close> returned.\<close>

definition Sess_accept :: "int \<Rightarrow> int \<Rightarrow> 32 word \<Rightarrow> 'a client_st_scheme \<Rightarrow> 'a client_st_scheme outcome" where
  "Sess_accept domain fd addr s =
     (if domain \<noteq> AF_INET \<and> domain \<noteq> AF_UNIX then Inl (Alarm_exit ''Sess_accept'')
      else
        let s1 = upd_ses MAX_SESSIONS (\<lambda>e. e\<lparr>ses_address := if domain = AF_INET then addr else 0,
                   ses_mbox := fd, ses_type := domain\<rparr>) s;
            i = Sess_get_session_index fd s1
        in if fd < 0 then Inr s1
           else if Num_sessions s1 = int MAX_SESSIONS then Inr (refuse (Some REJECT_QUOTA) fd s1)
           else if i \<noteq> -1 \<and> Is_op_session (ses_status (ses_at s1 (nat i))) then Inl (Alarm_exit ''Sess_accept'')
           else Inr (out Queue_accept_continue (out (Attach_fd fd H_accept_continue) (Sess_detach_accept s1))))"

subsection \<open>The result of authentication\<close>

definition Sess_session_denied :: "nat \<Rightarrow> 'a sess_st_scheme \<Rightarrow> 'a sess_st_scheme outcome" where
  "Sess_session_denied i s =
     (if \<not> Is_preauth_session (ses_status (ses_at s i)) then Inl (Alarm_exit ''Sess_session_denied'')
      else leave_session i (refuse (Some REJECT_AUTH) (ses_mbox (ses_at s i)) s))"

definition lib_number :: "int list \<Rightarrow> int" where
  "lib_number v = v ! 0 * 10000 + v ! 1 * 100 + v ! 2"

definition accept_bytes :: "session \<Rightarrow> string \<Rightarrow> 8 word list list" where
  "accept_bytes e grp =
     [[word_of_int ACCEPT_SESSION], [word_of_int SP_MAJOR_VERSION], [word_of_int SP_MINOR_VERSION]]
     @ (if lib_number (lib_version e) \<ge> 31500 then [[word_of_int SP_PATCH_VERSION]] else [])
     @ [[word_of_nat (length grp)], map of_char grp]"

definition Sess_session_authorized :: "nat \<Rightarrow> 'a sess_st_scheme \<Rightarrow> 'a sess_st_scheme outcome" where
  "Sess_session_authorized i s =
     (let e = ses_at s i; mbox = ses_mbox e; grp = private_group (ses_name e) s
      in if \<not> Is_preauth_session (ses_status e) then Inl (Alarm_exit ''Sess_session_authorized'')
         else
           let s1 = upd_ses i (\<lambda>e. e\<lparr>ses_queue := []\<rparr>) s;
               s2 = foldl (\<lambda>s bs. snd (sock_send mbox bs s)) s1 (accept_bytes e grp);
               s3 = out (Attach_fd mbox H_read) s2
           in Inr (upd_ses i (\<lambda>e. e\<lparr>ses_status := (ses_status e OR OP_SESSION) AND NOT PRE_AUTH_SESSION,
                     ses_read := Message_reset_current_location\<lparr>in_mess_head := True\<rparr>,
                     ses_write := Message_reset_current_location\<rparr>) s3))"

text \<open>
  The three methods: \<open>NULL\<close> reports success at once, \<open>IP\<close> looks the address up in its rules, and
  \<open>PWORD\<close> waits for the user's name and password.
\<close>

definition ip_auth_client_connection :: "session_auth \<Rightarrow> 'a client_st_scheme \<Rightarrow> bool outcome" where
  "ip_auth_client_connection sa s =
     (let ses = Sess_get_session_index (sa_mbox sa) s
      in if \<not> IP_File_Loaded (Acm s) then Inr False
         else if ses < 0 then Inl (Undefined ''ip_auth_client_connection'')
         else ip_allowed (ses_address (ses_at s (nat ses))) (Acm s))"

definition pword_auth_client_connection :: "session_auth \<Rightarrow> 'a client_st_scheme \<Rightarrow> 'a client_st_scheme" where
  "pword_auth_client_connection sa s =
     (let s1 = s\<lparr>Pending_auth := (Pending_auth s)(sa_mbox sa := Some sa)\<rparr>
      in out (Attach_fd (sa_mbox sa) H_auth_client_conn_read) s1)"

text \<open>All methods have reported: the session is authorized when all of them and the policy agree.\<close>

definition settle_auth :: "nat \<Rightarrow> session_auth \<Rightarrow> 'a client_st_scheme \<Rightarrow> 'a client_st_scheme outcome" where
  "settle_auth i sa s =
     (if length (filter id (take (length (sa_methods sa)) (sa_results sa))) < length (sa_methods sa)
      then Sess_session_denied i s
      else case ses_acp_ops (ses_at s i) of
             None \<Rightarrow> Inl (Undefined ''Sess_session_report_auth_result'')
           | Some ops \<Rightarrow> if \<not> open_connection ops (ses_name (ses_at s i)) then Sess_session_denied i s
                         else Sess_session_authorized i s)"

function Sess_session_report_auth_result ::
  "session_auth \<Rightarrow> bool \<Rightarrow> 'a client_st_scheme \<Rightarrow> 'a client_st_scheme outcome" where
  "Sess_session_report_auth_result sa ok s =
     (let ses = Sess_get_session_index (sa_mbox sa) s; i = nat ses;
          k = Suc (length (sa_results sa)); sa' = sa\<lparr>sa_results := sa_results sa @ [ok]\<rparr>
      in if ses < 0 \<or> ses \<ge> int MAX_SESSIONS then Inr s
         else if k < length (sa_methods sa) then
           case Acm_auth_get_auth_client_connection (sa_methods sa ! k) (Acm s) of
             Inl e \<Rightarrow> Inl e
           | Inr None \<Rightarrow> Sess_session_denied i s
           | Inr (Some Null_ops) \<Rightarrow> Sess_session_report_auth_result sa' True s
           | Inr (Some IP_ops) \<Rightarrow> (case ip_auth_client_connection sa' s of
                                    Inl e \<Rightarrow> Inl e
                                  | Inr b \<Rightarrow> Sess_session_report_auth_result sa' b s)
           | Inr (Some Pword_ops) \<Rightarrow> Inr (pword_auth_client_connection sa' s)
         else settle_auth i sa' s)"
  by pat_completeness auto
termination
  by (relation "measure (\<lambda>(sa, _, _). length (sa_methods sa) - length (sa_results sa))") auto

declare Sess_session_report_auth_result.simps [simp del]

definition auth_open :: "auth_ops \<Rightarrow> session_auth \<Rightarrow> 'a client_st_scheme \<Rightarrow> 'a client_st_scheme outcome" where
  "auth_open ops sa s =
     (case ops of
        Null_ops \<Rightarrow> Sess_session_report_auth_result sa True s
      | IP_ops \<Rightarrow> bindE (ip_auth_client_connection sa s) (\<lambda>b. Sess_session_report_auth_result sa b s)
      | Pword_ops \<Rightarrow> Inr (pword_auth_client_connection sa s))"

lemma report_opens_next:
  assumes "Sess_get_session_index (sa_mbox sa) s = int i" and "i < MAX_SESSIONS"
  shows "Sess_session_report_auth_result sa ok s =
     (let sa' = sa\<lparr>sa_results := sa_results sa @ [ok]\<rparr>
      in if Suc (length (sa_results sa)) < length (sa_methods sa)
         then bindE (Acm_auth_get_auth_client_connection (sa_methods sa ! Suc (length (sa_results sa))) (Acm s))
                (\<lambda>r. case r of None \<Rightarrow> Sess_session_denied i s | Some ops \<Rightarrow> auth_open ops sa' s)
         else settle_auth i sa' s)"
  using assms by (subst Sess_session_report_auth_result.simps)
    (auto simp: Let_def auth_open_def bindE_def split: sum.splits option.splits auth_ops.splits)

text \<open>The password of a client, on its descriptor.\<close>

definition auth_client_conn_read :: "int \<Rightarrow> session_auth \<Rightarrow> 'a client_st_scheme \<Rightarrow> 'a client_st_scheme outcome" where
  "auth_client_conn_read mbox sa s =
     (let s1 = out (Detach_fd mbox) (s\<lparr>Pending_auth := (Pending_auth s)(mbox := None)\<rparr>);
          (r1, s2) = sock_recv mbox MAX_PWORD_USERNAME s1
      in case r1 of
           Got u \<Rightarrow>
             if length u < MAX_PWORD_USERNAME then Sess_session_report_auth_result sa False s2
             else
               let (r2, s3) = sock_recv mbox MAX_PWORD_PASSWORD s2
               in (case r2 of
                     Got p \<Rightarrow>
                       if length p < MAX_PWORD_PASSWORD then Sess_session_report_auth_result sa False s3
                       else bindE (check_password (cstr (chars_of u)) (cstr (chars_of p)) (Acm s3)) (\<lambda>ok.
                         Sess_session_report_auth_result sa ok (respond mbox (if ok then 1 else 0) s3))
                   | _ \<Rightarrow> Sess_session_report_auth_result sa False s3)
         | _ \<Rightarrow> Sess_session_report_auth_result sa False s2)"

subsection \<open>The client chooses its methods\<close>

definition fill_ops :: "nat \<Rightarrow> 'a client_st_scheme \<Rightarrow> 'a client_st_scheme outcome" where
  "fill_ops i s = bindE (Acm_acp_fill_ops (Acm s)) (\<lambda>ops. Inr (upd_ses i (\<lambda>e. e\<lparr>ses_acp_ops := Some ops\<rparr>) s))"

definition Sess_recv_client_auth :: "int \<Rightarrow> 'a client_st_scheme \<Rightarrow> 'a client_st_scheme outcome" where
  "Sess_recv_client_auth mbox s =
     (let ses = Sess_get_session_index mbox s; i = nat ses
      in if ses < 0 \<or> ses \<ge> int MAX_SESSIONS then Inr s
         else if \<not> Is_preauth_session (ses_status (ses_at s i)) then Inl (Alarm_exit ''Sess_recv_client_auth'')
         else
           let (r, s1) = sock_recv mbox (MAX_AUTH_NAME * MAX_AUTH_METHODS) (out (Detach_fd mbox) s)
           in case r of
                Got bs \<Rightarrow>
                  if length bs < MAX_AUTH_NAME * MAX_AUTH_METHODS then Sess_session_denied i s1
                  else
                    bindE (all_allowed MAX_AUTH_METHODS (chars_of bs) (Acm s1)) (\<lambda>ok.
                      if \<not> ok then Sess_session_denied i s1
                      else
                        bindE (fill_ops i s1) (\<lambda>s2.
                        bindE (Acm_auth_create_sess_info mbox (chars_of bs) (Acm s2)) (\<lambda>r.
                          case r of
                            None \<Rightarrow> Sess_session_denied i s2
                          | Some sa \<Rightarrow>
                              bindE (Acm_auth_get_auth_client_connection (sa_methods sa ! 0) (Acm s2)) (\<lambda>r.
                                case r of None \<Rightarrow> Sess_session_denied i s2 | Some ops \<Rightarrow> auth_open ops sa s2))))
              | _ \<Rightarrow> Sess_session_denied i s1)"

subsection \<open>A new connection tells its version and name\<close>

definition padded :: "nat \<Rightarrow> int list \<Rightarrow> int list" where
  "padded n xs = take n (xs @ replicate n 0)"

text \<open>\<open>Inl code\<close>: the connection is refused, with a byte or without.\<close>

definition read_version :: "int \<Rightarrow> 'a client_st_scheme \<Rightarrow> (int option + int list) \<times> 'a client_st_scheme" where
  "read_version mbox s =
     (let (r, s1) = sock_recv mbox 2 s
      in case r of
           Got bs \<Rightarrow>
             let v = padded 3 (map sint bs)
             in if lib_number v > 31400
                then let (r2, s2) = sock_recv mbox 1 s1
                     in (case r2 of
                           Got cs \<Rightarrow>
                             let v2 = (if cs = [] then v else v[2 := sint (hd cs)])
                             in if lib_number v2 < 30100 then (Inl (Some REJECT_VERSION), s2) else (Inr v2, s2)
                         | _ \<Rightarrow> (Inl None, s2))
                else if lib_number v < 30100 then (Inl (Some REJECT_VERSION), s1)
                else (Inr v, s1)
         | _ \<Rightarrow> (Inl None, s1))"

text \<open>The priority and membership flag of the first byte, and the length of the name.\<close>

definition read_conn :: "int \<Rightarrow> 'a client_st_scheme \<Rightarrow> (int option + int \<times> int) \<times> 'a client_st_scheme" where
  "read_conn mbox s =
     (let (r, s1) = sock_recv mbox 2 s
      in case r of
           Got bs \<Rightarrow> if length bs < 2 then (Inl (Some REJECT_NO_NAME), s1)
                     else (Inr (sint (bs ! 0), sint (bs ! 1)), s1)
         | _ \<Rightarrow> (Inl None, s1))"

fun dec :: "nat \<Rightarrow> string" where
  "dec n = (if n < 10 then [char_of (48 + n)] else dec (n div 10) @ [char_of (48 + n mod 10)])"

declare dec.simps [simp del]

text \<open>The loop that draws random names until one is unused.\<close>

fun random_name :: "int \<Rightarrow> nat list \<Rightarrow> session list \<Rightarrow> nat list
    \<Rightarrow> (string \<times> nat option \<times> nat list) outcome" where
  "random_name mbox [] ss order = Inl (Hang ''Sess_accept_continue'')"
| "random_name mbox (r # rs) ss order =
     (let name = take (MAX_PRIVATE_NAME - 1) (CHR ''r'' # dec r @ CHR ''-'' # dec (nat mbox));
          (whr, unused) = find_place ss name order
      in if unused then Inr (name, whr, rs) else random_name mbox rs ss order)"

definition legal_char :: "char \<Rightarrow> bool" where
  "legal_char c \<longleftrightarrow> sint (of_char c :: 8 word) > sint (of_char (CHR ''#'') :: 8 word)
     \<and> sint (of_char c :: 8 word) \<le> sint (of_char (CHR ''~'') :: 8 word)"

definition read_name :: "int \<Rightarrow> int \<Rightarrow> 'a client_st_scheme
    \<Rightarrow> ((int option + string \<times> nat option) \<times> 'a client_st_scheme)" where
  "read_name mbox name_len s =
     (let (r, s1) = sock_recv mbox MAX_PRIVATE_NAME s
      in case r of
           Got bs \<Rightarrow>
             let name = chars_of bs; (whr, unused) = find_place (Sessions s1) name (Sess_order s1)
             in if int (length bs) \<noteq> name_len then (Inl (Some REJECT_ILLEGAL_NAME), s1)
                else if \<not> list_all legal_char name then (Inl (Some REJECT_ILLEGAL_NAME), s1)
                else if \<not> unused then (Inl (Some REJECT_NOT_UNIQUE), s1)
                else (Inr (name, whr), s1)
         | _ \<Rightarrow> (Inl None, s1))"

definition choose_name :: "int \<Rightarrow> int \<Rightarrow> 'a client_st_scheme
    \<Rightarrow> ((int option + string \<times> nat option) \<times> 'a client_st_scheme) outcome" where
  "choose_name mbox name_len s =
     (if name_len > int MAX_PRIVATE_NAME \<or> name_len < 0 then Inr (Inl (Some REJECT_ILLEGAL_NAME), s)
      else if name_len = 0
      then bindE (random_name mbox (Randoms s) (Sessions s) (Sess_order s)) (\<lambda>(name, whr, rs).
             Inr (Inr (name, whr), s\<lparr>Randoms := rs\<rparr>))
      else Inr (read_name mbox name_len s))"

text \<open>The session is in the table; libraries before 3.16 take no part in authentication.\<close>

definition begin_auth :: "nat \<Rightarrow> int list \<Rightarrow> 'a client_st_scheme \<Rightarrow> 'a client_st_scheme outcome" where
  "begin_auth i v s =
     (let mbox = ses_mbox (ses_at s i)
      in if lib_number v < 31600
         then bindE (fill_ops i s) (\<lambda>s1.
           if Acm_auth_query_allowed ''IP'' (Acm s1)
           then bindE (Acm_auth_get_auth_client_connection_byname ''IP'' (Acm s1)) (\<lambda>r.
                  case r of None \<Rightarrow> Inl (Undefined ''Sess_accept_continue'')
                  | Some ops \<Rightarrow> auth_open ops (Acm_auth_create_sess_info_forIP mbox (Acm s1)) s1)
           else if Acm_auth_query_allowed ''NULL'' (Acm s1) then Sess_session_authorized i s1
           else Sess_session_denied i s1)
         else
           let allowed = Acm_auth_get_allowed_list (Acm s);
               s1 = snd (sock_send mbox (map of_char allowed)
                      (snd (sock_send mbox [word_of_nat (length allowed)] s)))
           in if allowed = [] then Sess_session_denied i s1
              else Inr (out (Attach_fd mbox H_recv_client_auth) s1))"

definition set_flags :: "int \<Rightarrow> session \<Rightarrow> session" where
  "set_flags c e = e\<lparr>ses_status := if 0 < c \<and> c mod 2 = 1 then ses_status e OR MEMB_SESSION
                                 else ses_status e AND NOT MEMB_SESSION,
                     ses_priority := if c < 0 then - ((- c) div 16) else c div 16\<rparr>"

definition Sess_accept_continue :: "'a client_st_scheme \<Rightarrow> 'a client_st_scheme outcome" where
  "Sess_accept_continue s =
     (let mbox = ses_mbox (ses_at s MAX_SESSIONS);
          s0 = Sess_attach_accept (out (Detach_fd mbox) (out Dequeue_accept_continue s));
          (r, s1) = read_version mbox s0
      in case r of
           Inl code \<Rightarrow> Inr (refuse code mbox s1)
         | Inr v \<Rightarrow>
             let s2 = upd_ses MAX_SESSIONS (\<lambda>e. e\<lparr>lib_version := v\<rparr>) s1;
                 (r, s3) = read_conn mbox s2
             in (case r of
                   Inl code \<Rightarrow> Inr (refuse code mbox s3)
                 | Inr (c, name_len) \<Rightarrow>
                     let s4 = upd_ses MAX_SESSIONS ((\<lambda>e. e\<lparr>ses_name := []\<rparr>) \<circ> set_flags c) s3
                     in bindE (choose_name mbox name_len s4) (\<lambda>(r, s5).
                          case r of
                            Inl code \<Rightarrow> Inr (refuse code mbox s5)
                          | Inr (name, whr) \<Rightarrow>
                              bindE (enter_session whr (upd_ses MAX_SESSIONS (\<lambda>e. e\<lparr>ses_name := name\<rparr>) s5)) (\<lambda>(i, s6).
                                begin_auth i v s6))))"

end
