(* ===== verification/Group_Views.thy ===== *)
theory Group_Views
  imports Group_State
begin

section \<open>Membership messages to the members of a group\<close>

text \<open>
  Model of the routines of \<open>daemon/groups.c\<close> that tell local members about a group: the regular
  membership after a join, leave or disconnect (lightweight), the one caused by the network with
  the sets of members that stayed together (heavyweight), the transitional signal and the
  message to a member that left. \<open>Mess_buf\<close> is filled front to back with some numbers patched in
  afterwards; here the numbers are computed first. A message longer than \<open>Mess_buf\<close> overruns it.
\<close>

subsection \<open>Buffers\<close>

definition memb_id_bytes :: "membership_id \<Rightarrow> 8 word list" where
  "memb_id_bytes m = host32 (mid_proc_id m) @ host32 (word_of_int (mid_time m))"

definition group_id_bytes :: "group_id \<Rightarrow> 8 word list" where
  "group_id_bytes g = memb_id_bytes (gid_memb_id g) @ host32 (word_of_int (gid_index g))"

definition sizeof_group_id :: nat where "sizeof_group_id = 12"

lemma length_memb_id_bytes [simp]: "length (memb_id_bytes m) = 8"
  by (simp add: memb_id_bytes_def)

lemma length_group_id_bytes [simp]: "length (group_id_bytes g) = 12"
  by (simp add: group_id_bytes_def)

definition all_members :: "group \<Rightarrow> string list" where
  "all_members grp = concat (map dm_members (grp_daemons grp))"

definition G_build_memb_buf :: "group \<Rightarrow> 32 word \<Rightarrow> message_header \<times> 8 word list" where
  "G_build_memb_buf grp caused =
     (\<lparr>mh_type = Set_endian REG_MEMB_MESS OR caused, mh_private_group_name = name_array (grp_name grp),
       mh_num_groups = grp_num_members grp, mh_hint = Set_endian 0, mh_data_len = int sizeof_group_id\<rparr>,
      concat (map name_bytes (all_members grp)) @ group_id_bytes (grp_id grp))"

definition fill_message :: "message_header \<Rightarrow> 8 word list \<Rightarrow> message_obj outcome" where
  "fill_message h buf =
     (if length buf > MAX_MESSAGE_BODY_LEN then Inl (Undefined ''Mess_buf'')
      else Message_Buffer_to_Message_Fragments (Message_new_message\<lparr>mo_head := h\<rparr>) buf)"

text \<open>The signal of a transitional membership.\<close>

definition G_build_trans_mess :: "group \<Rightarrow> message_obj" where
  "G_build_trans_mess grp =
     (let m = Message_create_message TRANSITION_MESS (grp_name grp)
      in m\<lparr>mo_head := (mo_head m)\<lparr>mh_data_len := int sizeof_group_id\<rparr>, mo_data := [group_id_bytes (grp_id grp)]\<rparr>)"

subsection \<open>Virtual synchrony sets\<close>

text \<open>
  The daemons are sorted by membership id, ties by their place in the configuration. The list
  here is built by insertion at the first element that is not smaller, which is where the skip
  list puts an element if the comparison is an order.
\<close>

fun insert_vs :: "proc list \<Rightarrow> daemon_members \<Rightarrow> daemon_members list \<Rightarrow> daemon_members list outcome" where
  "insert_vs procs d [] = Inr [d]"
| "insert_vs procs d (e # es) =
     bindE (G_compare_daemon_vs_set procs d e) (\<lambda>cmp.
       if cmp < 0 then Inr (d # e # es)
       else if cmp = 0 then Inr (d # es)
       else bindE (insert_vs procs d es) (\<lambda>r. Inr (e # r)))"

definition vs_order :: "proc list \<Rightarrow> daemon_members list \<Rightarrow> daemon_members list outcome" where
  "vs_order procs ds = for_each (insert_vs procs) ds []"

text \<open>
  The loop over the sorted daemons. \<open>vs_sets\<close>: the sets so far, the last one current; \<open>vs_local\<close>:
  the byte offset of the set this daemon's members are in, from the first set on; \<open>vs_found\<close>: the
  joiner was left out of its daemon's set.
\<close>

record vs_state =
  vs_memb_id :: membership_id
  vs_sets :: "string list list"
  vs_local :: "nat option"
  vs_found :: bool

definition vs_set_bytes :: "string list \<Rightarrow> 8 word list" where
  "vs_set_bytes ms = host32 (of_nat (length ms)) @ concat (map name_bytes ms)"

definition vs_region :: "string list list \<Rightarrow> 8 word list" where
  "vs_region sets = concat (map vs_set_bytes sets)"

definition without_joiner :: "string option \<Rightarrow> bool \<Rightarrow> string list \<Rightarrow> string list" where
  "without_joiner joiner found ms =
     (case joiner of None \<Rightarrow> ms | Some j \<Rightarrow> if found then ms else remove1 j ms)"

definition vs_step :: "string option \<Rightarrow> proc_id \<Rightarrow> daemon_members \<Rightarrow> vs_state \<Rightarrow> vs_state outcome" where
  "vs_step joiner me d v =
     (let needed = (Is_unknown_memb_id (vs_memb_id v) \<or> \<not> Memb_is_equal (vs_memb_id v) (dm_memb_id d));
          v1 = (if needed then v\<lparr>vs_memb_id := dm_memb_id d, vs_sets := vs_sets v @ [[]]\<rparr> else v);
          offset = length (vs_region (butlast (vs_sets v1)));
          kept = without_joiner joiner (vs_found v1) (dm_members d);
          v2 = v1\<lparr>vs_sets := butlast (vs_sets v1) @ [last (vs_sets v1) @ kept],
                  vs_found := vs_found v1 \<or> (case joiner of None \<Rightarrow> False | Some j \<Rightarrow> j \<in> set (dm_members d))\<rparr>
      in if dm_proc_id d \<noteq> me then Inr v2
         else if vs_local v \<noteq> None \<and> vs_local v \<noteq> Some 0 then Inl (Alarm_exit ''G_build_memb_vs_buf'')
         else Inr (v2\<lparr>vs_local := Some offset\<rparr>))"

definition vs_start :: vs_state where
  "vs_start = \<lparr>vs_memb_id = unknown_memb_id, vs_sets = [], vs_local = None, vs_found = False\<rparr>"

definition build_vs_sets :: "group \<Rightarrow> string option \<Rightarrow> 'a conf_st_scheme \<Rightarrow> (string list list \<times> nat) outcome" where
  "build_vs_sets grp joiner s =
     bindE (vs_order (Config_procs s) (grp_daemons grp)) (\<lambda>ds.
     bindE (for_each (vs_step joiner (my_id s)) ds vs_start) (\<lambda>v.
       case vs_local v of
         None \<Rightarrow> Inl (Undefined ''G_build_memb_vs_buf'')
       | Some offset \<Rightarrow>
           (case joiner of
              None \<Rightarrow> Inr (vs_sets v, offset)
            | Some j \<Rightarrow> if vs_found v then Inr (vs_sets v @ [[j]], offset)
                        else Inl (Alarm_exit ''G_build_memb_vs_buf''))))"

definition G_build_memb_vs_buf ::
  "group \<Rightarrow> 32 word \<Rightarrow> string option \<Rightarrow> 'a conf_st_scheme \<Rightarrow> (message_header \<times> 8 word list) outcome" where
  "G_build_memb_vs_buf grp caused joiner s =
     bindE (build_vs_sets grp joiner s) (\<lambda>(sets, offset).
       let (h, buf) = G_build_memb_buf grp caused
       in Inr (h\<lparr>mh_data_len := mh_data_len h + 8 + int (length (vs_region sets))\<rparr>,
               buf @ host32 (of_nat (length sets)) @ host32 (of_nat offset) @ vs_region sets))"

subsection \<open>Sending\<close>

text \<open>One local member: its session must exist; only sessions with memberships are told.\<close>

definition notify_mbox :: "message_obj \<Rightarrow> int \<Rightarrow> 'a sess_st_scheme \<Rightarrow> 'a sess_st_scheme outcome" where
  "notify_mbox m mbox s =
     (let ses = Sess_get_session_index mbox s
      in if ses < 0 then Inl (Undefined ''Sessions'')
         else if Is_memb_session (ses_status (ses_at s (nat ses))) then Sess_write ses m s else Inr s)"

definition notify :: "message_obj \<Rightarrow> int list \<Rightarrow> 'a sess_st_scheme \<Rightarrow> 'a sess_st_scheme outcome" where
  "notify m mboxes s = for_each (notify_mbox m) mboxes s"

definition lightweight_message :: "group \<Rightarrow> 32 word \<Rightarrow> string \<Rightarrow> message_obj outcome" where
  "lightweight_message grp caused private_group_name =
     (let (h, buf) = G_build_memb_buf grp caused
      in fill_message (h\<lparr>mh_data_len := mh_data_len h + 12 + int MAX_GROUP_NAME\<rparr>)
           (buf @ host32 1 @ host32 0 @ vs_set_bytes [private_group_name]))"

definition G_send_lightweight_memb ::
  "group \<Rightarrow> 32 word \<Rightarrow> string \<Rightarrow> 'a sess_st_scheme \<Rightarrow> 'a sess_st_scheme outcome" where
  "G_send_lightweight_memb grp caused private_group_name s =
     bindE (lightweight_message grp caused private_group_name) (\<lambda>m. notify m (grp_mboxes grp) s)"

definition self_leave_message :: "group \<Rightarrow> message_obj" where
  "self_leave_message grp =
     Message_new_message\<lparr>mo_head := \<lparr>mh_type = Set_endian CAUSED_BY_LEAVE,
       mh_private_group_name = name_array (grp_name grp), mh_num_groups = 0, mh_hint = Set_endian 0,
       mh_data_len = 0\<rparr>\<rparr>"

definition G_send_self_leave :: "group \<Rightarrow> int \<Rightarrow> 'a sess_st_scheme \<Rightarrow> 'a sess_st_scheme outcome" where
  "G_send_self_leave grp ses s =
     (if Is_memb_session (ses_status (ses_at s (nat ses))) then Sess_write ses (self_leave_message grp) s
      else Inr s)"

text \<open>
  The joiner gets the message of the others with the offset of the last set, its own, computed
  from the data length.
\<close>

definition patch_offset :: "message_header \<Rightarrow> 8 word list \<Rightarrow> 8 word list" where
  "patch_offset h buf =
     (let pos = nat (mh_num_groups h) * MAX_GROUP_NAME + sizeof_group_id + 4;
          temp = mh_data_len h - (4 + int MAX_GROUP_NAME) - (int sizeof_group_id + 8)
      in take pos buf @ host32 (word_of_int temp) @ drop (pos + 4) buf)"

definition G_send_heavyweight_join ::
  "group \<Rightarrow> string option \<Rightarrow> int \<Rightarrow> 'a sess_st_scheme \<Rightarrow> 'a sess_st_scheme outcome" where
  "G_send_heavyweight_join grp joiner new_mbox s =
     bindE (G_build_memb_vs_buf grp CAUSED_BY_NETWORK joiner s) (\<lambda>(h, buf).
     bindE (fill_message h buf) (\<lambda>m.
     bindE (notify m (filter (\<lambda>b. \<not> (joiner \<noteq> None \<and> new_mbox = b)) (grp_mboxes grp)) s) (\<lambda>s1.
       if new_mbox = -1 then Inr s1
       else bindE (fill_message h (patch_offset h buf)) (\<lambda>m'. notify_mbox m' new_mbox s1))))"

definition G_send_heavyweight_memb :: "group \<Rightarrow> 'a sess_st_scheme \<Rightarrow> 'a sess_st_scheme outcome" where
  "G_send_heavyweight_memb grp s = G_send_heavyweight_join grp None (-1) s"

definition G_send_trans_memb :: "group \<Rightarrow> 'a sess_st_scheme \<Rightarrow> 'a sess_st_scheme outcome" where
  "G_send_trans_memb grp s = notify (G_build_trans_mess grp) (grp_mboxes grp) s"

end
