(* ===== verification/Group_Exchange.thy ===== *)
theory Group_Exchange
  imports Group_Views
begin

section \<open>The exchange of group state\<close>

text \<open>
  Model of the groups messages of \<open>daemon/groups.c\<close>. After a membership that joined daemons, the
  first daemon of every synced set (daemons that agree on the groups) sends the groups of its set in one
  or more buffers: the membership id, a flag for the first buffer with the synced set after it,
  and for each group its name, id, a changed flag and the daemons with their members. A daemon
  is never split over buffers; a group whose daemons do not all fit goes on in the next one.
  The iterators \<open>git\<close> and \<open>dit\<close> of the builder are the groups still to be written and the daemons of
  the first of them still to be written. \<open>f\<close> says that the writer's byte order is foreign to the
  reader; this daemon's own buffers have \<open>f = False\<close>. A read past the end of a message, or of a
  name without a NUL, is \<open>Undefined\<close>.
\<close>

subsection \<open>Building the buffers\<close>

definition GROUPS_BUF_SIZE :: nat where "GROUPS_BUF_SIZE = 100000"
definition GROUPS_BUF_GROUP_INFO_SIZE :: nat where "GROUPS_BUF_GROUP_INFO_SIZE = MAX_GROUP_NAME + 12 + 2 + 2"
definition GROUPS_BUF_DAEMON_INFO_SIZE :: nat where "GROUPS_BUF_DAEMON_INFO_SIZE = 4 + 8 + 2"
definition GROUPS_BUF_PREAMBLE_SIZE :: nat where "GROUPS_BUF_PREAMBLE_SIZE = 8 + 1"
definition MAX_LOCAL_GROUP_MEMBERS :: nat where
  "MAX_LOCAL_GROUP_MEMBERS = (GROUPS_BUF_SIZE - GROUPS_BUF_PREAMBLE_SIZE - GROUPS_BUF_GROUP_INFO_SIZE
     - GROUPS_BUF_DAEMON_INFO_SIZE) div MAX_GROUP_NAME"

lemmas groups_buf_sizes = GROUPS_BUF_SIZE_def GROUPS_BUF_GROUP_INFO_SIZE_def GROUPS_BUF_DAEMON_INFO_SIZE_def
  GROUPS_BUF_PREAMBLE_SIZE_def MAX_LOCAL_GROUP_MEMBERS_def MAX_GROUP_NAME_def sizeof_message_header_def

definition put_memb_id :: "bool \<Rightarrow> membership_id \<Rightarrow> 8 word list" where
  "put_memb_id f m = bytes32 f (mid_proc_id m) @ bytes32 f (word_of_int (mid_time m))"

definition put_group_id :: "bool \<Rightarrow> group_id \<Rightarrow> 8 word list" where
  "put_group_id f g = put_memb_id f (gid_memb_id g) @ bytes32 f (word_of_int (gid_index g))"

text \<open>The entry of a daemon carries the membership id of the group, not its own.\<close>

definition daemon_entry :: "bool \<Rightarrow> membership_id \<Rightarrow> daemon_members \<Rightarrow> 8 word list" where
  "daemon_entry f mid d = bytes32 f (dm_proc_id d) @ put_memb_id f mid
     @ bytes16 f (of_nat (length (dm_members d))) @ concat (map name_bytes (dm_members d))"

fun build_daemons :: "bool \<Rightarrow> membership_id \<Rightarrow> daemon_members list \<Rightarrow> nat
    \<Rightarrow> (8 word list \<times> nat \<times> daemon_members list) outcome" where
  "build_daemons f mid [] num_bytes = Inr ([], 0, [])"
| "build_daemons f mid (d # dit) num_bytes =
     (let size_needed = GROUPS_BUF_DAEMON_INFO_SIZE + length (dm_members d) * MAX_GROUP_NAME + sizeof_message_header
      in if size_needed > GROUPS_BUF_SIZE - num_bytes then Inr ([], 0, d # dit)
         else if unat (of_nat (length (dm_members d)) :: 16 word) \<noteq> length (dm_members d)
         then Inl (Alarm_exit ''G_build_groups_buf'')
         else
           let e = daemon_entry f mid d
           in bindE (build_daemons f mid dit (num_bytes + length e)) (\<lambda>(bs, n, dit').
                Inr (e @ bs, Suc n, dit')))"

definition group_head :: "bool \<Rightarrow> group \<Rightarrow> nat \<Rightarrow> 8 word list" where
  "group_head f g num_dmns = name_bytes (grp_name g) @ put_group_id f (grp_id g)
     @ bytes16 f (if grp_changed g then 1 else 0) @ bytes16 f (of_nat num_dmns)"

fun build_groups :: "bool \<Rightarrow> group list \<Rightarrow> daemon_members list \<Rightarrow> nat
    \<Rightarrow> (8 word list \<times> group list \<times> daemon_members list) outcome" where
  "build_groups f [] dit num_bytes = Inr ([], [], dit)"
| "build_groups f (g # git) dit num_bytes =
     (if GROUPS_BUF_GROUP_INFO_SIZE + sizeof_message_header > GROUPS_BUF_SIZE - num_bytes
      then Inr ([], g # git, dit)
      else
        bindE (build_daemons f (gid_memb_id (grp_id g)) dit (num_bytes + GROUPS_BUF_GROUP_INFO_SIZE))
          (\<lambda>(bs, n, dit').
           let e = group_head f g n @ bs
           in if dit' \<noteq> [] then Inr (e, g # git, dit')
              else bindE (build_groups f git (case git of [] \<Rightarrow> [] | g' # _ \<Rightarrow> grp_daemons g') (num_bytes + length e))
                     (\<lambda>(bs', git', dit''). Inr (e @ bs', git', dit''))))"

definition groups_preamble :: "bool \<Rightarrow> bool \<Rightarrow> membership_id \<Rightarrow> proc_id list \<Rightarrow> 8 word list" where
  "groups_preamble f first mid sset =
     put_memb_id f mid @ [if first then 1 else 0]
       @ (if first then bytes32 f (of_nat (length sset)) @ concat (map (bytes32 f) sset) else [])"

definition G_build_groups_buf :: "bool \<Rightarrow> bool \<Rightarrow> group list \<Rightarrow> daemon_members list \<Rightarrow> 'a groups_st_scheme
    \<Rightarrow> (8 word list \<times> group list \<times> daemon_members list) outcome" where
  "G_build_groups_buf f first_time git dit s =
     (let pre = groups_preamble f first_time (G_Reg_memb_id s) (MySyncedSet s)
      in bindE (build_groups f git dit (length pre)) (\<lambda>(bs, git', dit'). Inr (pre @ bs, git', dit')))"

text \<open>
  The loop of \<open>G_build_new_groups_bufs\<close>, in the order the buffers are built. It goes on until no
  group is left; \<open>Hang\<close> is a loop that writes no daemon any more.
\<close>

fun build_bufs :: "nat \<Rightarrow> bool \<Rightarrow> bool \<Rightarrow> group list \<Rightarrow> daemon_members list \<Rightarrow> 'a groups_st_scheme
    \<Rightarrow> 8 word list list outcome" where
  "build_bufs 0 f first git dit s = Inl (Hang ''G_build_new_groups_bufs'')"
| "build_bufs (Suc n) f first git dit s =
     bindE (G_build_groups_buf f first git dit s) (\<lambda>(buf, git', dit').
       if git' = [] then Inr [buf]
       else bindE (build_bufs n f False git' dit' s) (\<lambda>bufs. Inr (buf # bufs)))"

definition first_daemons :: "group list \<Rightarrow> daemon_members list" where
  "first_daemons git = (case git of [] \<Rightarrow> [] | g # _ \<Rightarrow> grp_daemons g)"

text \<open>How many groups and daemons are still to be written.\<close>

definition to_write :: "group list \<Rightarrow> daemon_members list \<Rightarrow> nat" where
  "to_write git dit = length git + length dit + sum_list (map (\<lambda>g. length (grp_daemons g)) (tl git))"

text \<open>Every buffer is put at the head of the list.\<close>

definition G_build_new_groups_bufs :: "'a groups_st_scheme \<Rightarrow> 'a groups_st_scheme outcome" where
  "G_build_new_groups_bufs s =
     (let git = GroupsList s; dit = first_daemons git
      in bindE (build_bufs (Suc (to_write git dit)) False True git dit s)
           (\<lambda>bufs. Inr (s\<lparr>Groups_bufs := rev bufs @ Groups_bufs s\<rparr>)))"

definition G_stamp_groups_bufs :: "'a groups_st_scheme \<Rightarrow> 'a groups_st_scheme" where
  "G_stamp_groups_bufs s =
     s\<lparr>Groups_bufs := map (\<lambda>b. memb_id_bytes (G_Reg_memb_id s) @ drop 8 b) (Groups_bufs s)\<rparr>"

definition G_discard_groups_bufs :: "'a groups_st_scheme \<Rightarrow> 'a groups_st_scheme" where
  "G_discard_groups_bufs s = s\<lparr>Groups_bufs := []\<rparr>"

subsection \<open>Sending them\<close>

text \<open>
  The size of the synced set is written over the last four bytes of the name; \<open>My.name\<close> has at
  most 20 with its NUL.
\<close>

definition G_build_groups_msg_hdr :: "nat \<Rightarrow> 'a groups_st_scheme \<Rightarrow> message_header" where
  "G_build_groups_msg_hdr groups_bytes s =
     \<lparr>mh_type = Set_endian GROUPS_MESS,
      mh_private_group_name = take (MAX_GROUP_NAME - 4) (name_array (p_name (My s)))
         @ chars_of (host32 (of_nat (length (MySyncedSet s)))),
      mh_num_groups = 0, mh_hint = Set_endian 0, mh_data_len = int groups_bytes\<rparr>"

definition send_groups_buf :: "bool \<Rightarrow> 8 word list \<Rightarrow> 'a groups_st_scheme \<Rightarrow> 'a groups_st_scheme outcome" where
  "send_groups_buf follows buf s =
     (let h = G_build_groups_msg_hdr (length buf) s;
          h' = h\<lparr>mh_type := mh_type h OR (if follows then RELIABLE_MESS else AGREED_MESS)\<rparr>
      in bindE (Message_Buffer_to_Message_Fragments (Message_new_message\<lparr>mo_head := h'\<rparr>) buf)
           (\<lambda>m. Inr (out (Down_message (Message_get_packet_type (mh_type h')) m 0) s)))"

fun send_groups_bufs :: "8 word list list \<Rightarrow> 'a groups_st_scheme \<Rightarrow> 'a groups_st_scheme outcome" where
  "send_groups_bufs [] s = Inr s"
| "send_groups_bufs (b # bs) s = bindE (send_groups_buf (bs \<noteq> []) b s) (send_groups_bufs bs)"

definition G_send_groups_messages :: "'a groups_st_scheme \<Rightarrow> 'a groups_st_scheme outcome" where
  "G_send_groups_messages s = send_groups_bufs (Groups_bufs s) s"

subsection \<open>Reading them\<close>

definition get :: "nat \<Rightarrow> 8 word list \<Rightarrow> (8 word list \<times> 8 word list) outcome" where
  "get n bs = (if n \<le> length bs then Inr (take n bs, drop n bs) else Inl (Undefined ''G_mess_to_groups''))"

definition get32 :: "bool \<Rightarrow> 8 word list \<Rightarrow> (32 word \<times> 8 word list) outcome" where
  "get32 f bs = bindE (get 4 bs) (\<lambda>(b, r). Inr (order32 f (read32 b), r))"

definition get16 :: "bool \<Rightarrow> 8 word list \<Rightarrow> (16 word \<times> 8 word list) outcome" where
  "get16 f bs = bindE (get 2 bs) (\<lambda>(b, r). Inr (order16 f (read16 b), r))"

definition get_name :: "8 word list \<Rightarrow> (string \<times> 8 word list) outcome" where
  "get_name bs = bindE (get MAX_GROUP_NAME bs) (\<lambda>(b, r).
     if NUL \<in> set (chars_of b) then Inr (cstr (chars_of b), r) else Inl (Undefined ''G_mess_to_groups''))"

definition get_memb_id :: "bool \<Rightarrow> 8 word list \<Rightarrow> (membership_id \<times> 8 word list) outcome" where
  "get_memb_id f bs = bindE (get32 f bs) (\<lambda>(p, r). bindE (get32 f r) (\<lambda>(t, r').
     Inr (\<lparr>mid_proc_id = p, mid_time = sint t\<rparr>, r')))"

definition get_group_id :: "bool \<Rightarrow> 8 word list \<Rightarrow> (group_id \<times> 8 word list) outcome" where
  "get_group_id f bs = bindE (get_memb_id f bs) (\<lambda>(m, r). bindE (get32 f r) (\<lambda>(i, r').
     Inr (\<lparr>gid_memb_id = m, gid_index = sint i\<rparr>, r')))"

text \<open>\<open>get_many n\<close>: \<open>n\<close> items in a row.\<close>

fun get_many :: "nat \<Rightarrow> (8 word list \<Rightarrow> ('x \<times> 8 word list) outcome) \<Rightarrow> 8 word list \<Rightarrow> ('x list \<times> 8 word list) outcome" where
  "get_many 0 p bs = Inr ([], bs)"
| "get_many (Suc n) p bs = bindE (p bs) (\<lambda>(x, r). bindE (get_many n p r) (\<lambda>(xs, r'). Inr (x # xs, r')))"

definition get_daemon :: "bool \<Rightarrow> 8 word list \<Rightarrow> (daemon_members \<times> 8 word list) outcome" where
  "get_daemon f bs = bindE (get32 f bs) (\<lambda>(i, r1). bindE (get_memb_id f r1) (\<lambda>(m, r2).
     bindE (get16 f r2) (\<lambda>(n, r3). bindE (get_many (unat n) get_name r3) (\<lambda>(names, r4).
     Inr (\<lparr>dm_proc_id = i, dm_memb_id = m, dm_members = names\<rparr>, r4)))))"

text \<open>What a message says of a group.\<close>

record group_info =
  gi_name :: string
  gi_id :: group_id
  gi_changed :: bool
  gi_daemons :: "daemon_members list"

text \<open>The changed flag is tested for zero without being flipped.\<close>

definition get_group_info :: "bool \<Rightarrow> 8 word list \<Rightarrow> (group_info \<times> 8 word list) outcome" where
  "get_group_info f bs = bindE (get_name bs) (\<lambda>(name, r1). bindE (get_group_id f r1) (\<lambda>(g, r2).
     bindE (get16 False r2) (\<lambda>(c, r3). bindE (get16 f r3) (\<lambda>(n, r4).
     bindE (get_many (unat n) (get_daemon f) r4) (\<lambda>(ds, r5).
     Inr (\<lparr>gi_name = name, gi_id = g, gi_changed = (c \<noteq> 0), gi_daemons = ds\<rparr>, r5))))))"

fun get_groups :: "nat \<Rightarrow> bool \<Rightarrow> 8 word list \<Rightarrow> group_info list outcome" where
  "get_groups n f [] = Inr []"
| "get_groups 0 f (b # bs) = Inl (Hang ''G_mess_to_groups'')"
| "get_groups (Suc n) f (b # bs) =
     bindE (get_group_info f (b # bs)) (\<lambda>(g, r). bindE (get_groups n f r) (\<lambda>gs. Inr (g # gs)))"

text \<open>The synced set, if it is the first message, and the groups.\<close>

definition read_groups_data :: "bool \<Rightarrow> 8 word list \<Rightarrow> (proc_id list option \<times> group_info list) outcome" where
  "read_groups_data f bs = bindE (get 8 bs) (\<lambda>(_, r1). bindE (get 1 r1) (\<lambda>(flag, r2).
     bindE (if flag ! 0 = 1
            then bindE (get32 f r2) (\<lambda>(n, r3).
                   if n > word_of_int MAX_PROCS_RING then Inl (Undefined ''G_mess_to_groups'')
                   else bindE (get_many (unat n) (get32 f) r3) (\<lambda>(ps, r4). Inr (Some ps, r4)))
            else Inr (None, r2)) (\<lambda>(sset, r).
     bindE (get_groups (length r) f r) (\<lambda>gs. Inr (sset, gs)))))"

subsection \<open>Taking the groups over\<close>

text \<open>
  Members are put with the hint \<open>end\<close>: a name equal to the last one is linked in again (see
  \<open>hinted_put_duplicates\<close>).
\<close>

definition put_member_at_end :: "string \<Rightarrow> string list \<Rightarrow> string list" where
  "put_member_at_end name ms = (if ms \<noteq> [] \<and> last ms = name then ms @ [name] else skl_put id name ms)"

definition absorb_daemon :: "daemon_members \<Rightarrow> group \<Rightarrow> 'a conf_st_scheme \<Rightarrow> group outcome" where
  "absorb_daemon d grp s =
     (let d' = d\<lparr>dm_members := foldl (\<lambda>ms n. put_member_at_end n ms) [] (dm_members d)\<rparr>
      in bindE (put_daemon d' grp s) (\<lambda>g.
           Inr (g\<lparr>grp_changed := (grp_changed g \<or> \<not> Memb_is_equal (dm_memb_id d) (gid_memb_id (grp_id g))),
                  grp_num_members := grp_num_members g + int (length (dm_members d))\<rparr>)))"

definition new_group :: "string \<Rightarrow> group_id \<Rightarrow> group" where
  "new_group name gid = \<lparr>grp_name = name, grp_id = gid, grp_changed = False, grp_num_members = 0,
     grp_daemons = [], grp_mboxes = []\<rparr>"

definition absorb_group :: "group_info \<Rightarrow> 'a groups_st_scheme \<Rightarrow> 'a groups_st_scheme outcome" where
  "absorb_group gi s =
     (let (grp, s1) = (case G_get_group (gi_name gi) s of
             Some g \<Rightarrow> (g, s)
           | None \<Rightarrow> (new_group (gi_name gi) (gi_id gi), s\<lparr>Num_groups := Num_groups s + 1\<rparr>));
          grp1 = (if gi_changed gi then grp\<lparr>grp_changed := True\<rparr> else grp)
      in bindE (for_each (\<lambda>d g. absorb_daemon d g s1) (gi_daemons gi) grp1) (\<lambda>grp2. Inr (put_group grp2 s1)))"

definition G_mess_to_groups ::
  "message_obj \<Rightarrow> proc_id list option \<Rightarrow> 'a groups_st_scheme \<Rightarrow> (proc_id list option \<times> 'a groups_st_scheme) outcome" where
  "G_mess_to_groups m sset s =
     (if length (concat (elements m)) > 100000 then Inl (Undefined ''G_mess_to_groups'')
      else bindE (read_groups_data (\<not> Same_endian (mh_type (mo_head m))) (concat (mo_data m))) (\<lambda>(ps, gis).
           bindE (for_each absorb_group gis s) (\<lambda>s'. Inr (if ps = None then sset else ps, s'))))"

end
