(* ===== verification/Group_Handlers.thy ===== *)
theory Group_Handlers
  imports Group_Exchange Protocol
begin

section \<open>The handlers of the process groups\<close>

text \<open>
  Model of the handlers of \<open>daemon/groups.c\<close>: memberships of the daemons, joins, leaves and
  disconnects of processes, groups messages, and the target sessions of a message. In \<open>GOP\<close> all
  daemons of the membership agree on the groups; a transitional membership leads to \<open>GTRANS\<close>, a
  regular one back to \<open>GOP\<close> when it only lost daemons, and else to \<open>GGATHER\<close>, where groups messages are
  gathered; a transitional membership met there leads to \<open>GGT\<close>. A loop over \<open>GroupsList\<close> goes over
  the groups it held at its start; its body changes only the group it is at. \<open>SPLOG_FATAL\<close> ends
  the daemon like \<open>EXIT\<close>. The group masks are not used by the protocol the daemon is built with.
\<close>

subsection \<open>Thresholds\<close>

definition MEDIUM_PRIORITY :: int where "MEDIUM_PRIORITY = 1"

definition Sess_set_active_threshold :: "'a sess_st_scheme \<Rightarrow> 'a sess_st_scheme" where
  "Sess_set_active_threshold s =
     (if Protocol_threshold s > Session_threshold s then out (Active_threshold (Protocol_threshold s)) s
      else out (Active_threshold (Session_threshold s)) s)"

definition Sess_block_users_level :: "'a sess_st_scheme \<Rightarrow> 'a sess_st_scheme" where
  "Sess_block_users_level s =
     (if Protocol_threshold s < MEDIUM_PRIORITY
      then Sess_set_active_threshold (s\<lparr>Protocol_threshold := MEDIUM_PRIORITY\<rparr>) else s)"

definition Sess_unblock_users_level :: "'a sess_st_scheme \<Rightarrow> 'a sess_st_scheme" where
  "Sess_unblock_users_level s =
     (if Protocol_threshold s > LOW_PRIORITY
      then Sess_set_active_threshold (s\<lparr>Protocol_threshold := LOW_PRIORITY\<rparr>) else s)"

subsection \<open>Start\<close>

definition G_init :: "'a groups_st_scheme \<Rightarrow> 'a groups_st_scheme" where
  "G_init s = s\<lparr>Num_groups := 0, MySyncedSet := [my_id s], GroupsList := [], Groups_bufs := [],
     Groups_bufs_fresh := False, Num_mess_gathered := 0, Num_daemons_gathered := 0,
     gathered_complete := False, Gathered := [], Gstate := GOP\<rparr>"

subsection \<open>Regular memberships\<close>

text \<open>A changed group loses its partitioned daemons, and is removed when no member is left.\<close>

definition drop_partitioned ::
  "(group \<Rightarrow> 'a groups_st_scheme \<Rightarrow> 'a groups_st_scheme outcome) \<Rightarrow> group \<Rightarrow> 'a groups_st_scheme
   \<Rightarrow> 'a groups_st_scheme outcome" where
  "drop_partitioned f grp s =
     (if \<not> grp_changed grp then Inr s
      else bindE (G_eliminate_partitioned_daemons grp s) (\<lambda>g.
        if grp_num_members g = 0 then G_remove_group g s else f g s))"

definition settle_group :: "group \<Rightarrow> 'a groups_st_scheme \<Rightarrow> 'a groups_st_scheme outcome" where
  "settle_group grp s =
     (let g = G_update_daemon_memb_ids
                (grp\<lparr>grp_id := \<lparr>gid_memb_id = G_Reg_memb_id s, gid_index = 1\<rparr>, grp_changed := False\<rparr>);
          s1 = put_group g s
      in if grp_mboxes g \<noteq> [] then G_send_heavyweight_memb g s1 else Inr s1)"

definition reg_memb_in_gtrans :: "'a groups_st_scheme \<Rightarrow> 'a groups_st_scheme outcome" where
  "reg_memb_in_gtrans s =
     (if Conf_num_procs (G_Trans_memb s) = Conf_num_procs (G_Reg_memb s)
      then bindE (for_each (drop_partitioned settle_group) (GroupsList s) s) (\<lambda>s1. Inr (s1\<lparr>Gstate := GOP\<rparr>))
      else
        bindE (for_each (drop_partitioned (\<lambda>g s. Inr (put_group g s))) (GroupsList s) s) (\<lambda>s1.
          let s2 = out (Down_queue_set GROUPS_DOWNQUEUE)
                     (Sess_set_active_threshold (s1\<lparr>Session_threshold := MEDIUM_PRIORITY\<rparr>))
          in bindE (if Is_synced_set_leader (my_id s2) s2
                    then bindE (G_build_new_groups_bufs s2) (\<lambda>s3.
                           G_send_groups_messages (s3\<lparr>Groups_bufs_fresh := True\<rparr>))
                    else Inr s2)
               (\<lambda>s3. Inr (s3\<lparr>Gstate := GGATHER\<rparr>))))"

text \<open>
  The messages gathered from another synced set are taken over, then the set. \<open>sset\<close> is a local
  variable that a message with a synced set sets (\<open>None\<close>: not set yet).
\<close>

definition take_link ::
  "groups_message_link \<Rightarrow> proc_id list option \<times> 'a groups_st_scheme
   \<Rightarrow> (proc_id list option \<times> 'a groups_st_scheme) outcome" where
  "take_link gm x =
     bindE (for_each (\<lambda>m (sset, s). G_mess_to_groups m sset s) (gm_messages gm) x) (\<lambda>(sset, s).
       case sset of
         None \<Rightarrow> Inl (Undefined ''sset'')
       | Some ps \<Rightarrow> bindE (G_add_to_synced_set ps s) (\<lambda>s'. Inr (sset, s')))"

text \<open>In \<open>GGT\<close> only complete sets are taken, and only if this daemon's own is complete.\<close>

definition take_complete ::
  "groups_message_link \<Rightarrow> proc_id list option \<times> 'a groups_st_scheme
   \<Rightarrow> (proc_id list option \<times> 'a groups_st_scheme) outcome" where
  "take_complete gm x =
     (let (sset, s) = x
      in if gathered_complete s \<and> gm_complete gm
         then take_link gm (sset, if gm_messages gm \<noteq> [] then s\<lparr>Groups_bufs_fresh := False\<rparr> else s)
         else Inr x)"

definition shed_group :: "group \<Rightarrow> 'a groups_st_scheme \<Rightarrow> 'a groups_st_scheme outcome" where
  "shed_group grp s =
     bindE (G_eliminate_partitioned_daemons_status grp s) (\<lambda>(changed, g).
       if \<not> changed then Inr s
       else let s1 = s\<lparr>Groups_bufs_fresh := False\<rparr>
            in if grp_num_members g = 0 then G_remove_group g s1
               else Inr (put_group (g\<lparr>grp_changed := True\<rparr>) s1))"

definition reg_memb_in_ggt :: "'a groups_st_scheme \<Rightarrow> 'a groups_st_scheme outcome" where
  "reg_memb_in_ggt s =
     bindE (for_each take_complete (Gathered s) (None, s)) (\<lambda>(sset, s0).
       let s1 = s0\<lparr>Gathered := []\<rparr>
       in bindE (for_each shed_group (GroupsList s1) s1) (\<lambda>s2.
            let (changed, mine) = G_update_synced_set_status (MySyncedSet s2) (G_Trans_memb s2) s2;
                s3 = s2\<lparr>MySyncedSet := mine, Groups_bufs_fresh := (Groups_bufs_fresh s2 \<and> \<not> changed),
                        gathered_complete := False, Num_mess_gathered := 0, Num_daemons_gathered := 0\<rparr>
            in bindE (if Is_synced_set_leader (my_id s3) s3
                      then bindE (if Groups_bufs_fresh s3 then Inr (G_stamp_groups_bufs s3)
                                  else bindE (G_build_new_groups_bufs (G_discard_groups_bufs s3))
                                         (\<lambda>s4. Inr (s4\<lparr>Groups_bufs_fresh := True\<rparr>)))
                             G_send_groups_messages
                      else Inr s3)
                 (\<lambda>s5. Inr (s5\<lparr>Gstate := GGATHER\<rparr>))))"

definition G_handle_reg_memb ::
  "configuration \<Rightarrow> membership_id \<Rightarrow> 'a groups_st_scheme \<Rightarrow> 'a groups_st_scheme outcome" where
  "G_handle_reg_memb reg_memb reg_memb_id s =
     (let s1 = s\<lparr>G_Reg_memb := reg_memb, G_Reg_memb_id := reg_memb_id\<rparr>
      in case Gstate s of
           GTRANS \<Rightarrow> reg_memb_in_gtrans s1
         | GGT \<Rightarrow> reg_memb_in_ggt s1
         | _ \<Rightarrow> Inl (Alarm_exit ''G_handle_reg_memb''))"

subsection \<open>Transitional memberships\<close>

definition mark_partitioned :: "'a groups_st_scheme \<Rightarrow> daemon_members \<Rightarrow> daemon_members" where
  "mark_partitioned s d = (if in_trans (dm_proc_id d) s then d else d\<lparr>dm_memb_id := unknown_memb_id\<rparr>)"

definition trans_group :: "group \<Rightarrow> 'a groups_st_scheme \<Rightarrow> 'a groups_st_scheme outcome" where
  "trans_group grp s =
     (if list_all (\<lambda>d. in_trans (dm_proc_id d) s) (grp_daemons grp) then Inr s
      else
        let g = grp\<lparr>grp_daemons := map (mark_partitioned s) (grp_daemons grp)\<rparr>
        in bindE (if grp_mboxes g \<noteq> [] then G_send_trans_memb g s else Inr s) (\<lambda>s1.
             Inr (put_group (G_update_daemon_memb_ids
               (g\<lparr>grp_id := \<lparr>gid_memb_id = G_Trans_memb_id s, gid_index = 1\<rparr>, grp_changed := True\<rparr>)) s1)))"

definition cascade_group :: "group \<Rightarrow> 'a groups_st_scheme \<Rightarrow> 'a groups_st_scheme" where
  "cascade_group grp s =
     (if G_check_if_changed_by_cascade grp s then put_group (grp\<lparr>grp_changed := True\<rparr>) s else s)"

definition G_handle_trans_memb ::
  "configuration \<Rightarrow> membership_id \<Rightarrow> 'a groups_st_scheme \<Rightarrow> 'a groups_st_scheme outcome" where
  "G_handle_trans_memb trans_memb trans_memb_id s =
     (let s1 = s\<lparr>G_Trans_memb := trans_memb, G_Trans_memb_id := trans_memb_id\<rparr>
      in case Gstate s of
           GOP \<Rightarrow> bindE (for_each trans_group (GroupsList s1) s1) (\<lambda>s2.
                    Inr (s2\<lparr>Gstate := GTRANS,
                            MySyncedSet := G_update_synced_set (MySyncedSet s2) (G_Trans_memb s2) s2\<rparr>))
         | GGATHER \<Rightarrow> Inr ((foldl (\<lambda>s g. cascade_group g s) s1 (GroupsList s1))\<lparr>Gstate := GGT\<rparr>)
         | _ \<Rightarrow> Inl (Alarm_exit ''G_handle_trans_memb''))"

subsection \<open>Joins\<close>

definition names_of :: "string \<Rightarrow> (string \<times> string) outcome" where
  "names_of private_group_name = bindE (G_private_to_names private_group_name) (\<lambda>r.
     case r of Some ns \<Rightarrow> Inr ns | None \<Rightarrow> Inl (Undefined ''proc_name''))"

definition in_op_or_trans :: "'a groups_st_scheme \<Rightarrow> bool" where
  "in_op_or_trans s \<longleftrightarrow> Gstate s = GOP \<or> Gstate s = GTRANS"

text \<open>The group joined; a new one is put into the list. Its name must fit its array.\<close>

definition group_to_join :: "string \<Rightarrow> 'a groups_st_scheme \<Rightarrow> (group \<times> 'a groups_st_scheme) outcome" where
  "group_to_join group_name s =
     (case G_get_group group_name s of
        Some g \<Rightarrow> Inr (g, s)
      | None \<Rightarrow>
          if length group_name \<ge> MAX_GROUP_NAME then Inl (Undefined ''G_handle_join'')
          else
            let mid = (if Gstate s = GOP then G_Reg_memb_id s else G_Trans_memb_id s);
                g = new_group group_name \<lparr>gid_memb_id = mid, gid_index = 0\<rparr>
            in Inr (g, (put_group g s)\<lparr>Num_groups := Num_groups s + 1\<rparr>))"

definition daemon_to_join :: "group \<Rightarrow> proc_id \<Rightarrow> 'a groups_st_scheme \<Rightarrow> (daemon_members \<times> group) outcome" where
  "daemon_to_join grp i s =
     bindE (G_get_daemon grp i s) (\<lambda>r.
       case r of
         Some d \<Rightarrow> Inr (d, grp)
       | None \<Rightarrow>
           let d = \<lparr>dm_proc_id = i,
                    dm_memb_id = (if Gstate s = GOP \<or> in_trans i s then gid_memb_id (grp_id grp) else unknown_memb_id),
                    dm_members = []\<rparr>
           in bindE (put_daemon d grp s) (\<lambda>grp'. Inr (d, grp')))"

definition set_daemon :: "daemon_members \<Rightarrow> group \<Rightarrow> 'a conf_st_scheme \<Rightarrow> group" where
  "set_daemon d grp s = grp\<lparr>grp_daemons := skl_put (dkey (Config_procs s)) d (grp_daemons grp)\<rparr>"

definition local_mbox :: "string \<Rightarrow> 'a sess_st_scheme \<Rightarrow> int outcome" where
  "local_mbox private_name s =
     (let ses = Sess_get_session private_name s
      in if ses < 0 then Inl (Alarm_exit ''G_handle_join'') else Inr (ses_mbox (ses_at s (nat ses))))"

definition add_member ::
  "string \<Rightarrow> string \<Rightarrow> daemon_members \<Rightarrow> group \<Rightarrow> 'a groups_st_scheme \<Rightarrow> (int \<times> group) outcome" where
  "add_member private_group_name private_name d grp s =
     (let d' = d\<lparr>dm_members := skl_put id private_group_name (dm_members d)\<rparr>;
          g = (set_daemon d' grp s)\<lparr>grp_num_members := grp_num_members grp + 1,
                grp_id := (grp_id grp)\<lparr>gid_index := gid_index (grp_id grp) + 1\<rparr>,
                grp_changed := (grp_changed grp \<or> Is_partitioned_daemon d)\<rparr>
      in if dm_proc_id d = my_id s
         then bindE (local_mbox private_name s) (\<lambda>b. Inr (b, g\<lparr>grp_mboxes := grp_mboxes g @ [b]\<rparr>))
         else Inr (-1, g))"

definition tell_of_join ::
  "string \<Rightarrow> int \<Rightarrow> group \<Rightarrow> 'a groups_st_scheme \<Rightarrow> 'a groups_st_scheme outcome" where
  "tell_of_join private_group_name new_mbox grp s =
     (if grp_mboxes grp = [] then Inr s
      else if grp_changed grp
      then bindE (G_send_heavyweight_join grp (Some private_group_name) new_mbox s) (G_send_trans_memb grp)
      else G_send_lightweight_memb grp CAUSED_BY_JOIN private_group_name s)"

definition G_handle_join :: "string \<Rightarrow> string \<Rightarrow> 'a groups_st_scheme \<Rightarrow> 'a groups_st_scheme outcome" where
  "G_handle_join private_group_name group_name s =
     (if \<not> in_op_or_trans s then Inl (Alarm_exit ''G_handle_join'')
      else bindE (names_of private_group_name) (\<lambda>(private_name, proc_name).
        case Conf_proc_by_name (Config_procs s) proc_name of
          None \<Rightarrow> Inr s
        | Some (_, new_p) \<Rightarrow>
            bindE (group_to_join group_name s) (\<lambda>(grp, s1).
            bindE (daemon_to_join grp (p_id new_p) s1) (\<lambda>(d, grp1).
              if G_get_member d private_group_name \<noteq> None then Inr (put_group grp1 s1)
              else bindE (add_member private_group_name private_name d grp1 s1) (\<lambda>(new_mbox, grp2).
                     tell_of_join private_group_name new_mbox grp2 (put_group grp2 s1))))))"

subsection \<open>Leaves and disconnects\<close>

text \<open>A member is taken out of its daemon, and an emptied daemon out of the group.\<close>

definition extract_member :: "string \<Rightarrow> daemon_members \<Rightarrow> group \<Rightarrow> 'a conf_st_scheme \<Rightarrow> group outcome" where
  "extract_member name d grp s =
     (let d' = d\<lparr>dm_members := skl_del id name (dm_members d)\<rparr>;
          g = (set_daemon d' grp s)\<lparr>grp_num_members := grp_num_members grp - 1\<rparr>
      in if dm_members d' = [] then G_remove_daemon g d' s else Inr g)"

text \<open>What both handlers do with the group then.\<close>

definition after_departure ::
  "32 word \<Rightarrow> string \<Rightarrow> group \<Rightarrow> 'a groups_st_scheme \<Rightarrow> 'a groups_st_scheme outcome" where
  "after_departure caused name grp s =
     (if grp_num_members grp = 0 then G_remove_group grp s
      else
        let g = grp\<lparr>grp_id := (grp_id grp)\<lparr>gid_index := gid_index (grp_id grp) + 1\<rparr>\<rparr>;
            s1 = put_group g s
        in if grp_mboxes g = [] then Inr s1
           else if grp_changed g then bindE (G_send_heavyweight_memb g s1) (G_send_trans_memb g)
           else G_send_lightweight_memb g caused name s1)"

definition leave_locally ::
  "string \<Rightarrow> group \<Rightarrow> 'a groups_st_scheme \<Rightarrow> (group \<times> 'a groups_st_scheme) outcome" where
  "leave_locally private_name grp s =
     (let ses = Sess_get_session private_name s
      in if ses < 0 then Inl (Alarm_exit ''G_handle_leave'')
         else bindE (G_send_self_leave grp ses s) (\<lambda>s1.
                bindE (G_remove_mailbox grp (ses_mbox (ses_at s1 (nat ses)))) (\<lambda>g. Inr (g, s1))))"

definition G_handle_leave :: "string \<Rightarrow> string \<Rightarrow> 'a groups_st_scheme \<Rightarrow> 'a groups_st_scheme outcome" where
  "G_handle_leave private_group_name group_name s =
     (if \<not> in_op_or_trans s then Inl (Alarm_exit ''G_handle_leave'')
      else bindE (names_of private_group_name) (\<lambda>(private_name, proc_name).
        case Conf_proc_by_name (Config_procs s) proc_name of
          None \<Rightarrow> Inr s
        | Some (_, p) \<Rightarrow>
            (case G_get_group group_name s of
               None \<Rightarrow> Inr s
             | Some grp \<Rightarrow>
                 bindE (G_get_daemon grp (p_id p) s) (\<lambda>dm.
                   case dm of
                     None \<Rightarrow> Inr s
                   | Some d \<Rightarrow>
                       if G_get_member d private_group_name = None then Inr s
                       else
                         bindE (if p_id p = my_id s then leave_locally private_name grp s else Inr (grp, s))
                           (\<lambda>(grp1, s1).
                         bindE (extract_member private_group_name d grp1 s1) (\<lambda>grp2.
                           after_departure CAUSED_BY_LEAVE private_group_name grp2 s1))))))"

text \<open>One group of \<open>G_handle_kill\<close>; \<open>ses\<close> is the session found at the start, unchecked.\<close>

definition kill_in_group ::
  "string \<Rightarrow> proc_id \<Rightarrow> int \<Rightarrow> group \<Rightarrow> 'a groups_st_scheme \<Rightarrow> 'a groups_st_scheme outcome" where
  "kill_in_group private_group_name i ses grp s =
     bindE (G_get_daemon grp i s) (\<lambda>dm.
       case dm of
         None \<Rightarrow> Inr s
       | Some d \<Rightarrow>
           if G_get_member d private_group_name = None then Inr s
           else
             bindE (if i \<noteq> my_id s then Inr grp
                    else if ses < 0 then Inl (Undefined ''Sessions'')
                    else G_remove_mailbox grp (ses_mbox (ses_at s (nat ses)))) (\<lambda>grp1.
             bindE (extract_member private_group_name d grp1 s) (\<lambda>grp2.
               after_departure CAUSED_BY_DISCONNECT private_group_name grp2 s)))"

definition G_handle_kill :: "string \<Rightarrow> 'a groups_st_scheme \<Rightarrow> 'a groups_st_scheme outcome" where
  "G_handle_kill private_group_name s =
     (if \<not> in_op_or_trans s then Inl (Alarm_exit ''G_handle_kill'')
      else bindE (names_of private_group_name) (\<lambda>(private_name, proc_name).
        case Conf_proc_by_name (Config_procs s) proc_name of
          None \<Rightarrow> Inr s
        | Some (_, p) \<Rightarrow>
            let ses = (if p_id p = my_id s then Sess_get_session private_name s else -1)
            in for_each (kill_in_group private_group_name (p_id p) ses) (GroupsList s) s))"

subsection \<open>Groups messages\<close>

definition memb_id_at :: "bool \<Rightarrow> 8 word list \<Rightarrow> membership_id" where
  "memb_id_at f bs = \<lparr>mid_proc_id = order32 f (read32 bs), mid_time = sint (order32 f (read32 (drop 4 bs)))\<rparr>"

text \<open>A message joins those of its sender, which make the head of the list if there are none.\<close>

fun file_message :: "proc_id \<Rightarrow> message_obj \<Rightarrow> groups_message_link list \<Rightarrow> groups_message_link list option" where
  "file_message i m [] = None"
| "file_message i m (gm # gms) =
     (if gm_rep_proc_id gm = i then Some (gm\<lparr>gm_messages := m # gm_messages gm\<rparr> # gms)
      else map_option (\<lambda>r. gm # r) (file_message i m gms))"

definition gather_message :: "proc_id \<Rightarrow> message_obj \<Rightarrow> 'a groups_st_scheme \<Rightarrow> 'a groups_st_scheme" where
  "gather_message i m s =
     (if Is_synced_set_leader i s then s
      else case file_message i m (Gathered s) of
             Some gms \<Rightarrow> s\<lparr>Gathered := gms\<rparr>
           | None \<Rightarrow> s\<lparr>Gathered := \<lparr>gm_rep_proc_id = i, gm_complete = False, gm_messages = [m]\<rparr> # Gathered s\<rparr>)"

text \<open>The last message of a synced set completes it and says how many daemons it stands for.\<close>

definition complete_set :: "proc_id \<Rightarrow> int \<Rightarrow> 'a groups_st_scheme \<Rightarrow> 'a groups_st_scheme" where
  "complete_set i n s =
     (let s1 = s\<lparr>Num_daemons_gathered := signed_take_bit 31 (Num_daemons_gathered s + n)\<rparr>
      in if Is_synced_set_leader i s then s1\<lparr>gathered_complete := True\<rparr>
         else s1\<lparr>Gathered := map (\<lambda>gm. if gm_rep_proc_id gm = i then gm\<lparr>gm_complete := True\<rparr> else gm) (Gathered s1)\<rparr>)"

definition announce_group :: "group \<Rightarrow> 'a groups_st_scheme \<Rightarrow> 'a groups_st_scheme outcome" where
  "announce_group grp s =
     (if \<not> grp_changed grp then Inr s
      else
        let g = grp\<lparr>grp_id := \<lparr>gid_memb_id = G_Reg_memb_id s, gid_index = 1\<rparr>, grp_changed := False\<rparr>
        in bindE (if grp_mboxes g \<noteq> [] then G_send_heavyweight_memb g s else Inr s)
             (\<lambda>s1. Inr (put_group (G_update_daemon_memb_ids g) s1)))"

definition G_compute_and_notify :: "'a groups_st_scheme \<Rightarrow> 'a groups_st_scheme outcome" where
  "G_compute_and_notify s =
     bindE (for_each take_link (Gathered s) (None, s)) (\<lambda>(sset, s0).
       let s1 = s0\<lparr>Gathered := []\<rparr>
       in bindE (for_each announce_group (GroupsList s1) s1) (\<lambda>s2.
            Inr ((G_discard_groups_bufs s2)\<lparr>gathered_complete := False, Num_mess_gathered := 0,
                   Num_daemons_gathered := 0, Groups_bufs_fresh := False\<rparr>)))"

definition finish_gathering :: "'a groups_st_scheme \<Rightarrow> 'a groups_st_scheme outcome" where
  "finish_gathering s =
     (let s1 = Sess_set_active_threshold ((out (Down_queue_set NORMAL_DOWNQUEUE) s)\<lparr>Session_threshold := LOW_PRIORITY\<rparr>)
      in bindE (G_compute_and_notify s1) (\<lambda>s2.
           if Gstate s = GGATHER then Inr (s2\<lparr>Gstate := GOP\<rparr>)
           else G_handle_trans_memb (G_Trans_memb s2) (G_Trans_memb_id s2) (s2\<lparr>Gstate := GOP\<rparr>)))"

definition G_handle_groups :: "message_obj \<Rightarrow> 'a groups_st_scheme \<Rightarrow> 'a groups_st_scheme outcome" where
  "G_handle_groups m s =
     (if in_op_or_trans s then Inl (Alarm_exit ''G_handle_groups'')
      else
        let h = mo_head m; f = (\<not> Same_endian (mh_type h)); bs = Message_get_first_data_ptr m;
            name = mh_private_group_name h
        in if length bs < 8 then Inl (Undefined ''G_handle_groups'')
           else if \<not> Memb_is_equal (memb_id_at f bs) (G_Reg_memb_id s) then Inr s
           else if NUL \<notin> set name then Inl (Undefined ''G_handle_groups'')
           else case Conf_proc_by_name (Config_procs s) (cstr name) of
                  None \<Rightarrow> Inr s
                | Some (_, p) \<Rightarrow>
                    let s1 = gather_message (p_id p) m s;
                        s2 = s1\<lparr>Num_mess_gathered := Num_mess_gathered s1 + 1\<rparr>;
                        n = order32 f (read32 (map of_char (drop (MAX_GROUP_NAME - 4) name)));
                        s3 = (if Is_agreed_mess (mh_type h) then complete_set (p_id p) (uint n) s2 else s2)
                    in if Num_daemons_gathered s3 \<noteq> Conf_num_procs (G_Reg_memb s3) then Inr s3
                       else finish_gathering s3)"

subsection \<open>The sessions a message goes to\<close>

text \<open>The mailboxes of one target: \<open>None\<close> when it has none here.\<close>

definition target_mboxes :: "string \<Rightarrow> 'a groups_st_scheme \<Rightarrow> int list option outcome" where
  "target_mboxes target s =
     (if target = [] \<or> hd target \<noteq> CHR ''#'' then
        (case G_get_group target s of
           None \<Rightarrow> Inr None
         | Some grp \<Rightarrow> if in_op_or_trans s then Inr (Some (grp_mboxes grp)) else Inl (Alarm_exit ''G_analize_groups''))
      else bindE (G_private_to_names target) (\<lambda>r.
        case r of
          None \<Rightarrow> Inr None
        | Some (private_name, proc_name) \<Rightarrow>
            let ses = Sess_get_session private_name s
            in if p_name (My s) \<noteq> proc_name \<or> ses < 0 then Inr None
               else Inr (Some [ses_mbox (ses_at s (nat ses))])))"

definition merge_mboxes :: "int list \<Rightarrow> int list \<Rightarrow> int list outcome" where
  "merge_mboxes mboxes litbox =
     (let r = (if mboxes = [] then litbox
               else mboxes @ filter (\<lambda>b. b \<notin> set mboxes) litbox)
      in if length r > MAX_SESSIONS then Inl (Undefined ''mboxes'') else Inr r)"

definition G_analize_groups :: "string list \<Rightarrow> 'a groups_st_scheme \<Rightarrow> int list outcome" where
  "G_analize_groups target_groups s =
     bindE (case target_groups of
              [t] \<Rightarrow> bindE (target_mboxes t s) (\<lambda>r. Inr (case r of None \<Rightarrow> [] | Some bs \<Rightarrow> bs))
            | _ \<Rightarrow> for_each (\<lambda>t mboxes. bindE (target_mboxes t s) (\<lambda>r.
                     case r of None \<Rightarrow> Inr mboxes | Some bs \<Rightarrow> merge_mboxes mboxes bs)) target_groups [])
       (\<lambda>mboxes. Inr (map (\<lambda>b. Sess_get_session_index b s) mboxes))"

end
