(* ===== verification/Group_Frame.thy ===== *)
theory Group_Frame
  imports Group_Handlers
begin

section \<open>What telling the clients leaves alone\<close>

text \<open>
  Writing to clients changes neither the table of sessions nor any group: \<open>only_io\<close>. It always
  returns when the sessions told are in the table and no two of them share a mailbox; the
  messages about a group can be built when the group is in order and not too large.
\<close>

subsection \<open>Writing\<close>

definition table_entry :: "session \<Rightarrow> string \<times> int" where
  "table_entry e = (ses_name e, ses_mbox e)"

definition only_io :: "'a sess_st_scheme \<Rightarrow> 'a sess_st_scheme \<Rightarrow> bool" where
  "only_io s s' \<longleftrightarrow> (\<exists>ss n es. s' = s\<lparr>Sessions := ss, send_calls := n, sess_out := es\<rparr>
     \<and> map table_entry ss = map table_entry (Sessions s))"

text \<open>Descriptors of the sessions in the table are not shared.\<close>

definition own_mailboxes :: "'a sess_st_scheme \<Rightarrow> bool" where
  "own_mailboxes s \<longleftrightarrow> inj_on (\<lambda>i. ses_mbox (ses_at s i)) (set (Sess_order s))"

lemma only_ioI: "s' = s\<lparr>Sessions := ss, send_calls := n, sess_out := es\<rparr> \<Longrightarrow>
    map table_entry ss = map table_entry (Sessions s) \<Longrightarrow> only_io s s'"
  unfolding only_io_def by blast

lemma only_io_refl [simp, intro]: "only_io s s"
  by (rule only_ioI [where ss = "Sessions s" and n = "send_calls s" and es = "sess_out s"]) simp_all

lemma only_io_trans: "only_io s s' \<Longrightarrow> only_io s' s'' \<Longrightarrow> only_io s s''"
  unfolding only_io_def by fastforce

lemma only_io_length: "only_io s s' \<Longrightarrow> length (Sessions s') = length (Sessions s)"
  unfolding only_io_def by (auto dest: map_eq_imp_length_eq)

lemma only_io_entry: "only_io s s' \<Longrightarrow> i < length (Sessions s) \<Longrightarrow>
    ses_name (ses_at s' i) = ses_name (ses_at s i) \<and> ses_mbox (ses_at s' i) = ses_mbox (ses_at s i)"
proof -
  assume io: "only_io s s'" and i: "i < length (Sessions s)"
  then have "map table_entry (Sessions s') = map table_entry (Sessions s)" by (auto simp: only_io_def)
  then have "table_entry (ses_at s' i) = table_entry (ses_at s i)"
    using i by (metis length_map nth_map)
  then show ?thesis by (simp add: table_entry_def)
qed

lemma only_io_fields:
  assumes "only_io s s'"
  shows "Sess_order s' = Sess_order s" "Sess_free s' = Sess_free s" "Sess_hash s' = Sess_hash s"
    "Num_sessions s' = Num_sessions s" "Config_procs s' = Config_procs s" "My s' = My s"
    "Config s' = Config s" "send_ret s' = send_ret s"
  using assms by (auto simp: only_io_def)

lemma only_io_groups:
  assumes "only_io s s'"
  shows "GroupsList s' = GroupsList s" "Num_groups s' = Num_groups s" "Gstate s' = Gstate s"
    "G_Trans_memb s' = G_Trans_memb s" "G_Trans_memb_id s' = G_Trans_memb_id s"
    "G_Reg_memb s' = G_Reg_memb s" "G_Reg_memb_id s' = G_Reg_memb_id s" "MySyncedSet s' = MySyncedSet s"
    "Gathered s' = Gathered s" "Groups_bufs s' = Groups_bufs s"
  using assms by (auto simp: only_io_def)

lemma table_ok_order: "table_ok s \<Longrightarrow> i \<in> set (Sess_order s) \<Longrightarrow> i < MAX_SESSIONS \<and> i < length (Sessions s)"
proof -
  assume ok: "table_ok s" and i: "i \<in> set (Sess_order s)"
  from ok have "set (Sess_order s @ Sess_free s) = {..<MAX_SESSIONS}" "length (Sessions s) = MAX_SESSIONS + 1"
    by (simp_all only: table_ok_def)
  with i have "i < MAX_SESSIONS" by auto
  then show ?thesis using \<open>length (Sessions s) = _\<close> by simp
qed

lemma only_io_table_ok:
  assumes "only_io s s'" and "table_ok s"
  shows "table_ok s'"
proof -
  note f = only_io_fields [OF assms(1)]
  have e: "ses_name (ses_at s' i) = ses_name (ses_at s i) \<and> ses_mbox (ses_at s' i) = ses_mbox (ses_at s i)"
    if "i \<in> set (Sess_order s)" for i
    using only_io_entry [OF assms(1)] table_ok_order [OF assms(2) that] by simp
  then have "chain_of s' h = chain_of s h" for h by (auto simp: chain_of_def f)
  moreover have "sorted_wrt (\<lambda>i j. ses_name (ses_at s' i) < ses_name (ses_at s' j)) (Sess_order s')"
    using assms(2) e unfolding f(1) table_ok_def by (metis (no_types, lifting) sorted_wrt_mono_rel)
  ultimately show ?thesis
    using assms(2) only_io_length [OF assms(1)] by (simp add: table_ok_def f)
qed

lemma only_io_own: "only_io s s' \<Longrightarrow> table_ok s \<Longrightarrow> own_mailboxes s \<Longrightarrow> own_mailboxes s'"
  unfolding own_mailboxes_def inj_on_def
  by (metis only_io_fields(1) only_io_entry table_ok_order)

lemma only_io_upd:
  assumes "ses_name (f (ses_at s i)) = ses_name (ses_at s i)" "ses_mbox (f (ses_at s i)) = ses_mbox (ses_at s i)"
  shows "only_io s (upd_ses i f s)"
proof (rule only_ioI)
  show "upd_ses i f s = s\<lparr>Sessions := (Sessions s)[i := f (ses_at s i)], send_calls := send_calls s, sess_out := sess_out s\<rparr>"
    by (simp add: upd_ses_def)
  show "map table_entry ((Sessions s)[i := f (ses_at s i)]) = map table_entry (Sessions s)"
    using assms by (cases "i < length (Sessions s)") (simp_all add: map_update table_entry_def list_update_same_conv list_update_beyond)
qed

lemma only_io_out: "only_io s (out e s)"
  by (rule only_ioI [where ss = "Sessions s" and n = "send_calls s"]) (simp_all add: out_def)

lemma only_io_same: "same_but_io s s' \<Longrightarrow> only_io s s'"
  unfolding same_but_io_def by (auto intro: only_ioI [where ss = "Sessions s"])

lemmas only_io_steps = only_io_trans [OF _ only_io_out] only_io_trans [OF _ only_io_upd]

lemma send_pieces_io: "send_pieces mbox es n s = (n', s') \<Longrightarrow> only_io s s'"
proof (induction es arbitrary: n s)
  case (Cons e es)
  obtain ret s1 where r: "sock_send mbox e s = (ret, s1)" by fastforce
  then have "only_io s s1" by (intro only_io_same sock_send_io)
  then show ?case using Cons r by (auto split: if_splits intro: only_io_trans)
qed simp

lemma badger_message_io: "badger_message mbox m i s = (able, s') \<Longrightarrow> only_io s s'"
proof -
  assume b: "badger_message mbox m i s = (able, s')"
  have h: "only_io s s1" if "badger_head mbox m i s = (ok, s1)" for ok s1
  proof -
    obtain ret s2 where r: "sock_send mbox (drop (nat (cur_byte (ses_write (ses_at s i)))) (head_bytes (mo_head m))) s = (ret, s2)"
      by fastforce
    then have "only_io s s2" by (intro only_io_same sock_send_io)
    then show ?thesis using that r
      by (auto simp: badger_head_def Let_def split: if_splits intro!: only_io_steps)
  qed
  have e: "only_io s1 s2" if "badger_elements mbox es k b s1 = (x, s2)" for es k b s1 x s2
    using badger_elements_sends that by (metis only_io_same prod.exhaust_sel)
  show ?thesis using b h
    by (auto simp: badger_message_def Let_def split: prod.splits if_splits
        intro!: only_io_steps intro: only_io_trans [OF h e])
qed

lemma badger_loop_io: "only_io s (badger_loop mbox i ms s)"
proof (induction ms arbitrary: s)
  case (Cons m ms)
  obtain able s1 where b: "badger_message mbox m i s = (able, s1)" by fastforce
  let ?t = "upd_ses i (\<lambda>e. e\<lparr>ses_queue := ms, ses_write := Message_reset_current_location\<rparr>) s1"
  have "only_io s ?t" using badger_message_io [OF b] by (auto intro!: only_io_steps)
  then show ?case using badger_message_io [OF b] Cons [of ?t] b by (auto intro: only_io_trans)
qed simp

lemma Sess_badger_io: "only_io s (Sess_badger mbox s)"
  using badger_loop_io by (auto simp: Sess_badger_def Let_def intro!: only_io_steps)

lemma link_message_io: "only_io s (link_message i m n s)"
  by (auto simp: link_message_def Let_def intro!: only_io_steps only_io_upd)

lemma index_of_own:
  assumes "table_ok s" and "own_mailboxes s" and "i \<in> set (Sess_order s)"
  shows "Sess_get_session_index (ses_mbox (ses_at s i)) s = int i"
  using assms(2,3)
  by (cases rule: Sess_get_session_index_cases [OF assms(1), of "ses_mbox (ses_at s i)"])
    (auto simp: own_mailboxes_def inj_on_def)

lemma Sess_kill_returns:
  assumes "table_ok s" and "own_mailboxes s" and "i \<in> set (Sess_order s)" and "Is_op_session (ses_status (ses_at s i))"
  shows "returns (Sess_kill (ses_mbox (ses_at s i)) s) (only_io s)"
  using table_ok_order [OF assms(1,3)] assms(4)
  by (simp add: Sess_kill_def index_of_own [OF assms(1-3)] Let_def)
    (intro only_io_steps only_io_refl; simp)

lemma Sess_write_returns:
  assumes "table_ok s" and "own_mailboxes s" and "i \<in> set (Sess_order s)"
  shows "returns (Sess_write (int i) m s) (only_io s)"
proof -
  have i: "i < MAX_SESSIONS" using table_ok_order [OF assms(1,3)] by simp
  define s1 where "s1 = (if ses_queue (ses_at s i) \<noteq> [] then Sess_badger (ses_mbox (ses_at s i)) s else s)"
  obtain n s2 where n: "(if ses_queue (ses_at s1 i) = [] then send_pieces (ses_mbox (ses_at s i)) (write_pieces m) 0 s1
      else (0, s1)) = (n, s2)" by fastforce
  have "only_io s s1" by (simp add: s1_def Sess_badger_io)
  moreover have "only_io s1 s2" using n send_pieces_io by (auto split: if_splits)
  ultimately have s2: "only_io s s2" by (rule only_io_trans)
  have "Sess_write (int i) m s = (if \<not> Is_op_session (ses_status (ses_at s i)) then Inr s
      else if length (ses_queue (ses_at s i)) \<ge> MAX_SESSION_MESSAGES then Sess_kill (ses_mbox (ses_at s i)) s
      else Inr (if n < length (concat (elements m)) then link_message i m n s2 else s2))"
    unfolding Sess_write_def Let_def nat_int s1_def [symmetric] n using i by simp
  then show ?thesis
    using s2 only_io_trans [OF s2 link_message_io] Sess_kill_returns [OF assms] by auto
qed

subsection \<open>Telling the local members\<close>

definition known_mbox :: "int \<Rightarrow> 'a sess_st_scheme \<Rightarrow> bool" where
  "known_mbox b s \<longleftrightarrow> (\<exists>i \<in> set (Sess_order s). ses_mbox (ses_at s i) = b)"

lemma only_io_known: "only_io s s' \<Longrightarrow> table_ok s \<Longrightarrow> known_mbox b s' = known_mbox b s"
  unfolding known_mbox_def by (metis only_io_fields(1) only_io_entry table_ok_order)

lemma notify_mbox_returns:
  assumes "table_ok s" and "own_mailboxes s" and "known_mbox b s"
  shows "returns (notify_mbox m b s) (only_io s)"
proof -
  obtain i where i: "i \<in> set (Sess_order s)" "ses_mbox (ses_at s i) = b" using assms(3) by (auto simp: known_mbox_def)
  from index_of_own [OF assms(1,2) i(1)] i(2) have "Sess_get_session_index b s = int i" by simp
  with Sess_write_returns [OF assms(1,2) i(1)] show ?thesis by (simp add: notify_mbox_def)
qed

lemma notify_returns:
  assumes "table_ok s" and "own_mailboxes s" and "\<forall>b \<in> set bs. known_mbox b s"
  shows "returns (notify m bs s) (only_io s)"
  unfolding notify_def
proof (rule returns_for_each)
  fix b t
  assume b: "b \<in> set bs" and t: "only_io s t"
  have "returns (notify_mbox m b t) (only_io t)"
    using notify_mbox_returns [OF only_io_table_ok [OF t assms(1)] only_io_own [OF t assms(1,2)]]
      only_io_known [OF t assms(1)] b assms(3) by simp
  then show "returns (notify_mbox m b t) (only_io s)"
    by (rule returns_mono) (rule only_io_trans [OF t])
qed simp

end
