(* ===== verification/Session_Auth.thy ===== *)
theory Session_Auth
  imports Session_Connect Group_Frame
begin

section \<open>Who becomes a session\<close>

text \<open>
  The handlers that connect and authenticate clients keep the table of sessions in order, and a
  session becomes operational only when the methods its client has to pass all passed it.
  \<open>keeps_table\<close>: two states with the same table, up to what the sessions hold besides their
  names and mailboxes.
\<close>

subsection \<open>What keeps the table\<close>

definition keeps_table :: "'a client_st_scheme \<Rightarrow> 'a client_st_scheme \<Rightarrow> bool" where
  "keeps_table s s' \<longleftrightarrow> length (Sessions s') = length (Sessions s)
     \<and> (\<forall>i < MAX_SESSIONS. table_entry (ses_at s' i) = table_entry (ses_at s i))
     \<and> Sess_order s' = Sess_order s \<and> Sess_free s' = Sess_free s \<and> Sess_hash s' = Sess_hash s
     \<and> Num_sessions s' = Num_sessions s \<and> My s' = My s \<and> Acm s' = Acm s"

named_theorems keeps \<open>operations that keep the table\<close>

lemma keeps_refl [keeps]: "keeps_table s s"
  by (simp add: keeps_table_def)

lemma keeps_trans: "keeps_table s s' \<Longrightarrow> keeps_table s' s'' \<Longrightarrow> keeps_table s s''"
  by (auto simp: keeps_table_def)

lemma keeps_out [keeps]: "keeps_table s t \<Longrightarrow> keeps_table s (out e t)"
  by (simp add: keeps_table_def out_def)

lemma keeps_sock_send [keeps]: "keeps_table s t \<Longrightarrow> keeps_table s (snd (sock_send mbox bs t))"
  by (simp add: keeps_table_def sock_send_def out_def Let_def)

lemma keeps_respond [keeps]: "keeps_table s t \<Longrightarrow> keeps_table s (respond mbox c t)"
  unfolding respond_def by (rule keeps)

lemma keeps_refuse [keeps]: "keeps_table s t \<Longrightarrow> keeps_table s (refuse c mbox t)"
  unfolding refuse_def by (cases c) (auto intro: keeps)

lemma keeps_foldl: "(\<And>x t. keeps_table s t \<Longrightarrow> keeps_table s (f t x)) \<Longrightarrow> keeps_table s t \<Longrightarrow> keeps_table s (foldl f t xs)"
  by (induction xs arbitrary: t) auto

lemma keeps_accept [keeps]:
  "keeps_table s t \<Longrightarrow> keeps_table s (Sess_attach_accept t)" "keeps_table s t \<Longrightarrow> keeps_table s (Sess_detach_accept t)"
  unfolding Sess_attach_accept_def Sess_detach_accept_def by (auto intro!: keeps keeps_foldl)

lemma keeps_sock_recv: "sock_recv mbox n t = (r, t') \<Longrightarrow> keeps_table s t \<Longrightarrow> keeps_table s t'"
  by (auto simp: keeps_table_def sock_recv_def Let_def split: recv_result.splits)

lemma keeps_upd_ses [keeps]:
  "keeps_table s t \<Longrightarrow> (\<And>e. table_entry (f e) = table_entry e) \<Longrightarrow> keeps_table s (upd_ses i f t)"
  by (auto simp: keeps_table_def upd_ses_def nth_list_update)
     (metis nth_list_update_eq nth_list_update_neq list_update_beyond not_le)

lemma keeps_slot [keeps]: "keeps_table s t \<Longrightarrow> keeps_table s (upd_ses MAX_SESSIONS f t)"
  by (simp add: keeps_table_def upd_ses_def)

lemma keeps_fields [keeps]:
  "keeps_table s t \<Longrightarrow> keeps_table s (t\<lparr>Pending_auth := p\<rparr>)"
  "keeps_table s t \<Longrightarrow> keeps_table s (t\<lparr>Randoms := rs\<rparr>)"
  by (simp_all add: keeps_table_def)

lemma keeps_table_ok:
  assumes "keeps_table s s'" and "table_ok s"
  shows "table_ok s'"
proof -
  have e: "ses_name (ses_at s' i) = ses_name (ses_at s i)" "ses_mbox (ses_at s' i) = ses_mbox (ses_at s i)"
    if "i \<in> set (Sess_order s)" for i
    using assms table_ok_order [OF assms(2) that] by (auto simp: keeps_table_def table_entry_def)
  then have "chain_of s' h = chain_of s h" for h
    using assms(1) by (auto simp: chain_of_def keeps_table_def)
  moreover have "name_sorted (Sessions s') (Sess_order s)"
    using assms(2) e unfolding table_ok_def by (metis (no_types, lifting) sorted_wrt_mono_rel)
  ultimately show ?thesis
    using assms by (simp add: table_ok_def keeps_table_def)
qed

lemma keeps_index:
  assumes "keeps_table s s'" and "table_ok s"
  shows "Sess_get_session_index mbox s' = Sess_get_session_index mbox s"
proof -
  let ?h = "Sess_hash s (mbox_hash mbox)"
  have h: "\<forall>i \<in> set ?h. i < MAX_SESSIONS"
  proof
    fix i assume "i \<in> set ?h"
    then have "i \<in> chain_of s (mbox_hash mbox)" using assms(2) by (auto simp: table_ok_def)
    then show "i < MAX_SESSIONS" using table_ok_order [OF assms(2)] by (simp add: chain_of_def)
  qed
  have "List.find (\<lambda>i. ses_mbox (ses_at s' i) = mbox) ?h = List.find (\<lambda>i. ses_mbox (ses_at s i) = mbox) ?h"
    using assms(1) h by (intro find_cong) (auto simp: keeps_table_def table_entry_def)
  then show ?thesis using assms(1) by (simp add: Sess_get_session_index_def keeps_table_def)
qed

subsection \<open>Denying and authorizing\<close>

text \<open>\<open>shrinks\<close>: the table is in order and has lost sessions only.\<close>

definition shrinks :: "'a client_st_scheme \<Rightarrow> 'a client_st_scheme \<Rightarrow> bool" where
  "shrinks s s' \<longleftrightarrow> table_ok s' \<and> set (Sess_order s') \<subseteq> set (Sess_order s) \<and> My s' = My s
     \<and> (\<forall>i < MAX_SESSIONS. table_entry (ses_at s' i) = table_entry (ses_at s i))"

lemma shrinks_keeps: "keeps_table s s' \<Longrightarrow> table_ok s \<Longrightarrow> shrinks s s'"
  using keeps_table_ok by (auto simp: shrinks_def keeps_table_def)

lemma table_after:
  assumes "keeps_table s t" and "table_ok s" and "table_ok t \<Longrightarrow> lands r (shrinks t)"
  shows "lands r (shrinks s)"
  using assms(1) by (intro lands_mono [OF assms(3) [OF keeps_table_ok [OF assms(1,2)]]])
    (auto simp: shrinks_def keeps_table_def)

lemma leave_table:
  fixes s :: "'a client_st_scheme"
  assumes "table_ok s" and "i \<in> set (Sess_order s)"
  shows "lands (leave_session i s) (shrinks s)"
proof -
  have "My s' = My s" if "leave_session i s = Inr s'" for s'
    using that by (auto simp: leave_session_def Sess_unhash_session_def Sess_remove_session_def
        Sess_free_session_def Let_def split: if_splits)
  then show ?thesis
    using leave_table_ok [OF assms] by (auto simp: lands_iff returns_iff shrinks_def)
qed

lemma denied_table:
  fixes s :: "'a client_st_scheme"
  assumes "table_ok s" and "i \<in> set (Sess_order s)"
  shows "lands (Sess_session_denied i s) (shrinks s)"
proof -
  have k: "keeps_table s (refuse (Some REJECT_AUTH) (ses_mbox (ses_at s i)) s)" by (intro keeps)
  then have "i \<in> set (Sess_order (refuse (Some REJECT_AUTH) (ses_mbox (ses_at s i)) s))"
    using assms(2) by (simp add: keeps_table_def)
  then show ?thesis
    unfolding Sess_session_denied_def by (auto intro!: table_after [OF k assms(1) leave_table])
qed

lemma authorized_keeps:
  fixes s :: "'a client_st_scheme"
  shows "lands (Sess_session_authorized i s) (keeps_table s)"
  unfolding Sess_session_authorized_def Let_def
  by (auto simp: table_entry_def intro!: keeps keeps_foldl)

lemma authorized_table:
  fixes s :: "'a client_st_scheme"
  shows "table_ok s \<Longrightarrow> lands (Sess_session_authorized i s) (shrinks s)"
  by (rule lands_mono [OF authorized_keeps]) (rule shrinks_keeps)

lemma settle_table:
  assumes "table_ok s" and "i \<in> set (Sess_order s)"
  shows "lands (settle_auth i sa s) (shrinks s)"
  using denied_table [OF assms] authorized_table [OF assms(1), of i] unfolding settle_auth_def
  by (auto split: option.splits)

lemma index_in_table:
  assumes "table_ok s" and "Sess_get_session_index mbox s = r" and "\<not> r < 0"
  shows "nat r \<in> set (Sess_order s) \<and> ses_mbox (ses_at s (nat r)) = mbox \<and> nat r < MAX_SESSIONS \<and> int (nat r) = r"
  by (rule Sess_get_session_index_cases [OF assms(1), of mbox])
    (use assms table_ok_order [OF assms(1)] in auto)

lemma pword_keeps: "keeps_table s (pword_auth_client_connection sa s)"
  unfolding pword_auth_client_connection_def Let_def by (intro keeps)

lemma report_table:
  assumes "table_ok s"
  shows "lands (Sess_session_report_auth_result sa ok s) (shrinks s)"
  using assms
proof (induction sa ok s rule: Sess_session_report_auth_result.induct)
  case (1 sa ok s)
  let ?i = "Sess_get_session_index (sa_mbox sa) s"
  show ?case
  proof (cases "?i < 0 \<or> ?i \<ge> int MAX_SESSIONS")
    case True
    then show ?thesis using 1(3) shrinks_keeps [OF keeps_refl]
      by (subst Sess_session_report_auth_result.simps) (auto simp: Let_def)
  next
    case F: False
    then have i: "nat ?i \<in> set (Sess_order s)" using index_in_table [OF 1(3) refl] by auto
    note D = denied_table [OF 1(3) i] and S = settle_table [OF 1(3) i]
      and P = shrinks_keeps [OF pword_keeps 1(3)]
    show ?thesis
    proof (cases "Suc (length (sa_results sa)) < length (sa_methods sa)")
      case False
      then show ?thesis using F S by (subst Sess_session_report_auth_result.simps) (simp add: Let_def)
    next
      case True
      note IH = 1(1,2) [OF refl refl refl refl F True]
      show ?thesis
        using IH 1(3) D P F True
        by (subst Sess_session_report_auth_result.simps)
           (auto simp: Let_def split: sum.splits option.splits auth_ops.splits)
    qed
  qed
qed

subsection \<open>The handlers keep the table\<close>

lemma auth_open_table:
  assumes "table_ok s"
  shows "lands (auth_open ops sa s) (shrinks s)"
  using report_table [OF assms] shrinks_keeps [OF pword_keeps assms]
  by (cases ops) (auto simp: auth_open_def intro!: lands_seq [OF lands_True])

lemma fill_ops_keeps: "lands (fill_ops i s) (keeps_table s)"
  unfolding fill_ops_def by (rule lands_seq [OF lands_True]) (auto simp: table_entry_def intro!: keeps)

lemma recv_client_auth_table:
  assumes ok: "table_ok s"
  shows "lands (Sess_recv_client_auth mbox s) (shrinks s)"
proof -
  let ?r = "Sess_get_session_index mbox s"
  obtain r s1 where rcv: "sock_recv mbox (MAX_AUTH_NAME * MAX_AUTH_METHODS) (out (Detach_fd mbox) s) = (r, s1)" by fastforce
  have k1: "keeps_table s s1" by (rule keeps_sock_recv [OF rcv]) (intro keeps)
  show ?thesis
  proof (cases "?r < 0 \<or> ?r \<ge> int MAX_SESSIONS \<or> \<not> Is_preauth_session (ses_status (ses_at s (nat ?r)))")
    case True
    then show ?thesis using shrinks_keeps [OF keeps_refl ok] by (auto simp: Sess_recv_client_auth_def Let_def)
  next
    case False
    then have i: "nat ?r \<in> set (Sess_order s)" using index_in_table [OF ok refl] by auto
    have den: "lands (Sess_session_denied (nat ?r) t) (shrinks s)" if "keeps_table s t" for t
      using i that by (auto intro!: table_after [OF that ok denied_table] simp: keeps_table_def)
    have opn: "lands (auth_open ops sa t) (shrinks s)" if "keeps_table s t" for t ops sa
      by (rule table_after [OF that ok auth_open_table])
    have fill: "lands (fill_ops (nat ?r) s1) (keeps_table s)"
      by (rule lands_mono [OF fill_ops_keeps]) (rule keeps_trans [OF k1])
    show ?thesis
      using False den [OF k1]
      by (auto simp: Sess_recv_client_auth_def Let_def rcv split: recv_result.splits option.splits
          intro!: lands_seq [OF lands_True] lands_seq [OF fill] den opn)
  qed
qed

lemma conn_read_table:
  assumes ok: "table_ok s"
  shows "lands (auth_client_conn_read mbox sa s) (shrinks s)"
proof -
  let ?s1 = "out (Detach_fd mbox) (s\<lparr>Pending_auth := (Pending_auth s)(mbox := None)\<rparr>)"
  obtain r2 s2 where r2: "sock_recv mbox MAX_PWORD_USERNAME ?s1 = (r2, s2)" by fastforce
  obtain r3 s3 where r3: "sock_recv mbox MAX_PWORD_PASSWORD s2 = (r3, s3)" by fastforce
  have k2: "keeps_table s s2" by (rule keeps_sock_recv [OF r2]) (intro keeps)
  have k3: "keeps_table s s3" by (rule keeps_sock_recv [OF r3 k2])
  note rep = table_after [OF _ ok report_table]
  show ?thesis
    unfolding auth_client_conn_read_def Let_def r2 prod.case
    by (auto simp: r3 split: recv_result.splits intro!: lands_seq [OF lands_True] rep k2 k3 keeps_respond)
qed

lemma find_place_update:
  "n \<notin> set js \<Longrightarrow> find_place (ss[n := x]) name js = find_place ss name js"
  by (induction js) auto

lemma enter_table_lands:
  assumes ok: "table_ok s" and place: "find_place (Sessions s) (ses_name (ses_at s MAX_SESSIONS)) (Sess_order s) = (whr, True)"
  shows "lands (enter_session whr s) (\<lambda>(i, s'). table_ok s' \<and> set (Sess_order s') = insert i (set (Sess_order s))
     \<and> i \<notin> set (Sess_order s) \<and> ses_name (ses_at s' i) = ses_name (ses_at s MAX_SESSIONS)
     \<and> (\<forall>j. j \<noteq> i \<longrightarrow> ses_at s' j = ses_at s j))"
proof (cases "Num_sessions s < int MAX_SESSIONS")
  case True
  then show ?thesis by (rule returns_lands [OF returns_mono [OF enter_table_ok [OF ok place]]]) auto
next
  case False
  have d: "distinct (Sess_order s @ Sess_free s)" "set (Sess_order s @ Sess_free s) = {..<MAX_SESSIONS}"
    "Num_sessions s = int (length (Sess_order s))" using ok by (simp_all only: table_ok_def)
  then have "length (Sess_order s @ Sess_free s) = MAX_SESSIONS" by (metis card_lessThan distinct_card)
  with d(3) False have "length (Sess_free s) = 0" unfolding length_append by linarith
  then have "Sess_free s = []" by simp
  then show ?thesis by (simp add: enter_session_def Sess_insert_new_session_def Sess_get_free_session_def)
qed

lemma enter_My: "enter_session whr s = Inr (i, s') \<Longrightarrow> My s' = My s"
  by (auto simp: enter_session_def Sess_insert_new_session_def Sess_get_free_session_def Sess_hash_session_def
      upd_ses_def Let_def bindE_eq_Inr split: list.splits)

subsection \<open>The name of a new session\<close>

text \<open>A name that is neither empty nor too long, of characters a private group may have.\<close>

definition good_name :: "string \<Rightarrow> bool" where
  "good_name n \<longleftrightarrow> n \<noteq> [] \<and> length n \<le> MAX_PRIVATE_NAME \<and> list_all legal_name_char n"

lemma legal_chars: "legal_char c \<Longrightarrow> legal_name_char c"
proof -
  have "list_all (\<lambda>c. legal_char c \<longrightarrow> legal_name_char c) (Enum.enum :: char list)" by code_simp
  then show "legal_char c \<Longrightarrow> legal_name_char c" by (simp add: list_all_iff enum_UNIV)
qed

lemma legal_digits: "list_all legal_name_char (dec n)"
proof -
  have "list_all (\<lambda>k. legal_name_char (char_of (48 + k))) [0..<10]" by code_simp
  then have d: "legal_name_char (char_of (48 + k))" if "k < 10" for k :: nat using that by (simp add: list_all_iff)
  show ?thesis
  proof (induction n rule: dec.induct)
    case (1 n)
    then show ?case by (subst dec.simps) (simp add: d)
  qed
qed

lemma random_name_good:
  "random_name mbox rs ss order = Inr (name, whr, rs') \<Longrightarrow> good_name name \<and> find_place ss name order = (whr, True)"
proof (induction rs)
  case (Cons r rs)
  let ?n = "take (MAX_PRIVATE_NAME - 1) (CHR ''r'' # dec r @ CHR ''-'' # dec (nat mbox))"
  have c: "legal_name_char CHR ''r'' \<and> legal_name_char CHR ''-''" by code_simp
  have all: "list_all legal_name_char (CHR ''r'' # dec r @ CHR ''-'' # dec (nat mbox))"
    using c legal_digits by simp
  have "list_all legal_name_char ?n" using all unfolding list_all_iff by (meson in_set_takeD)
  then have "good_name ?n" by (simp add: good_name_def MAX_PRIVATE_NAME_def)
  then show ?case using Cons by (auto simp: Let_def split: prod.splits if_splits)
qed simp

lemma read_name_good:
  assumes "read_name mbox n s = (Inr (name, whr), s')" and "n \<noteq> 0" and "n \<le> int MAX_PRIVATE_NAME"
  shows "good_name name \<and> find_place (Sessions s) name (Sess_order s) = (whr, True) \<and> keeps_table s s' \<and> Sessions s' = Sessions s"
proof -
  obtain r s1 where rcv: "sock_recv mbox MAX_PRIVATE_NAME s = (r, s1)" by fastforce
  have k: "keeps_table s s1" by (rule keeps_sock_recv [OF rcv]) (intro keeps)
  have ss: "Sessions s1 = Sessions s" "Sess_order s1 = Sess_order s"
    using rcv by (auto simp: sock_recv_def Let_def split: recv_result.splits)
  show ?thesis
    using assms k ss by (auto simp: read_name_def rcv Let_def good_name_def list_all_iff chars_of_def legal_chars
        split: recv_result.splits prod.splits if_splits)
qed

lemma choose_name_good:
  "lands (choose_name mbox n s) (\<lambda>(r, s'). keeps_table s s' \<and> (case r of Inl _ \<Rightarrow> True
     | Inr (name, whr) \<Rightarrow> good_name name \<and> find_place (Sessions s') name (Sess_order s') = (whr, True)))"
proof -
  have rn: "keeps_table s s'" if "read_name mbox n s = (r, s')" for r s'
  proof -
    obtain q s1 where rcv: "sock_recv mbox MAX_PRIVATE_NAME s = (q, s1)" by fastforce
    have "keeps_table s s1" by (rule keeps_sock_recv [OF rcv]) (intro keeps)
    then show ?thesis using that by (auto simp: read_name_def rcv Let_def split: recv_result.splits prod.splits if_splits)
  qed
  show ?thesis
  proof (cases "n > int MAX_PRIVATE_NAME \<or> n < 0 \<or> n = 0")
    case True
    then show ?thesis using random_name_good [of mbox "Randoms s" "Sessions s" "Sess_order s"]
      by (auto simp: choose_name_def lands_iff bindE_eq_Inr intro: keeps)
  next
    case False
    obtain r s' where r: "read_name mbox n s = (r, s')" by fastforce
    show ?thesis using False r rn [OF r] read_name_good [of mbox n s _ _ s']
      by (auto simp: choose_name_def keeps_table_def split: sum.splits)
  qed
qed

lemma begin_auth_table:
  assumes ok: "table_ok s" and i: "i \<in> set (Sess_order s)"
  shows "lands (begin_auth i v s) (shrinks s)"
proof -
  have den: "lands (Sess_session_denied i t) (shrinks s)" if "keeps_table s t" for t
    using i that by (auto intro!: table_after [OF that ok denied_table] simp: keeps_table_def)
  have aut: "lands (Sess_session_authorized i t) (shrinks s)" if "keeps_table s t" for t
    by (rule table_after [OF that ok authorized_table])
  have opn: "lands (auth_open ops sa t) (shrinks s)" if "keeps_table s t" for t ops sa
    by (rule table_after [OF that ok auth_open_table])
  have con: "shrinks s t" if "keeps_table s t" for t by (rule shrinks_keeps [OF that ok])
  show ?thesis
    unfolding begin_auth_def Let_def
    by (auto split: option.splits intro!: lands_seq [OF lands_True] lands_seq [OF fill_ops_keeps] den aut opn con
        keeps_out keeps_sock_send keeps_refl)
qed

text \<open>What a connection may do to the table: at most one session more, with a good name.\<close>

definition grows :: "'a client_st_scheme \<Rightarrow> 'a client_st_scheme \<Rightarrow> bool" where
  "grows s s' \<longleftrightarrow> table_ok s' \<and> My s' = My s
     \<and> (\<exists>i. set (Sess_order s') \<subseteq> insert i (set (Sess_order s)))
     \<and> (\<forall>i \<in> set (Sess_order s') - set (Sess_order s). good_name (ses_name (ses_at s' i)))
     \<and> (\<forall>i \<in> set (Sess_order s). table_entry (ses_at s' i) = table_entry (ses_at s i))"

lemma entered_grows:
  assumes s: "table_ok s" and u: "keeps_table s u" "good_name name"
      "find_place (Sessions u) name (Sess_order u) = (whr, True)"
  shows "lands (bindE (enter_session whr (upd_ses MAX_SESSIONS (\<lambda>e. e\<lparr>ses_name := name\<rparr>) u)) (\<lambda>(i, t). begin_auth i v t)) (grows s)"
proof -
  let ?u = "upd_ses MAX_SESSIONS (\<lambda>e. e\<lparr>ses_name := name\<rparr>) u"
  have ku: "keeps_table s ?u" by (intro keeps u)
  have tu: "table_ok ?u" by (rule keeps_table_ok [OF ku s])
  have len: "length (Sessions u) = MAX_SESSIONS + 1" using u(1) s by (simp add: keeps_table_def table_ok_def)
  then have nm: "ses_name (ses_at ?u MAX_SESSIONS) = name" by simp
  have "MAX_SESSIONS \<notin> set (Sess_order u)" using table_ok_order [OF tu] by fastforce
  then have pl: "find_place (Sessions ?u) (ses_name (ses_at ?u MAX_SESSIONS)) (Sess_order ?u) = (whr, True)"
    using u(3) unfolding nm by (simp add: upd_ses_def find_place_update)
  show ?thesis
  proof (rule lands_iff [THEN iffD2], intro allI impI)
    fix s' assume "bindE (enter_session whr ?u) (\<lambda>(i, t). begin_auth i v t) = Inr s'"
    then obtain i t where e: "enter_session whr ?u = Inr (i, t)" and b: "begin_auth i v t = Inr s'"
      by (auto simp: bindE_eq_Inr)
    have E: "table_ok t" "set (Sess_order t) = insert i (set (Sess_order ?u))" "i \<notin> set (Sess_order ?u)"
      "ses_name (ses_at t i) = name" "\<forall>j. j \<noteq> i \<longrightarrow> ses_at t j = ses_at ?u j"
      using landsD [OF enter_table_lands [OF tu pl] e] nm by auto
    have m: "My t = My s" using enter_My [OF e] ku by (simp add: keeps_table_def)
    have i: "i \<in> set (Sess_order t)" using E(2) by simp
    have S: "shrinks t s'" by (rule landsD [OF begin_auth_table [OF E(1) i] b])
    have o: "Sess_order ?u = Sess_order s" using ku by (simp add: keeps_table_def)
    have im: "i < MAX_SESSIONS" using table_ok_order [OF E(1) i] by simp
    then have "table_entry (ses_at s' i) = table_entry (ses_at t i)" using S by (simp add: shrinks_def)
    then have g: "good_name (ses_name (ses_at s' i))" using E(4) u(2) by (simp add: table_entry_def)
    have "table_entry (ses_at s' j) = table_entry (ses_at s j)" if "j \<in> set (Sess_order s)" for j
    proof -
      have "j < MAX_SESSIONS" "j \<noteq> i" using table_ok_order [OF s that] that E(3) o by auto
      then show ?thesis using S E(5) ku by (simp add: shrinks_def keeps_table_def)
    qed
    moreover have sub: "set (Sess_order s') \<subseteq> insert i (set (Sess_order s))" using S E(2) o by (simp add: shrinks_def)
    moreover have "good_name (ses_name (ses_at s' j))" if "j \<in> set (Sess_order s') - set (Sess_order s)" for j
      using that sub g by auto
    moreover have "table_ok s'" "My s' = My s" using S m by (simp_all add: shrinks_def)
    ultimately show "grows s s'" unfolding grows_def by blast
  qed
qed

lemma keeps_grows: "keeps_table s s' \<Longrightarrow> table_ok s \<Longrightarrow> grows s s'"
  using keeps_table_ok [of s s'] table_ok_order [of s] by (auto simp: grows_def keeps_table_def)

lemma accept_continue_grows:
  fixes s :: "'a client_st_scheme"
  assumes ok: "table_ok s"
  shows "lands (Sess_accept_continue s) (grows s)"
proof -
  let ?b = "ses_mbox (ses_at s MAX_SESSIONS)"
  let ?s0 = "Sess_attach_accept (out (Detach_fd ?b) (out Dequeue_accept_continue s))"
  obtain rv s1 where v: "read_version ?b ?s0 = (rv, s1)" by fastforce
  have k1: "keeps_table s s1"
  proof -
    obtain r t where r: "sock_recv ?b 2 ?s0 = (r, t)" by fastforce
    obtain r2 t2 where r2: "sock_recv ?b (Suc 0) t = (r2, t2)" by fastforce
    have k: "keeps_table s t" by (rule keeps_sock_recv [OF r]) (intro keeps)
    have "keeps_table s t2" by (rule keeps_sock_recv [OF r2 k])
    with k show ?thesis using v
      by (auto simp: read_version_def r r2 Let_def split: recv_result.splits if_splits)
  qed
  have ref: "lands (Inr (refuse c ?b t)) (grows s)" if "keeps_table s t" for c t
    using that by (auto intro!: keeps_grows [OF _ ok] keeps)
  show ?thesis
  proof (cases rv)
    case (Inl c)
    then show ?thesis using v ref [OF k1] by (simp add: Sess_accept_continue_def Let_def)
  next
    case (Inr ver)
    let ?s2 = "upd_ses MAX_SESSIONS (\<lambda>e. e\<lparr>lib_version := ver\<rparr>) s1"
    obtain rc s3 where c: "read_conn ?b ?s2 = (rc, s3)" by fastforce
    have k3: "keeps_table s s3"
    proof -
      obtain r t where r: "sock_recv ?b 2 ?s2 = (r, t)" by fastforce
      have "keeps_table s t" by (rule keeps_sock_recv [OF r]) (intro keeps k1)
      then show ?thesis using c by (auto simp: read_conn_def r Let_def split: recv_result.splits if_splits)
    qed
    show ?thesis
    proof (cases rc)
      case (Inl c')
      then show ?thesis using v Inr c ref [OF k3] by (simp add: Sess_accept_continue_def Let_def)
    next
      case rc: (Inr cn)
      obtain cb n where cn: "cn = (cb, n)" by fastforce
      let ?s4 = "upd_ses MAX_SESSIONS ((\<lambda>e. e\<lparr>ses_name := []\<rparr>) \<circ> set_flags cb) s3"
      have k4: "keeps_table s ?s4" by (intro keeps k3)
      have e: "Sess_accept_continue s = bindE (choose_name ?b n ?s4) (\<lambda>(r, s5).
          case r of Inl code \<Rightarrow> Inr (refuse code ?b s5)
          | Inr (name, whr) \<Rightarrow> bindE (enter_session whr (upd_ses MAX_SESSIONS (\<lambda>e. e\<lparr>ses_name := name\<rparr>) s5))
              (\<lambda>(i, s6). begin_auth i ver s6))"
        by (simp add: Sess_accept_continue_def Let_def v Inr c rc cn)
      show ?thesis unfolding e
      proof (rule lands_seq [OF choose_name_good])
        fix x :: "(int option + string \<times> nat option) \<times> 'a client_st_scheme"
        assume "case x of (r, s') \<Rightarrow> keeps_table ?s4 s' \<and> (case r of Inl _ \<Rightarrow> True
           | Inr (name, whr) \<Rightarrow> good_name name \<and> find_place (Sessions s') name (Sess_order s') = (whr, True))"
        then obtain r s5 where x: "x = (r, s5)" "keeps_table s s5" and
          nm: "case r of Inl _ \<Rightarrow> True | Inr (name, whr) \<Rightarrow> good_name name \<and> find_place (Sessions s5) name (Sess_order s5) = (whr, True)"
          using keeps_trans [OF k4] by (cases x) auto
        show "lands (case x of (r, s5) \<Rightarrow> (case r of Inl code \<Rightarrow> Inr (refuse code ?b s5)
          | Inr (name, whr) \<Rightarrow> bindE (enter_session whr (upd_ses MAX_SESSIONS (\<lambda>e. e\<lparr>ses_name := name\<rparr>) s5))
              (\<lambda>(i, s6). begin_auth i ver s6))) (grows s)"
          using ref [OF x(2)] entered_grows [OF ok x(2)] nm x(1) by (cases r) auto
      qed
    qed
  qed
qed

lemma name_array_short: "length n < 32 \<Longrightarrow> name_array n = n @ NUL # replicate (31 - length n) NUL"
proof -
  assume l: "length n < 32"
  then have "32 - length n = Suc (31 - length n)" by simp
  then show ?thesis using l by (simp add: name_array_def MAX_GROUP_NAME_def flip: replicate_Suc)
qed

lemma private_group_splits:
  assumes "good_name n" and "list_all legal_name_char (p_name (My s))" and "p_name (My s) \<noteq> []"
    and "length (p_name (My s)) < MAX_PROC_NAME"
  shows "G_private_to_names (private_group n s) = Inr (Some (n, p_name (My s)))"
proof -
  let ?p = "p_name (My s)"
  have legal: "c \<noteq> NUL \<and> c \<noteq> CHR ''#''" if "legal_name_char c" for c
    using that by (auto simp: legal_name_char_def NUL_def less_char_def less_eq_char_def)
  have n: "\<forall>c \<in> set n. c \<noteq> NUL \<and> c \<noteq> CHR ''#''" "\<forall>c \<in> set ?p. c \<noteq> NUL \<and> c \<noteq> CHR ''#''"
    using assms(1,2) legal by (auto simp: good_name_def list_all_iff)
  define R where "R = n @ CHR ''#'' # ?p"
  have l: "length (CHR ''#'' # R) < 32"
    using assms(1,4) by (simp add: R_def good_name_def MAX_PRIVATE_NAME_def MAX_PROC_NAME_def)
  have arr: "name_array (private_group n s) = CHR ''#'' # R @ NUL # replicate (31 - length (CHR ''#'' # R)) NUL"
    using name_array_short [OF l] by (simp add: private_group_def R_def)
  have "NUL \<notin> set R" using n by (auto simp: NUL_def R_def)
  then have rest: "cstr (R @ NUL # zs) = R" for zs
    by (intro cstr_fits [of "Suc (length R)"]) (simp add: Bytes.fits_def)
  have "takeWhile (\<lambda>c. c \<noteq> CHR ''#'') R = n" "dropWhile (\<lambda>c. c \<noteq> CHR ''#'') R = CHR ''#'' # ?p"
    using n(1) unfolding R_def by (subst takeWhile_append2 dropWhile_append2; auto)+
  then show ?thesis
    using assms unfolding G_private_to_names_def arr Let_def
    by (simp add: rest good_name_def Suc_le_eq not_less)
qed

end
