(* ===== verification/Session_Admission.thy ===== *)
theory Session_Admission
  imports Session_Auth
begin

section \<open>Admission: only clients that pass their methods become sessions\<close>

text \<open>
  A session becomes operational in \<open>Sess_session_authorized\<close> only. The lemmas follow the reports
  of the methods up to there; \<open>pending_ok\<close> is the invariant of the clients that are asked for a
  password: their methods include every required one.
\<close>

subsection \<open>The reports\<close>

definition operational :: "nat \<Rightarrow> 'a sess_st_scheme \<Rightarrow> bool" where
  "operational i s \<longleftrightarrow> Is_op_session (ses_status (ses_at s i))"

text \<open>The session in slot \<open>i\<close> passes a method that asks it nothing.\<close>

definition passes :: "'a client_st_scheme \<Rightarrow> nat \<Rightarrow> int \<Rightarrow> bool" where
  "passes s i t \<longleftrightarrow> (case Acm_auth_get_auth_client_connection t (Acm s) of
       Inr (Some Null_ops) \<Rightarrow> True
     | Inr (Some IP_ops) \<Rightarrow> IP_File_Loaded (Acm s) \<and> ip_allowed (ses_address (ses_at s i)) (Acm s) = Inr True
     | _ \<Rightarrow> False)"

definition policy_admits :: "'a client_st_scheme \<Rightarrow> nat \<Rightarrow> bool" where
  "policy_admits s i \<longleftrightarrow> (\<exists>ops. ses_acp_ops (ses_at s i) = Some ops \<and> open_connection ops (ses_name (ses_at s i)))"

lemma denied_sessions:
  "Sess_session_denied i s = Inr s' \<Longrightarrow> Sessions s' = Sessions s"
  by (auto simp: Sess_session_denied_def leave_session_def Sess_unhash_session_def Sess_remove_session_def
      Sess_free_session_def Let_def refuse_def respond_def out_def sock_send_def split: if_splits)

lemma foldl_send_fields:
  "foldl (\<lambda>s bs. snd (sock_send mbox bs s)) s xs = s\<lparr>send_calls := send_calls s + length xs,
     sess_out := sess_out (foldl (\<lambda>s bs. snd (sock_send mbox bs s)) s xs)\<rparr>"
proof (induction xs arbitrary: s)
  case (Cons x xs)
  show ?case unfolding foldl_Cons by (subst Cons) (simp add: sock_send_def out_def Let_def)
qed simp

lemma authorized_fields:
  assumes "Sess_session_authorized i s = Inr (s' :: 'a client_st_scheme)"
  shows "sess_in s' = sess_in s \<and> Pending_auth s' = Pending_auth s \<and> Acm s' = Acm s"
  using assms unfolding Sess_session_authorized_def Let_def
  by (subst (asm) foldl_send_fields) (auto simp: upd_ses_def out_def split: if_splits)

lemma denied_fields:
  "Sess_session_denied i (s :: 'a client_st_scheme) = Inr s' \<Longrightarrow>
    sess_in s' = sess_in s \<and> Pending_auth s' = Pending_auth s \<and> Acm s' = Acm s"
  by (auto simp: Sess_session_denied_def leave_session_def Sess_unhash_session_def Sess_remove_session_def
      Sess_free_session_def Let_def refuse_def respond_def out_def sock_send_def split: if_splits)

lemma all_passed: "\<not> length (filter id (take n xs)) < n \<Longrightarrow> length xs \<le> n \<Longrightarrow> list_all id xs"
  by (metis (full_types) filter_id_conv id_apply le_trans length_filter_le length_filter_less list_all_iff not_less take_all_iff nat_less_le)

lemma settle_authorizes:
  assumes "settle_auth i sa s = Inr s'" and "\<not> operational i s" and "operational i s'"
    and "length (sa_results sa) \<le> length (sa_methods sa)"
  shows "list_all id (sa_results sa) \<and> policy_admits s i \<and> sess_in s' = sess_in s"
proof -
  have d: "Sess_session_denied i s \<noteq> Inr s'" using denied_sessions [of i s s'] assms(2,3) by (auto simp: operational_def)
  then obtain ops where o: "\<not> length (filter id (take (length (sa_methods sa)) (sa_results sa))) < length (sa_methods sa)"
    "ses_acp_ops (ses_at s i) = Some ops" "open_connection ops (ses_name (ses_at s i))" "Sess_session_authorized i s = Inr s'"
    using assms(1) unfolding settle_auth_def by (auto split: if_splits option.splits)
  then show ?thesis using all_passed [OF o(1) assms(4)] authorized_fields [OF o(4)] by (simp add: policy_admits_def)
qed

lemma pword_not_op: "operational i (pword_auth_client_connection sa s) = operational i s"
  by (simp add: pword_auth_client_connection_def operational_def out_def Let_def)

lemma report_authorizes:
  assumes "Sess_session_report_auth_result sa ok s = Inr s'"
    and "Sess_get_session_index (sa_mbox sa) s = int i" and "i < MAX_SESSIONS"
    and "\<not> operational i s" and "operational i s'" and "length (sa_results sa) < length (sa_methods sa)"
  shows "ok \<and> list_all id (sa_results sa) \<and> policy_admits s i \<and> sess_in s' = sess_in s
     \<and> (\<forall>k. length (sa_results sa) < k \<and> k < length (sa_methods sa) \<longrightarrow> passes s i (sa_methods sa ! k))"
  using assms
proof (induction "length (sa_methods sa) - length (sa_results sa)" arbitrary: sa ok rule: less_induct)
  case less
  let ?sa = "sa\<lparr>sa_results := sa_results sa @ [ok]\<rparr>" and ?k = "Suc (length (sa_results sa))"
  have r: "Sess_session_report_auth_result sa ok s =
     (if ?k < length (sa_methods sa)
      then bindE (Acm_auth_get_auth_client_connection (sa_methods sa ! ?k) (Acm s))
             (\<lambda>r. case r of None \<Rightarrow> Sess_session_denied i s | Some ops \<Rightarrow> auth_open ops ?sa s)
      else settle_auth i ?sa s)"
    using report_opens_next [OF less.prems(2,3), of ok] by (simp add: Let_def)
  have nd: "Sess_session_denied i s \<noteq> Inr s'"
    using denied_sessions [of i s s'] less.prems(4,5) by (auto simp: operational_def)
  show ?case
  proof (cases "?k < length (sa_methods sa)")
    case False
    then have "settle_auth i ?sa s = Inr s'" using less.prems(1) r by simp
    from settle_authorizes [OF this less.prems(4,5)] False less.prems(6) show ?thesis by auto
  next
    case True
    then obtain ops where o: "Acm_auth_get_auth_client_connection (sa_methods sa ! ?k) (Acm s) = Inr (Some ops)"
      "auth_open ops ?sa s = Inr s'" using less.prems(1) nd by (auto simp: r bindE_eq_Inr split: option.splits)
    have IH: "b \<and> list_all id (sa_results sa) \<and> ok \<and> policy_admits s i \<and> sess_in s' = sess_in s
       \<and> (\<forall>k. ?k < k \<and> k < length (sa_methods sa) \<longrightarrow> passes s i (sa_methods sa ! k))"
      if "Sess_session_report_auth_result ?sa b s = Inr s'" for b
      using less.hyps [of ?sa b] that less.prems(2-5) True by auto
    have "passes s i (sa_methods sa ! ?k) \<and> (\<exists>b. Sess_session_report_auth_result ?sa b s = Inr s')"
    proof (cases ops)
      case Null_ops
      then show ?thesis using o by (auto simp: auth_open_def passes_def)
    next
      case IP_ops
      then obtain b where b: "ip_auth_client_connection ?sa s = Inr b" "Sess_session_report_auth_result ?sa b s = Inr s'"
        using o(2) by (auto simp: auth_open_def bindE_eq_Inr)
      from IH [OF b(2)] have b by simp
      then show ?thesis using b o(1) IP_ops less.prems(2)
        by (auto simp: ip_auth_client_connection_def Let_def passes_def split: if_splits)
    next
      case Pword_ops
      then have "s' = pword_auth_client_connection ?sa s" using o(2) by (simp add: auth_open_def)
      with less.prems(4,5) pword_not_op [of i ?sa s] show ?thesis by blast
    qed
    then obtain b where p: "passes s i (sa_methods sa ! ?k)" and b: "Sess_session_report_auth_result ?sa b s = Inr s'"
      by blast
    from IH [OF b] p show ?thesis by (metis Suc_lessI)
  qed
qed

subsection \<open>Clients asked for a password\<close>

definition covers :: "acm \<Rightarrow> int \<Rightarrow> session_auth \<Rightarrow> bool" where
  "covers a mbox sa \<longleftrightarrow> sa_mbox sa = mbox \<and> length (sa_results sa) < length (sa_methods sa)
     \<and> (\<forall>k < length (Auth_Methods a). ai_required (Auth_Methods a ! k) \<longrightarrow> int k \<in> set (sa_methods sa))"

definition pending_ok :: "'a client_st_scheme \<Rightarrow> bool" where
  "pending_ok s \<longleftrightarrow> (\<forall>mbox sa. Pending_auth s mbox = Some sa \<longrightarrow> covers (Acm s) mbox sa)"

lemma settle_fields:
  "settle_auth i sa s = Inr s' \<Longrightarrow> Pending_auth s' = Pending_auth s \<and> Acm s' = Acm s"
  using denied_fields [of i s s'] authorized_fields [of i s s']
  by (auto simp: settle_auth_def split: if_splits option.splits)

lemma pending_same: "Pending_auth s' = Pending_auth s \<Longrightarrow> Acm s' = Acm s \<Longrightarrow> pending_ok s \<Longrightarrow> pending_ok s'"
  by (simp add: pending_ok_def)

lemma pword_pending:
  "pending_ok s \<Longrightarrow> covers (Acm s) mbox sa \<Longrightarrow> pending_ok (pword_auth_client_connection sa s)"
  by (auto simp: pword_auth_client_connection_def out_def Let_def pending_ok_def covers_def)

lemma report_pending:
  assumes "pending_ok s" and "covers (Acm s) mbox sa"
  shows "lands (Sess_session_report_auth_result sa ok s) pending_ok"
  using assms
proof (induction sa ok s rule: Sess_session_report_auth_result.induct)
  case (1 sa ok s)
  let ?i = "Sess_get_session_index (sa_mbox sa) s" and ?sa = "sa\<lparr>sa_results := sa_results sa @ [ok]\<rparr>"
  have D: "lands (Sess_session_denied (nat ?i) s) pending_ok"
    using denied_fields pending_same 1(3) by (fastforce simp: lands_iff)
  show ?case
  proof (cases "?i < 0 \<or> ?i \<ge> int MAX_SESSIONS")
    case True
    then show ?thesis using 1(3) by (subst Sess_session_report_auth_result.simps) (auto simp: Let_def)
  next
    case F: False
    show ?thesis
    proof (cases "Suc (length (sa_results sa)) < length (sa_methods sa)")
      case False
      have "lands (settle_auth (nat ?i) ?sa s) pending_ok"
        using settle_fields pending_same 1(3) by (fastforce simp: lands_iff)
      then show ?thesis using F False by (subst Sess_session_report_auth_result.simps) (simp add: Let_def)
    next
      case True
      have c: "covers (Acm s) mbox ?sa" using 1(4) True by (simp add: covers_def)
      note IH = 1(1,2) [OF refl refl refl refl F True]
      show ?thesis
        using IH 1(3) c D pword_pending [OF 1(3) c] F True
        by (subst Sess_session_report_auth_result.simps)
           (auto simp: Let_def split: sum.splits option.splits auth_ops.splits)
    qed
  qed
qed

lemma auth_open_pending:
  assumes "pending_ok s" and "covers (Acm s) mbox sa"
  shows "lands (auth_open ops sa s) pending_ok"
  using report_pending [OF assms] pword_pending [OF assms]
  by (cases ops) (auto simp: auth_open_def intro!: lands_seq [OF lands_True])

lemma sock_recv_fields: "sock_recv mbox n s = (r, s') \<Longrightarrow> Pending_auth s' = Pending_auth s \<and> Acm s' = Acm s
    \<and> Sessions s' = Sessions s \<and> sess_in s' = sess_in s @ (case r of Got bs \<Rightarrow> [(mbox, bs)] | _ \<Rightarrow> [])"
  by (auto simp: sock_recv_def Let_def split: recv_result.splits)

subsection \<open>The choice of methods\<close>

lemma auth_open_authorizes:
  assumes "auth_open ops sa s = Inr s'" and "Acm_auth_get_auth_client_connection (sa_methods sa ! 0) (Acm s) = Inr (Some ops)"
    and "sa_results sa = []" "sa_methods sa \<noteq> []"
    and i: "Sess_get_session_index (sa_mbox sa) s = int i" "i < MAX_SESSIONS"
    and "\<not> operational i s" and "operational i s'"
  shows "policy_admits s i \<and> (\<forall>t \<in> set (sa_methods sa). passes s i t)"
proof -
  have R: "b \<and> policy_admits s i \<and> (\<forall>k. 0 < k \<and> k < length (sa_methods sa) \<longrightarrow> passes s i (sa_methods sa ! k))"
    if "Sess_session_report_auth_result sa b s = Inr s'" for b
    using report_authorizes [OF that i assms(7,8)] assms(3,4) by auto
  have "passes s i (sa_methods sa ! 0) \<and> (\<exists>b. Sess_session_report_auth_result sa b s = Inr s')"
  proof (cases ops)
    case Null_ops
    then show ?thesis using assms(1,2) by (auto simp: auth_open_def passes_def)
  next
    case IP_ops
    then obtain b where b: "ip_auth_client_connection sa s = Inr b" "Sess_session_report_auth_result sa b s = Inr s'"
      using assms(1) by (auto simp: auth_open_def bindE_eq_Inr)
    from R [OF b(2)] have b by simp
    then show ?thesis using b assms(2) IP_ops i
      by (auto simp: ip_auth_client_connection_def Let_def passes_def split: if_splits)
  next
    case Pword_ops
    then have "s' = pword_auth_client_connection sa s" using assms(1) by (simp add: auth_open_def)
    with assms(7,8) pword_not_op [of i sa s] show ?thesis by blast
  qed
  then obtain b where b: "passes s i (sa_methods sa ! 0)" "Sess_session_report_auth_result sa b s = Inr s'" by blast
  from R [OF b(2)] b(1) show ?thesis by (metis in_set_conv_nth not_gr_zero)
qed

text \<open>What \<open>Sess_recv_client_auth\<close> promises when it makes the session in slot \<open>i\<close> operational.\<close>

definition admitted_at_once :: "'a client_st_scheme \<Rightarrow> nat \<Rightarrow> bool" where
  "admitted_at_once s i \<longleftrightarrow>
     (\<forall>k < length (Auth_Methods (Acm s)). ai_required (Auth_Methods (Acm s) ! k) \<longrightarrow> passes s i (int k))
     \<and> (\<exists>ops. Acm_acp_fill_ops (Acm s) = Inr ops \<and> open_connection ops (ses_name (ses_at s i)))"

lemma recv_client_auth_admits:
  assumes ok: "table_ok s" and pend: "pending_ok s" and ix: "Sess_get_session_index mbox s = int i" and no: "\<not> operational i s"
  shows "lands (Sess_recv_client_auth mbox s) (\<lambda>s'. pending_ok s' \<and> (operational i s' \<longrightarrow> admitted_at_once s i))"
proof (rule lands_iff [THEN iffD2], intro allI impI)
  fix s' assume run: "Sess_recv_client_auth mbox s = Inr s'"
  have i: "i < MAX_SESSIONS" "i < length (Sessions s)"
    using index_in_table [OF ok ix] table_ok_order [OF ok] by auto
  obtain r s1 where rcv: "sock_recv mbox (MAX_AUTH_NAME * MAX_AUTH_METHODS) (out (Detach_fd mbox) s) = (r, s1)" by fastforce
  have f1: "Pending_auth s1 = Pending_auth s" "Acm s1 = Acm s" "Sessions s1 = Sessions s"
    using sock_recv_fields [OF rcv] by (simp_all add: out_def)
  have k1: "keeps_table s s1" by (rule keeps_sock_recv [OF rcv]) (intro keeps)
  have den: "pending_ok s' \<and> (operational i s' \<longrightarrow> admitted_at_once s i)" if "Sess_session_denied i t = Inr s'"
    "Pending_auth t = Pending_auth s" "Acm t = Acm s" "ses_status (ses_at t i) = ses_status (ses_at s i)" for t
    using denied_fields [OF that(1)] denied_sessions [OF that(1)] that no pend by (simp add: pending_ok_def operational_def)
  have "Sess_session_denied i s1 = Inr s' \<or> (\<exists>buf s2 sar. fill_ops i s1 = Inr s2
      \<and> Acm_auth_create_sess_info mbox buf (Acm s2) = Inr sar
      \<and> (case sar of None \<Rightarrow> Sess_session_denied i s2 = Inr s'
         | Some sa \<Rightarrow> \<exists>opr. Acm_auth_get_auth_client_connection (sa_methods sa ! 0) (Acm s2) = Inr opr
             \<and> (case opr of None \<Rightarrow> Sess_session_denied i s2 | Some ops \<Rightarrow> auth_open ops sa s2) = Inr s'))"
  proof (cases "Sess_session_denied i s1 = Inr s'")
    case False
    then obtain bs where r: "r = Got bs" "\<not> length bs < MAX_AUTH_NAME * MAX_AUTH_METHODS"
      using run i(1) unfolding Sess_recv_client_auth_def Let_def ix nat_int rcv prod.case
      by (auto split: if_splits recv_result.splits)
    let ?buf = "chars_of bs"
    let ?G = "\<lambda>s2 opr sa. case opr of None \<Rightarrow> Sess_session_denied i s2 | Some ops \<Rightarrow> auth_open ops sa s2"
    let ?F = "\<lambda>s2 sar. case sar of None \<Rightarrow> Sess_session_denied i s2
       | Some sa \<Rightarrow> bindE (Acm_auth_get_auth_client_connection (sa_methods sa ! 0) (Acm s2)) (\<lambda>opr. ?G s2 opr sa)"
    have "bindE (all_allowed MAX_AUTH_METHODS ?buf (Acm s1)) (\<lambda>ok. if \<not> ok then Sess_session_denied i s1
        else bindE (fill_ops i s1) (\<lambda>s2. bindE (Acm_auth_create_sess_info mbox ?buf (Acm s2)) (?F s2))) = Inr s'"
      using run i(1) r unfolding Sess_recv_client_auth_def Let_def ix nat_int rcv prod.case
      by (simp split: if_splits)
    then obtain allowed where "(if \<not> allowed then Sess_session_denied i s1
        else bindE (fill_ops i s1) (\<lambda>s2. bindE (Acm_auth_create_sess_info mbox ?buf (Acm s2)) (?F s2))) = Inr s'"
      unfolding bindE_eq_Inr [of "all_allowed _ _ _"] by blast
    then have "bindE (fill_ops i s1) (\<lambda>s2. bindE (Acm_auth_create_sess_info mbox ?buf (Acm s2)) (?F s2)) = Inr s'"
      using False by (cases allowed) simp_all
    then obtain s2 where s2: "fill_ops i s1 = Inr s2"
        "bindE (Acm_auth_create_sess_info mbox ?buf (Acm s2)) (?F s2) = Inr s'"
      unfolding bindE_eq_Inr [of "fill_ops _ _"] by blast
    then obtain sar where sar: "Acm_auth_create_sess_info mbox ?buf (Acm s2) = Inr sar" "?F s2 sar = Inr s'"
      unfolding bindE_eq_Inr [of "Acm_auth_create_sess_info _ _ _"] by blast
    then show ?thesis using s2(1) by (intro disjI2 exI conjI) (assumption+, auto simp: bindE_eq_Inr split: option.splits)
  qed simp
  then show "pending_ok s' \<and> (operational i s' \<longrightarrow> admitted_at_once s i)"
  proof (elim disjE exE conjE)
    assume "Sess_session_denied i s1 = Inr s'"
    then show ?thesis using den f1 by simp
  next
    fix buf s2 sar
    assume fill: "fill_ops i s1 = Inr s2" and sar: "Acm_auth_create_sess_info mbox buf (Acm s2) = Inr sar"
      and r: "case sar of None \<Rightarrow> Sess_session_denied i s2 = Inr s'
         | Some sa \<Rightarrow> \<exists>opr. Acm_auth_get_auth_client_connection (sa_methods sa ! 0) (Acm s2) = Inr opr
             \<and> (case opr of None \<Rightarrow> Sess_session_denied i s2 | Some ops \<Rightarrow> auth_open ops sa s2) = Inr s'"
    obtain acp where acp: "Acm_acp_fill_ops (Acm s) = Inr acp" "s2 = upd_ses i (\<lambda>e. e\<lparr>ses_acp_ops := Some acp\<rparr>) s1"
      using fill f1 by (auto simp: fill_ops_def bindE_eq_Inr)
    have k2: "keeps_table s s2" by (rule keeps_trans [OF k1 landsD [OF fill_ops_keeps fill]])
    have f2: "Pending_auth s2 = Pending_auth s" "Acm s2 = Acm s"
      "ses_at s2 i = (ses_at s i)\<lparr>ses_acp_ops := Some acp\<rparr>"
      using acp(2) f1 i(2) by (simp_all add: upd_ses_def)
    have den2: ?thesis if "Sess_session_denied i s2 = Inr s'" using den [OF that] f2 by simp
    show ?thesis
    proof (cases sar)
      case None
      then show ?thesis using r den2 by simp
    next
      case (Some sa)
      then obtain opr where o: "Acm_auth_get_auth_client_connection (sa_methods sa ! 0) (Acm s2) = Inr opr"
        "(case opr of None \<Rightarrow> Sess_session_denied i s2 | Some ops \<Rightarrow> auth_open ops sa s2) = Inr s'" using r by auto
      have sa: "sa_mbox sa = mbox" "sa_results sa = []" "sa_methods sa \<noteq> []"
        "\<forall>k < length (Auth_Methods (Acm s)). ai_required (Auth_Methods (Acm s) ! k) \<longrightarrow> int k \<in> set (sa_methods sa)"
        using landsD [OF create_sess_info_complete sar] Some f2 by simp_all
      show ?thesis
      proof (cases opr)
        case None
        then show ?thesis using o den2 by simp
      next
        case (Some ops)
        have op: "auth_open ops sa s2 = Inr s'" using o Some by simp
        have "pending_ok s2" using pend f2 by (simp add: pending_ok_def)
        moreover have "covers (Acm s2) mbox sa" using sa f2 by (simp add: covers_def)
        ultimately have p: "pending_ok s'" using landsD [OF auth_open_pending op] by blast
        have ix2: "Sess_get_session_index (sa_mbox sa) s2 = int i" using keeps_index [OF k2 ok] ix sa(1) by simp
        have no2: "\<not> operational i s2" using no f2 by (simp add: operational_def)
        have ps: "passes s2 i t = passes s i t" for t
          using f2 by (auto simp: passes_def split: sum.splits option.splits auth_ops.splits)
        have "admitted_at_once s i" if "operational i s'"
        proof -
          have "policy_admits s2 i \<and> (\<forall>t \<in> set (sa_methods sa). passes s2 i t)"
            using auth_open_authorizes [OF op _ sa(2,3) ix2 i(1) no2 that] o(1) Some by simp
          then show ?thesis using sa(4) acp(1) f2 by (auto simp: admitted_at_once_def policy_admits_def ps)
        qed
        then show ?thesis using p by blast
      qed
    qed
  qed
qed

subsection \<open>The password\<close>

definition admitted_by_password ::
  "'a client_st_scheme \<Rightarrow> 'a client_st_scheme \<Rightarrow> int \<Rightarrow> session_auth \<Rightarrow> nat \<Rightarrow> bool" where
  "admitted_by_password s s' mbox sa i \<longleftrightarrow>
     (\<exists>u p. sess_in s' = sess_in s @ [(mbox, u), (mbox, p)] \<and> length u = MAX_PWORD_USERNAME
        \<and> length p = MAX_PWORD_PASSWORD \<and> check_password (cstr (chars_of u)) (cstr (chars_of p)) (Acm s) = Inr True)
     \<and> list_all id (sa_results sa) \<and> policy_admits s i
     \<and> (\<forall>k. length (sa_results sa) < k \<and> k < length (sa_methods sa) \<longrightarrow> passes s i (sa_methods sa ! k))"

lemma conn_read_admits:
  assumes ok: "table_ok s" and pend: "pending_ok s" and sa: "Pending_auth s mbox = Some sa"
    and ix: "Sess_get_session_index mbox s = int i" and no: "\<not> operational i s"
  shows "lands (auth_client_conn_read mbox sa s) (\<lambda>s'. pending_ok s' \<and> (operational i s' \<longrightarrow> admitted_by_password s s' mbox sa i))"
proof -
  let ?s1 = "out (Detach_fd mbox) (s\<lparr>Pending_auth := (Pending_auth s)(mbox := None)\<rparr>)"
  obtain r2 s2 where r2: "sock_recv mbox MAX_PWORD_USERNAME ?s1 = (r2, s2)" by fastforce
  obtain r3 s3 where r3: "sock_recv mbox MAX_PWORD_PASSWORD s2 = (r3, s3)" by fastforce
  have i: "i < MAX_SESSIONS" using index_in_table [OF ok ix] by auto
  have c: "covers (Acm s) mbox sa" using pend sa by (simp add: pending_ok_def)
  have p1: "pending_ok ?s1" using pend by (simp add: pending_ok_def out_def)
  have k2: "keeps_table s s2" by (rule keeps_sock_recv [OF r2]) (intro keeps)
  have k3: "keeps_table s s3" by (rule keeps_sock_recv [OF r3 k2])
  note f2 = sock_recv_fields [OF r2] and f3 = sock_recv_fields [OF r3]
  have g2: "pending_ok s2" "Acm s2 = Acm s" "Sessions s2 = Sessions s"
    using f2 p1 by (simp_all add: pending_ok_def out_def)
  have g3: "pending_ok s3" "Acm s3 = Acm s" "Sessions s3 = Sessions s"
    using f3 g2 by (simp_all add: pending_ok_def)
  have rep: "pending_ok s' \<and> (operational i s' \<longrightarrow> b \<and> list_all id (sa_results sa) \<and> policy_admits s i \<and> sess_in s' = sess_in t
      \<and> (\<forall>k. length (sa_results sa) < k \<and> k < length (sa_methods sa) \<longrightarrow> passes s i (sa_methods sa ! k)))"
    if r: "Sess_session_report_auth_result sa b t = Inr s'" and t: "keeps_table s t" "pending_ok t" "Sessions t = Sessions s"
    for b t s'
  proof -
    have a: "Acm t = Acm s" using t(1) by (simp add: keeps_table_def)
    have p: "pending_ok s'" using landsD [OF report_pending r] t(2) c a by simp
    have ix': "Sess_get_session_index (sa_mbox sa) t = int i" using keeps_index [OF t(1) ok] ix c by (simp add: covers_def)
    have no': "\<not> operational i t" using no t(3) by (simp add: operational_def)
    have len: "length (sa_results sa) < length (sa_methods sa)" using c by (simp add: covers_def)
    have ps: "passes t i m = passes s i m" for m using a t(3)
      by (auto simp: passes_def split: sum.splits option.splits auth_ops.splits)
    have "policy_admits t i = policy_admits s i" using t(3) by (simp add: policy_admits_def)
    then show ?thesis using report_authorizes [OF r ix' i no' _ len] p by (simp add: ps)
  qed
  have fail: "lands (Sess_session_report_auth_result sa False t) (\<lambda>s'. pending_ok s' \<and> (operational i s' \<longrightarrow> admitted_by_password s s' mbox sa i))"
    if "keeps_table s t" "pending_ok t" "Sessions t = Sessions s" for t
    using rep [OF _ that] by (auto simp: lands_iff)
  show ?thesis
  proof (cases "\<exists>u. r2 = Got u \<and> length u = MAX_PWORD_USERNAME")
    case False
    have "length u \<le> MAX_PWORD_USERNAME" if "r2 = Got u" for u
      using r2 that by (auto simp: sock_recv_def Let_def split: recv_result.splits)
    then have "length u < MAX_PWORD_USERNAME" if "r2 = Got u" for u using False that by (metis nat_less_le)
    then show ?thesis using fail [OF k2 g2(1,3)]
      by (simp add: auth_client_conn_read_def r2 Let_def split: recv_result.splits)
  next
    case True
    then obtain u where u: "r2 = Got u" "length u = MAX_PWORD_USERNAME" by blast
    show ?thesis
    proof (cases "\<exists>p. r3 = Got p \<and> length p = MAX_PWORD_PASSWORD")
      case False
      have "length p \<le> MAX_PWORD_PASSWORD" if "r3 = Got p" for p
        using r3 that by (auto simp: sock_recv_def Let_def split: recv_result.splits)
      then have "length p < MAX_PWORD_PASSWORD" if "r3 = Got p" for p using False that by (metis nat_less_le)
      then show ?thesis using fail [OF k3 g3(1,3)] u
        by (simp add: auth_client_conn_read_def r2 r3 Let_def split: recv_result.splits)
    next
      case True
      then obtain p where p: "r3 = Got p" "length p = MAX_PWORD_PASSWORD" by blast
      let ?t = "\<lambda>b. respond mbox (if b then 1 else 0) s3"
      have t: "keeps_table s (?t b)" "pending_ok (?t b)" "Sessions (?t b) = Sessions s" "sess_in (?t b) = sess_in s3" for b
        using keeps_respond [OF k3] g3 by (simp_all add: respond_def sock_send_def out_def Let_def pending_ok_def)
      have e: "auth_client_conn_read mbox sa s = bindE (check_password (cstr (chars_of u)) (cstr (chars_of p)) (Acm s))
          (\<lambda>b. Sess_session_report_auth_result sa b (?t b))"
        using u p by (simp add: auth_client_conn_read_def r2 r3 Let_def g3(2))
      have io: "sess_in s3 = sess_in s @ [(mbox, u), (mbox, p)]" using f2 f3 u p by (simp add: out_def)
      show ?thesis unfolding e
      proof (rule lands_iff [THEN iffD2], intro allI impI)
        fix s' assume "bindE (check_password (cstr (chars_of u)) (cstr (chars_of p)) (Acm s))
            (\<lambda>b. Sess_session_report_auth_result sa b (?t b)) = Inr s'"
        then obtain b where b: "check_password (cstr (chars_of u)) (cstr (chars_of p)) (Acm s) = Inr b"
          "Sess_session_report_auth_result sa b (?t b) = Inr s'" unfolding bindE_eq_Inr by blast
        from rep [OF b(2) t(1,2,3)] b(1) u(2) p(2) io t(4)
        show "pending_ok s' \<and> (operational i s' \<longrightarrow> admitted_by_password s s' mbox sa i)"
          by (auto simp: admitted_by_password_def)
      qed
    qed
  qed
qed

end
