(* ===== verification/Session_Deliver.thy ===== *)
theory Session_Deliver
  imports Group_Handlers Session_Connect
begin

section \<open>Delivering messages to clients and groups\<close>

text \<open>
  Model of \<open>Sess_deliver_message\<close> of \<open>daemon/session.c\<close> and the routines it hands messages to:
  joins, leaves, disconnects and groups messages go to the groups layer, every other message to
  the sessions of its groups, or for a reject message to the session that sent it.
\<close>

subsection \<open>Groups of a message\<close>

definition sender_of :: "message_header \<Rightarrow> string" where
  "sender_of h = cstr (mh_private_group_name h)"

definition first_group :: "message_obj \<Rightarrow> string" where
  "first_group m = cstr (chars_of (Message_get_first_group m))"

definition group_names :: "nat \<Rightarrow> 8 word list \<Rightarrow> string list" where
  "group_names n bs = map (\<lambda>i. cstr (chars_of (take MAX_GROUP_NAME (drop (MAX_GROUP_NAME * i) bs)))) [0..<n]"

subsection \<open>Joins, leaves and disconnects\<close>

definition Sess_handle_join :: "message_obj \<Rightarrow> 'a client_st_scheme \<Rightarrow> 'a client_st_scheme outcome" where
  "Sess_handle_join m s = G_handle_join (sender_of (mo_head m)) (first_group m) s"

definition Sess_handle_leave :: "message_obj \<Rightarrow> 'a client_st_scheme \<Rightarrow> 'a client_st_scheme outcome" where
  "Sess_handle_leave m s = G_handle_leave (sender_of (mo_head m)) (first_group m) s"

definition Sess_handle_kill :: "message_obj \<Rightarrow> 'a client_st_scheme \<Rightarrow> 'a client_st_scheme outcome" where
  "Sess_handle_kill m s =
     bindE (G_private_to_names (sender_of (mo_head m))) (\<lambda>r.
       case r of
         None \<Rightarrow> Inl (Alarm_exit ''Sess_handle_kill'')
       | Some (private_name, proc_name) \<Rightarrow>
           bindE (G_handle_kill (sender_of (mo_head m)) s) (\<lambda>s1.
             let ses = Sess_get_session private_name s1
             in if p_name (My s1) \<noteq> proc_name \<or> ses < 0 then Inr s1
                else if Is_op_session (ses_status (ses_at s1 (nat ses))) then Inl (Alarm_exit ''Sess_handle_kill'')
                else leave_session (nat ses) s1))"

subsection \<open>Regular messages\<close>

text \<open>The names of the sender are used without a test of what \<open>G_private_to_names\<close> returned.\<close>

definition target_sessions :: "message_obj \<Rightarrow> 'a client_st_scheme \<Rightarrow> int list outcome" where
  "target_sessions m s =
     (if Is_reject_mess (mh_type (mo_head m))
      then bindE (names_of (sender_of (mo_head m))) (\<lambda>(private_name, _). Inr [Sess_get_session private_name s])
      else bindE (Message_get_groups_array m) (\<lambda>bs.
             G_analize_groups (group_names (nat (mh_num_groups (mo_head m))) bs) s))"

definition discarding_session :: "message_obj \<Rightarrow> int list \<Rightarrow> 'a client_st_scheme \<Rightarrow> int outcome" where
  "discarding_session m targets s =
     (if targets \<noteq> [] \<and> Is_self_discard (mh_type (mo_head m))
      then bindE (names_of (sender_of (mo_head m))) (\<lambda>(private_name, proc_name).
             Inr (if p_name (My s) = proc_name then Sess_get_session private_name s else -1))
      else Inr (-1))"

definition deliver_regular :: "message_obj \<Rightarrow> 'a client_st_scheme \<Rightarrow> 'a client_st_scheme outcome" where
  "deliver_regular m s =
     bindE (target_sessions m s) (\<lambda>targets.
     bindE (discarding_session m targets s) (\<lambda>source_ses.
       for_each (\<lambda>t s. if source_ses = t then Inr s else Sess_write t m s) targets s))"

definition Sess_deliver_message :: "message_obj \<Rightarrow> 'a client_st_scheme \<Rightarrow> 'a client_st_scheme outcome" where
  "Sess_deliver_message m s =
     (let m1 = Message_endian_correct_message_header m; t = mh_type (mo_head m1)
      in if Is_join_mess t then Sess_handle_join m1 s
         else if Is_leave_mess t then Sess_handle_leave m1 s
         else if Is_kill_mess t then Sess_handle_kill m1 s
         else if Is_groups_mess t then G_handle_groups m1 s
         else deliver_regular (m1\<lparr>mo_head := (mo_head m1)\<lparr>mh_type := Set_endian t\<rparr>\<rparr>) s)"

definition Sess_deliver_reg_memb :: "configuration \<Rightarrow> membership_id \<Rightarrow> 'a client_st_scheme \<Rightarrow> 'a client_st_scheme outcome" where
  "Sess_deliver_reg_memb reg_memb reg_memb_id s = G_handle_reg_memb reg_memb reg_memb_id s"

definition Sess_deliver_trans_memb :: "configuration \<Rightarrow> membership_id \<Rightarrow> 'a client_st_scheme \<Rightarrow> 'a client_st_scheme outcome" where
  "Sess_deliver_trans_memb trans_memb trans_memb_id s = G_handle_trans_memb trans_memb trans_memb_id s"

subsection \<open>Reject messages\<close>

definition Sess_create_reject_message :: "message_obj \<Rightarrow> message_obj outcome" where
  "Sess_create_reject_message m =
     (let old_type = mh_type (mo_head m);
          t = Set_endian REJECT_MESS OR (if Is_self_discard old_type then SELF_DISCARD else 0)
      in Message_add_oldtype_to_reject old_type (m\<lparr>mo_head := (mo_head m)\<lparr>mh_type := t\<rparr>\<rparr>))"

definition Sess_deliver_reject :: "message_obj \<Rightarrow> 'a client_st_scheme \<Rightarrow> 'a client_st_scheme outcome" where
  "Sess_deliver_reject m s = Sess_deliver_message m s"

end
