(* ===== verification/Session_Read.thy ===== *)
theory Session_Read
  imports Session_Deliver
begin

section \<open>Reading messages from clients\<close>

text \<open>
  Model of \<open>Sess_read\<close> of \<open>daemon/session.c\<close> and the routines it calls: the bytes of a client
  arrive in pieces of any size; the header is validated once it is complete, the body is read
  into packet bodies, and the complete message is checked against the access control policy
  and given to the protocol. A partly read header is kept in the header of \<open>read_mess\<close>, by the
  bytes read so far.
\<close>

subsection \<open>Validating a header\<close>

fun count_bits :: "nat \<Rightarrow> 32 word \<Rightarrow> 32 word \<Rightarrow> nat" where
  "count_bits 0 bitfield field = 0"
| "count_bits (Suc n) bitfield field =
     (if field AND bitfield \<noteq> 0 then 1 else 0) + count_bits n (push_bit 1 bitfield) field"

definition count_bits_set :: "32 word \<Rightarrow> nat \<Rightarrow> nat \<Rightarrow> nat outcome" where
  "count_bits_set field first_index last_index =
     (if first_index < 32 \<and> last_index \<le> 32 \<and> last_index \<ge> first_index
      then Inr (count_bits (last_index - first_index) (push_bit first_index 1) field)
      else Inl (Assert_fail ''count_bits_set''))"

definition legal_type :: "32 word \<Rightarrow> bool outcome" where
  "legal_type t =
     bindE (count_bits_set t 0 6) (\<lambda>type_bits.
       if type_bits > 1 then Inr False
       else bindE (count_bits_set t 16 19) (\<lambda>memb_bits.
              Inr (memb_bits \<le> 1 \<and> type_bits + memb_bits = 1)))"

definition legal_sender :: "nat \<Rightarrow> message_header \<Rightarrow> 'a client_st_scheme \<Rightarrow> bool outcome" where
  "legal_sender i h s =
     bindE (G_private_to_names (sender_of h)) (\<lambda>r.
       Inr (case r of
              None \<Rightarrow> False
            | Some (private_name, proc_name) \<Rightarrow>
                strn_eq MAX_PROC_NAME proc_name (p_name (My s))
                \<and> strn_eq MAX_PRIVATE_NAME private_name (ses_name (ses_at s i))))"

definition legal_sizes :: "message_header \<Rightarrow> bool" where
  "legal_sizes h \<longleftrightarrow> 0 \<le> mh_num_groups h \<and> mh_num_groups h \<le> int MAX_GROUPS_PER_MESSAGE
     \<and> mh_hint h AND NOT (0x80000080 OR 0x00ffff00) = 0
     \<and> 0 \<le> mh_data_len h \<and> mh_data_len h \<le> int MAX_MESSAGE_BODY_LEN
     \<and> mh_data_len h + int MAX_GROUP_NAME * mh_num_groups h \<le> int MAX_MESSAGE_BODY_LEN - int sizeof_message_header"

definition terminate_sender :: "message_header \<Rightarrow> message_header" where
  "terminate_sender h = h\<lparr>mh_private_group_name := (mh_private_group_name h)[MAX_GROUP_NAME - 1 := NUL]\<rparr>"

text \<open>The result, and the header with its sender cut off at the end of the array.\<close>

definition Sess_validate_read_header ::
  "nat \<Rightarrow> message_header \<Rightarrow> 'a client_st_scheme \<Rightarrow> (bool \<times> message_header) outcome" where
  "Sess_validate_read_header i h s =
     bindE (legal_type (mh_type h)) (\<lambda>ok.
       if \<not> ok then Inr (False, h)
       else let h' = terminate_sender h
            in bindE (legal_sender i h' s) (\<lambda>ok. Inr (ok \<and> legal_sizes h', h')))"

subsection \<open>Receiving the header and the body\<close>

definition header_of :: "8 word list \<Rightarrow> message_header" where
  "header_of bs = \<lparr>mh_type = read32 bs, mh_private_group_name = chars_of (take 32 (drop 4 bs)),
     mh_num_groups = sint (read32 (drop 36 bs)), mh_hint = read32 (drop 40 bs),
     mh_data_len = sint (read32 (drop 44 bs))\<rparr>"

text \<open>Bytes received at an offset of the header, or of an element (whose first is behind the header).\<close>

definition put_head_bytes :: "nat \<Rightarrow> 8 word list \<Rightarrow> message_obj \<Rightarrow> message_obj" where
  "put_head_bytes at bs m =
     (let old = head_bytes (mo_head m)
      in m\<lparr>mo_head := header_of (take at old @ bs @ drop (at + length bs) old)\<rparr>)"

definition put_body_bytes :: "nat \<Rightarrow> nat \<Rightarrow> 8 word list \<Rightarrow> message_obj \<Rightarrow> message_obj" where
  "put_body_bytes k at bs m =
     m\<lparr>mo_data := (mo_data m)[k := take (at - (if k = 0 then sizeof_message_header else 0)) (mo_data m ! k) @ bs]\<rparr>"

datatype progress = Complete | Later | Broken

definition read_header :: "int \<Rightarrow> message_obj \<Rightarrow> partial_message_info \<Rightarrow> 'a client_st_scheme
    \<Rightarrow> (progress \<times> message_obj \<times> partial_message_info) \<times> 'a client_st_scheme" where
  "read_header mbox m p s =
     (let len = nat (cur_byte p); remain = sizeof_message_header - len; (r, s1) = sock_recv mbox remain s
      in case r of
           Got bs \<Rightarrow>
             let m1 = put_head_bytes len bs m; p1 = p\<lparr>cur_byte := cur_byte p + int (length bs)\<rparr>
             in if length bs = remain then ((Complete, m1, Message_set_location_begin_body p1), s1)
                else if bs \<noteq> [] then ((Later, m1, p1), s1)
                else ((Broken, m, p), s1)
         | Would_block \<Rightarrow> ((Later, m, p), s1)
         | Recv_failed \<Rightarrow> ((Broken, m, p), s1))"

text \<open>
  The loop over the elements: each round fills an element or ends the loop, and there are at
  most \<open>MAX_SCATTER_ELEMENTS\<close>.
\<close>

definition room_for :: "nat \<Rightarrow> nat \<Rightarrow> message_obj \<Rightarrow> message_obj outcome" where
  "room_for k b m =
     (if k \<ge> length (mo_data m)
      then if b \<noteq> 0 then Inl (Assert_fail ''Sess_read'') else Message_add_scat_element m
      else Inr m)"

primrec read_body :: "nat \<Rightarrow> int \<Rightarrow> nat \<Rightarrow> message_obj \<Rightarrow> partial_message_info \<Rightarrow> 'a client_st_scheme
    \<Rightarrow> ((progress \<times> message_obj \<times> partial_message_info) \<times> 'a client_st_scheme) outcome" where
  "read_body 0 mbox remain m p s = Inl (Hang ''Sess_read'')"
| "read_body (Suc n) mbox remain m p s =
     (let k = nat (cur_element p); b = nat (cur_byte p)
      in if remain = 0 then Inr ((Complete, m, p), s)
         else
           bindE (room_for k b m) (\<lambda>m1.
             let to_read = min (sizeof_packet_body - b) remain; (r, s1) = sock_recv mbox to_read s
             in case r of
                  Got bs \<Rightarrow>
                    let m2 = put_body_bytes k b bs m1; total = total_bytes p + int (length bs)
                    in if length bs = to_read
                       then read_body n mbox (remain - to_read) m2
                              (p\<lparr>cur_element := int (Suc k), cur_byte := 0, total_bytes := total\<rparr>) s1
                       else if bs \<noteq> []
                       then Inr ((Later, m2, p\<lparr>cur_byte := int (b + length bs), total_bytes := total\<rparr>), s1)
                       else Inr ((Broken, m1, p), s1)
                | Would_block \<Rightarrow> Inr ((Later, m1, p), s1)
                | Recv_failed \<Rightarrow> Inr ((Broken, m1, p), s1)))"

definition body_len :: "message_header \<Rightarrow> int" where
  "body_len h = mh_data_len h + int MAX_GROUP_NAME * mh_num_groups h"

text \<open>The lengths of the elements before they are set right.\<close>

definition element_lens :: "message_obj \<Rightarrow> nat list" where
  "element_lens m = sizeof_message_header # replicate (length (mo_data m) - 1) sizeof_packet_body"

definition keep_read :: "nat \<Rightarrow> message_obj \<Rightarrow> partial_message_info \<Rightarrow> 'a client_st_scheme \<Rightarrow> 'a client_st_scheme" where
  "keep_read i m p s = upd_ses i (\<lambda>e. e\<lparr>ses_read := p, read_mess := Some m\<rparr>) s"

subsection \<open>Access control\<close>

definition acp_of :: "nat \<Rightarrow> 'a client_st_scheme \<Rightarrow> acp_ops outcome" where
  "acp_of i s = (case ses_acp_ops (ses_at s i) of None \<Rightarrow> Inl (Undefined ''Sess_read'') | Some ops \<Rightarrow> Inr ops)"

definition Sess_get_p2p_dests :: "string list \<Rightarrow> string list" where
  "Sess_get_p2p_dests grps = filter (\<lambda>g. g \<noteq> [] \<and> hd g = CHR ''#'') grps"

definition caused :: "32 word \<Rightarrow> 32 word \<Rightarrow> message_obj \<Rightarrow> message_obj" where
  "caused clear cause m = m\<lparr>mo_head := (mo_head m)\<lparr>mh_type := (mh_type (mo_head m) AND NOT clear) OR cause\<rparr>\<rparr>"

text \<open>\<open>Inl m\<close>: the message \<open>m\<close> is rejected; \<open>Inr ()\<close>: it may go on.\<close>

definition check_leave :: "nat \<Rightarrow> message_obj \<Rightarrow> 'a client_st_scheme \<Rightarrow> (message_obj + unit) outcome" where
  "check_leave i m s =
     (if \<not> Is_leave_mess (mh_type (mo_head m)) then Inr (Inr ())
      else bindE (acp_of i s) (\<lambda>ops.
             Inr (if leave_group ops (sender_of (mo_head m)) (first_group m) then Inr ()
                  else Inl (caused LEAVE_MESS CAUSED_BY_LEAVE m))))"

definition check_join :: "nat \<Rightarrow> message_obj \<Rightarrow> 'a client_st_scheme \<Rightarrow> (message_obj + unit) outcome" where
  "check_join i m s =
     (if \<not> Is_join_mess (mh_type (mo_head m)) then Inr (Inr ())
      else if G_get_num_local (first_group m) s = int MAX_LOCAL_GROUP_MEMBERS
      then Inr (Inl (caused JOIN_MESS CAUSED_BY_JOIN m))
      else bindE (acp_of i s) (\<lambda>ops.
             Inr (if join_group ops (sender_of (mo_head m)) (first_group m) then Inr ()
                  else Inl (caused JOIN_MESS CAUSED_BY_JOIN m))))"

definition mess_type_of :: "message_header \<Rightarrow> int" where
  "mess_type_of h = int16_of (uint (drop_bit 8 (mh_hint h) AND 0x0000ffff))"

definition check_send :: "nat \<Rightarrow> message_obj \<Rightarrow> 'a client_st_scheme \<Rightarrow> (message_obj + unit) outcome" where
  "check_send i m s =
     (let h = mo_head m; n = nat (mh_num_groups h)
      in if \<not> Is_only_regular_mess (mh_type h) then Inr (Inr ())
         else
           bindE (Message_get_groups_array m) (\<lambda>bs.
             let grps = group_names n bs; dests = Sess_get_p2p_dests grps
             in if dests = [] \<and> n = 0 then Inr (Inr ())
                else bindE (acp_of i s) (\<lambda>ops.
                  Inr (if dests \<noteq> [] \<and> \<not> p2p_send ops (sender_of h) dests (mh_type h) (mess_type_of h) then Inl m
                       else if n > length dests \<and> \<not> mcast_send ops (sender_of h) grps (mh_type h) (mess_type_of h) then Inl m
                       else Inr ()))))"

definition check_access :: "nat \<Rightarrow> message_obj \<Rightarrow> 'a client_st_scheme \<Rightarrow> (message_obj + unit) outcome" where
  "check_access i m s =
     bindE (check_leave i m s) (\<lambda>r. case r of Inl m' \<Rightarrow> Inr (Inl m') | Inr _ \<Rightarrow>
     bindE (check_join i m s) (\<lambda>r. case r of Inl m' \<Rightarrow> Inr (Inl m') | Inr _ \<Rightarrow> check_send i m s))"

subsection \<open>A complete message\<close>

text \<open>
  A client that disconnects: its messages are dropped and its descriptor is closed.
  \<open>Message_kill_mess_fixup\<close>, which the code calls first, changes nothing.
\<close>

definition disconnect_session :: "nat \<Rightarrow> int \<Rightarrow> 'a client_st_scheme \<Rightarrow> 'a client_st_scheme" where
  "disconnect_session i mbox s =
     (let s1 = upd_ses i (\<lambda>e. e\<lparr>ses_queue := []\<rparr>) s;
          s2 = out (Close_fd mbox) (out (Detach_fd mbox) (out (Dequeue_badger mbox) s1))
      in upd_ses i (\<lambda>e. e\<lparr>ses_status := ses_status e AND NOT OP_SESSION\<rparr>) s2)"

definition take_message :: "nat \<Rightarrow> int \<Rightarrow> message_obj \<Rightarrow> 'a client_st_scheme \<Rightarrow> 'a client_st_scheme outcome" where
  "take_message i mbox m s =
     bindE (check_access i m s) (\<lambda>r.
       case r of
         Inl m' \<Rightarrow> bindE (Sess_create_reject_message m') (\<lambda>m''. Sess_deliver_reject m'' s)
       | Inr _ \<Rightarrow>
           let t = Message_get_packet_type (mh_type (mo_head m))
           in if t = -1 then Sess_kill mbox s
              else
                let s1 = (if Is_kill_mess (mh_type (mo_head m)) then disconnect_session i mbox s else s)
                in Inr (out (Down_message t m (ses_down_queue (ses_at s1 i))) s1))"

definition finish_read :: "nat \<Rightarrow> int \<Rightarrow> message_obj \<Rightarrow> 'a client_st_scheme \<Rightarrow> 'a client_st_scheme outcome" where
  "finish_read i mbox m s =
     (let s1 = upd_ses i (\<lambda>e. e\<lparr>ses_read := Message_reset_current_location\<lparr>in_mess_head := True\<rparr>, read_mess := None\<rparr>) s
      in bindE (Message_element_len_fixup (mo_head m) (element_lens m)) (\<lambda>_. take_message i mbox m s1))"

definition read_on :: "nat \<Rightarrow> int \<Rightarrow> message_obj \<Rightarrow> partial_message_info \<Rightarrow> 'a client_st_scheme \<Rightarrow> 'a client_st_scheme outcome" where
  "read_on i mbox m p s =
     bindE (read_body (Suc (Suc MAX_SCATTER_ELEMENTS)) mbox (nat (body_len (mo_head m) - total_bytes p)) m p s)
       (\<lambda>((pr, m1, p1), s1).
         case pr of
           Complete \<Rightarrow> finish_read i mbox m1 s1
         | Later \<Rightarrow> Inr (keep_read i m1 p1 s1)
         | Broken \<Rightarrow> Sess_kill mbox (keep_read i m1 p1 s1))"

definition correct_header :: "message_header \<Rightarrow> message_header" where
  "correct_header h = (let h1 = (if \<not> Same_endian (mh_type h) then Flip_mess h else h)
                       in h1\<lparr>mh_type := Set_endian (mh_type h1)\<rparr>)"

definition Sess_read :: "int \<Rightarrow> 'a client_st_scheme \<Rightarrow> 'a client_st_scheme outcome" where
  "Sess_read mbox s =
     (let ses = Sess_get_session_index mbox s; i = nat ses; e = ses_at s i;
          m = (case read_mess e of None \<Rightarrow> Message_new_message | Some m \<Rightarrow> m)
      in if ses < 0 \<or> ses \<ge> int MAX_SESSIONS then Inr s
         else if \<not> in_mess_head (ses_read e) then read_on i mbox m (ses_read e) s
         else
           let ((pr, m1, p1), s1) = read_header mbox m (ses_read e) s
           in case pr of
                Later \<Rightarrow> Inr (keep_read i m1 p1 s1)
              | Broken \<Rightarrow> Sess_kill mbox (keep_read i m1 p1 s1)
              | Complete \<Rightarrow>
                  bindE (Sess_validate_read_header i (correct_header (mo_head m1)) s1) (\<lambda>(ok, h).
                    let m2 = m1\<lparr>mo_head := h\<rparr>
                    in if \<not> ok then Sess_kill mbox (keep_read i m2 p1 s1)
                       else read_on i mbox m2 p1 (keep_read i m2 p1 s1)))"

end
