(* ===== verification/Session_Stream.thy ===== *)
theory Session_Stream
  imports Session_Read
begin

section \<open>The stream of a client is cut into its messages\<close>

text \<open>
  However the bytes of a client arrive, \<open>Sess_read\<close> puts together the same message: its header
  is the first 48 bytes, and its elements are those \<open>Message_Buffer_to_Message_Fragments\<close> would
  make of the rest. \<open>reading\<close> is the invariant of a session that has received some of a message.
\<close>

subsection \<open>Headers as bytes\<close>

lemma of_char_char_of: "(of_char (char_of (unat b) :: char) :: 8 word) = b"
proof -
  have "unat b < 2 ^ 8" using unsigned_less [of b, where 'a = nat] by simp
  then have "of_char (char_of (unat b) :: char) = (unat b :: nat)" by (simp add: of_char_of take_bit_nat_eq_self)
  moreover have "(of_char (char_of (unat b) :: char) :: 8 word) = of_nat (of_char (char_of (unat b) :: char))"
    by (rule of_nat_of_char [symmetric])
  ultimately show ?thesis by simp
qed

lemma map_of_chars_of: "map of_char (chars_of bs) = bs"
  by (induction bs) (simp_all add: chars_of_def of_char_char_of)

lemma host32_read32: "length bs \<ge> 4 \<Longrightarrow> host32 (read32 bs) = take 4 bs"
proof (rule nth_equalityI)
  fix j assume l: "4 \<le> length bs" and j: "j < length (host32 (read32 bs))"
  show "host32 (read32 bs) ! j = take 4 bs ! j"
  proof (rule bit_word_eqI)
    fix n assume n: "n < LENGTH(8)"
    have "(8 * j + n) div 8 = j" "(8 * j + n) mod 8 = n" "8 * j + n < 32" using n j by auto
    then show "bit (host32 (read32 bs) ! j) n = bit (take 4 bs ! j) n"
      using n j by (simp add: bit_host32 bit_read32)
  qed
qed simp

lemma word_of_sint [simp]: "word_of_int (sint w) = (w :: 32 word)"
  by simp

lemma head_bytes_header_of:
  assumes "length bs = sizeof_message_header"
  shows "head_bytes (header_of bs) = bs"
proof -
  have l: "length bs = 48" using assms by (simp add: sizeof_message_header_def)
  have "take j (drop i bs) @ drop (i + j) bs = drop i bs" for i j
    by (metis append_take_drop_id drop_drop add.commute)
  from this [of 4 0] this [of 32 4] this [of 4 36] this [of 4 40] l
  have "take 4 bs @ take 32 (drop 4 bs) @ take 4 (drop 36 bs) @ take 4 (drop 40 bs) @ take 4 (drop 44 bs) = bs" by simp
  then show ?thesis
    using l by (simp add: head_bytes_def header_of_def map_of_chars_of host32_read32)
qed

lemma header_of_head_bytes_wf: "wf_mess_header (header_of bs)" if "length bs = sizeof_message_header"
  using that by (simp add: header_of_def wf_mess_header_def chars_of_def MAX_GROUP_NAME_def sizeof_message_header_def)

subsection \<open>The elements of a message being read\<close>

text \<open>The room for data in an element; the first holds the header too.\<close>

definition head_room :: "nat \<Rightarrow> nat" where
  "head_room k = (if k = 0 then sizeof_message_header else 0)"

fun full_elements :: "8 word list list \<Rightarrow> bool" where
  "full_elements [] = True"
| "full_elements (d # ds) \<longleftrightarrow> length d = sizeof_packet_body - sizeof_message_header
     \<and> list_all (\<lambda>e. length e = sizeof_packet_body) ds"

text \<open>
  The position is behind full elements, in an element that holds what was read of it, or at the
  start of one that is not allocated yet.
\<close>

definition layout :: "message_obj \<Rightarrow> partial_message_info \<Rightarrow> bool" where
  "layout m p \<longleftrightarrow> (\<exists>fs k b. mo_data m \<noteq> [] \<and> length (mo_data m) \<le> MAX_SCATTER_ELEMENTS \<and> cur_element p = int k \<and> cur_byte p = int b \<and> k = length fs \<and> full_elements fs
     \<and> b < sizeof_packet_body \<and> total_bytes p = int (length (concat (mo_data m)))
     \<and> ((mo_data m = fs \<and> b = 0) \<or> (\<exists>d. mo_data m = fs @ [d] \<and> b = head_room k + length d)))"

lemma full_elements_size: "full_elements fs \<Longrightarrow> length (concat fs) + head_room 0 = (if fs = [] then 48 else 1436 * length fs)"
proof (cases fs)
  case (Cons d ds)
  moreover have "list_all (\<lambda>e. length e = 1436) ds \<Longrightarrow> length (concat ds) = 1436 * length ds"
    by (induction ds) auto
  ultimately show "full_elements fs \<Longrightarrow> ?thesis"
    by (simp add: sizeof_packet_body_def sizeof_message_header_def head_room_def)
qed (simp add: head_room_def sizeof_message_header_def)

lemma full_elements_snoc: "full_elements (fs @ [d]) \<longleftrightarrow> full_elements fs \<and> head_room (length fs) + length d = sizeof_packet_body"
  by (cases fs) (auto simp: head_room_def sizeof_packet_body_def sizeof_message_header_def)

text \<open>The elements of a buffer, as \<open>Message_Buffer_to_Message_Fragments\<close> makes them.\<close>

lemma fragments_full:
  "list_all (\<lambda>e. length e = sizeof_packet_body) ds \<Longrightarrow> length d \<le> sizeof_packet_body \<Longrightarrow>
    fragments (Suc (length ds)) (concat ds @ d) = ds @ [d]"
  by (induction ds) simp_all

lemma fragments_packed:
  assumes "full_elements fs" and "head_room (length fs) + length d \<le> sizeof_packet_body" and "fs \<noteq> [] \<Longrightarrow> d \<noteq> []"
    and "length fs < MAX_SCATTER_ELEMENTS"
  shows "Message_Buffer_to_Message_Fragments m (concat fs @ d) = Inr (m\<lparr>mo_data := fs @ [d]\<rparr>)"
proof (cases fs)
  case Nil
  then have "length d + 47 < 1436" using assms(2) by (simp add: head_room_def sizeof_packet_body_def sizeof_message_header_def)
  then show ?thesis using Nil by (simp add: Message_Buffer_to_Message_Fragments_def mess_sizes Let_def)
next
  case (Cons e es)
  have e: "length e = 1388" "list_all (\<lambda>x. length x = sizeof_packet_body) es" "length d \<le> sizeof_packet_body" "d \<noteq> []"
    using assms(1-3) Cons by (auto simp: head_room_def sizeof_packet_body_def sizeof_message_header_def)
  have "length (concat es) = 1436 * length es"
    using e(2) by (induction es) (auto simp: sizeof_packet_body_def)
  then have len: "length (concat fs @ d) = 1388 + 1436 * length es + length d" using Cons e(1) by simp
  have "0 < length d" using e(4) by simp
  then have "length (concat fs @ d) + 48 - 1 = 1436 * Suc (length es) + (length d - 1)" unfolding len by simp
  moreover have "(length d - 1) div 1436 = 0" using e(3) \<open>0 < length d\<close> by (simp add: sizeof_packet_body_def)
  ultimately have n: "(length (concat fs @ d) + 48 - 1) div 1436 = Suc (length es)"
    by (simp add: div_mult_self3)
  have "take 1388 (concat fs @ d) = e" "drop 1388 (concat fs @ d) = concat es @ d" using Cons e(1) by simp_all
  moreover have "min (length (concat fs @ d)) 1388 = 1388" unfolding len by simp
  ultimately show ?thesis
    using fragments_full [OF e(2,3)] n assms(4) Cons
    unfolding Message_Buffer_to_Message_Fragments_def Let_def mess_sizes by simp
qed

subsection \<open>Reading on\<close>

text \<open>All bytes received from a descriptor.\<close>

definition received :: "int \<Rightarrow> 'a client_st_scheme \<Rightarrow> 8 word list" where
  "received mbox s = concat (map snd (filter (\<lambda>x. fst x = mbox) (sess_in s)))"

lemma received_recv: "sock_recv mbox n s = (r, s') \<Longrightarrow>
    received mbox s' = received mbox s @ (case r of Got bs \<Rightarrow> bs | _ \<Rightarrow> [])"
  by (auto simp: sock_recv_def Let_def received_def split: recv_result.splits)

text \<open>Receiving changes the log of what was received only.\<close>

definition only_recv :: "'a client_st_scheme \<Rightarrow> 'a client_st_scheme \<Rightarrow> bool" where
  "only_recv s s' \<longleftrightarrow> (\<exists>n io. s' = s\<lparr>recv_calls := n, sess_in := io\<rparr>)"

lemma only_recv_refl [simp]: "only_recv s s"
  unfolding only_recv_def by (rule exI [of _ "recv_calls s"], rule exI [of _ "sess_in s"]) simp

lemma only_recv_trans: "only_recv s s' \<Longrightarrow> only_recv s' s'' \<Longrightarrow> only_recv s s''"
  by (auto simp: only_recv_def) blast

lemma sock_recv_only: "sock_recv mbox n s = (r, s') \<Longrightarrow> only_recv s s'"
proof -
  assume r: "sock_recv mbox n s = (r, s')"
  have "\<exists>io. s' = s\<lparr>recv_calls := Suc (recv_calls s), sess_in := io\<rparr>"
  proof (cases "recv_ret s (recv_calls s) n")
    case (Got bs)
    then show ?thesis using r by (auto simp: sock_recv_def Let_def)
  next
    case Would_block
    then show ?thesis using r by (intro exI [of _ "sess_in s"]) (auto simp: sock_recv_def Let_def)
  next
    case Recv_failed
    then show ?thesis using r by (intro exI [of _ "sess_in s"]) (auto simp: sock_recv_def Let_def)
  qed
  then show ?thesis unfolding only_recv_def by blast
qed

lemma only_recvD: "only_recv s s' \<Longrightarrow> Sessions s' = Sessions s \<and> My s' = My s \<and> recv_ret s' = recv_ret s
    \<and> Sess_hash s' = Sess_hash s \<and> Sess_order s' = Sess_order s \<and> sess_out s' = sess_out s"
  by (auto simp: only_recv_def)

text \<open>\<open>alive\<close>: the connection does not end; \<open>generous\<close>: all that is asked for is there.\<close>

definition alive :: "'a client_st_scheme \<Rightarrow> bool" where
  "alive s \<longleftrightarrow> (\<forall>n len. recv_ret s n len \<noteq> Recv_failed \<and> recv_ret s n len \<noteq> Got [])"

definition generous :: "'a client_st_scheme \<Rightarrow> bool" where
  "generous s \<longleftrightarrow> (\<forall>n len. \<exists>bs. recv_ret s n len = Got bs \<and> len \<le> length bs)"

lemma only_recv_oracle: "only_recv s s' \<Longrightarrow> alive s' = alive s \<and> generous s' = generous s"
  by (auto simp: only_recv_def alive_def generous_def)

lemma alive_recv: "sock_recv mbox n s = (r, s') \<Longrightarrow> alive s \<Longrightarrow> 0 < n \<Longrightarrow> r \<noteq> Recv_failed \<and> r \<noteq> Got []"
  by (auto simp: sock_recv_def Let_def alive_def split: recv_result.splits)

lemma generous_recv: "generous s \<Longrightarrow> \<exists>bs s'. sock_recv mbox n s = (Got bs, s') \<and> length bs = n"
  by (auto simp: sock_recv_def Let_def generous_def split: recv_result.splits)
    (metis recv_result.inject(1) recv_result.distinct(1,3) min.absorb2 length_take)+

lemma layout_size:
  assumes "layout m p"
  shows "int sizeof_message_header + total_bytes p = int sizeof_packet_body * cur_element p + cur_byte p"
    and "0 \<le> cur_byte p" "cur_byte p < int sizeof_packet_body" "0 \<le> cur_element p"
proof -
  obtain fs k b where l: "mo_data m \<noteq> []" "cur_element p = int k" "cur_byte p = int b" "k = length fs" "full_elements fs"
    "b < sizeof_packet_body" "total_bytes p = int (length (concat (mo_data m)))"
    "(mo_data m = fs \<and> b = 0) \<or> (\<exists>d. mo_data m = fs @ [d] \<and> b = head_room k + length d)"
    using assms unfolding layout_def by blast
  have f: "length (concat fs) + 48 = (if fs = [] then 48 else 1436 * length fs)"
    using full_elements_size [OF l(5)] by (simp add: head_room_def sizeof_message_header_def)
  show "int sizeof_message_header + total_bytes p = int sizeof_packet_body * cur_element p + cur_byte p"
  proof (cases "mo_data m = fs \<and> b = 0")
    case True
    then have "fs \<noteq> []" using l(1) by simp
    then have "int (length (concat fs)) + 48 = 1436 * int (length fs)" using f by simp
    then show ?thesis using True l by (simp add: sizeof_packet_body_def sizeof_message_header_def)
  next
    case False
    then obtain d where d: "mo_data m = fs @ [d]" "b = head_room k + length d" using l(8) by auto
    have "int (length (concat fs)) + 48 = (if fs = [] then 48 else 1436 * int (length fs))" using f by (simp split: if_splits)
    then show ?thesis using d l by (cases fs) (simp_all add: sizeof_packet_body_def sizeof_message_header_def head_room_def)
  qed
  show "0 \<le> cur_byte p" "cur_byte p < int sizeof_packet_body" "0 \<le> cur_element p" using l by simp_all
qed

text \<open>What one round of the loop works on: the element at the position.\<close>

lemma room_for_layout:
  assumes "layout m p"
  obtains (element) fs d where "nat (cur_element p) = length fs" "length fs < MAX_SCATTER_ELEMENTS" "full_elements fs"
      "nat (cur_byte p) = head_room (length fs) + length d" "concat (fs @ [d]) = concat (mo_data m)"
      "room_for (nat (cur_element p)) (nat (cur_byte p)) m = Inr (m\<lparr>mo_data := fs @ [d]\<rparr>)"
  | (none_left) "nat (cur_element p) = MAX_SCATTER_ELEMENTS"
      "room_for (nat (cur_element p)) (nat (cur_byte p)) m = Inl (Assert_fail ''Message_add_scat_element'')"
proof -
  obtain fs k b where l: "mo_data m \<noteq> []" "length (mo_data m) \<le> MAX_SCATTER_ELEMENTS" "cur_element p = int k" "cur_byte p = int b"
    "k = length fs" "full_elements fs" "(mo_data m = fs \<and> b = 0) \<or> (\<exists>d. mo_data m = fs @ [d] \<and> b = head_room k + length d)"
    using assms unfolding layout_def by blast
  show ?thesis
  proof (cases "mo_data m = fs \<and> b = 0")
    case False
    then obtain d where d: "mo_data m = fs @ [d]" "b = head_room k + length d" using l(7) by blast
    then have "m\<lparr>mo_data := fs @ [d]\<rparr> = m" by simp
    then show ?thesis using l d by (intro element [of fs d]) (simp_all add: room_for_def)
  next
    case True
    show ?thesis
    proof (cases "length fs < MAX_SCATTER_ELEMENTS")
      case False
      then show ?thesis using True l by (intro none_left) (simp_all add: room_for_def Message_add_scat_element_def)
    next
      case less: True
      have "head_room (length fs) = 0" using True l(1) by (simp add: head_room_def)
      then show ?thesis using True l less
        by (intro element [of fs "[]"]) (simp_all add: room_for_def Message_add_scat_element_def)
    qed
  qed
qed

lemma put_at_end:
  assumes "mo_data m = fs @ [d]" and "k = length fs" and "b = head_room k + length d"
  shows "put_body_bytes k b bs m = m\<lparr>mo_data := fs @ [d @ bs]\<rparr>"
  using assms by (simp add: put_body_bytes_def head_room_def nth_append)

definition packed :: "message_obj \<Rightarrow> bool" where
  "packed m \<longleftrightarrow> (\<exists>fs d. mo_data m = fs @ [d] \<and> full_elements fs \<and> head_room (length fs) + length d \<le> sizeof_packet_body
     \<and> (fs \<noteq> [] \<longrightarrow> d \<noteq> []) \<and> length fs < MAX_SCATTER_ELEMENTS)"

text \<open>The bytes \<open>bs\<close> were read into \<open>m\<close>, giving \<open>m'\<close>.\<close>

definition takes_in :: "int \<Rightarrow> 8 word list \<Rightarrow> message_obj \<Rightarrow> 'a client_st_scheme \<Rightarrow> message_obj \<Rightarrow> 'a client_st_scheme \<Rightarrow> bool" where
  "takes_in mbox bs m s m' s' \<longleftrightarrow> received mbox s' = received mbox s @ bs \<and> only_recv s s' \<and> mo_head m' = mo_head m
     \<and> concat (mo_data m') = concat (mo_data m) @ bs"

lemma takes_in_trans: "takes_in mbox bs m s m1 s1 \<Longrightarrow> takes_in mbox cs m1 s1 m' s' \<Longrightarrow> takes_in mbox (bs @ cs) m s m' s'"
  by (auto simp: takes_in_def intro: only_recv_trans)

lemma layout_next:
  assumes "full_elements fs" "head_room (length fs) + length d = sizeof_packet_body" "length fs < MAX_SCATTER_ELEMENTS"
    "mo_data m = fs @ [d]" "cur_element p = int (Suc (length fs))" "cur_byte p = 0" "total_bytes p = int (length (concat (mo_data m)))"
  shows "layout m p"
  unfolding layout_def using assms
  by (intro exI [of _ "fs @ [d]"] exI [of _ "Suc (length fs)"] exI [of _ 0])
    (simp add: full_elements_snoc sizeof_packet_body_def del: full_elements.simps)

lemma layout_within:
  assumes "full_elements fs" "head_room (length fs) + length d < sizeof_packet_body" "length fs < MAX_SCATTER_ELEMENTS"
    "mo_data m = fs @ [d]" "cur_element p = int (length fs)" "cur_byte p = int (head_room (length fs) + length d)"
    "total_bytes p = int (length (concat (mo_data m)))"
  shows "layout m p"
  unfolding layout_def using assms
  by (intro exI [of _ fs] exI [of _ "length fs"] exI [of _ "head_room (length fs) + length d"]) simp

lemma read_body_reads:
  assumes "read_body n mbox remain m p s = Inr ((pr, m', p'), s')"
    and "if remain = 0 then packed m else layout m p"
  shows "\<exists>bs. takes_in mbox bs m s m' s' \<and> length bs \<le> remain
     \<and> (pr = Complete \<longrightarrow> length bs = remain \<and> packed m')
     \<and> (pr = Later \<longrightarrow> layout m' p' \<and> length bs < remain \<and> in_mess_head p' = in_mess_head p)
     \<and> (alive s \<longrightarrow> pr \<noteq> Broken)"
  using assms
proof (induction n arbitrary: remain m p s)
  case (Suc n)
  show ?case
  proof (cases "remain = 0")
    case True
    then show ?thesis using Suc.prems by (intro exI [of _ "[]"]) (auto simp: takes_in_def Let_def)
  next
    case False
    then have lay: "layout m p" using Suc.prems(2) by simp
    let ?k = "nat (cur_element p)" and ?b = "nat (cur_byte p)"
    let ?t = "min (sizeof_packet_body - ?b) remain"
    have run: "read_body (Suc n) mbox remain m p s = Inr ((pr, m', p'), s')" by (rule Suc.prems(1))
    show ?thesis
    proof (cases rule: room_for_layout [OF lay])
      case 2
      then show ?thesis using run False by (simp add: Let_def)
    next
      case (1 fs d)
      let ?m1 = "m\<lparr>mo_data := fs @ [d]\<rparr>"
      obtain r s1 where r: "sock_recv mbox ?t s = (r, s1)" by fastforce
      note oni = sock_recv_only [OF r] and rec = received_recv [OF r]
      have tot: "total_bytes p = int (length (concat (fs @ [d])))"
        using lay 1(5) by (auto simp: layout_def)
      have b: "?b < sizeof_packet_body" using layout_size(2,3) [OF lay] by simp
      have ce: "cur_element p = int (length fs)" using 1(1) layout_size(4) [OF lay] by simp
      have stay: "takes_in mbox [] m s ?m1 s1" if "case r of Got bs \<Rightarrow> bs = [] | _ \<Rightarrow> True"
        using that oni rec 1(5) by (auto simp: takes_in_def split: recv_result.splits)
      have lay1: "layout ?m1 p"
        by (rule layout_within [of fs d]) (use 1 b ce tot layout_size(2) [OF lay] in \<open>simp_all\<close>)
      show ?thesis
      proof (cases r)
        case (Got bs)
        let ?m2 = "m\<lparr>mo_data := fs @ [d @ bs]\<rparr>"
        have put: "put_body_bytes ?k ?b bs ?m1 = ?m2"
          using put_at_end [of ?m1 fs d ?k ?b bs] 1 by simp
        have le: "length bs \<le> ?t" using r Got by (auto simp: sock_recv_def Let_def split: recv_result.splits)
        have in2: "takes_in mbox bs m s ?m2 s1" using oni rec Got 1(5) by (simp add: takes_in_def)
        show ?thesis
        proof (cases "length bs = ?t")
          case True
          let ?p2 = "p\<lparr>cur_element := int (Suc ?k), cur_byte := 0, total_bytes := total_bytes p + int (length bs)\<rparr>"
          have run2: "read_body n mbox (remain - ?t) ?m2 ?p2 s1 = Inr ((pr, m', p'), s')"
            using run False r Got put True 1(6) by (simp add: Let_def)
          have "if remain - ?t = 0 then packed ?m2 else layout ?m2 ?p2"
          proof (cases "remain - ?t = 0")
            case t0: True
            have "bs \<noteq> []" using True False b by auto
            then show ?thesis using t0 1(2,3,4) True b unfolding packed_def by auto
          next
            case False
            then have "head_room (length fs) + length (d @ bs) = sizeof_packet_body" using True 1(4) b by simp
            then show ?thesis using False 1(1,2,3) tot by (auto intro!: layout_next [of fs "d @ bs"])
          qed
          from Suc.IH [OF run2 this] obtain cs where cs: "takes_in mbox cs ?m2 s1 m' s'" "length cs \<le> remain - ?t"
            "pr = Complete \<longrightarrow> length cs = remain - ?t \<and> packed m'"
            "pr = Later \<longrightarrow> layout m' p' \<and> length cs < remain - ?t \<and> in_mess_head p' = in_mess_head ?p2"
            "alive s1 \<longrightarrow> pr \<noteq> Broken" by blast
          have "length bs \<le> remain" using True by simp
          then show ?thesis
            by (intro exI [of _ "bs @ cs"]) (use takes_in_trans [OF in2 cs(1)] cs(2-5) [folded True] only_recv_oracle [OF oni] in auto)
        next
          case short: False
          show ?thesis
          proof (cases "bs = []")
            case True
            then have "?t \<noteq> 0" using short by simp
            then have "(pr, m', p', s') = (Broken, ?m1, p, s1)"
              using run False r Got 1(6) True put by (auto simp: Let_def split: if_splits)
            then show ?thesis using stay Got True alive_recv [OF r] \<open>?t \<noteq> 0\<close> by (intro exI [of _ "[]"]) auto
          next
            case ne: False
            let ?p2 = "p\<lparr>cur_byte := int (?b + length bs), total_bytes := total_bytes p + int (length bs)\<rparr>"
            have e: "(pr, m', p', s') = (Later, ?m2, ?p2, s1)"
              using run False r Got 1(6) short ne put by (simp add: Let_def)
            have "layout ?m2 ?p2"
              by (rule layout_within [of fs "d @ bs"]) (use 1(1-4) arg_cong [OF 1(5), of length] ce tot le short in auto)
            then show ?thesis using e in2 le short by (intro exI [of _ bs]) auto
          qed
        qed
      next
        case Would_block
        then have "(pr, m', p', s') = (Later, ?m1, p, s1)" using run False r 1(6) by (simp add: Let_def)
        then show ?thesis using stay lay1 False Would_block by (intro exI [of _ "[]"]) simp
      next
        case Recv_failed
        then have "(pr, m', p', s') = (Broken, ?m1, p, s1)" using run False r 1(6) by (simp add: Let_def)
        then show ?thesis using stay Recv_failed alive_recv [OF r] False b by (intro exI [of _ "[]"]) auto
      qed
    qed
  qed
qed simp

lemma read_body_returns:
  assumes "if remain = 0 then packed m else layout m p" and "1 \<le> n" and "remain \<noteq> 0 \<Longrightarrow> MAX_SCATTER_ELEMENTS < n + nat (cur_element p)"
    and "remain \<noteq> 0 \<Longrightarrow> int sizeof_message_header + total_bytes p + int remain \<le> int (MAX_SCATTER_ELEMENTS * sizeof_packet_body)"
  shows "returns (read_body n mbox remain m p s) (\<lambda>_. True)"
  using assms
proof (induction n arbitrary: remain m p s)
  case (Suc n)
  show ?case
  proof (cases "remain = 0")
    case False
    then have lay: "layout m p" using Suc.prems(1) by simp
    note size = layout_size [OF lay]
    let ?k = "nat (cur_element p)" and ?b = "nat (cur_byte p)"
    let ?t = "min (sizeof_packet_body - ?b) remain"
    have sum: "1436 * cur_element p + cur_byte p + int remain \<le> 143600"
      using Suc.prems(4) False size(1) by (simp add: mess_sizes)
    have k: "?k < MAX_SCATTER_ELEMENTS" using sum size False by (simp add: mess_sizes)
    obtain fs d where e: "?k = length fs" "length fs < MAX_SCATTER_ELEMENTS" "full_elements fs"
      "?b = head_room (length fs) + length d" "concat (fs @ [d]) = concat (mo_data m)"
      "room_for ?k ?b m = Inr (m\<lparr>mo_data := fs @ [d]\<rparr>)"
      using k by (cases rule: room_for_layout [OF lay]) auto
    obtain r s1 where r: "sock_recv mbox ?t s = (r, s1)" by fastforce
    show ?thesis
    proof (cases "\<exists>bs. r = Got bs \<and> length bs = ?t")
      case False
      then show ?thesis using e(6) r \<open>remain \<noteq> 0\<close> by (simp add: Let_def split: recv_result.splits)
    next
      case True
      then obtain bs where bs: "r = Got bs" "length bs = ?t" by blast
      let ?m2 = "m\<lparr>mo_data := fs @ [d @ bs]\<rparr>"
      let ?p2 = "p\<lparr>cur_element := int (Suc ?k), cur_byte := 0, total_bytes := total_bytes p + int (length bs)\<rparr>"
      have b: "?b < sizeof_packet_body" using size(2,3) by simp
      have tot: "total_bytes p = int (length (concat (fs @ [d])))" using lay e(5) by (auto simp: layout_def)
      have put: "put_body_bytes ?k ?b bs (m\<lparr>mo_data := fs @ [d]\<rparr>) = ?m2"
        using put_at_end [of "m\<lparr>mo_data := fs @ [d]\<rparr>" fs d ?k ?b bs] e by simp
      have nx: "if remain - ?t = 0 then packed ?m2 else layout ?m2 ?p2"
      proof (cases "remain - ?t = 0")
        case t0: True
        have "bs \<noteq> []" using bs(2) \<open>remain \<noteq> 0\<close> b by auto
        then show ?thesis using t0 e(2,3,4) bs(2) b unfolding packed_def by auto
      next
        case False
        then have "head_room (length fs) + length (d @ bs) = sizeof_packet_body" using bs(2) e(4) b by simp
        then show ?thesis using False e(1,2,3) tot by (auto intro!: layout_next [of fs "d @ bs"])
      qed
      have "1 \<le> n" using Suc.prems(3) \<open>remain \<noteq> 0\<close> k by simp
      moreover have "MAX_SCATTER_ELEMENTS < n + nat (cur_element ?p2)"
        using Suc.prems(3) \<open>remain \<noteq> 0\<close> size(4) by (simp add: nat_add_distrib)
      moreover have "int sizeof_message_header + total_bytes ?p2 + int (remain - ?t) \<le> int (MAX_SCATTER_ELEMENTS * sizeof_packet_body)"
        using Suc.prems(4) \<open>remain \<noteq> 0\<close> bs(2) by simp
      ultimately have "returns (read_body n mbox (remain - ?t) ?m2 ?p2 s1) (\<lambda>_. True)"
        by (intro Suc.IH nx)
      then show ?thesis using e(6) r \<open>remain \<noteq> 0\<close> bs put by (simp add: Let_def)
    qed
  qed simp
qed simp

lemma read_body_overflows:
  assumes "layout m p" and "0 < remain" and "generous s" and "1 \<le> n" and "MAX_SCATTER_ELEMENTS < n + nat (cur_element p)"
    and "int (MAX_SCATTER_ELEMENTS * sizeof_packet_body) < int sizeof_message_header + total_bytes p + int remain"
  shows "read_body n mbox remain m p s = Inl (Assert_fail ''Message_add_scat_element'')"
  using assms
proof (induction n arbitrary: remain m p s)
  case (Suc n)
  note size = layout_size [OF Suc.prems(1)]
  let ?k = "nat (cur_element p)" and ?b = "nat (cur_byte p)"
  have sum: "143600 < 1436 * cur_element p + cur_byte p + int remain"
    using Suc.prems(6) size(1) by (simp add: mess_sizes)
  show ?case
  proof (cases rule: room_for_layout [OF Suc.prems(1)])
    case 2
    then show ?thesis using Suc.prems(2) by (simp add: Let_def)
  next
    case (1 fs d)
    have b: "?b < sizeof_packet_body" using size(2,3) by simp
    have "cur_element p \<le> 99" using 1(1,2) by (simp add: mess_sizes)
    then have t: "min (sizeof_packet_body - ?b) remain = sizeof_packet_body - ?b" "sizeof_packet_body - ?b < remain"
      using sum size(2) b by (simp_all add: mess_sizes)
    obtain bs s1 where r: "sock_recv mbox (sizeof_packet_body - ?b) s = (Got bs, s1)" "length bs = sizeof_packet_body - ?b"
      using generous_recv [OF Suc.prems(3)] by blast
    let ?m2 = "m\<lparr>mo_data := fs @ [d @ bs]\<rparr>"
    let ?p2 = "p\<lparr>cur_element := int (Suc ?k), cur_byte := 0, total_bytes := total_bytes p + int (length bs)\<rparr>"
    have tot: "total_bytes p = int (length (concat (fs @ [d])))" using Suc.prems(1) 1(5) by (auto simp: layout_def)
    have put: "put_body_bytes ?k ?b bs (m\<lparr>mo_data := fs @ [d]\<rparr>) = ?m2"
      using put_at_end [of "m\<lparr>mo_data := fs @ [d]\<rparr>" fs d ?k ?b bs] 1 by simp
    have "layout ?m2 ?p2"
      using 1(1-4) tot r(2) b by (intro layout_next [of fs "d @ bs"]) simp_all
    moreover have "generous s1" using Suc.prems(3) only_recv_oracle [OF sock_recv_only [OF r(1)]] by simp
    moreover have "1 \<le> n" "MAX_SCATTER_ELEMENTS < n + nat (cur_element ?p2)" using Suc.prems(5) 1(1,2) by simp_all
    ultimately have "read_body n mbox (remain - (sizeof_packet_body - ?b)) ?m2 ?p2 s1 = Inl (Assert_fail ''Message_add_scat_element'')"
      using Suc.prems(6) t(2) r(2) by (intro Suc.IH) simp_all
    then show ?thesis using 1(6) r Suc.prems(2) t put by (simp add: Let_def)
  qed
qed simp

subsection \<open>The lengths of the elements\<close>

text \<open>
  After \<open>Message_element_len_fixup\<close> the lengths are those of the bytes the elements hold, except
  that a message that fills all elements makes it write behind the last one.
\<close>

lemma full_lengths: "list_all (\<lambda>e. length e = n) xs \<Longrightarrow> map length xs = replicate (length xs) n"
  by (induction xs) auto

lemma element_len_fixup:
  assumes pk: "packed m" and wf: "wf_mess_header (mo_head m)" and len: "body_len h = int (length (concat (mo_data m)))"
    and room: "body_len h + int sizeof_message_header < int (MAX_SCATTER_ELEMENTS * sizeof_packet_body)"
  shows "Message_element_len_fixup h (element_lens m) = Inr (map length (elements m))"
proof -
  obtain fs d where m: "mo_data m = fs @ [d]" "full_elements fs" "head_room (length fs) + length d \<le> 1436" "fs \<noteq> [] \<longrightarrow> d \<noteq> []"
    using pk by (auto simp: packed_def sizeof_packet_body_def)
  define total where "total = 48 + length (concat (mo_data m))"
  have total: "nat (mh_data_len h + int MAX_GROUP_NAME * mh_num_groups h + int sizeof_message_header) = total"
    using len by (simp add: body_len_def total_def sizeof_message_header_def)
  have small: "total < 143600" using room len by (simp add: total_def mess_sizes)
  show ?thesis
  proof (cases fs)
    case Nil
    then have e: "elements m = [head_bytes (mo_head m) @ d]" "total = 48 + length d" "total \<le> 1436" "element_lens m = [48]"
      using m by (auto simp: elements_def total_def head_room_def sizeof_message_header_def element_lens_def)
    then show ?thesis using wf small unfolding Message_element_len_fixup_def total Let_def
      by (cases "total = 1436") (simp_all add: mess_sizes)
  next
    case (Cons x xs)
    then have x: "length x = 1388" "list_all (\<lambda>e. length e = 1436) xs" and d: "d \<noteq> []" "length d \<le> 1436"
      using m(2,3,4) by (auto simp: mess_sizes head_room_def)
    have "length (concat xs) = 1436 * length xs" using x(2) by (induction xs) auto
    then have tot: "total = 1436 * Suc (length xs) + length d" using Cons m(1) x(1) by (simp add: total_def)
    have lens: "element_lens m = 48 # replicate (Suc (length xs)) 1436"
      using m(1) Cons by (simp add: element_lens_def mess_sizes)
    have els: "map length (elements m) = 1436 # replicate (length xs) 1436 @ [length d]"
      using m(1) Cons x(1) full_lengths [OF x(2)] wf by (simp add: elements_def)
    have last: "total div 1436 = (if length d = 1436 then Suc (Suc (length xs)) else Suc (length xs))"
    proof (cases "length d = 1436")
      case True
      then have "total = 1436 * Suc (Suc (length xs))" using tot by simp
      then show ?thesis using True by simp
    next
      case False
      then have "length d div 1436 = 0" using d(2) by simp
      then show ?thesis using False unfolding tot by (simp add: div_mult_self3)
    qed
    have "total div 1436 < 100" using small by (simp add: div_less_iff_less_mult)
    moreover have "\<not> total < 1436" using tot by simp
    ultimately have "Message_element_len_fixup h (element_lens m)
        = Inr (((element_lens m)[0 := 1436])[total div 1436 := total - 1436 * Suc (length xs)])"
      unfolding Message_element_len_fixup_def total Let_def by (simp add: mess_sizes lens)
    moreover have "((element_lens m)[0 := 1436])[total div 1436 := total - 1436 * Suc (length xs)]
        = 1436 # replicate (length xs) 1436 @ [length d]"
    proof (cases "length d = 1436")
      case True
      have "(replicate (length xs) (1436 :: nat))[length xs := n] = replicate (length xs) 1436" for n
        by (rule list_update_beyond) simp
      with True show ?thesis using last by (simp add: lens replicate_append_same)
    next
      case False
      have "replicate (Suc (length xs)) (1436 :: nat) = replicate (length xs) 1436 @ [1436]" by (simp add: replicate_append_same)
      then show ?thesis using False last unfolding lens by (simp add: tot list_update_append del: replicate.simps)
    qed
    ultimately show ?thesis using els by simp
  qed
qed

subsection \<open>Reading the header\<close>

lemma read_header_reads:
  assumes "read_header mbox m p s = ((pr, m1, p1), s1)" and "cur_byte p = int (length bs)" "length bs < sizeof_message_header"
    and "take (length bs) (head_bytes (mo_head m)) = bs" "wf_mess_header (mo_head m)"
  shows "\<exists>cs. received mbox s1 = received mbox s @ cs \<and> only_recv s s1 \<and> mo_data m1 = mo_data m
     \<and> (alive s \<longrightarrow> pr \<noteq> Broken)
     \<and> (pr = Complete \<longrightarrow> length (bs @ cs) = sizeof_message_header \<and> mo_head m1 = header_of (bs @ cs)
          \<and> p1 = p\<lparr>in_mess_head := False, cur_byte := int sizeof_message_header\<rparr>)
     \<and> (pr = Later \<longrightarrow> length (bs @ cs) < sizeof_message_header \<and> take (length (bs @ cs)) (head_bytes (mo_head m1)) = bs @ cs
          \<and> wf_mess_header (mo_head m1) \<and> p1 = p\<lparr>cur_byte := int (length (bs @ cs))\<rparr>)"
proof -
  obtain r s2 where r: "sock_recv mbox (sizeof_message_header - length bs) s = (r, s2)" by fastforce
  note oni = sock_recv_only [OF r] and rec = received_recv [OF r]
  have al: "alive s \<longrightarrow> r \<noteq> Recv_failed \<and> r \<noteq> Got []" using alive_recv [OF r] assms(3) by simp
  have old: "length (head_bytes (mo_head m)) = sizeof_message_header" using assms(5) by (simp add: sizeof_message_header_def)
  show ?thesis
  proof (cases r)
    case (Got cs)
    have le: "length cs \<le> sizeof_message_header - length bs"
      using r Got by (auto simp: sock_recv_def Let_def split: recv_result.splits)
    let ?all = "bs @ cs @ drop (length bs + length cs) (head_bytes (mo_head m))"
    have "length ?all = sizeof_message_header" using old le assms(3) by simp
    then have h: "head_bytes (header_of ?all) = ?all" "wf_mess_header (header_of ?all)"
      by (rule head_bytes_header_of, rule header_of_head_bytes_wf)
    have put: "put_head_bytes (length bs) cs m = m\<lparr>mo_head := header_of ?all\<rparr>"
      using assms(4) by (simp add: put_head_bytes_def Let_def)
    show ?thesis
    proof (cases "length cs = sizeof_message_header - length bs")
      case True
      then have "length bs + length cs = sizeof_message_header" using assms(3) by simp
      then have "?all = bs @ cs" using old by simp
      with put have put': "put_head_bytes (length bs) cs m = m\<lparr>mo_head := header_of (bs @ cs)\<rparr>" by simp
      show ?thesis using assms(1,2,3) r Got True oni rec al \<open>length bs + length cs = _\<close>
        by (intro exI [of _ cs]) (auto simp: put' read_header_def Let_def Message_set_location_begin_body_def)
    next
      case False
      then show ?thesis using assms(1,2,3) r Got oni rec al le h
        by (intro exI [of _ cs]) (auto simp: put read_header_def Let_def split: if_splits)
    qed
  next
    case Would_block
    then show ?thesis using assms r oni rec al by (intro exI [of _ "[]"]) (auto simp: read_header_def Let_def)
  next
    case Recv_failed
    then show ?thesis using assms r oni rec al by (intro exI [of _ "[]"]) (auto simp: read_header_def Let_def)
  qed
qed

end
