(* ===== verification/Session_Reading.thy ===== *)
theory Session_Reading
  imports Session_Stream
begin

section \<open>Reading a message, from its first byte to its last\<close>

text \<open>
  \<open>reading i bs s\<close>: the session in slot \<open>i\<close> has received the bytes \<open>bs\<close> of a message, all or
  part of its header, or its header and part of its body. \<open>Sess_read\<close> keeps it and ends with the
  message of exactly these bytes.
\<close>

subsection \<open>Accepted headers\<close>

definition accepted :: "nat \<Rightarrow> 8 word list \<Rightarrow> 'a client_st_scheme \<Rightarrow> message_header \<Rightarrow> bool" where
  "accepted i bs s h \<longleftrightarrow>
     Sess_validate_read_header i (correct_header (header_of (take sizeof_message_header bs))) s = Inr (True, h)"

lemma validate_cong:
  assumes "My t = My s" and "ses_name (ses_at t i) = ses_name (ses_at s i)"
  shows "Sess_validate_read_header i h t = Sess_validate_read_header i h s"
proof -
  have "legal_sender i h' t = legal_sender i h' s" for h'
    unfolding legal_sender_def assms ..
  then show ?thesis unfolding Sess_validate_read_header_def by (simp only:)
qed

lemma legal_type_returns: "returns (legal_type t) (\<lambda>_. True)"
  by (simp add: legal_type_def count_bits_set_def)

lemma names_terminated:
  assumes "length name = 32"
  shows "returns (G_private_to_names (cstr (name[31 := NUL]))) (\<lambda>_. True)"
proof -
  have "name[31 := NUL] = take 31 name @ [NUL]" using assms
    by (simp add: upd_conv_take_nth_drop)
  then have "cstr (name[31 := NUL]) = cstr (take 31 name)"
    by (simp add: cstr_def takeWhile_tail)
  then have l: "length (cstr (name[31 := NUL])) < 32"
    using length_takeWhile_le [of "\<lambda>c. c \<noteq> NUL" "take 31 name"] assms by (simp add: cstr_def)
  define n where "n = cstr (name[31 := NUL])"
  have ln: "length n < 32" using l by (simp only: n_def)
  have "name_array n = take 32 (n @ replicate 32 NUL)" by (simp add: name_array_def MAX_GROUP_NAME_def)
  then have e: "name_array n = n @ replicate (32 - length n) NUL" using ln by simp
  have "NUL \<in> set (tl (n @ replicate (32 - length n) NUL))"
  proof (cases n)
    case Nil
    then show ?thesis by (simp add: in_set_replicate flip: replicate_Suc)
  next
    case (Cons c cs)
    then show ?thesis using ln by simp
  qed
  then show ?thesis
    unfolding n_def [symmetric] G_private_to_names_def Let_def e by simp
qed

lemma validate_returns:
  assumes "wf_mess_header h"
  shows "returns (Sess_validate_read_header i h s) (\<lambda>(ok, h'). wf_mess_header h' \<and> (ok \<longrightarrow> legal_sizes h'))"
proof -
  have n: "returns (legal_sender i (terminate_sender h) s) (\<lambda>_. True)"
    using names_terminated [of "mh_private_group_name h"] assms
    by (auto simp: legal_sender_def terminate_sender_def sender_of_def wf_mess_header_def MAX_GROUP_NAME_def
        intro: returns_seq)
  have w: "wf_mess_header (terminate_sender h)" using assms by (simp add: wf_mess_header_def terminate_sender_def)
  show ?thesis unfolding Sess_validate_read_header_def
  proof (rule returns_seq [OF legal_type_returns])
    fix ok
    show "returns (if \<not> ok then Inr (False, h)
       else let h' = terminate_sender h in bindE (legal_sender i h' s) (\<lambda>ok. Inr (ok \<and> legal_sizes h', h')))
       (\<lambda>(ok, h'). wf_mess_header h' \<and> (ok \<longrightarrow> legal_sizes h'))"
      using n w assms by (auto simp: Let_def intro!: returns_seq [OF n])
  qed
qed

lemma wf_correct_header: "wf_mess_header h \<Longrightarrow> wf_mess_header (correct_header h)"
  by (simp add: correct_header_def wf_mess_header_def Flip_mess_def Let_def)

lemma accepted_wf:
  assumes "accepted i bs s h" and "sizeof_message_header \<le> length bs"
  shows "wf_mess_header h \<and> legal_sizes h"
proof -
  have "wf_mess_header (correct_header (header_of (take sizeof_message_header bs)))"
    using assms(2) by (intro wf_correct_header header_of_head_bytes_wf) simp
  from validate_returns [OF this, of i s] assms(1) show ?thesis by (simp add: accepted_def)
qed

subsection \<open>The invariant\<close>

definition reading :: "nat \<Rightarrow> 8 word list \<Rightarrow> 'a client_st_scheme \<Rightarrow> bool" where
  "reading i bs s \<longleftrightarrow>
     (let p = ses_read (ses_at s i); m = (case read_mess (ses_at s i) of None \<Rightarrow> Message_new_message | Some m \<Rightarrow> m)
      in if in_mess_head p
         then cur_element p = 0 \<and> total_bytes p = 0 \<and> cur_byte p = int (length bs) \<and> length bs < sizeof_message_header
              \<and> take (length bs) (head_bytes (mo_head m)) = bs \<and> wf_mess_header (mo_head m) \<and> mo_data m = [[]]
         else sizeof_message_header \<le> length bs \<and> accepted i bs s (mo_head m) \<and> layout m p
              \<and> concat (mo_data m) = drop sizeof_message_header bs
              \<and> int (length bs) < int sizeof_message_header + body_len (mo_head m))"

text \<open>\<open>whole i bs s m\<close>: \<open>bs\<close> are the bytes of a whole message and \<open>m\<close> is that message.\<close>

definition whole :: "nat \<Rightarrow> 8 word list \<Rightarrow> 'a client_st_scheme \<Rightarrow> message_obj \<Rightarrow> bool" where
  "whole i bs s m \<longleftrightarrow> accepted i bs s (mo_head m) \<and> int (length bs) = int sizeof_message_header + body_len (mo_head m)
     \<and> Message_Buffer_to_Message_Fragments (Message_new_message\<lparr>mo_head := mo_head m\<rparr>) (drop sizeof_message_header bs) = Inr m"

lemma reading_idle:
  assumes "ses_read (ses_at s i) = Message_reset_current_location\<lparr>in_mess_head := True\<rparr>" and "read_mess (ses_at s i) = None"
  shows "reading i [] s"
  using assms by (simp add: reading_def Message_reset_current_location_def Message_new_message_def
      blank_mess_header_def wf_mess_header_def sizeof_message_header_def)

lemma keep_read_fields: "i < length (Sessions s) \<Longrightarrow> received mbox (keep_read i m p s) = received mbox s \<and>
    My (keep_read i m p s) = My s \<and> ses_read (ses_at (keep_read i m p s) i) = p \<and>
    read_mess (ses_at (keep_read i m p s) i) = Some m \<and> ses_name (ses_at (keep_read i m p s) i) = ses_name (ses_at s i)
    \<and> length (Sessions (keep_read i m p s)) = length (Sessions s) \<and> (alive (keep_read i m p s) = alive s)
    \<and> (generous (keep_read i m p s) = generous s)"
  by (simp add: keep_read_def upd_ses_def received_def alive_def generous_def)

lemma accepted_cong:
  "My t = My s \<Longrightarrow> ses_name (ses_at t i) = ses_name (ses_at s i) \<Longrightarrow> accepted i bs t h = accepted i bs s h"
  unfolding accepted_def by (subst validate_cong) simp_all

lemma accepted_append: "sizeof_message_header \<le> length bs \<Longrightarrow> accepted i (bs @ cs) s h = accepted i bs s h"
  by (simp add: accepted_def)

text \<open>What reading on from the body does.\<close>

lemma read_on_spec:
  assumes i: "i < length (Sessions s)" and al: "alive s" and nh: "\<not> in_mess_head p"
    and acc: "accepted i bs s (mo_head m)" "sizeof_message_header \<le> length bs"
    and data: "concat (mo_data m) = drop sizeof_message_header bs"
    and tot: "total_bytes p = int (length (concat (mo_data m)))" "total_bytes p \<le> body_len (mo_head m)"
    and inv: "if total_bytes p = body_len (mo_head m) then packed m else layout m p"
    and small: "int sizeof_message_header + body_len (mo_head m) < int (MAX_SCATTER_ELEMENTS * sizeof_packet_body)"
  shows "\<exists>t new. received mbox t = received mbox s @ new \<and>
     (read_on i mbox m p s = Inr t \<and> reading i (bs @ new) t
      \<or> (\<exists>m'. whole i (bs @ new) s m' \<and> read_on i mbox m p s = take_message i mbox m' t \<and> reading i [] t))"
proof -
  let ?h = "mo_head m" let ?rem = "nat (body_len ?h - total_bytes p)"
  have inv': "if ?rem = 0 then packed m else layout m p" using inv tot(2) by auto
  have "returns (read_body (Suc (Suc MAX_SCATTER_ELEMENTS)) mbox ?rem m p s) (\<lambda>_. True)"
    using small tot(2) by (intro read_body_returns inv') simp_all
  then obtain pr m1 p1 s1 where run: "read_body (Suc (Suc MAX_SCATTER_ELEMENTS)) mbox ?rem m p s = Inr ((pr, m1, p1), s1)"
    by (auto simp: returns_iff)
  from read_body_reads [OF run inv'] obtain new where
    new: "takes_in mbox new m s m1 s1" "length new \<le> ?rem" "pr = Complete \<Longrightarrow> length new = ?rem \<and> packed m1"
      "pr = Later \<Longrightarrow> layout m1 p1 \<and> length new < ?rem \<and> in_mess_head p1 = in_mess_head p" "pr \<noteq> Broken"
    using al by blast
  have ti: "received mbox s1 = received mbox s @ new" "only_recv s s1" "mo_head m1 = ?h"
    "concat (mo_data m1) = concat (mo_data m) @ new" using new(1) by (simp_all add: takes_in_def)
  have same: "My s1 = My s" "Sessions s1 = Sessions s" using only_recvD [OF ti(2)] by auto
  have data1: "concat (mo_data m1) = drop sizeof_message_header (bs @ new)" using ti(4) data acc(2) by simp
  have accn: "accepted i (bs @ new) s ?h" using acc accepted_append by blast
  have len: "int (length bs) = int sizeof_message_header + total_bytes p" using tot(1) data acc(2) by simp
  have on: "read_on i mbox m p s = (case pr of Complete \<Rightarrow> finish_read i mbox m1 s1 | Later \<Rightarrow> Inr (keep_read i m1 p1 s1)
      | Broken \<Rightarrow> Sess_kill mbox (keep_read i m1 p1 s1))" unfolding read_on_def run by simp
  show ?thesis
  proof (cases pr)
    case Later
    let ?t = "keep_read i m1 p1 s1"
    note kf = keep_read_fields [of i s1 mbox m1 p1]
    have it: "i < length (Sessions s1)" using i same by simp
    have "reading i (bs @ new) ?t"
      using new(4) [OF Later] kf [OF it] nh acc(2) accn data1 ti(3) len tot(2)
        accepted_cong [of ?t s i "bs @ new" ?h] same
      by (auto simp: reading_def Let_def)
    then show ?thesis using on Later kf [OF it] ti(1) by (intro exI [of _ ?t] exI [of _ new]) simp
  next
    case Complete
    then have full: "length new = ?rem" "packed m1" using new(3) by simp_all
    let ?t = "upd_ses i (\<lambda>e. e\<lparr>ses_read := Message_reset_current_location\<lparr>in_mess_head := True\<rparr>, read_mess := None\<rparr>) s1"
    have it: "i < length (Sessions s1)" using i same by simp
    have rt: "reading i [] ?t" using it by (intro reading_idle) simp_all
    have rc: "received mbox ?t = received mbox s @ new" using ti(1) by (simp add: received_def upd_ses_def)
    have wf: "wf_mess_header ?h" using accepted_wf [OF acc] by simp
    have bl: "body_len ?h = int (length (concat (mo_data m1)))" using full(1) ti(4) tot by simp
    have fix_ok: "Message_element_len_fixup (mo_head m1) (element_lens m1) = Inr (map length (elements m1))"
      using element_len_fixup [OF full(2), of ?h] wf bl ti(3) small by simp
    have fin: "finish_read i mbox m1 s1 = take_message i mbox m1 ?t" by (simp add: finish_read_def fix_ok Let_def)
    obtain fs d where fd: "mo_data m1 = fs @ [d]" "full_elements fs" "head_room (length fs) + length d \<le> sizeof_packet_body"
      "fs \<noteq> [] \<Longrightarrow> d \<noteq> []" "length fs < MAX_SCATTER_ELEMENTS" using full(2) by (auto simp: packed_def)
    have "Message_Buffer_to_Message_Fragments (Message_new_message\<lparr>mo_head := mo_head m1\<rparr>) (drop sizeof_message_header (bs @ new)) = Inr m1"
      using fragments_packed [OF fd(2-5), of "Message_new_message\<lparr>mo_head := mo_head m1\<rparr>"] data1 fd(1)
      by (cases m1) (simp add: Message_new_message_def)
    moreover have "int (length (bs @ new)) = int sizeof_message_header + body_len ?h" using len full(1) tot(2) by simp
    ultimately have "whole i (bs @ new) s m1" using accn ti(3) by (simp add: whole_def)
    then show ?thesis using on Complete fin rt rc by (intro exI [of _ ?t] exI [of _ new]) auto
  next
    case Broken
    with new(5) show ?thesis by simp
  qed
qed

lemma start_layout:
  assumes "mo_data m = [[]]" and "cur_element p = 0" and "cur_byte p = int sizeof_message_header" and "total_bytes p = 0"
  shows "layout m p" "packed m"
proof -
  show "layout m p" using assms
    by (intro layout_within [of "[]" "[]"]) (simp_all add: head_room_def mess_sizes)
  show "packed m" unfolding packed_def using assms(1)
    by (intro exI [of _ "[]"]) (simp add: head_room_def mess_sizes)
qed

lemma body_len_nonneg: "legal_sizes h \<Longrightarrow> 0 \<le> body_len h"
  by (simp add: legal_sizes_def body_len_def)

definition too_large :: "message_header \<Rightarrow> bool" where
  "too_large h \<longleftrightarrow> int (MAX_SCATTER_ELEMENTS * sizeof_packet_body) \<le> int sizeof_message_header + body_len h"

lemma Sess_read_spec:
  assumes ix: "Sess_get_session_index mbox s = int i" and i: "i < MAX_SESSIONS" "i < length (Sessions s)"
    and al: "alive s" and rd: "reading i bs s"
  shows "\<exists>t new. received mbox t = received mbox s @ new \<and>
     (Sess_read mbox s = Inr t \<and> reading i (bs @ new) t
      \<or> (\<exists>m. whole i (bs @ new) s m \<and> Sess_read mbox s = take_message i mbox m t \<and> reading i [] t)
      \<or> sizeof_message_header = length (bs @ new) \<and> \<not> (\<exists>h. accepted i (bs @ new) s h) \<and> Sess_read mbox s = Sess_kill mbox t
      \<or> (\<exists>h. accepted i (bs @ new) s h \<and> too_large h))"
proof -
  let ?p = "ses_read (ses_at s i)" let ?m = "case read_mess (ses_at s i) of None \<Rightarrow> Message_new_message | Some m \<Rightarrow> m"
  show ?thesis
  proof (cases "in_mess_head ?p")
    case False
    then have r: "sizeof_message_header \<le> length bs" "accepted i bs s (mo_head ?m)" "layout ?m ?p"
      "concat (mo_data ?m) = drop sizeof_message_header bs" "int (length bs) < int sizeof_message_header + body_len (mo_head ?m)"
      using rd by (simp_all add: reading_def Let_def)
    have run: "Sess_read mbox s = read_on i mbox ?m ?p s" using ix i False by (simp add: Sess_read_def Let_def)
    show ?thesis
    proof (cases "too_large (mo_head ?m)")
      case True
      then show ?thesis using r(2) by (intro exI [of _ s] exI [of _ "[]"]) auto
    next
      case small: False
      have tot: "total_bytes ?p = int (length (concat (mo_data ?m)))" using r(3) by (auto simp: layout_def)
      have le: "total_bytes ?p < body_len (mo_head ?m)" using tot r(1,4,5) by simp
      from read_on_spec [OF i(2) al False r(2,1,4) tot, of mbox] small le r(3)
      obtain t new where "received mbox t = received mbox s @ new"
        "read_on i mbox ?m ?p s = Inr t \<and> reading i (bs @ new) t
         \<or> (\<exists>m'. whole i (bs @ new) s m' \<and> read_on i mbox ?m ?p s = take_message i mbox m' t \<and> reading i [] t)"
        by (auto simp: too_large_def)
      then show ?thesis unfolding run by blast
    qed
  next
    case True
    then have r: "cur_element ?p = 0" "total_bytes ?p = 0" "cur_byte ?p = int (length bs)" "length bs < sizeof_message_header"
      "take (length bs) (head_bytes (mo_head ?m)) = bs" "wf_mess_header (mo_head ?m)" "mo_data ?m = [[]]"
      using rd by (simp_all add: reading_def Let_def)
    obtain pr m1 p1 s1 where h: "read_header mbox ?m ?p s = ((pr, m1, p1), s1)" by (metis prod.exhaust)
    from read_header_reads [OF h r(3-6)] obtain cs where
      cs: "received mbox s1 = received mbox s @ cs" "only_recv s s1" "mo_data m1 = [[]]" "pr \<noteq> Broken"
      "pr = Complete \<Longrightarrow> length (bs @ cs) = sizeof_message_header \<and> mo_head m1 = header_of (bs @ cs)
          \<and> p1 = ?p\<lparr>in_mess_head := False, cur_byte := int sizeof_message_header\<rparr>"
      "pr = Later \<Longrightarrow> length (bs @ cs) < sizeof_message_header \<and> take (length (bs @ cs)) (head_bytes (mo_head m1)) = bs @ cs
          \<and> wf_mess_header (mo_head m1) \<and> p1 = ?p\<lparr>cur_byte := int (length (bs @ cs))\<rparr>" using al r(7) by auto
    have same: "My s1 = My s" "Sessions s1 = Sessions s" using only_recvD [OF cs(2)] by auto
    have i1: "i < length (Sessions s1)" using i(2) same by simp
    note kf = keep_read_fields [OF i1, of mbox]
    have run: "Sess_read mbox s = (case pr of Later \<Rightarrow> Inr (keep_read i m1 p1 s1) | Broken \<Rightarrow> Sess_kill mbox (keep_read i m1 p1 s1)
        | Complete \<Rightarrow> bindE (Sess_validate_read_header i (correct_header (mo_head m1)) s1) (\<lambda>(ok, h).
            let m2 = m1\<lparr>mo_head := h\<rparr> in if \<not> ok then Sess_kill mbox (keep_read i m2 p1 s1)
              else read_on i mbox m2 p1 (keep_read i m2 p1 s1)))"
      unfolding Sess_read_def Let_def ix nat_int using i True by (simp add: h)
    show ?thesis
    proof (cases pr)
      case Broken
      with cs(4) show ?thesis by simp
    next
      case Later
      have "reading i (bs @ cs) (keep_read i m1 p1 s1)"
        using cs(3,6) Later True r(1,2) kf by (auto simp: reading_def Let_def)
      then show ?thesis using run Later kf cs(1) by (intro exI [of _ "keep_read i m1 p1 s1"] exI [of _ cs]) simp
    next
      case Complete
      have c: "length (bs @ cs) = sizeof_message_header" "mo_head m1 = header_of (bs @ cs)"
        "p1 = ?p\<lparr>in_mess_head := False, cur_byte := int sizeof_message_header\<rparr>" using cs(5) [OF Complete] by auto
      have "wf_mess_header (correct_header (mo_head m1))"
        using c by (simp only: c(2)) (intro wf_correct_header header_of_head_bytes_wf)
      from validate_returns [OF this, of i s1] obtain ok hd' where
        v: "Sess_validate_read_header i (correct_header (mo_head m1)) s1 = Inr (ok, hd')" by (auto simp: returns_iff)
      have v': "Sess_validate_read_header i (correct_header (header_of (take sizeof_message_header (bs @ cs)))) s = Inr (ok, hd')"
        using v c same validate_cong [of s1 s i "correct_header (header_of (bs @ cs))"] by simp
      let ?m2 = "m1\<lparr>mo_head := hd'\<rparr>" let ?t = "keep_read i ?m2 p1 s1"
      have rc: "received mbox ?t = received mbox s @ cs" using kf cs(1) by simp
      show ?thesis
      proof (cases ok)
        case False
        have "\<not> accepted i (bs @ cs) s h" for h using v' False by (simp add: accepted_def)
        then show ?thesis using run Complete v False rc c(1) by (intro exI [of _ ?t] exI [of _ cs]) simp
      next
        case ok: True
        have acc: "accepted i (bs @ cs) s hd'" using v' ok by (simp add: accepted_def)
        show ?thesis
        proof (cases "too_large hd'")
          case True
          then show ?thesis using acc rc by (intro exI [of _ ?t] exI [of _ cs]) blast
        next
          case small: False
          have on: "Sess_read mbox s = read_on i mbox ?m2 p1 ?t" unfolding run using Complete v ok by (simp add: Let_def)
          have acct: "accepted i (bs @ cs) ?t (mo_head ?m2)"
            using acc accepted_cong [of ?t s i "bs @ cs" hd'] kf same by simp
          have lay: "layout ?m2 p1" "packed ?m2"
            using start_layout [of ?m2 p1] cs(3) c(3) r(1,2) by simp_all
          have "0 \<le> body_len hd'" using accepted_wf [OF acc] c(1) body_len_nonneg by simp
          then have pre: "i < length (Sessions ?t)" "alive ?t" "\<not> in_mess_head p1" "sizeof_message_header \<le> length (bs @ cs)"
            "concat (mo_data ?m2) = drop sizeof_message_header (bs @ cs)" "total_bytes p1 = int (length (concat (mo_data ?m2)))"
            "total_bytes p1 \<le> body_len (mo_head ?m2)" "if total_bytes p1 = body_len (mo_head ?m2) then packed ?m2 else layout ?m2 p1"
            "int sizeof_message_header + body_len (mo_head ?m2) < int (MAX_SCATTER_ELEMENTS * sizeof_packet_body)"
            using lay small kf i1 al cs(2,3) c(1,3) r(2) only_recv_oracle [OF cs(2)] by (simp_all add: too_large_def)
          obtain t new where t: "received mbox t = received mbox ?t @ new"
            "read_on i mbox ?m2 p1 ?t = Inr t \<and> reading i ((bs @ cs) @ new) t
             \<or> (\<exists>m'. whole i ((bs @ cs) @ new) ?t m' \<and> read_on i mbox ?m2 p1 ?t = take_message i mbox m' t \<and> reading i [] t)"
            using read_on_spec [OF pre(1-3) acct pre(4-9), of mbox] by metis
          have w: "whole i bs' ?t m' = whole i bs' s m'" for bs' m'
            using accepted_cong [of ?t s i bs'] kf same by (simp add: whole_def)
          show ?thesis
            by (rule exI [of _ t], rule exI [of _ "cs @ new"]) (use t rc on w in auto)
        qed
      qed
    qed
  qed
qed

text \<open>A header that is accepted although its message does not fit: the daemon stops.\<close>

lemma oversized_stops:
  assumes ix: "Sess_get_session_index mbox s = int i" and i: "i < MAX_SESSIONS" "i < length (Sessions s)"
    and gen: "generous s" and idle: "ses_read (ses_at s i) = Message_reset_current_location\<lparr>in_mess_head := True\<rparr>"
      "read_mess (ses_at s i) = None"
    and hb: "recv_ret s (recv_calls s) sizeof_message_header = Got bs"
    and acc: "accepted i bs s h" and big: "int (MAX_SCATTER_ELEMENTS * sizeof_packet_body) < int sizeof_message_header + body_len h"
  shows "Sess_read mbox s = Inl (Assert_fail ''Message_add_scat_element'')"
proof -
  let ?p = "Message_reset_current_location\<lparr>in_mess_head := True\<rparr>"
  have lb: "sizeof_message_header \<le> length bs"
    using gen hb unfolding generous_def by (metis recv_result.inject(1))
  obtain s1 where r: "sock_recv mbox sizeof_message_header s = (Got (take sizeof_message_header bs), s1)"
    using hb by (simp add: sock_recv_def Let_def)
  let ?m = "put_head_bytes 0 (take sizeof_message_header bs) Message_new_message"
  let ?p1 = "?p\<lparr>in_mess_head := False, cur_byte := int sizeof_message_header\<rparr>"
  have m: "?m = Message_new_message\<lparr>mo_head := header_of (take sizeof_message_header bs)\<rparr>"
    using lb by (simp add: put_head_bytes_def Message_new_message_def blank_mess_header_def wf_mess_header_def
        sizeof_message_header_def Let_def)
  have h: "read_header mbox Message_new_message ?p s = ((Complete, ?m, ?p1), s1)"
    using r lb by (simp add: read_header_def Let_def Message_reset_current_location_def Message_set_location_begin_body_def)
  note on1 = only_recvD [OF sock_recv_only [OF r]]
  have v: "Sess_validate_read_header i (correct_header (mo_head ?m)) s1 = Inr (True, h)"
    using acc on1 validate_cong [of s1 s i] by (simp add: m accepted_def)
  let ?m2 = "?m\<lparr>mo_head := h\<rparr>" let ?t = "keep_read i ?m2 ?p1 s1"
  have run: "Sess_read mbox s = read_on i mbox ?m2 ?p1 ?t"
    using ix i idle h v by (simp add: Sess_read_def Let_def Message_reset_current_location_def)
  have d: "mo_data ?m = [[]]" unfolding m by (simp add: Message_new_message_def)
  have lay: "layout ?m2 ?p1"
    by (rule start_layout(1)) (simp_all add: d Message_reset_current_location_def)
  have g: "generous ?t" using gen only_recv_oracle [OF sock_recv_only [OF r]] keep_read_fields [of i s1] i(2) on1 by simp
  have t0: "total_bytes ?p1 = 0" "cur_element ?p1 = 0" by (simp_all add: Message_reset_current_location_def)
  have b: "0 < body_len h" using big by (simp add: mess_sizes)
  have "read_body (Suc (Suc MAX_SCATTER_ELEMENTS)) mbox (nat (body_len h)) ?m2 ?p1 ?t = Inl (Assert_fail ''Message_add_scat_element'')"
    using big b t0 by (intro read_body_overflows lay g) simp_all
  then show ?thesis unfolding run read_on_def using t0 by simp
qed

end
