(* ===== verification/Group_Messages.thy ===== *)
theory Group_Messages
  imports Group_Exchange
begin

section \<open>Groups messages say what they were built from\<close>

text \<open>
  Reading the buffers built from a list of groups gives back the synced set and, daemon by
  daemon, the members of every group, in either byte order and however the daemons were spread
  over buffers. Building ends when every daemon's members fit one buffer.
\<close>

subsection \<open>Reading what was written\<close>

lemma get_append [simp]: "length a = n \<Longrightarrow> get n (a @ r) = Inr (a, r)"
  by (auto simp: get_def)

lemma get_one [simp]: "get (Suc 0) (b # r) = Inr ([b], r)"
  by (simp add: get_def)

lemma get32_bytes [simp]: "get32 f (bytes32 f w @ r) = Inr (w, r)"
  using order32_read [of f w "[]"] by (simp add: get32_def)

lemma get16_bytes [simp]: "get16 f (bytes16 f w @ r) = Inr (w, r)"
  using order16_read [of f w "[]"] by (simp add: get16_def)

lemma get_name_bytes [simp]: "Bytes.fits 32 name \<Longrightarrow> get_name (name_bytes name @ r) = Inr (name, r)"
proof -
  assume f: "Bytes.fits 32 name"
  then obtain k where k: "32 - length name = Suc k" by (metis Bytes.fits_def Suc_diff_Suc)
  then have "NUL \<in> set (name_array name)"
    using f by (simp add: name_array_def MAX_GROUP_NAME_def Bytes.fits_def)
  then show ?thesis using cstr_name_array [OF f] by (simp add: get_name_def name_bytes_def MAX_GROUP_NAME_def)
qed

lemma get_many_concat:
  "(\<And>x r. x \<in> set xs \<Longrightarrow> p (enc x @ r) = Inr (x, r)) \<Longrightarrow>
   get_many (length xs) p (concat (map enc xs) @ r) = Inr (xs, r)"
  by (induction xs) simp_all

text \<open>Times and indices are 32-bit.\<close>

definition memb_id32 :: "membership_id \<Rightarrow> bool" where
  "memb_id32 m \<longleftrightarrow> is_int32 (mid_time m)"

definition group_id32 :: "group_id \<Rightarrow> bool" where
  "group_id32 g \<longleftrightarrow> memb_id32 (gid_memb_id g) \<and> is_int32 (gid_index g)"

lemma get_memb_id_put [simp]: "memb_id32 m \<Longrightarrow> get_memb_id f (put_memb_id f m @ r) = Inr (m, r)"
  by (simp add: get_memb_id_def put_memb_id_def memb_id32_def sint_of_int32)

lemma get_group_id_put [simp]: "group_id32 g \<Longrightarrow> get_group_id f (put_group_id f g @ r) = Inr (g, r)"
  by (simp add: get_group_id_def put_group_id_def group_id32_def sint_of_int32)

definition daemon_fits :: "daemon_members \<Rightarrow> bool" where
  "daemon_fits d \<longleftrightarrow> (\<forall>m \<in> set (dm_members d). Bytes.fits 32 m) \<and> length (dm_members d) < 65536"

lemma get_daemon_entry:
  assumes "daemon_fits d" and "memb_id32 mid"
  shows "get_daemon f (daemon_entry f mid d @ r) = Inr (d\<lparr>dm_memb_id := mid\<rparr>, r)"
proof -
  have "unat (of_nat (length (dm_members d)) :: 16 word) = length (dm_members d)"
    using assms(1) by (simp add: daemon_fits_def unat_of_nat)
  moreover have "get_many (length (dm_members d)) get_name (concat (map name_bytes (dm_members d)) @ r) = Inr (dm_members d, r)"
    using assms(1) by (intro get_many_concat) (simp add: daemon_fits_def)
  ultimately show ?thesis using assms(2) by (simp add: get_daemon_def daemon_entry_def)
qed

text \<open>One group of a message, written.\<close>

definition put_group_info :: "bool \<Rightarrow> group_info \<Rightarrow> 8 word list" where
  "put_group_info f gi = name_bytes (gi_name gi) @ put_group_id f (gi_id gi)
     @ bytes16 f (if gi_changed gi then 1 else 0) @ bytes16 f (of_nat (length (gi_daemons gi)))
     @ concat (map (\<lambda>d. daemon_entry f (dm_memb_id d) d) (gi_daemons gi))"

definition info_fits :: "group_info \<Rightarrow> bool" where
  "info_fits gi \<longleftrightarrow> Bytes.fits 32 (gi_name gi) \<and> group_id32 (gi_id gi) \<and> length (gi_daemons gi) < 65536
     \<and> (\<forall>d \<in> set (gi_daemons gi). daemon_fits d \<and> memb_id32 (dm_memb_id d))"

lemma flag_read: "get16 False (bytes16 f (if c then 1 else 0) @ r) = Inr (w, r') \<longleftrightarrow>
    r' = r \<and> w = (if c then if f then 256 else 1 else 0)"
proof -
  have "read16 (bytes16 f (if c then 1 else 0)) = (if c then if f then 256 else 1 else 0)"
    by (cases f; cases c) (simp_all add: bytes16_def host16_def read16_def drop_bit_eq_div push_bit_eq_mult)
  then show ?thesis by (auto simp: get16_def order16_def)
qed

lemma get_put_group_info:
  assumes "info_fits gi"
  shows "get_group_info f (put_group_info f gi @ r) = Inr (gi, r)"
proof -
  have n: "unat (of_nat (length (gi_daemons gi)) :: 16 word) = length (gi_daemons gi)"
    using assms by (simp add: info_fits_def unat_of_nat)
  have d: "get_many (length (gi_daemons gi)) (get_daemon f)
      (concat (map (\<lambda>d. daemon_entry f (dm_memb_id d) d) (gi_daemons gi)) @ r) = Inr (gi_daemons gi, r)"
    using assms by (intro get_many_concat) (simp add: info_fits_def get_daemon_entry)
  have c: "get16 False (bytes16 f (if c then 1 else 0) @ r) = Inr (if c then if f then 256 else 1 else 0, r)" for c r
    using flag_read by blast
  show ?thesis
    using assms n d by (cases gi) (simp add: get_group_info_def put_group_info_def info_fits_def c)
qed

lemma put_group_info_ne: "put_group_info f gi = b # bs \<Longrightarrow> True" "put_group_info f gi \<noteq> []"
  using length_name_bytes [of "gi_name gi"] by (auto simp: put_group_info_def simp flip: length_0_conv)

lemma get_groups_put:
  "\<forall>gi \<in> set gis. info_fits gi \<Longrightarrow> length gis \<le> n \<Longrightarrow> get_groups n f (concat (map (put_group_info f) gis)) = Inr gis"
proof (induction gis arbitrary: n)
  case (Cons gi gis)
  obtain k where k: "n = Suc k" using Cons.prems(2) by (cases n) auto
  obtain b bs where b: "put_group_info f gi @ concat (map (put_group_info f) gis) = b # bs"
    using put_group_info_ne(2) [of f gi] by (cases "put_group_info f gi") auto
  have "get_group_info f (b # bs) = Inr (gi, concat (map (put_group_info f) gis))"
    using get_put_group_info Cons.prems(1) by (simp flip: b)
  then show ?case using Cons.IH [of k] Cons.prems by (simp add: k b)
qed (cases n, simp_all)

subsection \<open>What was written\<close>

text \<open>
  The contents of messages, daemon by daemon: the group's name, id and flag, and the daemon as the
  message has it, with the membership id of the group.
\<close>

record entry =
  en_name :: string
  en_id :: group_id
  en_changed :: bool
  en_daemon :: daemon_members

definition entries :: "group \<Rightarrow> daemon_members list \<Rightarrow> entry list" where
  "entries g ds = map (\<lambda>d. \<lparr>en_name = grp_name g, en_id = grp_id g, en_changed = grp_changed g,
     en_daemon = d\<lparr>dm_memb_id := gid_memb_id (grp_id g)\<rparr>\<rparr>) ds"

definition all_entries :: "group list \<Rightarrow> daemon_members list \<Rightarrow> entry list" where
  "all_entries git dit = (case git of [] \<Rightarrow> []
     | g # gs \<Rightarrow> entries g dit @ concat (map (\<lambda>g. entries g (grp_daemons g)) gs))"

definition info_entries :: "group_info \<Rightarrow> entry list" where
  "info_entries gi = map (\<lambda>d. \<lparr>en_name = gi_name gi, en_id = gi_id gi, en_changed = gi_changed gi, en_daemon = d\<rparr>) (gi_daemons gi)"

definition group_fits :: "group \<Rightarrow> bool" where
  "group_fits g \<longleftrightarrow> Bytes.fits 32 (grp_name g) \<and> group_id32 (grp_id g) \<and> length (grp_daemons g) < 65536
     \<and> (\<forall>d \<in> set (grp_daemons g). daemon_fits d)"

definition info_of :: "group \<Rightarrow> daemon_members list \<Rightarrow> group_info" where
  "info_of g ds = \<lparr>gi_name = grp_name g, gi_id = grp_id g, gi_changed = grp_changed g,
     gi_daemons = map (\<lambda>d. d\<lparr>dm_memb_id := gid_memb_id (grp_id g)\<rparr>) ds\<rparr>"

lemma info_of_entries [simp]: "info_entries (info_of g ds) = entries g ds"
  by (simp add: info_entries_def info_of_def entries_def)

lemma daemon_entry_stamp [simp]: "daemon_entry f m (d\<lparr>dm_memb_id := m'\<rparr>) = daemon_entry f m d"
  by (simp add: daemon_entry_def)

lemma put_info_of: "put_group_info f (info_of g ds) =
    group_head f g (length ds) @ concat (map (daemon_entry f (gid_memb_id (grp_id g))) ds)"
  by (simp add: put_group_info_def info_of_def group_head_def comp_def)

lemma info_of_fits: "group_fits g \<Longrightarrow> set ds \<subseteq> set (grp_daemons g) \<Longrightarrow> length ds \<le> length (grp_daemons g) \<Longrightarrow> info_fits (info_of g ds)"
  by (auto simp: info_fits_def info_of_def group_fits_def daemon_fits_def group_id32_def)

text \<open>The two loops of the builder write a prefix of what is left.\<close>

lemma build_daemons_writes:
  "\<forall>d \<in> set dit. daemon_fits d \<Longrightarrow>
   returns (build_daemons f mid dit num) (\<lambda>(bs, n, dit'). \<exists>ds. dit = ds @ dit' \<and> n = length ds
     \<and> bs = concat (map (daemon_entry f mid) ds))"
proof (induction dit arbitrary: num)
  case (Cons d dit)
  have "unat (of_nat (length (dm_members d)) :: 16 word) = length (dm_members d)"
    using Cons.prems by (simp add: daemon_fits_def unat_of_nat)
  moreover obtain bs n dit' ds where "build_daemons f mid dit (num + length (daemon_entry f mid d)) = Inr (bs, n, dit')"
    "dit = ds @ dit'" "n = length ds" "bs = concat (map (daemon_entry f mid) ds)"
    using Cons.IH [of "num + length (daemon_entry f mid d)"] Cons.prems by (auto elim!: returnsE)
  ultimately show ?case
    by (auto simp: Let_def intro: exI [of _ "[]"] exI [of _ "d # ds"])
qed simp

definition rest_of :: "group list \<Rightarrow> daemon_members list \<Rightarrow> bool" where
  "rest_of git dit \<longleftrightarrow> (case git of [] \<Rightarrow> dit = [] | g # _ \<Rightarrow> (\<exists>ds. grp_daemons g = ds @ dit)) \<and> (\<forall>g \<in> set git. group_fits g)"

lemma rest_of_first: "\<forall>g \<in> set git. group_fits g \<Longrightarrow> rest_of git (first_daemons git)"
  by (auto simp: rest_of_def first_daemons_def split: list.splits)

lemma build_groups_writes:
  "rest_of git dit \<Longrightarrow>
   returns (build_groups f git dit num) (\<lambda>(bs, git', dit'). \<exists>gis. bs = concat (map (put_group_info f) gis)
     \<and> (\<forall>gi \<in> set gis. info_fits gi) \<and> rest_of git' dit'
     \<and> concat (map info_entries gis) @ all_entries git' dit' = all_entries git dit)"
proof (induction f git dit num rule: build_groups.induct)
  case (1 f dit num)
  then show ?case by (auto intro: exI [of _ "[]"])
next
  case (2 f g git dit num)
  show ?case
  proof (cases "GROUPS_BUF_GROUP_INFO_SIZE + sizeof_message_header > GROUPS_BUF_SIZE - num")
    case True
    then show ?thesis using 2(2) by (auto intro: exI [of _ "[]"])
  next
    case False
    let ?mid = "gid_memb_id (grp_id g)"
    have g: "group_fits g" and "\<exists>ds. grp_daemons g = ds @ dit" using 2(2) by (auto simp: rest_of_def)
    then obtain ds0 where ds0: "grp_daemons g = ds0 @ dit" by auto
    have "\<forall>d \<in> set dit. daemon_fits d" using g ds0 by (simp add: group_fits_def)
    from build_daemons_writes [OF this, of f ?mid "num + GROUPS_BUF_GROUP_INFO_SIZE"]
    obtain bs n dit' ds where b: "build_daemons f ?mid dit (num + GROUPS_BUF_GROUP_INFO_SIZE) = Inr (bs, n, dit')"
      "dit = ds @ dit'" "n = length ds" "bs = concat (map (daemon_entry f ?mid) ds)" by (auto elim!: returnsE)
    have e: "group_head f g n @ bs = put_group_info f (info_of g ds)" by (simp add: put_info_of b(3,4))
    have i: "info_fits (info_of g ds)" using g ds0 b(2) by (intro info_of_fits) auto
    show ?thesis
    proof (cases "dit' = []")
      case full: False
      then have "build_groups f (g # git) dit num = Inr (put_group_info f (info_of g ds), g # git, dit')"
        using False b(1) e by simp
      moreover have "rest_of (g # git) dit'" using 2(2) ds0 b(2) by (auto simp: rest_of_def)
      ultimately show ?thesis
        using i b(2) by (auto simp: all_entries_def entries_def intro!: exI [of _ "[info_of g ds]"])
    next
      case True
      let ?next = "case git of [] \<Rightarrow> [] | g' # _ \<Rightarrow> grp_daemons g'"
      have "rest_of git ?next" using rest_of_first [of git] 2(2) by (simp add: rest_of_def first_daemons_def)
      then have "returns (build_groups f git ?next (num + length (group_head f g n @ bs)))
        (\<lambda>(bs, git', dit'). \<exists>gis. bs = concat (map (put_group_info f) gis)
          \<and> (\<forall>gi \<in> set gis. info_fits gi) \<and> rest_of git' dit'
          \<and> concat (map info_entries gis) @ all_entries git' dit' = all_entries git ?next)"
        using 2(1) False b(1) True by simp
      then obtain bs' git'' dit'' gis where r: "build_groups f git ?next (num + length (group_head f g n @ bs)) = Inr (bs', git'', dit'')"
        "bs' = concat (map (put_group_info f) gis)" "\<forall>gi \<in> set gis. info_fits gi" "rest_of git'' dit''"
        "concat (map info_entries gis) @ all_entries git'' dit'' = all_entries git ?next"
        by (auto elim!: returnsE)
      have "build_groups f (g # git) dit num = Inr (put_group_info f (info_of g ds) @ bs', git'', dit'')"
        using False b(1) True r(1) e by simp
      moreover have "all_entries (g # git) dit = entries g ds @ all_entries git ?next"
        using b(2) True by (cases git) (simp_all add: all_entries_def)
      ultimately show ?thesis
        using r i by (auto intro!: exI [of _ "info_of g ds # gis"])
    qed
  qed
qed

subsection \<open>Building makes progress\<close>

definition daemon_small :: "daemon_members \<Rightarrow> bool" where
  "daemon_small d \<longleftrightarrow> length (dm_members d) \<le> 3000"

lemma to_write_first: "to_write git (first_daemons git) = length git + sum_list (map (\<lambda>g. length (grp_daemons g)) git)"
  by (cases git) (simp_all add: to_write_def first_daemons_def)

lemma build_daemons_progress:
  "build_daemons f mid dit num = Inr (bs, n, dit') \<Longrightarrow> length dit' \<le> length dit
   \<and> (num \<le> GROUPS_BUF_PREAMBLE_SIZE + GROUPS_BUF_GROUP_INFO_SIZE \<longrightarrow> dit \<noteq> [] \<longrightarrow> daemon_small (hd dit)
      \<longrightarrow> length dit' < length dit)"
proof (induction dit arbitrary: num bs n)
  case (Cons d dit)
  show ?case
  proof (cases "GROUPS_BUF_DAEMON_INFO_SIZE + length (dm_members d) * MAX_GROUP_NAME + sizeof_message_header > GROUPS_BUF_SIZE - num")
    case True
    then have "dit' = d # dit" using Cons.prems by simp
    then show ?thesis using True by (auto simp: groups_buf_sizes daemon_small_def)
  next
    case False
    then obtain bs' n' where "build_daemons f mid dit (num + length (daemon_entry f mid d)) = Inr (bs', n', dit')"
      using Cons.prems by (auto simp: Let_def bindE_eq_Inr split: if_splits)
    from Cons.IH [OF this] show ?thesis by auto
  qed
qed simp

lemma build_groups_progress:
  "build_groups f git dit num = Inr (bs, git', dit') \<Longrightarrow>
   set git' \<subseteq> set git \<and> to_write git' dit' \<le> to_write git dit
   \<and> (num \<le> GROUPS_BUF_PREAMBLE_SIZE \<longrightarrow> git \<noteq> [] \<longrightarrow> dit = [] \<or> daemon_small (hd dit)
      \<longrightarrow> to_write git' dit' < to_write git dit)"
proof (induction f git dit num arbitrary: bs git' dit' rule: build_groups.induct)
  case (2 f g git dit num)
  let ?first = "case git of [] \<Rightarrow> [] | g' # _ \<Rightarrow> grp_daemons g'"
  show ?case
  proof (cases "GROUPS_BUF_GROUP_INFO_SIZE + sizeof_message_header > GROUPS_BUF_SIZE - num")
    case True
    then show ?thesis using 2(2) by (auto simp: groups_buf_sizes)
  next
    case False
    obtain b n d where d: "build_daemons f (gid_memb_id (grp_id g)) dit (num + GROUPS_BUF_GROUP_INFO_SIZE) = Inr (b, n, d)"
      using 2(2) False by (auto simp: bindE_eq_Inr)
    note D = build_daemons_progress [OF d]
    show ?thesis
    proof (cases "d = []")
      case full: False
      then have "git' = g # git" "dit' = d" using 2(2) False d by auto
      then show ?thesis using D full by (auto simp: to_write_def)
    next
      case True
      then obtain bs' where "build_groups f git ?first (num + length (group_head f g n @ b)) = Inr (bs', git', dit')"
        using 2(2) False d by (auto simp: bindE_eq_Inr)
      then have "set git' \<subseteq> set git" "to_write git' dit' \<le> to_write git ?first"
        using 2(1) [OF False refl, of "[]"] by auto
      then show ?thesis using to_write_first [of git] by (auto simp: first_daemons_def to_write_def)
    qed
  qed
qed simp

subsection \<open>Building and reading the buffers\<close>

lemma length_put_memb_id [simp]: "length (put_memb_id f m) = 8"
  by (simp add: put_memb_id_def)

lemma length_put_info: "length gis \<le> length (concat (map (put_group_info f) gis))"
proof (induction gis)
  case (Cons gi gis)
  have "0 < length (put_group_info f gi)" using put_group_info_ne(2) [of f gi] by simp
  with Cons show ?case unfolding list.map concat.simps length_append list.size by linarith
qed simp

lemma read_first:
  assumes "\<forall>gi \<in> set gis. info_fits gi" and "length ps \<le> 128"
  shows "read_groups_data f (groups_preamble f first mid ps @ concat (map (put_group_info f) gis))
    = Inr (if first then Some ps else None, gis)"
proof -
  let ?bs = "concat (map (put_group_info f) gis)"
  have g: "get_groups (length ?bs) f ?bs = Inr gis" using get_groups_put [OF assms(1)] length_put_info by blast
  have n: "unat (of_nat (length ps) :: 32 word) = length ps" using assms(2) by (simp add: unat_of_nat)
  then have "\<not> word_of_int MAX_PROCS_RING < (of_nat (length ps) :: 32 word)"
    using assms(2) by (simp add: MAX_PROCS_RING_def word_less_nat_alt)
  moreover have "get_many (length ps) (get32 f) (concat (map (bytes32 f) ps) @ ?bs) = Inr (ps, ?bs)"
    by (rule get_many_concat) simp
  ultimately show ?thesis
    using g n by (cases first) (simp_all add: read_groups_data_def groups_preamble_def)
qed

lemma build_bufs_reads:
  assumes "rest_of git dit" and "\<forall>g \<in> set git. \<forall>d \<in> set (grp_daemons g). daemon_small d" and "length (MySyncedSet s) \<le> 128"
    and "to_write git dit + (if first then 1 else 0) \<le> n" and "first \<or> git \<noteq> []"
  shows "returns (build_bufs n f first git dit s) (\<lambda>bufs. \<exists>gis giss.
     map (read_groups_data f) bufs = Inr (if first then Some (MySyncedSet s) else None, gis) # map (\<lambda>x. Inr (None, x)) giss
     \<and> concat (map info_entries (gis @ concat giss)) = all_entries git dit)"
  using assms
proof (induction n arbitrary: first git dit)
  case 0
  then show ?case by (auto simp: to_write_def)
next
  case (Suc n)
  define pre where "pre = groups_preamble f first (G_Reg_memb_id s) (MySyncedSet s)"
  obtain bs git' dit' gis where b: "build_groups f git dit (length pre) = Inr (bs, git', dit')"
    "bs = concat (map (put_group_info f) gis)" "\<forall>gi \<in> set gis. info_fits gi" "rest_of git' dit'"
    "concat (map info_entries gis) @ all_entries git' dit' = all_entries git dit"
    using build_groups_writes [OF Suc.prems(1), of f "length pre"] by (auto elim!: returnsE)
  have r: "read_groups_data f (pre @ bs) = Inr (if first then Some (MySyncedSet s) else None, gis)"
    unfolding pre_def b(2) by (rule read_first [OF b(3) Suc.prems(3)])
  have e: "G_build_groups_buf f first git dit s = Inr (pre @ bs, git', dit')"
    by (simp add: G_build_groups_buf_def Let_def b(1) flip: pre_def)
  show ?case
  proof (cases "git' = []")
    case True
    then show ?thesis using e r b(5) by (auto simp: all_entries_def intro!: exI [of _ gis] exI [of _ "[]"])
  next
    case False
    note P = build_groups_progress [OF b(1)]
    then have sub: "set git' \<subseteq> set git" by simp
    then have "git \<noteq> []" using False by auto
    then obtain g gs ds where g: "git = g # gs" "grp_daemons g = ds @ dit"
      using Suc.prems(1) by (cases git) (auto simp: rest_of_def)
    then have "\<forall>d \<in> set (grp_daemons g). daemon_small d" using Suc.prems(2) by simp
    then have "dit = [] \<or> daemon_small (hd dit)" unfolding g(2) by (cases dit) simp_all
    moreover have "\<not> first \<Longrightarrow> length pre \<le> GROUPS_BUF_PREAMBLE_SIZE"
      by (simp add: pre_def groups_preamble_def GROUPS_BUF_PREAMBLE_SIZE_def)
    ultimately have "to_write git' dit' \<le> n"
      using P Suc.prems(4) \<open>git \<noteq> []\<close> by (cases first) auto
    then have "returns (build_bufs n f False git' dit' s) (\<lambda>bufs. \<exists>gis giss.
       map (read_groups_data f) bufs = Inr (None, gis) # map (\<lambda>x. Inr (None, x)) giss
       \<and> concat (map info_entries (gis @ concat giss)) = all_entries git' dit')"
      using Suc.IH [of git' dit' False] b(4) sub Suc.prems(2,3) False by auto
    then obtain bufs gis' giss where i: "build_bufs n f False git' dit' s = Inr bufs"
       "map (read_groups_data f) bufs = map (\<lambda>x. Inr (None, x)) (gis' # giss)"
       "concat (map info_entries (concat (gis' # giss))) = all_entries git' dit'"
      by (auto elim!: returnsE)
    have "map (read_groups_data f) ((pre @ bs) # bufs) = Inr (if first then Some (MySyncedSet s) else None, gis)
        # map (\<lambda>x. Inr (None, x)) (gis' # giss)"
      by (simp only: list.map(2) r i(2))
    moreover have "concat (map info_entries (gis @ concat (gis' # giss))) = all_entries git dit"
      using b(5) i(3) by simp
    moreover have "build_bufs (Suc n) f first git dit s = Inr ((pre @ bs) # bufs)" using e False i(1) by simp
    ultimately show ?thesis unfolding returns_iff by (intro exI conjI)
  qed
qed

text \<open>
  Together: every daemon's groups messages, as it would write them in its byte order, are read
  back by any other as the synced set and all its groups.
\<close>

definition writable_groups :: "'a groups_st_scheme \<Rightarrow> bool" where
  "writable_groups s \<longleftrightarrow> length (MySyncedSet s) \<le> 128
     \<and> (\<forall>g \<in> set (GroupsList s). group_fits g \<and> (\<forall>d \<in> set (grp_daemons g). daemon_small d))"

lemma new_bufs_read:
  assumes "writable_groups s"
  shows "returns (build_bufs (Suc (to_write (GroupsList s) (first_daemons (GroupsList s)))) f True
      (GroupsList s) (first_daemons (GroupsList s)) s) (\<lambda>bufs. \<exists>gis giss.
     map (read_groups_data f) bufs = Inr (Some (MySyncedSet s), gis) # map (\<lambda>x. Inr (None, x)) giss
     \<and> concat (map info_entries (gis @ concat giss))
       = concat (map (\<lambda>g. entries g (grp_daemons g)) (GroupsList s)))"
proof -
  let ?git = "GroupsList s"
  have "all_entries ?git (first_daemons ?git) = concat (map (\<lambda>g. entries g (grp_daemons g)) ?git)"
    by (cases ?git) (simp_all add: all_entries_def first_daemons_def)
  moreover have "rest_of ?git (first_daemons ?git)"
    using assms by (intro rest_of_first) (simp add: writable_groups_def)
  ultimately show ?thesis
    using build_bufs_reads [of ?git "first_daemons ?git" s True _ f] assms
    by (simp add: writable_groups_def del: build_bufs.simps)
qed

end
