(* ===== verification/Group_Invariant.thy ===== *)
theory Group_Invariant
  imports Group_Frame
begin

section \<open>Groups in order\<close>

text \<open>
  \<open>group_wf\<close>: a group as the handlers keep it. Its daemons are configured, each once and in the
  order of the configuration; none is without members, their members are in order and each
  once; the counter is their number. The lemmas show that then the messages about the group can
  be built, and what the sets of a heavyweight membership are.
\<close>

subsection \<open>Definitions\<close>

definition configured :: "proc list \<Rightarrow> proc_id \<Rightarrow> bool" where
  "configured procs i \<longleftrightarrow> (\<exists>p \<in> set procs. p_id p = i)"

definition daemon_wf :: "proc list \<Rightarrow> daemon_members \<Rightarrow> bool" where
  "daemon_wf procs d \<longleftrightarrow> configured procs (dm_proc_id d) \<and> skl_ok id (dm_members d) \<and> dm_members d \<noteq> []"

definition daemons_wf :: "proc list \<Rightarrow> daemon_members list \<Rightarrow> bool" where
  "daemons_wf procs ds \<longleftrightarrow> skl_ok (dkey procs) ds \<and> (\<forall>d \<in> set ds. daemon_wf procs d)"

definition member_count :: "daemon_members list \<Rightarrow> int" where
  "member_count ds = int (length (concat (map dm_members ds)))"

definition group_wf :: "proc list \<Rightarrow> group \<Rightarrow> bool" where
  "group_wf procs g \<longleftrightarrow> daemons_wf procs (grp_daemons g) \<and> grp_daemons g \<noteq> []
     \<and> grp_num_members g = member_count (grp_daemons g)"

lemma conf_index_self:
  assumes "wf_procs procs" and "configured procs i"
  shows "0 \<le> conf_index procs i \<and> nat (conf_index procs i) < length procs
     \<and> p_id (procs ! nat (conf_index procs i)) = i"
proof -
  obtain k where k: "k < length procs" "p_id (procs ! k) = i"
    using assms(2) by (auto simp: configured_def in_set_conv_nth)
  with Conf_proc_by_id_self [OF assms(1) k(1)] show ?thesis by (simp add: conf_index_def)
qed

lemma conf_index_inj:
  "wf_procs procs \<Longrightarrow> configured procs i \<Longrightarrow> configured procs j \<Longrightarrow> conf_index procs i = conf_index procs j \<longleftrightarrow> i = j"
  using conf_index_self by metis

lemma compared_ok:
  assumes "wf_procs procs" and "configured procs i" and "daemons_wf procs ds"
  shows "compared procs i ds = Inr ()"
proof -
  have "\<forall>j \<in> set (i # map dm_proc_id ds). conf_index procs j > -1"
    using conf_index_self [OF assms(1)] assms(2,3)
    by (auto simp: daemons_wf_def daemon_wf_def) (meson order_less_le_trans zless_add1_eq neg_less_0_iff_less zero_less_one)+
  then show ?thesis by (simp add: compared_def list_all_iff)
qed

subsection \<open>Sorting by membership\<close>

lemma insert_vs_perm:
  assumes "wf_procs procs" and "configured procs (dm_proc_id d)"
    and "\<forall>e \<in> set es. configured procs (dm_proc_id e) \<and> dm_proc_id e \<noteq> dm_proc_id d"
  shows "returns (insert_vs procs d es) (\<lambda>r. mset r = add_mset d (mset es))"
  using assms(3)
proof (induction es)
  case (Cons e es)
  have c: "conf_index procs (dm_proc_id d) > -1" "conf_index procs (dm_proc_id e) > -1"
    "conf_index procs (dm_proc_id d) - conf_index procs (dm_proc_id e) \<noteq> 0"
    using conf_index_self [OF assms(1)] conf_index_inj [OF assms(1,2)] assms(2) Cons.prems
    by (fastforce)+
  have "returns (G_compare_daemon_vs_set procs d e) (\<lambda>cmp. cmp \<noteq> 0)"
    using c by (simp add: G_compare_daemon_vs_set_def G_compare_proc_ids_by_conf_def Let_def)
  then obtain cmp where cmp: "G_compare_daemon_vs_set procs d e = Inr cmp" "cmp \<noteq> 0" by (rule returnsE)
  show ?case using Cons cmp by (auto simp: returns_bindE elim!: returns_mono)
qed simp

lemma vs_order_perm:
  assumes "wf_procs procs" and "\<forall>d \<in> set ds. configured procs (dm_proc_id d)" and "distinct (map dm_proc_id ds)"
  shows "returns (vs_order procs ds) (\<lambda>r. mset r = mset ds)"
proof -
  have "returns (for_each (insert_vs procs) ds acc) (\<lambda>r. mset r = mset acc + mset ds)"
    if "\<forall>d \<in> set acc. configured procs (dm_proc_id d)" "distinct (map dm_proc_id (acc @ ds))" for acc
    using assms(2) that
  proof (induction ds arbitrary: acc)
    case (Cons d ds)
    from Cons.prems have "returns (insert_vs procs d acc) (\<lambda>r. mset r = add_mset d (mset acc))"
      by (intro insert_vs_perm [OF assms(1)]) (auto simp: image_iff)
    then obtain acc' where acc': "insert_vs procs d acc = Inr acc'" "mset acc' = add_mset d (mset acc)"
      by (rule returnsE)
    have "mset (map dm_proc_id (acc' @ ds)) = mset (map dm_proc_id (acc @ d # ds))"
      using acc'(2) by simp
    then have "distinct (map dm_proc_id (acc' @ ds))" using Cons.prems(3) by (metis mset_eq_imp_distinct_iff)
    moreover have "set acc' = insert d (set acc)" using acc'(2) by (metis set_mset_add_mset_insert set_mset_mset)
    ultimately show ?case using Cons.IH [of acc'] Cons.prems acc' by auto
  qed simp
  from this [of "[]"] assms(3) show ?thesis by (simp add: vs_order_def)
qed

lemma daemons_wf_distinct: "wf_procs procs \<Longrightarrow> daemons_wf procs ds \<Longrightarrow> distinct (map dm_proc_id ds)"
proof -
  assume "wf_procs procs" "daemons_wf procs ds"
  then have "distinct (map (dkey procs) ds)" by (simp add: daemons_wf_def skl_ok_distinct)
  then have "distinct (map (conf_index procs) (map dm_proc_id ds))" by (simp add: comp_def)
  then show ?thesis by (simp only: distinct_map)
qed

subsection \<open>The sets of a heavyweight membership\<close>

text \<open>
  \<open>split_of ds sets\<close>: the sets hold the members of the daemons, each once, and every set those of
  daemons with one and the same membership id. \<open>at_set\<close>: a byte offset at which a set starts.
\<close>

definition one_view :: "daemon_members list \<Rightarrow> string list \<Rightarrow> bool" where
  "one_view ds S \<longleftrightarrow> (\<exists>mid. \<forall>m \<in> set S. \<exists>d \<in> set ds. m \<in> set (dm_members d) \<and> dm_memb_id d = mid)"

definition at_set :: "nat \<Rightarrow> string list list \<Rightarrow> string list \<Rightarrow> bool" where
  "at_set offset sets S \<longleftrightarrow> (\<exists>k < length sets. sets ! k = S \<and> offset = length (vs_region (take k sets)))"

definition vs_inv :: "string option \<Rightarrow> proc_id \<Rightarrow> daemon_members list \<Rightarrow> vs_state \<Rightarrow> bool" where
  "vs_inv joiner me ds v \<longleftrightarrow>
     mset (concat (vs_sets v)) + (if vs_found v then {#the joiner#} else {#}) = mset (concat (map dm_members ds))
   \<and> (vs_found v \<longleftrightarrow> (\<exists>j. joiner = Some j \<and> (\<exists>d \<in> set ds. j \<in> set (dm_members d))))
   \<and> (vs_sets v = [] \<longleftrightarrow> ds = []) \<and> length (vs_sets v) \<le> length ds
   \<and> (if ds = [] then Is_unknown_memb_id (vs_memb_id v)
      else vs_memb_id v = dm_memb_id (last ds)
        \<and> (\<forall>m \<in> set (last (vs_sets v)). \<exists>d \<in> set ds. m \<in> set (dm_members d) \<and> dm_memb_id d = vs_memb_id v))
   \<and> (\<forall>S \<in> set (vs_sets v). one_view ds S)
   \<and> (case vs_local v of
        None \<Rightarrow> \<forall>d \<in> set ds. dm_proc_id d \<noteq> me
      | Some offset \<Rightarrow> me \<in> dm_proc_id ` set ds \<and> (\<exists>S. at_set offset (vs_sets v) S
          \<and> (\<forall>d \<in> set ds. dm_proc_id d = me \<longrightarrow> (\<forall>m \<in> set (dm_members d). joiner = Some m \<or> m \<in> set S))))"

lemma vs_region_append: "vs_region (xs @ ys) = vs_region xs @ vs_region ys"
  by (simp add: vs_region_def)

lemma length_vs_region: "length (vs_region sets) = 4 * length sets + 32 * length (concat sets)"
proof -
  have "length (vs_set_bytes S) = 4 + 32 * length S" for S
    by (induction S) (simp_all add: vs_set_bytes_def)
  then show ?thesis by (induction sets) (simp_all add: vs_region_def)
qed

lemma at_set_snoc: "at_set offset sets S \<Longrightarrow> at_set offset (sets @ [T]) S"
  unfolding at_set_def by (elim exE, rule_tac x = k in exI) (simp add: nth_append)

lemma at_set_extend:
  assumes "at_set offset sets S"
  shows "\<exists>S'. set S \<subseteq> set S' \<and> at_set offset (butlast sets @ [last sets @ T]) S'"
proof -
  obtain k where k: "k < length sets" "sets ! k = S" "offset = length (vs_region (take k sets))"
    using assms by (auto simp: at_set_def)
  show ?thesis
  proof (cases "Suc k = length sets")
    case True
    then have "sets ! k = last sets" by (metis diff_Suc_1 last_conv_nth length_0_conv nat.distinct(1))
    then have "take k (butlast sets @ [last sets @ T]) = take k sets" "S = last sets" "length (butlast sets) = k"
      using k True by (auto simp: butlast_conv_take)
    then show ?thesis
      using k unfolding at_set_def by (intro exI [of _ "last sets @ T"]) (auto intro!: exI [of _ k] simp: nth_append)
  next
    case False
    then have l: "k < length (butlast sets)" using k by simp
    then have "take k (butlast sets @ [last sets @ T]) = take k sets"
      using k by (simp add: take_butlast)
    then show ?thesis
      using k l unfolding at_set_def by (intro exI [of _ S]) (auto intro!: exI [of _ k] simp: nth_append nth_butlast)
  qed
qed

lemma at_set_last: "sets \<noteq> [] \<Longrightarrow> at_set (length (vs_region (butlast sets))) sets (last sets)"
  unfolding at_set_def by (rule exI [of _ "length sets - 1"]) (simp add: last_conv_nth butlast_conv_take)

text \<open>The first half of a step: a new set is opened when the view changes.\<close>

definition vs_open :: "daemon_members \<Rightarrow> vs_state \<Rightarrow> vs_state" where
  "vs_open d v =
     (if Is_unknown_memb_id (vs_memb_id v) \<or> \<not> Memb_is_equal (vs_memb_id v) (dm_memb_id d)
      then v\<lparr>vs_memb_id := dm_memb_id d, vs_sets := vs_sets v @ [[]]\<rparr> else v)"

lemma memb_eq: "Memb_is_equal m1 m2 \<longleftrightarrow> m1 = m2"
  by (cases m1; cases m2) (simp add: Memb_is_equal_def)

lemma vs_open_facts:
  assumes "vs_inv joiner me ds v"
  shows "vs_sets (vs_open d v) \<noteq> []" and "concat (vs_sets (vs_open d v)) = concat (vs_sets v)"
    and "vs_memb_id (vs_open d v) = dm_memb_id d" and "length (vs_sets (vs_open d v)) \<le> Suc (length ds)"
    and "vs_local (vs_open d v) = vs_local v" and "vs_found (vs_open d v) = vs_found v"
    and "\<forall>m \<in> set (last (vs_sets (vs_open d v))). \<exists>e \<in> set ds. m \<in> set (dm_members e) \<and> dm_memb_id e = dm_memb_id d"
    and "\<forall>S \<in> set (vs_sets (vs_open d v)). one_view ds S"
    and "at_set offset (vs_sets v) S \<Longrightarrow> at_set offset (vs_sets (vs_open d v)) S"
  using assms by (auto simp: vs_open_def vs_inv_def memb_eq at_set_snoc one_view_def split: if_splits)

lemma vs_step_open: "vs_step joiner me d v =
   (let v1 = vs_open d v; kept = without_joiner joiner (vs_found v) (dm_members d);
        v2 = v1\<lparr>vs_sets := butlast (vs_sets v1) @ [last (vs_sets v1) @ kept],
                vs_found := vs_found v \<or> (case joiner of None \<Rightarrow> False | Some j \<Rightarrow> j \<in> set (dm_members d))\<rparr>
    in if dm_proc_id d \<noteq> me then Inr v2
       else if vs_local v \<noteq> None \<and> vs_local v \<noteq> Some 0 then Inl (Alarm_exit ''G_build_memb_vs_buf'')
       else Inr (v2\<lparr>vs_local := Some (length (vs_region (butlast (vs_sets v1))))\<rparr>))"
  by (simp add: vs_step_def vs_open_def Let_def)

lemma without_joiner_mset:
  "mset (without_joiner joiner found ms)
     + (if \<not> found \<and> (case joiner of None \<Rightarrow> False | Some j \<Rightarrow> j \<in> set ms) then {#the joiner#} else {#}) = mset ms"
  by (auto simp: without_joiner_def split: option.splits)

lemma without_joiner_set: "set (without_joiner joiner found ms) \<subseteq> set ms"
  "m \<in> set ms \<Longrightarrow> joiner \<noteq> Some m \<Longrightarrow> m \<in> set (without_joiner joiner found ms)"
proof -
  show "set (without_joiner joiner found ms) \<subseteq> set ms"
    using set_remove1_subset [of _ ms] by (auto simp: without_joiner_def split: option.splits)
  show "m \<in> set (without_joiner joiner found ms)" if "m \<in> set ms" "joiner \<noteq> Some m"
  proof (cases joiner)
    case (Some j)
    then have "m \<noteq> j" using that by auto
    with that Some show ?thesis by (simp add: without_joiner_def in_set_remove1)
  qed (use that in \<open>simp add: without_joiner_def\<close>)
qed

lemma vs_step_inv:
  assumes inv: "vs_inv joiner me ds v" and new: "dm_proc_id d \<notin> dm_proc_id ` set ds"
  shows "returns (vs_step joiner me d v) (vs_inv joiner me (ds @ [d]))"
proof -
  let ?v1 = "vs_open d v" and ?k = "without_joiner joiner (vs_found v) (dm_members d)"
  let ?sets = "butlast (vs_sets ?v1) @ [last (vs_sets ?v1) @ ?k]"
  let ?f = "vs_found v \<or> (case joiner of None \<Rightarrow> False | Some j \<Rightarrow> j \<in> set (dm_members d))"
  note o = vs_open_facts [OF inv, where d = d]
  have ks: "set ?k \<subseteq> set (dm_members d)" by (rule without_joiner_set)
  have "concat ?sets = concat (vs_sets v) @ ?k"
    using o(1,2) by (metis append_assoc append_butlast_last_id concat.simps concat_append append_Nil2)
  then have c: "mset (concat ?sets) = mset (concat (vs_sets v)) + mset ?k" by (metis mset_append)
  have "mset (concat (vs_sets v)) + (if vs_found v then {#the joiner#} else {#}) = mset (concat (map dm_members ds))"
    using inv unfolding vs_inv_def by (rule conjunct1)
  then have m: "mset (concat ?sets) + (if ?f then {#the joiner#} else {#}) = mset (concat (map dm_members (ds @ [d])))"
    unfolding c using without_joiner_mset [of joiner "vs_found v" "dm_members d"]
    by (cases "vs_found v") (auto simp: ac_simps split: if_splits)
  have f: "?f \<longleftrightarrow> (\<exists>j. joiner = Some j \<and> (\<exists>e \<in> set (ds @ [d]). j \<in> set (dm_members e)))"
    using inv by (auto simp: vs_inv_def split: option.splits)
  have l: "\<forall>m \<in> set (last (vs_sets ?v1) @ ?k). \<exists>e \<in> set (ds @ [d]). m \<in> set (dm_members e) \<and> dm_memb_id e = dm_memb_id d"
    using o(7) ks by auto
  have "one_view ds S \<Longrightarrow> one_view (ds @ [d]) S" for S by (fastforce simp: one_view_def)
  then have ov: "\<forall>S \<in> set ?sets. one_view (ds @ [d]) S"
  proof -
    have "one_view (ds @ [d]) (last (vs_sets ?v1) @ ?k)"
      unfolding one_view_def by (rule exI [of _ "dm_memb_id d"]) (rule l)
    then show ?thesis using o(8) \<open>\<And>S. one_view ds S \<Longrightarrow> one_view (ds @ [d]) S\<close> by (auto dest!: in_set_butlastD)
  qed
  have len: "length ?sets \<le> length (ds @ [d])" using o(1,4) by simp
  have H: "vs_inv joiner me (ds @ [d]) (?v1\<lparr>vs_sets := ?sets, vs_found := ?f, vs_local := L\<rparr>)"
    if "case L of None \<Rightarrow> \<forall>e \<in> set (ds @ [d]). dm_proc_id e \<noteq> me
      | Some offset \<Rightarrow> me \<in> dm_proc_id ` set (ds @ [d]) \<and> (\<exists>S. at_set offset ?sets S
          \<and> (\<forall>e \<in> set (ds @ [d]). dm_proc_id e = me \<longrightarrow> (\<forall>m \<in> set (dm_members e). joiner = Some m \<or> m \<in> set S)))" for L
    using o(3) m f len l ov that by (cases L) (simp_all add: vs_inv_def)
  show ?thesis
  proof (cases "dm_proc_id d = me")
    case True
    have "vs_local v = None"
      using inv new True unfolding vs_inv_def by (auto split: option.splits)
    have at: "at_set (length (vs_region (butlast (vs_sets ?v1)))) ?sets (last (vs_sets ?v1) @ ?k)"
      using at_set_last [of ?sets] by simp
    have mem: "\<forall>e \<in> set (ds @ [d]). dm_proc_id e = me \<longrightarrow>
        (\<forall>m \<in> set (dm_members e). joiner = Some m \<or> m \<in> set (last (vs_sets ?v1) @ ?k))"
    proof (intro ballI impI)
      fix e m
      assume "e \<in> set (ds @ [d])" "dm_proc_id e = me" and m: "m \<in> set (dm_members e)"
      then have "e = d" using new True by force
      then show "joiner = Some m \<or> m \<in> set (last (vs_sets ?v1) @ ?k)"
        using m without_joiner_set(2) [of m "dm_members d" joiner "vs_found v"] by auto
    qed
    have "me \<in> dm_proc_id ` set (ds @ [d])" using True by simp
    then have "vs_inv joiner me (ds @ [d])
       (?v1\<lparr>vs_sets := ?sets, vs_found := ?f, vs_local := Some (length (vs_region (butlast (vs_sets ?v1))))\<rparr>)"
      by (intro H) (simp only: option.case, intro conjI exI [of _ "last (vs_sets ?v1) @ ?k"] at mem TrueI)
    then show ?thesis using True \<open>vs_local v = None\<close> unfolding vs_step_open Let_def by simp
  next
    case False
    have L: "case vs_local v of None \<Rightarrow> \<forall>e \<in> set (ds @ [d]). dm_proc_id e \<noteq> me
      | Some offset \<Rightarrow> me \<in> dm_proc_id ` set (ds @ [d]) \<and> (\<exists>S. at_set offset ?sets S
          \<and> (\<forall>e \<in> set (ds @ [d]). dm_proc_id e = me \<longrightarrow> (\<forall>m \<in> set (dm_members e). joiner = Some m \<or> m \<in> set S)))"
    proof (cases "vs_local v")
      case (Some offset)
      then obtain S where S: "at_set offset (vs_sets v) S" "me \<in> dm_proc_id ` set ds"
        "\<forall>e \<in> set ds. dm_proc_id e = me \<longrightarrow> (\<forall>m \<in> set (dm_members e). joiner = Some m \<or> m \<in> set S)"
        using inv by (auto simp: vs_inv_def)
      from at_set_extend [OF o(9) [OF S(1)]] obtain S' where "set S \<subseteq> set S'" "at_set offset ?sets S'" by blast
      then show ?thesis using S(2,3) Some False by auto
    qed (use inv False in \<open>simp add: vs_inv_def\<close>)
    have "?v1\<lparr>vs_sets := ?sets, vs_found := ?f, vs_local := vs_local v\<rparr> = ?v1\<lparr>vs_sets := ?sets, vs_found := ?f\<rparr>"
      using o(5) by (cases ?v1) simp
    with H [OF L] show ?thesis
      using False unfolding vs_step_open Let_def by simp
  qed
qed

text \<open>
  What the message says: the sets hold the members of the group, each once and each set from
  one view; the offset is that of the set with this daemon's members; a joiner is the only
  member of the last set.
\<close>

definition vs_spec :: "string option \<Rightarrow> proc_id \<Rightarrow> daemon_members list \<Rightarrow> string list list \<Rightarrow> nat \<Rightarrow> bool" where
  "vs_spec joiner me ds sets offset \<longleftrightarrow>
     mset (concat sets) = mset (concat (map dm_members ds)) \<and> length sets \<le> Suc (length ds)
   \<and> (\<forall>S \<in> set sets. one_view ds S)
   \<and> (\<exists>S. at_set offset sets S
        \<and> (\<forall>d \<in> set ds. dm_proc_id d = me \<longrightarrow> (\<forall>m \<in> set (dm_members d). joiner = Some m \<or> m \<in> set S)))
   \<and> (case joiner of None \<Rightarrow> True | Some j \<Rightarrow> last sets = [j])"

lemma mset_concat_cong:
  assumes "mset xss = mset yss"
  shows "mset (concat xss) = mset (concat yss)"
proof -
  have "mset (concat xss) = sum_mset (image_mset mset (mset xss))" for xss :: "'a list list"
    by (simp add: mset_concat sum_mset_sum_list flip: mset_map)
  then show ?thesis by (simp only: assms)
qed

lemma one_view_mset: "mset ds = mset ds' \<Longrightarrow> one_view ds S = one_view ds' S"
  unfolding one_view_def by (metis set_mset_mset)

lemma vs_steps:
  assumes "distinct (map dm_proc_id (ds @ es))" and "vs_inv joiner me ds v"
  shows "returns (for_each (vs_step joiner me) es v) (vs_inv joiner me (ds @ es))"
  using assms
proof (induction es arbitrary: ds v)
  case (Cons d es)
  then have "returns (vs_step joiner me d v) (vs_inv joiner me (ds @ [d]))"
    by (intro vs_step_inv) auto
  then obtain v' where "vs_step joiner me d v = Inr v'" "vs_inv joiner me (ds @ [d]) v'" by (rule returnsE)
  then show ?case using Cons.IH [of "ds @ [d]" v'] Cons.prems(1) by simp
qed simp

lemma build_vs_sets_returns:
  assumes wf: "wf_procs (Config_procs s)" and ds: "daemons_wf (Config_procs s) (grp_daemons g)"
    and me: "my_id s \<in> dm_proc_id ` set (grp_daemons g)"
    and j: "\<And>j. joiner = Some j \<Longrightarrow> j \<in> set (all_members g)"
  shows "returns (build_vs_sets g joiner s) (\<lambda>(sets, offset). vs_spec joiner (my_id s) (grp_daemons g) sets offset)"
proof -
  let ?ds = "grp_daemons g"
  have d: "distinct (map dm_proc_id ?ds)" by (rule daemons_wf_distinct [OF wf ds])
  have "returns (vs_order (Config_procs s) ?ds) (\<lambda>r. mset r = mset ?ds)"
    using ds d by (intro vs_order_perm [OF wf]) (auto simp: daemons_wf_def daemon_wf_def)
  then obtain es where es: "vs_order (Config_procs s) ?ds = Inr es" "mset es = mset ?ds" by (rule returnsE)
  have set_es: "set es = set ?ds" using es(2) by (metis set_mset_mset)
  have "mset (map dm_proc_id es) = mset (map dm_proc_id ?ds)" using es(2) by simp
  then have "distinct (map dm_proc_id ([] @ es))" using d by (metis append_Nil mset_eq_imp_distinct_iff)
  moreover have "vs_inv joiner (my_id s) [] vs_start"
    by (simp add: vs_inv_def vs_start_def Is_unknown_memb_id_def unknown_memb_id_def)
  ultimately have "returns (for_each (vs_step joiner (my_id s)) es vs_start) (vs_inv joiner (my_id s) ([] @ es))"
    by (rule vs_steps)
  then obtain v where v: "for_each (vs_step joiner (my_id s)) es vs_start = Inr v" "vs_inv joiner (my_id s) es v"
    by (metis append_Nil returnsE)
  have len: "length es = length ?ds" using es(2) by (metis size_mset)
  have members: "mset (concat (map dm_members es)) = mset (concat (map dm_members ?ds))"
    by (rule mset_concat_cong) (simp add: es(2))
  have ov: "\<forall>S \<in> set (vs_sets v). one_view ?ds S"
    using v(2) one_view_mset [OF es(2)] by (simp add: vs_inv_def)
  obtain offset S where o: "vs_local v = Some offset" "at_set offset (vs_sets v) S"
    "\<forall>d \<in> set ?ds. dm_proc_id d = my_id s \<longrightarrow> (\<forall>m \<in> set (dm_members d). joiner = Some m \<or> m \<in> set S)"
    using v(2) me unfolding vs_inv_def set_es by (cases "vs_local v") auto
  have m: "mset (concat (vs_sets v)) + (if vs_found v then {#the joiner#} else {#}) = mset (concat (map dm_members es))"
    using v(2) unfolding vs_inv_def by (rule conjunct1)
  have l: "length (vs_sets v) \<le> length es" using v(2) by (simp add: vs_inv_def)
  show ?thesis
  proof (cases joiner)
    case None
    then have "\<not> vs_found v" using v(2) by (simp add: vs_inv_def)
    then have "vs_spec joiner (my_id s) ?ds (vs_sets v) offset"
      unfolding vs_spec_def using m members len l ov o None by auto
    then show ?thesis using None o(1) v(1) by (simp add: build_vs_sets_def es(1))
  next
    case (Some j)
    then have e: "\<exists>d \<in> set ?ds. j \<in> set (dm_members d)" using j by (auto simp: all_members_def)
    then have f: "vs_found v" using v(2) Some unfolding vs_inv_def set_es by auto
    have "one_view ?ds [j]" using e by (auto simp: one_view_def)
    moreover have "mset (concat (vs_sets v @ [[j]])) = mset (concat (map dm_members ?ds))"
      using m members f Some by simp
    ultimately have "vs_spec joiner (my_id s) ?ds (vs_sets v @ [[j]]) offset"
      unfolding vs_spec_def using len l ov at_set_snoc [OF o(2), of "[j]"] o(3) Some by auto
    then show ?thesis using Some o(1) f v(1) by (simp add: build_vs_sets_def es(1))
  qed
qed

end
