(* ===== verification/Group_Telling.thy ===== *)
theory Group_Telling
  imports Group_Invariant
begin

section \<open>Telling the local members returns\<close>

text \<open>
  The condition on the sessions and the configuration (\<open>sess_ok\<close>), on the mailboxes of a group
  (\<open>local_ok\<close>: those of the sessions of its local members), and on its size (\<open>small_group\<close>: a
  message with all members twice must fit \<open>MAX_SCATTER_ELEMENTS\<close> packets); under them every
  notification of the group returns and changes nothing but what clients are sent.
\<close>

definition sess_ok :: "'a sess_st_scheme \<Rightarrow> bool" where
  "sess_ok s \<longleftrightarrow> wf_procs (Config_procs s) \<and> My s \<in> set (Config_procs s) \<and> table_ok s \<and> own_mailboxes s"

definition local_members :: "'a sess_st_scheme \<Rightarrow> group \<Rightarrow> string list" where
  "local_members s g = concat (map dm_members (filter (\<lambda>d. dm_proc_id d = my_id s) (grp_daemons g)))"

definition session_of :: "'a sess_st_scheme \<Rightarrow> string \<Rightarrow> nat option" where
  "session_of s m = List.find (\<lambda>i. private_group (ses_name (ses_at s i)) s = m) (Sess_order s)"

definition mbox_of :: "'a sess_st_scheme \<Rightarrow> string \<Rightarrow> int" where
  "mbox_of s m = (case session_of s m of Some i \<Rightarrow> ses_mbox (ses_at s i) | None \<Rightarrow> -1)"

definition local_ok :: "'a sess_st_scheme \<Rightarrow> group \<Rightarrow> bool" where
  "local_ok s g \<longleftrightarrow> (\<forall>m \<in> set (local_members s g). session_of s m \<noteq> None)
     \<and> mset (grp_mboxes g) = image_mset (mbox_of s) (mset (local_members s g))"

definition small_group :: "group \<Rightarrow> bool" where
  "small_group g \<longleftrightarrow> length (all_members g) \<le> 2000"

lemma session_of_in: "session_of s m = Some i \<Longrightarrow> i \<in> set (Sess_order s) \<and> private_group (ses_name (ses_at s i)) s = m"
  by (auto simp: session_of_def find_Some_iff)

lemma only_io_sess_ok: "only_io s s' \<Longrightarrow> sess_ok s \<Longrightarrow> sess_ok s'"
  unfolding sess_ok_def by (metis only_io_table_ok only_io_own only_io_fields(5,6))

lemma my_id_io: "only_io s s' \<Longrightarrow> my_id s' = my_id s"
  by (simp add: my_id_def only_io_fields(6))

lemma find_cong_set: "(\<And>x. x \<in> set xs \<Longrightarrow> p x = q x) \<Longrightarrow> List.find p xs = List.find q xs"
  by (induction xs) auto

lemma session_of_io:
  assumes "only_io s s'" and "table_ok s"
  shows "session_of s' m = session_of s m"
proof -
  have "private_group (ses_name (ses_at s' i)) s' = private_group (ses_name (ses_at s i)) s"
    if "i \<in> set (Sess_order s)" for i
    using only_io_entry [OF assms(1)] table_ok_order [OF assms(2) that]
    by (simp add: private_group_def only_io_fields(6) [OF assms(1)])
  then show ?thesis
    unfolding session_of_def only_io_fields(1) [OF assms(1)] by (intro find_cong_set) simp
qed

lemma mbox_of_io: "only_io s s' \<Longrightarrow> table_ok s \<Longrightarrow> mbox_of s' m = mbox_of s m"
  using only_io_entry table_ok_order session_of_in
  by (fastforce simp: mbox_of_def session_of_io split: option.splits)

lemma local_ok_io: "only_io s s' \<Longrightarrow> table_ok s \<Longrightarrow> local_ok s' g = local_ok s g"
proof -
  assume io: "only_io s s'" "table_ok s"
  have "mbox_of s' = mbox_of s" "session_of s' = session_of s"
    using mbox_of_io [OF io] session_of_io [OF io] by auto
  then show ?thesis by (simp add: local_ok_def local_members_def my_id_io [OF io(1)])
qed

lemma local_known: "local_ok s g \<Longrightarrow> b \<in> set (grp_mboxes g) \<Longrightarrow> known_mbox b s"
proof -
  assume ok: "local_ok s g" and b: "b \<in> set (grp_mboxes g)"
  then have "b \<in># image_mset (mbox_of s) (mset (local_members s g))" by (metis local_ok_def set_mset_mset)
  then obtain m where "m \<in> set (local_members s g)" "b = mbox_of s m" by auto
  with ok show ?thesis
    using session_of_in by (fastforce simp: local_ok_def mbox_of_def known_mbox_def)
qed

lemma local_daemon: "local_ok s g \<Longrightarrow> grp_mboxes g \<noteq> [] \<Longrightarrow> my_id s \<in> dm_proc_id ` set (grp_daemons g)"
proof -
  assume "local_ok s g" "grp_mboxes g \<noteq> []"
  then have "local_members s g \<noteq> []" by (auto simp: local_ok_def)
  then show ?thesis by (force simp: local_members_def filter_empty_conv image_iff)
qed

subsection \<open>Messages fit\<close>

lemma fill_message_returns:
  "length buf + 48 \<le> 143600 \<Longrightarrow> returns (fill_message h buf) (\<lambda>_. True)"
  by (auto simp: fill_message_def Message_Buffer_to_Message_Fragments_def Let_def mess_sizes Message_new_message_def)

lemma length_names: "length (concat (map name_bytes xs)) = 32 * length xs"
  by (induction xs) simp_all

lemma memb_buf_length: "length (snd (G_build_memb_buf g caused)) = 32 * length (all_members g) + 12"
  by (simp add: G_build_memb_buf_def length_names)

lemma memb_buf_header:
  "mh_num_groups (fst (G_build_memb_buf g caused)) = grp_num_members g"
  by (simp add: G_build_memb_buf_def)

lemma lightweight_returns:
  assumes "sess_ok s" and "local_ok s g" and "small_group g"
  shows "returns (G_send_lightweight_memb g caused name s) (only_io s)"
proof -
  obtain h buf where b: "G_build_memb_buf g caused = (h, buf)" by fastforce
  then have l: "length buf = 32 * length (all_members g) + 12" using memb_buf_length [of g caused] by simp
  have "returns (lightweight_message g caused name) (\<lambda>_. True)"
    using l assms(3) unfolding lightweight_message_def b
    by (auto intro!: fill_message_returns simp: vs_set_bytes_def small_group_def)
  moreover have "returns (notify m (grp_mboxes g) s) (only_io s)" for m
    using assms by (intro notify_returns) (auto simp: sess_ok_def intro: local_known)
  ultimately show ?thesis unfolding G_send_lightweight_memb_def by (rule returns_seq)
qed

lemma trans_memb_returns:
  "sess_ok s \<Longrightarrow> local_ok s g \<Longrightarrow> returns (G_send_trans_memb g s) (only_io s)"
  unfolding G_send_trans_memb_def sess_ok_def by (intro notify_returns) (auto intro: local_known)

lemma vs_buf_returns:
  assumes "sess_ok s" and "daemons_wf (Config_procs s) (grp_daemons g)" and "my_id s \<in> dm_proc_id ` set (grp_daemons g)"
    and "\<And>j. joiner = Some j \<Longrightarrow> j \<in> set (all_members g)"
  shows "returns (G_build_memb_vs_buf g caused joiner s) (\<lambda>(h, buf).
     mh_num_groups h = grp_num_members g \<and> 32 * length (all_members g) + 20 \<le> length buf
     \<and> length buf \<le> 64 * length (all_members g) + 4 * length (grp_daemons g) + 24)"
proof -
  have "returns (build_vs_sets g joiner s) (\<lambda>(sets, offset). vs_spec joiner (my_id s) (grp_daemons g) sets offset)"
    using assms by (intro build_vs_sets_returns) (auto simp: sess_ok_def)
  then obtain sets offset where b: "build_vs_sets g joiner s = Inr (sets, offset)"
    and v: "vs_spec joiner (my_id s) (grp_daemons g) sets offset"
    by (auto elim!: returnsE)
  have "length (concat sets) = length (all_members g)"
    using v unfolding vs_spec_def all_members_def by (metis size_mset)
  moreover have "length sets \<le> Suc (length (grp_daemons g))" using v by (simp add: vs_spec_def)
  ultimately have "length (vs_region sets) \<le> 4 * length (grp_daemons g) + 4 + 32 * length (all_members g)"
    by (simp add: length_vs_region)
  then show ?thesis
    using memb_buf_length [of g caused] memb_buf_header [of g caused]
    by (auto simp: G_build_memb_vs_buf_def b Let_def split: prod.splits)
qed

lemma daemons_count: "\<forall>d \<in> set ds. dm_members d \<noteq> [] \<Longrightarrow> length ds \<le> length (concat (map dm_members ds))"
  by (induction ds) (auto simp: Suc_le_eq add_pos_nonneg intro: add_mono simp flip: length_greater_0_conv)

lemma heavyweight_returns:
  assumes ok: "sess_ok s" "local_ok s g" "small_group g" and wf: "group_wf (Config_procs s) g"
    and mboxes: "grp_mboxes g \<noteq> []" and j: "\<And>j. joiner = Some j \<Longrightarrow> j \<in> set (all_members g)"
    and b: "b = -1 \<or> known_mbox b s"
  shows "returns (G_send_heavyweight_join g joiner b s) (only_io s)"
proof -
  have ds: "daemons_wf (Config_procs s) (grp_daemons g)" using wf by (simp add: group_wf_def)
  have "length (grp_daemons g) \<le> length (all_members g)"
    unfolding all_members_def using ds by (intro daemons_count) (simp add: daemons_wf_def daemon_wf_def)
  with ok(3) have size: "64 * length (all_members g) + 4 * length (grp_daemons g) + 24 \<le> 143552"
    by (simp add: small_group_def)
  obtain h buf where v: "G_build_memb_vs_buf g CAUSED_BY_NETWORK joiner s = Inr (h, buf)"
    and h: "mh_num_groups h = grp_num_members g" "32 * length (all_members g) + 20 \<le> length buf" "length buf \<le> 143552"
    using vs_buf_returns [where joiner = joiner and caused = CAUSED_BY_NETWORK, OF ok(1) ds local_daemon [OF ok(2) mboxes] j] size
    by (auto elim!: returnsE)
  obtain m where m: "fill_message h buf = Inr m"
    using fill_message_returns [of buf h] h(3) by (auto elim!: returnsE)
  have n: "nat (mh_num_groups h) = length (all_members g)"
    using wf by (simp add: h(1) group_wf_def member_count_def all_members_def)
  have "length (patch_offset h buf) = length buf"
    using h(2) n by (simp add: patch_offset_def mess_sizes sizeof_group_id_def)
  then obtain m' where m': "fill_message h (patch_offset h buf) = Inr m'"
    using fill_message_returns [of "patch_offset h buf" h] h(3) by (auto elim!: returnsE)
  have t: "table_ok s" "own_mailboxes s" using ok(1) by (simp_all add: sess_ok_def)
  let ?bs = "filter (\<lambda>b'. \<not> (joiner \<noteq> None \<and> b = b')) (grp_mboxes g)"
  have "returns (notify m ?bs s) (only_io s)"
    using local_known [OF ok(2)] by (intro notify_returns [OF t]) auto
  then obtain s1 where s1: "notify m ?bs s = Inr s1" "only_io s s1" by (rule returnsE)
  have "b \<noteq> -1 \<Longrightarrow> returns (notify_mbox m' b s1) (only_io s1)"
    using b only_io_known [OF s1(2) t(1)]
    by (intro notify_mbox_returns only_io_table_ok [OF s1(2)] only_io_own [OF s1(2)] t) auto
  then have "b \<noteq> -1 \<Longrightarrow> returns (notify_mbox m' b s1) (only_io s)"
    by (rule returns_mono) (auto intro: only_io_trans [OF s1(2)])
  then show ?thesis
    unfolding G_send_heavyweight_join_def v using m m' s1 by simp
qed

lemma heavyweight_memb_returns:
  "sess_ok s \<Longrightarrow> local_ok s g \<Longrightarrow> small_group g \<Longrightarrow> group_wf (Config_procs s) g \<Longrightarrow> grp_mboxes g \<noteq> [] \<Longrightarrow>
   returns (G_send_heavyweight_memb g s) (only_io s)"
  unfolding G_send_heavyweight_memb_def by (rule heavyweight_returns) simp_all

end
