(* ===== verification/Group_Roster.thy ===== *)
theory Group_Roster
  imports Group_Telling
begin

section \<open>Who is in which group\<close>

text \<open>
  The abstract state of the groups is the roster: which process is a member of which group, and
  on which daemon. \<open>groups_inv\<close> is the invariant of the detailed state. The lemmas say how
  putting a daemon into a group, a group into the list, and taking them out, change the two.
\<close>

definition group_roster :: "group \<Rightarrow> (proc_id \<times> string) set" where
  "group_roster g = {(dm_proc_id d, m) | d m. d \<in> set (grp_daemons g) \<and> m \<in> set (dm_members d)}"

definition roster :: "'a groups_st_scheme \<Rightarrow> (string \<times> proc_id \<times> string) set" where
  "roster s = {(grp_name g, x) | g x. g \<in> set (GroupsList s) \<and> x \<in> group_roster g}"

definition groups_wf :: "'a groups_st_scheme \<Rightarrow> bool" where
  "groups_wf s \<longleftrightarrow> skl_ok grp_name (GroupsList s)
     \<and> (\<forall>g \<in> set (GroupsList s). group_wf (Config_procs s) g \<and> local_ok s g)
     \<and> Num_groups s = int (length (GroupsList s))"

definition groups_inv :: "'a groups_st_scheme \<Rightarrow> bool" where
  "groups_inv s \<longleftrightarrow> sess_ok s \<and> groups_wf s"

definition room :: "nat \<Rightarrow> 'a groups_st_scheme \<Rightarrow> bool" where
  "room n s \<longleftrightarrow> (\<forall>g \<in> set (GroupsList s). length (all_members g) + n \<le> 2000)"

text \<open>
  The marks: a daemon of a group is marked as partitioned just when it is not in the transitional
  membership, in \<open>GOP\<close> none is; a group with such a daemon is marked as changed, and in \<open>GOP\<close> none is.
\<close>

definition with_us :: "proc_id \<Rightarrow> 'a groups_st_scheme \<Rightarrow> bool" where
  "with_us i s \<longleftrightarrow> Gstate s = GOP \<or> in_trans i s"

definition marks_group :: "'a groups_st_scheme \<Rightarrow> group \<Rightarrow> bool" where
  "marks_group s g \<longleftrightarrow> (\<forall>d \<in> set (grp_daemons g). Is_partitioned_daemon d \<longleftrightarrow> \<not> with_us (dm_proc_id d) s)
     \<and> (list_ex Is_partitioned_daemon (grp_daemons g) \<longrightarrow> grp_changed g)
     \<and> (Gstate s = GOP \<longrightarrow> \<not> grp_changed g) \<and> \<not> Is_unknown_memb_id (gid_memb_id (grp_id g))"

definition marks :: "'a groups_st_scheme \<Rightarrow> bool" where
  "marks s \<longleftrightarrow> \<not> Is_unknown_memb_id (if Gstate s = GOP then G_Reg_memb_id s else G_Trans_memb_id s)
     \<and> (\<forall>g \<in> set (GroupsList s). marks_group s g)"

text \<open>The rest of the state of the groups, which only memberships change.\<close>

definition surroundings :: "'a groups_st_scheme \<Rightarrow> _" where
  "surroundings s = (Gstate s, Config_procs s, my_id s, G_Trans_memb s, G_Trans_memb_id s, G_Reg_memb s, G_Reg_memb_id s, MySyncedSet s,
     Gathered s)"

subsection \<open>Lists of daemons\<close>

text \<open>A multiset summed up over the daemons.\<close>

definition sum_over :: "('a \<Rightarrow> 'b multiset) \<Rightarrow> 'a list \<Rightarrow> 'b multiset" where
  "sum_over F ds = sum_mset (image_mset F (mset ds))"

lemma sum_over_put:
  assumes "skl_ok key ds"
  shows "sum_over F (skl_put key d ds) + (case skl_get key (key d) ds of None \<Rightarrow> {#} | Some e \<Rightarrow> F e) = sum_over F ds + F d"
proof (cases "skl_get key (key d) ds")
  case None
  then show ?thesis by (simp add: sum_over_def mset_skl_put [OF assms] add.commute)
next
  case (Some e)
  have "sum_mset (image_mset F (add_mset e (mset (skl_put key d ds)))) = sum_mset (image_mset F (add_mset d (mset ds)))"
    by (simp only: mset_skl_replace [OF assms Some])
  then show ?thesis using Some by (simp add: sum_over_def add.commute)
qed

lemma sum_over_del: "skl_get key k ds = Some e \<Longrightarrow> sum_over F (skl_del key k ds) + F e = sum_over F ds"
proof -
  assume "skl_get key k ds = Some e"
  then have "sum_mset (image_mset F (add_mset e (mset (skl_del key k ds)))) = sum_mset (image_mset F (mset ds))"
    by (simp only: mset_skl_del)
  then show ?thesis by (simp add: sum_over_def add.commute)
qed

lemma member_count_sum: "member_count ds = int (size (sum_over (\<lambda>d. mset (dm_members d)) ds))"
  by (induction ds) (simp_all add: member_count_def sum_over_def)

definition mine :: "'a conf_st_scheme \<Rightarrow> daemon_members \<Rightarrow> string multiset" where
  "mine s d = (if dm_proc_id d = my_id s then mset (dm_members d) else {#})"

lemma local_members_sum: "mset (local_members s g) = sum_over (mine s) (grp_daemons g)"
proof -
  have "mset (concat (map dm_members (filter (\<lambda>d. dm_proc_id d = my_id s) ds))) = sum_over (mine s) ds" for ds
    by (induction ds) (simp_all add: sum_over_def mine_def)
  then show ?thesis by (simp add: local_members_def)
qed

lemma dkey_eq: "wf_procs procs \<Longrightarrow> daemon_wf procs d \<Longrightarrow> configured procs i \<Longrightarrow>
    conf_index procs (dm_proc_id d) = conf_index procs i \<longleftrightarrow> dm_proc_id d = i"
  by (simp add: daemon_wf_def conf_index_inj)

lemma get_daemon_eq:
  assumes "wf_procs (Config_procs s)" and "configured (Config_procs s) i" and "daemons_wf (Config_procs s) (grp_daemons g)"
  shows "G_get_daemon g i s = Inr (List.find (\<lambda>d. dm_proc_id d = i) (grp_daemons g))"
proof -
  have "skl_get (dkey (Config_procs s)) (conf_index (Config_procs s) i) ds = List.find (\<lambda>d. dm_proc_id d = i) ds"
    if "\<forall>d \<in> set ds. daemon_wf (Config_procs s) d" for ds
    using that by (induction ds) (auto simp: dkey_eq [OF assms(1) _ assms(2)])
  then show ?thesis
    using assms(3) by (simp add: G_get_daemon_def compared_ok [OF assms] daemons_wf_def)
qed

lemma daemons_wf_put:
  "daemons_wf procs ds \<Longrightarrow> daemon_wf procs d \<Longrightarrow> daemons_wf procs (skl_put (dkey procs) d ds)"
  by (auto simp: daemons_wf_def skl.elems_put skl_ok_put)

lemma daemons_wf_del: "daemons_wf procs ds \<Longrightarrow> daemons_wf procs (skl_del (dkey procs) k ds)"
  using set_skl_del_subset by (fastforce simp: daemons_wf_def skl_ok_del)

lemma set_put_daemon:
  assumes "wf_procs procs" and "daemons_wf procs ds" and "configured procs (dm_proc_id d)"
  shows "set (skl_put (dkey procs) d ds) = insert d {e \<in> set ds. dm_proc_id e \<noteq> dm_proc_id d}"
  using assms dkey_eq [OF assms(1) _ assms(3)]
  by (auto simp: daemons_wf_def skl.elems_put)

lemma set_del_daemon:
  assumes "wf_procs procs" and "daemons_wf procs ds" and "configured procs i"
  shows "set (skl_del (dkey procs) (conf_index procs i) ds) = {e \<in> set ds. dm_proc_id e \<noteq> i}"
  using assms dkey_eq [OF assms(1) _ assms(3)]
  by (auto simp: daemons_wf_def skl.elems_del)

lemma find_daemon:
  assumes "wf_procs procs" and "daemons_wf procs ds" and "configured procs i"
  shows "skl_get (dkey procs) (conf_index procs i) ds = List.find (\<lambda>d. dm_proc_id d = i) ds"
proof -
  have "\<forall>d \<in> set ds. daemon_wf procs d" using assms(2) by (simp add: daemons_wf_def)
  then show ?thesis by (induction ds) (auto simp: dkey_eq [OF assms(1) _ assms(3)])
qed

subsection \<open>Lists of groups\<close>

text \<open>What the conditions on the sessions depend on.\<close>

definition same_sessions :: "'a sess_st_scheme \<Rightarrow> 'a sess_st_scheme \<Rightarrow> bool" where
  "same_sessions s s' \<longleftrightarrow> Sessions s' = Sessions s \<and> Sess_order s' = Sess_order s \<and> Sess_free s' = Sess_free s
     \<and> Sess_hash s' = Sess_hash s \<and> Num_sessions s' = Num_sessions s \<and> Config_procs s' = Config_procs s \<and> My s' = My s"

lemma same_sessions_cong:
  assumes "same_sessions s s'"
  shows "sess_ok s' = sess_ok s" "local_ok s' = local_ok s" "my_id s' = my_id s"
    "Sess_get_session name s' = Sess_get_session name s" "mbox_of s' = mbox_of s" "session_of s' = session_of s"
    "mine s' = mine s"
proof -
  note f = assms [unfolded same_sessions_def]
  show so: "session_of s' = session_of s" by (rule ext) (simp add: session_of_def private_group_def f)
  then show mo: "mbox_of s' = mbox_of s" by (intro ext) (simp add: mbox_of_def f cong: option.case_cong)
  show my: "my_id s' = my_id s" by (simp add: my_id_def f)
  show "sess_ok s' = sess_ok s" by (simp add: sess_ok_def table_ok_def chain_of_def own_mailboxes_def f)
  show "local_ok s' = local_ok s" by (rule ext) (simp add: local_ok_def local_members_def so mo my)
  show "Sess_get_session name s' = Sess_get_session name s" by (simp add: Sess_get_session_def f)
  show "mine s' = mine s" by (rule ext) (simp add: mine_def my)
qed

lemma same_sessions_updates:
  "same_sessions s (put_group g s)" "same_sessions s (s\<lparr>Num_groups := n\<rparr>)"
  "same_sessions s (s\<lparr>GroupsList := gs\<rparr>)" "same_sessions s (s\<lparr>GroupsList := gs, Num_groups := n\<rparr>)"
  by (simp_all add: same_sessions_def put_group_def)

lemmas same_sessions_simps [simp] = same_sessions_updates [THEN same_sessions_cong(1)]
  same_sessions_updates [THEN same_sessions_cong(2)] same_sessions_updates [THEN same_sessions_cong(3)]
  same_sessions_updates [THEN same_sessions_cong(4)] same_sessions_updates [THEN same_sessions_cong(5)]
  same_sessions_updates [THEN same_sessions_cong(6)] same_sessions_updates [THEN same_sessions_cong(7)]

lemma put_group_fields [simp]:
  "Config_procs (put_group g s) = Config_procs s" "Gstate (put_group g s) = Gstate s"
  "Num_groups (put_group g s) = Num_groups s" "Sessions (put_group g s) = Sessions s"
  "G_Trans_memb (put_group g s) = G_Trans_memb s" "G_Trans_memb_id (put_group g s) = G_Trans_memb_id s"
  "G_Reg_memb (put_group g s) = G_Reg_memb s" "G_Reg_memb_id (put_group g s) = G_Reg_memb_id s"
  "in_op_or_trans (put_group g s) = in_op_or_trans s"
  "GroupsList (put_group g s) = skl_put grp_name g (GroupsList s)"
  by (simp_all add: put_group_def in_op_or_trans_def)

lemma skl_put_put: "key x = key y \<Longrightarrow> skl_put key x (skl_put key y xs) = skl_put key x xs"
  by (induction xs) auto

lemma put_put_group: "grp_name g = grp_name g' \<Longrightarrow> put_group g (put_group g' s) = put_group g s"
  by (simp add: put_group_def skl_put_put)

text \<open>Putting a group in order, new or in place of the one with its name.\<close>

lemma put_group_inv:
  assumes "groups_inv s" and "group_wf (Config_procs s) g" and "local_ok s g"
    and "n = (if G_get_group (grp_name g) s = None then Num_groups s + 1 else Num_groups s)"
  shows "groups_inv ((put_group g s)\<lparr>Num_groups := n\<rparr>)"
    and "roster (put_group g s) = {x \<in> roster s. fst x \<noteq> grp_name g} \<union> Pair (grp_name g) ` group_roster g"
proof -
  have ok: "skl_ok grp_name (GroupsList s)" using assms(1) by (simp add: groups_inv_def groups_wf_def)
  note e = skl.elems_put [OF ok, of g]
  show "groups_inv ((put_group g s)\<lparr>Num_groups := n\<rparr>)"
    using assms ok length_skl_put [OF ok, of g]
    by (auto simp: groups_inv_def groups_wf_def e skl_ok_put G_get_group_def)
  show "roster (put_group g s) = {x \<in> roster s. fst x \<noteq> grp_name g} \<union> Pair (grp_name g) ` group_roster g"
    by (auto simp: roster_def e)
qed

lemma del_group_inv:
  assumes "groups_inv s" and "G_get_group name s = Some g"
  shows "groups_inv (s\<lparr>GroupsList := skl_del grp_name name (GroupsList s), Num_groups := Num_groups s - 1\<rparr>)"
    and "roster (s\<lparr>GroupsList := skl_del grp_name name (GroupsList s), Num_groups := Num_groups s - 1\<rparr>)
      = {x \<in> roster s. fst x \<noteq> name}"
proof -
  let ?s = "s\<lparr>GroupsList := skl_del grp_name name (GroupsList s), Num_groups := Num_groups s - 1\<rparr>"
  have ok: "skl_ok grp_name (GroupsList s)" using assms(1) by (simp add: groups_inv_def groups_wf_def)
  note e = skl.elems_del [OF ok, of name]
  show "groups_inv ?s"
    using assms ok length_skl_del [of grp_name name "GroupsList s"]
    by (auto simp: groups_inv_def groups_wf_def e skl_ok_del G_get_group_def)
  show "roster ?s = {x \<in> roster s. fst x \<noteq> name}"
    by (auto simp: roster_def e)
qed

lemma groups_inv_io: "only_io s s' \<Longrightarrow> groups_inv s \<Longrightarrow> groups_inv s' \<and> roster s' = roster s \<and> Gstate s' = Gstate s"
proof -
  assume io: "only_io s s'" and inv: "groups_inv s"
  then have "table_ok s" by (simp add: groups_inv_def sess_ok_def)
  with io inv show ?thesis
    using only_io_groups [OF io] only_io_fields [OF io] local_ok_io [OF io] only_io_sess_ok [OF io]
    by (simp add: groups_inv_def groups_wf_def roster_def)
qed

lemma get_group_in:
  "groups_inv s \<Longrightarrow> G_get_group name s = Some g \<longleftrightarrow> g \<in> set (GroupsList s) \<and> grp_name g = name"
  by (simp add: groups_inv_def groups_wf_def G_get_group_def skl.find_elems)

lemma roster_group: "groups_inv s \<Longrightarrow> G_get_group name s = Some g \<Longrightarrow> {x. (name, x) \<in> roster s} = group_roster g"
  unfolding get_group_in roster_def
  by (auto simp: groups_inv_def groups_wf_def dest: skl.key_unique)

lemma roster_no_group: "groups_inv s \<Longrightarrow> G_get_group name s = None \<Longrightarrow> {x. (name, x) \<in> roster s} = {}"
  unfolding G_get_group_def roster_def
  by (auto simp: groups_inv_def groups_wf_def skl.find_none)

text \<open>The marks only depend on the surroundings and the groups.\<close>

lemma surroundings_io: "only_io s s' \<Longrightarrow> surroundings s' = surroundings s"
  by (simp add: surroundings_def only_io_groups only_io_fields my_id_io)

lemma surroundings_updates [simp]:
  "surroundings (put_group g s) = surroundings s" "surroundings (s\<lparr>Num_groups := n\<rparr>) = surroundings s"
  "surroundings (s\<lparr>GroupsList := gs\<rparr>) = surroundings s" "surroundings (s\<lparr>GroupsList := gs, Num_groups := n\<rparr>) = surroundings s"
  by (simp_all add: surroundings_def my_id_def put_group_def)

lemma with_us_cong: "surroundings s' = surroundings s \<Longrightarrow> with_us i s' = with_us i s"
  by (simp add: surroundings_def with_us_def in_trans_def)

lemma marks_group_cong:
  assumes "surroundings s' = surroundings s"
  shows "marks_group s' g = marks_group s g"
proof -
  have "with_us i s' = with_us i s" for i by (rule with_us_cong [OF assms])
  moreover have "Gstate s' = Gstate s" using assms by (simp add: surroundings_def)
  ultimately show ?thesis by (simp add: marks_group_def)
qed

lemma marks_cong:
  assumes "surroundings s' = surroundings s"
  shows "marks s' \<longleftrightarrow> \<not> Is_unknown_memb_id (if Gstate s = GOP then G_Reg_memb_id s else G_Trans_memb_id s)
     \<and> (\<forall>g \<in> set (GroupsList s'). marks_group s g)"
proof -
  have "marks_group s' = marks_group s" by (rule ext) (rule marks_group_cong [OF assms])
  then show ?thesis using assms by (simp add: marks_def surroundings_def)
qed

lemma marks_io: "only_io s s' \<Longrightarrow> marks s' = marks s"
  unfolding marks_cong [OF surroundings_io] by (simp add: marks_def only_io_groups(1))

lemma marks_put: "marks s \<Longrightarrow> marks_group s g \<Longrightarrow> marks (put_group g s)"
  using set_skl_put_subset [of grp_name g "GroupsList s"]
  by (subst marks_cong [of "put_group g s" s]) (auto simp: marks_def)

lemma marks_num [simp]: "marks (s\<lparr>Num_groups := n\<rparr>) = marks s"
  by (subst marks_cong [of _ s]) (simp_all add: marks_def)

lemma marks_del: "marks s \<Longrightarrow> marks (s\<lparr>GroupsList := skl_del grp_name name (GroupsList s), Num_groups := n\<rparr>)"
  using set_skl_del_subset [of grp_name name "GroupsList s"]
  by (subst marks_cong [of _ s]) (auto simp: marks_def)

end
