(* ===== verification/Group_Changes.thy ===== *)
theory Group_Changes
  imports Group_Roster
begin

section \<open>Joins, leaves and disconnects change the roster\<close>

text \<open>
  Each of the three handlers, in the states that accept it, returns, keeps the invariant, and
  changes the roster by exactly the membership it is about.
\<close>

subsection \<open>Names\<close>

text \<open>A C string that \<open>G_private_to_names\<close> takes apart is put together again by \<open>#\<close> signs.\<close>

lemma private_names:
  assumes "G_private_to_names p = Inr (Some (prv, pn))" and "NUL \<notin> set p"
  shows "p = ''#'' @ prv @ ''#'' @ pn"
proof -
  let ?arr = "name_array p"
  define rest where "rest = cstr (tl ?arr)"
  have r: "NUL \<in> set (tl ?arr)" "hd ?arr = CHR ''#''" "dropWhile (\<lambda>c. c \<noteq> CHR ''#'') rest \<noteq> []"
    "prv = takeWhile (\<lambda>c. c \<noteq> CHR ''#'') rest" "pn = tl (dropWhile (\<lambda>c. c \<noteq> CHR ''#'') rest)"
    using assms(1) unfolding G_private_to_names_def rest_def by (auto simp: Let_def split: if_splits)
  have len: "length p < 32"
  proof (rule ccontr)
    assume "\<not> length p < 32"
    then have "?arr = take 32 p" by (simp add: name_array_def MAX_GROUP_NAME_def)
    then show False using r(1) assms(2) by (metis in_set_takeD list.set_sel(2) tl_Nil)
  qed
  then obtain k where k: "32 - length p = Suc k" by (metis Suc_diff_Suc)
  have arr: "?arr = p @ NUL # replicate k NUL"
    using len k by (simp add: name_array_def MAX_GROUP_NAME_def)
  have "p \<noteq> []" using r(2) unfolding arr by (auto simp: NUL_def)
  then obtain p' where p: "p = CHR ''#'' # p'" using r(2) unfolding arr by (cases p) auto
  have f: "Bytes.fits 32 p'" using assms(2) len unfolding p Bytes.fits_def by simp
  have e1: "rest = p'"
    unfolding rest_def arr unfolding p by (simp only: append_Cons list.sel cstr_fits [OF f])
  have e2: "dropWhile (\<lambda>c. c \<noteq> CHR ''#'') rest = CHR ''#'' # pn"
    using r(3) hd_dropWhile [OF r(3)] unfolding r(5) by (cases "dropWhile (\<lambda>c. c \<noteq> CHR ''#'') rest") auto
  have "rest = prv @ CHR ''#'' # pn"
    using takeWhile_dropWhile_id [of "\<lambda>c. c \<noteq> CHR ''#''" rest] by (simp only: e2 r(4) [symmetric])
  then show ?thesis by (simp add: p e1)
qed

lemma proc_by_name:
  assumes "Conf_proc_by_name procs name = Some (k, q)"
  shows "q \<in> set procs \<and> p_name q = name"
proof -
  let ?k = "find_index (\<lambda>p. p_name p = name) procs"
  have "?k \<noteq> -1" "q = procs ! nat ?k" using assms by (auto simp: Conf_proc_by_name_def Let_def split: if_splits)
  then show ?thesis using find_index_some [of "\<lambda>p. p_name p = name" procs ?k] by auto
qed

lemma same_proc:
  assumes "wf_procs procs" and "p \<in> set procs" and "q \<in> set procs" and "p_id p = p_id q"
  shows "p = q"
proof -
  have "Conf_proc_by_id procs (p_id r) = Some (int k, r)" if "k < length procs" "procs ! k = r" for k r
    using Conf_proc_by_id_self [OF assms(1) that(1)] that(2) by simp
  then show ?thesis using assms(2-4) by (metis in_set_conv_nth option.inject prod.inject)
qed

text \<open>The session of a local process: the lookup by name finds the one with its private group.\<close>

lemma session_of_local:
  assumes "sess_ok s" and "Sess_get_session prv s \<noteq> -1"
  obtains i where "i \<in> set (Sess_order s)" and "Sess_get_session prv s = int i"
    and "session_of s (private_group prv s) = Some i"
proof -
  have t: "table_ok s" using assms(1) by (simp add: sess_ok_def)
  obtain i where i: "i \<in> set (Sess_order s)" "ses_name (ses_at s i) = prv" "Sess_get_session prv s = int i"
    using assms(2) by (cases rule: Sess_get_session_cases [OF t, of prv]) auto
  have "session_of s (private_group prv s) \<noteq> None"
    using i(1,2) by (auto simp: session_of_def find_None_iff)
  then obtain j where j: "session_of s (private_group prv s) = Some j" by auto
  then have "ses_name (ses_at s j) = prv" "j \<in> set (Sess_order s)"
    using session_of_in [OF j] by (auto simp: private_group_def)
  then have "j = i"
    using i Sess_get_session_some [OF t, of j] by simp
  then show ?thesis using that i j by simp
qed

subsection \<open>One group\<close>

text \<open>Adding a member to a daemon: what it does to the group.\<close>

lemma add_member_group:
  assumes ok: "sess_ok s" and ds: "daemons_wf (Config_procs s) ds" and i: "configured (Config_procs s) i"
    and d: "List.find (\<lambda>d. dm_proc_id d = i) ds = Some d \<or> List.find (\<lambda>d. dm_proc_id d = i) ds = None \<and> dm_members d = []"
    and di: "dm_proc_id d = i" and dm: "skl_ok id (dm_members d)" and p: "p \<notin> set (dm_members d)"
  defines "d' \<equiv> d\<lparr>dm_members := skl_put id p (dm_members d)\<rparr>"
  defines "ds' \<equiv> skl_put (dkey (Config_procs s)) d' ds"
  shows "daemons_wf (Config_procs s) ds'" and "ds' \<noteq> []"
    and "member_count ds' = member_count ds + 1"
    and "sum_over (mine s) ds' = sum_over (mine s) ds + (if i = my_id s then {#p#} else {#})"
    and "{(dm_proc_id d, m) | d m. d \<in> set ds' \<and> m \<in> set (dm_members d)}
       = insert (i, p) {(dm_proc_id d, m) | d m. d \<in> set ds \<and> m \<in> set (dm_members d)}"
proof -
  let ?procs = "Config_procs s" and ?F = "\<lambda>d. mset (dm_members d)"
  have wf: "wf_procs ?procs" using ok by (simp add: sess_ok_def)
  have sk: "skl_ok (dkey ?procs) ds" using ds by (simp add: daemons_wf_def)
  have none: "skl_get id (id p) (dm_members d) = None" using p by (auto simp: skl_get_none)
  have m: "mset (dm_members d') = add_mset p (mset (dm_members d))"
    using mset_skl_put [OF dm none] by (simp add: d'_def)
  then have sm: "set (dm_members d') = insert p (set (dm_members d))" by (metis set_mset_add_mset_insert set_mset_mset)
  have d'i: "dm_proc_id d' = i" by (simp add: d'_def di)
  have "daemon_wf ?procs d'"
    using i dm sm by (auto simp: daemon_wf_def d'_def di skl_ok_put)
  then show "daemons_wf ?procs ds'" unfolding ds'_def using ds by (intro daemons_wf_put)
  have set_ds': "set ds' = insert d' {e \<in> set ds. dm_proc_id e \<noteq> i}"
    unfolding ds'_def using set_put_daemon [OF wf ds, of d'] i by (simp add: d'i)
  then show "ds' \<noteq> []" by auto
  have old: "skl_get (dkey ?procs) (dkey ?procs d') ds = List.find (\<lambda>d. dm_proc_id d = i) ds"
    using find_daemon [OF wf ds i] by (simp add: d'i)
  have sum: "sum_over F ds' + F d = sum_over F ds + F d'" if F: "dm_members d = [] \<Longrightarrow> F d = {#}" for F :: "daemon_members \<Rightarrow> string multiset"
  proof -
    have E: "sum_over F ds' + (case List.find (\<lambda>d. dm_proc_id d = i) ds of None \<Rightarrow> {#} | Some e \<Rightarrow> F e) = sum_over F ds + F d'"
      using sum_over_put [OF sk, of F d'] unfolding ds'_def [symmetric] old .
    from d show ?thesis
    proof
      assume "List.find (\<lambda>d. dm_proc_id d = i) ds = Some d"
      with E show ?thesis by simp
    next
      assume "List.find (\<lambda>d. dm_proc_id d = i) ds = None \<and> dm_members d = []"
      with E F show ?thesis by simp
    qed
  qed
  have "sum_over ?F ds' + ?F d = add_mset p (sum_over ?F ds + ?F d)" using sum [of ?F] m by simp
  then show "member_count ds' = member_count ds + 1" by (simp add: member_count_sum)
  have "mine s d' = mine s d + (if i = my_id s then {#p#} else {#})" using m by (simp add: mine_def di d'i)
  then have "sum_over (mine s) ds' + mine s d = (sum_over (mine s) ds + (if i = my_id s then {#p#} else {#})) + mine s d"
    using sum [of "mine s"] by (simp add: mine_def ac_simps)
  then show "sum_over (mine s) ds' = sum_over (mine s) ds + (if i = my_id s then {#p#} else {#})"
    by simp
  have dis: "inj_on dm_proc_id (set ds)"
    using daemons_wf_distinct [OF wf ds] by (simp add: distinct_map)
  have uniq: "(e \<in> set ds \<and> dm_proc_id e = i \<and> m \<in> set (dm_members e)) \<longleftrightarrow> (e = d \<and> m \<in> set (dm_members d))" for e m
  proof (cases "List.find (\<lambda>d. dm_proc_id d = i) ds")
    case None
    moreover from this have "dm_members d = []" using d by simp
    ultimately have "dm_members d = []" "\<forall>e \<in> set ds. dm_proc_id e \<noteq> i" by (auto simp: find_None_iff)
    then show ?thesis by auto
  next
    case (Some d'')
    then have "List.find (\<lambda>d. dm_proc_id d = i) ds = Some d" using d by simp
    then have "d \<in> set ds" by (auto simp: find_Some_iff)
    then show ?thesis using dis di unfolding inj_on_def by blast
  qed
  have "{(dm_proc_id d, m) | d m. d \<in> set ds \<and> m \<in> set (dm_members d)}
      = {(dm_proc_id e, m) | e m. e \<in> set ds \<and> dm_proc_id e \<noteq> i \<and> m \<in> set (dm_members e)} \<union> Pair i ` set (dm_members d)"
    using uniq di by (auto simp: image_iff) blast+
  moreover have "{(dm_proc_id d, m) | d m. d \<in> set ds' \<and> m \<in> set (dm_members d)}
      = {(dm_proc_id e, m) | e m. e \<in> set ds \<and> dm_proc_id e \<noteq> i \<and> m \<in> set (dm_members e)} \<union> Pair i ` set (dm_members d')"
    unfolding set_ds' using d'i by auto
  ultimately show "{(dm_proc_id d, m) | d m. d \<in> set ds' \<and> m \<in> set (dm_members d)}
       = insert (i, p) {(dm_proc_id d, m) | d m. d \<in> set ds \<and> m \<in> set (dm_members d)}"
    unfolding sm by simp
qed

text \<open>
  A group on its way: as \<open>group_wf\<close>, but it may have no daemons yet.
\<close>

definition group_shape :: "'a groups_st_scheme \<Rightarrow> group \<Rightarrow> bool" where
  "group_shape s g \<longleftrightarrow> daemons_wf (Config_procs s) (grp_daemons g)
     \<and> grp_num_members g = member_count (grp_daemons g) \<and> local_ok s g"

lemma group_shape_wf: "group_wf (Config_procs s) g \<and> local_ok s g \<longleftrightarrow> group_shape s g \<and> grp_daemons g \<noteq> []"
  by (auto simp: group_shape_def group_wf_def)

lemma local_ok_sum:
  "local_ok s g \<longleftrightarrow> (\<forall>m \<in># sum_over (mine s) (grp_daemons g). session_of s m \<noteq> None)
     \<and> mset (grp_mboxes g) = image_mset (mbox_of s) (sum_over (mine s) (grp_daemons g))"
  by (simp add: local_ok_def local_members_sum [symmetric])

lemma skl_put_twice: "key d = key d' \<Longrightarrow> skl_put key d' (skl_put key d ds) = skl_put key d' ds"
  by (rule skl_put_put) simp

lemma all_members_count: "int (length (all_members g)) = member_count (grp_daemons g)"
  by (simp add: all_members_def member_count_def)

text \<open>The two steps of a join inside the group: the daemon, then the member.\<close>

lemma join_in_group:
  assumes ok: "sess_ok s" and g: "group_shape s g" and q: "q \<in> set (Config_procs s)" "p_name q = pn"
    and p: "p = ''#'' @ prv @ ''#'' @ pn" and loc: "p_id q = my_id s \<Longrightarrow> Sess_get_session prv s \<noteq> -1"
  shows "returns (daemon_to_join g (p_id q) s) (\<lambda>(d, g1).
     if (p_id q, p) \<in> group_roster g then G_get_member d p \<noteq> None \<and> g1 = g
     else G_get_member d p = None \<and> returns (add_member p prv d g1 s) (\<lambda>(b, g2).
       group_shape s g2 \<and> grp_daemons g2 \<noteq> [] \<and> grp_name g2 = grp_name g
       \<and> group_roster g2 = insert (p_id q, p) (group_roster g)
       \<and> member_count (grp_daemons g2) = member_count (grp_daemons g) + 1 \<and> (b = -1 \<or> known_mbox b s)
       \<and> (marks_group s g \<longrightarrow> marks_group s g2)))"
proof -
  let ?procs = "Config_procs s" and ?i = "p_id q" and ?ds = "grp_daemons g"
  have wf: "wf_procs ?procs" and my: "My s \<in> set ?procs" using ok by (simp_all add: sess_ok_def)
  have c: "configured ?procs ?i" using q(1) by (auto simp: configured_def)
  have ds: "daemons_wf ?procs ?ds" using g by (simp add: group_shape_def)
  let ?f = "List.find (\<lambda>d. dm_proc_id d = ?i) ?ds"
  have get: "G_get_daemon g ?i s = Inr ?f" by (rule get_daemon_eq [OF wf c ds])
  obtain d g1 where dg: "daemon_to_join g ?i s = Inr (d, g1)" and di: "dm_proc_id d = ?i"
    and d: "?f = Some d \<and> g1 = g \<or> ?f = None \<and> dm_members d = [] \<and> g1 = g\<lparr>grp_daemons := skl_put (dkey ?procs) d ?ds\<rparr>"
    and new: "?f = None \<Longrightarrow> dm_memb_id d = (if with_us ?i s then gid_memb_id (grp_id g) else unknown_memb_id)"
  proof (cases ?f)
    case None
    then show ?thesis using that get compared_ok [OF wf c ds] by (auto simp: daemon_to_join_def put_daemon_def Let_def with_us_def)
  next
    case (Some d)
    then have "dm_proc_id d = ?i" by (auto simp: find_Some_iff)
    with Some show ?thesis using that get by (auto simp: daemon_to_join_def)
  qed
  have dm: "skl_ok id (dm_members d)"
    using d ds by (auto simp: find_Some_iff daemons_wf_def daemon_wf_def)
  have dmark: "Is_partitioned_daemon d \<longleftrightarrow> \<not> with_us ?i s" if m: "marks_group s g"
  proof (cases ?f)
    case None
    with new m show ?thesis
      by (simp add: Is_partitioned_daemon_def unknown_memb_id_def Is_unknown_memb_id_def marks_group_def)
  next
    case (Some e)
    then have "?f = Some d" using d by simp
    then have "d \<in> set ?ds" by (auto simp: find_Some_iff)
    then show ?thesis using m di by (simp add: marks_group_def)
  qed
  have in_roster: "(?i, p) \<in> group_roster g \<longleftrightarrow> p \<in> set (dm_members d)"
  proof (cases ?f)
    case None
    with d have "dm_members d = []" by simp
    moreover have "\<forall>e \<in> set ?ds. dm_proc_id e \<noteq> ?i" using None by (simp add: find_None_iff)
    ultimately show ?thesis by (auto simp: group_roster_def)
  next
    case (Some e)
    then have f: "?f = Some d" using d by simp
    then have "d \<in> set ?ds" by (auto simp: find_Some_iff)
    moreover have "inj_on dm_proc_id (set ?ds)" using daemons_wf_distinct [OF wf ds] by (simp add: distinct_map)
    ultimately have "e \<in> set ?ds \<and> dm_proc_id e = ?i \<longleftrightarrow> e = d" for e using di by (metis inj_onD)
    moreover have "(?i, p) \<in> group_roster g \<longleftrightarrow> (\<exists>e \<in> set ?ds. dm_proc_id e = ?i \<and> p \<in> set (dm_members e))"
      unfolding group_roster_def by (simp, metis)
    ultimately show ?thesis by metis
  qed
  have mem: "G_get_member d p \<noteq> None \<longleftrightarrow> p \<in> set (dm_members d)"
    by (simp add: G_get_member_def skl_get_none)
  show ?thesis
  proof (cases "p \<in> set (dm_members d)")
    case True
    then have "g1 = g" using d by auto
    then show ?thesis using True dg in_roster mem by simp
  next
    case False
    define d' where "d' = d\<lparr>dm_members := skl_put id p (dm_members d)\<rparr>"
    define ds' where "ds' = skl_put (dkey ?procs) d' ?ds"
    have "?f = Some d \<or> ?f = None \<and> dm_members d = []" using d by auto
    note A = add_member_group [OF ok ds c this di dm False, folded d'_def, folded ds'_def]
    have put: "skl_put (dkey ?procs) d' (grp_daemons g1) = ds'"
      using d by (auto simp: ds'_def d'_def intro!: skl_put_twice)
    have same: "grp_name g1 = grp_name g" "grp_mboxes g1 = grp_mboxes g" "grp_num_members g1 = grp_num_members g"
      using d by auto
    have sum: "local_ok s g \<longleftrightarrow> (\<forall>m \<in># sum_over (mine s) ?ds. session_of s m \<noteq> None)
        \<and> mset (grp_mboxes g) = image_mset (mbox_of s) (sum_over (mine s) ?ds)" by (rule local_ok_sum)
    have shape: "group_shape s g2"
      if "grp_daemons g2 = ds'" "grp_num_members g2 = grp_num_members g + 1"
        "?i = my_id s \<Longrightarrow> session_of s p \<noteq> None \<and> mset (grp_mboxes g2) = add_mset (mbox_of s p) (mset (grp_mboxes g))"
        "?i \<noteq> my_id s \<Longrightarrow> grp_mboxes g2 = grp_mboxes g" for g2
      using that g A sum by (cases "?i = my_id s") (auto simp: group_shape_def local_ok_sum)
    have mk: "marks_group s g2"
      if "marks_group s g" "grp_daemons g2 = ds'" "grp_changed g2 = (grp_changed g \<or> Is_partitioned_daemon d)"
        "gid_memb_id (grp_id g2) = gid_memb_id (grp_id g)" for g2
    proof -
      have "Is_partitioned_daemon d' = Is_partitioned_daemon d" "dm_proc_id d' = ?i"
        by (simp_all add: d'_def Is_partitioned_daemon_def di)
      moreover have "set ds' = insert d' {e \<in> set ?ds. dm_proc_id e \<noteq> ?i}"
        unfolding ds'_def using set_put_daemon [OF wf ds, of d'] c calculation(2) by simp
      ultimately show ?thesis
        using that dmark by (auto simp: marks_group_def list_ex_iff with_us_def)
    qed
    have idx: "gid_memb_id (grp_id g1) = gid_memb_id (grp_id g)" "grp_changed g1 = grp_changed g"
      using d by auto
    have ros: "group_roster g2 = insert (?i, p) (group_roster g)" if "grp_daemons g2 = ds'" for g2
      using A(5) that by (simp add: group_roster_def)
    show ?thesis
    proof (cases "?i = my_id s")
      case True
      then have "q = My s" using same_proc [OF wf q(1) my] by (simp add: my_id_def)
      then have pg: "p = private_group prv s" using p q(2) by (simp add: private_group_def)
      obtain i where i: "i \<in> set (Sess_order s)" "Sess_get_session prv s = int i" "session_of s p = Some i"
        using session_of_local [OF ok loc [OF True]] pg by metis
      then have "mbox_of s p = ses_mbox (ses_at s i)" "known_mbox (ses_mbox (ses_at s i)) s"
        by (auto simp: mbox_of_def known_mbox_def)
      then show ?thesis
        using dg False in_roster mem A(2,3) i True di put same shape ros mk idx
        by (auto simp: add_member_def Let_def set_daemon_def local_mbox_def d'_def [symmetric])
    next
      case False
      then show ?thesis
        using dg \<open>p \<notin> _\<close> in_roster mem A(2,3) di put same shape ros mk idx
        by (auto simp: add_member_def Let_def set_daemon_def d'_def [symmetric])
    qed
  qed
qed

subsection \<open>Joins\<close>

lemma put_group_num [simp]: "(put_group g s)\<lparr>Num_groups := Num_groups s\<rparr> = put_group g s"
  by (simp add: put_group_def)

lemma room_group: "groups_inv s \<Longrightarrow> room n s \<Longrightarrow> G_get_group name s = Some g \<Longrightarrow> member_count (grp_daemons g) + int n \<le> 2000"
  using all_members_count [of g] by (auto simp: get_group_in room_def)

lemma small_count: "small_group g \<longleftrightarrow> member_count (grp_daemons g) \<le> 2000"
  using all_members_count [of g] by (auto simp: small_group_def)

lemma marks_new: "marks s \<Longrightarrow> marks_group s (new_group name \<lparr>gid_memb_id = if Gstate s = GOP then G_Reg_memb_id s
    else G_Trans_memb_id s, gid_index = 0\<rparr>)"
  by (auto simp: marks_def marks_group_def new_group_def)

lemma group_to_join_shape:
  assumes inv: "groups_inv s" and len: "length name < MAX_GROUP_NAME" and size: "room 1 s"
  obtains g s1 n where "group_to_join name s = Inr (g, s1)" and "group_shape s g" and "grp_name g = name"
    and "{x. (name, x) \<in> roster s} = group_roster g" and "member_count (grp_daemons g) + 1 \<le> 2000"
    and "n = (if G_get_group name s = None then Num_groups s + 1 else Num_groups s)"
    and "\<And>g'. grp_name g' = name \<Longrightarrow> put_group g' s1 = (put_group g' s)\<lparr>Num_groups := n\<rparr>"
    and "group_roster g \<noteq> {} \<Longrightarrow> G_get_group name s = Some g \<and> s1 = s"
    and "same_sessions s s1" and "surroundings s1 = surroundings s" and "marks s \<Longrightarrow> marks_group s g"
proof (cases "G_get_group name s")
  case None
  let ?g = "new_group name \<lparr>gid_memb_id = if Gstate s = GOP then G_Reg_memb_id s else G_Trans_memb_id s, gid_index = 0\<rparr>"
  let ?s = "(put_group ?g s)\<lparr>Num_groups := Num_groups s + 1\<rparr>"
  have "group_shape s ?g" "group_roster ?g = {}" "member_count (grp_daemons ?g) = 0" "grp_name ?g = name"
    by (simp_all add: group_shape_def new_group_def daemons_wf_def member_count_def local_ok_def local_members_def group_roster_def)
  moreover have "put_group g' ?s = (put_group g' s)\<lparr>Num_groups := Num_groups s + 1\<rparr>" if "grp_name g' = name" for g'
    using that \<open>grp_name ?g = name\<close> by (simp add: put_group_def skl_put_put)
  moreover have "group_to_join name s = Inr (?g, ?s)" using None len by (simp add: group_to_join_def Let_def)
  moreover have "same_sessions s ?s" "surroundings ?s = surroundings s"
    by (simp_all add: same_sessions_def put_group_def surroundings_def my_id_def)
  ultimately show ?thesis using None roster_no_group [OF inv None] marks_new [of s name] by (intro that [of ?g ?s "Num_groups s + 1"]) simp_all
next
  case (Some g)
  then have "g \<in> set (GroupsList s)" "grp_name g = name" using get_group_in [OF inv] by auto
  moreover from this have "group_shape s g"
    using inv group_shape_wf [of s g] by (simp add: groups_inv_def groups_wf_def)
  moreover have "put_group g' s = (put_group g' s)\<lparr>Num_groups := Num_groups s\<rparr>" for g' by simp
  moreover have "marks s \<Longrightarrow> marks_group s g" using \<open>g \<in> _\<close> by (simp add: marks_def)
  ultimately show ?thesis
    using Some room_group [OF inv size Some] roster_group [OF inv Some]
    by (intro that [of g s "Num_groups s"]) (simp_all add: group_to_join_def same_sessions_def)
qed

lemma trans_after:
  assumes "sess_ok s" and "local_ok s g" and "only_io s t"
  shows "returns (G_send_trans_memb g t) (only_io s)"
proof -
  have "table_ok s" using assms(1) by (simp add: sess_ok_def)
  then have "returns (G_send_trans_memb g t) (only_io t)"
    using only_io_sess_ok [OF assms(3,1)] local_ok_io [OF assms(3)] assms(2) by (intro trans_memb_returns) simp_all
  then show ?thesis by (rule returns_mono) (rule only_io_trans [OF assms(3)])
qed

lemma tell_of_join_returns:
  assumes "sess_ok s" and "local_ok s g" and "group_wf (Config_procs s) g" and "small_group g"
    and "b = -1 \<or> known_mbox b s" and "p \<in> set (all_members g)"
  shows "returns (tell_of_join p b g s) (only_io s)"
proof (cases "grp_mboxes g = []")
  case False
  have "returns (G_send_heavyweight_join g (Some p) b s) (only_io s)"
    by (rule heavyweight_returns [OF assms(1,2,4,3) False _ assms(5)]) (use assms(6) in simp)
  then have "returns (bindE (G_send_heavyweight_join g (Some p) b s) (G_send_trans_memb g)) (only_io s)"
    by (rule returns_seq) (rule trans_after [OF assms(1,2)])
  then show ?thesis using False lightweight_returns [OF assms(1,2,4)] by (simp add: tell_of_join_def)
qed (simp add: tell_of_join_def)

text \<open>Putting a changed group back: the roster, and that the rest of a handler keeps it.\<close>

lemma replace_group:
  assumes inv: "groups_inv s" and g: "group_shape s g" "grp_daemons g \<noteq> []"
    and n: "n = (if G_get_group (grp_name g) s = None then Num_groups s + 1 else Num_groups s)"
    and size: "member_count (grp_daemons g) \<le> 2000"
  defines "s2 \<equiv> (put_group g s)\<lparr>Num_groups := n\<rparr>"
  shows "groups_inv s2" and "roster s2 = {x \<in> roster s. fst x \<noteq> grp_name g} \<union> Pair (grp_name g) ` group_roster g"
    and "sess_ok s2" and "local_ok s2 g" and "group_wf (Config_procs s2) g" and "small_group g"
    and "surroundings s2 = surroundings s" and "known_mbox b s2 = known_mbox b s"
    and "marks s \<Longrightarrow> marks_group s g \<Longrightarrow> marks s2"
proof -
  have wf: "group_wf (Config_procs s) g \<and> local_ok s g" using g group_shape_wf by blast
  then show i2: "groups_inv s2" unfolding s2_def using put_group_inv(1) [OF inv _ _ n] by simp
  have "roster s2 = roster (put_group g s)" by (simp add: s2_def roster_def)
  then show "roster s2 = {x \<in> roster s. fst x \<noteq> grp_name g} \<union> Pair (grp_name g) ` group_roster g"
    using put_group_inv(2) [OF inv _ _ n] wf by simp
  show "sess_ok s2" using i2 by (simp add: groups_inv_def)
  show "local_ok s2 g" "group_wf (Config_procs s2) g" "small_group g" "surroundings s2 = surroundings s"
    using wf size by (simp_all add: s2_def small_count)
  show "marks s2" if "marks s" "marks_group s g" using marks_put [OF that] by (simp add: s2_def)
  show "known_mbox b s2 = known_mbox b s" by (simp add: s2_def known_mbox_def put_group_def)
qed

lemma keep_roster:
  "groups_inv s \<Longrightarrow> returns r (only_io s) \<Longrightarrow>
   returns r (\<lambda>s'. groups_inv s' \<and> surroundings s' = surroundings s \<and> marks s' = marks s \<and> roster s' = roster s)"
  by (erule returns_mono) (simp add: groups_inv_io surroundings_io marks_io)

lemma join_changes:
  assumes inv: "groups_inv s" and st: "in_op_or_trans s"
    and names: "G_private_to_names p = Inr (Some (prv, pn))" "NUL \<notin> set p"
    and proc: "Conf_proc_by_name (Config_procs s) pn = Some (k, q)"
    and len: "length name < MAX_GROUP_NAME" and size: "room 1 s"
    and loc: "p_id q = my_id s \<Longrightarrow> Sess_get_session prv s \<noteq> -1"
  shows "returns (G_handle_join p name s) (\<lambda>s'. groups_inv s' \<and> surroundings s' = surroundings s
     \<and> (marks s \<longrightarrow> marks s') \<and> roster s' = insert (name, p_id q, p) (roster s))"
proof -
  have ok: "sess_ok s" using inv by (simp add: groups_inv_def)
  obtain g s1 n where j: "group_to_join name s = Inr (g, s1)" and g: "group_shape s g" "grp_name g = name"
    and r: "{x. (name, x) \<in> roster s} = group_roster g" and small: "member_count (grp_daemons g) + 1 \<le> 2000"
    and n: "n = (if G_get_group name s = None then Num_groups s + 1 else Num_groups s)"
    and s1: "\<And>g'. grp_name g' = name \<Longrightarrow> put_group g' s1 = (put_group g' s)\<lparr>Num_groups := n\<rparr>"
    and old: "group_roster g \<noteq> {} \<Longrightarrow> G_get_group name s = Some g \<and> s1 = s"
    and same: "same_sessions s s1" "surroundings s1 = surroundings s" and mg: "marks s \<Longrightarrow> marks_group s g"
    by (rule group_to_join_shape [OF inv len size]) (rule that; assumption)
  have q: "q \<in> set (Config_procs s)" "p_name q = pn" using proc_by_name [OF proc] by auto
  note c = same_sessions_cong [OF same(1)]
  have procs: "Config_procs s1 = Config_procs s" and known: "known_mbox b s1 = known_mbox b s" for b
    using same(1) by (simp_all add: same_sessions_def known_mbox_def)
  have shape: "group_shape s1 g' = group_shape s g'" "marks_group s1 g' = marks_group s g'" for g'
    using marks_group_cong [OF same(2)] by (simp_all add: group_shape_def c procs)
  from join_in_group [of s1 g q pn p prv] ok g(1) q private_names [OF names] loc
  have "returns (daemon_to_join g (p_id q) s1) (\<lambda>(d, g1).
     if (p_id q, p) \<in> group_roster g then G_get_member d p \<noteq> None \<and> g1 = g
     else G_get_member d p = None \<and> returns (add_member p prv d g1 s1) (\<lambda>(b, g2).
       group_shape s1 g2 \<and> grp_daemons g2 \<noteq> [] \<and> grp_name g2 = grp_name g
       \<and> group_roster g2 = insert (p_id q, p) (group_roster g)
       \<and> member_count (grp_daemons g2) = member_count (grp_daemons g) + 1 \<and> (b = -1 \<or> known_mbox b s1)
       \<and> (marks_group s1 g \<longrightarrow> marks_group s1 g2)))"
    by (simp add: c procs shape)
  then obtain d g1 where dg: "daemon_to_join g (p_id q) s1 = Inr (d, g1)" and J:
     "if (p_id q, p) \<in> group_roster g then G_get_member d p \<noteq> None \<and> g1 = g
     else G_get_member d p = None \<and> returns (add_member p prv d g1 s1) (\<lambda>(b, g2).
       group_shape s1 g2 \<and> grp_daemons g2 \<noteq> [] \<and> grp_name g2 = grp_name g
       \<and> group_roster g2 = insert (p_id q, p) (group_roster g)
       \<and> member_count (grp_daemons g2) = member_count (grp_daemons g) + 1 \<and> (b = -1 \<or> known_mbox b s1)
       \<and> (marks_group s1 g \<longrightarrow> marks_group s1 g2))"
    by (elim returnsE) (simp only: split_paired_all prod.case)
  have G: "G_handle_join p name s = (if G_get_member d p \<noteq> None then Inr (put_group g1 s1)
      else bindE (add_member p prv d g1 s1) (\<lambda>(b, g2). tell_of_join p b g2 (put_group g2 s1)))"
    using st by (simp add: G_handle_join_def names_of_def names(1) proc j dg)
  have rost: "{x \<in> roster s. fst x \<noteq> name} \<union> Pair name ` insert (p_id q, p) (group_roster g)
      = insert (name, p_id q, p) (roster s)"
    using r by (auto simp: set_eq_iff)
  show ?thesis
  proof (cases "(p_id q, p) \<in> group_roster g")
    case True
    then have "G_handle_join p name s = Inr (put_group g s1)" using G J by auto
    moreover have "grp_daemons g \<noteq> []" using True by (auto simp: group_roster_def)
    moreover have "insert (p_id q, p) (group_roster g) = group_roster g" using True by auto
    ultimately show ?thesis
      using replace_group [OF inv g(1), of n] n small g(2) s1 [OF g(2)] rost mg by simp
  next
    case False
    with J g(2) obtain b g2 where a: "add_member p prv d g1 s1 = Inr (b, g2)" and m: "G_get_member d p = None"
      and g2: "group_shape s g2" "grp_daemons g2 \<noteq> []" "grp_name g2 = name"
        "group_roster g2 = insert (p_id q, p) (group_roster g)"
        "member_count (grp_daemons g2) = member_count (grp_daemons g) + 1" "b = -1 \<or> known_mbox b s"
        "marks_group s g \<Longrightarrow> marks_group s g2"
      by (auto simp: shape known elim!: returnsE)
    define s2 where "s2 = put_group g2 s1"
    have "(p_id q, p) \<in> group_roster g2" using g2(4) by simp
    then have p2: "p \<in> set (all_members g2)" unfolding group_roster_def all_members_def by auto
    have s2: "s2 = (put_group g2 s)\<lparr>Num_groups := n\<rparr>" by (simp add: s2_def s1 [OF g2(3)])
    have n': "n = (if G_get_group (grp_name g2) s = None then Num_groups s + 1 else Num_groups s)" using n g2(3) by simp
    have "member_count (grp_daemons g2) \<le> 2000" using g2(5) small by simp
    note R = replace_group [OF inv g2(1,2) n' this, folded s2]
    have "roster s2 = insert (name, p_id q, p) (roster s)" using R(2) rost g2(3,4) by simp
    moreover have "returns (tell_of_join p b g2 s2) (only_io s2)"
      using tell_of_join_returns [OF R(3-6) _ p2] g2(6) R(8) by simp
    from keep_roster [OF R(1) this] have "returns (tell_of_join p b g2 s2)
        (\<lambda>s'. groups_inv s' \<and> surroundings s' = surroundings s2 \<and> marks s' = marks s2 \<and> roster s' = roster s2)" .
    then have "returns (tell_of_join p b g2 s2) (\<lambda>s'. groups_inv s' \<and> surroundings s' = surroundings s
        \<and> (marks s \<longrightarrow> marks s') \<and> roster s' = roster s2)"
      by (rule returns_mono) (simp add: R(7) R(9) mg g2(7))
    ultimately show ?thesis using G m a by (simp add: s2_def)
  qed
qed

end
