(* ===== verification/Group_Departures.thy ===== *)
theory Group_Departures
  imports Group_Changes
begin

section \<open>Leaves and disconnects change the roster\<close>

text \<open>
  A leave takes one membership out of the roster and a disconnect all those of a process; both
  return, keep the invariant, and do nothing for a process or group they do not find.
\<close>

subsection \<open>One group\<close>

lemma skl_del_put: "skl_ok key xs \<Longrightarrow> skl_get key (key x) xs = Some y \<Longrightarrow>
    skl_del key (key x) (skl_put key x xs) = skl_del key (key x) xs"
  by (induction xs) (auto simp: skl_ok_Cons split: if_splits dest!: skl_get_some)

text \<open>The daemons of a group when \<open>p\<close> has left the daemon \<open>d\<close>.\<close>

definition without_member :: "proc list \<Rightarrow> string \<Rightarrow> daemon_members \<Rightarrow> daemon_members list \<Rightarrow> daemon_members list" where
  "without_member procs p d ds =
     (let d' = d\<lparr>dm_members := skl_del id p (dm_members d)\<rparr>
      in if dm_members d' = [] then skl_del (dkey procs) (dkey procs d) ds else skl_put (dkey procs) d' ds)"

lemma without_member_set:
  fixes p :: string
  assumes "wf_procs procs" and "daemons_wf procs ds" and "d \<in> set ds"
  defines "d' \<equiv> d\<lparr>dm_members := skl_del id p (dm_members d)\<rparr>"
  shows "set (without_member procs p d ds)
    = (if dm_members d' = [] then {} else {d'}) \<union> {e \<in> set ds. dm_proc_id e \<noteq> dm_proc_id d}"
    and "daemons_wf procs (without_member procs p d ds)"
proof -
  have d: "configured procs (dm_proc_id d)" "skl_ok id (dm_members d)"
    using assms(2,3) by (auto simp: daemons_wf_def daemon_wf_def)
  then have d': "dm_members d' \<noteq> [] \<Longrightarrow> daemon_wf procs d'"
    by (simp add: daemon_wf_def d'_def skl_ok_del)
  have i: "dm_proc_id d' = dm_proc_id d" by (simp add: d'_def)
  show "set (without_member procs p d ds)
    = (if dm_members d' = [] then {} else {d'}) \<union> {e \<in> set ds. dm_proc_id e \<noteq> dm_proc_id d}"
    unfolding without_member_def Let_def d'_def [symmetric]
    using set_put_daemon [OF assms(1,2), of d'] set_del_daemon [OF assms(1,2) d(1)] d(1) by (simp add: i)
  show "daemons_wf procs (without_member procs p d ds)"
    unfolding without_member_def Let_def d'_def [symmetric]
    using daemons_wf_put [OF assms(2)] daemons_wf_del [OF assms(2)] d' by simp
qed

lemma without_member_sum:
  assumes "wf_procs procs" and "daemons_wf procs ds" and "d \<in> set ds"
    and F: "\<And>e. dm_members e = [] \<Longrightarrow> F e = {#}"
  shows "sum_over F (without_member procs p d ds) + F d
    = sum_over F ds + F (d\<lparr>dm_members := skl_del id p (dm_members d)\<rparr>)"
proof -
  let ?d' = "d\<lparr>dm_members := skl_del id p (dm_members d)\<rparr>"
  have ok: "skl_ok (dkey procs) ds" using assms(2) by (simp add: daemons_wf_def)
  have get: "skl_get (dkey procs) (dkey procs d) ds = Some d" using skl.find_elems [OF ok] assms(3) by blast
  then have "skl_get (dkey procs) (dkey procs ?d') ds = Some d" by simp
  with sum_over_put [OF ok, of F ?d'] sum_over_del [OF get, of F] F [of ?d']
  show ?thesis by (auto simp: without_member_def Let_def)
qed

lemma extract_member_eq:
  assumes "wf_procs (Config_procs s)" and "daemons_wf (Config_procs s) (grp_daemons g)" and "d \<in> set (grp_daemons g)"
  shows "extract_member p d g s = Inr (g\<lparr>grp_daemons := without_member (Config_procs s) p d (grp_daemons g),
           grp_num_members := grp_num_members g - 1\<rparr>)"
proof -
  let ?procs = "Config_procs s" and ?ds = "grp_daemons g"
  define d' where "d' = d\<lparr>dm_members := skl_del id p (dm_members d)\<rparr>"
  have i: "dm_proc_id d' = dm_proc_id d" by (simp add: d'_def)
  have ok: "skl_ok (dkey ?procs) ?ds" using assms(2) by (simp add: daemons_wf_def)
  have get: "skl_get (dkey ?procs) (dkey ?procs d') ?ds = Some d"
    using skl.find_elems [OF ok] assms(3) by (auto simp: i)
  have c: "configured ?procs (dm_proc_id d)" using assms(2,3) by (auto simp: daemons_wf_def daemon_wf_def)
  have "conf_index ?procs j > -1" if "j \<in> set (dm_proc_id d # map dm_proc_id (skl_put (dkey ?procs) d' ?ds))" for j
  proof -
    have "configured ?procs j"
      using that c assms(2) set_put_daemon [OF assms(1,2), of d'] by (auto simp: i daemons_wf_def daemon_wf_def)
    then show ?thesis using conf_index_self [OF assms(1)] by (metis order_less_le_trans neg_less_0_iff_less zero_less_one)
  qed
  then have comp: "compared ?procs (dm_proc_id d') (skl_put (dkey ?procs) d' ?ds) = Inr ()"
    unfolding compared_def list_all_iff i by auto
  show ?thesis
    unfolding extract_member_def without_member_def Let_def d'_def [symmetric]
    using comp skl_del_put [OF ok get] skl_get_put [OF ok, of "dkey ?procs d'" d']
    by (simp add: G_remove_daemon_def set_daemon_def Let_def i)
qed

lemma in_roster_of: "(j, x) \<in> {(dm_proc_id d, m) | d m. d \<in> set ds \<and> m \<in> set (dm_members d)}
    \<longleftrightarrow> (\<exists>e \<in> set ds. dm_proc_id e = j \<and> x \<in> set (dm_members e))"
  by auto

lemma departed:
  fixes p :: string
  assumes ok: "sess_ok s" and g: "daemons_wf (Config_procs s) (grp_daemons g)" and d: "d \<in> set (grp_daemons g)"
    and p: "p \<in> set (dm_members d)"
  defines "ds \<equiv> without_member (Config_procs s) p d (grp_daemons g)"
  shows "member_count ds + 1 = member_count (grp_daemons g)"
    and "sum_over (mine s) ds + (if dm_proc_id d = my_id s then {#p#} else {#}) = sum_over (mine s) (grp_daemons g)"
    and "{(dm_proc_id d, m) | d m. d \<in> set ds \<and> m \<in> set (dm_members d)} = group_roster g - {(dm_proc_id d, p)}"
proof -
  let ?F = "\<lambda>d. mset (dm_members d)"
  define d' where "d' = d\<lparr>dm_members := skl_del id p (dm_members d)\<rparr>"
  have wf: "wf_procs (Config_procs s)" using ok by (simp add: sess_ok_def)
  have dm: "skl_ok id (dm_members d)" using g d by (auto simp: daemons_wf_def daemon_wf_def)
  have "skl_get id p (dm_members d) = Some p" using skl.find_elems [OF dm] p by (metis id_apply)
  then have m: "add_mset p (mset (dm_members d')) = mset (dm_members d)" by (simp add: d'_def mset_skl_del)
  have sm: "set (dm_members d') = set (dm_members d) - {p}"
    using skl.elems_del [OF dm, of p] by (auto simp: d'_def)
  have i: "dm_proc_id d' = dm_proc_id d" by (simp add: d'_def)
  note sum = without_member_sum [OF wf g d, where p = p, folded ds_def, folded d'_def]
  have "sum_over ?F ds + ?F d = sum_over ?F (grp_daemons g) + ?F d'" by (rule sum) simp
  then have "size (sum_over ?F ds) + size (?F d) = size (sum_over ?F (grp_daemons g)) + size (?F d')"
    by (metis size_union)
  moreover have "size (?F d) = Suc (size (?F d'))" using m by (metis size_add_mset)
  ultimately show "member_count ds + 1 = member_count (grp_daemons g)"
    unfolding member_count_sum by linarith
  have "sum_over (mine s) ds + mine s d = sum_over (mine s) (grp_daemons g) + mine s d'"
    by (rule sum) (simp add: mine_def)
  moreover have "mine s d = mine s d' + (if dm_proc_id d = my_id s then {#p#} else {#})"
    using m by (simp add: mine_def i)
  ultimately show "sum_over (mine s) ds + (if dm_proc_id d = my_id s then {#p#} else {#}) = sum_over (mine s) (grp_daemons g)"
    by (auto simp: ac_simps)
  have dis: "inj_on dm_proc_id (set (grp_daemons g))"
    using daemons_wf_distinct [OF wf g] by (simp add: distinct_map)
  have "(\<exists>e \<in> set ds. dm_proc_id e = j \<and> x \<in> set (dm_members e)) \<longleftrightarrow>
      (j, x) \<noteq> (dm_proc_id d, p) \<and> (\<exists>e \<in> set (grp_daemons g). dm_proc_id e = j \<and> x \<in> set (dm_members e))" for j x
  proof (cases "j = dm_proc_id d")
    case True
    have "(\<exists>e \<in> set ds. dm_proc_id e = j \<and> x \<in> set (dm_members e)) \<longleftrightarrow> x \<in> set (dm_members d')"
      using True i unfolding ds_def without_member_set(1) [OF wf g d] d'_def [symmetric] by auto
    moreover have "(\<exists>e \<in> set (grp_daemons g). dm_proc_id e = j \<and> x \<in> set (dm_members e)) \<longleftrightarrow> x \<in> set (dm_members d)"
      using True d dis by (metis inj_onD)
    ultimately show ?thesis using True sm by auto
  next
    case False
    then show ?thesis
      using i unfolding ds_def without_member_set(1) [OF wf g d] d'_def [symmetric] by auto
  qed
  then have "(j, x) \<in> {(dm_proc_id d, m) | d m. d \<in> set ds \<and> m \<in> set (dm_members d)}
      \<longleftrightarrow> (j, x) \<in> group_roster g - {(dm_proc_id d, p)}" for j x
    unfolding Diff_iff in_roster_of group_roster_def by (simp, blast)
  then show "{(dm_proc_id d, m) | d m. d \<in> set ds \<and> m \<in> set (dm_members d)} = group_roster g - {(dm_proc_id d, p)}"
    by (intro set_eqI) (simp only: split_paired_all)
qed

text \<open>The mailbox of a local member, and taking it out.\<close>

lemma member_session:
  assumes ok: "sess_ok s" and l: "session_of s (private_group prv s) \<noteq> None"
  obtains i where "i \<in> set (Sess_order s)" and "Sess_get_session prv s = int i"
    and "mbox_of s (private_group prv s) = ses_mbox (ses_at s i)"
proof -
  have t: "table_ok s" using ok by (simp add: sess_ok_def)
  obtain i where i: "session_of s (private_group prv s) = Some i" using l by auto
  then have "i \<in> set (Sess_order s)" "ses_name (ses_at s i) = prv"
    using session_of_in [OF i] by (auto simp: private_group_def)
  moreover from this have "Sess_get_session prv s = int i"
    using Sess_get_session_some [OF t, of i] by simp
  ultimately show ?thesis using that i by (simp add: mbox_of_def)
qed

lemma remove_mailbox_returns:
  assumes "b \<in> set (grp_mboxes g)"
  shows "returns (G_remove_mailbox g b) (\<lambda>g'. \<exists>bs. g' = g\<lparr>grp_mboxes := bs\<rparr> \<and> add_mset b (mset bs) = mset (grp_mboxes g))"
proof -
  let ?k = "find_index (\<lambda>x. x = b) (grp_mboxes g)"
  have k: "?k \<noteq> -1" using assms by (auto simp: find_index_none)
  have "nat ?k < length (grp_mboxes g) \<and> grp_mboxes g ! nat ?k = b"
    using find_index_some [of "\<lambda>x. x = b" "grp_mboxes g" ?k] k by auto
  then show ?thesis
    using k assms by (auto simp: G_remove_mailbox_def Let_def mset_swap_remove)
qed

lemma depart_group:
  assumes ok: "sess_ok s" and g: "group_shape s g" and d: "d \<in> set (grp_daemons g)" "p \<in> set (dm_members d)"
    and bs: "if dm_proc_id d = my_id s then add_mset (mbox_of s p) (mset bs) = mset (grp_mboxes g) else bs = grp_mboxes g"
  shows "returns (extract_member p d (g\<lparr>grp_mboxes := bs\<rparr>) s) (\<lambda>g2. group_shape s g2 \<and> grp_name g2 = grp_name g
     \<and> group_roster g2 = group_roster g - {(dm_proc_id d, p)} \<and> member_count (grp_daemons g2) + 1 = member_count (grp_daemons g)
     \<and> (marks_group s g \<longrightarrow> marks_group s g2))"
proof -
  let ?procs = "Config_procs s"
  define ds where "ds = without_member ?procs p d (grp_daemons g)"
  have wf: "wf_procs ?procs" using ok by (simp add: sess_ok_def)
  have w: "daemons_wf ?procs (grp_daemons g)" and n: "grp_num_members g = member_count (grp_daemons g)"
    and l: "local_ok s g" using g by (simp_all add: group_shape_def)
  note D = departed [OF ok w d, folded ds_def]
  let ?g = "g\<lparr>grp_mboxes := bs, grp_daemons := ds, grp_num_members := grp_num_members g - 1\<rparr>"
  have e: "extract_member p d (g\<lparr>grp_mboxes := bs\<rparr>) s = Inr ?g"
    using extract_member_eq [OF wf, of "g\<lparr>grp_mboxes := bs\<rparr>" d p] w d by (simp add: ds_def)
  have sub: "set_mset (sum_over (mine s) ds) \<subseteq> set_mset (sum_over (mine s) (grp_daemons g))"
    using D(2) by (metis mset_subset_eq_add_left set_mset_mono)
  have "local_ok s ?g"
  proof (cases "dm_proc_id d = my_id s")
    case True
    then have "add_mset (mbox_of s p) (mset bs) = image_mset (mbox_of s) (sum_over (mine s) ds + {#p#})"
      using l D(2) bs by (simp add: local_ok_sum)
    then show ?thesis using l sub by (auto simp: local_ok_sum)
  next
    case False
    then show ?thesis using l D(2) bs by (simp add: local_ok_sum)
  qed
  then have "group_shape s ?g"
    using without_member_set(2) [OF wf w d(1), of p] n D(1) by (simp add: group_shape_def ds_def)
  moreover have "marks_group s ?g" if m: "marks_group s g"
  proof -
    have "\<exists>e' \<in> set (grp_daemons g). dm_proc_id e' = dm_proc_id e \<and> dm_memb_id e' = dm_memb_id e" if "e \<in> set ds" for e
      using that d(1) unfolding ds_def without_member_set(1) [OF wf w d(1)] by (auto split: if_splits)
    then show ?thesis
      using m unfolding marks_group_def list_ex_iff Is_partitioned_daemon_def by (simp, metis)
  qed
  ultimately show ?thesis using e D(1,3) by (simp add: group_roster_def)
qed

subsection \<open>What is done with the group then\<close>

text \<open>A step that concerns one group and the clients only.\<close>

definition only_group :: "string \<Rightarrow> 'a groups_st_scheme \<Rightarrow> 'a groups_st_scheme \<Rightarrow> bool" where
  "only_group name s s' \<longleftrightarrow> groups_inv s' \<and> surroundings s' = surroundings s \<and> (marks s \<longrightarrow> marks s')
     \<and> (\<forall>n. n \<noteq> name \<longrightarrow> G_get_group n s' = G_get_group n s)
     \<and> (\<forall>prv. Sess_get_session prv s' = Sess_get_session prv s)"

lemma get_session_io: "only_io s s' \<Longrightarrow> table_ok s \<Longrightarrow> Sess_get_session prv s' = Sess_get_session prv s"
proof -
  assume io: "only_io s s'" and t: "table_ok s"
  have t': "table_ok s'" by (rule only_io_table_ok [OF io t])
  have e: "ses_name (ses_at s' i) = ses_name (ses_at s i)" if "i \<in> set (Sess_order s)" for i
    using only_io_entry [OF io] table_ok_order [OF t that] by simp
  note o' = only_io_fields(1) [OF io]
  show ?thesis
  proof (cases rule: Sess_get_session_cases [OF t, of prv])
    case (1 i)
    then show ?thesis using Sess_get_session_some [OF t', of i] e o' by simp
  next
    case 2
    then show ?thesis
      using e o' by (cases rule: Sess_get_session_cases [OF t', of prv]) auto
  qed
qed

lemma only_group_io: "only_group name s t \<Longrightarrow> only_io t s' \<Longrightarrow> only_group name s s' \<and> roster s' = roster t"
proof -
  assume g: "only_group name s t" and io: "only_io t s'"
  then have i: "groups_inv s' \<and> roster s' = roster t \<and> surroundings s' = surroundings t \<and> marks s' = marks t"
    using groups_inv_io [OF io] surroundings_io [OF io] marks_io [OF io] by (simp add: only_group_def)
  have "table_ok t" using g by (simp add: only_group_def groups_inv_def sess_ok_def)
  then show ?thesis
    using g i get_session_io [OF io] only_io_groups(1) [OF io]
    by (simp add: only_group_def G_get_group_def)
qed

lemma only_group_put:
  assumes "groups_inv s" and "G_get_group (grp_name g) s = Some g0" and "group_shape s g" and "grp_daemons g \<noteq> []"
    and "marks s \<Longrightarrow> marks_group s g"
  shows "only_group (grp_name g) s (put_group g s)"
proof -
  have wf: "group_wf (Config_procs s) g" "local_ok s g" using assms(3,4) group_shape_wf by blast+
  have "skl_ok grp_name (GroupsList s)" using assms(1) by (simp add: groups_inv_def groups_wf_def)
  then show ?thesis
    using put_group_inv(1) [OF assms(1) wf, of "Num_groups s"] assms(2) marks_put [of s g] assms(5)
    by (simp add: only_group_def G_get_group_def skl_get_put)
qed

lemma only_group_del:
  assumes "groups_inv s" and "G_get_group name s = Some g"
  shows "only_group name s (s\<lparr>GroupsList := skl_del grp_name name (GroupsList s), Num_groups := Num_groups s - 1\<rparr>)"
proof -
  have "skl_ok grp_name (GroupsList s)" using assms(1) by (simp add: groups_inv_def groups_wf_def)
  then show ?thesis
    using del_group_inv(1) [OF assms] marks_del [of s] by (simp add: only_group_def G_get_group_def skl_get_del)
qed

lemma no_members: "daemons_wf procs ds \<Longrightarrow> member_count ds = 0 \<longleftrightarrow> ds = []"
  unfolding member_count_def of_nat_eq_0_iff length_0_conv by (cases ds) (auto simp: daemons_wf_def daemon_wf_def)

lemma group_shape_cong: "daemons_wf (Config_procs s) (grp_daemons g) \<Longrightarrow> group_shape s g \<Longrightarrow>
    grp_daemons g' = grp_daemons g \<Longrightarrow> grp_num_members g' = grp_num_members g \<Longrightarrow> grp_mboxes g' = grp_mboxes g \<Longrightarrow>
    group_shape s g'"
  by (simp add: group_shape_def local_ok_def local_members_def)

lemma after_departure_changes:
  assumes inv: "groups_inv s" and old: "G_get_group (grp_name g) s = Some g0"
    and g: "group_shape s g" and size: "member_count (grp_daemons g) \<le> 2000"
    and mk: "marks s \<Longrightarrow> marks_group s g"
  shows "returns (after_departure caused p g s) (\<lambda>s'. only_group (grp_name g) s s'
     \<and> roster s' = {x \<in> roster s. fst x \<noteq> grp_name g} \<union> Pair (grp_name g) ` group_roster g)"
proof (cases "grp_daemons g = []")
  case True
  then have "grp_num_members g = 0" "grp_mboxes g = []" "group_roster g = {}"
    using g by (simp_all add: group_shape_def member_count_def local_ok_def local_members_def group_roster_def)
  then show ?thesis
    using True old del_group_inv(2) [OF inv old] only_group_del [OF inv old]
    by (simp add: after_departure_def G_remove_group_def)
next
  case False
  define g1 where "g1 = g\<lparr>grp_id := (grp_id g)\<lparr>gid_index := gid_index (grp_id g) + 1\<rparr>\<rparr>"
  have w: "daemons_wf (Config_procs s) (grp_daemons g)" using g by (simp add: group_shape_def)
  have g1: "group_shape s g1" "grp_daemons g1 \<noteq> []" "grp_name g1 = grp_name g" "group_roster g1 = group_roster g"
    "grp_mboxes g1 = grp_mboxes g" "member_count (grp_daemons g1) \<le> 2000"
    using group_shape_cong [OF w g, of g1] False size by (simp_all add: g1_def group_roster_def)
  have mk1: "marks s \<Longrightarrow> marks_group s g1" using mk by (simp add: g1_def marks_group_def)
  have "grp_num_members g \<noteq> 0" using no_members [OF w] g False by (simp add: group_shape_def)
  then have eq: "after_departure caused p g s = (if grp_mboxes g1 = [] then Inr (put_group g1 s)
      else if grp_changed g1 then bindE (G_send_heavyweight_memb g1 (put_group g1 s)) (G_send_trans_memb g1)
      else G_send_lightweight_memb g1 caused p (put_group g1 s))"
    by (simp add: after_departure_def g1_def Let_def)
  have n: "Num_groups s = (if G_get_group (grp_name g1) s = None then Num_groups s + 1 else Num_groups s)"
    using old g1(3) by simp
  note R = replace_group [OF inv g1(1,2) n g1(6), unfolded put_group_num]
  have "returns (after_departure caused p g s) (only_io (put_group g1 s))"
  proof (cases "grp_mboxes g1 = []")
    case False
    have "returns (bindE (G_send_heavyweight_memb g1 (put_group g1 s)) (G_send_trans_memb g1)) (only_io (put_group g1 s))"
      using heavyweight_memb_returns [OF R(3,4,6,5) False] by (rule returns_seq) (rule trans_after [OF R(3,4)])
    then show ?thesis using False eq lightweight_returns [OF R(3,4,6)] by simp
  qed (simp add: eq)
  then show ?thesis
    by (rule returns_mono)
      (use only_group_io [OF only_group_put [OF inv _ g1(1,2) mk1]] old R(2) g1(3,4) in simp)
qed

subsection \<open>The handlers\<close>

lemma in_roster_find:
  assumes "wf_procs procs" and "daemons_wf procs (grp_daemons g)"
  shows "(i, p) \<in> group_roster g \<longleftrightarrow> (\<exists>d. List.find (\<lambda>d. dm_proc_id d = i) (grp_daemons g) = Some d \<and> p \<in> set (dm_members d))"
proof (cases "List.find (\<lambda>d. dm_proc_id d = i) (grp_daemons g)")
  case None
  then have "\<forall>e \<in> set (grp_daemons g). dm_proc_id e \<noteq> i" by (auto simp: find_None_iff)
  then show ?thesis unfolding group_roster_def in_roster_of None by simp
next
  case (Some d)
  then have d: "d \<in> set (grp_daemons g)" "dm_proc_id d = i" by (auto simp: find_Some_iff)
  have "inj_on dm_proc_id (set (grp_daemons g))"
    using daemons_wf_distinct [OF assms] by (simp add: distinct_map)
  then have "(\<exists>e \<in> set (grp_daemons g). dm_proc_id e = i \<and> p \<in> set (dm_members e)) \<longleftrightarrow> p \<in> set (dm_members d)"
    using d by (metis inj_onD)
  then show ?thesis unfolding group_roster_def in_roster_of Some by simp
qed

lemma departure_step:
  assumes inv: "groups_inv s" and size: "member_count (grp_daemons g) \<le> 2000" and grp: "G_get_group name s = Some g"
    and d: "List.find (\<lambda>d. dm_proc_id d = i) (grp_daemons g) = Some d" "p \<in> set (dm_members d)"
    and bs: "if i = my_id s then add_mset (mbox_of s p) (mset bs) = mset (grp_mboxes g) else bs = grp_mboxes g"
  shows "returns (bindE (extract_member p d (g\<lparr>grp_mboxes := bs\<rparr>) s) (\<lambda>g2. after_departure caused p g2 s))
     (\<lambda>s'. only_group name s s' \<and> roster s' = roster s - {(name, i, p)})"
proof -
  have in_list: "g \<in> set (GroupsList s)" "grp_name g = name" using grp get_group_in [OF inv] by auto
  then have g: "group_shape s g" using inv group_shape_wf [of s g] by (simp add: groups_inv_def groups_wf_def)
  have d': "d \<in> set (grp_daemons g)" "dm_proc_id d = i" using d(1) by (auto simp: find_Some_iff)
  have "sess_ok s" using inv by (simp add: groups_inv_def)
  then obtain g2 where e: "extract_member p d (g\<lparr>grp_mboxes := bs\<rparr>) s = Inr g2" and g2: "group_shape s g2"
    "grp_name g2 = name" "group_roster g2 = group_roster g - {(i, p)}"
    "member_count (grp_daemons g2) + 1 = member_count (grp_daemons g)" "marks_group s g \<longrightarrow> marks_group s g2"
    using depart_group [of s g d p bs] g d' d(2) bs in_list(2) by (auto elim!: returnsE)
  have "member_count (grp_daemons g2) \<le> 2000" using size g2(4) by simp
  then have "returns (after_departure caused p g2 s) (\<lambda>s'. only_group name s s'
     \<and> roster s' = {x \<in> roster s. fst x \<noteq> name} \<union> Pair name ` group_roster g2)"
    using after_departure_changes [OF inv _ g2(1)] grp g2(2,5) in_list(1) by (simp add: marks_def)
  moreover have "{x \<in> roster s. fst x \<noteq> name} \<union> Pair name ` group_roster g2 = roster s - {(name, i, p)}"
    using roster_group [OF inv grp] unfolding g2(3) by (auto simp: set_eq_iff)
  ultimately show ?thesis using e by simp
qed

text \<open>The mailbox a local member's session has, whatever has been written since.\<close>

lemma local_member_mbox:
  assumes inv: "groups_inv s" and g: "g \<in> set (GroupsList s)" and d: "d \<in> set (grp_daemons g)" "dm_proc_id d = my_id s"
    and p: "private_group prv s \<in> set (dm_members d)"
  obtains i where "i \<in> set (Sess_order s)" and "Sess_get_session prv s = int i"
    and "mbox_of s (private_group prv s) = ses_mbox (ses_at s i)" and "ses_mbox (ses_at s i) \<in> set (grp_mboxes g)"
proof -
  have ok: "sess_ok s" and l: "local_ok s g" using inv g by (simp_all add: groups_inv_def groups_wf_def)
  have m: "private_group prv s \<in> set (local_members s g)" using d p by (auto simp: local_members_def)
  then obtain i where i: "i \<in> set (Sess_order s)" "Sess_get_session prv s = int i"
      "mbox_of s (private_group prv s) = ses_mbox (ses_at s i)"
    using member_session [OF ok] l unfolding local_ok_def by metis
  have "mbox_of s (private_group prv s) \<in># image_mset (mbox_of s) (mset (local_members s g))" using m by simp
  then have "ses_mbox (ses_at s i) \<in> set (grp_mboxes g)"
    using l i(3) unfolding local_ok_def by (metis set_mset_mset)
  then show ?thesis using that i by simp
qed

lemma my_proc_name:
  "groups_inv s \<Longrightarrow> q \<in> set (Config_procs s) \<Longrightarrow> p_id q = my_id s \<Longrightarrow>
   private_group prv s = ''#'' @ prv @ ''#'' @ p_name q"
  using same_proc [of "Config_procs s" q "My s"]
  by (auto simp: groups_inv_def sess_ok_def my_id_def private_group_def)

lemma kill_in_group_changes:
  assumes inv: "groups_inv s" and size: "member_count (grp_daemons g) \<le> 2000" and q: "q \<in> set (Config_procs s)"
    and p: "p = ''#'' @ prv @ ''#'' @ p_name q" and g: "G_get_group (grp_name g) s = Some g"
    and ses: "p_id q = my_id s \<Longrightarrow> ses = Sess_get_session prv s"
  shows "returns (kill_in_group p (p_id q) ses g s) (\<lambda>s'. only_group (grp_name g) s s'
     \<and> roster s' = roster s - {(grp_name g, p_id q, p)})"
proof -
  let ?f = "List.find (\<lambda>d. dm_proc_id d = p_id q) (grp_daemons g)"
  have gl: "g \<in> set (GroupsList s)" using g get_group_in [OF inv] by simp
  then have ds: "daemons_wf (Config_procs s) (grp_daemons g)"
    using inv by (simp add: groups_inv_def groups_wf_def group_wf_def)
  have wf: "wf_procs (Config_procs s)" using inv by (simp add: groups_inv_def sess_ok_def)
  have get: "G_get_daemon g (p_id q) s = Inr ?f"
    using q by (intro get_daemon_eq [OF wf _ ds]) (auto simp: configured_def)
  show ?thesis
  proof (cases "(p_id q, p) \<in> group_roster g")
    case False
    then have "kill_in_group p (p_id q) ses g s = Inr s"
      using in_roster_find [OF wf ds] get
      by (auto simp: kill_in_group_def G_get_member_def skl_get_none split: option.splits)
    moreover have "(grp_name g, p_id q, p) \<notin> roster s" using roster_group [OF inv g] False by auto
    ultimately show ?thesis using inv by (simp add: only_group_def)
  next
    case True
    then obtain d where d: "?f = Some d" "p \<in> set (dm_members d)" using in_roster_find [OF wf ds] by auto
    then have d': "d \<in> set (grp_daemons g)" "dm_proc_id d = p_id q" by (auto simp: find_Some_iff)
    obtain bs where "(if p_id q \<noteq> my_id s then Inr g else if ses < 0 then Inl (Undefined ''Sessions'')
        else G_remove_mailbox g (ses_mbox (ses_at s (nat ses)))) = Inr (g\<lparr>grp_mboxes := bs\<rparr>)"
      and bs: "if p_id q = my_id s then add_mset (mbox_of s p) (mset bs) = mset (grp_mboxes g) else bs = grp_mboxes g"
    proof (cases "p_id q = my_id s")
      case True
      then have pg: "p = private_group prv s" using my_proc_name [OF inv q] p by simp
      obtain i where i: "Sess_get_session prv s = int i" "mbox_of s p = ses_mbox (ses_at s i)" "mbox_of s p \<in> set (grp_mboxes g)"
        using local_member_mbox [OF inv gl d'(1), of prv] d'(2) True d(2) pg by metis
      then show ?thesis
        using that remove_mailbox_returns [OF i(3)] True ses by (auto elim!: returnsE)
    qed (use that in simp)
    moreover have "\<not> G_get_member d p = None" using d(2) by (auto simp: G_get_member_def skl_get_none)
    ultimately show ?thesis
      using departure_step [OF inv size g d bs] d get by (auto simp: kill_in_group_def)
  qed
qed

lemma kill_loop:
  assumes "q \<in> set (Config_procs s)" and "p = ''#'' @ prv @ ''#'' @ p_name q"
    and "p_id q = my_id s \<Longrightarrow> ses = Sess_get_session prv s"
    and "distinct (map grp_name gs)" and "\<forall>g \<in> set gs. G_get_group (grp_name g) s = Some g"
    and "\<forall>g \<in> set gs. member_count (grp_daemons g) \<le> 2000" and "groups_inv s"
  shows "returns (for_each (kill_in_group p (p_id q) ses) gs s) (\<lambda>s'. groups_inv s' \<and> surroundings s' = surroundings s
     \<and> (marks s \<longrightarrow> marks s')
     \<and> roster s' = roster s - {(grp_name g, p_id q, p) | g. g \<in> set gs})"
  using assms
proof (induction gs arbitrary: s)
  case (Cons g gs)
  have "returns (kill_in_group p (p_id q) ses g s) (\<lambda>s'. only_group (grp_name g) s s'
     \<and> roster s' = roster s - {(grp_name g, p_id q, p)})"
  proof (rule kill_in_group_changes [OF Cons.prems(7) _ Cons.prems(1,2) _ Cons.prems(3)])
    show "member_count (grp_daemons g) \<le> 2000" "G_get_group (grp_name g) s = Some g"
      using Cons.prems(5,6) by auto
  qed
  then obtain t where t: "kill_in_group p (p_id q) ses g s = Inr t" "only_group (grp_name g) s t"
    "roster t = roster s - {(grp_name g, p_id q, p)}" by (auto elim!: returnsE)
  have fr: "groups_inv t" "Config_procs t = Config_procs s" "my_id t = my_id s" "surroundings t = surroundings s"
    "\<And>n. n \<noteq> grp_name g \<Longrightarrow> G_get_group n t = G_get_group n s" "Sess_get_session prv t = Sess_get_session prv s"
    using t(2) by (auto simp: only_group_def surroundings_def)
  have "\<forall>h \<in> set gs. G_get_group (grp_name h) t = Some h"
  proof
    fix h assume h: "h \<in> set gs"
    then have "grp_name h \<noteq> grp_name g" using Cons.prems(4) by (metis distinct.simps(2) image_eqI list.map(2) list.set_map)
    then show "G_get_group (grp_name h) t = Some h" using Cons.prems(5) h by (simp add: fr(5))
  qed
  moreover have "q \<in> set (Config_procs t)" "p_id q = my_id t \<Longrightarrow> ses = Sess_get_session prv t"
    "distinct (map grp_name gs)" "\<forall>g \<in> set gs. member_count (grp_daemons g) \<le> 2000"
    using Cons.prems(1,3,4,6) by (simp_all add: fr(2,3,6))
  ultimately have "returns (for_each (kill_in_group p (p_id q) ses) gs t) (\<lambda>s'. groups_inv s' \<and> surroundings s' = surroundings t
     \<and> (marks t \<longrightarrow> marks s')
     \<and> roster s' = roster t - {(grp_name g, p_id q, p) | g. g \<in> set gs})"
    using Cons.prems(2) fr(1) by (intro Cons.IH)
  moreover have "roster t - {(grp_name g, p_id q, p) | g. g \<in> set gs}
      = roster s - {(grp_name h, p_id q, p) | h. h \<in> set (g # gs)}"
    unfolding t(3) by auto
  moreover have "marks s \<longrightarrow> marks t" using t(2) by (simp add: only_group_def)
  ultimately show ?case using t(1) fr(4) by (auto elim!: returns_mono)
qed simp

lemma kill_changes:
  assumes inv: "groups_inv s" and st: "in_op_or_trans s"
    and names: "G_private_to_names p = Inr (Some (prv, pn))" "NUL \<notin> set p"
    and proc: "Conf_proc_by_name (Config_procs s) pn = Some (k, q)" and size: "room 0 s"
  shows "returns (G_handle_kill p s) (\<lambda>s'. groups_inv s' \<and> surroundings s' = surroundings s
     \<and> (marks s \<longrightarrow> marks s')
     \<and> roster s' = {x \<in> roster s. snd x \<noteq> (p_id q, p)})"
proof -
  have q: "q \<in> set (Config_procs s)" "p_name q = pn" using proc_by_name [OF proc] by auto
  have ok: "skl_ok grp_name (GroupsList s)" using inv by (simp add: groups_inv_def groups_wf_def)
  let ?ses = "if p_id q = my_id s then Sess_get_session prv s else -1"
  have m: "\<forall>g \<in> set (GroupsList s). member_count (grp_daemons g) \<le> 2000"
    using room_group [OF inv size] get_group_in [OF inv] by simp
  have "returns (for_each (kill_in_group p (p_id q) ?ses) (GroupsList s) s) (\<lambda>s'. groups_inv s' \<and> surroundings s' = surroundings s
     \<and> (marks s \<longrightarrow> marks s')
     \<and> roster s' = roster s - {(grp_name g, p_id q, p) | g. g \<in> set (GroupsList s)})"
    using private_names [OF names] q(2) get_group_in [OF inv] skl_ok_distinct [OF ok]
    by (intro kill_loop [OF q(1) _ _ _ _ m inv, where prv = prv]) auto
  moreover have "roster s - {(grp_name g, p_id q, p) | g. g \<in> set (GroupsList s)} = {x \<in> roster s. snd x \<noteq> (p_id q, p)}"
    by (auto simp: roster_def)
  ultimately show ?thesis using st by (simp add: G_handle_kill_def names_of_def names(1) proc Let_def)
qed

lemma leave_locally_returns:
  assumes inv: "groups_inv s" and g: "g \<in> set (GroupsList s)" and d: "d \<in> set (grp_daemons g)" "dm_proc_id d = my_id s"
    and p: "p = private_group prv s" "p \<in> set (dm_members d)"
  shows "returns (leave_locally prv g s) (\<lambda>(g1, s1). only_io s s1
     \<and> (\<exists>bs. g1 = g\<lparr>grp_mboxes := bs\<rparr> \<and> add_mset (mbox_of s1 p) (mset bs) = mset (grp_mboxes g)))"
proof -
  have t: "table_ok s" "own_mailboxes s" using inv by (simp_all add: groups_inv_def sess_ok_def)
  obtain i where i: "i \<in> set (Sess_order s)" "Sess_get_session prv s = int i"
    "mbox_of s p = ses_mbox (ses_at s i)" "ses_mbox (ses_at s i) \<in> set (grp_mboxes g)"
    using local_member_mbox [OF inv g d, of prv] p by metis
  have "returns (G_send_self_leave g (int i) s) (only_io s)"
    using Sess_write_returns [OF t i(1)] by (simp add: G_send_self_leave_def)
  then obtain s1 where s1: "G_send_self_leave g (int i) s = Inr s1" "only_io s s1" by (rule returnsE)
  have "ses_mbox (ses_at s1 i) = ses_mbox (ses_at s i)"
    using only_io_entry [OF s1(2)] table_ok_order [OF t(1) i(1)] by simp
  then show ?thesis
    using remove_mailbox_returns [OF i(4)] mbox_of_io [OF s1(2) t(1)] i(2,3) s1
    by (auto simp: leave_locally_def Let_def elim!: returnsE)
qed

lemma leave_changes:
  assumes inv: "groups_inv s" and st: "in_op_or_trans s"
    and names: "G_private_to_names p = Inr (Some (prv, pn))" "NUL \<notin> set p"
    and proc: "Conf_proc_by_name (Config_procs s) pn = Some (k, q)" and size: "room 0 s"
  shows "returns (G_handle_leave p name s) (\<lambda>s'. groups_inv s' \<and> surroundings s' = surroundings s
     \<and> (marks s \<longrightarrow> marks s')
     \<and> roster s' = roster s - {(name, p_id q, p)})"
proof (cases "(name, p_id q, p) \<in> roster s")
  case False
  note H = G_handle_leave_def names_of_def names(1) proc
  have wf: "wf_procs (Config_procs s)" using inv by (simp add: groups_inv_def sess_ok_def)
  have "G_handle_leave p name s = Inr s"
  proof (cases "G_get_group name s")
    case (Some g)
    then have g: "(p_id q, p) \<notin> group_roster g" "g \<in> set (GroupsList s)"
      using False roster_group [OF inv Some] get_group_in [OF inv] by auto
    then have ds: "daemons_wf (Config_procs s) (grp_daemons g)"
      using inv by (simp add: groups_inv_def groups_wf_def group_wf_def)
    have "G_get_daemon g (p_id q) s = Inr (List.find (\<lambda>d. dm_proc_id d = p_id q) (grp_daemons g))"
      using proc_by_name [OF proc] by (intro get_daemon_eq [OF wf _ ds]) (auto simp: configured_def)
    then show ?thesis
      using in_roster_find [OF wf ds] g(1) Some st
      by (auto simp: H G_get_member_def skl_get_none split: option.splits)
  qed (use st in \<open>simp add: H\<close>)
  then show ?thesis using False inv by simp
next
  case True
  note H = G_handle_leave_def names_of_def names(1) proc
  have wf: "wf_procs (Config_procs s)" using inv by (simp add: groups_inv_def sess_ok_def)
  obtain g where g: "G_get_group name s = Some g" "(p_id q, p) \<in> group_roster g"
    using True roster_group [OF inv] roster_no_group [OF inv] by (cases "G_get_group name s") auto
  then have gl: "g \<in> set (GroupsList s)" using get_group_in [OF inv] by simp
  then have ds: "daemons_wf (Config_procs s) (grp_daemons g)"
    using inv by (simp add: groups_inv_def groups_wf_def group_wf_def)
  have q: "q \<in> set (Config_procs s)" "p_name q = pn" using proc_by_name [OF proc] by auto
  then have get: "G_get_daemon g (p_id q) s = Inr (List.find (\<lambda>d. dm_proc_id d = p_id q) (grp_daemons g))"
    by (intro get_daemon_eq [OF wf _ ds]) (auto simp: configured_def)
  obtain d where d: "List.find (\<lambda>d. dm_proc_id d = p_id q) (grp_daemons g) = Some d" "p \<in> set (dm_members d)"
    using g(2) in_roster_find [OF wf ds] by auto
  then have d': "d \<in> set (grp_daemons g)" "dm_proc_id d = p_id q" by (auto simp: find_Some_iff)
  obtain g1 s1 bs where r: "(if p_id q = my_id s then leave_locally prv g s else Inr (g, s)) = Inr (g1, s1)"
    and io: "only_io s s1" and g1: "g1 = g\<lparr>grp_mboxes := bs\<rparr>"
    and bs: "if p_id q = my_id s1 then add_mset (mbox_of s1 p) (mset bs) = mset (grp_mboxes g) else bs = grp_mboxes g"
  proof (cases "p_id q = my_id s")
    case True
    then have pg: "p = private_group prv s" using my_proc_name [OF inv q(1)] private_names [OF names] q(2) by simp
    show ?thesis
      using leave_locally_returns [OF inv gl d'(1) _ pg d(2)] d'(2) True
      by (auto elim!: returnsE simp: my_id_io intro!: that)
  qed (use that [of g s "grp_mboxes g"] in simp)
  have inv1: "groups_inv s1" "roster s1 = roster s" "surroundings s1 = surroundings s" "marks s1 = marks s"
    using groups_inv_io [OF io inv] surroundings_io [OF io] marks_io [OF io] by auto
  have get1: "G_get_group name s1 = Some g" using g(1) only_io_groups(1) [OF io] by (simp add: G_get_group_def)
  have "member_count (grp_daemons g) \<le> 2000" using room_group [OF inv size g(1)] by simp
  from departure_step [OF inv1(1) this get1 d bs, of CAUSED_BY_LEAVE]
  have "returns (G_handle_leave p name s) (\<lambda>s'. only_group name s1 s' \<and> roster s' = roster s1 - {(name, p_id q, p)})"
    using st g(1) get d r by (auto simp: H g1 G_get_member_def skl_get_none)
  then show ?thesis by (rule returns_mono) (simp add: only_group_def inv1)
qed

end
