(* ===== verification/Group_Memberships.thy ===== *)
theory Group_Memberships
  imports Group_Departures
begin

section \<open>Memberships that only lose daemons\<close>

text \<open>
  A transitional membership leaves the roster as it is and marks the daemons that are gone; the
  regular membership that follows, when it adds no daemon, takes the members on them out. Both
  handlers go over all groups; \<open>each_group\<close> says what such a loop does from what one step does.
\<close>

subsection \<open>Loops over the groups\<close>

definition turns :: "'a groups_st_scheme \<Rightarrow> string \<Rightarrow> group option \<Rightarrow> 'a groups_st_scheme \<Rightarrow> bool" where
  "turns s name r s' \<longleftrightarrow> groups_inv s' \<and> surroundings s' = surroundings s
     \<and> (\<forall>n. G_get_group n s' = (if n = name then r else G_get_group n s))"

lemma groups_loop:
  assumes "groups_inv s" and "distinct (map grp_name gs)" and "\<forall>g \<in> set gs. G_get_group (grp_name g) s = Some g"
    and step: "\<And>g t. g \<in> set gs \<Longrightarrow> groups_inv t \<Longrightarrow> surroundings t = surroundings s \<Longrightarrow>
      G_get_group (grp_name g) t = Some g \<Longrightarrow> returns (f g t) (turns t (grp_name g) (R g))"
  shows "returns (for_each f gs s) (\<lambda>s'. groups_inv s' \<and> surroundings s' = surroundings s
     \<and> (\<forall>n. G_get_group n s' = (if n \<in> grp_name ` set gs then Option.bind (G_get_group n s) R else G_get_group n s)))"
  using assms
proof (induction gs arbitrary: s)
  case (Cons g gs)
  have gs: "G_get_group (grp_name g) s = Some g" "grp_name g \<notin> grp_name ` set gs" "distinct (map grp_name gs)"
    using Cons.prems(2,3) by simp_all
  have "returns (f g s) (turns s (grp_name g) (R g))"
    by (rule Cons.prems(4)) (simp_all add: Cons.prems(1) gs(1))
  then obtain t where "f g s = Inr t" and "turns s (grp_name g) (R g) t" by (rule returnsE)
  then have t: "f g s = Inr t" "groups_inv t" "surroundings t = surroundings s"
    "\<forall>n. G_get_group n t = (if n = grp_name g then R g else G_get_group n s)"
    by (simp_all add: turns_def)
  have "returns (for_each f gs t) (\<lambda>s'. groups_inv s' \<and> surroundings s' = surroundings t
     \<and> (\<forall>n. G_get_group n s' = (if n \<in> grp_name ` set gs then Option.bind (G_get_group n t) R else G_get_group n t)))"
  proof (rule Cons.IH [OF t(2) gs(3)])
    show "\<forall>h \<in> set gs. G_get_group (grp_name h) t = Some h"
    proof
      fix h assume "h \<in> set gs"
      then have "grp_name h \<noteq> grp_name g" "G_get_group (grp_name h) s = Some h"
        using gs(2) Cons.prems(3) by (metis image_eqI, simp)
      then show "G_get_group (grp_name h) t = Some h" by (simp only: t(4) if_False)
    qed
    show "returns (f h u) (turns u (grp_name h) (R h))"
      if "h \<in> set gs" "groups_inv u" "surroundings u = surroundings t" "G_get_group (grp_name h) u = Some h" for h u
      using that(1) by (intro Cons.prems(4) that(2,4)) (simp, simp only: that(3) t(3))
  qed
  then obtain u where u: "for_each f gs t = Inr u" "groups_inv u" "surroundings u = surroundings s"
    "\<forall>n. G_get_group n u = (if n \<in> grp_name ` set gs then Option.bind (G_get_group n t) R else G_get_group n t)"
    unfolding t(3) by (elim returnsE conjE) (rule that)
  have "G_get_group n u = (if n \<in> grp_name ` set (g # gs) then Option.bind (G_get_group n s) R else G_get_group n s)" for n
    unfolding u(4) [rule_format, of n] t(4) [rule_format, of n] using gs(1,2) by (cases "n = grp_name g") simp_all
  then show ?case unfolding for_each.simps t(1) bindE_Inr u(1) returns_Inr u(3) using u(2) by blast
qed simp

lemma each_group:
  assumes inv: "groups_inv s"
    and step: "\<And>g t. g \<in> set (GroupsList s) \<Longrightarrow> groups_inv t \<Longrightarrow> surroundings t = surroundings s \<Longrightarrow>
      G_get_group (grp_name g) t = Some g \<Longrightarrow> returns (f g t) (turns t (grp_name g) (R g))"
  shows "returns (for_each f (GroupsList s) s) (\<lambda>s'. groups_inv s' \<and> surroundings s' = surroundings s
     \<and> (\<forall>n. G_get_group n s' = Option.bind (G_get_group n s) R))"
proof -
  have ok: "skl_ok grp_name (GroupsList s)" using inv by (simp add: groups_inv_def groups_wf_def)
  have "\<forall>g \<in> set (GroupsList s). G_get_group (grp_name g) s = Some g" using get_group_in [OF inv] by simp
  from groups_loop [OF inv skl_ok_distinct [OF ok] this step]
  have "returns (for_each f (GroupsList s) s) (\<lambda>s'. groups_inv s' \<and> surroundings s' = surroundings s
     \<and> (\<forall>n. G_get_group n s' = (if n \<in> grp_name ` set (GroupsList s) then Option.bind (G_get_group n s) R else G_get_group n s)))" .
  moreover have "n \<notin> grp_name ` set (GroupsList s) \<Longrightarrow> G_get_group n s = None" for n
    using get_group_in [OF inv, of n] by (metis image_eqI not_None_eq)
  ultimately show ?thesis by (auto elim!: returns_mono)
qed

lemma roster_get: "groups_inv s \<Longrightarrow> roster s = {(n, x). \<exists>g. G_get_group n s = Some g \<and> x \<in> group_roster g}"
  using get_group_in [of s] by (auto simp: roster_def)

text \<open>Putting and removing a group, as such a step.\<close>

lemma turns_put:
  assumes "groups_inv s" and "G_get_group (grp_name g) s = Some g0" and "group_wf (Config_procs s) g" and "local_ok s g"
  shows "turns s (grp_name g) (Some g) (put_group g s)"
proof -
  have "skl_ok grp_name (GroupsList s)" using assms(1) by (simp add: groups_inv_def groups_wf_def)
  then show ?thesis
    using put_group_inv(1) [OF assms(1,3,4), of "Num_groups s"] assms(2)
    by (auto simp: turns_def G_get_group_def skl_get_put)
qed

lemma turns_io: "turns s name r t \<Longrightarrow> only_io t s' \<Longrightarrow> turns s name r s'"
  using groups_inv_io [of t s'] surroundings_io [of t s'] only_io_groups(1) [of t s']
  by (simp add: turns_def G_get_group_def)

lemma turns_after_io:
  assumes "only_io s t" and "turns t name r s'"
  shows "turns s name r s'"
proof -
  have "G_get_group n t = G_get_group n s" for n using only_io_groups(1) [OF assms(1)] by (simp add: G_get_group_def)
  then show ?thesis using assms(2) surroundings_io [OF assms(1)] by (simp add: turns_def)
qed

text \<open>A change to the daemons that keeps who they are and who is there.\<close>

lemma daemons_map:
  assumes "\<And>d. dm_proc_id (h d) = dm_proc_id d \<and> dm_members (h d) = dm_members d"
  shows "daemons_wf procs (map h ds) = daemons_wf procs ds"
    and "concat (map dm_members (map h ds)) = concat (map dm_members ds)"
    and "filter (\<lambda>d. dm_proc_id d = i) (map h ds) = map h (filter (\<lambda>d. dm_proc_id d = i) ds)"
proof -
  have "dkey procs \<circ> h = dkey procs" using assms by (intro ext) simp
  then show "daemons_wf procs (map h ds) = daemons_wf procs ds"
    using assms by (simp add: daemons_wf_def skl_ok_def daemon_wf_def)
  show "concat (map dm_members (map h ds)) = concat (map dm_members ds)" using assms by (induction ds) simp_all
  show "filter (\<lambda>d. dm_proc_id d = i) (map h ds) = map h (filter (\<lambda>d. dm_proc_id d = i) ds)"
    using assms by (induction ds) simp_all
qed

lemma same_people:
  assumes h: "\<And>d. dm_proc_id (h d) = dm_proc_id d \<and> dm_members (h d) = dm_members d"
    and g': "grp_daemons g' = map h (grp_daemons g)" "grp_num_members g' = grp_num_members g" "grp_mboxes g' = grp_mboxes g"
  shows "group_wf procs g' = group_wf procs g" and "local_ok s g' = local_ok s g"
    and "group_roster g' = group_roster g" and "all_members g' = all_members g"
proof -
  note D = daemons_map [where h = h, OF h]
  show "group_wf procs g' = group_wf procs g"
    using D(1,2) by (simp add: group_wf_def g' member_count_def)
  have "local_members s g' = local_members s g"
    using D(2) by (simp add: local_members_def g' D(3))
  then show "local_ok s g' = local_ok s g" by (simp add: local_ok_def g')
  show "group_roster g' = group_roster g"
    by (rule set_eqI) (simp only: split_paired_all group_roster_def in_roster_of g', simp add: h)
  show "all_members g' = all_members g" using D(2) by (simp add: all_members_def g')
qed

subsection \<open>Transitional memberships\<close>

text \<open>What \<open>trans_group\<close> makes of a group.\<close>

definition trans_result :: "'a groups_st_scheme \<Rightarrow> group \<Rightarrow> group" where
  "trans_result s g =
     (if list_all (\<lambda>d. in_trans (dm_proc_id d) s) (grp_daemons g) then g
      else G_update_daemon_memb_ids (g\<lparr>grp_daemons := map (mark_partitioned s) (grp_daemons g),
             grp_id := \<lparr>gid_memb_id = G_Trans_memb_id s, gid_index = 1\<rparr>, grp_changed := True\<rparr>))"

definition trans_mark :: "'a groups_st_scheme \<Rightarrow> daemon_members \<Rightarrow> daemon_members" where
  "trans_mark s d = (let d' = mark_partitioned s d
     in if Is_established_daemon d' then d'\<lparr>dm_memb_id := G_Trans_memb_id s\<rparr> else d')"

lemma trans_mark_who: "dm_proc_id (trans_mark s d) = dm_proc_id d \<and> dm_members (trans_mark s d) = dm_members d"
  by (simp add: trans_mark_def mark_partitioned_def Let_def)

lemma mark_partitioned_who: "dm_proc_id (mark_partitioned s d) = dm_proc_id d \<and> dm_members (mark_partitioned s d) = dm_members d"
  by (simp add: mark_partitioned_def)

lemma trans_result_map:
  "\<not> list_all (\<lambda>d. in_trans (dm_proc_id d) s) (grp_daemons g) \<Longrightarrow>
   grp_daemons (trans_result s g) = map (trans_mark s) (grp_daemons g)"
  "grp_num_members (trans_result s g) = grp_num_members g" "grp_mboxes (trans_result s g) = grp_mboxes g"
  "grp_name (trans_result s g) = grp_name g"
  by (simp_all add: trans_result_def G_update_daemon_memb_ids_def trans_mark_def Let_def)

lemma trans_result_people:
  "group_wf procs (trans_result s g) = group_wf procs g" "local_ok t (trans_result s g) = local_ok t g"
  "group_roster (trans_result s g) = group_roster g"
proof -
  consider "trans_result s g = g" | "grp_daemons (trans_result s g) = map (trans_mark s) (grp_daemons g)"
    by (cases "list_all (\<lambda>d. in_trans (dm_proc_id d) s) (grp_daemons g)")
      (use trans_result_map(1) [of s g] in \<open>auto simp: trans_result_def\<close>)
  then have "group_wf procs (trans_result s g) = group_wf procs g \<and> local_ok t (trans_result s g) = local_ok t g
      \<and> group_roster (trans_result s g) = group_roster g"
    using same_people [of "trans_mark s" "trans_result s g" g, OF trans_mark_who _ trans_result_map(2,3)]
    by cases simp_all
  then show "group_wf procs (trans_result s g) = group_wf procs g" "local_ok t (trans_result s g) = local_ok t g"
    "group_roster (trans_result s g) = group_roster g" by simp_all
qed

lemma trans_result_cong: "surroundings t = surroundings s \<Longrightarrow> trans_result t g = trans_result s g"
  unfolding trans_result_def mark_partitioned_def [abs_def] in_trans_def by (simp add: surroundings_def)

lemma trans_group_turns:
  assumes inv: "groups_inv t" and g: "G_get_group (grp_name g) t = Some g"
  shows "returns (trans_group g t) (turns t (grp_name g) (Some (trans_result t g)))"
proof (cases "list_all (\<lambda>d. in_trans (dm_proc_id d) t) (grp_daemons g)")
  case True
  then show ?thesis using inv g by (simp add: trans_group_def trans_result_def turns_def)
next
  case False
  let ?g = "g\<lparr>grp_daemons := map (mark_partitioned t) (grp_daemons g)\<rparr>"
  have gw: "group_wf (Config_procs t) g" "local_ok t g" "sess_ok t"
    using inv g get_group_in [OF inv] by (auto simp: groups_inv_def groups_wf_def)
  have "local_ok t ?g"
    using same_people(2) [of "mark_partitioned t" ?g g t, OF mark_partitioned_who] gw(2) by simp
  then have "returns (if grp_mboxes ?g \<noteq> [] then G_send_trans_memb ?g t else Inr t) (only_io t)"
    using trans_memb_returns [OF gw(3)] by simp
  then obtain u where u: "(if grp_mboxes ?g \<noteq> [] then G_send_trans_memb ?g t else Inr t) = Inr u" "only_io t u"
    by (rule returnsE)
  have e: "trans_group g t = Inr (put_group (trans_result t g) u)"
    using False u(1) by (simp add: trans_group_def trans_result_def Let_def cong: if_cong)
  have iu: "groups_inv u" "table_ok t" using groups_inv_io [OF u(2) inv] gw(3) by (simp_all add: sess_ok_def)
  have "G_get_group (grp_name g) u = Some g" using g only_io_groups(1) [OF u(2)] by (simp add: G_get_group_def)
  then have "turns u (grp_name (trans_result t g)) (Some (trans_result t g)) (put_group (trans_result t g) u)"
    using gw only_io_fields(5) [OF u(2)] local_ok_io [OF u(2) iu(2)]
    by (intro turns_put [OF iu(1)]) (simp_all add: trans_result_map(4) trans_result_people)
  then show ?thesis using e turns_after_io [OF u(2)] by (simp add: trans_result_map(4))
qed

lemma groups_inv_reset:
  "groups_inv (s\<lparr>G_Trans_memb := tm, G_Trans_memb_id := ti\<rparr>) = groups_inv s"
  "groups_inv (s\<lparr>G_Reg_memb := tm, G_Reg_memb_id := ti\<rparr>) = groups_inv s"
  "groups_inv (s\<lparr>Gstate := st, MySyncedSet := ps\<rparr>) = groups_inv s" "groups_inv (s\<lparr>Gstate := st\<rparr>) = groups_inv s"
proof -
  have c: "groups_inv t = groups_inv s"
    if "same_sessions s t" "GroupsList t = GroupsList s" "Num_groups t = Num_groups s" for t
    using same_sessions_cong [OF that(1)] that by (simp add: groups_inv_def groups_wf_def same_sessions_def)
  show "groups_inv (s\<lparr>G_Trans_memb := tm, G_Trans_memb_id := ti\<rparr>) = groups_inv s"
    "groups_inv (s\<lparr>G_Reg_memb := tm, G_Reg_memb_id := ti\<rparr>) = groups_inv s"
    "groups_inv (s\<lparr>Gstate := st, MySyncedSet := ps\<rparr>) = groups_inv s" "groups_inv (s\<lparr>Gstate := st\<rparr>) = groups_inv s"
    by (rule c; simp add: same_sessions_def)+
qed

text \<open>The marks after a transitional membership.\<close>

lemma trans_result_marks:
  assumes "marks_group s g" and "Gstate s = GOP" and "\<not> Is_unknown_memb_id (G_Trans_memb_id t)" and "Gstate u = GTRANS"
    and "G_Trans_memb u = G_Trans_memb t" and "Config_procs u = Config_procs t"
  shows "marks_group u (trans_result t g)"
proof -
  have o: "\<forall>d \<in> set (grp_daemons g). \<not> Is_partitioned_daemon d" "\<not> grp_changed g" "\<not> Is_unknown_memb_id (gid_memb_id (grp_id g))"
    using assms(1,2) by (auto simp: marks_group_def with_us_def)
  have w: "with_us i u = in_trans i t" for i using assms(4-6) by (simp add: with_us_def in_trans_def)
  show ?thesis
  proof (cases "list_all (\<lambda>d. in_trans (dm_proc_id d) t) (grp_daemons g)")
    case True
    then show ?thesis using o assms(4) by (simp add: trans_result_def marks_group_def w list_all_iff list_ex_iff)
  next
    case False
    have p: "Is_partitioned_daemon (trans_mark t d) \<longleftrightarrow> \<not> in_trans (dm_proc_id d) t" if "d \<in> set (grp_daemons g)" for d
      using that o(1) assms(3)
      by (auto simp: trans_mark_def mark_partitioned_def Is_partitioned_daemon_def Is_established_daemon_def
          unknown_memb_id_def Is_unknown_memb_id_def)
    have c: "grp_changed (trans_result t g)" "gid_memb_id (grp_id (trans_result t g)) = G_Trans_memb_id t"
      using False by (simp_all add: trans_result_def G_update_daemon_memb_ids_def)
    show ?thesis
      unfolding marks_group_def trans_result_map(1) [OF False] using p c assms(3,4)
      by (simp add: w trans_mark_who)
  qed
qed

lemma in_trans_synced: "G_update_synced_set ps (G_Trans_memb s) s = filter (\<lambda>i. in_trans i s) ps"
proof -
  have "Conf_id_in_conf (Config_procs s) (G_Trans_memb s) i \<ge> 0 \<longleftrightarrow> in_trans i s" for i
    using find_index_range by (fastforce simp: in_trans_def Conf_id_in_conf_def)
  then show ?thesis by (simp add: G_update_synced_set_def G_update_synced_set_status_def Let_def)
qed

lemma room_result:
  assumes "groups_inv s" and "groups_inv s'" and "room n s"
    and "\<And>name g'. G_get_group name s' = Some g' \<Longrightarrow>
      \<exists>g. G_get_group name s = Some g \<and> length (all_members g') \<le> length (all_members g)"
  shows "room n s'"
  unfolding room_def
proof
  fix g' assume "g' \<in> set (GroupsList s')"
  then have "G_get_group (grp_name g') s' = Some g'" using get_group_in [OF assms(2)] by simp
  then obtain g where "G_get_group (grp_name g') s = Some g" "length (all_members g') \<le> length (all_members g)"
    using assms(4) by blast
  then show "length (all_members g') + n \<le> 2000"
    using assms(3) get_group_in [OF assms(1)] by (fastforce simp: room_def)
qed

lemma trans_result_members: "all_members (trans_result s g) = all_members g"
proof (cases "list_all (\<lambda>d. in_trans (dm_proc_id d) s) (grp_daemons g)")
  case False
  then show ?thesis
    using same_people(4) [of "trans_mark s" "trans_result s g" g, OF trans_mark_who] trans_result_map by metis
qed (simp add: trans_result_def)

lemma trans_memb_changes:
  assumes inv: "groups_inv s" and st: "Gstate s = GOP" and mk: "marks s" and ti: "\<not> Is_unknown_memb_id ti" and size: "room n s"
  shows "returns (G_handle_trans_memb tm ti s) (\<lambda>s'. groups_inv s' \<and> marks s' \<and> room n s' \<and> Gstate s' = GTRANS
     \<and> G_Trans_memb s' = tm \<and> G_Trans_memb_id s' = ti \<and> Config_procs s' = Config_procs s \<and> my_id s' = my_id s
     \<and> MySyncedSet s' = filter (\<lambda>i. in_trans i s') (MySyncedSet s) \<and> roster s' = roster s)"
proof -
  let ?s = "s\<lparr>G_Trans_memb := tm, G_Trans_memb_id := ti\<rparr>"
  have inv1: "groups_inv ?s" using inv by (simp add: groups_inv_reset)
  have "returns (for_each trans_group (GroupsList ?s) ?s) (\<lambda>s'. groups_inv s' \<and> surroundings s' = surroundings ?s
     \<and> (\<forall>n. G_get_group n s' = Option.bind (G_get_group n ?s) (\<lambda>g. Some (trans_result ?s g))))"
  proof (rule each_group [OF inv1])
    fix g t
    assume t: "groups_inv t" "surroundings t = surroundings ?s" "G_get_group (grp_name g) t = Some g"
    from trans_group_turns [OF t(1,3)]
    show "returns (trans_group g t) (turns t (grp_name g) (Some (trans_result ?s g)))"
      unfolding trans_result_cong [OF t(2)] .
  qed
  then obtain u where u: "for_each trans_group (GroupsList ?s) ?s = Inr u" "groups_inv u" "surroundings u = surroundings ?s"
    "\<And>n. G_get_group n u = map_option (trans_result ?s) (G_get_group n ?s)"
    by (elim returnsE) (simp add: map_conv_bind_option comp_def)
  let ?u = "u\<lparr>Gstate := GTRANS, MySyncedSet := filter (\<lambda>i. in_trans i u) (MySyncedSet s)\<rparr>"
  have f: "G_Trans_memb u = tm" "G_Trans_memb_id u = ti" "Config_procs u = Config_procs s" "my_id u = my_id s"
    "MySyncedSet u = MySyncedSet s" using u(3) by (simp_all add: surroundings_def my_id_def)
  have inv2: "groups_inv ?u" using u(2) by (simp add: groups_inv_reset)
  have get: "G_get_group n ?u = map_option (trans_result ?s) (G_get_group n s)" for n
    using u(4) [of n] by (simp add: G_get_group_def)
  have "roster ?u = roster s"
    unfolding roster_get [OF inv2] roster_get [OF inv] get by (auto simp: trans_result_people(3))
  moreover have "marks_group ?u g'" if "g' \<in> set (GroupsList ?u)" for g'
  proof -
    have "G_get_group (grp_name g') ?u = Some g'" using that get_group_in [OF inv2] by simp
    then have "map_option (trans_result ?s) (G_get_group (grp_name g') s) = Some g'" by (simp only: get)
    then obtain g where g: "G_get_group (grp_name g') s = Some g" "g' = trans_result ?s g"
      unfolding map_option_eq_Some by metis
    then have "marks_group s g" using mk get_group_in [OF inv] by (simp add: marks_def)
    then show ?thesis unfolding g(2) using ti f by (intro trans_result_marks [OF _ st]) simp_all
  qed
  then have "marks ?u" using ti f by (simp add: marks_def)
  moreover have "room n ?u"
    using get by (intro room_result [OF inv inv2 size]) (auto simp: trans_result_members)
  moreover have "in_trans i ?u = in_trans i u" for i by (simp add: in_trans_def)
  ultimately show ?thesis
    using u(1) inv2 f st by (simp add: G_handle_trans_memb_def in_trans_synced my_id_def)
qed

subsection \<open>Regular memberships\<close>

lemma skl_del_filter: "skl_ok key xs \<Longrightarrow> skl_del key k xs = filter (\<lambda>x. key x \<noteq> k) xs"
  by (induction xs) (auto simp: skl_ok_Cons intro!: filter_True [symmetric])

text \<open>Daemons taken out one by one.\<close>

lemma remove_daemon_returns:
  assumes wf: "wf_procs (Config_procs s)" and g: "daemons_wf (Config_procs s) (grp_daemons g)" and d: "d \<in> set (grp_daemons g)"
  shows "returns (G_remove_daemon g d s) (\<lambda>g'. g' = g\<lparr>grp_daemons := filter (\<lambda>e. e \<noteq> d) (grp_daemons g),
     grp_num_members := grp_num_members g - int (length (dm_members d))\<rparr>
     \<and> member_count (grp_daemons g') = member_count (grp_daemons g) - int (length (dm_members d)))"
proof -
  let ?procs = "Config_procs s" and ?ds = "grp_daemons g"
  have ok: "skl_ok (dkey ?procs) ?ds" using g by (simp add: daemons_wf_def)
  have get: "skl_get (dkey ?procs) (dkey ?procs d) ?ds = Some d" using skl.find_elems [OF ok] d by blast
  have c: "configured ?procs (dm_proc_id d)" using g d by (auto simp: daemons_wf_def daemon_wf_def)
  have "dkey ?procs e = dkey ?procs d \<longleftrightarrow> e = d" if "e \<in> set ?ds" for e
    using skl.key_unique [OF ok that d] by auto
  then have f: "skl_del (dkey ?procs) (dkey ?procs d) ?ds = filter (\<lambda>e. e \<noteq> d) ?ds"
    unfolding skl_del_filter [OF ok] by (intro filter_cong) auto
  have "member_count ?ds = member_count (skl_del (dkey ?procs) (dkey ?procs d) ?ds) + int (length (dm_members d))"
    unfolding member_count_sum sum_over_del [OF get, symmetric] by simp
  then show ?thesis using get compared_ok [OF wf c g] f by (simp add: G_remove_daemon_def)
qed

lemma eliminate_returns:
  assumes wf: "wf_procs (Config_procs s)"
    and "daemons_wf (Config_procs s) (grp_daemons g)" and "grp_num_members g = member_count (grp_daemons g)"
    and "set es \<subseteq> set (grp_daemons g)" and "distinct es"
  shows "returns (for_each (\<lambda>d (changed, g).
       if to_drop d s then bindE (G_remove_daemon g d s) (\<lambda>g'. Inr (True, g')) else Inr (changed, g)) es (changed, g))
     (\<lambda>(changed', g'). g' = g\<lparr>grp_daemons := filter (\<lambda>e. \<not> (e \<in> set es \<and> to_drop e s)) (grp_daemons g),
          grp_num_members := member_count (filter (\<lambda>e. \<not> (e \<in> set es \<and> to_drop e s)) (grp_daemons g))\<rparr>
        \<and> changed' = (changed \<or> list_ex (\<lambda>d. to_drop d s) es))"
  using assms(2-)
proof (induction es arbitrary: changed g)
  case Nil
  then show ?case by (cases g) simp
next
  case (Cons d es)
  show ?case
  proof (cases "to_drop d s")
    case False
    have "filter (\<lambda>e. \<not> (e \<in> set (d # es) \<and> to_drop e s)) (grp_daemons g)
        = filter (\<lambda>e. \<not> (e \<in> set es \<and> to_drop e s)) (grp_daemons g)"
      using False by (intro filter_cong) auto
    then show ?thesis using Cons.IH [of g changed] Cons.prems False by simp
  next
    case True
    obtain g1 where g1: "G_remove_daemon g d s = Inr g1" "g1 = g\<lparr>grp_daemons := filter (\<lambda>e. e \<noteq> d) (grp_daemons g),
       grp_num_members := grp_num_members g - int (length (dm_members d))\<rparr>"
      "member_count (grp_daemons g1) = member_count (grp_daemons g) - int (length (dm_members d))"
      using remove_daemon_returns [OF wf, of g d] Cons.prems by (auto elim!: returnsE)
    have "daemons_wf (Config_procs s) (grp_daemons g1)"
      using Cons.prems(1) by (auto simp: g1(2) daemons_wf_def skl_ok_def sorted_wrt_map sorted_wrt_filter)
    moreover have "set es \<subseteq> set (grp_daemons g1)" using Cons.prems(3,4) by (auto simp: g1(2))
    moreover have "grp_num_members g1 = member_count (grp_daemons g1)" using Cons.prems(2) g1 by simp
    ultimately have "returns (for_each (\<lambda>d (changed, g).
       if to_drop d s then bindE (G_remove_daemon g d s) (\<lambda>g'. Inr (True, g')) else Inr (changed, g)) es (True, g1))
     (\<lambda>(changed', g'). g' = g1\<lparr>grp_daemons := filter (\<lambda>e. \<not> (e \<in> set es \<and> to_drop e s)) (grp_daemons g1),
          grp_num_members := member_count (filter (\<lambda>e. \<not> (e \<in> set es \<and> to_drop e s)) (grp_daemons g1))\<rparr>
        \<and> changed' = (True \<or> list_ex (\<lambda>d. to_drop d s) es))"
      using Cons.prems(4) by (intro Cons.IH) simp_all
    moreover have "filter (\<lambda>e. \<not> (e \<in> set es \<and> to_drop e s)) (grp_daemons g1)
        = filter (\<lambda>e. \<not> (e \<in> set (d # es) \<and> to_drop e s)) (grp_daemons g)"
      using True by (auto simp: g1(2) intro!: filter_cong)
    ultimately show ?thesis
      using True g1(1,2) by simp
  qed
qed

text \<open>What \<open>drop_partitioned settle_group\<close> makes of a group.\<close>

definition settle_result :: "'a groups_st_scheme \<Rightarrow> group \<Rightarrow> group option" where
  "settle_result s g =
     (let ds = filter Is_established_daemon (grp_daemons g)
      in if \<not> grp_changed g then Some g else if ds = [] then None
         else Some (g\<lparr>grp_num_members := member_count ds, grp_id := \<lparr>gid_memb_id = G_Reg_memb_id s, gid_index = 1\<rparr>,
                grp_changed := False, grp_daemons := map (\<lambda>d. d\<lparr>dm_memb_id := G_Reg_memb_id s\<rparr>) ds\<rparr>))"

lemma settle_result_cong: "surroundings t = surroundings s \<Longrightarrow> settle_result t g = settle_result s g"
  by (simp add: surroundings_def settle_result_def Let_def)

lemma settle_result_shape:
  assumes "group_wf (Config_procs t) g" and "local_ok t g" and "settle_result s g = Some g'"
    and "\<And>d. d \<in> set (grp_daemons g) \<Longrightarrow> dm_proc_id d = my_id t \<Longrightarrow> Is_established_daemon d"
  shows "group_wf (Config_procs t) g'" and "local_ok t g'" and "grp_name g' = grp_name g" and "grp_mboxes g' = grp_mboxes g"
    and "length (all_members g') \<le> length (all_members g)"
proof -
  let ?ds = "filter Is_established_daemon (grp_daemons g)"
  let ?g = "g\<lparr>grp_daemons := ?ds, grp_num_members := member_count ?ds\<rparr>"
  have "group_wf (Config_procs t) g' \<and> local_ok t g' \<and> grp_name g' = grp_name g \<and> grp_mboxes g' = grp_mboxes g
    \<and> length (all_members g') \<le> length (all_members g)"
  proof (cases "grp_changed g")
    case False
    then show ?thesis using assms(1-3) by (simp add: settle_result_def)
  next
    case True
    let ?h = "\<lambda>d. d\<lparr>dm_memb_id := G_Reg_memb_id s\<rparr>"
    have ne: "?ds \<noteq> []" and g': "grp_daemons g' = map ?h ?ds" "grp_num_members g' = member_count ?ds"
      "grp_mboxes g' = grp_mboxes g" "grp_name g' = grp_name g"
      using assms(3) True by (auto simp: settle_result_def Let_def split: if_splits)
    have "daemons_wf (Config_procs t) ?ds"
      using assms(1) by (auto simp: group_wf_def daemons_wf_def skl_ok_def sorted_wrt_map sorted_wrt_filter)
    then have "group_wf (Config_procs t) ?g" using ne by (simp add: group_wf_def)
    moreover have "filter (\<lambda>d. dm_proc_id d = my_id t) ?ds = filter (\<lambda>d. dm_proc_id d = my_id t) (grp_daemons g)"
      unfolding filter_filter using assms(4) by (intro filter_cong) auto
    then have "local_ok t ?g" using assms(2) by (simp add: local_ok_def local_members_def)
    moreover have "length (concat (map dm_members (filter P ds))) \<le> length (concat (map dm_members ds))" for P ds
      by (induction ds) simp_all
    then have "length (all_members ?g) \<le> length (all_members g)" by (simp add: all_members_def)
    ultimately show ?thesis
      using same_people(1,4) [of ?h g' ?g] same_people(2) [of ?h g' ?g t] g' by simp
  qed
  then show "group_wf (Config_procs t) g'" "local_ok t g'" "grp_name g' = grp_name g" "grp_mboxes g' = grp_mboxes g"
    "length (all_members g') \<le> length (all_members g)" by simp_all
qed

lemma eliminate_partitioned_eq:
  assumes inv: "groups_inv t" and g: "g \<in> set (GroupsList t)" and st: "Gstate t \<noteq> GGT"
  defines "ds \<equiv> filter Is_established_daemon (grp_daemons g)"
  shows "G_eliminate_partitioned_daemons g t = Inr (g\<lparr>grp_daemons := ds, grp_num_members := member_count ds\<rparr>)"
proof -
  have wf: "wf_procs (Config_procs t)" using inv by (simp add: groups_inv_def sess_ok_def)
  have w: "daemons_wf (Config_procs t) (grp_daemons g)" "grp_num_members g = member_count (grp_daemons g)"
    using inv g by (auto simp: groups_inv_def groups_wf_def group_wf_def)
  have "distinct (grp_daemons g)" using daemons_wf_distinct [OF wf w(1)] by (simp add: distinct_map)
  moreover have "filter (\<lambda>e. \<not> (e \<in> set (grp_daemons g) \<and> to_drop e t)) (grp_daemons g) = ds"
    using st unfolding ds_def
    by (intro filter_cong) (auto simp: to_drop_def Is_partitioned_daemon_def Is_established_daemon_def)
  ultimately show ?thesis
    using eliminate_returns [OF wf w subset_refl, where changed = False]
    by (auto simp: G_eliminate_partitioned_daemons_def G_eliminate_partitioned_daemons_status_def elim!: returnsE)
qed

lemma settle_group_turns:
  assumes inv: "groups_inv t" and g: "G_get_group (grp_name g) t = Some g" and st: "Gstate t \<noteq> GGT"
    and mine: "\<And>d. d \<in> set (grp_daemons g) \<Longrightarrow> dm_proc_id d = my_id t \<Longrightarrow> Is_established_daemon d"
    and size: "length (all_members g) \<le> 2000"
  shows "returns (drop_partitioned settle_group g t) (turns t (grp_name g) (settle_result t g))"
proof (cases "grp_changed g")
  case False
  then show ?thesis using inv g by (auto simp: drop_partitioned_def settle_result_def turns_def)
next
  case True
  let ?ds = "filter Is_established_daemon (grp_daemons g)"
  let ?g = "g\<lparr>grp_daemons := ?ds, grp_num_members := member_count ?ds\<rparr>"
  have gl: "g \<in> set (GroupsList t)" using g get_group_in [OF inv] by simp
  then have gw: "group_wf (Config_procs t) g" "local_ok t g" "sess_ok t"
    using inv by (auto simp: groups_inv_def groups_wf_def)
  have dsw: "daemons_wf (Config_procs t) ?ds"
    using gw(1) by (auto simp: group_wf_def daemons_wf_def skl_ok_def sorted_wrt_map sorted_wrt_filter)
  note E = eliminate_partitioned_eq [OF inv gl st]
  show ?thesis
  proof (cases "?ds = []")
    case none: True
    then have "filter (\<lambda>d. dm_proc_id d = my_id t) (grp_daemons g) = []"
      using mine by (auto simp: filter_empty_conv)
    then have "grp_mboxes g = []" using gw(2) by (simp add: local_ok_def local_members_def)
    moreover have "skl_ok grp_name (GroupsList t)" using inv by (simp add: groups_inv_def groups_wf_def)
    ultimately show ?thesis
      using True E none g del_group_inv(1) [OF inv g]
      by (simp add: drop_partitioned_def settle_result_def member_count_def G_remove_group_def turns_def
          G_get_group_def skl_get_del)
  next
    case some: False
    obtain r where r: "settle_result t g = Some r" using True some by (auto simp: settle_result_def Let_def)
    have R: "group_wf (Config_procs t) r" "local_ok t r" "grp_name r = grp_name g" "grp_mboxes r = grp_mboxes g"
      "length (all_members r) \<le> length (all_members g)"
      by (rule settle_result_shape [OF gw(1,2) r]; rule mine; assumption)+
    have "G_update_daemon_memb_ids h = h\<lparr>grp_daemons := map (\<lambda>d. d\<lparr>dm_memb_id := gid_memb_id (grp_id h)\<rparr>) (grp_daemons h)\<rparr>"
      if "grp_daemons h = ?ds" for h
      unfolding G_update_daemon_memb_ids_def that
      by (intro arg_cong [where f = "\<lambda>ds. grp_daemons_update (\<lambda>_. ds) h"] map_cong) auto
    then have "settle_group ?g t = (if grp_mboxes r \<noteq> [] then G_send_heavyweight_memb r (put_group r t) else Inr (put_group r t))"
      using True some r by (auto simp: settle_group_def Let_def settle_result_def)
    moreover have "grp_num_members ?g \<noteq> 0" using no_members [OF dsw] some by simp
    ultimately have e: "drop_partitioned settle_group g t
        = (if grp_mboxes r \<noteq> [] then G_send_heavyweight_memb r (put_group r t) else Inr (put_group r t))"
      using True E by (simp add: drop_partitioned_def)
    have "G_get_group (grp_name r) t = Some g" unfolding R(3) by (rule g)
    from turns_put [OF inv this R(1,2)]
    have T: "turns t (grp_name g) (Some r) (put_group r t)" unfolding R(3) .
    have "small_group r" using R(5) size by (simp add: small_group_def)
    then have "returns (drop_partitioned settle_group g t) (only_io (put_group r t))"
      unfolding e using heavyweight_memb_returns [of "put_group r t" r] gw(3) R(1,2) by simp
    then show ?thesis unfolding r by (rule returns_mono) (rule turns_io [OF T])
  qed
qed

lemma in_group_roster: "(i, m) \<in> group_roster g \<longleftrightarrow> (\<exists>d \<in> set (grp_daemons g). dm_proc_id d = i \<and> m \<in> set (dm_members d))"
  unfolding group_roster_def in_roster_of ..

lemma settle_result_roster:
  assumes m: "marks_group s g" and st: "Gstate s \<noteq> GOP"
  shows "{x. \<exists>g'. settle_result t g = Some g' \<and> x \<in> group_roster g'} = {(i, m) \<in> group_roster g. in_trans i s}"
proof -
  have est: "Is_established_daemon d \<longleftrightarrow> in_trans (dm_proc_id d) s" if "d \<in> set (grp_daemons g)" for d
    using that m st by (auto simp: marks_group_def with_us_def Is_established_daemon_def Is_partitioned_daemon_def)
  show ?thesis
  proof (cases "grp_changed g")
    case False
    then have "\<forall>d \<in> set (grp_daemons g). in_trans (dm_proc_id d) s"
      using m est by (auto simp: marks_group_def list_ex_iff Is_established_daemon_def Is_partitioned_daemon_def)
    then show ?thesis using False by (auto simp: settle_result_def group_roster_def)
  next
    case True
    let ?ds = "filter Is_established_daemon (grp_daemons g)"
    let ?h = "\<lambda>d. d\<lparr>dm_memb_id := G_Reg_memb_id t\<rparr>"
    have "(\<exists>g'. settle_result t g = Some g' \<and> (i, m) \<in> group_roster g')
        \<longleftrightarrow> (\<exists>e \<in> set ?ds. dm_proc_id e = i \<and> m \<in> set (dm_members e))" for i m
      using True unfolding settle_result_def Let_def
      by (cases "?ds = []") (simp_all add: in_group_roster del: set_filter)
    moreover have "(\<exists>e \<in> set ?ds. dm_proc_id e = i \<and> m \<in> set (dm_members e))
        \<longleftrightarrow> in_trans i s \<and> (\<exists>e \<in> set (grp_daemons g). dm_proc_id e = i \<and> m \<in> set (dm_members e))" for i m
      using est by auto
    ultimately have "(i, m) \<in> {x. \<exists>g'. settle_result t g = Some g' \<and> x \<in> group_roster g'}
        \<longleftrightarrow> (i, m) \<in> {(i, m) \<in> group_roster g. in_trans i s}" for i m
      unfolding mem_Collect_eq case_prod_conv in_group_roster by auto
    then show ?thesis by (intro set_eqI) (simp only: split_paired_all)
  qed
qed

lemma settle_result_marks:
  assumes "marks_group s g" and "Gstate s \<noteq> GOP" and "settle_result t g = Some g'"
    and "\<not> Is_unknown_memb_id (G_Reg_memb_id t)" and "Gstate u = GOP"
  shows "marks_group u g'"
proof (cases "grp_changed g")
  case False
  then show ?thesis
    using assms by (auto simp: settle_result_def marks_group_def with_us_def list_ex_iff)
next
  case True
  then show ?thesis
    using assms(3-5)
    by (auto simp: settle_result_def Let_def marks_group_def with_us_def list_ex_iff Is_partitioned_daemon_def split: if_splits)
qed

lemma reg_memb_changes:
  assumes inv: "groups_inv s" and st: "Gstate s = GTRANS" and mk: "marks s" and ri: "\<not> Is_unknown_memb_id ri"
    and sub: "Conf_num_procs (G_Trans_memb s) = Conf_num_procs rm" and here: "in_trans (my_id s) s" and size: "room n s"
  shows "returns (G_handle_reg_memb rm ri s) (\<lambda>s'. groups_inv s' \<and> marks s' \<and> room n s' \<and> Gstate s' = GOP
     \<and> G_Reg_memb s' = rm \<and> G_Reg_memb_id s' = ri \<and> Config_procs s' = Config_procs s \<and> my_id s' = my_id s
     \<and> MySyncedSet s' = MySyncedSet s \<and> roster s' = {(name, i, m) \<in> roster s. in_trans i s})"
proof -
  let ?s = "s\<lparr>G_Reg_memb := rm, G_Reg_memb_id := ri\<rparr>"
  have inv1: "groups_inv ?s" using inv by (simp add: groups_inv_reset)
  have mg: "marks_group s g" "length (all_members g) \<le> 2000" if "g \<in> set (GroupsList s)" for g
    using that mk size by (auto simp: marks_def room_def)
  have est: "Is_established_daemon d" if "g \<in> set (GroupsList s)" "d \<in> set (grp_daemons g)" "dm_proc_id d = my_id s" for g d
    using that mg(1) here by (auto simp: marks_group_def with_us_def Is_established_daemon_def Is_partitioned_daemon_def)
  have "returns (for_each (drop_partitioned settle_group) (GroupsList ?s) ?s) (\<lambda>s'. groups_inv s' \<and> surroundings s' = surroundings ?s
     \<and> (\<forall>n. G_get_group n s' = Option.bind (G_get_group n ?s) (settle_result ?s)))"
  proof (rule each_group [OF inv1])
    fix g t
    assume t: "g \<in> set (GroupsList ?s)" "groups_inv t" "surroundings t = surroundings ?s" "G_get_group (grp_name g) t = Some g"
    have g: "g \<in> set (GroupsList s)" "my_id t = my_id s" "Gstate t \<noteq> GGT"
      using t(1,3) st by (simp_all add: surroundings_def my_id_def)
    have "returns (drop_partitioned settle_group g t) (turns t (grp_name g) (settle_result t g))"
      using est [OF g(1)] mg(2) [OF g(1)] g(2,3) by (intro settle_group_turns [OF t(2,4)]) simp_all
    then show "returns (drop_partitioned settle_group g t) (turns t (grp_name g) (settle_result ?s g))"
      unfolding settle_result_cong [OF t(3)] .
  qed
  then obtain u where u: "for_each (drop_partitioned settle_group) (GroupsList ?s) ?s = Inr u" "groups_inv u"
    "surroundings u = surroundings ?s" "\<And>n. G_get_group n u = Option.bind (G_get_group n s) (settle_result ?s)"
    by (elim returnsE) (simp add: G_get_group_def)
  let ?u = "u\<lparr>Gstate := GOP\<rparr>"
  have f: "G_Reg_memb u = rm" "G_Reg_memb_id u = ri" "Config_procs u = Config_procs s" "my_id u = my_id s"
    "MySyncedSet u = MySyncedSet s" using u(3) by (simp_all add: surroundings_def my_id_def)
  have inv2: "groups_inv ?u" using u(2) by (simp add: groups_inv_reset)
  have get: "G_get_group n ?u = Option.bind (G_get_group n s) (settle_result ?s)" for n
    using u(4) [of n] by (simp add: G_get_group_def)
  have from_old: "\<exists>g. G_get_group n s = Some g \<and> settle_result ?s g = Some g'" if "G_get_group n ?u = Some g'" for n g'
    using that unfolding get by (cases "G_get_group n s") simp_all
  have "(n, i, m) \<in> roster ?u \<longleftrightarrow> (n, i, m) \<in> roster s \<and> in_trans i s" for n i m
  proof (cases "G_get_group n s")
    case None
    then show ?thesis unfolding roster_get [OF inv2] roster_get [OF inv] get by simp
  next
    case (Some g)
    then have "marks_group s g" using mg(1) get_group_in [OF inv] by simp
    from settle_result_roster [OF this, of ?s] st Some
    show ?thesis unfolding roster_get [OF inv2] roster_get [OF inv] get by (auto simp: set_eq_iff)
  qed
  then have "roster ?u = {(name, i, m) \<in> roster s. in_trans i s}" by auto
  moreover have "marks ?u"
    unfolding marks_def
  proof (intro conjI ballI)
    fix g' assume "g' \<in> set (GroupsList ?u)"
    then have "G_get_group (grp_name g') ?u = Some g'" using get_group_in [OF inv2] by simp
    then obtain g where g: "G_get_group (grp_name g') s = Some g" "settle_result ?s g = Some g'"
      using from_old by blast
    then show "marks_group ?u g'"
      using mg(1) get_group_in [OF inv] ri st by (intro settle_result_marks [OF _ _ g(2)]) auto
  qed (use ri f in simp)
  moreover have "room n ?u"
  proof (rule room_result [OF inv inv2 size])
    fix name g' assume "G_get_group name ?u = Some g'"
    then obtain g where g: "G_get_group name s = Some g" "settle_result ?s g = Some g'" using from_old by blast
    then have gl: "g \<in> set (GroupsList s)" using get_group_in [OF inv] by simp
    then have "length (all_members g') \<le> length (all_members g)"
      using inv est by (intro settle_result_shape(5) [OF _ _ g(2)]) (auto simp: groups_inv_def groups_wf_def)
    then show "\<exists>g. G_get_group name s = Some g \<and> length (all_members g') \<le> length (all_members g)" using g(1) by blast
  qed
  ultimately show ?thesis
    using u(1) inv2 f st sub by (simp add: G_handle_reg_memb_def reg_memb_in_gtrans_def my_id_def)
qed

end
