(* ===== verification/Group_Merge.thy ===== *)
theory Group_Merge
  imports Group_Messages Group_Memberships
begin

section \<open>Merging the groups of all synced sets\<close>

text \<open>
  When all groups messages are there, the groups they describe are taken over: afterwards the roster
  holds the members it had and those the messages named, the groups that changed are announced,
  and the synced sets are merged. While messages are taken over a group may have no daemon yet.
\<close>

subsection \<open>One daemon\<close>

lemma skl_put_last: "\<forall>y \<in> set ys. key y < key x \<Longrightarrow> skl_put key x ys = ys @ [x]"
  by (induction ys) auto

lemma put_members: "skl_ok id (ms @ ns) \<Longrightarrow> foldl (\<lambda>ms n. put_member_at_end n ms) ms ns = ms @ ns"
proof (induction ns arbitrary: ms)
  case (Cons n ns)
  have less: "\<forall>m \<in> set ms. m < n" using Cons.prems by (auto simp: skl_ok_def sorted_wrt_append)
  then have "put_member_at_end n ms = ms @ [n]"
    using skl_put_last [of ms id n] last_in_set [of ms] by (auto simp: put_member_at_end_def)
  then show ?case using Cons.IH [of "ms @ [n]"] Cons.prems by simp
qed simp

text \<open>Groups all of whose daemons are marked as reachable.\<close>

definition all_known :: "group \<Rightarrow> bool" where
  "all_known g \<longleftrightarrow> (\<forall>d \<in> set (grp_daemons g). Is_established_daemon d) \<and> \<not> Is_unknown_memb_id (gid_memb_id (grp_id g))"

lemma absorb_daemon_returns:
  assumes ok: "sess_ok s" and g: "group_shape s g" and d: "daemon_wf (Config_procs s) d" "dm_proc_id d \<noteq> my_id s"
    and new: "dm_proc_id d \<notin> dm_proc_id ` set (grp_daemons g)"
  shows "returns (absorb_daemon d g s) (\<lambda>g'. group_shape s g' \<and> grp_name g' = grp_name g \<and> grp_daemons g' \<noteq> []
     \<and> group_roster g' = group_roster g \<union> Pair (dm_proc_id d) ` set (dm_members d)
     \<and> dm_proc_id ` set (grp_daemons g') = insert (dm_proc_id d) (dm_proc_id ` set (grp_daemons g))
     \<and> length (all_members g') = length (all_members g) + length (dm_members d)
     \<and> (all_known g \<and> Is_established_daemon d \<longrightarrow> all_known g'))"
proof -
  let ?procs = "Config_procs s" and ?ds = "grp_daemons g"
  have wf: "wf_procs ?procs" using ok by (simp add: sess_ok_def)
  have w: "daemons_wf ?procs ?ds" using g by (simp add: group_shape_def)
  have sk: "skl_ok (dkey ?procs) ?ds" using w by (simp add: daemons_wf_def)
  have c: "configured ?procs (dm_proc_id d)" "skl_ok id (dm_members d)" using d(1) by (simp_all add: daemon_wf_def)
  have m: "d\<lparr>dm_members := foldl (\<lambda>ms n. put_member_at_end n ms) [] (dm_members d)\<rparr> = d"
    using put_members [of "[]"] c(2) by (cases d) simp
  have none: "skl_get (dkey ?procs) (dkey ?procs d) ?ds = None"
    using find_daemon [OF wf w c(1)] new unfolding image_iff by (auto simp: find_None_iff)
  let ?ds' = "skl_put (dkey ?procs) d ?ds"
  have ms: "mset ?ds' = add_mset d (mset ?ds)" by (rule mset_skl_put [OF sk none])
  then have sd: "set ?ds' = insert d (set ?ds)" by (metis set_mset_add_mset_insert set_mset_mset)
  have sum: "sum_over F ?ds' = F d + sum_over F ?ds" for F :: "daemon_members \<Rightarrow> string multiset"
    by (simp add: sum_over_def ms)
  obtain g' where a: "absorb_daemon d g s = Inr g'" and g': "grp_daemons g' = ?ds'" "grp_name g' = grp_name g"
    "grp_mboxes g' = grp_mboxes g" "grp_id g' = grp_id g" "grp_num_members g' = grp_num_members g + int (length (dm_members d))"
    using compared_ok [OF wf c(1) w] by (simp add: absorb_daemon_def m put_daemon_def Let_def)
  have count: "member_count ?ds' = member_count ?ds + int (length (dm_members d))"
    by (simp add: member_count_sum sum)
  have "local_ok s g'" using g d(2) by (simp add: local_ok_sum g' sum group_shape_def mine_def)
  then have "group_shape s g'"
    using g daemons_wf_put [OF w d(1)] count by (simp add: group_shape_def g')
  moreover have "group_roster g' = group_roster g \<union> Pair (dm_proc_id d) ` set (dm_members d)"
    by (rule set_eqI) (simp only: split_paired_all, auto simp: in_group_roster g' sd)
  moreover have "length (all_members g') = length (all_members g) + length (dm_members d)"
    using count all_members_count [of g'] all_members_count [of g] by (simp add: g')
  moreover have "grp_daemons g' \<noteq> []" using sd by (auto simp: g')
  ultimately show ?thesis using a sd by (simp add: g' all_known_def)
qed

lemma absorb_daemons_return:
  assumes "sess_ok s" and "group_shape s g"
    and "\<forall>d \<in> set ds. daemon_wf (Config_procs s) d \<and> dm_proc_id d \<noteq> my_id s"
    and "distinct (map dm_proc_id ds)" and "dm_proc_id ` set ds \<inter> dm_proc_id ` set (grp_daemons g) = {}"
  shows "returns (for_each (\<lambda>d g. absorb_daemon d g s) ds g) (\<lambda>g'. group_shape s g' \<and> grp_name g' = grp_name g
     \<and> (grp_daemons g' = [] \<longleftrightarrow> grp_daemons g = [] \<and> ds = [])
     \<and> group_roster g' = group_roster g \<union> {(dm_proc_id d, m) | d m. d \<in> set ds \<and> m \<in> set (dm_members d)}
     \<and> length (all_members g') = length (all_members g) + length (concat (map dm_members ds))
     \<and> (all_known g \<and> list_all Is_established_daemon ds \<longrightarrow> all_known g'))"
  using assms
proof (induction ds arbitrary: g)
  case (Cons d ds)
  obtain g1 where g1: "absorb_daemon d g s = Inr g1" "group_shape s g1" "grp_name g1 = grp_name g" "grp_daemons g1 \<noteq> []"
    "group_roster g1 = group_roster g \<union> Pair (dm_proc_id d) ` set (dm_members d)"
    "dm_proc_id ` set (grp_daemons g1) = insert (dm_proc_id d) (dm_proc_id ` set (grp_daemons g))"
    "length (all_members g1) = length (all_members g) + length (dm_members d)"
    "all_known g \<and> Is_established_daemon d \<longrightarrow> all_known g1"
    using absorb_daemon_returns [OF Cons.prems(1,2), of d] Cons.prems(3,5) by (auto elim!: returnsE)
  have "dm_proc_id ` set ds \<inter> dm_proc_id ` set (grp_daemons g1) = {}"
    unfolding g1(6) using Cons.prems(4,5) by auto
  then have "returns (for_each (\<lambda>d g. absorb_daemon d g s) ds g1) (\<lambda>g'. group_shape s g' \<and> grp_name g' = grp_name g1
     \<and> (grp_daemons g' = [] \<longleftrightarrow> grp_daemons g1 = [] \<and> ds = [])
     \<and> group_roster g' = group_roster g1 \<union> {(dm_proc_id d, m) | d m. d \<in> set ds \<and> m \<in> set (dm_members d)}
     \<and> length (all_members g') = length (all_members g1) + length (concat (map dm_members ds))
     \<and> (all_known g1 \<and> list_all Is_established_daemon ds \<longrightarrow> all_known g'))"
    using Cons.prems g1(2) by (intro Cons.IH) simp_all
  moreover have "{(dm_proc_id e, m) | e m. e \<in> set (d # ds) \<and> m \<in> set (dm_members e)}
      = Pair (dm_proc_id d) ` set (dm_members d) \<union> {(dm_proc_id d, m) | d m. d \<in> set ds \<and> m \<in> set (dm_members d)}"
    by auto
  ultimately show ?case using g1 by (auto elim!: returns_mono)
qed simp

subsection \<open>One message\<close>

text \<open>The invariant while messages are taken over, and what it has in common with \<open>groups_inv\<close>.\<close>

definition merging :: "'a groups_st_scheme \<Rightarrow> bool" where
  "merging s \<longleftrightarrow> sess_ok s \<and> skl_ok grp_name (GroupsList s) \<and> (\<forall>g \<in> set (GroupsList s). group_shape s g \<and> all_known g)
     \<and> Num_groups s = int (length (GroupsList s))"

lemma merging_inv: "groups_inv s \<Longrightarrow> (\<forall>g \<in> set (GroupsList s). all_known g) \<Longrightarrow> merging s"
  using group_shape_wf [of s] by (auto simp: groups_inv_def groups_wf_def merging_def)

lemma inv_merging: "merging s \<Longrightarrow> (\<forall>g \<in> set (GroupsList s). grp_daemons g \<noteq> []) \<Longrightarrow> groups_inv s"
  using group_shape_wf [of s] by (auto simp: groups_inv_def groups_wf_def merging_def)

definition entry_roster :: "entry list \<Rightarrow> (string \<times> proc_id \<times> string) set" where
  "entry_roster es = {(en_name e, dm_proc_id (en_daemon e), m) | e m. e \<in> set es \<and> m \<in> set (dm_members (en_daemon e))}"

lemma in_entry_roster: "(n, i, m) \<in> entry_roster es \<longleftrightarrow>
    (\<exists>e \<in> set es. en_name e = n \<and> dm_proc_id (en_daemon e) = i \<and> m \<in> set (dm_members (en_daemon e)))"
  by (auto simp: entry_roster_def)

lemma entry_roster_info: "entry_roster (info_entries gi)
    = Pair (gi_name gi) ` {(dm_proc_id d, m) | d m. d \<in> set (gi_daemons gi) \<and> m \<in> set (dm_members d)}"
  by (rule set_eqI) (simp only: split_paired_all in_entry_roster, auto simp: info_entries_def)

definition en_key :: "entry \<Rightarrow> string \<times> proc_id" where
  "en_key e = (en_name e, dm_proc_id (en_daemon e))"

text \<open>How many members a group has, and how many entries name.\<close>

definition load :: "string \<Rightarrow> 'a groups_st_scheme \<Rightarrow> nat" where
  "load n s = (case G_get_group n s of None \<Rightarrow> 0 | Some g \<Rightarrow> length (all_members g))"

definition entry_load :: "string \<Rightarrow> entry list \<Rightarrow> nat" where
  "entry_load n es = sum_list (map (\<lambda>e. if en_name e = n then length (dm_members (en_daemon e)) else 0) es)"

text \<open>Entries of daemons the state does not have yet: configured, remote, each but once.\<close>

definition news :: "entry list \<Rightarrow> 'a groups_st_scheme \<Rightarrow> bool" where
  "news es s \<longleftrightarrow> (\<forall>e \<in> set es. daemon_wf (Config_procs s) (en_daemon e) \<and> dm_proc_id (en_daemon e) \<noteq> my_id s
       \<and> Is_established_daemon (en_daemon e) \<and> (\<forall>m. (en_name e, dm_proc_id (en_daemon e), m) \<notin> roster s))
     \<and> distinct (map en_key es)"

lemma merging_get: "merging s \<Longrightarrow> G_get_group n s = Some g \<longleftrightarrow> g \<in> set (GroupsList s) \<and> grp_name g = n"
  by (simp add: merging_def G_get_group_def skl.find_elems)

lemma merging_roster: "merging s \<Longrightarrow> G_get_group n s = Some g \<Longrightarrow> (n, x) \<in> roster s \<longleftrightarrow> x \<in> group_roster g"
proof -
  assume inv: "merging s" and get: "G_get_group n s = Some g"
  have ok: "skl_ok grp_name (GroupsList s)" using inv by (simp add: merging_def)
  have g: "g \<in> set (GroupsList s)" "grp_name g = n" using get merging_get [OF inv] by auto
  have "(n, x) \<in> roster s \<longleftrightarrow> (\<exists>h \<in> set (GroupsList s). grp_name h = n \<and> x \<in> group_roster h)"
    unfolding roster_def by (cases x) auto
  then show ?thesis using g skl.key_unique [OF ok] by metis
qed

lemma merging_no_group: "merging s \<Longrightarrow> G_get_group n s = None \<Longrightarrow> (n, x) \<notin> roster s"
  unfolding roster_def G_get_group_def by (auto simp: merging_def skl.find_none)

lemma merging_put:
  assumes "merging s" and "group_shape s g" and "all_known g"
    and "n = (if G_get_group (grp_name g) s = None then Num_groups s + 1 else Num_groups s)"
  defines "t \<equiv> (put_group g s)\<lparr>Num_groups := n\<rparr>"
  shows "merging t" and "surroundings t = surroundings s"
    and "G_get_group k t = (if k = grp_name g then Some g else G_get_group k s)"
    and "roster t = {x \<in> roster s. fst x \<noteq> grp_name g} \<union> Pair (grp_name g) ` group_roster g"
proof -
  have ok: "skl_ok grp_name (GroupsList s)" using assms(1) by (simp add: merging_def)
  note e = skl.elems_put [OF ok, of g]
  have sh: "group_shape t h = group_shape s h" for h by (simp add: t_def group_shape_def)
  show "merging t"
    using assms(1-4) ok length_skl_put [OF ok, of g] unfolding merging_def sh
    by (auto simp: t_def e skl_ok_put G_get_group_def)
  show "surroundings t = surroundings s" by (simp add: t_def)
  show "G_get_group k t = (if k = grp_name g then Some g else G_get_group k s)"
    by (simp add: t_def G_get_group_def skl_get_put [OF ok])
  show "roster t = {x \<in> roster s. fst x \<noteq> grp_name g} \<union> Pair (grp_name g) ` group_roster g"
    by (auto simp: roster_def e t_def)
qed

text \<open>The group an entry goes to, new if it is not there.\<close>

lemma info_entries_news:
  assumes "news (info_entries gi) s"
  shows "\<forall>d \<in> set (gi_daemons gi). daemon_wf (Config_procs s) d \<and> dm_proc_id d \<noteq> my_id s"
    and "list_all Is_established_daemon (gi_daemons gi)"
    and "distinct (map dm_proc_id (gi_daemons gi))"
    and "d \<in> set (gi_daemons gi) \<Longrightarrow> (gi_name gi, dm_proc_id d, m) \<notin> roster s"
  using assms by (auto simp: news_def info_entries_def list_all_iff distinct_map comp_def inj_on_def en_key_def)

lemma absorb_group_returns:
  assumes inv: "merging s" and new: "news (info_entries gi) s" and gid: "\<not> Is_unknown_memb_id (gid_memb_id (gi_id gi))"
  shows "returns (absorb_group gi s) (\<lambda>s'. merging s' \<and> surroundings s' = surroundings s
     \<and> (\<forall>n. n \<noteq> gi_name gi \<longrightarrow> G_get_group n s' = G_get_group n s)
     \<and> (\<exists>g'. G_get_group (gi_name gi) s' = Some g' \<and> (grp_daemons g' = [] \<longrightarrow> gi_daemons gi = []))
     \<and> (\<forall>g g'. G_get_group (gi_name gi) s = Some g \<longrightarrow> G_get_group (gi_name gi) s' = Some g' \<longrightarrow>
          grp_daemons g' = [] \<longrightarrow> grp_daemons g = [])
     \<and> load (gi_name gi) s' = load (gi_name gi) s + length (concat (map dm_members (gi_daemons gi)))
     \<and> roster s' = roster s \<union> entry_roster (info_entries gi))"
proof -
  let ?n = "gi_name gi" and ?s = "s\<lparr>Num_groups := (if G_get_group (gi_name gi) s = None then Num_groups s + 1 else Num_groups s)\<rparr>"
  define grp where "grp = (case G_get_group ?n s of Some g \<Rightarrow> g | None \<Rightarrow> new_group ?n (gi_id gi))"
  define grp1 where "grp1 = (if gi_changed gi then grp\<lparr>grp_changed := True\<rparr> else grp)"
  have ok: "sess_ok s" using inv by (simp add: merging_def)
  have shape: "group_shape ?s h = group_shape s h" for h by (simp add: group_shape_def)
  have same: "grp_daemons grp1 = grp_daemons grp" "grp_num_members grp1 = grp_num_members grp" "grp_mboxes grp1 = grp_mboxes grp"
    "grp_id grp1 = grp_id grp" "grp_name grp1 = grp_name grp"
    by (simp_all add: grp1_def)
  have g0: "group_shape s grp \<and> all_known grp \<and> grp_name grp = ?n \<and> (\<forall>x. x \<in> group_roster grp \<longleftrightarrow> (?n, x) \<in> roster s)
      \<and> length (all_members grp) = load ?n s"
  proof (cases "G_get_group ?n s")
    case None
    then show ?thesis using merging_no_group [OF inv None] gid
      by (simp add: grp_def new_group_def group_shape_def daemons_wf_def member_count_def local_ok_def local_members_def
          all_known_def group_roster_def load_def all_members_def)
  next
    case (Some g)
    then have "g \<in> set (GroupsList s)" "grp_name g = ?n" using merging_get [OF inv] by auto
    moreover have "grp = g" "load ?n s = length (all_members g)" by (simp_all add: grp_def load_def Some)
    ultimately show ?thesis using inv merging_roster [OF inv Some] by (simp add: merging_def)
  qed
  have g1: "group_shape ?s grp1" "all_known grp1" "group_roster grp1 = group_roster grp" "all_members grp1 = all_members grp"
    using g0 by (simp_all add: shape group_shape_def all_known_def same group_roster_def local_ok_def local_members_def all_members_def)
  note N = info_entries_news [OF new]
  have dis: "dm_proc_id ` set (gi_daemons gi) \<inter> dm_proc_id ` set (grp_daemons grp1) = {}"
  proof -
    have False if "d \<in> set (gi_daemons gi)" "e \<in> set (grp_daemons grp)" "dm_proc_id e = dm_proc_id d" for d e
    proof -
      have "dm_members e \<noteq> []" using g0 that(2) by (auto simp: group_shape_def daemons_wf_def daemon_wf_def)
      then obtain m where "m \<in> set (dm_members e)" by (cases "dm_members e") auto
      then have "(dm_proc_id d, m) \<in> group_roster grp" using that(2,3) by (auto simp: in_group_roster)
      then show False using g0 N(4) [OF that(1)] by blast
    qed
    then have "i \<notin> dm_proc_id ` set (grp_daemons grp)" if "i \<in> dm_proc_id ` set (gi_daemons gi)" for i
      using that by (metis imageE)
    then show ?thesis unfolding same by blast
  qed
  have "sess_ok ?s" using ok by simp
  from absorb_daemons_return [OF this g1(1) _ N(3) dis]
  have "returns (for_each (\<lambda>d g. absorb_daemon d g ?s) (gi_daemons gi) grp1) (\<lambda>g'. group_shape ?s g' \<and> grp_name g' = grp_name grp1
     \<and> (grp_daemons g' = [] \<longleftrightarrow> grp_daemons grp1 = [] \<and> gi_daemons gi = [])
     \<and> group_roster g' = group_roster grp1 \<union> {(dm_proc_id d, m) | d m. d \<in> set (gi_daemons gi) \<and> m \<in> set (dm_members d)}
     \<and> length (all_members g') = length (all_members grp1) + length (concat (map dm_members (gi_daemons gi)))
     \<and> (all_known grp1 \<and> list_all Is_established_daemon (gi_daemons gi) \<longrightarrow> all_known g'))"
    using N(1) by (simp add: my_id_def)
  then obtain g' where a: "for_each (\<lambda>d g. absorb_daemon d g ?s) (gi_daemons gi) grp1 = Inr g'"
     and g': "group_shape s g'" "grp_name g' = ?n" "grp_daemons g' = [] \<longleftrightarrow> grp_daemons grp = [] \<and> gi_daemons gi = []"
     "group_roster g' = group_roster grp \<union> {(dm_proc_id d, m) | d m. d \<in> set (gi_daemons gi) \<and> m \<in> set (dm_members d)}"
     "length (all_members g') = load ?n s + length (concat (map dm_members (gi_daemons gi)))" "all_known g'"
    using g0 g1(2-4) N(2) by (auto simp: shape same elim!: returnsE)
  have eq: "absorb_group gi s = Inr (put_group g' ?s)"
  proof -
    have "absorb_group gi s = bindE (for_each (\<lambda>d g. absorb_daemon d g ?s) (gi_daemons gi) grp1) (\<lambda>g. Inr (put_group g ?s))"
      unfolding grp1_def grp_def by (cases "G_get_group ?n s") (simp_all add: absorb_group_def Let_def)
    then show ?thesis unfolding a by simp
  qed
  have p: "put_group g' ?s = (put_group g' s)\<lparr>Num_groups := (if G_get_group (grp_name g') s = None then Num_groups s + 1 else Num_groups s)\<rparr>"
    by (simp add: put_group_def g'(2))
  note M = merging_put [OF inv g'(1,6) refl, folded p]
  have "roster (put_group g' ?s) = roster s \<union> entry_roster (info_entries gi)"
  proof -
    have "{x \<in> roster s. fst x \<noteq> ?n} \<union> Pair ?n ` group_roster grp = roster s" using g0 by (auto simp: image_iff)
    then show ?thesis unfolding M(4) g'(2,4) image_Un entry_roster_info by auto
  qed
  then show ?thesis
    unfolding eq using M(1-3) g'(2,3,5) by (auto simp: load_def grp_def)
qed

subsection \<open>All the messages\<close>

lemma entry_roster_append [simp]: "entry_roster (es @ es') = entry_roster es \<union> entry_roster es'"
  unfolding entry_roster_def set_append by blast

lemma entry_load_append [simp]: "entry_load n (es @ es') = entry_load n es + entry_load n es'"
  by (simp add: entry_load_def)

lemma entry_load_info: "entry_load n (info_entries gi) = (if n = gi_name gi then length (concat (map dm_members (gi_daemons gi))) else 0)"
proof -
  have "sum_list (map (\<lambda>d. length (dm_members d)) ds) = length (concat (map dm_members ds))" for ds
    by (induction ds) simp_all
  from this [of "gi_daemons gi"] show ?thesis by (simp add: entry_load_def info_entries_def comp_def)
qed

lemma news_append: "news (es @ es') s \<longleftrightarrow> news es s \<and> news es' s \<and> en_key ` set es \<inter> en_key ` set es' = {}"
  unfolding news_def distinct_append map_append set_append set_map ball_Un by blast

lemma news_after:
  assumes "news (es @ es') s" and "Config_procs t = Config_procs s" "my_id t = my_id s" and "roster t = roster s \<union> entry_roster es"
  shows "news es' t"
proof -
  note s = assms(2,3)
  have n: "news es' s" and dis: "en_key ` set es \<inter> en_key ` set es' = {}"
    using assms(1) unfolding news_append by auto
  have no: "(en_name e, dm_proc_id (en_daemon e), m) \<notin> entry_roster es" if e: "e \<in> set es'" for e m
  proof
    assume "(en_name e, dm_proc_id (en_daemon e), m) \<in> entry_roster es"
    then obtain e' where "e' \<in> set es" "en_key e' = en_key e" by (auto simp: entry_roster_def en_key_def)
    then show False using dis e by (metis IntI empty_iff image_eqI)
  qed
  show ?thesis using n no unfolding news_def s assms(4) by blast
qed

definition infos_known :: "group_info list \<Rightarrow> bool" where
  "infos_known gis \<longleftrightarrow> (\<forall>gi \<in> set gis. \<not> Is_unknown_memb_id (gid_memb_id (gi_id gi)))"

text \<open>
  What taking over \<open>gis\<close> does: groups that had no daemon, and the new ones, have one as soon as
  \<open>gis\<close> names one.
\<close>

definition empties :: "'a groups_st_scheme \<Rightarrow> string set" where
  "empties s = {n. \<exists>g. G_get_group n s = Some g \<and> grp_daemons g = []}"

definition unknown :: "'a groups_st_scheme \<Rightarrow> string set" where
  "unknown s = {n. G_get_group n s = None}"

definition but_synced :: "'a groups_st_scheme \<Rightarrow> _" where
  "but_synced s = (Gstate s, Config_procs s, my_id s, G_Trans_memb s, G_Trans_memb_id s, G_Reg_memb s, G_Reg_memb_id s)"

abbreviation infos_entries :: "group_info list \<Rightarrow> entry list" where
  "infos_entries gis \<equiv> concat (map info_entries gis)"

definition absorbed :: "group_info list \<Rightarrow> 'a groups_st_scheme \<Rightarrow> 'a groups_st_scheme \<Rightarrow> bool" where
  "absorbed gis s s' \<longleftrightarrow> merging s' \<and> but_synced s' = but_synced s
     \<and> unknown s' = unknown s - gi_name ` set gis
     \<and> empties s' \<subseteq> (empties s \<union> (gi_name ` set gis \<inter> unknown s)) - en_name ` set (infos_entries gis)
     \<and> (\<forall>n. load n s' = load n s + entry_load n (infos_entries gis))
     \<and> roster s' = roster s \<union> entry_roster (infos_entries gis)"

lemma empties_step: "U \<subseteq> (T \<union> (N \<inter> K')) - B \<Longrightarrow> T \<subseteq> (S \<union> (G \<inter> K)) - A \<Longrightarrow> K' = K - G \<Longrightarrow> A \<subseteq> G \<Longrightarrow>
    U \<subseteq> (S \<union> ((G \<union> N) \<inter> K)) - (A \<union> B)"
  by blast

lemma infos_names: "en_name ` set (infos_entries gis) \<subseteq> gi_name ` set gis"
  by (auto simp: info_entries_def)

lemma absorbed_trans:
  assumes 1: "absorbed gis s t" and 2: "absorbed gis' t u"
  shows "absorbed (gis @ gis') s u"
proof -
  have e: "empties u \<subseteq> (empties t \<union> (gi_name ` set gis' \<inter> unknown t)) - en_name ` set (infos_entries gis')"
    "empties t \<subseteq> (empties s \<union> (gi_name ` set gis \<inter> unknown s)) - en_name ` set (infos_entries gis)"
    "unknown t = unknown s - gi_name ` set gis" "unknown u = unknown t - gi_name ` set gis'"
    using 1 2 unfolding absorbed_def by auto
  have "empties u \<subseteq> (empties s \<union> (gi_name ` set (gis @ gis') \<inter> unknown s)) - en_name ` set (infos_entries (gis @ gis'))"
    unfolding set_append image_Un map_append concat_append by (rule empties_step [OF e(1,2,3) infos_names])
  moreover have "unknown u = unknown s - gi_name ` set (gis @ gis')" using e(3,4) by auto
  moreover have "load n u = load n s + entry_load n (infos_entries (gis @ gis'))" for n
    using 1 2 by (simp add: absorbed_def)
  moreover have "roster u = roster s \<union> entry_roster (infos_entries (gis @ gis'))"
    using 1 2 by (simp add: absorbed_def Un_assoc)
  ultimately show ?thesis using 1 2 unfolding absorbed_def by metis
qed

lemma absorbed_refl: "merging s \<Longrightarrow> absorbed [] s s"
  by (simp add: absorbed_def entry_roster_def entry_load_def)

lemma absorb_group_absorbed:
  assumes "merging s" and "news (info_entries gi) s" and "\<not> Is_unknown_memb_id (gid_memb_id (gi_id gi))"
  shows "returns (absorb_group gi s) (absorbed [gi] s)"
proof -
  obtain t where t: "absorb_group gi s = Inr t" "merging t" "surroundings t = surroundings s"
     "\<And>n. n \<noteq> gi_name gi \<Longrightarrow> G_get_group n t = G_get_group n s"
     and g': "\<exists>g'. G_get_group (gi_name gi) t = Some g' \<and> (grp_daemons g' = [] \<longrightarrow> gi_daemons gi = [])"
     and g: "\<forall>g g'. G_get_group (gi_name gi) s = Some g \<longrightarrow> G_get_group (gi_name gi) t = Some g' \<longrightarrow>
          grp_daemons g' = [] \<longrightarrow> grp_daemons g = []"
     and l: "load (gi_name gi) t = load (gi_name gi) s + length (concat (map dm_members (gi_daemons gi)))"
     and r: "roster t = roster s \<union> entry_roster (info_entries gi)"
    using absorb_group_returns [OF assms] by (elim returnsE) blast
  have "load n t = load n s + entry_load n (info_entries gi)" for n
    using l t(4) [of n] by (cases "n = gi_name gi") (simp_all add: entry_load_info load_def)
  moreover have "empties t \<subseteq> (empties s \<union> ({gi_name gi} \<inter> unknown s)) - en_name ` set (info_entries gi)"
  proof
    fix n assume n: "n \<in> empties t"
    show "n \<in> (empties s \<union> ({gi_name gi} \<inter> unknown s)) - en_name ` set (info_entries gi)"
    proof (cases "n = gi_name gi")
      case True
      then have "gi_daemons gi = []" "n \<in> empties s \<or> n \<in> unknown s"
        using n g' g by (auto simp: empties_def unknown_def)
      then show ?thesis using True by (simp add: info_entries_def)
    next
      case False
      then show ?thesis using n t(4) by (auto simp: empties_def info_entries_def)
    qed
  qed
  moreover have "G_get_group n t = None \<longleftrightarrow> n \<noteq> gi_name gi \<and> G_get_group n s = None" for n
    using t(4) [of n] g' by (cases "n = gi_name gi") auto
  then have "unknown t = unknown s - {gi_name gi}" by (auto simp: unknown_def)
  moreover have "but_synced t = but_synced s" using t(3) by (simp add: surroundings_def but_synced_def)
  ultimately show ?thesis using t(1,2) r by (simp add: absorbed_def)
qed

lemma news_absorbed: "news (infos_entries (gis @ gis')) s \<Longrightarrow> absorbed gis s t \<Longrightarrow> news (infos_entries gis') t"
  by (rule news_after [of "infos_entries gis"]) (simp_all add: absorbed_def but_synced_def)

lemma absorb_groups_return:
  assumes "merging s" and "news (infos_entries gis) s" and "infos_known gis"
  shows "returns (for_each absorb_group gis s) (absorbed gis s)"
  using assms
proof (induction gis arbitrary: s)
  case (Cons gi gis)
  have "news (info_entries gi) s" using Cons.prems(2) news_append [of "info_entries gi" "infos_entries gis" s] by simp
  then obtain t where t: "absorb_group gi s = Inr t" "absorbed [gi] s t"
    using absorb_group_absorbed [OF Cons.prems(1)] Cons.prems(3) by (auto simp: infos_known_def elim!: returnsE)
  have "news (infos_entries gis) t" using Cons.prems(2) by (intro news_absorbed [OF _ t(2)]) simp
  then have "returns (for_each absorb_group gis t) (absorbed gis t)"
    using t(2) Cons.prems(3) by (intro Cons.IH) (simp_all add: absorbed_def infos_known_def)
  then show ?case using t(1) absorbed_trans [OF t(2), of gis] by (auto elim!: returns_mono)
qed (simp add: absorbed_refl)

subsection \<open>All synced sets\<close>

definition conf_sorted :: "proc list \<Rightarrow> proc_id list \<Rightarrow> bool" where
  "conf_sorted procs ps \<longleftrightarrow> sorted_wrt (\<lambda>i j. conf_index procs i < conf_index procs j) ps \<and> (\<forall>i \<in> set ps. configured procs i)"

lemma conf_sorted_Cons: "conf_sorted procs (a # r) \<longleftrightarrow>
    configured procs a \<and> conf_sorted procs r \<and> (\<forall>i \<in> set r. conf_index procs a < conf_index procs i)"
  by (auto simp: conf_sorted_def)

lemma merge_synced_cons:
  assumes "configured procs a" and "returns R (\<lambda>r. mset r = M \<and> conf_sorted procs r)"
    and "\<And>i. i \<in># M \<Longrightarrow> conf_index procs a < conf_index procs i"
  shows "returns (bindE R (\<lambda>r. Inr (a # r))) (\<lambda>r. mset r = add_mset a M \<and> conf_sorted procs r)"
proof -
  obtain r where "R = Inr r" "mset r = M" "conf_sorted procs r" using assms(2) by (auto elim!: returnsE)
  moreover from this have "\<forall>i \<in> set r. conf_index procs a < conf_index procs i"
    using assms(3) by (metis set_mset_mset)
  ultimately show ?thesis using assms(1) by (simp add: conf_sorted_Cons)
qed

lemma merge_synced_returns:
  assumes wf: "wf_procs procs" and "conf_sorted procs xs" and "conf_sorted procs ys" and "set xs \<inter> set ys = {}"
  shows "returns (merge_synced procs xs ys) (\<lambda>r. mset r = mset xs + mset ys \<and> conf_sorted procs r)"
  using assms
proof (induction procs xs ys rule: merge_synced.induct)
  case (1 procs)
  then show ?case by (simp add: conf_sorted_def)
next
  case (2 procs a xs)
  have a: "configured procs a" "conf_sorted procs xs" "\<And>i. i \<in># mset xs \<Longrightarrow> conf_index procs a < conf_index procs i"
    using 2(3) by (simp_all add: conf_sorted_Cons)
  have "conf_index procs a \<noteq> -1" using conf_index_self [OF 2(2) a(1)] by auto
  moreover have "returns (merge_synced procs xs []) (\<lambda>r. mset r = mset xs \<and> conf_sorted procs r)"
    using 2(1) [OF calculation 2(2) a(2) 2(4)] by simp
  from merge_synced_cons [OF a(1) this a(3)]
  have "returns (bindE (merge_synced procs xs []) (\<lambda>r. Inr (a # r))) (\<lambda>r. mset r = add_mset a (mset xs) \<and> conf_sorted procs r)" .
  ultimately show ?case by simp
next
  case (3 procs a xs)
  have a: "configured procs a" "conf_sorted procs xs" "\<And>i. i \<in># mset xs \<Longrightarrow> conf_index procs a < conf_index procs i"
    using 3(4) by (simp_all add: conf_sorted_Cons)
  have "conf_index procs a \<noteq> -1" using conf_index_self [OF 3(2) a(1)] by auto
  moreover have "returns (merge_synced procs [] xs) (\<lambda>r. mset r = mset xs \<and> conf_sorted procs r)"
    using 3(1) [OF calculation 3(2,3) a(2)] by simp
  from merge_synced_cons [OF a(1) this a(3)]
  have "returns (bindE (merge_synced procs [] xs) (\<lambda>r. Inr (a # r))) (\<lambda>r. mset r = add_mset a (mset xs) \<and> conf_sorted procs r)" .
  ultimately show ?case by simp
next
  case (4 procs a xs b ys)
  have a: "configured procs a" "conf_sorted procs xs" "\<And>i. i \<in> set xs \<Longrightarrow> conf_index procs a < conf_index procs i"
    and b: "configured procs b" "conf_sorted procs ys" "\<And>i. i \<in> set ys \<Longrightarrow> conf_index procs b < conf_index procs i"
    using 4(4,5) by (simp_all add: conf_sorted_Cons)
  have i: "conf_index procs a \<noteq> -1" "conf_index procs b \<noteq> -1"
    using conf_index_self [OF 4(3) a(1)] conf_index_self [OF 4(3) b(1)] by auto
  have "a \<noteq> b" using 4(6) by auto
  then have "conf_index procs a \<noteq> conf_index procs b" using conf_index_inj [OF 4(3) a(1) b(1)] by auto
  then consider "conf_index procs a < conf_index procs b" | "conf_index procs b < conf_index procs a" by linarith
  then show ?case
  proof cases
    case 1
    have "\<not> (conf_index procs a = -1 \<or> conf_index procs b = -1)" using i by simp
    from 4(1) [OF refl refl this 1 4(3) a(2) 4(5)]
    have "returns (merge_synced procs xs (b # ys)) (\<lambda>r. mset r = mset xs + mset (b # ys) \<and> conf_sorted procs r)"
      using 4(6) by auto
    moreover have "\<And>j. j \<in># mset xs + mset (b # ys) \<Longrightarrow> conf_index procs a < conf_index procs j"
      using 1 a(3) b(3) by fastforce
    ultimately have "returns (bindE (merge_synced procs xs (b # ys)) (\<lambda>r. Inr (a # r)))
        (\<lambda>r. mset r = add_mset a (mset xs + mset (b # ys)) \<and> conf_sorted procs r)"
      by (rule merge_synced_cons [OF a(1)])
    then show ?thesis using 1 i by (simp add: Let_def add_mset_commute)
  next
    case 2
    have n: "\<not> (conf_index procs a = -1 \<or> conf_index procs b = -1)" "\<not> conf_index procs a < conf_index procs b" using i 2 by auto
    from 4(2) [OF refl refl n 2 4(3,4) b(2)]
    have "returns (merge_synced procs (a # xs) ys) (\<lambda>r. mset r = mset (a # xs) + mset ys \<and> conf_sorted procs r)"
      using 4(6) by auto
    moreover have "\<And>j. j \<in># mset (a # xs) + mset ys \<Longrightarrow> conf_index procs b < conf_index procs j"
      using 2 a(3) b(3) by fastforce
    ultimately have "returns (bindE (merge_synced procs (a # xs) ys) (\<lambda>r. Inr (b # r)))
        (\<lambda>r. mset r = add_mset b (mset (a # xs) + mset ys) \<and> conf_sorted procs r)"
      by (rule merge_synced_cons [OF b(1)])
    then show ?thesis using 2 i by (simp add: Let_def)
  qed
qed

lemma conf_sorted_distinct: "conf_sorted procs ps \<Longrightarrow> distinct ps"
  by (induction ps) (auto simp: conf_sorted_Cons)

text \<open>What a message and a link of messages say; the synced set is in exactly one of a link's messages.\<close>

definition message_reads :: "message_obj \<Rightarrow> (proc_id list option \<times> group_info list) outcome" where
  "message_reads m = (if length (concat (elements m)) > 100000 then Inl (Undefined ''G_mess_to_groups'')
     else read_groups_data (\<not> Same_endian (mh_type (mo_head m))) (concat (mo_data m)))"

definition says :: "groups_message_link \<Rightarrow> proc_id list \<times> group_info list \<Rightarrow> bool" where
  "says gm x \<longleftrightarrow> (\<exists>rs. map message_reads (gm_messages gm) = map Inr rs
     \<and> List.map_filter fst rs = [fst x] \<and> concat (map snd rs) = snd x)"

lemma G_mess_to_groups_reads: "G_mess_to_groups m sset s = bindE (message_reads m) (\<lambda>(ps, gis).
    bindE (for_each absorb_group gis s) (\<lambda>s'. Inr (if ps = None then sset else ps, s')))"
  by (simp add: G_mess_to_groups_def message_reads_def)

lemma absorb_group_synced: "absorb_group gi s = Inr t \<Longrightarrow> MySyncedSet t = MySyncedSet s"
  by (auto simp: absorb_group_def Let_def bindE_eq_Inr put_group_def split: option.splits)

lemma absorb_groups_synced: "for_each absorb_group gis s = Inr t \<Longrightarrow> MySyncedSet t = MySyncedSet s"
  by (induction gis arbitrary: s) (auto simp: bindE_eq_Inr dest: absorb_group_synced)

lemma last_cons_case: "(case xs of [] \<Rightarrow> Some x | ys \<Rightarrow> Some (last ys)) = Some (last (x # xs))"
  by (cases xs) simp_all

lemma messages_absorbed:
  assumes "merging s" and "news (infos_entries (concat (map snd rs))) s" and "infos_known (concat (map snd rs))"
    and "map message_reads ms = map Inr rs"
  shows "returns (for_each (\<lambda>m (sset, s). G_mess_to_groups m sset s) ms (sset, s)) (\<lambda>(sset', s').
     sset' = (case List.map_filter fst rs of [] \<Rightarrow> sset | ps \<Rightarrow> Some (last ps)) \<and> MySyncedSet s' = MySyncedSet s
     \<and> absorbed (concat (map snd rs)) s s')"
  using assms
proof (induction ms arbitrary: rs s sset)
  case Nil
  then show ?case by (simp add: absorbed_refl map_filter_simps)
next
  case (Cons m ms)
  obtain ps gis rs' where rs: "rs = (ps, gis) # rs'" "message_reads m = Inr (ps, gis)" "map message_reads ms = map Inr rs'"
    using Cons.prems(4) by (cases rs) auto
  let ?gis' = "concat (map snd rs')"
  have n: "news (infos_entries (gis @ ?gis')) s" "infos_known gis" "infos_known ?gis'"
    using Cons.prems(2,3) by (simp_all add: rs(1) infos_known_def)
  have "news (infos_entries gis) s" using n(1) news_append [of "infos_entries gis" "infos_entries ?gis'" s] by simp
  then obtain t where t: "for_each absorb_group gis s = Inr t" "absorbed gis s t"
    using absorb_groups_return [OF Cons.prems(1) _ n(2)] by (auto elim!: returnsE)
  let ?sset = "if ps = None then sset else ps"
  have "returns (for_each (\<lambda>m (sset, s). G_mess_to_groups m sset s) ms (?sset, t)) (\<lambda>(sset', s').
     sset' = (case List.map_filter fst rs' of [] \<Rightarrow> ?sset | ps \<Rightarrow> Some (last ps)) \<and> MySyncedSet s' = MySyncedSet t
     \<and> absorbed ?gis' t s')"
    using t(2) by (intro Cons.IH news_absorbed [OF n(1) t(2)] n(3) rs(3)) (simp add: absorbed_def)
  then obtain sset' u where u: "for_each (\<lambda>m (sset, s). G_mess_to_groups m sset s) ms (?sset, t) = Inr (sset', u)"
    "sset' = (case List.map_filter fst rs' of [] \<Rightarrow> ?sset | ps \<Rightarrow> Some (last ps))" "MySyncedSet u = MySyncedSet s"
    "absorbed ?gis' t u"
    using absorb_groups_synced [OF t(1)] by (auto elim!: returnsE)
  have "sset' = (case List.map_filter fst rs of [] \<Rightarrow> sset | ps \<Rightarrow> Some (last ps))"
    unfolding u(2) rs(1) by (cases ps; cases "List.map_filter fst rs'") (simp_all add: map_filter_simps)
  then show ?case
    using rs(2) t(1) u(1,3) absorbed_trans [OF t(2) u(4)] by (simp add: rs(1) G_mess_to_groups_reads)
qed

text \<open>One synced set, and all that were gathered.\<close>

lemma take_link_returns:
  assumes inv: "merging s" and new: "news (infos_entries gis) s" and k: "infos_known gis" and says: "says gm (ps, gis)"
    and ps: "conf_sorted (Config_procs s) ps" "conf_sorted (Config_procs s) (MySyncedSet s)"
      "set (MySyncedSet s) \<inter> set ps = {}" "length (MySyncedSet s) + length ps \<le> 128"
  shows "returns (take_link gm (sset, s)) (\<lambda>(sset', s'). absorbed gis s s'
     \<and> mset (MySyncedSet s') = mset (MySyncedSet s) + mset ps \<and> conf_sorted (Config_procs s) (MySyncedSet s'))"
proof -
  obtain rs where rs: "map message_reads (gm_messages gm) = map Inr rs" "List.map_filter fst rs = [ps]" "concat (map snd rs) = gis"
    using says by (auto simp: says_def)
  obtain t where t: "for_each (\<lambda>m (sset, s). G_mess_to_groups m sset s) (gm_messages gm) (sset, s) = Inr (Some ps, t)"
    "MySyncedSet t = MySyncedSet s" "absorbed gis s t"
    using messages_absorbed [OF inv _ _ rs(1), of sset] new k rs(2,3) by (auto elim!: returnsE)
  have c: "Config_procs t = Config_procs s" using t(3) by (simp add: absorbed_def but_synced_def)
  have wf: "wf_procs (Config_procs s)" using inv by (simp add: merging_def sess_ok_def)
  obtain r where r: "merge_synced (Config_procs s) (MySyncedSet s) ps = Inr r" "mset r = mset (MySyncedSet s) + mset ps"
    "conf_sorted (Config_procs s) r"
    using merge_synced_returns [OF wf ps(2,1,3)] by (auto elim!: returnsE)
  have "length r \<le> 128" using ps(4) r(2) by (metis size_mset size_union)
  then have "take_link gm (sset, s) = Inr (Some ps, t\<lparr>MySyncedSet := r\<rparr>)"
    using t(1,2) r(1) by (simp add: take_link_def G_add_to_synced_set_def c MAX_PROCS_RING_def)
  moreover have "same_sessions t (t\<lparr>MySyncedSet := r\<rparr>)" by (simp add: same_sessions_def)
  from same_sessions_cong [OF this] have "merging (t\<lparr>MySyncedSet := r\<rparr>)"
    using t(3) by (simp add: absorbed_def merging_def group_shape_def)
  then have "absorbed gis s (t\<lparr>MySyncedSet := r\<rparr>)"
    using t(3) by (simp add: absorbed_def but_synced_def unknown_def empties_def load_def G_get_group_def roster_def my_id_def)
  ultimately show ?thesis using r(2,3) by simp
qed

lemma take_links_return:
  assumes "merging s" and "news (infos_entries (concat (map snd ls))) s" and "infos_known (concat (map snd ls))"
    and "list_all2 says gms ls" and "\<forall>(ps, _) \<in> set ls. conf_sorted (Config_procs s) ps"
    and "conf_sorted (Config_procs s) (MySyncedSet s)" and "distinct (MySyncedSet s @ concat (map fst ls))"
    and "length (MySyncedSet s @ concat (map fst ls)) \<le> 128"
  shows "returns (for_each take_link gms (sset, s)) (\<lambda>(sset', s'). absorbed (concat (map snd ls)) s s'
     \<and> mset (MySyncedSet s') = mset (MySyncedSet s @ concat (map fst ls)) \<and> conf_sorted (Config_procs s) (MySyncedSet s'))"
  using assms(4,1-3,5-)
proof (induction gms ls arbitrary: s sset rule: list_all2_induct)
  case Nil
  then show ?case by (simp add: absorbed_refl)
next
  case (Cons gm gms l ls)
  obtain ps gis where l: "l = (ps, gis)" by fastforce
  let ?gis' = "concat (map snd ls)"
  have n: "news (infos_entries (gis @ ?gis')) s" "infos_known gis" "infos_known ?gis'"
    using Cons.prems(2,3) by (simp_all add: l infos_known_def)
  have n1: "news (infos_entries gis) s" using n(1) news_append [of "infos_entries gis" "infos_entries ?gis'" s] by simp
  have dis: "set (MySyncedSet s) \<inter> set ps = {}" using Cons.prems(6) by (auto simp: l)
  obtain sset' t where t: "take_link gm (sset, s) = Inr (sset', t)" "absorbed gis s t"
    "mset (MySyncedSet t) = mset (MySyncedSet s) + mset ps" "conf_sorted (Config_procs s) (MySyncedSet t)"
    using take_link_returns [OF Cons.prems(1) n1 n(2) Cons.hyps(1) [unfolded l], of sset] Cons.prems(4-) dis
    by (auto simp: l elim!: returnsE)
  have c: "Config_procs t = Config_procs s" "merging t" using t(2) by (simp_all add: absorbed_def but_synced_def)
  have m: "mset (MySyncedSet t @ concat (map fst ls)) = mset (MySyncedSet s @ concat (map fst (l # ls)))"
    using t(3) by (simp add: l)
  have "returns (for_each take_link gms (sset', t)) (\<lambda>(sset', s'). absorbed ?gis' t s'
     \<and> mset (MySyncedSet s') = mset (MySyncedSet t @ concat (map fst ls)) \<and> conf_sorted (Config_procs t) (MySyncedSet s'))"
  proof (rule Cons.IH)
    show "distinct (MySyncedSet t @ concat (map fst ls))" using Cons.prems(6) mset_eq_imp_distinct_iff [OF m] by simp
    show "length (MySyncedSet t @ concat (map fst ls)) \<le> 128" using Cons.prems(7) m by (metis size_mset)
  qed (use Cons.prems c t(4) n(3) news_absorbed [OF n(1) t(2)] in simp_all)
  then show ?case
    using t(1) c(1) m absorbed_trans [OF t(2), of ?gis'] by (auto simp: l elim!: returns_mono)
qed

subsection \<open>Announcing the groups\<close>

definition announce_result :: "'a groups_st_scheme \<Rightarrow> group \<Rightarrow> group" where
  "announce_result s g = (if \<not> grp_changed g then g else
     G_update_daemon_memb_ids (g\<lparr>grp_id := \<lparr>gid_memb_id = G_Reg_memb_id s, gid_index = 1\<rparr>, grp_changed := False\<rparr>))"

lemma announce_result_people:
  "group_wf procs (announce_result s g) = group_wf procs g" "local_ok t (announce_result s g) = local_ok t g"
  "group_roster (announce_result s g) = group_roster g" "grp_name (announce_result s g) = grp_name g"
proof -
  let ?h = "\<lambda>d. if grp_changed g \<and> Is_established_daemon d then d\<lparr>dm_memb_id := G_Reg_memb_id s\<rparr> else d"
  have h: "dm_proc_id (?h d) = dm_proc_id d \<and> dm_members (?h d) = dm_members d" for d by simp
  have d: "grp_daemons (announce_result s g) = map ?h (grp_daemons g)"
    by (cases "grp_changed g") (simp_all add: announce_result_def G_update_daemon_memb_ids_def cong: if_cong)
  have o: "grp_num_members (announce_result s g) = grp_num_members g" "grp_mboxes (announce_result s g) = grp_mboxes g"
    "grp_name (announce_result s g) = grp_name g"
    by (simp_all add: announce_result_def G_update_daemon_memb_ids_def)
  show "group_wf procs (announce_result s g) = group_wf procs g" "local_ok t (announce_result s g) = local_ok t g"
    "group_roster (announce_result s g) = group_roster g" "grp_name (announce_result s g) = grp_name g"
    using same_people(1,3) [of ?h, OF h d o(1,2)] same_people(2) [of ?h, OF h d o(1,2)] o(3) by auto
qed

lemma announce_result_marks:
  assumes "all_known g" and "\<not> Is_unknown_memb_id (G_Reg_memb_id s)" and "Gstate u = GOP"
  shows "marks_group u (announce_result s g)"
  using assms
  by (auto simp: announce_result_def G_update_daemon_memb_ids_def marks_group_def with_us_def all_known_def list_ex_iff
      Is_partitioned_daemon_def Is_established_daemon_def)

lemma announce_result_cong: "surroundings t = surroundings s \<Longrightarrow> announce_result t g = announce_result s g"
  by (simp add: surroundings_def announce_result_def)

lemma announce_group_turns:
  assumes inv: "groups_inv t" and g: "G_get_group (grp_name g) t = Some g" and size: "length (all_members g) \<le> 2000"
  shows "returns (announce_group g t) (turns t (grp_name g) (Some (announce_result t g)))"
proof (cases "grp_changed g")
  case False
  then show ?thesis using inv g by (simp add: announce_group_def announce_result_def turns_def)
next
  case True
  let ?g = "g\<lparr>grp_id := \<lparr>gid_memb_id = G_Reg_memb_id t, gid_index = 1\<rparr>, grp_changed := False\<rparr>"
  have gw: "group_wf (Config_procs t) g" "local_ok t g" "sess_ok t"
    using inv g get_group_in [OF inv] by (auto simp: groups_inv_def groups_wf_def)
  have "group_wf (Config_procs t) ?g" "local_ok t ?g" "small_group ?g"
    using gw(1,2) size by (simp_all add: group_wf_def local_ok_def local_members_def small_group_def all_members_def)
  then have "returns (if grp_mboxes ?g \<noteq> [] then G_send_heavyweight_memb ?g t else Inr t) (only_io t)"
    using heavyweight_memb_returns [OF gw(3), of ?g] by simp
  then obtain u where u: "(if grp_mboxes ?g \<noteq> [] then G_send_heavyweight_memb ?g t else Inr t) = Inr u" "only_io t u"
    by (rule returnsE)
  have e: "announce_group g t = Inr (put_group (announce_result t g) u)"
    using True u(1) by (simp add: announce_group_def announce_result_def Let_def)
  have iu: "groups_inv u" "table_ok t" using groups_inv_io [OF u(2) inv] gw(3) by (simp_all add: sess_ok_def)
  have "G_get_group (grp_name g) u = Some g" using g only_io_groups(1) [OF u(2)] by (simp add: G_get_group_def)
  then have "turns u (grp_name (announce_result t g)) (Some (announce_result t g)) (put_group (announce_result t g) u)"
    using gw only_io_fields(5) [OF u(2)] local_ok_io [OF u(2) iu(2)]
    by (intro turns_put [OF iu(1)]) (simp_all add: announce_result_people)
  then show ?thesis using e turns_after_io [OF u(2)] by (simp add: announce_result_people)
qed

lemma announce_returns:
  fixes s :: "'a groups_st_scheme"
  assumes inv: "groups_inv s" and known: "\<forall>g \<in> set (GroupsList s). all_known g" and ri: "\<not> Is_unknown_memb_id (G_Reg_memb_id s)"
    and size: "room n s"
  shows "returns (for_each announce_group (GroupsList s) s) (\<lambda>s'. groups_inv s' \<and> surroundings s' = surroundings s
     \<and> roster s' = roster s \<and> (\<forall>u :: 'a groups_st_scheme. Gstate u = GOP \<longrightarrow> (\<forall>g \<in> set (GroupsList s'). marks_group u g)))"
proof -
  have "returns (for_each announce_group (GroupsList s) s) (\<lambda>s'. groups_inv s' \<and> surroundings s' = surroundings s
     \<and> (\<forall>n. G_get_group n s' = Option.bind (G_get_group n s) (\<lambda>g. Some (announce_result s g))))"
  proof (rule each_group [OF inv])
    fix g t
    assume t: "g \<in> set (GroupsList s)" "groups_inv t" "surroundings t = surroundings s" "G_get_group (grp_name g) t = Some g"
    have "length (all_members g) \<le> 2000" using size t(1) by (auto simp: room_def)
    from announce_group_turns [OF t(2,4) this]
    show "returns (announce_group g t) (turns t (grp_name g) (Some (announce_result s g)))"
      unfolding announce_result_cong [OF t(3)] .
  qed
  then obtain u where u: "for_each announce_group (GroupsList s) s = Inr u" "groups_inv u" "surroundings u = surroundings s"
    "\<And>n. G_get_group n u = map_option (announce_result s) (G_get_group n s)"
    by (elim returnsE) (simp add: map_conv_bind_option comp_def)
  have "roster u = roster s"
    unfolding roster_get [OF u(2)] roster_get [OF inv] u(4) by (auto simp: announce_result_people)
  moreover have "marks_group v g'" if "Gstate v = GOP" "g' \<in> set (GroupsList u)" for v :: "'a groups_st_scheme" and g'
  proof -
    have "map_option (announce_result s) (G_get_group (grp_name g') s) = Some g'"
      using that(2) get_group_in [OF u(2)] unfolding u(4) [symmetric] by simp
    then obtain g where "G_get_group (grp_name g') s = Some g" "g' = announce_result s g"
      unfolding map_option_eq_Some by metis
    then show ?thesis using known get_group_in [OF inv] announce_result_marks [OF _ ri that(1)] by auto
  qed
  ultimately show ?thesis using u(1-3) by auto
qed

subsection \<open>The end of gathering\<close>

text \<open>
  What must hold of the gathered messages: they say \<open>ls\<close>, a synced set and groups per link, about
  other daemons than those whose groups the state has; the merged groups are not too large.
\<close>

definition all_infos :: "(proc_id list \<times> group_info list) list \<Rightarrow> group_info list" where
  "all_infos ls = concat (map snd ls)"

definition gathered_ok :: "(proc_id list \<times> group_info list) list \<Rightarrow> 'a groups_st_scheme \<Rightarrow> bool" where
  "gathered_ok ls s \<longleftrightarrow> list_all2 says (Gathered s) ls \<and> news (infos_entries (all_infos ls)) s
     \<and> infos_known (all_infos ls) \<and> gi_name ` set (all_infos ls) \<subseteq> en_name ` set (infos_entries (all_infos ls))
     \<and> (\<forall>n. load n s + entry_load n (infos_entries (all_infos ls)) \<le> 2000)
     \<and> (\<forall>(ps, _) \<in> set ls. conf_sorted (Config_procs s) ps) \<and> conf_sorted (Config_procs s) (MySyncedSet s)
     \<and> distinct (MySyncedSet s @ concat (map fst ls)) \<and> length (MySyncedSet s @ concat (map fst ls)) \<le> 128"

lemma groups_inv_empties: "groups_inv s \<Longrightarrow> empties s = {}"
  using get_group_in [of s] by (auto simp: empties_def groups_inv_def groups_wf_def group_wf_def)

lemma compute_and_notify_returns:
  fixes s :: "'a groups_st_scheme"
  assumes inv: "groups_inv s" and known: "\<forall>g \<in> set (GroupsList s). all_known g" and ri: "\<not> Is_unknown_memb_id (G_Reg_memb_id s)"
    and ok: "gathered_ok ls s"
  shows "returns (G_compute_and_notify s) (\<lambda>s'. groups_inv s' \<and> but_synced s' = but_synced s
     \<and> roster s' = roster s \<union> entry_roster (infos_entries (all_infos ls))
     \<and> mset (MySyncedSet s') = mset (MySyncedSet s @ concat (map fst ls)) \<and> conf_sorted (Config_procs s) (MySyncedSet s')
     \<and> Gathered s' = [] \<and> (\<forall>u :: 'a groups_st_scheme. Gstate u = GOP \<longrightarrow> (\<forall>g \<in> set (GroupsList s'). marks_group u g)))"
proof -
  let ?gis = "all_infos ls"
  obtain sset t where t: "for_each take_link (Gathered s) (None, s) = Inr (sset, t)" "absorbed ?gis s t"
    "mset (MySyncedSet t) = mset (MySyncedSet s @ concat (map fst ls))" "conf_sorted (Config_procs s) (MySyncedSet t)"
    using take_links_return [OF merging_inv [OF inv known], of ls "Gathered s" None] ok
    by (auto simp: gathered_ok_def all_infos_def elim!: returnsE)
  let ?t = "t\<lparr>Gathered := []\<rparr>"
  have mt: "merging t" using t(2) by (simp add: absorbed_def)
  have same: "same_sessions t ?t" by (simp add: same_sessions_def)
  have "empties t \<subseteq> (empties s \<union> (gi_name ` set ?gis \<inter> unknown s)) - en_name ` set (infos_entries ?gis)"
    using t(2) unfolding absorbed_def by metis
  moreover have "empties s = {}" by (rule groups_inv_empties [OF inv])
  moreover have "gi_name ` set ?gis \<subseteq> en_name ` set (infos_entries ?gis)" using ok unfolding gathered_ok_def by (elim conjE)
  ultimately have "empties t = {}" by blast
  have "grp_daemons g \<noteq> []" if "g \<in> set (GroupsList t)" for g
  proof
    assume "grp_daemons g = []"
    moreover have "G_get_group (grp_name g) t = Some g" using that merging_get [OF mt] by simp
    ultimately have "grp_name g \<in> empties t" unfolding empties_def by blast
    then show False using \<open>empties t = {}\<close> by simp
  qed
  then have "groups_inv t" by (intro inv_merging [OF mt]) simp
  then have inv1: "groups_inv ?t"
    using same_sessions_cong [OF same] by (simp add: groups_inv_def groups_wf_def)
  have known1: "\<forall>g \<in> set (GroupsList ?t). all_known g" using mt by (simp add: merging_def)
  have reg: "G_Reg_memb_id ?t = G_Reg_memb_id s" using t(2) by (simp add: absorbed_def but_synced_def)
  have "room 0 ?t" unfolding room_def
  proof
    fix g assume g: "g \<in> set (GroupsList ?t)"
    then have "G_get_group (grp_name g) t = Some g" using merging_get [OF mt] by simp
    then have "load (grp_name g) t = length (all_members g)" by (simp add: load_def)
    moreover have "load (grp_name g) t = load (grp_name g) s + entry_load (grp_name g) (infos_entries ?gis)"
      using t(2) by (simp add: absorbed_def)
    ultimately have "length (all_members g) = load (grp_name g) s + entry_load (grp_name g) (infos_entries ?gis)" by simp
    then show "length (all_members g) + 0 \<le> 2000" using ok by (simp add: gathered_ok_def)
  qed
  then obtain u where u: "for_each announce_group (GroupsList ?t) ?t = Inr u" "groups_inv u" "surroundings u = surroundings ?t"
    "roster u = roster ?t" "\<And>(v :: 'a groups_st_scheme) g. Gstate v = GOP \<Longrightarrow> g \<in> set (GroupsList u) \<Longrightarrow> marks_group v g"
  proof -
    assume size: "room 0 ?t"
    have "\<not> Is_unknown_memb_id (G_Reg_memb_id ?t)" using ri reg by simp
    from announce_returns [OF inv1 known1 this size] that show thesis by (elim returnsE) blast
  qed
  let ?u = "(G_discard_groups_bufs u)\<lparr>gathered_complete := False, Num_mess_gathered := 0, Num_daemons_gathered := 0,
      Groups_bufs_fresh := False\<rparr>"
  have "for_each announce_group (GroupsList t) ?t = Inr u" using u(1) by simp
  then have e: "G_compute_and_notify s = Inr ?u" using t(1) by (simp add: G_compute_and_notify_def Let_def)
  have "same_sessions u ?u" by (simp add: same_sessions_def G_discard_groups_bufs_def)
  from same_sessions_cong [OF this] have inv2: "groups_inv ?u"
    using u(2) by (simp add: groups_inv_def groups_wf_def G_discard_groups_bufs_def)
  have su: "but_synced u = but_synced s" "MySyncedSet u = MySyncedSet t" "Gathered u = []"
    using u(3) t(2) by (simp_all add: surroundings_def absorbed_def but_synced_def my_id_def)
  have "roster ?u = roster u" "roster ?t = roster t" "but_synced ?u = but_synced u"
    by (simp_all add: roster_def G_discard_groups_bufs_def but_synced_def my_id_def)
  then have "roster ?u = roster s \<union> entry_roster (infos_entries ?gis)" "but_synced ?u = but_synced s"
    using u(4) t(2) su(1) by (simp_all add: absorbed_def)
  moreover have "MySyncedSet ?u = MySyncedSet t" "Gathered ?u = []" "GroupsList ?u = GroupsList u"
    using su(2,3) by (simp_all add: G_discard_groups_bufs_def)
  ultimately show ?thesis unfolding e returns_Inr using inv2 t(3,4) u(5) by simp
qed

text \<open>
  In \<open>GGATHER\<close>, with the last message there: all groups are merged, and the daemons agree again.
\<close>

lemma gathering_ends:
  fixes s :: "'a groups_st_scheme"
  assumes st: "Gstate s = GGATHER" and inv: "groups_inv s" and known: "\<forall>g \<in> set (GroupsList s). all_known g"
    and ri: "\<not> Is_unknown_memb_id (G_Reg_memb_id s)" and ok: "gathered_ok ls s"
  shows "returns (finish_gathering s) (\<lambda>s'. groups_inv s' \<and> marks s' \<and> Gstate s' = GOP \<and> Gathered s' = []
     \<and> Config_procs s' = Config_procs s \<and> my_id s' = my_id s
     \<and> roster s' = roster s \<union> entry_roster (infos_entries (all_infos ls))
     \<and> mset (MySyncedSet s') = mset (MySyncedSet s @ concat (map fst ls)) \<and> conf_sorted (Config_procs s) (MySyncedSet s'))"
proof -
  let ?s = "Sess_set_active_threshold ((out (Down_queue_set NORMAL_DOWNQUEUE) s)\<lparr>Session_threshold := LOW_PRIORITY\<rparr>)"
  have f: "same_sessions s ?s" "GroupsList ?s = GroupsList s" "Num_groups ?s = Num_groups s" "MySyncedSet ?s = MySyncedSet s"
    "Gathered ?s = Gathered s" "but_synced ?s = but_synced s" "Config_procs ?s = Config_procs s" "my_id ?s = my_id s"
    by (simp_all add: Sess_set_active_threshold_def out_def same_sessions_def but_synced_def my_id_def)
  have r: "roster ?s = roster s" "load n ?s = load n s" for n by (simp_all add: roster_def load_def G_get_group_def f(2))
  have inv1: "groups_inv ?s" "G_Reg_memb_id ?s = G_Reg_memb_id s"
    using inv same_sessions_cong [OF f(1)] f(2,3,6,7) by (simp_all add: groups_inv_def groups_wf_def but_synced_def)
  have "gathered_ok ls ?s" using ok unfolding gathered_ok_def news_def f(4,5,7,8) r .
  then obtain t where t: "G_compute_and_notify ?s = Inr t" "groups_inv t" "but_synced t = but_synced s"
     "roster t = roster s \<union> entry_roster (infos_entries (all_infos ls))"
     "mset (MySyncedSet t) = mset (MySyncedSet s @ concat (map fst ls))" "conf_sorted (Config_procs s) (MySyncedSet t)"
     "Gathered t = []" "\<And>(u :: 'a groups_st_scheme) g. Gstate u = GOP \<Longrightarrow> g \<in> set (GroupsList t) \<Longrightarrow> marks_group u g"
  proof -
    assume ok1: "gathered_ok ls ?s"
    have "\<forall>g \<in> set (GroupsList ?s). all_known g" "\<not> Is_unknown_memb_id (G_Reg_memb_id ?s)"
      using known ri inv1(2) f(2) by simp_all
    from compute_and_notify_returns [OF inv1(1) this ok1, unfolded f(4,6,7) r] that
    show thesis by (elim returnsE) blast
  qed
  let ?t = "t\<lparr>Gstate := GOP\<rparr>"
  have c: "G_Reg_memb_id t = G_Reg_memb_id s" "Config_procs t = Config_procs s" "my_id t = my_id s"
    using t(3) by (simp_all add: but_synced_def)
  have "marks ?t" using t(8) [of ?t] ri c(1) by (simp add: marks_def)
  moreover have "groups_inv ?t" using t(2) by (simp add: groups_inv_reset)
  moreover have "roster ?t = roster t" by (simp add: roster_def)
  ultimately show ?thesis
    using t(1,4-7) st c(2,3) by (simp add: finish_gathering_def my_id_def)
qed

text \<open>The messages of a daemon say its roster.\<close>

lemma entries_roster: "entry_roster (concat (map (\<lambda>g. entries g (grp_daemons g)) (GroupsList s))) = roster s"
proof -
  have "(n, i, m) \<in> entry_roster (concat (map (\<lambda>g. entries g (grp_daemons g)) (GroupsList s))) \<longleftrightarrow> (n, i, m) \<in> roster s" for n i m
    unfolding in_entry_roster roster_def by (auto simp: entries_def in_group_roster)
  then show ?thesis by (intro set_eqI) (simp only: split_paired_all)
qed

end
