(* ===== verification/Group_Properties.thy ===== *)
theory Group_Properties
  imports Group_Merge
begin

section \<open>What the process groups guarantee\<close>

text \<open>
  The properties of the group layer, stated over its handlers, each applied to a small example:
  three configured daemons, this one (\<open>a\<close>) with the sessions \<open>u\<close> and \<open>v\<close>, and a group \<open>g\<close> with
  the processes \<open>#u#a\<close> and \<open>#x#b\<close>.
\<close>

subsection \<open>The example\<close>

definition example_group :: group where
  "example_group = \<lparr>grp_name = ''g'', grp_id = \<lparr>gid_memb_id = \<lparr>mid_proc_id = 11, mid_time = 5\<rparr>, gid_index = 2\<rparr>,
     grp_changed = False, grp_num_members = 2,
     grp_daemons = [\<lparr>dm_proc_id = 11, dm_memb_id = \<lparr>mid_proc_id = 11, mid_time = 5\<rparr>, dm_members = [''#u#a'']\<rparr>,
       \<lparr>dm_proc_id = 12, dm_memb_id = \<lparr>mid_proc_id = 11, mid_time = 5\<rparr>, dm_members = [''#x#b'']\<rparr>],
     grp_mboxes = [8]\<rparr>"

definition seg_example :: "nat list \<Rightarrow> configuration" where
  "seg_example ks = \<lparr>hash_code = 0, segments = [\<lparr>seg_bcast_address = 0, seg_port = 0, seg_procs = ks\<rparr>]\<rparr>"

definition groups_example :: groups_st where
  "groups_example = sess_st.extend
     (sess_example\<lparr>Config_procs := procs_example, My := procs_example ! 0\<rparr>)
     (groups_st.fields GOP (seg_example []) \<lparr>mid_proc_id = 11, mid_time = 4\<rparr> (seg_example [0, 1])
        \<lparr>mid_proc_id = 11, mid_time = 5\<rparr> [example_group] 1 [11, 12] [] False 0 0 False [])"

lemma groups_example_fields:
  "Sessions groups_example = Sessions sess_example" "Sess_order groups_example = Sess_order sess_example"
  "Sess_free groups_example = Sess_free sess_example" "Sess_hash groups_example = Sess_hash sess_example"
  "Num_sessions groups_example = Num_sessions sess_example" "Config_procs groups_example = procs_example"
  "My groups_example = procs_example ! 0" "Gstate groups_example = GOP" "GroupsList groups_example = [example_group]"
  "Num_groups groups_example = 1" "G_Reg_memb_id groups_example = \<lparr>mid_proc_id = 11, mid_time = 5\<rparr>"
  "MySyncedSet groups_example = [11, 12]" "Gathered groups_example = []"
  by (simp_all add: groups_example_def sess_st.defs groups_st.defs)

lemma wf_procs_example: "wf_procs procs_example"
proof -
  have i: "i = 0 \<or> i = 1 \<or> i = 2" if "i < length procs_example" for i :: nat using that by (auto simp: procs_example_def)
  have "if_ip f = 11 + of_nat i" if "i < length procs_example" "f \<in> set (p_ifc (procs_example ! i))" for i f
    using i [OF that(1)] that(2) by (auto simp: procs_example_def)
  moreover have "has_ip (11 + of_nat i) (procs_example ! j) \<longleftrightarrow> i = j" if "i < length procs_example" "j < length procs_example" for i j
    using i [OF that(1)] i [OF that(2)] by (auto simp: procs_example_def has_ip_def)
  moreover have "\<forall>p \<in> set procs_example. has_ip (p_id p) p" by (simp add: procs_example_def has_ip_def)
  ultimately show ?thesis unfolding wf_procs_def by metis
qed

lemma conf_index_example:
  "conf_index procs_example 11 = 0" "conf_index procs_example 12 = 1" "conf_index procs_example 13 = 2"
  by (simp_all add: conf_index_def procs_example_lookup)

lemma ses_at_example: "ses_at groups_example i = ses_at sess_example i"
  by (simp add: groups_example_fields)

lemma sess_ok_example: "sess_ok groups_example"
proof -
  have c: "chain_of groups_example h = chain_of sess_example h" for h
    by (simp add: chain_of_def groups_example_fields ses_at_example)
  have "table_ok groups_example"
    using sess_example_ok unfolding table_ok_def c groups_example_fields .
  moreover have "own_mailboxes groups_example"
    by (simp add: own_mailboxes_def groups_example_fields sess_example_fields sess_example_at no_session_def)
  ultimately show ?thesis
    by (simp add: sess_ok_def wf_procs_example groups_example_fields) (simp add: procs_example_def)
qed

lemma my_id_example: "my_id groups_example = 11"
  by (simp add: my_id_def groups_example_fields procs_example_def)

lemma sessions_by_name:
  "Sess_get_session ''u'' groups_example = 1" "Sess_get_session ''v'' groups_example = 0"
proof -
  have t: "table_ok groups_example" using sess_ok_example by (simp add: sess_ok_def)
  show "Sess_get_session ''u'' groups_example = 1" "Sess_get_session ''v'' groups_example = 0"
    using Sess_get_session_some [OF t, of 1] Sess_get_session_some [OF t, of 0]
    by (simp_all add: groups_example_fields sess_example_fields sess_example_at no_session_def)
qed

lemma local_ok_example: "local_ok groups_example example_group"
proof -
  have "session_of groups_example ''#u#a'' = Some 1"
    by (simp add: session_of_def groups_example_fields sess_example_fields sess_example_at no_session_def private_group_def
        procs_example_def)
  then show ?thesis
    by (simp add: local_ok_def local_members_def my_id_example example_group_def mbox_of_def ses_at_example
        sess_example_at no_session_def)
qed

lemma groups_example_ok: "groups_inv groups_example" "marks groups_example" "room 1 groups_example"
proof -
  have c: "configured procs_example 11" "configured procs_example 12" by (simp_all add: configured_def procs_example_def)
  have "group_wf procs_example example_group"
    using c by (simp add: group_wf_def daemons_wf_def daemon_wf_def example_group_def skl_ok_def conf_index_example member_count_def)
  then show "groups_inv groups_example"
    by (simp add: groups_inv_def sess_ok_example groups_wf_def groups_example_fields skl_ok_def local_ok_example)
  show "marks groups_example"
    by (simp add: marks_def groups_example_fields Is_unknown_memb_id_def marks_group_def example_group_def with_us_def
        Is_partitioned_daemon_def)
  show "room 1 groups_example" by (simp add: room_def groups_example_fields all_members_def example_group_def)
qed

lemma roster_example: "roster groups_example = {(''g'', 11, ''#u#a''), (''g'', 12, ''#x#b'')}"
proof -
  have "group_roster example_group = {(11, ''#u#a''), (12, ''#x#b'')}"
    by (rule set_eqI) (simp only: split_paired_all in_group_roster, auto simp: example_group_def)
  moreover have "grp_name example_group = ''g''" by (simp add: example_group_def)
  ultimately show ?thesis unfolding roster_def groups_example_fields by auto
qed

lemma names_example:
  "G_private_to_names ''#v#a'' = Inr (Some (''v'', ''a''))" "G_private_to_names ''#x#b'' = Inr (Some (''x'', ''b''))"
  "G_private_to_names ''#u#a'' = Inr (Some (''u'', ''a''))"
  by code_simp+

lemma proc_by_name_example:
  "Conf_proc_by_name procs_example ''a'' = Some (0, procs_example ! 0)"
  "Conf_proc_by_name procs_example ''b'' = Some (1, procs_example ! 1)"
  by (simp_all add: Conf_proc_by_name_def procs_example_def Let_def)

subsection \<open>Joins, leaves and disconnects\<close>





text \<open>
  C22: a disconnect takes a process out of all its groups and no other process out of any; the
  handler, which changes groups while it goes over them, returns and keeps the state well-formed.
\<close>

theorem disconnect_removes_the_process:
  assumes "groups_inv s" and "in_op_or_trans s" and "G_private_to_names p = Inr (Some (prv, pn))" and "NUL \<notin> set p"
    and "Conf_proc_by_name (Config_procs s) pn = Some (k, q)" and "room 0 s"
  shows "returns (G_handle_kill p s) (\<lambda>s'. groups_inv s' \<and> surroundings s' = surroundings s
     \<and> (marks s \<longrightarrow> marks s') \<and> roster s' = {x \<in> roster s. snd x \<noteq> (p_id q, p)})"
  by (rule kill_changes [OF assms])

theorem disconnect_removes_the_process_witness:
  "returns (G_handle_kill ''#x#b'' groups_example) (\<lambda>s'. groups_inv s' \<and> roster s' = {(''g'', 11, ''#u#a'')})"
proof -
  have "room 0 groups_example" using groups_example_ok(3) by (auto simp: room_def)
  then have "returns (G_handle_kill ''#x#b'' groups_example) (\<lambda>s'. groups_inv s' \<and> surroundings s' = surroundings groups_example
     \<and> (marks groups_example \<longrightarrow> marks s') \<and> roster s' = {x \<in> roster groups_example. snd x \<noteq> (p_id (procs_example ! 1), ''#x#b'')})"
    by (intro disconnect_removes_the_process [OF groups_example_ok(1) _ names_example(2)])
      (simp_all add: in_op_or_trans_def groups_example_fields proc_by_name_example NUL_def)
  moreover have "p_id (procs_example ! 1) = 12" by (simp add: procs_example_def)
  moreover have "{x \<in> roster groups_example. snd x \<noteq> (12, ''#x#b'')} = {(''g'', 11, ''#u#a'')}"
    unfolding roster_example by auto
  ultimately show ?thesis by (elim returns_mono) (simp only:)
qed

subsection \<open>Every run\<close>

text \<open>
  The states the group layer of a daemon reaches from its start by handling joins, leaves,
  disconnects and memberships that only lose daemons, with telling clients in between. A group has
  room for a join while it has fewer than 2000 members; a local process that joins has a session.
\<close>

inductive groups_reach :: "'a groups_st_scheme \<Rightarrow> bool" where
  start: "groups_reach (G_init s)" if "sess_ok s" and "\<not> Is_unknown_memb_id (G_Reg_memb_id s)"
| join: "groups_reach s'" if "groups_reach s" and "G_handle_join p name s = Inr s'" and "NUL \<notin> set p"
    and "G_private_to_names p = Inr (Some (prv, pn))" and "length name < MAX_GROUP_NAME" and "room 1 s"
    and "\<forall>k q. Conf_proc_by_name (Config_procs s) pn = Some (k, q) \<longrightarrow> p_id q = my_id s \<longrightarrow> Sess_get_session prv s \<noteq> -1"
| leave: "groups_reach s'" if "groups_reach s" and "G_handle_leave p name s = Inr s'" and "NUL \<notin> set p"
    and "G_private_to_names p = Inr (Some (prv, pn))" and "room 0 s"
| disconnect: "groups_reach s'" if "groups_reach s" and "G_handle_kill p s = Inr s'" and "NUL \<notin> set p"
    and "G_private_to_names p = Inr (Some (prv, pn))" and "room 0 s"
| lose: "groups_reach s'" if "groups_reach s" and "Gstate s = GOP" and "G_handle_trans_memb tm ti s = Inr s'"
    and "\<not> Is_unknown_memb_id ti" and "room 0 s"
| settle: "groups_reach s'" if "groups_reach s" and "Gstate s = GTRANS" and "G_handle_reg_memb rm ri s = Inr s'"
    and "\<not> Is_unknown_memb_id ri" and "Conf_num_procs (G_Trans_memb s) = Conf_num_procs rm"
    and "in_trans (my_id s) s" and "room 0 s"
| tell: "groups_reach s'" if "groups_reach s" and "only_io s s'"

lemma handlers_need_agreement:
  "G_handle_join p name s = Inr s' \<Longrightarrow> in_op_or_trans s" "G_handle_leave p name s = Inr s' \<Longrightarrow> in_op_or_trans s"
  "G_handle_kill p s = Inr s' \<Longrightarrow> in_op_or_trans s"
  by (auto simp: G_handle_join_def G_handle_leave_def G_handle_kill_def split: if_splits)

lemma unknown_process:
  assumes "G_private_to_names p = Inr (Some (prv, pn))" and "Conf_proc_by_name (Config_procs s) pn = None"
  shows "G_handle_join p name s = Inr s' \<Longrightarrow> s' = s" "G_handle_leave p name s = Inr s' \<Longrightarrow> s' = s"
    "G_handle_kill p s = Inr s' \<Longrightarrow> s' = s"
  using assms by (auto simp: G_handle_join_def G_handle_leave_def G_handle_kill_def names_of_def split: if_splits)



subsection \<open>Memberships\<close>

text \<open>
  C15: a membership that only loses daemons removes exactly the members on the lost daemons. The
  transitional membership marks them, the regular one (with as many daemons) drops them; both
  handlers return, the groups agree again (\<open>GOP\<close>), and the synced set keeps its remaining daemons.
\<close>

theorem lost_daemons_leave:
  assumes "groups_inv s" and "Gstate s = GOP" and "marks s" and "room n s"
    and "\<not> Is_unknown_memb_id ti" and "\<not> Is_unknown_memb_id ri" and "Conf_num_procs tm = Conf_num_procs rm"
    and "Conf_id_in_conf (Config_procs s) tm (my_id s) \<noteq> -1"
  shows "returns (bindE (G_handle_trans_memb tm ti s) (G_handle_reg_memb rm ri)) (\<lambda>s'.
     groups_inv s' \<and> marks s' \<and> Gstate s' = GOP \<and> G_Reg_memb_id s' = ri
     \<and> MySyncedSet s' = filter (\<lambda>i. Conf_id_in_conf (Config_procs s) tm i \<noteq> -1) (MySyncedSet s)
     \<and> roster s' = {(name, i, p) \<in> roster s. Conf_id_in_conf (Config_procs s) tm i \<noteq> -1})"
proof (rule returns_seq [OF trans_memb_changes [OF assms(1-3,5,4), of tm]])
  fix t
  assume t: "groups_inv t \<and> marks t \<and> room n t \<and> Gstate t = GTRANS \<and> G_Trans_memb t = tm \<and> G_Trans_memb_id t = ti
     \<and> Config_procs t = Config_procs s \<and> my_id t = my_id s
     \<and> MySyncedSet t = filter (\<lambda>i. in_trans i t) (MySyncedSet s) \<and> roster t = roster s"
  have i: "in_trans i t \<longleftrightarrow> Conf_id_in_conf (Config_procs s) tm i \<noteq> -1" for i using t by (simp add: in_trans_def)
  have "returns (G_handle_reg_memb rm ri t) (\<lambda>s'. groups_inv s' \<and> marks s' \<and> room n s' \<and> Gstate s' = GOP
     \<and> G_Reg_memb s' = rm \<and> G_Reg_memb_id s' = ri \<and> Config_procs s' = Config_procs t \<and> my_id s' = my_id t
     \<and> MySyncedSet s' = MySyncedSet t \<and> roster s' = {(name, i, m) \<in> roster t. in_trans i t})"
    using t assms(6-8) i by (intro reg_memb_changes) simp_all
  then show "returns (G_handle_reg_memb rm ri t) (\<lambda>s'.
     groups_inv s' \<and> marks s' \<and> Gstate s' = GOP \<and> G_Reg_memb_id s' = ri
     \<and> MySyncedSet s' = filter (\<lambda>i. Conf_id_in_conf (Config_procs s) tm i \<noteq> -1) (MySyncedSet s)
     \<and> roster s' = {(name, i, p) \<in> roster s. Conf_id_in_conf (Config_procs s) tm i \<noteq> -1})"
    using t i by (auto elim!: returns_mono)
qed

lemma seg_example_members:
  "Conf_id_in_conf procs_example (seg_example [0]) 11 = 0" "Conf_id_in_conf procs_example (seg_example [0]) 12 = -1"
  "Conf_num_procs (seg_example [0]) = 1"
  by (simp_all add: Conf_id_in_conf_def Conf_id_in_seg_def seg_example_def has_ip_def procs_example_def Conf_num_procs_def)

theorem lost_daemons_leave_witness:
  "returns (bindE (G_handle_trans_memb (seg_example [0]) \<lparr>mid_proc_id = 11, mid_time = 6\<rparr> groups_example)
     (G_handle_reg_memb (seg_example [0]) \<lparr>mid_proc_id = 11, mid_time = 7\<rparr>))
     (\<lambda>s'. Gstate s' = GOP \<and> MySyncedSet s' = [11] \<and> roster s' = {(''g'', 11, ''#u#a'')})"
proof -
  have u: "\<not> Is_unknown_memb_id \<lparr>mid_proc_id = 11, mid_time = t\<rparr>" for t by (simp add: Is_unknown_memb_id_def)
  have "Conf_id_in_conf (Config_procs groups_example) (seg_example [0]) (my_id groups_example) \<noteq> -1"
    by (simp add: groups_example_fields my_id_example seg_example_members)
  note L = lost_daemons_leave [OF groups_example_ok(1) groups_example_fields(8) groups_example_ok(2,3) u u refl this]
  have "{(name, i, p) \<in> roster groups_example. Conf_id_in_conf procs_example (seg_example [0]) i \<noteq> -1} = {(''g'', 11, ''#u#a'')}"
    unfolding roster_example using seg_example_members by auto
  note e = this
  have f: "filter (\<lambda>i. Conf_id_in_conf procs_example (seg_example [0]) i \<noteq> -1) (MySyncedSet groups_example) = [11]"
    by (simp add: groups_example_fields seg_example_members)
  from L [unfolded groups_example_fields(6) e f] show ?thesis by (rule returns_mono) simp
qed

subsection \<open>The exchange of groups\<close>

text \<open>
  C17: groups messages say exactly what the sender's groups are. The buffers built from a list of
  groups, whose names and members fit their fields and whose daemons have at most 3000 members
  each, are finitely many; a reader of either byte order gets the synced set from the first and
  none from the others, and from all of them together, daemon by daemon, every group's name, id,
  changed flag and members, however groups were split over buffers.
\<close>

theorem groups_messages_read_back:
  assumes "writable_groups s"
  shows "returns (build_bufs (Suc (to_write (GroupsList s) (first_daemons (GroupsList s)))) f True
      (GroupsList s) (first_daemons (GroupsList s)) s) (\<lambda>bufs. \<exists>gis giss.
     map (read_groups_data f) bufs = Inr (Some (MySyncedSet s), gis) # map (\<lambda>x. Inr (None, x)) giss
     \<and> concat (map info_entries (gis @ concat giss))
       = concat (map (\<lambda>g. entries g (grp_daemons g)) (GroupsList s)))"
  by (rule new_bufs_read [OF assms])

lemma groups_example_writable: "writable_groups groups_example"
  by (simp add: writable_groups_def groups_example_fields group_fits_def example_group_def Bytes.fits_def NUL_def
      group_id32_def memb_id32_def is_int32_def daemon_fits_def daemon_small_def)

theorem groups_messages_read_back_witness:
  "returns (build_bufs 4 True True [example_group] (grp_daemons example_group) groups_example) (\<lambda>bufs. \<exists>gis giss.
     map (read_groups_data True) bufs = Inr (Some [11, 12], gis) # map (\<lambda>x. Inr (None, x)) giss
     \<and> concat (map info_entries (gis @ concat giss)) = entries example_group (grp_daemons example_group))"
proof -
  have n: "Suc (to_write (GroupsList groups_example) (first_daemons (GroupsList groups_example))) = 4"
    and f: "first_daemons (GroupsList groups_example) = grp_daemons example_group"
    and c: "concat (map (\<lambda>g. entries g (grp_daemons g)) (GroupsList groups_example)) = entries example_group (grp_daemons example_group)"
    by (simp_all add: to_write_def first_daemons_def groups_example_fields) (simp add: example_group_def)
  from groups_messages_read_back [OF groups_example_writable, of True]
  show ?thesis unfolding n c unfolding f unfolding groups_example_fields .
qed

text \<open>
  C5: when the last groups message is in, all daemons' groups are merged. If the messages gathered
  from the other synced sets say \<open>ls\<close>, about other daemons than those this daemon has groups of,
  handling the last one returns with the roster it had and all that the messages name, nothing
  else; the synced sets are merged in configuration order, changed groups are announced, and the
  state is well-formed and well-marked in \<open>GOP\<close> again.
\<close>

theorem gathering_merges_rosters:
  assumes "Gstate s = GGATHER" and "groups_inv s" and "\<forall>g \<in> set (GroupsList s). all_known g"
    and "\<not> Is_unknown_memb_id (G_Reg_memb_id s)" and "gathered_ok ls s"
  shows "returns (finish_gathering s) (\<lambda>s'. groups_inv s' \<and> marks s' \<and> Gstate s' = GOP \<and> Gathered s' = []
     \<and> roster s' = roster s \<union> entry_roster (infos_entries (all_infos ls))
     \<and> mset (MySyncedSet s') = mset (MySyncedSet s @ concat (map fst ls)) \<and> conf_sorted (Config_procs s) (MySyncedSet s'))"
  by (rule returns_mono [OF gathering_ends [OF assms]]) simp

definition info_example :: group_info where
  "info_example = \<lparr>gi_name = ''g'', gi_id = \<lparr>gid_memb_id = \<lparr>mid_proc_id = 13, mid_time = 5\<rparr>, gid_index = 1\<rparr>,
     gi_changed = True, gi_daemons = [\<lparr>dm_proc_id = 13, dm_memb_id = \<lparr>mid_proc_id = 13, mid_time = 5\<rparr>, dm_members = [''#y#c'']\<rparr>]\<rparr>"

definition message_example :: message_obj where
  "message_example = Message_new_message\<lparr>mo_head := \<lparr>mh_type = Set_endian GROUPS_MESS, mh_private_group_name = name_array ''c'',
       mh_num_groups = 0, mh_hint = 0, mh_data_len = 0\<rparr>,
     mo_data := [groups_preamble False True \<lparr>mid_proc_id = 11, mid_time = 5\<rparr> [13] @ concat (map (put_group_info False) [info_example])]\<rparr>"

definition gathering_example :: groups_st where
  "gathering_example = groups_example\<lparr>Gstate := GGATHER,
     Gathered := [\<lparr>gm_rep_proc_id = 13, gm_complete = True, gm_messages = [message_example]\<rparr>]\<rparr>"

lemma gathering_example_fields:
  "same_sessions groups_example gathering_example" "GroupsList gathering_example = [example_group]"
  "Num_groups gathering_example = 1" "Config_procs gathering_example = procs_example" "MySyncedSet gathering_example = [11, 12]"
  "G_Reg_memb_id gathering_example = \<lparr>mid_proc_id = 11, mid_time = 5\<rparr>" "Gstate gathering_example = GGATHER"
  "my_id gathering_example = 11" "roster gathering_example = roster groups_example"
  by (simp_all add: gathering_example_def same_sessions_def groups_example_fields my_id_def roster_def
      my_id_example [unfolded my_id_def groups_example_fields])

lemma info_example_fits: "info_fits info_example"
  by (simp add: info_fits_def info_example_def Bytes.fits_def NUL_def group_id32_def memb_id32_def is_int32_def daemon_fits_def)

lemma message_example_reads: "message_reads message_example = Inr (Some [13], [info_example])"
proof -
  have "length (concat (elements message_example)) \<le> 100000"
    by (simp add: elements_def message_example_def head_bytes_def Message_new_message_def groups_preamble_def
        put_group_info_def info_example_def put_group_id_def daemon_entry_def)
  moreover have "concat (mo_data message_example) = groups_preamble False True \<lparr>mid_proc_id = 11, mid_time = 5\<rparr> [13]
      @ concat (map (put_group_info False) [info_example])"
    by (simp add: message_example_def Message_new_message_def)
  moreover have "Same_endian (mh_type (mo_head message_example))"
    by (simp add: message_example_def Message_new_message_def)
  ultimately show ?thesis
    using read_first [of "[info_example]" "[13]" False True] info_example_fits by (simp add: message_reads_def del: list.map)
qed

lemma gathering_example_ok: "gathered_ok [([13], [info_example])] gathering_example"
proof -
  have e: "info_entries info_example = [\<lparr>en_name = ''g'', en_id = gi_id info_example, en_changed = True,
      en_daemon = \<lparr>dm_proc_id = 13, dm_memb_id = \<lparr>mid_proc_id = 13, mid_time = 5\<rparr>, dm_members = [''#y#c'']\<rparr>\<rparr>]"
    by (simp add: info_entries_def info_example_def)
  have "says \<lparr>gm_rep_proc_id = 13, gm_complete = True, gm_messages = [message_example]\<rparr> ([13], [info_example])"
    unfolding says_def by (rule exI [of _ "[(Some [13], [info_example])]"]) (simp add: message_example_reads map_filter_simps)
  then have "list_all2 says (Gathered gathering_example) [([13], [info_example])]" by (simp add: gathering_example_def)
  moreover have "configured procs_example 11" "configured procs_example 12" "configured procs_example 13"
    by (simp_all add: configured_def procs_example_def)
  moreover have "load n gathering_example + k \<le> 2000 \<longleftrightarrow> (if n = ''g'' then k \<le> 1998 else k \<le> 2000)" for n k
    by (simp add: load_def G_get_group_def gathering_example_fields all_members_def example_group_def)
  ultimately show ?thesis
    unfolding gathered_ok_def all_infos_def news_def
    by (simp add: e gathering_example_fields roster_example daemon_wf_def skl_ok_def Is_established_daemon_def
        Is_unknown_memb_id_def infos_known_def conf_sorted_def conf_index_example entry_load_def)
      (simp add: info_example_def)
qed

theorem gathering_merges_rosters_witness:
  "returns (finish_gathering gathering_example) (\<lambda>s'. Gstate s' = GOP \<and> set (MySyncedSet s') = {11, 12, 13}
     \<and> roster s' = {(''g'', 11, ''#u#a''), (''g'', 12, ''#x#b''), (''g'', 13, ''#y#c'')})"
proof -
  have inv: "groups_inv gathering_example"
    using groups_example_ok(1) same_sessions_cong [OF gathering_example_fields(1)]
    by (simp add: groups_inv_def groups_wf_def gathering_example_fields groups_example_fields)
  have k: "\<forall>g \<in> set (GroupsList gathering_example). all_known g" "\<not> Is_unknown_memb_id (G_Reg_memb_id gathering_example)"
    by (simp_all add: gathering_example_fields all_known_def example_group_def Is_established_daemon_def Is_unknown_memb_id_def)
  have "entry_roster (infos_entries (all_infos [([13], [info_example])])) = {(''g'', 13, ''#y#c'')}"
    by (simp add: all_infos_def entry_roster_info) (simp add: info_example_def)
  then have r: "roster gathering_example \<union> entry_roster (infos_entries (all_infos [([13], [info_example])]))
      = {(''g'', 11, ''#u#a''), (''g'', 12, ''#x#b''), (''g'', 13, ''#y#c'')}"
    by (simp add: gathering_example_fields roster_example insert_commute)
  have "set ps = {11, 12, 13}" if "mset ps = mset (MySyncedSet gathering_example @ concat (map fst [([13], [info_example])]))" for ps
    using mset_eq_setD [OF that] by (auto simp: gathering_example_fields)
  then show ?thesis
    using gathering_merges_rosters [OF gathering_example_fields(7) inv k gathering_example_ok, unfolded r]
    by (elim returns_mono) simp
qed

end
