(* ===== verification/Session_Properties.thy ===== *)
theory Session_Properties
  imports Session_Admission Session_Reading Group_Properties
begin

section \<open>What the sessions guarantee\<close>

text \<open>
  The properties of the session layer, each applied to one example: this daemon (\<open>a\<close>) has the
  sessions \<open>u\<close> and \<open>v\<close> and a third connection, \<open>w\<close>, in the slot of the connection that is being
  accepted. \<open>NULL\<close> and \<open>PWORD\<close> are the methods of authentication, and \<open>PWORD\<close> is required.
\<close>

subsection \<open>The example\<close>

definition acm_example :: acm where
  "acm_example = \<lparr>Auth_Methods = [\<lparr>ai_name = ''NULL'', ai_enabled = True, ai_required = False, ai_ops = Null_ops\<rparr>,
       \<lparr>ai_name = ''PWORD'', ai_enabled = True, ai_required = True, ai_ops = Pword_ops\<rparr>],
     ACP_Methods = [\<lparr>ap_name = ''PERMIT'', ap_ops = Permit_ops\<rparr>], AccessControlPolicy = 0,
     Allow_Rules = [(0x0a000000, 8), (0xc0a80100, 24)], IP_File_Loaded = True,
     Users = [(''joe'', ''absecret.....'')], crypt = (\<lambda>pw salt. salt @ take 11 (pw @ ''...........''))\<rparr>"

definition with_sockets :: "(nat \<Rightarrow> nat \<Rightarrow> recv_result) \<Rightarrow> groups_st \<Rightarrow> client_st" where
  "with_sockets r s = groups_st.extend s
     (client_st.fields r 0 [] [3] 4 acm_example (\<lambda>_. None) [])"

lemma with_sockets_fields:
  "Sessions (with_sockets r s) = Sessions s" "Sess_order (with_sockets r s) = Sess_order s"
  "Sess_free (with_sockets r s) = Sess_free s" "Sess_hash (with_sockets r s) = Sess_hash s"
  "Num_sessions (with_sockets r s) = Num_sessions s" "My (with_sockets r s) = My s"
  "recv_ret (with_sockets r s) = r" "recv_calls (with_sockets r s) = 0" "sess_in (with_sockets r s) = []"
  "Acm (with_sockets r s) = acm_example" "Pending_auth (with_sockets r s) = (\<lambda>_. None)"
  "send_ret (with_sockets r s) = send_ret s" "GroupsList (with_sockets r s) = GroupsList s"
  by (simp_all add: with_sockets_def groups_st.defs client_st.defs)

lemma with_sockets_table: "table_ok s \<Longrightarrow> table_ok (with_sockets r s)"
proof -
  have "chain_of (with_sockets r s) h = chain_of s h" for h by (simp add: chain_of_def with_sockets_fields)
  then show "table_ok s \<Longrightarrow> table_ok (with_sockets r s)" by (simp add: table_ok_def with_sockets_fields)
qed

lemma example_table: "table_ok (with_sockets r groups_example)"
  using sess_ok_example by (simp add: with_sockets_table sess_ok_def)

text \<open>The session \<open>u\<close>, in slot 1, with its state changed.\<close>

definition client_example :: "(nat \<Rightarrow> nat \<Rightarrow> recv_result) \<Rightarrow> (session \<Rightarrow> session) \<Rightarrow> client_st" where
  "client_example r f = upd_ses 1 f (with_sockets r groups_example)"

lemma client_example_at: "ses_at (client_example r f) i = (if i = 1 then f (ses_at sess_example 1) else ses_at sess_example i)"
  by (auto simp: client_example_def upd_ses_def with_sockets_fields groups_example_fields sess_example_fields MAX_SESSIONS_def)

lemma client_example_fields:
  "Acm (client_example r f) = acm_example" "Pending_auth (client_example r f) = (\<lambda>_. None)" "recv_ret (client_example r f) = r"
  "recv_calls (client_example r f) = 0" "sess_in (client_example r f) = []" "My (client_example r f) = procs_example ! 0"
  "length (Sessions (client_example r f)) = MAX_SESSIONS + 1" "Sess_order (client_example r f) = [1, 0]"
  "Sess_hash (client_example r f) h = (if h = 7 then [0] else if h = 8 then [1] else [])"
  by (simp_all add: client_example_def upd_ses_def with_sockets_fields groups_example_fields sess_example_fields)

lemma client_example_table:
  assumes "\<And>e. table_entry (f e) = table_entry e"
  shows "table_ok (client_example r f)"
  unfolding client_example_def by (rule keeps_table_ok [OF keeps_upd_ses [OF keeps_refl assms] example_table])

lemma client_example_index:
  assumes "\<And>e. ses_mbox (f e) = ses_mbox e"
  shows "Sess_get_session_index 8 (client_example r f) = int 1"
  by (simp add: Sess_get_session_index_def client_example_fields mbox_hash_small client_example_at assms sess_example_at no_session_def)

definition in_preauth :: "session \<Rightarrow> session" where
  "in_preauth e = e\<lparr>ses_status := PRE_AUTH_SESSION, ses_acp_ops := Some Permit_ops\<rparr>"

lemma in_preauth_entry: "table_entry (in_preauth e) = table_entry e" "ses_mbox (in_preauth e) = ses_mbox e"
  "\<not> Is_op_session (ses_status (in_preauth e))"
  by (simp_all add: in_preauth_def table_entry_def Is_op_session_def OP_SESSION_def PRE_AUTH_SESSION_def)

subsection \<open>Admission\<close>


definition asks :: session_auth where
  "asks = \<lparr>sa_mbox = 8, sa_methods = [0, 1], sa_results = [True]\<rparr>"

definition typed :: "string \<Rightarrow> nat \<Rightarrow> 8 word list" where
  "typed w n = map of_char w @ replicate (n - length w) 0"

definition joe_answers :: "nat \<Rightarrow> nat \<Rightarrow> recv_result" where
  "joe_answers n len = Got (if n = 0 then typed ''joe'' len else typed ''secret'' len)"

definition joe :: client_st where
  "joe = (client_example joe_answers in_preauth)\<lparr>Pending_auth := (\<lambda>_. None)(8 := Some asks)\<rparr>"

lemma joe_ok: "table_ok joe" "pending_ok joe" "Sess_get_session_index 8 joe = int 1" "\<not> operational 1 joe"
proof -
  show "table_ok joe"
    unfolding joe_def by (rule keeps_table_ok [OF keeps_fields(1) [OF keeps_refl] client_example_table]) (rule in_preauth_entry)
  show "pending_ok joe"
    by (auto simp: pending_ok_def joe_def client_example_fields acm_example_def covers_def asks_def less_Suc_eq)
  show "Sess_get_session_index 8 joe = int 1"
    using client_example_index [of in_preauth joe_answers]
    by (simp add: joe_def Sess_get_session_index_def in_preauth_entry)
  show "\<not> operational 1 joe"
    by (simp add: operational_def joe_def client_example_at in_preauth_entry del: One_nat_def)
qed

lemma joe_types: "cstr (chars_of (typed ''joe'' 32)) = ''joe''" "cstr (chars_of (typed ''secret'' 8)) = ''secret''"
  by code_simp+

lemma joe_passes: "check_password ''joe'' ''secret'' acm_example = Inr True"
  by (simp add: check_password_def lookup_user_def acm_example_def strn_eq_def MAX_PWORD_CRYPTPASSWORD_def bindE_def)

lemma authorized_operational:
  assumes "Is_preauth_session (ses_status (ses_at s i))" and "i < length (Sessions s)"
  shows "returns (Sess_session_authorized i s) (operational i)"
proof -
  have b: "bit OP_SESSION 4" "\<not> bit PRE_AUTH_SESSION 4" by (simp_all add: OP_SESSION_def PRE_AUTH_SESSION_def)
  have "Is_op_session ((st OR OP_SESSION) AND NOT PRE_AUTH_SESSION)" for st
  proof -
    have "bit ((st OR OP_SESSION) AND NOT PRE_AUTH_SESSION AND OP_SESSION) 4" using b by (simp add: bit_simps)
    then show ?thesis by (auto simp: Is_op_session_def ac_simps)
  qed
  then show ?thesis
    using assms unfolding Sess_session_authorized_def Let_def
    by (subst foldl_send_fields) (simp add: operational_def out_def upd_ses_def)
qed

lemma joe_settles:
  assumes "Sessions s = Sessions joe" and "Sess_hash s = Sess_hash joe"
  shows "returns (Sess_session_report_auth_result asks True s) (operational 1)"
proof -
  have a: "Is_preauth_session (ses_status (ses_at s 1))" "1 < length (Sessions s)" "ses_acp_ops (ses_at s 1) = Some Permit_ops"
    using assms(1) by (simp_all add: joe_def client_example_at client_example_fields MAX_SESSIONS_def in_preauth_def
        Is_preauth_session_def PRE_AUTH_SESSION_def del: One_nat_def)
  have "Sess_get_session_index 8 s = int 1"
    using joe_ok(3) assms by (simp add: Sess_get_session_index_def)
  then have "Sess_session_report_auth_result asks True s = settle_auth 1 (asks\<lparr>sa_results := [True, True]\<rparr>) s"
    by (subst report_opens_next [of _ _ 1]) (simp_all add: asks_def MAX_SESSIONS_def Let_def)
  also have "\<dots> = Sess_session_authorized 1 s"
    using a by (simp add: settle_auth_def asks_def Permit_ops_def permit_open_connection_def)
  finally show ?thesis using authorized_operational [OF a(1,2)] by simp
qed

lemma joe_gets_in: "returns (auth_client_conn_read 8 asks joe) (operational 1)"
proof -
  have l: "length (typed ''joe'' 32) = 32" "length (typed ''secret'' 8) = 8" by (simp_all add: typed_def)
  show ?thesis
    unfolding auth_client_conn_read_def sock_recv_def Let_def MAX_PWORD_USERNAME_def MAX_PWORD_PASSWORD_def
    by (simp add: joe_def out_def client_example_fields joe_answers_def l joe_types joe_passes)
      (intro joe_settles [unfolded One_nat_def]; simp add: joe_def respond_def sock_send_def out_def Let_def)
qed


subsection \<open>Connecting\<close>

text \<open>
  C19: a connection enters one session with a name of its own. Whatever the client sends as its
  version, flags and name, accepting it keeps the order of the table, its hash chains and its free
  list, and adds at most one session; the name of that session is legal, is found under no other
  session, and splits back out of the private group the daemon makes of it.
\<close>

theorem connection_enters_the_table:
  assumes "table_ok s" and "list_all legal_name_char (p_name (My s))" and "p_name (My s) \<noteq> []"
    and "length (p_name (My s)) < MAX_PROC_NAME"
  shows "lands (Sess_accept_continue s) (\<lambda>s'. table_ok s' \<and> (\<exists>i. set (Sess_order s') \<subseteq> insert i (set (Sess_order s)))
     \<and> (\<forall>i \<in> set (Sess_order s') - set (Sess_order s). let n = ses_name (ses_at s' i) in
          good_name n \<and> Sess_get_session n s' = int i
          \<and> G_private_to_names (private_group n s') = Inr (Some (n, p_name (My s)))))"
proof (rule lands_mono [OF accept_continue_grows [OF assms(1)]])
  fix s' assume g: "grows s s'"
  then have t: "table_ok s'" "My s' = My s" by (simp_all add: grows_def)
  have "Sess_get_session (ses_name (ses_at s' i)) s' = int i"
    "G_private_to_names (private_group (ses_name (ses_at s' i)) s') = Inr (Some (ses_name (ses_at s' i), p_name (My s)))"
    if "i \<in> set (Sess_order s')" "good_name (ses_name (ses_at s' i))" for i
    using Sess_get_session_some [OF t(1) that(1)] private_group_splits [OF that(2), of s'] assms(2-4) t(2) by auto
  then show "table_ok s' \<and> (\<exists>i. set (Sess_order s') \<subseteq> insert i (set (Sess_order s)))
     \<and> (\<forall>i \<in> set (Sess_order s') - set (Sess_order s). let n = ses_name (ses_at s' i) in
          good_name n \<and> Sess_get_session n s' = int i
          \<and> G_private_to_names (private_group n s') = Inr (Some (n, p_name (My s))))"
    using g unfolding grows_def Let_def by blast
qed

text \<open>A client of version 4.0.0 that names itself \<open>w\<close>.\<close>

definition newcomer_says :: "nat \<Rightarrow> nat \<Rightarrow> recv_result" where
  "newcomer_says n len = Got (if n = 0 then [4, 0] else if n = 1 then [0] else if n = 2 then [1, 1] else map of_char ''w'')"

definition newcomer :: client_st where "newcomer = client_example newcomer_says id"

lemma newcomer_ok: "table_ok newcomer" "list_all legal_name_char (p_name (My newcomer))" "p_name (My newcomer) = ''a''"
  using client_example_table [of id newcomer_says]
  by (simp_all add: newcomer_def client_example_fields procs_example_def legal_name_char_def)

theorem connection_enters_the_table_witness:
  "lands (Sess_accept_continue newcomer) (\<lambda>s'. table_ok s' \<and> (\<forall>i \<in> set (Sess_order s') - {0, 1}. let n = ses_name (ses_at s' i) in
     Sess_get_session n s' = int i \<and> G_private_to_names (private_group n s') = Inr (Some (n, ''a''))))"
proof -
  have o: "set (Sess_order newcomer) = {0, 1}" by (auto simp: newcomer_def client_example_fields)
  have "length (p_name (My newcomer)) < MAX_PROC_NAME" "p_name (My newcomer) \<noteq> []"
    by (simp_all add: newcomer_ok(3) MAX_PROC_NAME_def)
  from connection_enters_the_table [OF newcomer_ok(1,2) this(2,1)] show ?thesis
    unfolding o newcomer_ok(3) by (rule lands_mono) (auto simp: Let_def)
qed

subsection \<open>Reading messages\<close>


definition starting :: "session \<Rightarrow> session" where
  "starting e = e\<lparr>ses_read := Message_reset_current_location\<lparr>in_mess_head := True\<rparr>, read_mess := None\<rparr>"

lemma starting_entry: "ses_mbox (starting e) = ses_mbox e" "ses_name (starting e) = ses_name e"
  by (simp_all add: starting_def)

lemma starting_reads: "reading 1 [] (client_example r starting)"
  by (rule reading_idle) (simp_all add: client_example_at starting_def del: One_nat_def)


text \<open>
  C35: some messages that pass every check stop the daemon. The validation of a header admits bodies
  up to \<open>MAX_MESSAGE_BODY_LEN\<close>, which is more than the elements of a message hold: a client that
  is connected and sends such a message, each of its pieces at once, makes the daemon exit at an
  assertion of \<open>Message_add_scat_element\<close>.
\<close>

theorem oversized_message_stops:
  assumes "Sess_get_session_index mbox s = int i" and "i < MAX_SESSIONS" and "i < length (Sessions s)"
    and "generous s" and "ses_read (ses_at s i) = Message_reset_current_location\<lparr>in_mess_head := True\<rparr>"
    and "read_mess (ses_at s i) = None" and "recv_ret s (recv_calls s) sizeof_message_header = Got bs"
    and "accepted i bs s h"
    and "int (MAX_SCATTER_ELEMENTS * sizeof_packet_body) < int sizeof_message_header + body_len h"
  shows "Sess_read mbox s = Inl (Assert_fail ''Message_add_scat_element'')"
  by (rule oversized_stops [OF assms])

definition large_header :: message_header where
  "large_header = \<lparr>mh_type = Set_endian AGREED_MESS, mh_private_group_name = name_array ''#u#a'', mh_num_groups = 1,
     mh_hint = 0, mh_data_len = 143553\<rparr>"

definition large_message :: "nat \<Rightarrow> nat \<Rightarrow> recv_result" where
  "large_message n len = Got (if n = 0 \<and> len = sizeof_message_header then head_bytes large_header else replicate len 0)"

lemma large_read:
  "length (head_bytes large_header) = sizeof_message_header"
  "correct_header (header_of (head_bytes large_header)) = large_header"
  "legal_type (mh_type large_header) = Inr True" "terminate_sender large_header = large_header"
  "G_private_to_names (sender_of large_header) = Inr (Some (''u'', ''a''))"
  by code_simp+

lemma large_fits: "legal_sizes large_header" "body_len large_header = 143585"
  by (simp_all add: legal_sizes_def body_len_def large_header_def MAX_GROUPS_PER_MESSAGE_def MAX_MESSAGE_BODY_LEN_def mess_sizes
      MAX_GROUP_NAME_def MAX_PACKET_SIZE_def)

theorem oversized_message_stops_witness:
  "Sess_read 8 (client_example large_message starting) = Inl (Assert_fail ''Message_add_scat_element'')"
proof -
  let ?s = "client_example large_message starting"
  have ix: "Sess_get_session_index 8 ?s = int 1" by (rule client_example_index) (rule starting_entry)
  have l: "(1::nat) < MAX_SESSIONS" "1 < length (Sessions ?s)" by (simp_all add: MAX_SESSIONS_def client_example_fields)
  have "generous ?s" using large_read(1) by (auto simp: generous_def client_example_fields large_message_def)
  moreover have "accepted 1 (head_bytes large_header) ?s large_header"
    by (simp add: accepted_def large_read large_fits Sess_validate_read_header_def bindE_def legal_sender_def client_example_fields
        client_example_at starting_entry procs_example_def sess_example_at no_session_def strn_eq_def cstr_def NUL_def
        MAX_PROC_NAME_def MAX_PRIVATE_NAME_def)
  moreover note large_fits(2)
  ultimately show ?thesis
    by (intro oversized_message_stops [OF ix l, of "head_bytes large_header" large_header])
      (simp_all add: client_example_at client_example_fields starting_def large_message_def mess_sizes del: One_nat_def)
qed

subsection \<open>Three methods\<close>

text \<open>
  a client that names three methods makes the daemon read past the names. When all three are
  allowed, the loop over the names compares whatever lies behind the array in memory.
\<close>

theorem three_names_overrun:
  assumes "\<forall>i < 3. buf ! (30 * i) \<noteq> NUL \<and> Acm_auth_query_allowed (take 30 (drop (30 * i) buf)) a"
    and "length buf = 90"
  shows "all_allowed MAX_AUTH_METHODS buf a = Inl (Undefined ''Sess_recv_client_auth'')"
  by (rule full_array_undefined [OF assms])

theorem three_names_overrun_witness:
  "all_allowed MAX_AUTH_METHODS (concat (replicate 3 (''NULL'' @ replicate 26 NUL))) acm_example
   = Inl (Undefined ''Sess_recv_client_auth'')"
  by (rule three_names_overrun) code_simp+

end
