(* ===== verification/Client_Library.thy ===== *)
theory Client_Library
  imports Session_Read
begin

section \<open>The client library: sessions, sending and receiving\<close>

text \<open>
  Model of \<open>libspread/sp.c\<close> for one thread: the mutexes are not modelled, and a session does not
  disappear while a call uses it. What the sockets will do is a script of events that the calls
  use up. A \<open>Chunk\<close> is data that has arrived (an empty one: the connection was closed); \<open>recv\<close>
  takes at most the bytes asked for and leaves the rest of the chunk. \<open>Recv_again\<close> is a call that
  was interrupted or would have blocked, which the code repeats. A script that is used up blocks
  for ever. What a call that fails has written into the caller's buffers is not modelled.
\<close>

subsection \<open>Sockets\<close>

datatype recv_event = Chunk "8 word list" | Recv_again | Recv_error
datatype send_event = Sent nat | Send_again | Send_error

record sockets =
  recv_events :: "recv_event list"
  send_events :: "send_event list"
  stream_out :: "(int \<times> 8 word list) list"
  closed_mboxes :: "int list"

text \<open>The result of \<open>recv\<close>: \<open>None\<close> for an error; no bytes when the connection was closed.\<close>

fun sp_recv :: "nat \<Rightarrow> recv_event list \<Rightarrow> (8 word list option \<times> recv_event list) outcome" where
  "sp_recv 0 es = Inr (Some [], es)"
| "sp_recv (Suc n) [] = Inl (Hang ''recv'')"
| "sp_recv (Suc n) (Recv_again # es) = sp_recv (Suc n) es"
| "sp_recv (Suc n) (Recv_error # es) = Inr (None, es)"
| "sp_recv (Suc n) (Chunk bs # es) =
     Inr (Some (take (Suc n) bs), if length bs \<le> Suc n then es else Chunk (drop (Suc n) bs) # es)"

text \<open>The loop that reads \<open>n\<close> bytes; \<open>None\<close>: it failed.\<close>

function recv_all :: "nat \<Rightarrow> recv_event list \<Rightarrow> (8 word list option \<times> recv_event list) outcome" where
  "recv_all n es =
     (if n = 0 then Inr (Some [], es)
      else case sp_recv n es of
             Inl e \<Rightarrow> Inl e
           | Inr (None, es') \<Rightarrow> Inr (None, es')
           | Inr (Some bs, es') \<Rightarrow>
               if bs = [] then Inr (None, es')
               else (case recv_all (n - length bs) es' of
                       Inl e \<Rightarrow> Inl e
                     | Inr (None, es'') \<Rightarrow> Inr (None, es'')
                     | Inr (Some cs, es'') \<Rightarrow> Inr (Some (bs @ cs), es'')))"
  by pat_completeness auto
termination by (relation "measure fst") auto

declare recv_all.simps [simp del]

text \<open>The loop that reads bytes nobody wants, into \<open>dummy_buf\<close>.\<close>

definition sizeof_dummy_buf :: nat where "sizeof_dummy_buf = 10240"

function recv_dummy :: "nat \<Rightarrow> recv_event list \<Rightarrow> (bool \<times> recv_event list) outcome" where
  "recv_dummy n es =
     (if n = 0 then Inr (True, es)
      else case sp_recv (min n sizeof_dummy_buf) es of
             Inl e \<Rightarrow> Inl e
           | Inr (None, es') \<Rightarrow> Inr (False, es')
           | Inr (Some bs, es') \<Rightarrow> if bs = [] then Inr (False, es') else recv_dummy (n - length bs) es')"
  by pat_completeness auto
termination by (relation "measure fst") auto

declare recv_dummy.simps [simp del]

text \<open>
  The loop that sends bytes. A \<open>send\<close> that takes nothing fails the sending of the header and groups
  (\<open>strict\<close>); in the sending of the data it is repeated.
\<close>

fun sp_send_all :: "bool \<Rightarrow> 8 word list \<Rightarrow> send_event list \<Rightarrow> (bool \<times> 8 word list \<times> send_event list) outcome" where
  "sp_send_all strict bs es =
     (if bs = [] then Inr (True, [], es)
      else case es of
             [] \<Rightarrow> Inl (Hang ''send'')
           | Send_again # es' \<Rightarrow> sp_send_all strict bs es'
           | Send_error # es' \<Rightarrow> Inr (False, [], es')
           | Sent k # es' \<Rightarrow>
               if k = 0 \<and> strict then Inr (False, [], es')
               else bindE (sp_send_all strict (drop k bs) es') (\<lambda>(ok, cs, es''). Inr (ok, take k bs @ cs, es'')))"

declare sp_send_all.simps [simp del]

definition sock_send_all :: "bool \<Rightarrow> int \<Rightarrow> 8 word list \<Rightarrow> sockets \<Rightarrow> (bool \<times> sockets) outcome" where
  "sock_send_all strict mbox bs k =
     bindE (sp_send_all strict bs (send_events k)) (\<lambda>(ok, cs, es).
       Inr (ok, k\<lparr>send_events := es, stream_out := stream_out k @ [(mbox, cs)]\<rparr>))"

definition sock_recv_all :: "nat \<Rightarrow> sockets \<Rightarrow> (8 word list option \<times> sockets) outcome" where
  "sock_recv_all n k = bindE (recv_all n (recv_events k)) (\<lambda>(r, es). Inr (r, k\<lparr>recv_events := es\<rparr>))"

definition sock_recv_dummy :: "nat \<Rightarrow> sockets \<Rightarrow> (bool \<times> sockets) outcome" where
  "sock_recv_dummy n k = bindE (recv_dummy n (recv_events k)) (\<lambda>(ok, es). Inr (ok, k\<lparr>recv_events := es\<rparr>))"

subsection \<open>The sessions of the library\<close>

definition ILLEGAL_SPREAD :: int where "ILLEGAL_SPREAD = -1"
definition COULD_NOT_CONNECT :: int where "COULD_NOT_CONNECT = -2"
definition CONNECTION_CLOSED :: int where "CONNECTION_CLOSED = -8"
definition ILLEGAL_SESSION :: int where "ILLEGAL_SESSION = -11"
definition ILLEGAL_SERVICE :: int where "ILLEGAL_SERVICE = -12"
definition ILLEGAL_MESSAGE :: int where "ILLEGAL_MESSAGE = -13"
definition ILLEGAL_GROUP :: int where "ILLEGAL_GROUP = -14"
definition BUFFER_TOO_SHORT :: int where "BUFFER_TOO_SHORT = -15"
definition GROUPS_TOO_SHORT :: int where "GROUPS_TOO_SHORT = -16"
definition MESSAGE_TOO_LONG :: int where "MESSAGE_TOO_LONG = -17"
definition NET_ERROR_ON_SESSION :: int where "NET_ERROR_ON_SESSION = -18"

definition DROP_RECV :: "32 word" where "DROP_RECV = 0x01000000"
definition Is_drop_recv :: "32 word \<Rightarrow> bool" where "Is_drop_recv t \<longleftrightarrow> t AND DROP_RECV \<noteq> 0"
definition Is_regular_mess :: "32 word \<Rightarrow> bool" where "Is_regular_mess t \<longleftrightarrow> t AND REGULAR_MESS \<noteq> 0"
definition Is_reg_memb_mess :: "32 word \<Rightarrow> bool" where "Is_reg_memb_mess t \<longleftrightarrow> t AND REG_MEMB_MESS \<noteq> 0"
definition Clear_endian :: "32 word \<Rightarrow> 32 word" where "Clear_endian t = t AND NOT ENDIAN_TYPE"

datatype sp_sess_state = SESS_UNUSED | SESS_ACTIVE | SESS_ERROR

record sp_session =
  sp_mbox :: int
  sp_state :: sp_sess_state
  sp_private_group_name :: string
  recv_saved_head :: message_header
  recv_message_saved :: bool

text \<open>A method of authentication talks to the daemon itself.\<close>

record auth_method_info =
  am_name :: string
  am_authenticate :: "int \<Rightarrow> sockets \<Rightarrow> bool \<times> sockets"

record library =
  lib_sockets :: sockets
  lib_sessions :: "sp_session list"
  lib_auth :: "auth_method_info list"

definition SP_get_session :: "int \<Rightarrow> library \<Rightarrow> int" where
  "SP_get_session mbox s = find_index (\<lambda>e. sp_mbox e = mbox) (lib_sessions s)"

definition upd_sp :: "nat \<Rightarrow> (sp_session \<Rightarrow> sp_session) \<Rightarrow> library \<Rightarrow> library" where
  "upd_sp i f s = s\<lparr>lib_sessions := (lib_sessions s)[i := f (lib_sessions s ! i)]\<rparr>"

definition session_error :: "nat \<Rightarrow> library \<Rightarrow> library" where
  "session_error i s = upd_sp i (\<lambda>e. e\<lparr>sp_state := SESS_ERROR\<rparr>) s"

definition SP_kill :: "int \<Rightarrow> library \<Rightarrow> library" where
  "SP_kill mbox s =
     (let ses = SP_get_session mbox s
      in if ses < 0 then s
         else s\<lparr>lib_sockets := (lib_sockets s)\<lparr>closed_mboxes := closed_mboxes (lib_sockets s) @ [mbox]\<rparr>,
                lib_sessions := take (nat ses) (lib_sessions s) @ drop (Suc (nat ses)) (lib_sessions s)\<rparr>)"

subsection \<open>Sending\<close>

text \<open>An element of a scatter of the application: its length and the memory at its address.\<close>

type_synonym element = "int \<times> 8 word list"

definition element_bytes :: "element \<Rightarrow> 8 word list" where
  "element_bytes e = take (nat (fst e)) (snd e)"

definition send_elements :: "int \<Rightarrow> element list \<Rightarrow> sockets \<Rightarrow> (bool \<times> sockets) outcome" where
  "send_elements mbox es k =
     foldl (\<lambda>r e. bindE r (\<lambda>(ok, k). if ok then sock_send_all False mbox (element_bytes e) k else Inr (ok, k))) (Inr (True, k)) es"

definition message_head :: "string \<Rightarrow> 32 word \<Rightarrow> int \<Rightarrow> int \<Rightarrow> int \<Rightarrow> message_header" where
  "message_head sender service_type num_groups mess_type mess_len =
     \<lparr>mh_type = Set_endian service_type, mh_private_group_name = name_array sender, mh_num_groups = num_groups,
      mh_hint = Set_endian (push_bit 8 (word_of_int mess_type) AND 0x00ffff00), mh_data_len = mess_len\<rparr>"

text \<open>The header and the groups are built in \<open>head_buf\<close>, which has 10000 bytes.\<close>

definition head_buf_size :: nat where "head_buf_size = 10000"

definition SP_internal_multicast ::
  "int \<Rightarrow> 32 word \<Rightarrow> int \<Rightarrow> 8 word list \<Rightarrow> int \<Rightarrow> element list \<Rightarrow> library \<Rightarrow> (int \<times> library) outcome" where
  "SP_internal_multicast mbox service_type num_groups groups mess_type scat s =
     (let ses = SP_get_session mbox s; i = nat ses; e = lib_sessions s ! i; n = nat num_groups;
          mess_len = sum_list (map fst scat)
      in if num_groups < -1 \<or> sizeof_message_header + MAX_GROUP_NAME * n > head_buf_size
         then Inl (Undefined ''SP_internal_multicast'')
         else if ses < 0 then Inr (ILLEGAL_SESSION, s)
         else if sp_state e \<noteq> SESS_ACTIVE then Inr (NET_ERROR_ON_SESSION, s)
         else if \<exists>x \<in> set scat. fst x < 0 then Inr (ILLEGAL_MESSAGE, s)
         else if mess_len + num_groups * int MAX_GROUP_NAME > int MAX_MESSAGE_BODY_LEN then Inr (MESSAGE_TOO_LONG, s)
         else if num_groups < 0 \<or> length groups < MAX_GROUP_NAME * n then Inl (Undefined ''SP_internal_multicast'')
         else
           let h = message_head (sp_private_group_name e) service_type num_groups mess_type mess_len
           in bindE (sock_send_all True mbox (head_bytes h @ take (MAX_GROUP_NAME * n) groups) (lib_sockets s)) (\<lambda>(ok, k).
              if \<not> ok then Inr (CONNECTION_CLOSED, session_error i (s\<lparr>lib_sockets := k\<rparr>))
              else bindE (send_elements mbox scat k) (\<lambda>(ok, k).
                     if \<not> ok then Inr (CONNECTION_CLOSED, session_error i (s\<lparr>lib_sockets := k\<rparr>))
                     else Inr (mess_len, s\<lparr>lib_sockets := k\<rparr>))))"

definition SP_multigroup_scat_multicast ::
  "int \<Rightarrow> 32 word \<Rightarrow> int \<Rightarrow> 8 word list \<Rightarrow> int \<Rightarrow> element list \<Rightarrow> library \<Rightarrow> (int \<times> library) outcome" where
  "SP_multigroup_scat_multicast mbox service_type num_groups groups mess_type scat s =
     (if \<not> Is_regular_mess service_type then Inr (ILLEGAL_SERVICE, s)
      else SP_internal_multicast mbox service_type num_groups groups mess_type scat s)"

definition SP_multigroup_multicast ::
  "int \<Rightarrow> 32 word \<Rightarrow> int \<Rightarrow> 8 word list \<Rightarrow> int \<Rightarrow> int \<Rightarrow> 8 word list \<Rightarrow> library \<Rightarrow> (int \<times> library) outcome" where
  "SP_multigroup_multicast mbox service_type num_groups groups mess_type mess_len mess =
     SP_multigroup_scat_multicast mbox service_type num_groups groups mess_type [(mess_len, mess)]"

text \<open>\<open>strncpy\<close> of at most \<open>MAX_GROUP_NAME - 1\<close> characters into an array that ends with NUL.\<close>

definition send_group :: "string \<Rightarrow> 8 word list" where
  "send_group grp = name_bytes (take (MAX_GROUP_NAME - 1) grp)"

definition SP_scat_multicast ::
  "int \<Rightarrow> 32 word \<Rightarrow> string \<Rightarrow> int \<Rightarrow> element list \<Rightarrow> library \<Rightarrow> (int \<times> library) outcome" where
  "SP_scat_multicast mbox service_type grp mess_type scat =
     SP_multigroup_scat_multicast mbox service_type 1 (send_group grp) mess_type scat"

definition SP_multicast ::
  "int \<Rightarrow> 32 word \<Rightarrow> string \<Rightarrow> int \<Rightarrow> int \<Rightarrow> 8 word list \<Rightarrow> library \<Rightarrow> (int \<times> library) outcome" where
  "SP_multicast mbox service_type grp mess_type mess_len mess =
     SP_multigroup_scat_multicast mbox service_type 1 (send_group grp) mess_type [(mess_len, mess)]"

definition legal_group :: "string \<Rightarrow> bool" where
  "legal_group grp \<longleftrightarrow> grp \<noteq> [] \<and> length grp < MAX_GROUP_NAME
     \<and> list_all (\<lambda>c. sint (of_char c :: 8 word) \<ge> 36 \<and> sint (of_char c :: 8 word) \<le> 126) grp"

definition SP_join :: "int \<Rightarrow> string \<Rightarrow> library \<Rightarrow> (int \<times> library) outcome" where
  "SP_join mbox grp s =
     (if \<not> legal_group grp then Inr (ILLEGAL_GROUP, s)
      else SP_internal_multicast mbox JOIN_MESS 1 (send_group grp) 0 [] s)"

definition SP_leave :: "int \<Rightarrow> string \<Rightarrow> library \<Rightarrow> (int \<times> library) outcome" where
  "SP_leave mbox grp s =
     (if \<not> legal_group grp then Inr (ILLEGAL_GROUP, s)
      else SP_internal_multicast mbox LEAVE_MESS 1 (send_group grp) 0 [] s)"

text \<open>
  The group of a disconnect is the private group; behind its NUL the array keeps what was on the
  stack, \<open>junk\<close>.
\<close>

definition SP_disconnect :: "8 word list \<Rightarrow> int \<Rightarrow> library \<Rightarrow> (int \<times> library) outcome" where
  "SP_disconnect junk mbox s =
     (let ses = SP_get_session mbox s; p = sp_private_group_name (lib_sessions s ! nat ses)
      in if ses < 0 then Inr (ILLEGAL_SESSION, s)
         else bindE (SP_internal_multicast mbox KILL_MESS 1 (map of_char (p @ [NUL]) @ drop (Suc (length p)) junk) 0 [] s)
                (\<lambda>(_, s'). Inr (0, SP_kill mbox s')))"

subsection \<open>Receiving\<close>

text \<open>What the caller gives to \<open>SP_scat_receive\<close> and gets back.\<close>

record receive_args =
  ra_service_type :: "32 word"
  ra_sender :: "char list"
  ra_max_groups :: int
  ra_num_groups :: int
  ra_groups :: "8 word list"
  ra_mess_type :: int
  ra_endian_mismatch :: int
  ra_scat :: "element list"

definition overwrite :: "nat \<Rightarrow> 8 word list \<Rightarrow> 8 word list \<Rightarrow> 8 word list" where
  "overwrite at bs buf = take at buf @ bs @ drop (at + length bs) buf"

text \<open>The data go into the elements; \<open>b\<close> bytes of the first are filled.\<close>

definition room_in :: "element \<Rightarrow> nat \<Rightarrow> nat \<Rightarrow> nat" where
  "room_in e b remain = min (nat (fst e) - b) remain"

definition fill_in :: "nat \<Rightarrow> 8 word list \<Rightarrow> element \<Rightarrow> element" where
  "fill_in b bs e = (fst e, overwrite b bs (snd e))"

function recv_scat :: "nat \<Rightarrow> nat \<Rightarrow> element list \<Rightarrow> recv_event list \<Rightarrow> (element list option \<times> recv_event list) outcome" where
  "recv_scat remain b es ev =
     (if remain = 0 then Inr (Some es, ev)
      else case es of
             [] \<Rightarrow> Inl (Undefined ''SP_scat_receive'')
           | e # rest \<Rightarrow>
               (case sp_recv (room_in e b remain) ev of
                  Inl x \<Rightarrow> Inl x
                | Inr (None, ev') \<Rightarrow> Inr (None, ev')
                | Inr (Some bs, ev') \<Rightarrow>
                    if bs = [] then Inr (None, ev')
                    else if length bs = room_in e b remain
                    then (case recv_scat (remain - length bs) 0 rest ev' of
                            Inl x \<Rightarrow> Inl x
                          | Inr (r, ev'') \<Rightarrow> Inr (map_option ((#) (fill_in b bs e)) r, ev''))
                    else recv_scat (remain - length bs) (b + length bs) (fill_in b bs e # rest) ev'))"
  by pat_completeness auto
termination by (relation "measure fst") (auto simp flip: length_greater_0_conv)

declare recv_scat.simps [simp del]

text \<open>The first element with room is where the data start.\<close>

definition recv_data :: "nat \<Rightarrow> element list \<Rightarrow> sockets \<Rightarrow> (element list option \<times> sockets) outcome" where
  "recv_data remain es k =
     (let full = takeWhile (\<lambda>e. fst e = 0) es; rest = dropWhile (\<lambda>e. fst e = 0) es
      in bindE (recv_scat remain 0 rest (recv_events k)) (\<lambda>(r, ev).
           Inr (map_option (\<lambda>es'. full @ es') r, k\<lparr>recv_events := ev\<rparr>)))"

definition hint_type :: "32 word \<Rightarrow> int" where
  "hint_type hint = int16_of (uint (drop_bit 8 (Clear_endian (if Same_endian hint then hint else Flip_int32 hint)) AND 0x0000ffff))"

definition carries_type :: "message_header \<Rightarrow> bool" where
  "carries_type h \<longleftrightarrow> Is_regular_mess (mh_type h) \<or> Is_reject_mess (mh_type h)"

text \<open>The message does not fit: the caller is told what would.\<close>

definition too_short :: "message_header \<Rightarrow> int \<Rightarrow> receive_args \<Rightarrow> int \<times> receive_args" where
  "too_short h max_mess_len a =
     (let groups = (if mh_num_groups h > ra_max_groups a then - mh_num_groups h else 0)
      in (if groups \<noteq> 0 then GROUPS_TOO_SHORT else BUFFER_TOO_SHORT,
          a\<lparr>ra_mess_type := if carries_type h then hint_type (mh_hint h) else 0,
            ra_service_type := Clear_endian (mh_type h), ra_num_groups := groups,
            ra_endian_mismatch := if mh_data_len h > max_mess_len then - mh_data_len h else 0,
            ra_sender := mh_private_group_name h\<rparr>))"

text \<open>The place of the session in the list of members.\<close>

definition my_index :: "int \<Rightarrow> 8 word list \<Rightarrow> string \<Rightarrow> int \<Rightarrow> int" where
  "my_index num_groups groups me mess_type =
     (let i = find_index (\<lambda>g. g = me) (group_names (nat num_groups) groups) in if i = -1 then mess_type else i)"

subsection \<open>The byte order of a membership message\<close>

text \<open>
  A position in a scatter is an element and an offset in it. The loops copy to a buffer and back,
  element by element.
\<close>

function scat_out :: "nat \<Rightarrow> nat \<Rightarrow> nat \<Rightarrow> element list \<Rightarrow> (8 word list \<times> nat \<times> nat) outcome" where
  "scat_out n i b es =
     (if n = 0 then Inr ([], i, b)
      else if i \<ge> length es then Inl (Undefined ''SP_scat_receive'')
      else let here = nat (fst (es ! i)) - b; bs = take n (take here (drop b (snd (es ! i))))
           in if n < here then Inr (bs, i, b + n)
              else (case scat_out (n - here) (Suc i) 0 es of
                      Inl e \<Rightarrow> Inl e
                    | Inr (cs, p) \<Rightarrow> Inr (bs @ cs, p)))"
  by pat_completeness auto
termination by (relation "measure (\<lambda>(n, i, b, es). length es - i)") auto

declare scat_out.simps [simp del]

function scat_in :: "8 word list \<Rightarrow> nat \<Rightarrow> nat \<Rightarrow> element list \<Rightarrow> element list outcome" where
  "scat_in bs i b es =
     (if bs = [] then Inr es
      else if i \<ge> length es then Inl (Undefined ''SP_scat_receive'')
      else let here = nat (fst (es ! i)) - b; es' = es[i := (fst (es ! i), overwrite b (take here bs) (snd (es ! i)))]
           in scat_in (drop here bs) (Suc i) 0 es')"
  by pat_completeness auto
termination by (relation "measure (\<lambda>(bs, i, b, es). length es - i)") auto

declare scat_in.simps [simp del]

text \<open>\<open>n\<close> bytes forward.\<close>

function scat_skip :: "nat \<Rightarrow> nat \<Rightarrow> nat \<Rightarrow> element list \<Rightarrow> (nat \<times> nat) outcome" where
  "scat_skip n i b es =
     (if n = 0 then Inr (i, b)
      else if i \<ge> length es then Inl (Undefined ''SP_scat_receive'')
      else let here = nat (fst (es ! i)) - b
           in if n < here then Inr (i, b + n) else scat_skip (n - here) (Suc i) 0 es)"
  by pat_completeness auto
termination by (relation "measure (\<lambda>(n, i, b, es). length es - i)") auto

declare scat_skip.simps [simp del]

text \<open>
  One virtual synchrony set: the position moves from \<open>total\<close> to \<open>target\<close>, and the number of
  members there has its bytes reversed. \<open>buf\<close> is the start of \<open>groups_buf\<close>, which keeps its
  bytes where a message ends too early.
\<close>

record flip_st =
  fl_total :: int
  fl_target :: int
  fl_scat :: nat
  fl_index :: nat
  fl_buf :: "8 word list"
  fl_elements :: "element list"

definition flip_vs_set :: "int \<Rightarrow> nat \<Rightarrow> flip_st \<Rightarrow> flip_st outcome" where
  "flip_vs_set max_mess_len _ f =
     bindE (scat_skip (nat (fl_target f - fl_total f)) (fl_scat f) (fl_index f) (fl_elements f)) (\<lambda>(i, b).
       let total = max (fl_total f) (fl_target f); flip_size = min 4 (max_mess_len - total); n = nat flip_size
       in bindE (scat_out n i b (fl_elements f)) (\<lambda>(bs, i', b').
          let buf = rev (bs @ drop n (fl_buf f))
          in bindE (scat_in (take n buf) i b (fl_elements f)) (\<lambda>es.
             Inr \<lparr>fl_total = total + flip_size,
                  fl_target = sint (word_of_int (total + flip_size) + read32 buf * 32 :: 32 word),
                  fl_scat = i', fl_index = b', fl_buf = buf, fl_elements = es\<rparr>)))"

definition flip_ints :: "8 word list \<Rightarrow> 8 word list" where
  "flip_ints bs = concat (map (\<lambda>i. rev (take 4 (drop (4 * i) bs))) [0..<5])"

text \<open>A message without the five integers of its head leaves \<open>groups_buf\<close> undefined.\<close>

definition flip_memb :: "int \<Rightarrow> element list \<Rightarrow> element list outcome" where
  "flip_memb max_mess_len es =
     (if max_mess_len < 20 then Inl (Undefined ''SP_scat_receive'')
      else
        bindE (scat_out 20 0 0 es) (\<lambda>(bs, i, b).
          let buf = flip_ints bs
          in bindE (scat_in buf 0 0 es) (\<lambda>es1.
             bindE (for_each (flip_vs_set max_mess_len) [0..<unat (read32 (drop 12 buf))]
               \<lparr>fl_total = 20, fl_target = 20, fl_scat = i, fl_index = b, fl_buf = take 4 buf, fl_elements = es1\<rparr>)
               (\<lambda>f. Inr (fl_elements f)))))"

subsection \<open>A receive\<close>

definition save_head :: "bool \<Rightarrow> nat \<Rightarrow> message_header \<Rightarrow> library \<Rightarrow> library" where
  "save_head saved i h s = (if saved then s else upd_sp i (\<lambda>e. e\<lparr>recv_saved_head := h, recv_message_saved := True\<rparr>) s)"

text \<open>The header: the saved one, or the next one of the stream; \<open>None\<close>: the connection failed.\<close>

definition receive_head :: "nat \<Rightarrow> library \<Rightarrow> (message_header option \<times> library) outcome" where
  "receive_head i s =
     (if recv_message_saved (lib_sessions s ! i) then Inr (Some (recv_saved_head (lib_sessions s ! i)), s)
      else bindE (sock_recv_all sizeof_message_header (lib_sockets s)) (\<lambda>(r, k).
             Inr (case r of
                    None \<Rightarrow> (None, session_error i (s\<lparr>lib_sockets := k\<rparr>))
                  | Some bs \<Rightarrow> let h = header_of bs
                               in (Some (if Same_endian (mh_type h) then h else Flip_mess h), s\<lparr>lib_sockets := k\<rparr>))))"

text \<open>The type in front of a rejected message; for other messages there is none.\<close>

definition receive_old_type :: "message_header \<Rightarrow> sockets \<Rightarrow> (32 word option \<times> sockets) outcome" where
  "receive_old_type h k =
     (if \<not> Is_reject_mess (mh_type h) then Inr (Some 0, k)
      else bindE (sock_recv_all 4 k) (\<lambda>(r, k').
             Inr (map_option (\<lambda>bs. let t = read32 bs in if Same_endian (mh_type h) then t else Flip_int32 t) r, k')))"

text \<open>The groups, as many as fit; the rest is dropped.\<close>

definition receive_groups :: "message_header \<Rightarrow> receive_args \<Rightarrow> sockets \<Rightarrow> (receive_args option \<times> sockets) outcome" where
  "receive_groups h a k =
     (let short = mh_num_groups h > ra_max_groups a;
          n = (if short then ra_max_groups a else mh_num_groups h) * int MAX_GROUP_NAME
      in bindE (sock_recv_all (nat n) k) (\<lambda>(r, k1).
           case r of
             None \<Rightarrow> Inr (None, k1)
           | Some bs \<Rightarrow>
               let a1 = a\<lparr>ra_groups := overwrite 0 bs (ra_groups a)\<rparr>
               in if \<not> short then Inr (Some (a1\<lparr>ra_num_groups := mh_num_groups h\<rparr>), k1)
                  else bindE (sock_recv_dummy (nat ((mh_num_groups h - ra_max_groups a) * int MAX_GROUP_NAME)) k1) (\<lambda>(ok, k2).
                         Inr (if ok then Some (a1\<lparr>ra_num_groups := - mh_num_groups h\<rparr>) else None, k2))))"

text \<open>The data, as many as fit, and what is made of them.\<close>

definition receive_body ::
  "message_header \<Rightarrow> int \<Rightarrow> string \<Rightarrow> receive_args \<Rightarrow> sockets \<Rightarrow> (receive_args option \<times> sockets) outcome" where
  "receive_body h max_mess_len me a k =
     bindE (recv_data (nat (min (mh_data_len h) max_mess_len)) (ra_scat a) k) (\<lambda>(r, k1).
       case r of
         None \<Rightarrow> Inr (None, k1)
       | Some es \<Rightarrow>
           let a1 = a\<lparr>ra_scat := es,
                      ra_mess_type := if Is_reg_memb_mess (mh_type h) \<and> mh_num_groups h \<le> ra_max_groups a
                        then my_index (mh_num_groups h) (ra_groups a) me (ra_mess_type a) else ra_mess_type a\<rparr>
           in if Is_reg_memb_mess (mh_type h) \<and> \<not> Same_endian (mh_type h)
              then bindE (flip_memb max_mess_len es) (\<lambda>es'. Inr (Some (a1\<lparr>ra_scat := es'\<rparr>), k1))
              else Inr (Some a1, k1))"

definition clear_saved :: "bool \<Rightarrow> nat \<Rightarrow> library \<Rightarrow> library" where
  "clear_saved saved i s =
     (if saved then upd_sp i (\<lambda>e. e\<lparr>recv_saved_head := blank_mess_header, recv_message_saved := False\<rparr>) s else s)"

text \<open>A step of the receive that may fail with the connection.\<close>

definition received_or_closed ::
  "nat \<Rightarrow> library \<Rightarrow> receive_args \<Rightarrow> ('x option \<times> sockets) outcome \<Rightarrow> ('x \<Rightarrow> library \<Rightarrow> ((int \<times> receive_args) \<times> library) outcome)
   \<Rightarrow> ((int \<times> receive_args) \<times> library) outcome" where
  "received_or_closed i s a r f =
     bindE r (\<lambda>(x, k). let s' = s\<lparr>lib_sockets := k\<rparr>
       in case x of None \<Rightarrow> Inr ((CONNECTION_CLOSED, a), session_error i s') | Some y \<Rightarrow> f y s')"

definition SP_scat_receive :: "int \<Rightarrow> receive_args \<Rightarrow> library \<Rightarrow> ((int \<times> receive_args) \<times> library) outcome" where
  "SP_scat_receive mbox a s =
     (let ses = SP_get_session mbox s; i = nat ses; e = lib_sessions s ! i; saved = recv_message_saved e;
          me = sp_private_group_name e; drops = Is_drop_recv (ra_service_type a); max_mess_len = sum_list (map fst (ra_scat a))
      in if ses < 0 then Inr ((ILLEGAL_SESSION, a), s)
         else if sp_state e \<noteq> SESS_ACTIVE then Inr ((NET_ERROR_ON_SESSION, a), s)
         else
           bindE (receive_head i s) (\<lambda>(r, s1).
             case r of
               None \<Rightarrow> Inr ((CONNECTION_CLOSED, a), s1)
             | Some h \<Rightarrow>
                 if \<exists>x \<in> set (ra_scat a). fst x < 0
                 then Inr ((ILLEGAL_MESSAGE, a), if drops then s1 else save_head saved i h s1)
                 else if mh_num_groups h < 0 \<or> mh_data_len h < 0 then Inr ((ILLEGAL_MESSAGE, a), s1)
                 else if \<not> drops \<and> (mh_num_groups h > ra_max_groups a \<or> mh_data_len h > max_mess_len)
                 then Inr (too_short h max_mess_len a, save_head saved i h s1)
                 else
                   let a1 = a\<lparr>ra_mess_type := if carries_type h then hint_type (mh_hint h) else -1,
                              ra_endian_mismatch := if carries_type h \<and> \<not> Same_endian (mh_hint h) then 1 else 0,
                              ra_sender := mh_private_group_name h\<rparr>
                   in received_or_closed i s1 a1 (receive_old_type h (lib_sockets s1)) (\<lambda>old_type s2.
                      received_or_closed i s2 a1 (receive_groups h a1 (lib_sockets s2)) (\<lambda>a2 s3.
                      received_or_closed i s3 a2 (receive_body h max_mess_len me a2 (lib_sockets s3)) (\<lambda>a3 s4.
                        let t = (if Is_reject_mess (mh_type h) then old_type OR REJECT_MESS else mh_type h);
                            a4 = a3\<lparr>ra_service_type := Clear_endian t\<rparr>
                        in if mh_data_len h > max_mess_len
                           then bindE (sock_recv_dummy (nat (mh_data_len h - max_mess_len)) (lib_sockets s4)) (\<lambda>(ok, k).
                                  let s5 = s4\<lparr>lib_sockets := k\<rparr>
                                  in Inr (if ok then ((BUFFER_TOO_SHORT, a4), s5) else ((CONNECTION_CLOSED, a4), session_error i s5)))
                           else Inr ((mh_data_len h, a4), clear_saved saved i s4))))))"

definition SP_receive :: "int \<Rightarrow> receive_args \<Rightarrow> int \<Rightarrow> 8 word list \<Rightarrow> library \<Rightarrow> ((int \<times> receive_args) \<times> library) outcome" where
  "SP_receive mbox a max_mess_len mess s = SP_scat_receive mbox (a\<lparr>ra_scat := [(max_mess_len, mess)]\<rparr>) s"

end
