(* ===== verification/Client_Connect.thy ===== *)
theory Client_Connect
  imports Client_Library
begin

section \<open>The client library: connecting\<close>

text \<open>
  Model of \<open>SP_connect_timeout\<close> of \<open>libspread/sp.c\<close> and the routines it uses: the name of the
  daemon, the connect message, the choice of authentication methods, and the answer of the daemon.
  What \<open>gethostbyname\<close>, \<open>socket\<close> and \<open>connect\<close> give are arguments. A \<open>recv\<close> with a timeout that
  expires is a \<open>Recv_error\<close>.
\<close>

subsection \<open>Authentication methods\<close>

definition sp_null_authenticate :: "int \<Rightarrow> sockets \<Rightarrow> bool \<times> sockets" where
  "sp_null_authenticate mbox k = (True, k)"

definition blank_library :: "sockets \<Rightarrow> library" where
  "blank_library k = \<lparr>lib_sockets = k, lib_sessions = [], lib_auth = [\<lparr>am_name = ''NULL'', am_authenticate = sp_null_authenticate\<rparr>]\<rparr>"

definition SP_set_auth_method :: "string \<Rightarrow> (int \<Rightarrow> sockets \<Rightarrow> bool \<times> sockets) option \<Rightarrow> library \<Rightarrow> int \<times> library" where
  "SP_set_auth_method auth_name auth_function s =
     (if length auth_name \<ge> MAX_AUTH_NAME then (0, s)
      else case auth_function of
             None \<Rightarrow> (0, s)
           | Some f \<Rightarrow> (1, s\<lparr>lib_auth := [\<lparr>am_name = auth_name, am_authenticate = f\<rparr>]\<rparr>))"

definition SP_set_auth_methods :: "(string \<times> (int \<Rightarrow> sockets \<Rightarrow> bool \<times> sockets) option) list \<Rightarrow> library \<Rightarrow> int \<times> library" where
  "SP_set_auth_methods ms s =
     (if length ms > MAX_AUTH_METHODS then (0, s)
      else if \<exists>m \<in> set ms. length (fst m) \<ge> MAX_AUTH_NAME \<or> snd m = None then (0, s)
      else (1, s\<lparr>lib_auth := map (\<lambda>(n, f). \<lparr>am_name = n, am_authenticate = the f\<rparr>) ms\<rparr>))"

text \<open>The parts of the list between its blanks.\<close>

fun blank_parts :: "string \<Rightarrow> string list" where
  "blank_parts [] = [[]]"
| "blank_parts (c # cs) =
     (if c = CHR '' '' then [] # blank_parts cs
      else (case blank_parts cs of [] \<Rightarrow> [[c]] | p # ps \<Rightarrow> (c # p) # ps))"

text \<open>The copy of the list has no room for the NUL of a list of \<open>MAX_AUTH_NAME * MAX_AUTH_METHODS\<close> bytes.\<close>

definition valid_auth_method :: "string \<Rightarrow> 8 word list \<Rightarrow> nat \<Rightarrow> bool outcome" where
  "valid_auth_method auth_method auth_list auth_list_len =
     (if auth_list_len \<ge> MAX_AUTH_NAME * MAX_AUTH_METHODS \<or> length auth_list < auth_list_len
      then Inl (Undefined ''valid_auth_method'')
      else Inr (auth_method \<in> set (blank_parts (cstr (chars_of (take auth_list_len auth_list))))))"

definition auth_choice :: "auth_method_info list \<Rightarrow> 8 word list" where
  "auth_choice ms =
     (let bs = concat (map (\<lambda>m. map of_char (take MAX_AUTH_NAME (am_name m @ replicate MAX_AUTH_NAME NUL))) ms)
      in bs @ replicate (MAX_AUTH_NAME * MAX_AUTH_METHODS - length bs) 0)"

definition valid_methods :: "auth_method_info list \<Rightarrow> 8 word list \<Rightarrow> nat \<Rightarrow> bool outcome" where
  "valid_methods ms auth_list auth_list_len =
     foldl (\<lambda>r m. bindE r (\<lambda>ok. if ok then valid_auth_method (am_name m) auth_list auth_list_len else Inr False)) (Inr True) ms"

definition authenticate_all :: "int \<Rightarrow> auth_method_info list \<Rightarrow> sockets \<Rightarrow> bool \<times> sockets" where
  "authenticate_all mbox ms k =
     foldl (\<lambda>(ok, k) m. let (r, k') = am_authenticate m mbox k in (ok \<and> r, k')) (True, k) ms"

subsection \<open>The name of the daemon\<close>

definition MAXHOSTNAMELEN :: nat where "MAXHOSTNAMELEN = 64"
definition DEFAULT_SPREAD_CONNECTION :: string where "DEFAULT_SPREAD_CONNECTION = ''4803''"

text \<open>\<open>%s\<close> without a width, into an array of \<open>n\<close> characters.\<close>

definition scan_string :: "nat \<Rightarrow> string \<Rightarrow> (string \<times> string) option outcome" where
  "scan_string n str =
     (case scan_word (length str) str of
        None \<Rightarrow> Inr None
      | Some (w, rest) \<Rightarrow> if length w \<ge> n then Inl (Undefined ''SP_connect_timeout'') else Inr (Some (w, rest)))"

text \<open>The address of a host: by name, or written with dots.\<close>

definition host_address :: "(string \<Rightarrow> 32 word option) \<Rightarrow> string \<Rightarrow> 32 word option outcome" where
  "host_address gethostbyname hostname =
     (case gethostbyname hostname of
        Some a \<Rightarrow> Inr (Some a)
      | None \<Rightarrow>
          (case blank_dots hostname of
             None \<Rightarrow> Inr None
           | Some l \<Rightarrow>
               (case scan_ints 4 l of
                  ([i1, i2, i3, i4], rest) \<Rightarrow>
                    bindE (scan_string 20 rest) (\<lambda>r.
                      Inr (if r \<noteq> None then None
                           else Some (push_bit 24 (word_of_int i1) OR push_bit 16 (word_of_int i2)
                                      OR push_bit 8 (word_of_int i3) OR word_of_int i4)))
                | _ \<Rightarrow> Inr None)))"

text \<open>The port, and the address unless the daemon is on this machine; \<open>None\<close> for \<open>ILLEGAL_SPREAD\<close>.\<close>

definition spread_address :: "string option \<Rightarrow> (string \<Rightarrow> 32 word option) \<Rightarrow> (int \<times> 32 word option) option outcome" where
  "spread_address spread_name gethostbyname =
     (let s_name = (case spread_name of None \<Rightarrow> DEFAULT_SPREAD_CONNECTION
                    | Some n \<Rightarrow> if n = [] then DEFAULT_SPREAD_CONNECTION else n)
      in if length s_name > MAXHOSTNAMELEN + 6 \<or> CHR '' '' \<in> set s_name then Inr None
         else
           let checked = (\<lambda>port a. if port < 0 \<or> port \<ge> 32 * 1024 then None else Some (port, a))
           in case blank_char (CHR ''@'') s_name of
                None \<Rightarrow>
                  (case scan_int s_name of
                     None \<Rightarrow> Inr None
                   | Some (port, rest) \<Rightarrow>
                       bindE (scan_string 20 rest) (\<lambda>r. Inr (if r \<noteq> None then None else checked port None)))
              | Some l \<Rightarrow>
                  (case scan_int l of
                     None \<Rightarrow> Inr None
                   | Some (port, rest) \<Rightarrow>
                       bindE (scan_string MAXHOSTNAMELEN rest) (\<lambda>r.
                         case r of
                           None \<Rightarrow> Inr None
                         | Some (hostname, _) \<Rightarrow>
                             bindE (host_address gethostbyname hostname) (\<lambda>a.
                               Inr (case a of None \<Rightarrow> None | Some a \<Rightarrow> checked port (Some a))))))"

subsection \<open>The conversation\<close>

definition connect_bytes :: "string option \<Rightarrow> int \<Rightarrow> bool \<Rightarrow> 8 word list" where
  "connect_bytes private_name priority group_membership =
     (let name = (case private_name of None \<Rightarrow> [] | Some n \<Rightarrow> take MAX_PRIVATE_NAME n)
      in [word_of_int SP_MAJOR_VERSION, word_of_int SP_MINOR_VERSION, word_of_int SP_PATCH_VERSION,
          (if group_membership then 1 else 0) + 16 * word_of_int (max 0 (min 1 priority)), word_of_nat (length name)]
         @ map of_char name)"

text \<open>One \<open>send\<close>, repeated when interrupted: \<open>True\<close> when it took everything.\<close>

fun sp_send :: "nat \<Rightarrow> send_event list \<Rightarrow> (nat option \<times> send_event list) outcome" where
  "sp_send n [] = Inl (Hang ''send'')"
| "sp_send n (Send_again # es) = sp_send n es"
| "sp_send n (Send_error # es) = Inr (None, es)"
| "sp_send n (Sent k # es) = Inr (Some (min k n), es)"

definition sock_send_once :: "int \<Rightarrow> 8 word list \<Rightarrow> sockets \<Rightarrow> (bool \<times> sockets) outcome" where
  "sock_send_once mbox bs k =
     bindE (sp_send (length bs) (send_events k)) (\<lambda>(r, es).
       let n = (case r of None \<Rightarrow> 0 | Some n \<Rightarrow> n)
       in Inr (r = Some (length bs), k\<lparr>send_events := es, stream_out := stream_out k @ [(mbox, take n bs)]\<rparr>))"

text \<open>One \<open>recv\<close> of up to \<open>n\<close> bytes; \<open>None\<close> when it failed or the connection was closed.\<close>

definition sock_recv_once :: "nat \<Rightarrow> sockets \<Rightarrow> (8 word list option \<times> sockets) outcome" where
  "sock_recv_once n k =
     bindE (sp_recv n (recv_events k)) (\<lambda>(r, es).
       Inr (if r = Some [] then None else r, k\<lparr>recv_events := es\<rparr>))"

definition close_sock :: "int \<Rightarrow> sockets \<Rightarrow> sockets" where
  "close_sock mbox k = k\<lparr>closed_mboxes := closed_mboxes k @ [mbox]\<rparr>"

text \<open>A step that may end the connection: \<open>Inl code\<close> closes it and is the result.\<close>

type_synonym 'x step_result = "((int + 'x) \<times> sockets) outcome"

definition then_do :: "'x step_result \<Rightarrow> ('x \<Rightarrow> sockets \<Rightarrow> 'y step_result) \<Rightarrow> 'y step_result" where
  "then_do r f = bindE r (\<lambda>(x, k). case x of Inl c \<Rightarrow> Inr (Inl c, k) | Inr y \<Rightarrow> f y k)"

definition recv_or_closed :: "nat \<Rightarrow> sockets \<Rightarrow> 8 word list step_result" where
  "recv_or_closed n k =
     bindE (sock_recv_once n k) (\<lambda>(r, k'). Inr (case r of None \<Rightarrow> Inl CONNECTION_CLOSED | Some bs \<Rightarrow> Inr bs, k'))"

definition recv_char :: "sockets \<Rightarrow> int step_result" where
  "recv_char k = then_do (recv_or_closed 1 k) (\<lambda>bs k. Inr (Inr (sint (hd bs)), k))"

definition send_or_closed :: "int \<Rightarrow> 8 word list \<Rightarrow> sockets \<Rightarrow> unit step_result" where
  "send_or_closed mbox bs k =
     bindE (sock_send_once mbox bs k) (\<lambda>(ok, k'). Inr (if ok then Inr () else Inl CONNECTION_CLOSED, k'))"

text \<open>The list of methods the daemon allows, and the choice of this library.\<close>

definition receive_auth_list :: "sockets \<Rightarrow> (8 word list \<times> nat) step_result" where
  "receive_auth_list k =
     then_do (recv_char k) (\<lambda>len k1.
       if len > int (MAX_AUTH_NAME * MAX_AUTH_METHODS) then Inr (Inl CONNECTION_CLOSED, k1)
       else if len < 0 then Inr (Inl len, k1)
       else if len = 0 then Inr (Inr ([], 0), k1)
       else then_do (recv_or_closed (nat len) k1) (\<lambda>bs k2. Inr (Inr (bs, nat len), k2)))"

definition choose_methods :: "int \<Rightarrow> auth_method_info list \<Rightarrow> sockets \<Rightarrow> unit step_result" where
  "choose_methods mbox ms k =
     then_do (receive_auth_list k) (\<lambda>(auth_list, auth_list_len) k1.
       bindE (valid_methods ms auth_list auth_list_len) (\<lambda>ok.
         if \<not> ok then Inr (Inl REJECT_AUTH, k1)
         else then_do (send_or_closed mbox (auth_choice ms) k1) (\<lambda>_ k2.
                let (ok, k3) = authenticate_all mbox ms k2
                in Inr (if ok then Inr () else Inl REJECT_AUTH, k3))))"

text \<open>
  The answer. The private group is read into the caller's array, which keeps its bytes where the
  group comes in more than one piece.
\<close>

definition receive_answer :: "int \<Rightarrow> 8 word list \<Rightarrow> sockets \<Rightarrow> 8 word list step_result" where
  "receive_answer priority own_group k =
     then_do (recv_char k) (\<lambda>c k.
       if c \<noteq> ACCEPT_SESSION then Inr (Inl c, k)
       else then_do (recv_char k) (\<lambda>v1 k. then_do (recv_char k) (\<lambda>v2 k. then_do (recv_char k) (\<lambda>v3 k.
              if lib_number [v1, v2, v3] < 30100 \<or> (lib_number [v1, v2, v3] < 30800 \<and> priority > 0)
              then Inr (Inl REJECT_VERSION, k)
              else then_do (recv_char k) (\<lambda>len k.
                     if len < 0 then Inl (Undefined ''SP_connect_timeout'')
                     else then_do (recv_or_closed (nat len) k) (\<lambda>bs k.
                            if nat len \<ge> length own_group then Inl (Undefined ''SP_connect_timeout'')
                            else Inr (Inr ((overwrite 0 bs own_group)[nat len := 0]), k)))))))"

definition SP_connect_timeout ::
  "string option \<Rightarrow> string option \<Rightarrow> int \<Rightarrow> bool \<Rightarrow> 8 word list \<Rightarrow> (string \<Rightarrow> 32 word option) \<Rightarrow> int \<Rightarrow> bool
   \<Rightarrow> library \<Rightarrow> ((int \<times> 8 word list) \<times> library) outcome" where
  "SP_connect_timeout spread_name private_name priority group_membership own_group gethostbyname sock connected s =
     bindE (spread_address spread_name gethostbyname) (\<lambda>a.
       if a = None then Inr ((ILLEGAL_SPREAD, own_group), s)
       else if sock < 0 then Inr ((COULD_NOT_CONNECT, own_group), s)
       else if \<not> connected then Inr ((COULD_NOT_CONNECT, own_group), s\<lparr>lib_sockets := close_sock sock (lib_sockets s)\<rparr>)
       else
         bindE (then_do (send_or_closed sock (connect_bytes private_name priority group_membership) (lib_sockets s)) (\<lambda>_ k.
                then_do (choose_methods sock (lib_auth s) k) (\<lambda>_ k.
                receive_answer priority own_group k))) (\<lambda>(r, k).
           case r of
             Inl code \<Rightarrow> Inr ((code, own_group), s\<lparr>lib_sockets := close_sock sock k\<rparr>)
           | Inr p \<Rightarrow>
               if length (lib_sessions s) \<ge> MAX_SESSIONS \<or> length (cstr (chars_of p)) \<ge> MAX_GROUP_NAME
               then Inl (Undefined ''SP_connect_timeout'')
               else Inr ((ACCEPT_SESSION, p),
                         s\<lparr>lib_sockets := k,
                           lib_sessions := lib_sessions s @ [\<lparr>sp_mbox = sock, sp_state = SESS_ACTIVE,
                             sp_private_group_name = cstr (chars_of p), recv_saved_head = blank_mess_header,
                             recv_message_saved = False\<rparr>]\<rparr>)))"

definition SP_connect ::
  "string option \<Rightarrow> string option \<Rightarrow> int \<Rightarrow> bool \<Rightarrow> 8 word list \<Rightarrow> (string \<Rightarrow> 32 word option) \<Rightarrow> int \<Rightarrow> bool
   \<Rightarrow> library \<Rightarrow> ((int \<times> 8 word list) \<times> library) outcome" where
  "SP_connect = SP_connect_timeout"

end
