(* ===== verification/Client_Stream.thy ===== *)
theory Client_Stream
  imports Client_Library Session_Reading
begin

section \<open>Receiving from a stream\<close>

text \<open>
  A connection that lives: its script has no errors and no end. However it is cut into chunks, the
  loops of the library take exactly the bytes they are to take. The interface \<open>byte_source\<close> is what
  the routines that read rely on.
\<close>

subsection \<open>Living connections\<close>

fun alive_event :: "recv_event \<Rightarrow> bool" where
  "alive_event (Chunk bs) = (bs \<noteq> [])"
| "alive_event Recv_again = True"
| "alive_event Recv_error = False"

fun event_bytes :: "recv_event \<Rightarrow> 8 word list" where
  "event_bytes (Chunk bs) = bs"
| "event_bytes _ = []"

definition flows :: "recv_event list \<Rightarrow> bool" where
  "flows es \<longleftrightarrow> list_all alive_event es"

definition stream_in :: "recv_event list \<Rightarrow> 8 word list" where
  "stream_in es = concat (map event_bytes es)"

lemma flows_simps [simp]: "flows []" "flows (e # es) \<longleftrightarrow> alive_event e \<and> flows es"
  by (simp_all add: flows_def)

lemma stream_in_simps [simp]: "stream_in [] = []" "stream_in (e # es) = event_bytes e @ stream_in es"
  by (simp_all add: stream_in_def)

text \<open>One \<open>recv\<close>: some bytes of the stream, at least one.\<close>

lemma sp_recv_flows:
  assumes "flows es" and "0 < n" and "stream_in es \<noteq> []"
  shows "\<exists>bs es'. sp_recv n es = Inr (Some bs, es') \<and> bs \<noteq> [] \<and> length bs \<le> n \<and> flows es' \<and> stream_in es = bs @ stream_in es'"
  using assms
proof (induction es)
  case (Cons e es)
  obtain k where n: "n = Suc k" using Cons.prems(2) by (cases n) auto
  show ?case
  proof (cases e)
    case (Chunk bs)
    then show ?thesis using Cons.prems unfolding n by (auto simp del: take_Suc_Cons)
  next
    case Recv_again
    then show ?thesis using Cons unfolding n by simp
  next
    case Recv_error
    then show ?thesis using Cons.prems by simp
  qed
qed simp

subsection \<open>Reading exactly so many bytes\<close>

locale byte_source =
  fixes take_bytes :: "nat \<Rightarrow> 'k \<Rightarrow> (8 word list option \<times> 'k) outcome"
    and stream :: "'k \<Rightarrow> 8 word list"
    and good :: "'k \<Rightarrow> bool"
  assumes takes: "good k \<Longrightarrow> n \<le> length (stream k) \<Longrightarrow>
    \<exists>k'. take_bytes n k = Inr (Some (take n (stream k)), k') \<and> good k' \<and> stream k' = drop n (stream k)"
begin

lemma takes_prefix:
  assumes "good k" and "stream k = bs @ rest" and "length bs = n"
  shows "\<exists>k'. take_bytes n k = Inr (Some bs, k') \<and> good k' \<and> stream k' = rest"
  using takes [OF assms(1), of n] assms(2,3) by auto

text \<open>Two reads are one read.\<close>

lemma takes_twice:
  assumes "good k" and "m + n \<le> length (stream k)"
  shows "\<exists>k1 k2 bs cs. take_bytes m k = Inr (Some bs, k1) \<and> take_bytes n k1 = Inr (Some cs, k2) \<and> good k2
     \<and> bs @ cs = take (m + n) (stream k) \<and> stream k2 = drop (m + n) (stream k)"
proof -
  obtain k1 where 1: "take_bytes m k = Inr (Some (take m (stream k)), k1)" "good k1" "stream k1 = drop m (stream k)"
    using takes [OF assms(1), of m] assms(2) by auto
  have "n \<le> length (stream k1)" using assms(2) 1(3) by simp
  then obtain k2 where "take_bytes n k1 = Inr (Some (take n (stream k1)), k2)" "good k2" "stream k2 = drop n (stream k1)"
    using takes [OF 1(2), of n] by blast
  with 1 show ?thesis by (auto simp: take_add add.commute)
qed

end

lemma recv_all_flows:
  "flows es \<Longrightarrow> n \<le> length (stream_in es) \<Longrightarrow>
   \<exists>es'. recv_all n es = Inr (Some (take n (stream_in es)), es') \<and> flows es' \<and> stream_in es' = drop n (stream_in es)"
proof (induction n arbitrary: es rule: less_induct)
  case (less n)
  show ?case
  proof (cases "n = 0")
    case True
    then show ?thesis using less.prems by (simp add: recv_all.simps)
  next
    case False
    then have ne: "stream_in es \<noteq> []" using less.prems by auto
    obtain bs es' where r: "sp_recv n es = Inr (Some bs, es')" "bs \<noteq> []" "length bs \<le> n" "flows es'" "stream_in es = bs @ stream_in es'"
      using sp_recv_flows [OF less.prems(1) _ ne] False by blast
    have l: "n - length bs < n" using r(2) False by (simp add: diff_less)
    have "n - length bs \<le> length (stream_in es')" using less.prems(2) r(5) by simp
    from less.IH [OF l r(4) this] obtain es'' where
      "recv_all (n - length bs) es' = Inr (Some (take (n - length bs) (stream_in es')), es'')" "flows es''"
      "stream_in es'' = drop (n - length bs) (stream_in es')" by blast
    then show ?thesis using r False by (subst recv_all.simps) auto
  qed
qed

lemma recv_dummy_flows:
  "flows es \<Longrightarrow> n \<le> length (stream_in es) \<Longrightarrow>
   \<exists>es'. recv_dummy n es = Inr (True, es') \<and> flows es' \<and> stream_in es' = drop n (stream_in es)"
proof (induction n arbitrary: es rule: less_induct)
  case (less n)
  show ?case
  proof (cases "n = 0")
    case True
    then show ?thesis using less.prems by (simp add: recv_dummy.simps)
  next
    case False
    then have ne: "stream_in es \<noteq> []" using less.prems by auto
    have m: "0 < min n sizeof_dummy_buf" using False by (simp add: sizeof_dummy_buf_def)
    obtain bs es' where r: "sp_recv (min n sizeof_dummy_buf) es = Inr (Some bs, es')" "bs \<noteq> []" "length bs \<le> min n sizeof_dummy_buf"
      "flows es'" "stream_in es = bs @ stream_in es'"
      using sp_recv_flows [OF less.prems(1) m ne] by blast
    have l: "n - length bs < n" using r(2) False by (simp add: diff_less)
    have "n - length bs \<le> length (stream_in es')" using less.prems(2) r(5) by simp
    from less.IH [OF l r(4) this] show ?thesis using r False by (subst recv_dummy.simps) auto
  qed
qed

interpretation script: byte_source recv_all stream_in flows
  by unfold_locales (rule recv_all_flows)

interpretation socket: byte_source sock_recv_all "\<lambda>k. stream_in (recv_events k)" "\<lambda>k. flows (recv_events k)"
proof
  fix k :: sockets and n
  assume "flows (recv_events k)" "n \<le> length (stream_in (recv_events k))"
  from recv_all_flows [OF this] show "\<exists>k'. sock_recv_all n k = Inr (Some (take n (stream_in (recv_events k))), k')
      \<and> flows (recv_events k') \<and> stream_in (recv_events k') = drop n (stream_in (recv_events k))"
    by (auto simp: sock_recv_all_def)
qed

lemma dummy_prefix:
  assumes "flows (recv_events k)" and "stream_in (recv_events k) = bs @ rest" and "length bs = n"
  shows "\<exists>k'. sock_recv_dummy n k = Inr (True, k') \<and> flows (recv_events k') \<and> stream_in (recv_events k') = rest"
  using recv_dummy_flows [OF assms(1), of n] assms(2,3) by (auto simp: sock_recv_dummy_def)

subsection \<open>Reading into a scatter\<close>

definition scat_ok :: "element list \<Rightarrow> bool" where
  "scat_ok es \<longleftrightarrow> list_all (\<lambda>e. 0 < fst e \<and> length (snd e) = nat (fst e)) es"

definition scat_bytes :: "element list \<Rightarrow> 8 word list" where
  "scat_bytes es = concat (map snd es)"

lemma length_overwrite: "at + length bs \<le> length buf \<Longrightarrow> length (overwrite at bs buf) = length buf"
  by (simp add: overwrite_def)

lemma overwrite_append: "at + length bs \<le> length x \<Longrightarrow> overwrite at bs (x @ y) = overwrite at bs x @ y"
  by (simp add: overwrite_def)

lemma overwrite_twice: "at + length bs \<le> length buf \<Longrightarrow> overwrite (at + length bs) cs (overwrite at bs buf) = overwrite at (bs @ cs) buf"
  by (simp add: overwrite_def ac_simps)

lemma overwrite_full: "at + length bs = length x \<Longrightarrow> overwrite at (bs @ cs) (x @ y) = overwrite at bs x @ overwrite 0 cs y"
  by (simp add: overwrite_def add.assoc [symmetric] del: add.assoc)

text \<open>The bytes land behind each other, from offset \<open>b\<close> of the first element on.\<close>

lemma recv_scat_flows:
  assumes "flows ev" and "n \<le> length (stream_in ev)" and "scat_ok es" and "b + n \<le> length (scat_bytes es)"
    and "es = [] \<or> n = 0 \<or> b < nat (fst (hd es))"
  shows "\<exists>es' ev'. recv_scat n b es ev = Inr (Some es', ev') \<and> flows ev' \<and> stream_in ev' = drop n (stream_in ev)
     \<and> scat_ok es' \<and> map fst es' = map fst es \<and> scat_bytes es' = overwrite b (take n (stream_in ev)) (scat_bytes es)"
  using assms
proof (induction n b es ev rule: recv_scat.induct)
  case (1 n b es ev)
  show ?case
  proof (cases "n = 0")
    case True
    then show ?thesis using "1.prems" by (simp add: recv_scat.simps overwrite_def)
  next
    case False
    then obtain e rest where es: "es = e # rest" using "1.prems"(4) by (cases es) (auto simp: scat_bytes_def)
    have ne: "stream_in ev \<noteq> []" using "1.prems"(2) False by auto
    let ?room = "room_in e b n"
    have e: "0 < fst e" "length (snd e) = nat (fst e)" "scat_ok rest" using "1.prems"(3) es by (simp_all add: scat_ok_def)
    have b: "b < nat (fst e)" using "1.prems"(5) es False by simp
    have room: "0 < ?room" "?room \<le> n" "b + ?room \<le> length (snd e)" using b False e by (auto simp: room_in_def)
    obtain bs ev' where r: "sp_recv ?room ev = Inr (Some bs, ev')" "bs \<noteq> []" "length bs \<le> ?room"
      "flows ev'" "stream_in ev = bs @ stream_in ev'"
      using sp_recv_flows [OF "1.prems"(1) room(1) ne] by blast
    have l: "n - length bs \<le> length (stream_in ev')" using "1.prems"(2) r(5) by simp
    have sb: "scat_bytes es = snd e @ scat_bytes rest" by (simp add: es scat_bytes_def)
    have bn: "length bs \<le> n" using r(3) room(2) by simp
    have w: "length (overwrite b bs (snd e)) = length (snd e)" using r(3) room(3) by (simp add: length_overwrite)
    have tn: "take n (stream_in ev) = bs @ take (n - length bs) (stream_in ev')" "drop n (stream_in ev) = drop (n - length bs) (stream_in ev')"
      using r(5) bn by simp_all
    show ?thesis
    proof (cases "length bs = ?room")
      case True
      have full: "b + length bs = length (snd e) \<or> n - length bs = 0"
        using True e(2) b by (auto simp: room_in_def min_def)
      have q: "0 + (n - length bs) \<le> length (scat_bytes rest)" using full "1.prems"(4) sb by auto
      have hd: "rest = [] \<or> n - length bs = 0 \<or> 0 < nat (fst (hd rest))" using e(3) by (cases rest) (auto simp: scat_ok_def)
      obtain es' ev'' where h: "recv_scat (n - length bs) 0 rest ev' = Inr (Some es', ev'')" "flows ev''"
        "stream_in ev'' = drop (n - length bs) (stream_in ev')" "scat_ok es'" "map fst es' = map fst rest"
        "scat_bytes es' = overwrite 0 (take (n - length bs) (stream_in ev')) (scat_bytes rest)"
        using "1.IH"(1) [OF False es r(1) refl refl r(2) True r(4) l e(3) q hd] by blast
      have "scat_bytes (fill_in b bs e # es') = overwrite b bs (snd e) @ overwrite 0 (take (n - length bs) (stream_in ev')) (scat_bytes rest)"
        using h(6) by (simp add: scat_bytes_def fill_in_def)
      also have "\<dots> = overwrite b (take n (stream_in ev)) (scat_bytes es)"
      proof (cases "n - length bs = 0")
        case True
        then show ?thesis using e(2) r(3) room(3) unfolding tn sb overwrite_def by simp
      next
        case False
        then show ?thesis using full unfolding tn sb by (simp add: overwrite_full)
      qed
      finally show ?thesis
        using False es r True h tn w e by (subst recv_scat.simps) (auto simp: scat_ok_def fill_in_def)
    next
      case short: False
      have s: "scat_ok (fill_in b bs e # rest)" using e w by (simp add: scat_ok_def fill_in_def)
      have sb': "scat_bytes (fill_in b bs e # rest) = overwrite b bs (snd e) @ scat_bytes rest" by (simp add: scat_bytes_def fill_in_def)
      have q: "b + length bs + (n - length bs) \<le> length (scat_bytes (fill_in b bs e # rest))"
        using "1.prems"(4) sb sb' w bn by simp
      have hd: "fill_in b bs e # rest = [] \<or> n - length bs = 0 \<or> b + length bs < nat (fst (hd (fill_in b bs e # rest)))"
        using short r(3) by (auto simp: room_in_def fill_in_def min_def split: if_splits)
      obtain es' ev'' where h: "recv_scat (n - length bs) (b + length bs) (fill_in b bs e # rest) ev' = Inr (Some es', ev'')" "flows ev''"
        "stream_in ev'' = drop (n - length bs) (stream_in ev')" "scat_ok es'" "map fst es' = map fst (fill_in b bs e # rest)"
        "scat_bytes es' = overwrite (b + length bs) (take (n - length bs) (stream_in ev')) (scat_bytes (fill_in b bs e # rest))"
        using "1.IH"(2) [OF False es r(1) refl refl r(2) short r(4) l s q hd] by blast
      have "overwrite (b + length bs) (take (n - length bs) (stream_in ev')) (overwrite b bs (snd e) @ scat_bytes rest)
          = overwrite b (take n (stream_in ev)) (scat_bytes es)"
        using r(3) room(3) unfolding tn sb by (simp add: overwrite_twice flip: overwrite_append)
      then show ?thesis
        using False es r short h tn sb' by (subst recv_scat.simps) (auto simp: fill_in_def)
    qed
  qed
qed

end
