(* ===== verification/Client_Receiving.thy ===== *)
theory Client_Receiving
  imports Client_Stream
begin

section \<open>Receiving a message\<close>

text \<open>
  \<open>next_message\<close>: the next message of a session is given by its header, groups and data; its header
  is in the stream, or was read before by a call whose buffers were too short. A receive with room
  gives the message, one without leaves it the next.
\<close>

subsection \<open>The header\<close>

definition wf_header32 :: "message_header \<Rightarrow> bool" where
  "wf_header32 h \<longleftrightarrow> wf_mess_header h \<and> is_int32 (mh_num_groups h) \<and> is_int32 (mh_data_len h)"

lemma header_of_head_bytes:
  assumes "wf_header32 h"
  shows "header_of (head_bytes h @ rest) = h"
proof -
  have l: "length (mh_private_group_name h) = 32" using assms by (simp add: wf_header32_def wf_mess_header_def MAX_GROUP_NAME_def)
  have "drop 4 (head_bytes h @ rest) = map of_char (mh_private_group_name h) @ host32 (word_of_int (mh_num_groups h))
      @ host32 (mh_hint h) @ host32 (word_of_int (mh_data_len h)) @ rest"
    "drop 36 (head_bytes h @ rest) = host32 (word_of_int (mh_num_groups h)) @ host32 (mh_hint h) @ host32 (word_of_int (mh_data_len h)) @ rest"
    "drop 40 (head_bytes h @ rest) = host32 (mh_hint h) @ host32 (word_of_int (mh_data_len h)) @ rest"
    "drop 44 (head_bytes h @ rest) = host32 (word_of_int (mh_data_len h)) @ rest"
    using l by (simp_all add: head_bytes_def)
  then show ?thesis
    using assms l by (simp add: header_of_def wf_header32_def sint_of_int32 head_bytes_def)
qed

subsection \<open>The next message\<close>

definition active :: "int \<Rightarrow> nat \<Rightarrow> library \<Rightarrow> bool" where
  "active mbox i s \<longleftrightarrow> SP_get_session mbox s = int i \<and> i < length (lib_sessions s) \<and> sp_state (lib_sessions s ! i) = SESS_ACTIVE"

lemma find_from_upd: "p y = p (xs ! j) \<Longrightarrow> find_from n p (xs[j := y]) = find_from n p xs"
  by (induction xs arbitrary: n j) (auto split: nat.splits simp: nth_Cons)

lemma active_upd:
  assumes "\<And>e. sp_mbox (f e) = sp_mbox e" and "\<And>e. sp_state (f e) = sp_state e"
  shows "active mbox i (upd_sp j f s) = active mbox i s"
proof -
  have "SP_get_session mbox (upd_sp j f s) = SP_get_session mbox s"
    using assms(1) by (simp add: SP_get_session_def upd_sp_def find_from_upd)
  moreover have "sp_state (lib_sessions (upd_sp j f s) ! i) = sp_state (lib_sessions s ! i)" if "i < length (lib_sessions s)"
    using that assms(2) by (cases "i = j") (simp_all add: upd_sp_def)
  ultimately show ?thesis by (auto simp: active_def upd_sp_def)
qed

lemma active_sockets [simp]: "active mbox i (s\<lparr>lib_sockets := k\<rparr>) = active mbox i s"
  by (simp add: active_def SP_get_session_def)

lemma active_saves [simp]: "active mbox i (save_head b j h s) = active mbox i s" "active mbox i (clear_saved b j s) = active mbox i s"
  by (simp_all add: save_head_def clear_saved_def active_upd)

abbreviation input :: "library \<Rightarrow> 8 word list" where
  "input s \<equiv> stream_in (recv_events (lib_sockets s))"

definition body_stream :: "message_header \<Rightarrow> 32 word \<Rightarrow> 8 word list \<Rightarrow> 8 word list \<Rightarrow> 8 word list" where
  "body_stream h old groups data = (if Is_reject_mess (mh_type h) then host32 old else []) @ groups @ data"

definition well_formed :: "message_header \<Rightarrow> 8 word list \<Rightarrow> 8 word list \<Rightarrow> bool" where
  "well_formed h groups data \<longleftrightarrow> wf_header32 h \<and> Same_endian (mh_type h) \<and> 0 \<le> mh_num_groups h
     \<and> length groups = MAX_GROUP_NAME * nat (mh_num_groups h) \<and> mh_data_len h = int (length data)"

definition next_message :: "nat \<Rightarrow> message_header \<Rightarrow> 8 word list \<Rightarrow> library \<Rightarrow> bool" where
  "next_message i h tail s \<longleftrightarrow> flows (recv_events (lib_sockets s))
     \<and> (if recv_message_saved (lib_sessions s ! i) then recv_saved_head (lib_sessions s ! i) = h \<and> input s = tail
        else input s = head_bytes h @ tail)"

definition fits_in :: "message_header \<Rightarrow> receive_args \<Rightarrow> bool" where
  "fits_in h a \<longleftrightarrow> mh_num_groups h \<le> ra_max_groups a \<and> mh_data_len h \<le> sum_list (map fst (ra_scat a))"

lemma receive_head_next:
  assumes n: "next_message i h tail s" and wf: "wf_header32 h" "Same_endian (mh_type h)"
  shows "\<exists>k. receive_head i s = Inr (Some h, s\<lparr>lib_sockets := k\<rparr>) \<and> flows (recv_events k) \<and> stream_in (recv_events k) = tail"
proof (cases "recv_message_saved (lib_sessions s ! i)")
  case True
  then show ?thesis using n by (intro exI [of _ "lib_sockets s"]) (simp add: receive_head_def next_message_def)
next
  case False
  then have st: "input s = head_bytes h @ tail" "flows (recv_events (lib_sockets s))" using n by (simp_all add: next_message_def)
  have l: "length (head_bytes h) = sizeof_message_header" using wf(1) by (simp add: wf_header32_def sizeof_message_header_def)
  obtain k where "sock_recv_all sizeof_message_header (lib_sockets s) = Inr (Some (head_bytes h), k)"
    "flows (recv_events k)" "stream_in (recv_events k) = tail"
    using socket.takes_prefix [OF st(2,1) l] by blast
  moreover have "header_of (head_bytes h) = h" using header_of_head_bytes [OF wf(1), of "[]"] by simp
  ultimately show ?thesis using False wf(2) by (intro exI [of _ k]) (simp add: receive_head_def)
qed

lemma receive_old_type_flows:
  assumes "flows (recv_events k)" and "stream_in (recv_events k) = body_stream h old groups data @ rest" and "Same_endian (mh_type h)"
  shows "\<exists>k'. receive_old_type h k = Inr (Some (if Is_reject_mess (mh_type h) then old else 0), k') \<and> flows (recv_events k')
     \<and> stream_in (recv_events k') = groups @ data @ rest"
proof (cases "Is_reject_mess (mh_type h)")
  case True
  then have "stream_in (recv_events k) = host32 old @ groups @ data @ rest" using assms(2) by (simp add: body_stream_def)
  from socket.takes_prefix [OF assms(1) this, of 4] obtain k' where
    "sock_recv_all 4 k = Inr (Some (host32 old), k')" "flows (recv_events k')" "stream_in (recv_events k') = groups @ data @ rest" by auto
  then show ?thesis using True assms(3) read32_host [of old "[]"] by (simp add: receive_old_type_def)
next
  case False
  then show ?thesis using assms by (simp add: receive_old_type_def body_stream_def)
qed

lemma receive_groups_flows:
  assumes "flows (recv_events k)" and "stream_in (recv_events k) = groups @ rest"
    and "length groups = MAX_GROUP_NAME * nat (mh_num_groups h)" and "0 \<le> mh_num_groups h" and "mh_num_groups h \<le> ra_max_groups a"
  shows "\<exists>k'. receive_groups h a k
       = Inr (Some (a\<lparr>ra_groups := overwrite 0 groups (ra_groups a), ra_num_groups := mh_num_groups h\<rparr>), k')
     \<and> flows (recv_events k') \<and> stream_in (recv_events k') = rest"
proof -
  have "nat (mh_num_groups h * int MAX_GROUP_NAME) = length groups" using assms(3,4) by (simp add: nat_mult_distrib)
  moreover obtain k' where "sock_recv_all (length groups) k = Inr (Some groups, k')" "flows (recv_events k')" "stream_in (recv_events k') = rest"
    using socket.takes_prefix [OF assms(1,2) refl] by blast
  ultimately show ?thesis using assms(5) by (simp add: receive_groups_def)
qed

lemma scat_ok_starts: "scat_ok es \<Longrightarrow> dropWhile (\<lambda>e. fst e = 0) es = es \<and> takeWhile (\<lambda>e. fst e = 0) es = []"
  by (cases es) (auto simp: scat_ok_def)

lemma scat_size: "scat_ok es \<Longrightarrow> int (length (scat_bytes es)) = sum_list (map fst es)"
  by (induction es) (auto simp: scat_ok_def scat_bytes_def)

lemma receive_body_flows:
  assumes "flows (recv_events k)" and "stream_in (recv_events k) = data @ rest" and "nat (min (mh_data_len h) max_mess_len) = length data"
    and "scat_ok (ra_scat a)" and "max_mess_len = sum_list (map fst (ra_scat a))"
    and "Same_endian (mh_type h)"
  shows "\<exists>k' es. receive_body h max_mess_len me a k
       = Inr (Some (a\<lparr>ra_scat := es, ra_mess_type := if Is_reg_memb_mess (mh_type h) \<and> mh_num_groups h \<le> ra_max_groups a
                        then my_index (mh_num_groups h) (ra_groups a) me (ra_mess_type a) else ra_mess_type a\<rparr>), k')
     \<and> flows (recv_events k') \<and> stream_in (recv_events k') = rest
     \<and> map fst es = map fst (ra_scat a) \<and> scat_bytes es = overwrite 0 data (scat_bytes (ra_scat a))"
proof -
  have l: "length data \<le> length (stream_in (recv_events k))" "0 + length data \<le> length (scat_bytes (ra_scat a))"
    using assms(2,3,5) scat_size [OF assms(4)] by (auto simp: min_def split: if_splits)
  have hd: "ra_scat a = [] \<or> length data = 0 \<or> 0 < nat (fst (hd (ra_scat a)))" using assms(4) by (cases "ra_scat a") (auto simp: scat_ok_def)
  obtain es ev where r: "recv_scat (length data) 0 (ra_scat a) (recv_events k) = Inr (Some es, ev)" "flows ev"
    "stream_in ev = rest" "map fst es = map fst (ra_scat a)" "scat_bytes es = overwrite 0 data (scat_bytes (ra_scat a))"
    using recv_scat_flows [OF assms(1) l(1) assms(4) l(2) hd] assms(2) by auto
  have "recv_data (nat (min (mh_data_len h) max_mess_len)) (ra_scat a) k = Inr (Some es, k\<lparr>recv_events := ev\<rparr>)"
    using r(1) scat_ok_starts [OF assms(4)] by (simp add: recv_data_def assms(3) Let_def)
  then show ?thesis
    using r assms(6) by (intro exI [of _ "k\<lparr>recv_events := ev\<rparr>"] exI [of _ es]) (simp add: receive_body_def)
qed

text \<open>What a receive that has room gives back.\<close>

definition gives :: "receive_args \<Rightarrow> message_header \<Rightarrow> 32 word \<Rightarrow> 8 word list \<Rightarrow> 8 word list \<Rightarrow> string \<Rightarrow> receive_args \<Rightarrow> bool" where
  "gives a h old groups data me a' \<longleftrightarrow>
     ra_service_type a' = Clear_endian (if Is_reject_mess (mh_type h) then old OR REJECT_MESS else mh_type h)
     \<and> ra_sender a' = mh_private_group_name h \<and> ra_num_groups a' = mh_num_groups h
     \<and> ra_groups a' = overwrite 0 groups (ra_groups a)
     \<and> map fst (ra_scat a') = map fst (ra_scat a) \<and> scat_bytes (ra_scat a') = overwrite 0 data (scat_bytes (ra_scat a))
     \<and> ra_endian_mismatch a' = (if carries_type h \<and> \<not> Same_endian (mh_hint h) then 1 else 0)
     \<and> ra_mess_type a' = (if Is_reg_memb_mess (mh_type h)
         then my_index (mh_num_groups h) (ra_groups a') me (if carries_type h then hint_type (mh_hint h) else -1)
         else if carries_type h then hint_type (mh_hint h) else -1)"

lemma receive_with_room:
  assumes act: "active mbox i s" and wf: "well_formed h groups data" and nm: "next_message i h (body_stream h old groups data @ rest) s"
    and fit: "fits_in h a" and sc: "scat_ok (ra_scat a)"
  shows "\<exists>a' k. SP_scat_receive mbox a s
       = Inr ((mh_data_len h, a'), clear_saved (recv_message_saved (lib_sessions s ! i)) i (s\<lparr>lib_sockets := k\<rparr>))
     \<and> gives a h old groups data (sp_private_group_name (lib_sessions s ! i)) a'
     \<and> flows (recv_events k) \<and> stream_in (recv_events k) = rest"
proof -
  have w: "wf_header32 h" "Same_endian (mh_type h)" "0 \<le> mh_num_groups h" "length groups = MAX_GROUP_NAME * nat (mh_num_groups h)"
    "mh_data_len h = int (length data)" using wf by (simp_all add: well_formed_def)
  have f: "mh_num_groups h \<le> ra_max_groups a" "mh_data_len h \<le> sum_list (map fst (ra_scat a))" using fit by (simp_all add: fits_in_def)
  have neg: "\<not> (\<exists>x \<in> set (ra_scat a). fst x < 0)" using sc by (force simp: scat_ok_def list_all_iff)
  obtain k1 where k1: "receive_head i s = Inr (Some h, s\<lparr>lib_sockets := k1\<rparr>)" "flows (recv_events k1)"
    "stream_in (recv_events k1) = body_stream h old groups data @ rest"
    using receive_head_next [OF nm w(1,2)] by blast
  let ?a1 = "a\<lparr>ra_mess_type := if carries_type h then hint_type (mh_hint h) else -1,
    ra_endian_mismatch := if carries_type h \<and> \<not> Same_endian (mh_hint h) then 1 else 0, ra_sender := mh_private_group_name h\<rparr>"
  obtain k2 where k2: "receive_old_type h k1 = Inr (Some (if Is_reject_mess (mh_type h) then old else 0), k2)" "flows (recv_events k2)"
    "stream_in (recv_events k2) = groups @ data @ rest"
    using receive_old_type_flows [OF k1(2,3) w(2)] by blast
  have fa: "mh_num_groups h \<le> ra_max_groups ?a1" using f by simp
  let ?a2 = "?a1\<lparr>ra_groups := overwrite 0 groups (ra_groups ?a1), ra_num_groups := mh_num_groups h\<rparr>"
  obtain k3 where k3: "receive_groups h ?a1 k2 = Inr (Some ?a2, k3)" "flows (recv_events k3)" "stream_in (recv_events k3) = data @ rest"
    using receive_groups_flows [OF k2(2,3) w(4,3) fa] by blast
  let ?me = "sp_private_group_name (lib_sessions s ! i)"
  have sc2: "nat (min (mh_data_len h) (sum_list (map fst (ra_scat a)))) = length data" "scat_ok (ra_scat ?a2)"
    "sum_list (map fst (ra_scat a)) = sum_list (map fst (ra_scat ?a2))" using sc f w(5) by simp_all
  obtain k4 es where k4: "receive_body h (sum_list (map fst (ra_scat a))) ?me ?a2 k3
       = Inr (Some (?a2\<lparr>ra_scat := es, ra_mess_type := if Is_reg_memb_mess (mh_type h) \<and> mh_num_groups h \<le> ra_max_groups ?a2
                        then my_index (mh_num_groups h) (ra_groups ?a2) ?me (ra_mess_type ?a2) else ra_mess_type ?a2\<rparr>), k4)"
    "flows (recv_events k4)" "stream_in (recv_events k4) = rest"
    "map fst es = map fst (ra_scat ?a2)" "scat_bytes es = overwrite 0 data (scat_bytes (ra_scat ?a2))"
    using receive_body_flows [OF k3(2,3) sc2 w(2), of ?me] by blast
  let ?a3 = "?a2\<lparr>ra_scat := es, ra_mess_type := if Is_reg_memb_mess (mh_type h) \<and> mh_num_groups h \<le> ra_max_groups ?a2
                        then my_index (mh_num_groups h) (ra_groups ?a2) ?me (ra_mess_type ?a2) else ra_mess_type ?a2\<rparr>"
  let ?a4 = "?a3\<lparr>ra_service_type := Clear_endian (if Is_reject_mess (mh_type h) then old OR REJECT_MESS else mh_type h)\<rparr>"
  have run: "SP_scat_receive mbox a s
      = Inr ((mh_data_len h, ?a4), clear_saved (recv_message_saved (lib_sessions s ! i)) i (s\<lparr>lib_sockets := k4\<rparr>))"
    using act f w(3,5) neg k1(1) k2(1) k3(1) k4(1)
    by (simp add: SP_scat_receive_def active_def Let_def received_or_closed_def)
  show ?thesis
    by (rule exI [of _ ?a4], rule exI [of _ k4]) (use run k4 f in \<open>simp add: gives_def\<close>)
qed

text \<open>A receive without room: the header is kept, and nothing else has been read.\<close>

lemma receive_without_room:
  assumes act: "active mbox i s" and wf: "well_formed h groups data" and nm: "next_message i h tail s"
    and fit: "\<not> fits_in h a" and sc: "scat_ok (ra_scat a)" and drop: "\<not> Is_drop_recv (ra_service_type a)"
  shows "\<exists>k. SP_scat_receive mbox a s = Inr (too_short h (sum_list (map fst (ra_scat a))) a,
       save_head (recv_message_saved (lib_sessions s ! i)) i h (s\<lparr>lib_sockets := k\<rparr>))
     \<and> flows (recv_events k) \<and> stream_in (recv_events k) = tail"
proof -
  have w: "wf_header32 h" "Same_endian (mh_type h)" "0 \<le> mh_num_groups h" "mh_data_len h = int (length data)"
    using wf by (simp_all add: well_formed_def)
  have neg: "\<not> (\<exists>x \<in> set (ra_scat a). fst x < 0)" using sc by (force simp: scat_ok_def list_all_iff)
  obtain k where k: "receive_head i s = Inr (Some h, s\<lparr>lib_sockets := k\<rparr>)" "flows (recv_events k)" "stream_in (recv_events k) = tail"
    using receive_head_next [OF nm w(1,2)] by blast
  have "SP_scat_receive mbox a s = Inr (too_short h (sum_list (map fst (ra_scat a))) a,
       save_head (recv_message_saved (lib_sessions s ! i)) i h (s\<lparr>lib_sockets := k\<rparr>))"
    using act fit w(3,4) neg k(1) drop by (auto simp: SP_scat_receive_def active_def Let_def fits_in_def)
  with k show ?thesis by blast
qed

text \<open>
  A call that drops what does not fit, after one that kept the header: it takes the whole message
  from the stream, and the header stays kept.
\<close>

lemma drop_keeps_header:
  assumes act: "active mbox i s" and wf: "well_formed h groups data" and nm: "next_message i h (body_stream h old groups data @ rest) s"
    and saved: "recv_message_saved (lib_sessions s ! i)" and drop: "Is_drop_recv (ra_service_type a)" and sc: "scat_ok (ra_scat a)"
    and g: "mh_num_groups h \<le> ra_max_groups a" and short: "sum_list (map fst (ra_scat a)) < mh_data_len h"
  shows "\<exists>a' k. SP_scat_receive mbox a s = Inr ((BUFFER_TOO_SHORT, a'), s\<lparr>lib_sockets := k\<rparr>)
     \<and> flows (recv_events k) \<and> stream_in (recv_events k) = rest"
proof -
  let ?m = "sum_list (map fst (ra_scat a))" let ?me = "sp_private_group_name (lib_sessions s ! i)"
  have w: "wf_header32 h" "Same_endian (mh_type h)" "0 \<le> mh_num_groups h" "length groups = MAX_GROUP_NAME * nat (mh_num_groups h)"
    "mh_data_len h = int (length data)" using wf by (simp_all add: well_formed_def)
  have neg: "\<not> (\<exists>x \<in> set (ra_scat a). fst x < 0)" using sc by (force simp: scat_ok_def list_all_iff)
  have m0: "0 \<le> ?m" using scat_size [OF sc] by simp
  obtain k1 where k1: "receive_head i s = Inr (Some h, s\<lparr>lib_sockets := k1\<rparr>)" "flows (recv_events k1)"
    "stream_in (recv_events k1) = body_stream h old groups data @ rest"
    using receive_head_next [OF nm w(1,2)] by blast
  let ?a1 = "a\<lparr>ra_mess_type := if carries_type h then hint_type (mh_hint h) else -1,
    ra_endian_mismatch := if carries_type h \<and> \<not> Same_endian (mh_hint h) then 1 else 0, ra_sender := mh_private_group_name h\<rparr>"
  obtain k2 where k2: "receive_old_type h k1 = Inr (Some (if Is_reject_mess (mh_type h) then old else 0), k2)" "flows (recv_events k2)"
    "stream_in (recv_events k2) = groups @ data @ rest"
    using receive_old_type_flows [OF k1(2,3) w(2)] by blast
  have fa: "mh_num_groups h \<le> ra_max_groups ?a1" using g by simp
  let ?a2 = "?a1\<lparr>ra_groups := overwrite 0 groups (ra_groups ?a1), ra_num_groups := mh_num_groups h\<rparr>"
  obtain k3 where k3: "receive_groups h ?a1 k2 = Inr (Some ?a2, k3)" "flows (recv_events k3)" "stream_in (recv_events k3) = data @ rest"
    using receive_groups_flows [OF k2(2,3) w(4,3) fa] by blast
  have st: "stream_in (recv_events k3) = take (nat ?m) data @ drop (nat ?m) data @ rest" using k3(3) by simp
  have lt: "nat ?m < length data" using short w(5) m0 by (simp add: nat_less_iff)
  have sc2: "nat (min (mh_data_len h) ?m) = length (take (nat ?m) data)" "scat_ok (ra_scat ?a2)"
    "?m = sum_list (map fst (ra_scat ?a2))" using sc short w(5) lt by (simp_all add: min_def)
  obtain k4 es where k4: "receive_body h ?m ?me ?a2 k3
       = Inr (Some (?a2\<lparr>ra_scat := es, ra_mess_type := if Is_reg_memb_mess (mh_type h) \<and> mh_num_groups h \<le> ra_max_groups ?a2
                        then my_index (mh_num_groups h) (ra_groups ?a2) ?me (ra_mess_type ?a2) else ra_mess_type ?a2\<rparr>), k4)"
    "flows (recv_events k4)" "stream_in (recv_events k4) = drop (nat ?m) data @ rest"
    using receive_body_flows [OF k3(2) st sc2 w(2), of ?me] by blast
  have "length (drop (nat ?m) data) = nat (mh_data_len h - ?m)" using w(5) m0 by (simp add: nat_diff_distrib)
  then obtain k5 where k5: "sock_recv_dummy (nat (mh_data_len h - ?m)) k4 = Inr (True, k5)" "flows (recv_events k5)"
    "stream_in (recv_events k5) = rest"
    using dummy_prefix [OF k4(2,3)] by blast
  have "\<exists>a'. SP_scat_receive mbox a s = Inr ((BUFFER_TOO_SHORT, a'), s\<lparr>lib_sockets := k5\<rparr>)"
    using act g w(3,5) neg k1(1) k2(1) k3(1) k4(1) k5(1) drop short
    by (simp add: SP_scat_receive_def active_def Let_def received_or_closed_def)
  then show ?thesis using k5 by blast
qed

end
