(* ===== verification/Client_Sending.thy ===== *)
theory Client_Sending
  imports Client_Receiving Session_Auth
begin

section \<open>From the library to the daemon\<close>

text \<open>
  What \<open>SP_internal_multicast\<close> sends is a message that \<open>Sess_validate_read_header\<close> accepts and
  \<open>Sess_read\<close> reads, as long as the library's private group is that of the daemon's session.
\<close>

subsection \<open>Sending\<close>

text \<open>A script that sends: every \<open>send\<close> takes something, and there are enough for \<open>n\<close> bytes.\<close>

fun takes_some :: "send_event \<Rightarrow> bool" where
  "takes_some (Sent k) = (0 < k)"
| "takes_some _ = False"

definition willing :: "nat \<Rightarrow> send_event list \<Rightarrow> bool" where
  "willing n es \<longleftrightarrow> list_all (\<lambda>e. takes_some e \<or> e = Send_again) es \<and> n \<le> length (filter takes_some es)"

lemma send_all_willing:
  "willing (length bs + m) es \<Longrightarrow> \<exists>es'. sp_send_all strict bs es = Inr (True, bs, es') \<and> willing m es'"
proof (induction strict bs es rule: sp_send_all.induct)
  case (1 strict bs es)
  show ?case
  proof (cases "bs = []")
    case True
    then show ?thesis using "1.prems" by (simp add: sp_send_all.simps)
  next
    case False
    then obtain e rest where es: "es = e # rest" using "1.prems" by (cases es) (auto simp: willing_def)
    have e: "takes_some e \<or> e = Send_again" using "1.prems" es by (simp add: willing_def)
    show ?thesis
    proof (cases e)
      case (Sent k)
      then have k: "0 < k" using e by simp
      have w: "willing (length (drop k bs) + m) rest" using "1.prems" Sent es k False by (cases bs) (auto simp: willing_def)
      have "\<not> (k = 0 \<and> strict)" using k by simp
      from "1.IH"(1) [OF False es Sent this w] obtain es' where
        "sp_send_all strict (drop k bs) rest = Inr (True, drop k bs, es')" "willing m es'" by blast
      then show ?thesis using False es Sent k by (subst sp_send_all.simps) simp
    next
      case Send_again
      have "willing (length bs + m) rest" using "1.prems" Send_again es by (simp add: willing_def)
      from "1.IH"(2) [OF False es Send_again this] show ?thesis using False es Send_again by (subst sp_send_all.simps) simp
    next
      case Send_error
      then show ?thesis using e by simp
    qed
  qed
qed

definition sent :: "int \<Rightarrow> sockets \<Rightarrow> 8 word list" where
  "sent mbox k = concat (map snd (filter (\<lambda>x. fst x = mbox) (stream_out k)))"

lemma sock_send_all_willing:
  assumes "willing (length bs + m) (send_events k)"
  shows "\<exists>k'. sock_send_all strict mbox bs k = Inr (True, k') \<and> willing m (send_events k') \<and> sent mbox k' = sent mbox k @ bs
     \<and> recv_events k' = recv_events k \<and> closed_mboxes k' = closed_mboxes k"
  using send_all_willing [OF assms, of strict] by (auto simp: sock_send_all_def sent_def)

definition data_of :: "element list \<Rightarrow> 8 word list" where
  "data_of es = concat (map element_bytes es)"

lemma send_elements_willing:
  "willing (length (data_of es) + m) (send_events k) \<Longrightarrow>
   \<exists>k'. send_elements mbox es k = Inr (True, k') \<and> willing m (send_events k') \<and> sent mbox k' = sent mbox k @ data_of es
     \<and> recv_events k' = recv_events k \<and> closed_mboxes k' = closed_mboxes k"
  unfolding send_elements_def
proof (induction es arbitrary: k)
  case Nil
  then show ?case by (simp add: data_of_def)
next
  case (Cons e es)
  have w: "willing (length (element_bytes e) + (length (data_of es) + m)) (send_events k)"
    using Cons.prems by (simp add: data_of_def add.assoc)
  from sock_send_all_willing [OF w, of False mbox] obtain k1 where
    k1: "sock_send_all False mbox (element_bytes e) k = Inr (True, k1)" "willing (length (data_of es) + m) (send_events k1)"
    "sent mbox k1 = sent mbox k @ element_bytes e" "recv_events k1 = recv_events k" "closed_mboxes k1 = closed_mboxes k" by blast
  from Cons.IH [OF k1(2)] show ?case using k1 by (auto simp: data_of_def)
qed

definition proper :: "element list \<Rightarrow> bool" where
  "proper es \<longleftrightarrow> list_all (\<lambda>e. 0 \<le> fst e \<and> nat (fst e) \<le> length (snd e)) es"

lemma proper_size: "proper es \<Longrightarrow> int (length (data_of es)) = sum_list (map fst es)"
  by (induction es) (auto simp: proper_def data_of_def element_bytes_def)

lemma multicast_sends:
  assumes act: "active mbox i s" and n: "0 \<le> num_groups" "length groups = MAX_GROUP_NAME * nat num_groups"
    "sizeof_message_header + MAX_GROUP_NAME * nat num_groups \<le> head_buf_size"
    and pr: "proper scat" and size: "int (length (data_of scat)) + num_groups * int MAX_GROUP_NAME \<le> int MAX_MESSAGE_BODY_LEN"
    and gf: "Bytes.fits MAX_GROUP_NAME (sp_private_group_name (lib_sessions s ! i))"
    and will: "willing (sizeof_message_header + length groups + length (data_of scat)) (send_events (lib_sockets s))"
  shows "\<exists>s'. SP_internal_multicast mbox service_type num_groups groups mess_type scat s = Inr (int (length (data_of scat)), s')
     \<and> lib_sessions s' = lib_sessions s
     \<and> sent mbox (lib_sockets s') = sent mbox (lib_sockets s)
         @ head_bytes (message_head (sp_private_group_name (lib_sessions s ! i)) service_type num_groups mess_type (int (length (data_of scat))))
         @ groups @ data_of scat"
proof -
  let ?h = "message_head (sp_private_group_name (lib_sessions s ! i)) service_type num_groups mess_type (int (length (data_of scat)))"
  have wf: "wf_mess_header ?h" by (simp add: message_head_def wf_mess_header_def MAX_GROUP_NAME_def)
  have l: "length (head_bytes ?h @ groups) = sizeof_message_header + length groups" using wf by (simp add: sizeof_message_header_def)
  have w1: "willing (length (head_bytes ?h @ groups) + (length (data_of scat) + 0)) (send_events (lib_sockets s))"
    using will l by (simp add: add.assoc)
  from sock_send_all_willing [OF w1, of True mbox] obtain k1 where k1: "sock_send_all True mbox (head_bytes ?h @ groups) (lib_sockets s) = Inr (True, k1)"
    "willing (length (data_of scat) + 0) (send_events k1)" "sent mbox k1 = sent mbox (lib_sockets s) @ head_bytes ?h @ groups" by blast
  from send_elements_willing [OF k1(2), of mbox] obtain k2 where k2: "send_elements mbox scat k1 = Inr (True, k2)"
    "sent mbox k2 = sent mbox k1 @ data_of scat" by blast
  have neg: "\<not> (\<exists>x \<in> set scat. fst x < 0)" using pr by (force simp: proper_def list_all_iff)
  have "SP_internal_multicast mbox service_type num_groups groups mess_type scat s = Inr (int (length (data_of scat)), s\<lparr>lib_sockets := k2\<rparr>)"
    using act n neg size proper_size [OF pr, symmetric] k1(1) k2(1)
    by (simp add: SP_internal_multicast_def active_def Let_def)
  then show ?thesis using k1(3) k2(2) by auto
qed

subsection \<open>The daemon accepts it\<close>

lemma count_bits_cong:
  "\<forall>j \<in> {k..<k + n}. bit f j = bit g j \<Longrightarrow> k + n \<le> 32 \<Longrightarrow> count_bits n (2 ^ k) f = count_bits n (2 ^ k) g"
proof (induction n arbitrary: k)
  case (Suc n)
  have b: "(f AND 2 ^ k \<noteq> 0) = bit f k" for f :: "32 word" by (simp add: and_exp_eq_0_iff_not_bit)
  have p: "push_bit 1 (2 ^ k) = (2 ^ Suc k :: 32 word)" by (simp add: push_bit_eq_mult)
  have "bit f k = bit g k" using Suc.prems by simp
  moreover have "count_bits n (2 ^ Suc k) f = count_bits n (2 ^ Suc k) g" using Suc.prems by (intro Suc.IH) auto
  ultimately show ?case unfolding count_bits.simps b p by simp
qed simp

lemma legal_type_endian: "legal_type (Set_endian t) = legal_type t"
proof -
  have s: "bit (Set_endian t) j = bit t j" if "j < 32" "j \<noteq> 7" "j \<noteq> 31" for j
    using that bit_ENDIAN_TYPE [of j] by (simp add: Set_endian_def ARCH_ENDIAN_def bit_simps flip: ENDIAN_TYPE_def)
  have "count_bits_set (Set_endian t) 0 6 = count_bits_set t 0 6" "count_bits_set (Set_endian t) 16 19 = count_bits_set t 16 19"
    using s count_bits_cong [of 0 6 "Set_endian t" t] count_bits_cong [of 16 3 "Set_endian t" t]
    by (simp_all add: count_bits_set_def)
  then show ?thesis by (simp add: legal_type_def cong: if_cong)
qed

lemma Set_endian_idem [simp]: "Set_endian (Set_endian t) = Set_endian t"
  by (simp add: Set_endian_def bit_eq_iff bit_simps) blast

lemma hint_legal: "Set_endian (push_bit 8 w AND 0x00ffff00) AND NOT (0x80000080 OR 0x00ffff00) = 0"
proof -
  have "bit (0x80000080 :: 32 word) j \<longleftrightarrow> bit ENDIAN_TYPE j" for j by (simp add: ENDIAN_TYPE_def)
  then show ?thesis
    by (intro bit_word_eqI) (auto simp: Set_endian_def ARCH_ENDIAN_def bit_simps simp flip: ENDIAN_TYPE_def)
qed

definition host_named :: "'a sess_st_scheme \<Rightarrow> bool" where
  "host_named s \<longleftrightarrow> list_all legal_name_char (p_name (My s)) \<and> p_name (My s) \<noteq> [] \<and> length (p_name (My s)) < MAX_PROC_NAME"

lemma private_group_fits:
  assumes "good_name n" and "host_named s"
  shows "Bytes.fits MAX_GROUP_NAME (private_group n s)"
proof -
  have "NUL \<noteq> c" if "legal_name_char c" for c using that by (auto simp: legal_name_char_def NUL_def less_char_def less_eq_char_def)
  then have "NUL \<notin> set n" "NUL \<notin> set (p_name (My s))" using assms by (auto simp: good_name_def host_named_def list_all_iff)
  then show ?thesis
    using assms by (simp add: Bytes.fits_def private_group_def good_name_def host_named_def MAX_GROUP_NAME_def MAX_PRIVATE_NAME_def
        MAX_PROC_NAME_def) (simp add: NUL_def)
qed

lemma head_accepted:
  fixes d :: "'a client_st_scheme"
  assumes name: "good_name (ses_name (ses_at d i))" "host_named d"
    and ty: "legal_type service_type = Inr True" and n: "0 \<le> num_groups" "num_groups \<le> int MAX_GROUPS_PER_MESSAGE"
    and len: "0 \<le> mess_len" "mess_len + int MAX_GROUP_NAME * num_groups \<le> int MAX_MESSAGE_BODY_LEN - int sizeof_message_header"
    and h: "h = message_head (private_group (ses_name (ses_at d i)) d) service_type num_groups mess_type mess_len"
  shows "wf_header32 h" and "accepted i (head_bytes h @ rest) d h"
proof -
  let ?p = "private_group (ses_name (ses_at d i)) d"
  have f: "Bytes.fits 32 ?p" using private_group_fits [OF name] by (simp add: MAX_GROUP_NAME_def)
  have big: "mess_len \<le> 144000" "num_groups \<le> 100" using n len by (simp_all add: mess_sizes)
  have within: "mess_len \<le> int MAX_MESSAGE_BODY_LEN" using big by (simp add: mess_sizes)
  show wf: "wf_header32 h"
    using n(1) len(1) big by (simp add: wf_header32_def h message_head_def wf_mess_header_def is_int32_def MAX_GROUP_NAME_def)
  have s: "sender_of h = ?p" using cstr_name_array [OF f] by (simp add: sender_of_def h message_head_def)
  have t: "terminate_sender h = h"
  proof -
    have "31 - length ?p < 32 - length ?p" using f by (auto simp: Bytes.fits_def)
    then have "name_array ?p ! 31 = NUL" using f by (simp add: name_array_def Bytes.fits_def MAX_GROUP_NAME_def nth_append)
    then have "(name_array ?p)[31 := NUL] = name_array ?p" by (metis list_update_id)
    then show ?thesis by (simp add: terminate_sender_def h message_head_def MAX_GROUP_NAME_def)
  qed
  have c: "correct_header h = h" by (simp add: correct_header_def h message_head_def Let_def)
  have "G_private_to_names ?p = Inr (Some (ses_name (ses_at d i), p_name (My d)))"
    using name by (intro private_group_splits) (simp_all add: host_named_def)
  then have "legal_sender i h d = Inr True" by (simp add: legal_sender_def s bindE_def strn_eq_def)
  moreover have "legal_sizes h"
    using n len within hint_legal [of "word_of_int mess_type"] by (simp add: legal_sizes_def h message_head_def)
  moreover have "legal_type (mh_type h) = Inr True" using ty legal_type_endian by (simp add: h message_head_def)
  moreover have "header_of (take sizeof_message_header (head_bytes h @ rest)) = h"
    using header_of_head_bytes [OF wf, of "[]"] wf by (simp add: wf_header32_def sizeof_message_header_def)
  ultimately show "accepted i (head_bytes h @ rest) d h"
    by (simp add: accepted_def c t Sess_validate_read_header_def bindE_def)
qed

text \<open>The whole message: its header, and its groups and data spread over the elements.\<close>

lemma message_taken:
  fixes d :: "'a client_st_scheme"
  assumes name: "good_name (ses_name (ses_at d i))" "host_named d"
    and ty: "legal_type service_type = Inr True" and n: "0 \<le> num_groups" "num_groups \<le> int MAX_GROUPS_PER_MESSAGE"
    "length groups = MAX_GROUP_NAME * nat num_groups"
    and len: "sizeof_message_header + length groups + length data \<le> MAX_SCATTER_ELEMENTS * sizeof_packet_body"
    and h: "h = message_head (private_group (ses_name (ses_at d i)) d) service_type num_groups mess_type (int (length data))"
  shows "\<exists>m. whole i (head_bytes h @ groups @ data) d m \<and> mo_head m = h \<and> concat (mo_data m) = groups @ data"
proof -
  have g: "int (length groups) = int MAX_GROUP_NAME * num_groups" using n by simp
  have l: "int (length data) + int MAX_GROUP_NAME * num_groups \<le> int MAX_MESSAGE_BODY_LEN - int sizeof_message_header"
    using len unfolding g [symmetric] by (simp add: mess_sizes)
  note acc = head_accepted [OF name ty n(1,2) _ l h]
  have wf: "wf_mess_header h" using acc(1) by (simp add: wf_header32_def)
  have le: "length (groups @ data) + sizeof_message_header \<le> MAX_SCATTER_ELEMENTS * sizeof_packet_body" using len by simp
  from fragments_carry_buffer [of "Message_new_message\<lparr>mo_head := h\<rparr>", OF _ le] wf obtain m where
    m: "Message_Buffer_to_Message_Fragments (Message_new_message\<lparr>mo_head := h\<rparr>) (groups @ data) = Inr m" "mo_head m = h"
      "concat (elements m) = head_bytes h @ groups @ data"
    by (auto elim!: returnsE)
  have "mo_data m \<noteq> []" using m(1) by (auto simp: Message_Buffer_to_Message_Fragments_def Let_def split: if_splits)
  then have "concat (mo_data m) = groups @ data" using m(2,3) by (cases "mo_data m") (simp_all add: elements_def)
  moreover have "whole i (head_bytes h @ groups @ data) d m"
    using acc(2) m wf g by (simp add: whole_def sizeof_message_header_def body_len_def h message_head_def)
  ultimately show ?thesis using m(2) by blast
qed

end
