(* ===== verification/Client_Views.thy ===== *)
theory Client_Views
  imports Client_Library Group_Views
begin

section \<open>The client library: reading membership messages\<close>

text \<open>
  Model of the routines of \<open>libspread/sp.c\<close> that take a membership message apart:
  \<open>SP_get_memb_info\<close>, \<open>SP_get_vs_sets_info\<close> and \<open>SP_get_vs_set_members\<close> for a message in one
  buffer, and \<open>scat_read\<close>, on which those for a scatter rest. A read outside the buffer is
  undefined.
\<close>

subsection \<open>Types\<close>

record vs_set_info =
  vi_num_members :: "32 word"
  vi_members_offset :: "32 word"

record membership_info =
  mi_gid :: group_id
  mi_changed_member :: "char list"
  mi_num_vs_sets :: "32 word"
  mi_my_vs_set :: vs_set_info

definition MEMBERSHIP_MESS :: "32 word" where "MEMBERSHIP_MESS = 0x00003f00"

definition Is_membership_mess :: "32 word \<Rightarrow> bool" where "Is_membership_mess t \<longleftrightarrow> t AND MEMBERSHIP_MESS \<noteq> 0"
definition Is_caused_join_mess :: "32 word \<Rightarrow> bool" where "Is_caused_join_mess t \<longleftrightarrow> t AND CAUSED_BY_JOIN \<noteq> 0"
definition Is_caused_leave_mess :: "32 word \<Rightarrow> bool" where "Is_caused_leave_mess t \<longleftrightarrow> t AND CAUSED_BY_LEAVE \<noteq> 0"
definition Is_caused_disconnect_mess :: "32 word \<Rightarrow> bool" where
  "Is_caused_disconnect_mess t \<longleftrightarrow> t AND CAUSED_BY_DISCONNECT \<noteq> 0"
definition Is_caused_network_mess :: "32 word \<Rightarrow> bool" where "Is_caused_network_mess t \<longleftrightarrow> t AND CAUSED_BY_NETWORK \<noteq> 0"

definition SP_equal_group_ids :: "group_id \<Rightarrow> group_id \<Rightarrow> bool" where
  "SP_equal_group_ids g1 g2 \<longleftrightarrow> mid_proc_id (gid_memb_id g1) = mid_proc_id (gid_memb_id g2)
     \<and> mid_time (gid_memb_id g1) = mid_time (gid_memb_id g2) \<and> gid_index g1 = gid_index g2"

text \<open>\<open>n\<close> bytes at an offset.\<close>

definition mess_bytes :: "8 word list \<Rightarrow> nat \<Rightarrow> nat \<Rightarrow> 8 word list outcome" where
  "mess_bytes mess at n = (if at + n > length mess then Inl (Undefined ''memb_mess'') else Inr (take n (drop at mess)))"

definition mess_int :: "8 word list \<Rightarrow> nat \<Rightarrow> 32 word outcome" where
  "mess_int mess at = bindE (mess_bytes mess at 4) (\<lambda>bs. Inr (read32 bs))"

definition gid_of :: "8 word list \<Rightarrow> group_id" where
  "gid_of bs = \<lparr>gid_memb_id = \<lparr>mid_proc_id = read32 bs, mid_time = sint (read32 (drop 4 bs))\<rparr>,
     gid_index = sint (read32 (drop 8 bs))\<rparr>"

definition SP_get_num_vs_sets_offset_memb_mess :: nat where "SP_get_num_vs_sets_offset_memb_mess = sizeof_group_id"
definition SP_get_offset_to_local_vs_set_offset :: nat where "SP_get_offset_to_local_vs_set_offset = sizeof_group_id + 4"
definition SP_get_first_vs_set_offset_memb_mess :: nat where "SP_get_first_vs_set_offset_memb_mess = sizeof_group_id + 8"
definition SP_get_vs_set_members_offset_vs_set :: nat where "SP_get_vs_set_members_offset_vs_set = 4"

lemmas memb_offsets = SP_get_num_vs_sets_offset_memb_mess_def SP_get_offset_to_local_vs_set_offset_def
  SP_get_first_vs_set_offset_memb_mess_def SP_get_vs_set_members_offset_vs_set_def

subsection \<open>A message in one buffer\<close>

text \<open>
  The info is an argument: a regular membership without a cause leaves the changed member as it was.
\<close>

definition changed_member :: "32 word \<Rightarrow> (nat \<Rightarrow> nat \<Rightarrow> 8 word list outcome) \<Rightarrow> char list \<Rightarrow> char list outcome" where
  "changed_member service_type bytes old =
     (if Is_caused_join_mess service_type \<or> Is_caused_leave_mess service_type \<or> Is_caused_disconnect_mess service_type
      then bindE (bytes (SP_get_first_vs_set_offset_memb_mess + SP_get_vs_set_members_offset_vs_set) MAX_GROUP_NAME)
             (\<lambda>bs. Inr (chars_of bs))
      else Inr (if Is_caused_network_mess service_type then replicate MAX_GROUP_NAME NUL else old))"

text \<open>What both \<open>SP_get_memb_info\<close> and \<open>SP_scat_get_memb_info\<close> do, by their way of reading.\<close>

definition get_memb_info ::
  "(nat \<Rightarrow> nat \<Rightarrow> 8 word list outcome) \<Rightarrow> 32 word \<Rightarrow> membership_info \<Rightarrow> (int \<times> membership_info) outcome" where
  "get_memb_info bytes service_type mi =
     (if \<not> Is_membership_mess service_type then Inr (ILLEGAL_MESSAGE, mi)
      else
        bindE (bytes 0 sizeof_group_id) (\<lambda>g.
        let mi1 = mi\<lparr>mi_gid := gid_of g\<rparr>
        in if \<not> Is_reg_memb_mess service_type
           then Inr (1, mi1\<lparr>mi_num_vs_sets := 0, mi_my_vs_set := \<lparr>vi_num_members = 0, vi_members_offset = 0\<rparr>\<rparr>)
           else
             bindE (changed_member service_type bytes (mi_changed_member mi)) (\<lambda>c.
             bindE (bytes SP_get_num_vs_sets_offset_memb_mess 4) (\<lambda>n.
             bindE (bytes SP_get_offset_to_local_vs_set_offset 4) (\<lambda>off.
               let at = read32 off + of_nat SP_get_first_vs_set_offset_memb_mess
               in bindE (bytes (unat at) 4) (\<lambda>m.
                    Inr (1, mi1\<lparr>mi_changed_member := c, mi_num_vs_sets := read32 n,
                              mi_my_vs_set := \<lparr>vi_num_members = read32 m,
                                vi_members_offset = at + of_nat SP_get_vs_set_members_offset_vs_set\<rparr>\<rparr>)))))))"

definition SP_get_memb_info :: "8 word list \<Rightarrow> 32 word \<Rightarrow> membership_info \<Rightarrow> (int \<times> membership_info) outcome" where
  "SP_get_memb_info mess = get_memb_info (mess_bytes mess)"

text \<open>The sets from the first one on; the index of the own set is kept when none is at its offset.\<close>

fun vs_sets_from :: "(nat \<Rightarrow> nat \<Rightarrow> 8 word list outcome) \<Rightarrow> 32 word \<Rightarrow> nat \<Rightarrow> nat \<Rightarrow> 32 word \<Rightarrow> nat
    \<Rightarrow> (vs_set_info list \<times> nat) outcome" where
  "vs_sets_from bytes local 0 i at mine = Inr ([], mine)"
| "vs_sets_from bytes local (Suc n) i at mine =
     bindE (bytes (unat at) 4) (\<lambda>bs.
       let m = read32 bs; members = at + of_nat SP_get_vs_set_members_offset_vs_set
       in bindE (vs_sets_from bytes local n (Suc i) (members + m * of_nat MAX_GROUP_NAME) (if at = local then i else mine))
            (\<lambda>(vs, mine'). Inr (\<lparr>vi_num_members = m, vi_members_offset = members\<rparr> # vs, mine')))"

definition SP_get_vs_sets_info :: "8 word list \<Rightarrow> int \<Rightarrow> nat \<Rightarrow> ((int \<times> vs_set_info list) \<times> nat) outcome" where
  "SP_get_vs_sets_info mess num_vs_sets my_vs_set_index =
     bindE (mess_int mess SP_get_num_vs_sets_offset_memb_mess) (\<lambda>actual.
       if word_of_int num_vs_sets < actual then Inr ((BUFFER_TOO_SHORT, []), my_vs_set_index)
       else bindE (mess_int mess SP_get_offset_to_local_vs_set_offset) (\<lambda>off.
              bindE (vs_sets_from (mess_bytes mess) (off + of_nat SP_get_first_vs_set_offset_memb_mess) (unat actual) 0
                       (of_nat SP_get_first_vs_set_offset_memb_mess) my_vs_set_index) (\<lambda>(vs, mine).
                Inr ((sint actual, vs), mine))))"

definition SP_get_vs_set_members :: "8 word list \<Rightarrow> vs_set_info \<Rightarrow> int \<Rightarrow> (int \<times> char list list) outcome" where
  "SP_get_vs_set_members mess vs member_names_count =
     (if word_of_int member_names_count < vi_num_members vs then Inr (BUFFER_TOO_SHORT, [])
      else
        let n = unat (vi_num_members vs); at = unat (vi_members_offset vs)
        in bindE (mess_bytes mess at (MAX_GROUP_NAME * n)) (\<lambda>bs.
             Inr (sint (vi_num_members vs), map (\<lambda>i. chars_of (take MAX_GROUP_NAME (drop (MAX_GROUP_NAME * i) bs))) [0..<n])))"

subsection \<open>A message in a scatter\<close>

text \<open>
  \<open>scat_read\<close> writes every piece at the start of its destination. A read that takes pieces of several
  elements therefore leaves the end of the destination as it was, which is undefined.
\<close>

fun scat_seek :: "element list \<Rightarrow> nat \<Rightarrow> nat \<Rightarrow> (nat \<times> nat) outcome" where
  "scat_seek [] i start_byte = Inl (Undefined ''scat_read'')"
| "scat_seek (e # es) i start_byte =
     (if start_byte > nat (fst e) then scat_seek es (Suc i) (start_byte - nat (fst e)) else Inr (i, start_byte))"

fun scat_copy :: "element list \<Rightarrow> nat \<Rightarrow> nat \<Rightarrow> 8 word list outcome" where
  "scat_copy [] b copy_size = (if copy_size = 0 then Inr [] else Inl (Undefined ''scat_read''))"
| "scat_copy (e # es) b copy_size =
     (let here = nat (fst e) - b
      in if copy_size \<le> here then Inr (take copy_size (drop b (snd e)))
         else if here = 0 then scat_copy es 0 copy_size
         else Inl (Undefined ''scat_read''))"

definition scat_read :: "element list \<Rightarrow> nat \<Rightarrow> nat \<Rightarrow> 8 word list outcome" where
  "scat_read es start_byte copy_size =
     bindE (scat_seek es 0 start_byte) (\<lambda>(i, b). scat_copy (drop i es) b copy_size)"

definition SP_scat_get_memb_info :: "element list \<Rightarrow> 32 word \<Rightarrow> membership_info \<Rightarrow> (int \<times> membership_info) outcome" where
  "SP_scat_get_memb_info es = get_memb_info (scat_read es)"

text \<open>The loop goes to the size of the caller's array, not to the number of sets.\<close>

definition SP_scat_get_vs_sets_info :: "element list \<Rightarrow> int \<Rightarrow> nat \<Rightarrow> ((int \<times> vs_set_info list) \<times> nat) outcome" where
  "SP_scat_get_vs_sets_info es num_vs_sets my_vs_set_index =
     bindE (scat_read es SP_get_num_vs_sets_offset_memb_mess 4) (\<lambda>a.
       if word_of_int num_vs_sets < read32 a then Inr ((BUFFER_TOO_SHORT, []), my_vs_set_index)
       else bindE (scat_read es SP_get_offset_to_local_vs_set_offset 4) (\<lambda>off.
              bindE (vs_sets_from (scat_read es) (read32 off + of_nat SP_get_first_vs_set_offset_memb_mess) (nat num_vs_sets) 0
                       (of_nat SP_get_first_vs_set_offset_memb_mess) my_vs_set_index) (\<lambda>(vs, mine).
                Inr ((sint (read32 a), vs), mine))))"

definition SP_scat_get_vs_set_members :: "element list \<Rightarrow> vs_set_info \<Rightarrow> int \<Rightarrow> (int \<times> 8 word list) outcome" where
  "SP_scat_get_vs_set_members es vs member_names_count =
     (if word_of_int member_names_count < vi_num_members vs then Inr (BUFFER_TOO_SHORT, [])
      else bindE (scat_read es (unat (vi_members_offset vs)) (MAX_GROUP_NAME * unat (vi_num_members vs)))
             (\<lambda>bs. Inr (sint (vi_num_members vs), bs)))"

end
