(* ===== verification/Client_Memberships.thy ===== *)
theory Client_Memberships
  imports Client_Views Group_Telling Group_Messages
begin

section \<open>The client reads the sets the daemon built\<close>

text \<open>
  The body of a membership message is the group id, the number of virtual synchrony sets, the
  offset of the client's own set from the first one, and the sets.
\<close>

definition memb_body :: "group_id \<Rightarrow> string list list \<Rightarrow> nat \<Rightarrow> 8 word list" where
  "memb_body gid sets offset =
     group_id_bytes gid @ host32 (of_nat (length sets)) @ host32 (of_nat offset) @ vs_region sets"

subsection \<open>Reading parts of a buffer\<close>

lemma mess_bytes_part: "mess = pre @ bs @ post \<Longrightarrow> at = length pre \<Longrightarrow> n = length bs \<Longrightarrow> mess_bytes mess at n = Inr bs"
  by (simp add: mess_bytes_def)

lemma length_names_bytes: "length (concat (map name_bytes S)) = MAX_GROUP_NAME * length S"
  by (induction S) (simp_all add: MAX_GROUP_NAME_def)

lemma names_read: "i < length S \<Longrightarrow>
    take MAX_GROUP_NAME (drop (MAX_GROUP_NAME * i) (concat (map name_bytes S))) = name_bytes (S ! i)"
proof (induction S arbitrary: i)
  case (Cons n S)
  then show ?case
    by (cases i) (simp_all add: MAX_GROUP_NAME_def)
qed simp

lemma unat32: "n < 2 ^ 31 \<Longrightarrow> unat (of_nat n :: 32 word) = n"
  by (simp add: unat_of_nat take_bit_nat_eq_self)

lemma of_nat32_inj: "m < 2 ^ 31 \<Longrightarrow> n < 2 ^ 31 \<Longrightarrow> (of_nat m :: 32 word) = of_nat n \<longleftrightarrow> m = n"
  by (metis unat32)

definition names_in :: "string list \<Rightarrow> char list list" where
  "names_in S = map name_array S"

lemma members_read:
  assumes mess: "mess = pre @ concat (map name_bytes S) @ post" and len: "length mess < 2 ^ 31" and c: "length S \<le> nat c" "c < 2 ^ 31"
  shows "SP_get_vs_set_members mess \<lparr>vi_num_members = of_nat (length S), vi_members_offset = of_nat (length pre)\<rparr> c
     = Inr (int (length S), names_in S)"
proof -
  have l: "length pre < 2 ^ 31" "MAX_GROUP_NAME * length S < 2 ^ 31" using mess len length_names_bytes [of S] by simp_all
  then have s: "length S < 2 ^ 31" by (simp add: MAX_GROUP_NAME_def)
  have u: "unat (of_nat (length S) :: 32 word) = length S" "unat (of_nat (length pre) :: 32 word) = length pre"
    using s l by (simp_all add: unat32)
  have i: "sint (of_nat (length S) :: 32 word) = int (length S)"
    using s sint_of_int32 [of "int (length S)"] by (simp add: is_int32_def)
  have cc: "\<not> (word_of_int c < (of_nat (length S) :: 32 word))"
  proof (cases "S = []")
    case False
    then have "0 < length S" by simp
    then have "0 \<le> c" using c(1) by linarith
    then have "take_bit 32 c = c" using c(2) by (intro take_bit_int_eq_self) simp_all
    then have "unat (word_of_int c :: 32 word) = nat c" by (simp add: unat_eq_nat_uint uint_word_of_int_eq)
    then show ?thesis using c u(1) by (simp add: word_less_nat_alt)
  qed simp
  have b: "mess_bytes mess (length pre) (MAX_GROUP_NAME * length S) = Inr (concat (map name_bytes S))"
    using mess length_names_bytes [of S] by (intro mess_bytes_part) simp_all
  have "map (\<lambda>i. chars_of (take MAX_GROUP_NAME (drop (MAX_GROUP_NAME * i) (concat (map name_bytes S))))) [0..<length S] = names_in S"
    by (rule nth_equalityI) (simp_all add: names_in_def names_read name_bytes_def)
  then show ?thesis using cc u i b by (simp add: SP_get_vs_set_members_def Let_def)
qed

subsection \<open>The sets\<close>

text \<open>The infos of sets that start at a place in the message.\<close>

fun infos_at :: "nat \<Rightarrow> string list list \<Rightarrow> vs_set_info list" where
  "infos_at p [] = []"
| "infos_at p (S # Ss) = \<lparr>vi_num_members = of_nat (length S), vi_members_offset = of_nat (p + 4)\<rparr>
     # infos_at (p + 4 + MAX_GROUP_NAME * length S) Ss"

lemma length_infos [simp]: "length (infos_at p Ss) = length Ss"
  by (induction Ss arbitrary: p) simp_all

lemma length_vs_set_bytes: "length (vs_set_bytes S) = 4 + MAX_GROUP_NAME * length S"
  by (simp add: vs_set_bytes_def length_names_bytes)

lemma infos_nth: "k < length Ss \<Longrightarrow>
    infos_at p Ss ! k = \<lparr>vi_num_members = of_nat (length (Ss ! k)), vi_members_offset = of_nat (p + length (vs_region (take k Ss)) + 4)\<rparr>"
proof (induction Ss arbitrary: p k)
  case (Cons S Ss)
  show ?case
  proof (cases k)
    case 0
    then show ?thesis by (simp add: vs_region_def)
  next
    case (Suc j)
    then show ?thesis using Cons by (simp add: vs_region_def length_vs_set_bytes add.assoc)
  qed
qed simp

lemma vs_sets_read:
  assumes "mess = pre @ vs_region Ss @ post" and "length mess < 2 ^ 31" and "l < 2 ^ 31"
  shows "\<exists>mine'. vs_sets_from (mess_bytes mess) (of_nat l) (length Ss) i (of_nat (length pre)) mine = Inr (infos_at (length pre) Ss, mine')
     \<and> (l < length pre \<longrightarrow> mine' = mine)
     \<and> (\<forall>k < length Ss. l = length pre + length (vs_region (take k Ss)) \<longrightarrow> mine' = i + k)"
  using assms
proof (induction Ss arbitrary: pre i mine)
  case Nil
  then show ?case by simp
next
  case (Cons S Ss)
  let ?q = "length pre + 4 + MAX_GROUP_NAME * length S" and ?pre = "pre @ vs_set_bytes S"
  let ?here = "of_nat (length pre) = (of_nat l :: 32 word)"
  have sz: "length mess = length pre + (4 + MAX_GROUP_NAME * length S) + length (vs_region Ss) + length post"
    using Cons.prems(1) by (simp add: vs_region_def length_vs_set_bytes)
  then have b: "length pre < 2 ^ 31" "length S < 2 ^ 31" using Cons.prems(2) by (simp_all add: MAX_GROUP_NAME_def)
  have u: "unat (of_nat (length pre) :: 32 word) = length pre" using b by (simp add: unat32)
  have here: "?here \<longleftrightarrow> length pre = l" by (rule of_nat32_inj [OF b(1) Cons.prems(3)])
  have r: "mess_bytes mess (length pre) 4 = Inr (host32 (of_nat (length S)))"
    using Cons.prems(1) by (intro mess_bytes_part [of _ _ _ "concat (map name_bytes S) @ vs_region Ss @ post"])
      (simp_all add: vs_region_def vs_set_bytes_def)
  have rd: "read32 (host32 (of_nat (length S))) = (of_nat (length S) :: 32 word)" using read32_host [of _ "[]"] by simp
  have lp: "length ?pre = ?q" by (simp add: length_vs_set_bytes)
  have q': "(of_nat (length pre) :: 32 word) + of_nat SP_get_vs_set_members_offset_vs_set = of_nat (length pre + 4)"
    by (simp add: SP_get_vs_set_members_offset_vs_set_def)
  have q: "(of_nat (length pre + 4) :: 32 word) + of_nat (length S) * of_nat MAX_GROUP_NAME = of_nat ?q"
    by (simp add: mult.commute)
  have "mess = ?pre @ vs_region Ss @ post" using Cons.prems(1) by (simp add: vs_region_def)
  from Cons.IH [OF this Cons.prems(2,3), of "Suc i" "if ?here then i else mine"] obtain mine' where
    ih: "vs_sets_from (mess_bytes mess) (of_nat l) (length Ss) (Suc i) (of_nat ?q) (if ?here then i else mine) = Inr (infos_at ?q Ss, mine')"
      "l < ?q \<Longrightarrow> mine' = (if ?here then i else mine)"
      "\<And>k. k < length Ss \<Longrightarrow> l = ?q + length (vs_region (take k Ss)) \<Longrightarrow> mine' = Suc i + k"
    unfolding lp by blast
  have "vs_sets_from (mess_bytes mess) (of_nat l) (length (S # Ss)) i (of_nat (length pre)) mine = Inr (infos_at (length pre) (S # Ss), mine')"
    unfolding length_Cons vs_sets_from.simps infos_at.simps u r rd Let_def bindE_Inr q' q ih(1) by simp
  moreover have "l < length pre \<longrightarrow> mine' = mine" using ih(2) here by auto
  moreover have "mine' = i + k" if "k < length (S # Ss)" "l = length pre + length (vs_region (take k (S # Ss)))" for k
  proof (cases k)
    case 0
    then have "l = length pre" using that(2) by (simp add: vs_region_def)
    then show ?thesis using 0 ih(2) here by simp
  next
    case (Suc j)
    then show ?thesis using that ih(3) [of j] by (simp add: vs_region_def length_vs_set_bytes add.assoc)
  qed
  ultimately show ?case by blast
qed

subsection \<open>A whole message\<close>

lemma read_host: "read32 (host32 w) = w"
  using read32_host [of w "[]"] by simp

lemma gid_of_bytes: "group_id32 g \<Longrightarrow> gid_of (group_id_bytes g) = g"
  by (cases g) (auto simp: gid_of_def group_id_bytes_def memb_id_bytes_def group_id32_def memb_id32_def sint_of_int32 read_host
    intro!: group_id.equality membership_id.equality)

text \<open>What a client reads from the body of a membership message.\<close>

definition client_sees :: "8 word list \<Rightarrow> 32 word \<Rightarrow> group_id \<Rightarrow> string list list \<Rightarrow> nat \<Rightarrow> bool" where
  "client_sees mess t gid sets k \<longleftrightarrow>
     (\<forall>mi. \<exists>mi'. SP_get_memb_info mess t mi = Inr (1, mi') \<and> mi_gid mi' = gid \<and> mi_num_vs_sets mi' = of_nat (length sets)
        \<and> SP_get_vs_set_members mess (mi_my_vs_set mi') (int (length (sets ! k))) = Inr (int (length (sets ! k)), names_in (sets ! k)))
   \<and> (\<forall>x. \<exists>vs. SP_get_vs_sets_info mess (int (length sets)) x = Inr ((int (length sets), vs), k) \<and> length vs = length sets
        \<and> (\<forall>j < length sets. SP_get_vs_set_members mess (vs ! j) (int (length (sets ! j))) = Inr (int (length (sets ! j)), names_in (sets ! j))))"

lemma body_parts:
  assumes "mess = memb_body gid sets off"
  shows "mess_bytes mess 0 12 = Inr (group_id_bytes gid)" "mess_bytes mess 12 4 = Inr (host32 (of_nat (length sets)))"
    "mess_bytes mess 16 4 = Inr (host32 (of_nat off))" "k < length sets \<Longrightarrow>
      mess = (take 20 mess @ vs_region (take k sets)) @ vs_set_bytes (sets ! k) @ vs_region (drop (Suc k) sets)"
    "length (take 20 mess) = 20" "mess = take 20 mess @ vs_region sets"
proof -
  have t: "take 20 mess = group_id_bytes gid @ host32 (of_nat (length sets)) @ host32 (of_nat off)"
    using assms by (simp add: memb_body_def)
  show "mess_bytes mess 0 12 = Inr (group_id_bytes gid)"
    using assms by (intro mess_bytes_part [of _ "[]"]) (auto simp: memb_body_def)
  show "mess_bytes mess 12 4 = Inr (host32 (of_nat (length sets)))"
    using assms by (intro mess_bytes_part [of _ "group_id_bytes gid"]) (auto simp: memb_body_def)
  show "mess_bytes mess 16 4 = Inr (host32 (of_nat off))"
    using assms by (intro mess_bytes_part [of _ "group_id_bytes gid @ host32 (of_nat (length sets))"]) (auto simp: memb_body_def)
  show "length (take 20 mess) = 20" by (simp add: t)
  show m: "mess = take 20 mess @ vs_region sets" unfolding t using assms by (simp add: memb_body_def)
  assume "k < length sets"
  then have "sets = take k sets @ sets ! k # drop (Suc k) sets" by (rule id_take_nth_drop)
  then have "map vs_set_bytes sets = map vs_set_bytes (take k sets) @ vs_set_bytes (sets ! k) # map vs_set_bytes (drop (Suc k) sets)"
    by (metis list.simps(9) map_append)
  then have "vs_region sets = vs_region (take k sets) @ vs_set_bytes (sets ! k) @ vs_region (drop (Suc k) sets)"
    unfolding vs_region_def by simp
  with m show "mess = (take 20 mess @ vs_region (take k sets)) @ vs_set_bytes (sets ! k) @ vs_region (drop (Suc k) sets)" by simp
qed

lemma set_read:
  assumes m: "mess = memb_body gid sets off" and len: "length mess < 2 ^ 31" and k: "k < length sets"
  shows "SP_get_vs_set_members mess \<lparr>vi_num_members = of_nat (length (sets ! k)),
      vi_members_offset = of_nat (20 + length (vs_region (take k sets)) + 4)\<rparr> (int (length (sets ! k)))
    = Inr (int (length (sets ! k)), names_in (sets ! k))"
proof -
  let ?pre = "take 20 mess @ vs_region (take k sets) @ host32 (of_nat (length (sets ! k)))"
  have s: "mess = ?pre @ concat (map name_bytes (sets ! k)) @ vs_region (drop (Suc k) sets)"
    using body_parts(4) [OF m k] by (simp add: vs_set_bytes_def)
  have "length mess = length ?pre + MAX_GROUP_NAME * length (sets ! k) + length (vs_region (drop (Suc k) sets))"
    by (subst s) (simp add: length_names_bytes)
  then have "length (sets ! k) < 2 ^ 31" using len by (simp add: MAX_GROUP_NAME_def)
  moreover have "length ?pre = 20 + length (vs_region (take k sets)) + 4" using body_parts(5) [OF m] by simp
  ultimately show ?thesis using members_read [OF s len, of "int (length (sets ! k))"] by simp
qed


lemma first_set [simp]: "SP_get_first_vs_set_offset_memb_mess = 20" "SP_get_num_vs_sets_offset_memb_mess = 12"
    "SP_get_offset_to_local_vs_set_offset = 16" "SP_get_vs_set_members_offset_vs_set = 4" "sizeof_group_id = 12"
  by (simp_all add: memb_offsets sizeof_group_id_def)

lemma info_of_network:
  assumes "Is_reg_memb_mess t" "Is_membership_mess t" "Is_caused_network_mess t"
      "\<not> Is_caused_join_mess t" "\<not> Is_caused_leave_mess t" "\<not> Is_caused_disconnect_mess t"
    and "bytes 0 12 = Inr g" "bytes 12 4 = Inr n" "bytes 16 4 = Inr f" "bytes (unat (read32 f + of_nat 20)) 4 = Inr m"
  shows "get_memb_info bytes t mi = Inr (1, mi\<lparr>mi_gid := gid_of g, mi_changed_member := replicate MAX_GROUP_NAME NUL,
      mi_num_vs_sets := read32 n,
      mi_my_vs_set := \<lparr>vi_num_members = read32 m, vi_members_offset = read32 f + of_nat 20 + of_nat 4\<rparr>\<rparr>)"
  unfolding get_memb_info_def changed_member_def first_set Let_def using assms by simp

lemma body_seen:
  assumes m: "mess = memb_body gid sets off" and len: "length mess < 2 ^ 31" and k: "k < length sets"
    and off: "off = length (vs_region (take k sets))" and gid: "group_id32 gid"
    and t: "Is_reg_memb_mess t" "Is_membership_mess t" "Is_caused_network_mess t"
      "\<not> Is_caused_join_mess t" "\<not> Is_caused_leave_mess t" "\<not> Is_caused_disconnect_mess t"
  shows "client_sees mess t gid sets k"
proof -
  note b = body_parts [OF m]
  have sizes: "length mess = 20 + length (vs_region sets)" using b(5,6) by (metis length_append)
  have "length (vs_region sets) = length (vs_region (take k sets)) + length (vs_region (drop k sets))"
    by (metis append_take_drop_id length_append vs_region_append)
  then have o: "off < 2 ^ 31" "20 + off < 2 ^ 31" using len off sizes by simp_all
  have n: "length sets < 2 ^ 31"
  proof -
    have "length sets \<le> length (vs_region sets)" by (induction sets) (simp_all add: vs_region_def length_vs_set_bytes)
    then show ?thesis using len sizes by simp
  qed
  have w: "(of_nat off :: 32 word) + of_nat 20 = of_nat (20 + off)" "(of_nat (20 + off) :: 32 word) + of_nat 4 = of_nat (20 + off + 4)"
    by (simp_all only: of_nat_add ac_simps)
  have at: "unat (of_nat (20 + off) :: 32 word) = 20 + off" by (rule unat32 [OF o(2)])
  have un: "unat (of_nat (length sets) :: 32 word) = length sets" "sint (of_nat (length sets) :: 32 word) = int (length sets)"
    using n sint_of_int32 [of "int (length sets)"] by (simp_all add: unat32 is_int32_def)
  have rm: "mess_bytes mess (20 + off) 4 = Inr (host32 (of_nat (length (sets ! k))))"
    using b(4) [OF k] b(5) off
    by (intro mess_bytes_part [of _ "take 20 mess @ vs_region (take k sets)" _ "concat (map name_bytes (sets ! k)) @ vs_region (drop (Suc k) sets)"])
      (simp_all add: vs_set_bytes_def)
  have first: "\<exists>mi'. SP_get_memb_info mess t mi = Inr (1, mi') \<and> mi_gid mi' = gid \<and> mi_num_vs_sets mi' = of_nat (length sets)
      \<and> mi_my_vs_set mi' = \<lparr>vi_num_members = of_nat (length (sets ! k)), vi_members_offset = of_nat (20 + off + 4)\<rparr>" for mi
  proof -
    have "mess_bytes mess (unat (read32 (host32 (of_nat off)) + of_nat 20)) 4 = Inr (host32 (of_nat (length (sets ! k))))"
      unfolding read_host w at by (rule rm)
    from info_of_network [OF t b(1-3) this, of mi] show ?thesis
      unfolding SP_get_memb_info_def read_host w gid_of_bytes [OF gid] by simp
  qed
  have sees: "SP_get_vs_set_members mess \<lparr>vi_num_members = of_nat (length (sets ! j)), vi_members_offset = of_nat (20 + length (vs_region (take j sets)) + 4)\<rparr>
      (int (length (sets ! j))) = Inr (int (length (sets ! j)), names_in (sets ! j))" if "j < length sets" for j
    by (rule set_read [OF m len that])
  have l20: "20 + off < 2 ^ 31" by (rule o(2))
  have second: "SP_get_vs_sets_info mess (int (length sets)) x = Inr ((int (length sets), infos_at 20 sets), k)" for x
  proof -
    from vs_sets_read [of mess "take 20 mess" sets "[]" "20 + off" 0 x] b(5,6) len l20 obtain mine' where
      r: "vs_sets_from (mess_bytes mess) (of_nat (20 + off)) (length sets) 0 (of_nat 20) x = Inr (infos_at 20 sets, mine')"
      and w: "\<forall>j < length sets. 20 + off = 20 + length (vs_region (take j sets)) \<longrightarrow> mine' = 0 + j" by auto
    have "mine' = k" using w k off by simp
    moreover have "mess_int mess 12 = Inr (of_nat (length sets))" "mess_int mess 16 = Inr (of_nat off)"
      using b(2,3) by (simp_all add: mess_int_def read_host)
    ultimately show ?thesis using r un unfolding SP_get_vs_sets_info_def first_set by (simp add: ac_simps)
  qed
  show ?thesis
    unfolding client_sees_def
    by (intro conjI allI exI [of _ "infos_at 20 sets"]) (use first second sees [OF k] off sees in \<open>force simp: infos_nth\<close>)+
qed

subsection \<open>What the daemon tells\<close>

lemma network_type:
  assumes "t = Clear_endian (Set_endian REG_MEMB_MESS OR CAUSED_BY_NETWORK)"
  shows "Is_reg_memb_mess t" "Is_membership_mess t" "Is_caused_network_mess t"
      "\<not> Is_caused_join_mess t" "\<not> Is_caused_leave_mess t" "\<not> Is_caused_disconnect_mess t"
  unfolding assms by code_simp+

lemma network_view_seen:
  assumes ok: "sess_ok s" and ds: "daemons_wf (Config_procs s) (grp_daemons g)" and me: "my_id s \<in> dm_proc_id ` set (grp_daemons g)"
    and j: "\<And>j. joiner = Some j \<Longrightarrow> j \<in> set (all_members g)" and small: "small_group g" "length (grp_daemons g) \<le> 2000"
    and gid: "group_id32 (grp_id g)"
  shows "returns (G_build_memb_vs_buf g CAUSED_BY_NETWORK joiner s) (\<lambda>(h, buf). \<exists>sets k offset.
     vs_spec joiner (my_id s) (grp_daemons g) sets offset \<and> k < length sets \<and> offset = length (vs_region (take k sets))
     \<and> take (32 * length (all_members g)) buf = concat (map name_bytes (all_members g))
     \<and> client_sees (drop (32 * length (all_members g)) buf) (Clear_endian (mh_type h)) (grp_id g) sets k)"
proof -
  have "returns (build_vs_sets g joiner s) (\<lambda>(sets, offset). vs_spec joiner (my_id s) (grp_daemons g) sets offset)"
    using ok ds me j by (intro build_vs_sets_returns) (auto simp: sess_ok_def)
  then obtain sets offset where b: "build_vs_sets g joiner s = Inr (sets, offset)"
    and v: "vs_spec joiner (my_id s) (grp_daemons g) sets offset" by (auto elim!: returnsE)
  from v obtain k where k: "k < length sets" "offset = length (vs_region (take k sets))"
    by (auto simp: vs_spec_def at_set_def)
  have "length (concat sets) = length (all_members g)"
    using v unfolding vs_spec_def all_members_def by (metis size_mset)
  moreover have "length sets \<le> Suc (length (grp_daemons g))" using v by (simp add: vs_spec_def)
  ultimately have len: "length (vs_region sets) \<le> 72004" using small by (simp add: length_vs_region small_group_def)
  let ?m = "memb_body (grp_id g) sets offset"
  obtain h where r: "G_build_memb_vs_buf g CAUSED_BY_NETWORK joiner s = Inr (h, concat (map name_bytes (all_members g)) @ ?m)"
      and h: "mh_type h = Set_endian REG_MEMB_MESS OR CAUSED_BY_NETWORK"
    by (simp add: G_build_memb_vs_buf_def b G_build_memb_buf_def memb_body_def)
  have "client_sees ?m (Clear_endian (mh_type h)) (grp_id g) sets k"
    using network_type [OF arg_cong [OF h, of Clear_endian]] len k gid
    by (intro body_seen [OF refl]) (simp_all add: memb_body_def)
  then show ?thesis unfolding r returns_Inr prod.case using v k length_names [of "all_members g"]
    by (intro exI [of _ sets] exI [of _ k] exI [of _ offset]) simp
qed

end
