(* ===== verification/Client_Properties.thy ===== *)
theory Client_Properties
  imports Client_Connect Client_Sending Client_Memberships Session_Properties
begin

section \<open>What the client library guarantees\<close>

text \<open>
  The properties of the client library, by itself and together with the daemon: who a session is,
  what is sent, and what is received.
\<close>

subsection \<open>Connecting\<close>

definition left :: "8 word list \<Rightarrow> recv_event list \<Rightarrow> recv_event list" where
  "left bs es = (if bs = [] then es else Chunk bs # es)"

lemma recv_chunk: "cs \<noteq> [] \<Longrightarrow> sp_recv (length cs) (Chunk (cs @ bs) # es) = Inr (Some cs, left bs es)"
  by (cases cs) (auto simp: left_def)

lemma recv_part_chunk:
  "recv_events k = Chunk (cs @ bs) # es \<Longrightarrow> cs \<noteq> [] \<Longrightarrow>
   recv_or_closed (length cs) k = Inr (Inr cs, k\<lparr>recv_events := left bs es\<rparr>)"
  by (simp add: recv_or_closed_def sock_recv_once_def bindE_def recv_chunk)

lemma recv_char_chunk:
  "recv_events k = Chunk (b # bs) # es \<Longrightarrow> recv_char k = Inr (Inr (sint b), k\<lparr>recv_events := left bs es\<rparr>)"
  using recv_part_chunk [of k "[b]" bs es] by (simp add: recv_char_def then_do_def bindE_def)

lemma then_do_Inr [simp]: "then_do (Inr (Inr x, k)) f = f x k"
  by (simp add: then_do_def)


text \<open>The daemon \<open>a\<close> answers \<open>u\<close>.\<close>

definition answered :: sockets where
  "answered = \<lparr>recv_events = [Chunk (concat (accept_bytes (ses_at sess_example 1\<lparr>lib_version := [4, 0, 0]\<rparr>) ''#u#a''))],
     send_events = [], stream_out = [], closed_mboxes = []\<rparr>"


subsection \<open>The example\<close>

text \<open>The library of \<open>u\<close>, with one session, and a message of \<open>v\<close> with three bytes to the group \<open>g\<close>.\<close>

definition lib_example :: "recv_event list \<Rightarrow> send_event list \<Rightarrow> message_header \<Rightarrow> bool \<Rightarrow> library" where
  "lib_example rs ss h saved = \<lparr>lib_sockets = \<lparr>recv_events = rs, send_events = ss, stream_out = [], closed_mboxes = []\<rparr>,
     lib_sessions = [\<lparr>sp_mbox = 5, sp_state = SESS_ACTIVE, sp_private_group_name = ''#u#a'', recv_saved_head = h,
       recv_message_saved = saved\<rparr>], lib_auth = []\<rparr>"

lemma lib_example_active: "active 5 0 (lib_example rs ss h saved)"
  by (simp add: active_def lib_example_def SP_get_session_def)

definition mess_example :: message_header where
  "mess_example = message_head ''#v#a'' AGREED_MESS 1 0 3"

lemma mess_example_formed: "well_formed mess_example (name_bytes ''g'') [1, 2, 3]"
  by code_simp

definition args_example :: "32 word \<Rightarrow> int \<Rightarrow> receive_args" where
  "args_example t n = \<lparr>ra_service_type = t, ra_sender = [], ra_max_groups = 1, ra_num_groups = 0, ra_groups = replicate 32 0,
     ra_mess_type = 0, ra_endian_mismatch = 0, ra_scat = [(2, [0, 0]), (n, replicate (nat n) 0)]\<rparr>"

subsection \<open>Sending\<close>



subsection \<open>Receiving\<close>



text \<open>
  C37: a header that is kept outlives a receive that drops. When a receive without room has
  kept the header and the next one, with \<open>DROP_RECV\<close>, takes what fits of the message and drops the
  rest, the header stays kept: the receive after that takes it for the header of the next message,
  whose own header is read as data.
\<close>

theorem dropped_header_returns:
  assumes "active mbox i s" and "well_formed h groups data" and "next_message i h (body_stream h old groups data @ rest) s"
    and "scat_ok (ra_scat a)" and "recv_message_saved (lib_sessions s ! i)" and "Is_drop_recv (ra_service_type a)"
    and "mh_num_groups h \<le> ra_max_groups a" and "sum_list (map fst (ra_scat a)) < mh_data_len h"
  shows "\<exists>a' s'. SP_scat_receive mbox a s = Inr ((BUFFER_TOO_SHORT, a'), s') \<and> active mbox i s' \<and> input s' = rest \<and> next_message i h rest s'"
proof -
  from assms(3,5) have h: "recv_saved_head (lib_sessions s ! i) = h" by (simp add: next_message_def)
  from drop_keeps_header [OF assms(1-3) assms(5,6,4,7,8)] obtain a' k where
    "SP_scat_receive mbox a s = Inr ((BUFFER_TOO_SHORT, a'), s\<lparr>lib_sockets := k\<rparr>)" "flows (recv_events k)" "stream_in (recv_events k) = rest"
    by blast
  then show ?thesis
    using assms(1,5) h by (intro exI [of _ a'] exI [of _ "s\<lparr>lib_sockets := k\<rparr>"]) (simp add: next_message_def active_def SP_get_session_def)
qed

text \<open>Two bytes of room for the three of the message; the stream goes on with nine zeros.\<close>

theorem dropped_header_returns_witness:
  "\<exists>a' s'. SP_scat_receive 5 (args_example DROP_RECV 0\<lparr>ra_scat := [(2, [0, 0])]\<rparr>)
        (lib_example [Chunk (name_bytes ''g'' @ [1, 2, 3]), Chunk (replicate 9 0)] [] mess_example True)
      = Inr ((BUFFER_TOO_SHORT, a'), s') \<and> next_message 0 mess_example (replicate 9 0) s'"
proof -
  let ?s = "lib_example [Chunk (name_bytes ''g'' @ [1, 2, 3]), Chunk (replicate 9 0)] [] mess_example True"
  let ?a = "args_example DROP_RECV 0\<lparr>ra_scat := [(2, [0, 0])]\<rparr>"
  have "next_message 0 mess_example (body_stream mess_example 0 (name_bytes ''g'') [1, 2, 3] @ replicate 9 0) ?s"
    "scat_ok (ra_scat ?a)" "recv_message_saved (lib_sessions ?s ! 0)" "Is_drop_recv (ra_service_type ?a)"
    "mh_num_groups mess_example \<le> ra_max_groups ?a" "sum_list (map fst (ra_scat ?a)) < mh_data_len mess_example"
    by code_simp+
  from dropped_header_returns [OF lib_example_active mess_example_formed this] show ?thesis by blast
qed

subsection \<open>Membership messages\<close>

text \<open>
  C14: a client reads the view of its group as the daemon has it. The membership message that
  the daemon builds after a network change carries the members of the group, its id and the virtual
  synchrony sets; taking its body apart, \<open>SP_get_memb_info\<close>, \<open>SP_get_vs_sets_info\<close> and
  \<open>SP_get_vs_set_members\<close> give back the group id, all sets with their members, and the set of this
  daemon's own members.
\<close>

theorem client_reads_the_view:
  assumes "sess_ok s" and "daemons_wf (Config_procs s) (grp_daemons g)" and "my_id s \<in> dm_proc_id ` set (grp_daemons g)"
    and "\<And>j. joiner = Some j \<Longrightarrow> j \<in> set (all_members g)" and "small_group g" and "length (grp_daemons g) \<le> 2000"
    and "group_id32 (grp_id g)"
  shows "returns (G_build_memb_vs_buf g CAUSED_BY_NETWORK joiner s) (\<lambda>(h, buf). \<exists>sets k offset.
     vs_spec joiner (my_id s) (grp_daemons g) sets offset \<and> k < length sets \<and> offset = length (vs_region (take k sets))
     \<and> take (32 * length (all_members g)) buf = concat (map name_bytes (all_members g))
     \<and> client_sees (drop (32 * length (all_members g)) buf) (Clear_endian (mh_type h)) (grp_id g) sets k)"
  using assms by (rule network_view_seen)

theorem client_reads_the_view_witness:
  "returns (G_build_memb_vs_buf example_group CAUSED_BY_NETWORK None groups_example) (\<lambda>(h, buf). \<exists>sets k.
     mset (concat sets) = mset (all_members example_group) \<and> k < length sets
     \<and> client_sees (drop (32 * length (all_members example_group)) buf) (Clear_endian (mh_type h)) (grp_id example_group) sets k)"
proof -
  have "configured procs_example 11" "configured procs_example 12" by (simp_all add: configured_def procs_example_def)
  then have "daemons_wf (Config_procs groups_example) (grp_daemons example_group)"
    by (simp add: groups_example_fields daemons_wf_def daemon_wf_def example_group_def skl_ok_def conf_index_example)
  moreover have "my_id groups_example \<in> dm_proc_id ` set (grp_daemons example_group)" by (simp add: my_id_example example_group_def)
  moreover have "small_group example_group" "length (grp_daemons example_group) \<le> 2000" "group_id32 (grp_id example_group)"
    by (simp_all add: small_group_def all_members_def example_group_def group_id32_def memb_id32_def is_int32_def)
  ultimately have "returns (G_build_memb_vs_buf example_group CAUSED_BY_NETWORK None groups_example) (\<lambda>(h, buf). \<exists>sets k offset.
     vs_spec None (my_id groups_example) (grp_daemons example_group) sets offset \<and> k < length sets \<and> offset = length (vs_region (take k sets))
     \<and> take (32 * length (all_members example_group)) buf = concat (map name_bytes (all_members example_group))
     \<and> client_sees (drop (32 * length (all_members example_group)) buf) (Clear_endian (mh_type h)) (grp_id example_group) sets k)"
    by (intro client_reads_the_view [OF sess_ok_example]) simp_all
  then show ?thesis by (rule returns_mono) (auto simp: vs_spec_def all_members_def)
qed

end
