(* ===== verification/Event_Loop.thy ===== *)
theory Event_Loop
  imports Events
begin

section \<open>The event loop\<close>

text \<open>
  Model of \<open>E_handle_events\<close> of \<open>daemon/events.c\<close>: a turn runs the timers that are due, waits in
  \<open>select\<close>, and calls the handlers of the descriptors that are ready, by priority. The handlers are
  arguments: what they do to the state, which holds the timer queue and the registrations, is up to
  them. \<open>select\<close> is the field \<open>select_ret\<close>: its \<open>n\<close>-th answer to masks and a timeout is the number
  of ready descriptors and their masks.
\<close>

subsection \<open>State\<close>

record loop_st = ev_st +
  loop_fds :: fd_st
  Exit_events :: bool
  Round_robin :: nat
  select_ret :: "nat \<Rightarrow> int set list \<Rightarrow> sp_time \<Rightarrow> int \<times> int set list"
  select_calls :: nat

type_synonym 'a timer_handler = "time_event \<Rightarrow> 'a loop_st_scheme \<Rightarrow> 'a loop_st_scheme outcome"
type_synonym 'a desc_handler = "fd_event \<Rightarrow> 'a loop_st_scheme \<Rightarrow> 'a loop_st_scheme outcome"

definition fds_of :: "int \<Rightarrow> 'a loop_st_scheme \<Rightarrow> fd_event list" where
  "fds_of p s = fq_events (Fd_queue (loop_fds s) ! nat p)"

definition E_exit_events :: "'a loop_st_scheme \<Rightarrow> 'a loop_st_scheme" where
  "E_exit_events s = s\<lparr>Exit_events := True\<rparr>"

subsection \<open>Timers\<close>

text \<open>
  The timers that are due, one after the other, until none is or a handler ends the loop (\<open>None\<close>);
  the result is the time to the next one. Handlers can queue timers that are due at once, so the
  loop has fuel.
\<close>

fun time_events :: "'a timer_handler \<Rightarrow> bool \<Rightarrow> nat \<Rightarrow> 'a loop_st_scheme \<Rightarrow> (sp_time option \<times> 'a loop_st_scheme) outcome" where
  "time_events on_time first 0 s = Inl (Hang ''E_handle_events'')"
| "time_events on_time first (Suc n) s =
     (case E_time_step first s of
        (None, timeout, s1) \<Rightarrow> Inr (Some timeout, s1)
      | (Some e, _, s1) \<Rightarrow>
          bindE (on_time e s1) (\<lambda>s2.
            let s3 = snd (E_get_time s2)
            in if Exit_events s3 then Inr (None, s3) else time_events on_time first n s3))"

subsection \<open>Waiting\<close>

definition zero_sec :: sp_time where "zero_sec = Sp_time 0 0"

definition E_select :: "sp_time \<Rightarrow> 'a loop_st_scheme \<Rightarrow> (int \<times> int set list) \<times> 'a loop_st_scheme" where
  "E_select timeout s =
     (select_ret s (select_calls s) (Fd_mask (loop_fds s)) timeout, s\<lparr>select_calls := Suc (select_calls s)\<rparr>)"

definition poll_select :: "sp_time \<Rightarrow> 'a loop_st_scheme \<Rightarrow> (int \<times> int set list) \<times> 'a loop_st_scheme" where
  "poll_select timeout s =
     (let (r, s1) = E_select zero_sec s
      in if fst r = 0 \<and> \<not> Exit_events s1 then E_select timeout s1 else (r, s1))"

subsection \<open>Descriptors\<close>

definition FD_ISSET :: "fd_event \<Rightarrow> int set list \<Rightarrow> bool outcome" where
  "FD_ISSET e ready =
     (if 0 \<le> fe_type e \<and> fe_type e < NUM_FDTYPES then Inr (fe_fd e \<in> ready ! nat (fe_type e))
      else Inl (Undefined ''E_handle_events''))"

text \<open>
  The loop over the registrations of one priority, by index: handlers may change them on the way.
  There are never more than \<open>MAX_FD_EVENTS\<close>.
\<close>

fun scan_fds :: "'a desc_handler \<Rightarrow> int \<Rightarrow> int set list \<Rightarrow> nat list \<Rightarrow> int \<times> bool \<times> 'a loop_st_scheme
    \<Rightarrow> (int \<times> bool \<times> 'a loop_st_scheme) outcome" where
  "scan_fds on_fd p ready [] r = Inr r"
| "scan_fds on_fd p ready (j # js) (num_set, treated, s) =
     (if j \<ge> length (fds_of p s) \<or> num_set \<le> 0 then Inr (num_set, treated, s)
      else
        bindE (FD_ISSET (fds_of p s ! j) ready) (\<lambda>b.
          if \<not> b then scan_fds on_fd p ready js (num_set, treated, s)
          else
            bindE (on_fd (fds_of p s ! j) s) (\<lambda>s1.
              let s2 = snd (E_get_time s1)
              in if Exit_events s2 then Inr (num_set - 1, True, s2)
                 else scan_fds on_fd p ready js (num_set - 1, True, s2))))"

text \<open>The priorities above the lowest, until one had an event.\<close>

fun scan_priorities :: "'a desc_handler \<Rightarrow> int set list \<Rightarrow> int list \<Rightarrow> int \<times> bool \<times> 'a loop_st_scheme
    \<Rightarrow> (int \<times> bool \<times> 'a loop_st_scheme) outcome" where
  "scan_priorities on_fd ready [] r = Inr r"
| "scan_priorities on_fd ready (p # ps) (num_set, treated, s) =
     (if num_set \<le> 0 \<or> treated \<or> Exit_events s then Inr (num_set, treated, s)
      else bindE (scan_fds on_fd p ready [0..<nat MAX_FD_EVENTS] (num_set, treated, s)) (scan_priorities on_fd ready ps))"

text \<open>The place of the next ready descriptor of the lowest priority, from \<open>Round_robin\<close> on.\<close>

fun low_ready :: "int set list \<Rightarrow> fd_event list \<Rightarrow> nat list \<Rightarrow> nat option outcome" where
  "low_ready ready es [] = Inr None"
| "low_ready ready es (j # js) =
     bindE (FD_ISSET (es ! j) ready) (\<lambda>b. if b then Inr (Some j) else low_ready ready es js)"

definition low_event :: "'a desc_handler \<Rightarrow> int set list \<Rightarrow> int \<Rightarrow> 'a loop_st_scheme \<Rightarrow> 'a loop_st_scheme outcome" where
  "low_event on_fd ready num_set s =
     (let es = fds_of LOW_PRIORITY s; n = length es
      in if num_set \<le> 0 \<or> Active_priority (loop_fds s) \<noteq> LOW_PRIORITY then Inr s
         else
           bindE (low_ready ready es (map (\<lambda>i. (i + Round_robin s) mod n) [0..<n])) (\<lambda>r.
             case r of
               None \<Rightarrow> Inr s
             | Some j \<Rightarrow>
                 bindE (on_fd (es ! j) (s\<lparr>Round_robin := (j + 1) mod n\<rparr>)) (\<lambda>s1. Inr (snd (E_get_time s1)))))"

subsection \<open>A turn\<close>

text \<open>\<open>first\<close> holds until a turn has found no event above the lowest priority; then timers run.\<close>

definition E_turn :: "'a timer_handler \<Rightarrow> 'a desc_handler \<Rightarrow> nat \<Rightarrow> bool \<Rightarrow> 'a loop_st_scheme \<Rightarrow> (bool \<times> 'a loop_st_scheme) outcome" where
  "E_turn on_time on_fd fuel first s =
     bindE (time_events on_time first fuel s) (\<lambda>(timeout, s1).
       case timeout of
         None \<Rightarrow> Inr (first, s1)
       | Some t \<Rightarrow>
           let ((num_set, ready), s2) = poll_select t s1
           in bindE (scan_priorities on_fd ready [2, 1] (num_set, False, s2)) (\<lambda>(num_set', treated, s3).
                if Exit_events s3 then Inr (first, s3)
                else bindE (low_event on_fd ready num_set' s3) (\<lambda>s4. Inr (first \<and> treated, s4))))"

text \<open>The loop runs until a handler calls \<open>E_exit_events\<close>: the fuel counts its turns.\<close>

fun turns_from :: "'a timer_handler \<Rightarrow> 'a desc_handler \<Rightarrow> nat \<Rightarrow> nat \<Rightarrow> bool \<Rightarrow> 'a loop_st_scheme \<Rightarrow> 'a loop_st_scheme outcome" where
  "turns_from on_time on_fd fuel 0 first s = Inl (Hang ''E_handle_events'')"
| "turns_from on_time on_fd fuel (Suc n) first s =
     bindE (E_turn on_time on_fd fuel first s) (\<lambda>(first', s').
       if Exit_events s' then Inr s' else turns_from on_time on_fd fuel n first' s')"

definition E_handle_events :: "'a timer_handler \<Rightarrow> 'a desc_handler \<Rightarrow> nat \<Rightarrow> nat \<Rightarrow> 'a loop_st_scheme \<Rightarrow> 'a loop_st_scheme outcome" where
  "E_handle_events on_time on_fd fuel n s = turns_from on_time on_fd fuel n True (s\<lparr>Exit_events := False\<rparr>)"

subsection \<open>The timers of a turn\<close>

text \<open>What is left when no timer is due, and how long to wait.\<close>

definition nothing_due :: "bool \<Rightarrow> sp_time \<Rightarrow> 'a loop_st_scheme \<Rightarrow> bool" where
  "nothing_due first timeout s \<longleftrightarrow>
     (first \<or> (\<forall>e \<in> set (Time_queue s). Now s < te_t e))
   \<and> (case Time_queue s of [] \<Rightarrow> timeout = long_timeout
      | h # _ \<Rightarrow> timeout = (if sec (E_sub_time (te_t h) (Now s)) < 0 then zero_sec else E_sub_time (te_t h) (Now s)))"

lemma time_step_waits:
  assumes "timers_ok s" and "E_time_step first s = (None, timeout, s')"
  shows "timers_ok s' \<and> nothing_due first timeout s'"
proof (cases "Time_queue s")
  case Nil
  then show ?thesis using assms by (auto simp: E_time_step_def nothing_due_def)
next
  case (Cons h q)
  have "tq_ok (h # q)" using assms(1) Cons by (simp add: timers_ok_def)
  then have le: "\<forall>e \<in> set (h # q). te_t h \<le> te_t e" using sorted_head_le by blast
  show ?thesis
    using assms Cons le
    by (fastforce simp: E_time_step_def E_get_time_def Let_def E_compare_time_ge nothing_due_def zero_sec_def timers_ok_def
        split: if_splits)
qed

lemma time_step_fires:
  assumes "timers_ok s" and "E_time_step first s = (Some e, timeout, s')"
  shows "\<exists>q. Time_queue s = e # q \<and> s' = (snd (E_get_time s))\<lparr>Time_queue := q\<rparr> \<and> timers_ok s' \<and> te_t e \<le> Now s' \<and> \<not> first"
  using assms
  by (cases "Time_queue s")
    (auto simp: E_time_step_def E_get_time_def Let_def E_compare_time_ge timers_ok_def tq_ok_def split: if_splits)

lemma timers_ok_get_time [simp]: "timers_ok (snd (E_get_time s)) = timers_ok s"
  by (simp add: E_get_time_def timers_ok_def Let_def)

text \<open>
  Timers up to a time. As long as the clock does not pass \<open>T\<close> and handlers queue nothing up to
  \<open>T\<close>, every timer that runs leaves one fewer.
\<close>

definition up_to :: "sp_time \<Rightarrow> 'a ev_st_scheme \<Rightarrow> nat" where
  "up_to T s = length (filter (\<lambda>e. te_t e \<le> T) (Time_queue s))"

lemma time_events_end:
  assumes clock: "\<And>n. clock n \<le> T"
    and h: "\<And>e s. time_of_day s = clock \<Longrightarrow> timers_ok s \<Longrightarrow> te_t e \<le> Now s \<Longrightarrow>
      returns (on_time e s) (\<lambda>s'. time_of_day s' = clock \<and> timers_ok s' \<and> up_to T s' \<le> up_to T s)"
    and "time_of_day s = clock" and "timers_ok s" and "up_to T s < n"
  shows "returns (time_events on_time first n s) (\<lambda>(r, s'). timers_ok s' \<and> (\<forall>t. r = Some t \<longrightarrow> nothing_due first t s'))"
  using assms(3-)
proof (induction n arbitrary: s)
  case (Suc n)
  obtain fired timeout s1 where st: "E_time_step first s = (fired, timeout, s1)" by (metis prod_cases3)
  show ?case
  proof (cases fired)
    case None
    then show ?thesis using time_step_waits [OF Suc.prems(2)] st by simp
  next
    case (Some e)
    then obtain q where q: "Time_queue s = e # q" "s1 = (snd (E_get_time s))\<lparr>Time_queue := q\<rparr>" "timers_ok s1" "te_t e \<le> Now s1"
      using time_step_fires [OF Suc.prems(2)] st by blast
    have c: "time_of_day s1 = clock" "Now s1 \<le> T" using q(2) Suc.prems(1) clock by (simp_all add: E_get_time_def Let_def)
    then have "te_t e \<le> T" using q(4) by simp
    then have less: "up_to T s1 < n" using Suc.prems(3) q(1,2) by (simp add: up_to_def)
    from h [OF c(1) q(3,4)] obtain s2 where s2: "on_time e s1 = Inr s2" "time_of_day s2 = clock" "timers_ok s2" "up_to T s2 \<le> up_to T s1"
      by (auto elim!: returnsE)
    have "up_to T (snd (E_get_time s2)) = up_to T s2" by (simp add: up_to_def E_get_time_def Let_def)
    then have "returns (time_events on_time first n (snd (E_get_time s2))) (\<lambda>(r, s'). timers_ok s' \<and> (\<forall>t. r = Some t \<longrightarrow> nothing_due first t s'))"
    proof (intro Suc.IH)
      show "time_of_day (snd (E_get_time s2)) = clock" using s2(2) by (simp add: E_get_time_def Let_def)
    qed (use s2 less \<open>up_to T (snd (E_get_time s2)) = up_to T s2\<close> in simp_all)
    then show ?thesis using st Some s2 by (simp add: Let_def)
  qed
qed simp

subsection \<open>The round robin\<close>

definition is_ready :: "int set list \<Rightarrow> fd_event \<Rightarrow> bool" where
  "is_ready ready e \<longleftrightarrow> FD_ISSET e ready = Inr True"

lemma low_ready_first:
  assumes "low_ready ready es (map f [k..<n]) = Inr r" and "k \<le> i" and "i < n" and "is_ready ready (es ! f i)"
  shows "\<exists>i'. k \<le> i' \<and> i' \<le> i \<and> r = Some (f i')"
  using assms
proof (induction "n - k" arbitrary: k)
  case (Suc m)
  have u: "[k..<n] = k # [Suc k..<n]" using Suc.prems(2,3) by (simp add: upt_conv_Cons)
  from Suc.prems(1) obtain b where b: "FD_ISSET (es ! f k) ready = Inr b"
    and r: "(if b then Inr (Some (f k)) else low_ready ready es (map f [Suc k..<n])) = Inr r"
    unfolding u by (auto simp: bindE_eq_Inr)
  show ?case
  proof (cases b)
    case True
    then show ?thesis using r Suc.prems(2) by auto
  next
    case False
    then have "k \<noteq> i" using b Suc.prems(4) by (auto simp: is_ready_def)
    then have "\<exists>i'. Suc k \<le> i' \<and> i' \<le> i \<and> r = Some (f i')"
      using Suc.hyps(2) Suc.prems False r by (intro Suc.hyps(1)) auto
    then obtain i' where "Suc k \<le> i'" "i' \<le> i" "r = Some (f i')" by blast
    then show ?thesis by (intro exI [of _ i']) simp
  qed
qed simp

text \<open>A turn in which the lowest priority can have an event.\<close>

definition low_turn :: "'a desc_handler \<Rightarrow> fd_event list \<Rightarrow> int set list \<times> int \<Rightarrow> 'a loop_st_scheme \<Rightarrow> 'a loop_st_scheme \<Rightarrow> bool" where
  "low_turn on_fd es poll s s' \<longleftrightarrow> fds_of LOW_PRIORITY s = es \<and> Active_priority (loop_fds s) = LOW_PRIORITY
     \<and> 0 < snd poll \<and> low_event on_fd (fst poll) (snd poll) s = Inr s'"

definition serves :: "'a desc_handler \<Rightarrow> fd_event list \<Rightarrow> nat \<Rightarrow> 'a loop_st_scheme \<Rightarrow> 'a loop_st_scheme \<Rightarrow> bool" where
  "serves on_fd es j s s' \<longleftrightarrow>
     bindE (on_fd (es ! j) (s\<lparr>Round_robin := (j + 1) mod length es\<rparr>)) (\<lambda>s1. Inr (snd (E_get_time s1))) = Inr s'"

lemma low_turn_serves:
  assumes "low_turn on_fd es poll s s'" and "d < length es" and "is_ready (fst poll) (es ! ((d + Round_robin s) mod length es))"
  shows "\<exists>i \<le> d. serves on_fd es ((i + Round_robin s) mod length es) s s'"
proof -
  let ?f = "\<lambda>i. (i + Round_robin s) mod length es"
  have "\<exists>r. low_ready (fst poll) es (map ?f [0..<length es]) = Inr r"
    using assms(1) by (auto simp: low_turn_def low_event_def Let_def bindE_eq_Inr)
  then obtain r where r: "low_ready (fst poll) es (map ?f [0..<length es]) = Inr r" by blast
  from low_ready_first [OF r le0 assms(2,3)] obtain i where "i \<le> d" "r = Some (?f i)" by blast
  then show ?thesis using assms(1) r by (auto simp: low_turn_def low_event_def Let_def serves_def)
qed

lemma round_robin_serves:
  assumes turns: "\<And>k. k < n \<Longrightarrow> low_turn on_fd es (poll k) (s k) (t k) \<and> is_ready (fst (poll k)) (es ! p)"
    and kept: "\<And>e s s'. on_fd e s = Inr s' \<Longrightarrow> Round_robin s' = Round_robin s"
    and link: "\<And>k. k < n \<Longrightarrow> Round_robin (s (Suc k)) = Round_robin (t k)"
    and "d < length es" and "p = (d + Round_robin (s k)) mod length es" and "k + d < n"
  shows "\<exists>k'. k \<le> k' \<and> k' \<le> k + d \<and> serves on_fd es p (s k') (t k')"
  using assms(4-)
proof (induction d arbitrary: k rule: less_induct)
  case (less d)
  let ?n = "length es"
  have tk: "low_turn on_fd es (poll k) (s k) (t k)" "is_ready (fst (poll k)) (es ! ((d + Round_robin (s k)) mod ?n))"
    using turns [of k] less.prems by auto
  from low_turn_serves [OF tk(1) less.prems(1) tk(2)] obtain i where
    i: "i \<le> d" "serves on_fd es ((i + Round_robin (s k)) mod ?n) (s k) (t k)" by blast
  show ?case
  proof (cases "i = d")
    case True
    then show ?thesis using i(2) less.prems(2) by auto
  next
    case False
    let ?d = "d - i - 1"
    have "Round_robin (t k) = ((i + Round_robin (s k)) mod ?n + 1) mod ?n"
    proof -
      obtain a where "on_fd (es ! ((i + Round_robin (s k)) mod ?n)) (s k\<lparr>Round_robin := ((i + Round_robin (s k)) mod ?n + 1) mod ?n\<rparr>) = Inr a"
        and "t k = snd (E_get_time a)"
        using i(2) by (auto simp: serves_def bindE_eq_Inr)
      then show ?thesis using kept by (fastforce simp: E_get_time_def Let_def)
    qed
    then have rr: "Round_robin (s (Suc k)) = (i + Round_robin (s k) + 1) mod ?n"
      using link [of k] less.prems(3) by (simp add: mod_simps)
    have "(?d + Round_robin (s (Suc k))) mod ?n = (?d + (i + Round_robin (s k) + 1)) mod ?n"
      unfolding rr by (rule mod_add_right_eq)
    moreover have "?d + (i + Round_robin (s k) + 1) = d + Round_robin (s k)" using i(1) False by simp
    ultimately have "p = (?d + Round_robin (s (Suc k))) mod ?n" using less.prems(2) by simp
    from less.IH [OF _ _ this] obtain k' where "Suc k \<le> k'" "k' \<le> Suc k + ?d" "serves on_fd es p (s k') (t k')"
      using i(1) False less.prems(1,3) by fastforce
    then show ?thesis using i(1) False by (intro exI [of _ k']) auto
  qed
qed

subsection \<open>Properties\<close>

text \<open>
  C38: the timers of a turn end. As long as the clock stays up to \<open>T\<close> and no timer handler
  queues a timer up to \<open>T\<close>, the loop over the time events returns, with fuel for one step more than
  the timers up to \<open>T\<close>; then no pending timer is due, and the time to wait is that to the earliest.
\<close>

theorem timers_run_dry:
  assumes "\<And>n. clock n \<le> T"
    and "\<And>e s. time_of_day s = clock \<Longrightarrow> timers_ok s \<Longrightarrow> te_t e \<le> Now s \<Longrightarrow>
      returns (on_time e s) (\<lambda>s'. time_of_day s' = clock \<and> timers_ok s' \<and> up_to T s' \<le> up_to T s)"
    and "time_of_day s = clock" and "timers_ok s" and "up_to T s < n"
  shows "returns (time_events on_time first n s) (\<lambda>(r, s'). timers_ok s' \<and> (\<forall>t. r = Some t \<longrightarrow> nothing_due first t s'))"
  using assms by (rule time_events_end)

definition loop_example :: "fd_event list \<Rightarrow> loop_st" where
  "loop_example es = \<lparr>Time_queue = [\<lparr>te_t = Sp_time 5 0, te_func = T_Send_join, te_code = 0, te_data = 0\<rparr>,
       \<lparr>te_t = Sp_time 9 0, te_func = T_Form_or_fail, te_code = 0, te_data = 0\<rparr>],
     Now = Sp_time 0 0, time_of_day = (\<lambda>_. Sp_time 7 0), time_reads = 0,
     loop_fds = E_init_fds\<lparr>Fd_queue := [\<lparr>num_active_fds = 0, fq_events = es\<rparr>,
       \<lparr>num_active_fds = 0, fq_events = []\<rparr>, \<lparr>num_active_fds = 0, fq_events = []\<rparr>]\<rparr>,
     Exit_events = False, Round_robin = 0, select_ret = (\<lambda>_ masks _. (0, masks)), select_calls = 0\<rparr>"

text \<open>A handler that queues its timer again, two seconds from now.\<close>

definition beats :: "time_event \<Rightarrow> loop_st \<Rightarrow> loop_st outcome" where
  "beats e s = Inr (E_queue (te_func e) (te_code e) (te_data e) (Sp_time 2 0) s)"

lemma filter_tq_insert: "\<not> P e \<Longrightarrow> filter P (tq_insert e q) = filter P q"
  by (induction q) auto

lemma up_to_E_queue:
  assumes "timers_ok s" and "\<not> E_add_time (time_of_day s (time_reads s)) t \<le> T"
  shows "up_to T (E_queue f c d t s) \<le> up_to T s"
proof -
  have "distinct (map event_key (Time_queue s))" using assms(1) by (simp add: timers_ok_def tq_ok_def)
  then have "up_to T (E_queue f c d t s) = length (filter (\<lambda>e. te_t e \<le> T) (tq_without (f, c, d) (Time_queue s)))"
    using assms(2) by (simp add: up_to_def E_queue_def E_get_time_def Let_def E_queue_event_spec event_key_def filter_tq_insert)
  also have "filter (\<lambda>e. te_t e \<le> T) (tq_without (f, c, d) (Time_queue s))
      = tq_without (f, c, d) (filter (\<lambda>e. te_t e \<le> T) (Time_queue s))"
    by (simp add: tq_without_def conj_commute)
  also have "length \<dots> \<le> up_to T s" unfolding up_to_def tq_without_def by (rule length_filter_le)
  finally show ?thesis .
qed

theorem timers_run_dry_witness:
  "returns (time_events beats False 2 (loop_example [])) (\<lambda>(r, s'). timers_ok s' \<and> (\<forall>t. r = Some t \<longrightarrow> nothing_due False t s'))"
proof (rule timers_run_dry [where clock = "\<lambda>_. Sp_time 7 0" and T = "Sp_time 7 0"])
  fix e :: time_event and s :: loop_st
  assume c: "time_of_day s = (\<lambda>_. Sp_time 7 0)" and ok: "timers_ok s"
  have "\<not> E_add_time (time_of_day s (time_reads s)) (Sp_time 2 0) \<le> Sp_time 7 0"
    by (simp add: c E_add_time_def less_eq_sp_time_def)
  then have "up_to (Sp_time 7 0) (E_queue (te_func e) (te_code e) (te_data e) (Sp_time 2 0) s) \<le> up_to (Sp_time 7 0) s"
    by (rule up_to_E_queue [OF ok])
  moreover have "time_of_day (E_queue (te_func e) (te_code e) (te_data e) (Sp_time 2 0) s) = (\<lambda>_. Sp_time 7 0)"
    by (simp add: E_queue_def E_get_time_def Let_def c)
  ultimately show "returns (beats e s) (\<lambda>s'. time_of_day s' = (\<lambda>_. Sp_time 7 0) \<and> timers_ok s' \<and> up_to (Sp_time 7 0) s' \<le> up_to (Sp_time 7 0) s)"
    using ok by (simp add: beats_def)
qed (simp_all add: loop_example_def timers_ok_def tq_ok_def event_key_def less_eq_sp_time_def up_to_def)

text \<open>
  C39: the lowest priority is served in turn. A descriptor of the lowest priority that is ready
  in as many turns in a row as there are registrations of that priority gets its handler called in
  one of them, whatever the other descriptors do and whatever the handlers do to the rest of the
  state.
\<close>

theorem low_priority_served:
  assumes "\<And>k. k < length es \<Longrightarrow> low_turn on_fd es (poll k) (s k) (t k) \<and> is_ready (fst (poll k)) (es ! p)"
    and "\<And>e s s'. on_fd e s = Inr s' \<Longrightarrow> Round_robin s' = Round_robin s"
    and "\<And>k. k < length es \<Longrightarrow> Round_robin (s (Suc k)) = Round_robin (t k)" and "p < length es"
  shows "\<exists>k < length es. serves on_fd es p (s k) (t k)"
proof -
  let ?n = "length es" let ?r = "Round_robin (s 0) mod ?n" let ?d = "(p + (?n - ?r)) mod ?n"
  have n: "0 < ?n" using assms(4) by linarith
  then have r: "?r < ?n" by simp
  have "(?d + Round_robin (s 0)) mod ?n = (p + (?n - ?r) + ?r) mod ?n"
    by (metis mod_add_eq mod_mod_trivial)
  also have "\<dots> = p" using r assms(4) by simp
  finally have p: "p = (?d + Round_robin (s 0)) mod ?n" by simp
  have d: "?d < ?n" using n by simp
  have "\<exists>k. 0 \<le> k \<and> k \<le> 0 + ?d \<and> serves on_fd es p (s k) (t k)"
    by (rule round_robin_serves [where n = "length es" and poll = poll]) (use assms p d in auto)
  then obtain k where "k \<le> ?d" "serves on_fd es p (s k) (t k)" by auto
  then show ?thesis using d by (intro exI [of _ k]) auto
qed

text \<open>Two descriptors that are always ready: the second is served although the first always is too.\<close>

definition listens :: "int \<Rightarrow> fd_event" where
  "listens fd = \<lparr>fe_fd = fd, fe_type = 0, fe_func = 0, fe_code = 0, fe_data = 0, fe_active = True\<rparr>"

theorem low_priority_served_witness:
  "\<exists>k < length [listens 4, listens 5]. serves (\<lambda>e s. Inr s) [listens 4, listens 5] 1
      (loop_example [listens 4, listens 5]\<lparr>Round_robin := k mod 2\<rparr>)
      (loop_example [listens 4, listens 5]\<lparr>Round_robin := Suc k mod 2, Now := Sp_time 7 0, time_reads := 1\<rparr>)"
proof -
  let ?es = "[listens 4, listens 5]" and ?h = "\<lambda>(e :: fd_event) (s :: loop_st). Inr s :: loop_st outcome"
  let ?s = "\<lambda>k. (loop_example [listens 4, listens 5])\<lparr>Round_robin := k mod 2\<rparr>"
  let ?t = "\<lambda>k. (loop_example [listens 4, listens 5])\<lparr>Round_robin := Suc k mod 2, Now := Sp_time 7 0, time_reads := 1\<rparr>"
  have turn: "low_turn ?h ?es ([{4, 5}, {}, {}], 2) (?s k) (?t k) \<and> is_ready [{4, 5}, {}, {}] (?es ! 1)" if "k < 2" for k
  proof -
    have f: "fds_of LOW_PRIORITY (?s k) = ?es" "Active_priority (loop_fds (?s k)) = LOW_PRIORITY" for k
      by (simp_all add: fds_of_def loop_example_def E_init_fds_def LOW_PRIORITY_def)
    have i: "FD_ISSET (listens 4) [{4, 5}, {}, {}] = Inr True" "FD_ISSET (listens 5) [{4, 5}, {}, {}] = Inr True"
      by (simp_all add: FD_ISSET_def listens_def NUM_FDTYPES_def)
    have g: "snd (E_get_time (?s j)) = (?s j)\<lparr>Now := Sp_time 7 0, time_reads := 1\<rparr>" for j
      by (simp add: E_get_time_def loop_example_def Let_def)
    have "k = 0 \<or> k = 1" using that by auto
    then show ?thesis
      using f [of k] i g by (auto simp: low_turn_def low_event_def Let_def is_ready_def upt_rec E_get_time_def loop_example_def)
  qed
  show ?thesis
  proof (rule low_priority_served [where poll = "\<lambda>_. ([{4, 5}, {}, {}], 2)"])
    show "low_turn ?h ?es ([{4, 5}, {}, {}], 2) (?s k) (?t k) \<and> is_ready (fst ([{4, 5}, {}, {}], 2 :: int)) (?es ! 1)" if "k < length ?es" for k
      using turn [of k] that by simp
  qed simp_all
qed

end
