(* ===== verification/Scatp.thy ===== *)
theory Scatp
  imports Client_Library
begin

section \<open>Positions in a scatter\<close>

text \<open>
  Model of \<open>libspread/scatp.c\<close>. A scatter is an array of \<open>MAX_CLIENT_SCATTER_ELEMENTS\<close> elements, of
  which \<open>num_elements\<close> are used. A position knows its scatter by address, which the routines compare;
  the contents are arguments. The scatters of a copy are distinct.
\<close>

subsection \<open>Types\<close>

definition MAX_CLIENT_SCATTER_ELEMENTS :: nat where "MAX_CLIENT_SCATTER_ELEMENTS = 100"

record scatter =
  sc_num_elements :: int
  sc_elements :: "element list"

record scatp =
  p_scat :: nat
  elem_ind :: int
  buff_ind :: int

definition SEEK_SET :: int where "SEEK_SET = 0"
definition SEEK_CUR :: int where "SEEK_CUR = 1"
definition SEEK_END :: int where "SEEK_END = 2"
definition EINVAL :: int where "EINVAL = 22"

definition bad_count :: "scatter \<Rightarrow> bool" where
  "bad_count sc \<longleftrightarrow> sc_num_elements sc < 0 \<or> sc_num_elements sc > int MAX_CLIENT_SCATTER_ELEMENTS"

definition sc_lens :: "scatter \<Rightarrow> int list" where
  "sc_lens sc = map fst (take (nat (sc_num_elements sc)) (sc_elements sc))"

definition len_at :: "scatter \<Rightarrow> int \<Rightarrow> int" where
  "len_at sc i = fst (sc_elements sc ! nat i)"

subsection \<open>Capacity and ends\<close>

fun capacity_from :: "int list \<Rightarrow> int \<Rightarrow> int" where
  "capacity_from [] n = n"
| "capacity_from (l # ls) n = (if l < 0 then ILLEGAL_MESSAGE else capacity_from ls (n + l))"

definition scat_capacity :: "scatter \<Rightarrow> int" where
  "scat_capacity sc = (if bad_count sc then ILLEGAL_MESSAGE else capacity_from (sc_lens sc) 0)"

definition scatp_begin :: "nat \<Rightarrow> scatter \<Rightarrow> scatp \<Rightarrow> int \<times> scatp" where
  "scatp_begin at sc pos =
     (let i = int (length (takeWhile (\<lambda>l. l = 0) (sc_lens sc)))
      in if bad_count sc then (ILLEGAL_MESSAGE, pos)
         else if i \<noteq> sc_num_elements sc \<and> len_at sc i < 0 then (ILLEGAL_MESSAGE, pos)
         else (0, \<lparr>p_scat = at, elem_ind = i, buff_ind = 0\<rparr>))"

definition scatp_end :: "nat \<Rightarrow> scatter \<Rightarrow> scatp \<Rightarrow> int \<times> scatp" where
  "scatp_end at sc pos =
     (if bad_count sc then (ILLEGAL_MESSAGE, pos)
      else (0, \<lparr>p_scat = at, elem_ind = sc_num_elements sc, buff_ind = 0\<rparr>))"

definition scatp_is_end :: "scatter \<Rightarrow> scatp \<Rightarrow> int" where
  "scatp_is_end sc pos =
     (if bad_count sc then ILLEGAL_MESSAGE
      else if elem_ind pos = sc_num_elements sc \<and> buff_ind pos = 0 then 1 else 0)"

definition scatp_is_legal :: "scatter \<Rightarrow> scatp \<Rightarrow> bool" where
  "scatp_is_legal sc pos \<longleftrightarrow> \<not> bad_count sc \<and>
     (scatp_is_end sc pos \<noteq> 0 \<or>
      (0 \<le> elem_ind pos \<and> elem_ind pos < sc_num_elements sc \<and>
       0 \<le> buff_ind pos \<and> buff_ind pos < len_at sc (elem_ind pos)))"

definition scatp_is_not_legal :: "scatter \<Rightarrow> scatp \<Rightarrow> bool" where
  "scatp_is_not_legal sc pos \<longleftrightarrow> bad_count sc \<or>
     (\<not> (scatp_is_end sc pos \<noteq> 0) \<and>
      (elem_ind pos < 0 \<or> elem_ind pos \<ge> sc_num_elements sc \<or>
       buff_ind pos < 0 \<or> buff_ind pos \<ge> len_at sc (elem_ind pos)))"

subsection \<open>Comparing\<close>

definition scatp_equals :: "scatter \<Rightarrow> scatter \<Rightarrow> scatp \<Rightarrow> scatp \<Rightarrow> int" where
  "scatp_equals sc1 sc2 pos1 pos2 =
     (if scatp_is_not_legal sc1 pos1 \<or> scatp_is_not_legal sc2 pos2 then ILLEGAL_MESSAGE
      else if p_scat pos1 \<noteq> p_scat pos2 then ILLEGAL_SERVICE
      else if elem_ind pos1 = elem_ind pos2 \<and> buff_ind pos1 = buff_ind pos2 then 1 else 0)"

text \<open>The elements strictly between two; \<open>None\<close> when one has a negative length.\<close>

definition between :: "scatter \<Rightarrow> int \<Rightarrow> int \<Rightarrow> int option" where
  "between sc i j =
     (let ls = drop (nat (i + 1)) (take (nat j) (sc_lens sc))
      in if \<exists>l \<in> set ls. l < 0 then None else Some (sum_list ls))"

definition scatp_comp :: "scatter \<Rightarrow> scatter \<Rightarrow> scatp \<Rightarrow> scatp \<Rightarrow> int" where
  "scatp_comp sc1 sc2 pos1 pos2 =
     (if scatp_is_not_legal sc1 pos1 \<or> scatp_is_not_legal sc2 pos2 then ILLEGAL_MESSAGE
      else if p_scat pos1 \<noteq> p_scat pos2 then ILLEGAL_SERVICE
      else if elem_ind pos1 = elem_ind pos2 then buff_ind pos1 - buff_ind pos2
      else if elem_ind pos1 < elem_ind pos2
      then case between sc1 (elem_ind pos1) (elem_ind pos2) of
             None \<Rightarrow> ILLEGAL_MESSAGE | Some n \<Rightarrow> buff_ind pos1 - len_at sc1 (elem_ind pos1) - n
      else case between sc1 (elem_ind pos2) (elem_ind pos1) of
             None \<Rightarrow> ILLEGAL_MESSAGE | Some n \<Rightarrow> len_at sc1 (elem_ind pos2) - buff_ind pos2 + n)"

subsection \<open>Moving\<close>

text \<open>The loops over the elements behind and before the current one; \<open>None\<close>: a negative length.\<close>

fun skip_forward :: "int list \<Rightarrow> int \<Rightarrow> int \<Rightarrow> (int \<times> int) option" where
  "skip_forward [] i skip = Some (i, skip)"
| "skip_forward (l # ls) i skip =
     (if l < 0 then None else if skip - l < 0 then Some (i, skip) else skip_forward ls (i + 1) (skip - l))"

definition scatp_jforward :: "scatter \<Rightarrow> scatp \<Rightarrow> int \<Rightarrow> int \<times> scatp" where
  "scatp_jforward sc pos num_bytes =
     (let tmp = len_at sc (elem_ind pos) - buff_ind pos
      in if scatp_is_not_legal sc pos then (ILLEGAL_MESSAGE, pos)
         else if num_bytes < 0 then (ILLEGAL_SERVICE, pos)
         else if scatp_is_end sc pos \<noteq> 0 then (0, pos)
         else if tmp > num_bytes then (num_bytes, pos\<lparr>buff_ind := buff_ind pos + num_bytes\<rparr>)
         else case skip_forward (drop (nat (elem_ind pos + 1)) (sc_lens sc)) (elem_ind pos + 1) (num_bytes - tmp) of
                None \<Rightarrow> (ILLEGAL_MESSAGE, pos)
              | Some (i, skip) \<Rightarrow>
                  if i = sc_num_elements sc \<and> skip \<noteq> 0 then (num_bytes - skip, pos)
                  else (num_bytes, pos\<lparr>elem_ind := i, buff_ind := skip\<rparr>))"

fun skip_backward :: "int list \<Rightarrow> int \<Rightarrow> int \<Rightarrow> (bool \<times> int \<times> int) option" where
  "skip_backward [] i skip = Some (False, i, skip)"
| "skip_backward (l # ls) i skip =
     (if l < 0 then None
      else if l > 0 \<and> skip - l \<le> 0 then Some (True, i, skip - l)
      else skip_backward ls (i - 1) (if l > 0 then skip - l else skip))"

definition scatp_jbackward :: "scatter \<Rightarrow> scatp \<Rightarrow> int \<Rightarrow> int \<times> scatp" where
  "scatp_jbackward sc pos num_bytes =
     (if scatp_is_not_legal sc pos then (ILLEGAL_MESSAGE, pos)
      else if num_bytes < 0 then (ILLEGAL_SERVICE, pos)
      else if buff_ind pos \<ge> num_bytes then (num_bytes, pos\<lparr>buff_ind := buff_ind pos - num_bytes\<rparr>)
      else case skip_backward (rev (take (nat (elem_ind pos)) (sc_lens sc))) (elem_ind pos - 1) (num_bytes - buff_ind pos) of
             None \<Rightarrow> (ILLEGAL_MESSAGE, pos)
           | Some (False, _, skip) \<Rightarrow> (num_bytes - skip, pos)
           | Some (True, i, skip) \<Rightarrow> (num_bytes, pos\<lparr>elem_ind := i, buff_ind := - skip\<rparr>))"

definition scatp_seek :: "scatter \<Rightarrow> scatp \<Rightarrow> int \<Rightarrow> int \<Rightarrow> int \<times> scatp" where
  "scatp_seek sc pos offset whence =
     (let (err, from) =
        (if whence = SEEK_CUR then (0, pos)
         else if whence = SEEK_SET then scatp_begin (p_scat pos) sc pos
         else if whence = SEEK_END then scatp_end (p_scat pos) sc pos
         else (EINVAL, pos))
      in if err \<noteq> 0 then (err, pos)
         else
           let (n, pos') = (if offset \<ge> 0 then scatp_jforward sc from offset else scatp_jbackward sc from (- offset))
           in if n \<noteq> \<bar>offset\<bar> then (if n < 0 then n else -1, pos) else (0, pos'))"

definition scatp_set :: "nat \<Rightarrow> scatter \<Rightarrow> scatp \<Rightarrow> int \<Rightarrow> int \<Rightarrow> int \<times> scatp" where
  "scatp_set at sc pos offset whence =
     (let (err, pos1) = (if whence = SEEK_CUR then scatp_begin at sc pos else (0, pos\<lparr>p_scat := at\<rparr>))
      in if err \<noteq> 0 then (err, pos1) else scatp_seek sc pos1 offset whence)"

subsection \<open>Copying\<close>

text \<open>
  A run of copies: the element and the offset in it on both sides, and the bytes left. At the end of
  an element it goes on with the next one that is not empty.
\<close>

record copy_st =
  cp_dst :: scatter
  cp_de :: nat
  cp_do :: int
  cp_se :: nat
  cp_so :: int
  cp_left :: int

definition next_elem :: "scatter \<Rightarrow> nat \<Rightarrow> nat" where
  "next_elem sc i = Suc i + length (takeWhile (\<lambda>l. l = 0) (drop (Suc i) (sc_lens sc)))"

definition elem_step :: "scatter \<Rightarrow> nat \<Rightarrow> int \<Rightarrow> int \<Rightarrow> nat \<times> int" where
  "elem_step sc e at copy_size =
     (if copy_size \<noteq> len_at sc (int e) - at then (e, at + copy_size) else (next_elem sc e, 0))"

definition put_bytes :: "nat \<Rightarrow> int \<Rightarrow> 8 word list \<Rightarrow> scatter \<Rightarrow> scatter" where
  "put_bytes e at bs sc =
     sc\<lparr>sc_elements := (sc_elements sc)[e := (fst (sc_elements sc ! e), overwrite (nat at) bs (snd (sc_elements sc ! e)))]\<rparr>"

definition copy_size :: "scatter \<Rightarrow> copy_st \<Rightarrow> int" where
  "copy_size src c =
     min (min (len_at (cp_dst c) (int (cp_de c)) - cp_do c) (len_at src (int (cp_se c)) - cp_so c)) (cp_left c)"

definition copy_step :: "scatter \<Rightarrow> copy_st \<Rightarrow> copy_st" where
  "copy_step src c =
     (let n = copy_size src c;
          bs = take (nat n) (drop (nat (cp_so c)) (snd (sc_elements src ! cp_se c)));
          (de, dt) = elem_step (cp_dst c) (cp_de c) (cp_do c) n;
          (se, st) = elem_step src (cp_se c) (cp_so c) n
      in c\<lparr>cp_dst := put_bytes (cp_de c) (cp_do c) bs (cp_dst c), cp_de := de, cp_do := dt, cp_se := se, cp_so := st,
           cp_left := cp_left c - n\<rparr>)"

definition copying :: "scatter \<Rightarrow> copy_st \<Rightarrow> bool" where
  "copying src c \<longleftrightarrow> int (cp_de c) < sc_num_elements (cp_dst c) \<and> int (cp_se c) < sc_num_elements src \<and> cp_left c \<noteq> 0"

text \<open>\<open>False\<close>: a size below zero was met. Every step copies a byte, so the bytes to copy are fuel enough.\<close>

fun copy_run :: "nat \<Rightarrow> scatter \<Rightarrow> copy_st \<Rightarrow> (bool \<times> copy_st) outcome" where
  "copy_run 0 src c = (if copying src c then Inl (Hang ''scatp_adv_cpy0'') else Inr (True, c))"
| "copy_run (Suc n) src c =
     (if \<not> copying src c then Inr (True, c)
      else if copy_size src c < 0 then Inr (False, c)
      else copy_run n src (copy_step src c))"

definition moved :: "bool \<Rightarrow> nat \<Rightarrow> int \<Rightarrow> scatp \<Rightarrow> scatp" where
  "moved adv e at pos = (if adv then pos\<lparr>elem_ind := int e, buff_ind := at\<rparr> else pos)"

text \<open>The result, the destination, and the two positions, which move when asked to and all was copied.\<close>

definition scatp_adv_cpy0 ::
  "scatter \<Rightarrow> scatp \<Rightarrow> scatter \<Rightarrow> scatp \<Rightarrow> int \<Rightarrow> bool \<Rightarrow> bool \<Rightarrow> (int \<times> scatter \<times> scatp \<times> scatp) outcome" where
  "scatp_adv_cpy0 dscat dst sscat src num_bytes adv_dst adv_src =
     (if scatp_is_not_legal dscat dst \<or> scatp_is_not_legal sscat src then Inr (ILLEGAL_MESSAGE, dscat, dst, src)
      else if num_bytes < 0 then Inr (ILLEGAL_SERVICE, dscat, dst, src)
      else if scatp_is_end dscat dst \<noteq> 0 \<or> scatp_is_end sscat src \<noteq> 0 then Inr (0, dscat, dst, src)
      else
        bindE (copy_run (nat num_bytes) sscat
            \<lparr>cp_dst = dscat, cp_de = nat (elem_ind dst), cp_do = buff_ind dst, cp_se = nat (elem_ind src), cp_so = buff_ind src,
             cp_left = num_bytes\<rparr>) (\<lambda>(ok, c).
          if \<not> ok then Inr (ILLEGAL_MESSAGE, cp_dst c, dst, src)
          else if cp_left c \<noteq> 0 then Inr (num_bytes - cp_left c, cp_dst c, dst, src)
          else Inr (num_bytes, cp_dst c, moved adv_dst (cp_de c) (cp_do c) dst, moved adv_src (cp_se c) (cp_so c) src)))"

definition scatp_cpy0 :: "scatter \<Rightarrow> scatp \<Rightarrow> scatter \<Rightarrow> scatp \<Rightarrow> int \<Rightarrow> (int \<times> scatter) outcome" where
  "scatp_cpy0 dscat dst sscat src num_bytes =
     bindE (scatp_adv_cpy0 dscat dst sscat src num_bytes False False) (\<lambda>(n, d, _). Inr (n, d))"

text \<open>
  A buffer as a scatter of one element, and the position at its start. A negative length leaves the
  position uninitialised.
\<close>

definition one_buffer :: "8 word list \<Rightarrow> int \<Rightarrow> scatter" where
  "one_buffer buf n = \<lparr>sc_num_elements = 1, sc_elements = [(n, buf)]\<rparr>"

definition one_start :: "string \<Rightarrow> int \<Rightarrow> scatp outcome" where
  "one_start who n = (if n < 0 then Inl (Undefined who) else Inr \<lparr>p_scat = 0, elem_ind = if n = 0 then 1 else 0, buff_ind = 0\<rparr>)"

definition scatp_adv_cpy1 ::
  "8 word list \<Rightarrow> scatter \<Rightarrow> scatp \<Rightarrow> int \<Rightarrow> bool \<Rightarrow> bool \<Rightarrow> (int \<times> 8 word list \<times> int \<times> scatp) outcome" where
  "scatp_adv_cpy1 dst sscat src num_bytes adv_dst adv_src =
     bindE (one_start ''scatp_adv_cpy1'' num_bytes) (\<lambda>at.
     bindE (scatp_adv_cpy0 (one_buffer dst num_bytes) at sscat src num_bytes False adv_src) (\<lambda>(n, d, _, src').
       Inr (n, snd (sc_elements d ! 0), if n = num_bytes \<and> adv_dst then num_bytes else 0, src')))"

definition scatp_adv_cpy2 ::
  "scatter \<Rightarrow> scatp \<Rightarrow> 8 word list \<Rightarrow> int \<Rightarrow> bool \<Rightarrow> bool \<Rightarrow> (int \<times> scatter \<times> scatp \<times> int) outcome" where
  "scatp_adv_cpy2 dscat dst src num_bytes adv_dst adv_src =
     bindE (one_start ''scatp_adv_cpy2'' num_bytes) (\<lambda>at.
     bindE (scatp_adv_cpy0 dscat dst (one_buffer src num_bytes) at num_bytes adv_dst False) (\<lambda>(n, d, dst', _).
       Inr (n, d, dst', if n = num_bytes \<and> adv_src then num_bytes else 0)))"

definition scatp_cpy1 :: "8 word list \<Rightarrow> scatter \<Rightarrow> scatp \<Rightarrow> int \<Rightarrow> (int \<times> 8 word list) outcome" where
  "scatp_cpy1 dst sscat src num_bytes =
     bindE (one_start ''scatp_cpy1'' num_bytes) (\<lambda>at.
     bindE (scatp_cpy0 (one_buffer dst num_bytes) at sscat src num_bytes) (\<lambda>(n, d). Inr (n, snd (sc_elements d ! 0))))"

definition scatp_cpy2 :: "scatter \<Rightarrow> scatp \<Rightarrow> 8 word list \<Rightarrow> int \<Rightarrow> (int \<times> scatter) outcome" where
  "scatp_cpy2 dscat dst src num_bytes =
     bindE (one_start ''scatp_cpy2'' num_bytes) (\<lambda>at. scatp_cpy0 dscat dst (one_buffer src num_bytes) at num_bytes)"

subsection \<open>The bytes of a scatter\<close>

text \<open>
  A well-formed scatter is a list of bytes, and a legal position a place in it: \<open>flat\<close> counts the
  bytes before it.
\<close>

definition fine :: "scatter \<Rightarrow> bool" where
  "fine sc \<longleftrightarrow> \<not> bad_count sc \<and> nat (sc_num_elements sc) \<le> length (sc_elements sc)
     \<and> (\<forall>e \<in> set (take (nat (sc_num_elements sc)) (sc_elements sc)). 0 \<le> fst e \<and> length (snd e) = nat (fst e))"

definition sc_data :: "scatter \<Rightarrow> 8 word list" where
  "sc_data sc = concat (map snd (take (nat (sc_num_elements sc)) (sc_elements sc)))"

definition flat_at :: "scatter \<Rightarrow> nat \<Rightarrow> int \<Rightarrow> int" where
  "flat_at sc e b = sum_list (take e (sc_lens sc)) + b"

definition flat :: "scatter \<Rightarrow> scatp \<Rightarrow> int" where
  "flat sc pos = flat_at sc (nat (elem_ind pos)) (buff_ind pos)"

text \<open>A place that is an element with a byte, or the end.\<close>

definition place_ok :: "scatter \<Rightarrow> nat \<Rightarrow> int \<Rightarrow> bool" where
  "place_ok sc e b \<longleftrightarrow> (if e = length (sc_lens sc) then b = 0 else e < length (sc_lens sc) \<and> 0 \<le> b \<and> b < sc_lens sc ! e)"

lemma fine_lens:
  assumes "fine sc"
  shows "length (sc_lens sc) = nat (sc_num_elements sc)" "0 \<le> sc_num_elements sc" "\<forall>l \<in> set (sc_lens sc). 0 \<le> l"
    "int (length (sc_data sc)) = sum_list (sc_lens sc)" "\<not> bad_count sc"
proof -
  show "length (sc_lens sc) = nat (sc_num_elements sc)" "0 \<le> sc_num_elements sc" "\<forall>l \<in> set (sc_lens sc). 0 \<le> l" "\<not> bad_count sc"
    using assms by (auto simp: fine_def sc_lens_def bad_count_def)
  have "\<forall>e \<in> set es. 0 \<le> fst e \<and> length (snd e) = nat (fst e) \<Longrightarrow> int (length (concat (map snd es))) = sum_list (map fst es)"
    for es :: "element list" by (induction es) auto
  then show "int (length (sc_data sc)) = sum_list (sc_lens sc)" using assms by (simp add: fine_def sc_data_def sc_lens_def)
qed

lemma lens_at: "e < length (sc_lens sc) \<Longrightarrow> sc_lens sc ! e = len_at sc (int e)"
  by (simp add: sc_lens_def len_at_def)

lemma legal_place:
  assumes "fine sc"
  shows "\<not> scatp_is_not_legal sc pos \<longleftrightarrow> 0 \<le> elem_ind pos \<and> place_ok sc (nat (elem_ind pos)) (buff_ind pos)"
    and "scatp_is_end sc pos \<noteq> 0 \<longleftrightarrow> elem_ind pos = sc_num_elements sc \<and> buff_ind pos = 0"
  using fine_lens [OF assms] lens_at [of "nat (elem_ind pos)" sc]
  by (auto simp: scatp_is_not_legal_def place_ok_def scatp_is_end_def split: if_splits)

lemma sum_list_nonneg_int: "\<forall>l \<in> set ls. 0 \<le> l \<Longrightarrow> 0 \<le> sum_list (ls :: int list)"
  by (induction ls) auto

lemma sum_take_le: "\<forall>l \<in> set ls. 0 \<le> l \<Longrightarrow> sum_list (take n ls) \<le> sum_list (ls :: int list)"
proof -
  assume "\<forall>l \<in> set ls. 0 \<le> l"
  then have "0 \<le> sum_list (drop n ls)" by (intro sum_list_nonneg_int) (auto dest: in_set_dropD)
  then show ?thesis by (metis add_le_cancel_left append_take_drop_id sum_list_append add.right_neutral)
qed

lemma sum_take_Suc: "e < length ls \<Longrightarrow> sum_list (take (Suc e) ls) = sum_list (take e ls) + (ls ! e :: int)"
  by (simp add: take_Suc_conv_app_nth)

lemma flat_range:
  assumes "fine sc" and "place_ok sc e b"
  shows "0 \<le> flat_at sc e b" "flat_at sc e b \<le> sum_list (sc_lens sc)" "e < length (sc_lens sc) \<Longrightarrow> flat_at sc e b < sum_list (sc_lens sc)"
proof -
  note l = fine_lens [OF assms(1)]
  have "0 \<le> sum_list (take e (sc_lens sc))" using l(3) by (intro sum_list_nonneg_int) (auto dest: in_set_takeD)
  then show "0 \<le> flat_at sc e b" using assms(2) by (auto simp: flat_at_def place_ok_def split: if_splits)
  show lt: "flat_at sc e b < sum_list (sc_lens sc)" if "e < length (sc_lens sc)"
    using that assms(2) sum_take_le [OF l(3), of "Suc e"] sum_take_Suc [OF that] by (auto simp: flat_at_def place_ok_def split: if_splits)
  show "flat_at sc e b \<le> sum_list (sc_lens sc)"
    using lt assms(2) by (cases "e = length (sc_lens sc)") (auto simp: flat_at_def place_ok_def split: if_splits)
qed

subsection \<open>Moving is arithmetic\<close>

lemma skip_forward_spec:
  assumes "\<forall>l \<in> set ls. 0 \<le> l" and "0 \<le> skip"
  shows "\<exists>m k. skip_forward ls i skip = Some (i + int m, k) \<and> m \<le> length ls \<and> 0 \<le> k
     \<and> skip = sum_list (take m ls) + k \<and> (m < length ls \<longrightarrow> k < ls ! m)"
  using assms
proof (induction ls arbitrary: i skip)
  case (Cons l ls)
  show ?case
  proof (cases "skip < l")
    case True
    then show ?thesis using Cons.prems by (intro exI [of _ 0] exI [of _ skip]) auto
  next
    case False
    have "\<forall>l \<in> set ls. 0 \<le> l" "0 \<le> skip - l" using False Cons.prems by auto
    from Cons.IH [OF this, of "i + 1"] obtain m k where
      "skip_forward ls (i + 1) (skip - l) = Some (i + 1 + int m, k)" "m \<le> length ls" "0 \<le> k"
      "skip - l = sum_list (take m ls) + k" "m < length ls \<longrightarrow> k < ls ! m" by blast
    then show ?thesis using False Cons.prems by (intro exI [of _ "Suc m"] exI [of _ k]) auto
  qed
qed simp

lemma skip_backward_spec:
  assumes "\<forall>l \<in> set ls. 0 \<le> l" and "0 < skip"
  shows "(\<exists>m k. skip_backward ls i skip = Some (True, i - int m, k) \<and> m < length ls \<and> k \<le> 0 \<and> - k < ls ! m
       \<and> skip = sum_list (take (Suc m) ls) + k)
     \<or> (\<exists>j. skip_backward ls i skip = Some (False, j, skip - sum_list ls) \<and> sum_list ls < skip)"
  using assms
proof (induction ls arbitrary: i skip)
  case (Cons l ls)
  show ?case
  proof (cases "l > 0 \<and> skip - l \<le> 0")
    case True
    then show ?thesis using Cons.prems by (intro disjI1 exI [of _ 0] exI [of _ "skip - l"]) auto
  next
    case False
    let ?s = "if l > 0 then skip - l else skip"
    have s: "?s = skip - l" "0 < ?s" using False Cons.prems by auto
    have run: "skip_backward (l # ls) i skip = skip_backward ls (i - 1) ?s" using False Cons.prems by auto
    from Cons.IH [of ?s "i - 1"] Cons.prems s(2) consider
      (a) m k where "skip_backward ls (i - 1) ?s = Some (True, i - 1 - int m, k)" "m < length ls" "k \<le> 0" "- k < ls ! m"
        "?s = sum_list (take (Suc m) ls) + k"
      | (b) j where "skip_backward ls (i - 1) ?s = Some (False, j, ?s - sum_list ls)" "sum_list ls < ?s"
      by auto
    then show ?thesis
    proof cases
      case a
      then show ?thesis unfolding run by (intro disjI1 exI [of _ "Suc m"] exI [of _ k]) (use s in auto)
    next
      case b
      then show ?thesis unfolding run by (intro disjI2 exI [of _ j]) (use s in auto)
    qed
  qed
qed simp

lemma jforward_flat:
  assumes f: "fine sc" and legal: "\<not> scatp_is_not_legal sc pos" and n: "0 \<le> n"
  shows "\<exists>pos'. scatp_jforward sc pos n = (min n (sum_list (sc_lens sc) - flat sc pos), pos')
     \<and> (if n \<le> sum_list (sc_lens sc) - flat sc pos
        then \<not> scatp_is_not_legal sc pos' \<and> flat sc pos' = flat sc pos + n \<and> p_scat pos' = p_scat pos else pos' = pos)"
proof -
  let ?ls = "sc_lens sc" and ?e = "nat (elem_ind pos)" and ?b = "buff_ind pos"
  note l = fine_lens [OF f]
  have p: "0 \<le> elem_ind pos" "place_ok sc ?e ?b" using legal legal_place(1) [OF f] by auto
  show ?thesis
  proof (cases "scatp_is_end sc pos \<noteq> 0")
    case True
    then have e: "elem_ind pos = sc_num_elements sc" "?b = 0" using legal_place(2) [OF f] by auto
    then have "flat sc pos = sum_list ?ls" using l(1) by (simp add: flat_def flat_at_def)
    then show ?thesis using True legal n by (auto simp: scatp_jforward_def Let_def)
  next
    case False
    then have e: "?e < length ?ls" using p legal_place(2) [OF f] l(1,2) by (auto simp: place_ok_def split: if_splits)
    have len: "?ls ! ?e = len_at sc (elem_ind pos)" using lens_at [OF e] p(1) by simp
    have b: "0 \<le> ?b" "?b < ?ls ! ?e" using p(2) e by (auto simp: place_ok_def split: if_splits)
    have fl: "flat sc pos = sum_list (take ?e ?ls) + ?b" by (simp add: flat_def flat_at_def)
    show ?thesis
    proof (cases "?ls ! ?e - ?b > n")
      case True
      have "place_ok sc ?e (?b + n)" using True b e n by (auto simp: place_ok_def)
      moreover have "n \<le> sum_list ?ls - flat sc pos"
        using True fl sum_take_le [OF l(3), of "Suc ?e"] sum_take_Suc [OF e] by simp
      ultimately show ?thesis using True False legal n len p(1) legal_place(1) [OF f]
        by (auto simp: scatp_jforward_def Let_def flat_def flat_at_def)
    next
      case far: False
      let ?d = "drop (Suc ?e) ?ls" and ?skip = "n - (?ls ! ?e - ?b)"
      have "\<forall>l \<in> set ?d. 0 \<le> l" "0 \<le> ?skip" using l(3) far by (auto dest: in_set_dropD)
      from skip_forward_spec [OF this, of "elem_ind pos + 1"] obtain m k where
        r: "skip_forward ?d (elem_ind pos + 1) ?skip = Some (elem_ind pos + 1 + int m, k)" "m \<le> length ?d" "0 \<le> k"
          "?skip = sum_list (take m ?d) + k" "m < length ?d \<longrightarrow> k < ?d ! m" by blast
      have i: "nat (elem_ind pos + 1 + int m) = Suc ?e + m" "nat (elem_ind pos + 1) = Suc ?e" using p(1) by auto
      have "take (Suc ?e + m) ?ls = take (Suc ?e) ?ls @ take m ?d" by (rule take_add)
      then have sum: "sum_list (take (Suc ?e + m) ?ls) = sum_list (take ?e ?ls) + ?ls ! ?e + sum_list (take m ?d)"
        using sum_take_Suc [OF e] by simp
      then have total: "flat sc pos + n = sum_list (take (Suc ?e + m) ?ls) + k" using r(4) fl by simp
      have ends: "elem_ind pos + 1 + int m = sc_num_elements sc \<longleftrightarrow> m = length ?d" using l(1,2) p(1) e by auto
      show ?thesis
      proof (cases "m = length ?d \<and> k \<noteq> 0")
        case True
        then have "flat sc pos + n = sum_list ?ls + k" using total e by simp
        then show ?thesis
          using True r(1,3) far False legal n len ends i(2) by (auto simp: scatp_jforward_def Let_def)
      next
        case ok: False
        let ?pos = "pos\<lparr>elem_ind := elem_ind pos + 1 + int m, buff_ind := k\<rparr>"
        have pl: "place_ok sc (Suc ?e + m) k" using ok r(2,3,5) e by (auto simp: place_ok_def)
        have fl': "flat sc ?pos = flat sc pos + n" using total i(1) by (simp add: flat_def flat_at_def)
        have "flat sc pos + n \<le> sum_list ?ls" using flat_range(2) [OF f pl] total by (simp add: flat_at_def)
        moreover have "\<not> scatp_is_not_legal sc ?pos" using pl p(1) i(1) legal_place(1) [OF f] by simp
        ultimately show ?thesis
          using ok fl' r(1) far False legal n len ends i(2) by (auto simp: scatp_jforward_def Let_def)
      qed
    qed
  qed
qed

lemma jbackward_flat:
  assumes f: "fine sc" and legal: "\<not> scatp_is_not_legal sc pos" and n: "0 \<le> n"
  shows "\<exists>pos'. scatp_jbackward sc pos n = (min n (flat sc pos), pos')
     \<and> (if n \<le> flat sc pos
        then \<not> scatp_is_not_legal sc pos' \<and> flat sc pos' = flat sc pos - n \<and> p_scat pos' = p_scat pos else pos' = pos)"
proof -
  let ?ls = "sc_lens sc" and ?e = "nat (elem_ind pos)" and ?b = "buff_ind pos"
  note l = fine_lens [OF f]
  have p: "0 \<le> elem_ind pos" "place_ok sc ?e ?b" using legal legal_place(1) [OF f] by auto
  then have le: "?e \<le> length ?ls" "0 \<le> ?b" by (auto simp: place_ok_def split: if_splits)
  have fl: "flat sc pos = sum_list (take ?e ?ls) + ?b" by (simp add: flat_def flat_at_def)
  have pre: "0 \<le> sum_list (take ?e ?ls)" using l(3) by (intro sum_list_nonneg_int) (auto dest: in_set_takeD)
  show ?thesis
  proof (cases "?b \<ge> n")
    case True
    have "place_ok sc ?e (?b - n)" using True p(2) n by (auto simp: place_ok_def split: if_splits)
    then show ?thesis using True legal n p(1) pre fl legal_place(1) [OF f]
      by (auto simp: scatp_jbackward_def flat_def flat_at_def)
  next
    case False
    let ?r = "rev (take ?e ?ls)" and ?skip = "n - ?b"
    have nn: "\<forall>l \<in> set ?r. 0 \<le> l" "0 < ?skip" using l(3) False by (auto dest: in_set_takeD)
    have run: "scatp_jbackward sc pos n = (case skip_backward ?r (elem_ind pos - 1) ?skip of
         None \<Rightarrow> (ILLEGAL_MESSAGE, pos) | Some (False, _, skip) \<Rightarrow> (n - skip, pos)
       | Some (True, i, skip) \<Rightarrow> (n, pos\<lparr>elem_ind := i, buff_ind := - skip\<rparr>))"
      using False legal n by (simp add: scatp_jbackward_def)
    from skip_backward_spec [OF nn, of "elem_ind pos - 1"] consider
      (a) m k where "skip_backward ?r (elem_ind pos - 1) ?skip = Some (True, elem_ind pos - 1 - int m, k)" "m < length ?r" "k \<le> 0"
        "- k < ?r ! m" "?skip = sum_list (take (Suc m) ?r) + k"
    | (b) j where "skip_backward ?r (elem_ind pos - 1) ?skip = Some (False, j, ?skip - sum_list ?r)" "sum_list ?r < ?skip"
      by blast
    then show ?thesis
    proof cases
      case a
      let ?i = "?e - Suc m"
      have m: "m < ?e" using a(2) le by simp
      have i: "nat (elem_ind pos - 1 - int m) = ?i" "0 \<le> elem_ind pos - 1 - int m" using m by auto
      have at: "?r ! m = ?ls ! ?i" using m le by (simp add: rev_nth)
      have "take (Suc m) ?r = rev (drop ?i (take ?e ?ls))" using m le by (simp add: take_rev)
      then have "sum_list (take (Suc m) ?r) = sum_list (drop ?i (take ?e ?ls))" by simp
      moreover have "sum_list (take ?e ?ls) = sum_list (take ?i ?ls) + sum_list (drop ?i (take ?e ?ls))"
        by (metis append_take_drop_id diff_le_self min.absorb1 sum_list_append take_take)
      ultimately have total: "flat sc pos - n = sum_list (take ?i ?ls) - k" using a(5) fl by simp
      have "?i < length ?ls" using m le by linarith
      then have pl: "place_ok sc ?i (- k)" using a(3,4) at by (simp add: place_ok_def)
      have "0 \<le> flat sc pos - n" using flat_range(1) [OF f pl] total by (simp add: flat_at_def)
      then show ?thesis
        unfolding run a(1) using n pl i total legal_place(1) [OF f]
        by (auto simp: flat_def flat_at_def)
    next
      case b
      then show ?thesis unfolding run b(1) using n fl by (simp add: sum_list_rev)
    qed
  qed
qed

text \<open>Comparing two places gives their order, though not their distance.\<close>

lemma between_spec:
  assumes "fine sc" and "i \<le> j" and "j \<le> length (sc_lens sc)"
  shows "between sc (int i - 1) (int j) = Some (sum_list (take j (sc_lens sc)) - sum_list (take i (sc_lens sc)))"
proof -
  have "take j (sc_lens sc) = take i (sc_lens sc) @ drop i (take j (sc_lens sc))"
    by (metis append_take_drop_id assms(2) min.absorb1 take_take)
  then have "sum_list (drop i (take j (sc_lens sc))) = sum_list (take j (sc_lens sc)) - sum_list (take i (sc_lens sc))"
    by (metis add_diff_cancel_left' sum_list_append)
  moreover have "\<forall>l \<in> set (drop i (take j (sc_lens sc))). \<not> l < 0"
    using fine_lens(3) [OF assms(1)] by (auto dest!: in_set_dropD in_set_takeD)
  ultimately show ?thesis by (auto simp: between_def Let_def)
qed

lemma scatp_comp_order:
  assumes f: "fine sc" and legal: "\<not> scatp_is_not_legal sc pos1" "\<not> scatp_is_not_legal sc pos2" and same: "p_scat pos1 = p_scat pos2"
    and less: "elem_ind pos1 < elem_ind pos2"
  shows "scatp_comp sc sc pos1 pos2 = flat sc pos1 - flat sc pos2 + buff_ind pos2" and "scatp_comp sc sc pos1 pos2 < 0"
    and "scatp_comp sc sc pos2 pos1 = flat sc pos2 - flat sc pos1 - buff_ind pos2" and "0 < scatp_comp sc sc pos2 pos1"
proof -
  let ?ls = "sc_lens sc" and ?e = "nat (elem_ind pos1)" and ?g = "nat (elem_ind pos2)"
  have p: "0 \<le> elem_ind pos1" "place_ok sc ?e (buff_ind pos1)" "0 \<le> elem_ind pos2" "place_ok sc ?g (buff_ind pos2)"
    using legal legal_place(1) [OF f] by auto
  have e: "Suc ?e \<le> ?g" "?g \<le> length ?ls" "?e < length ?ls" using p less by (auto simp: place_ok_def split: if_splits)
  have ints: "int (Suc ?e) - 1 = elem_ind pos1" "int ?g = elem_ind pos2" using p(1,3) by auto
  have b: "between sc (elem_ind pos1) (elem_ind pos2) = Some (sum_list (take ?g ?ls) - sum_list (take (Suc ?e) ?ls))"
    using between_spec [OF f e(1,2)] unfolding ints .
  have len: "len_at sc (elem_ind pos1) = ?ls ! ?e" using lens_at [OF e(3)] p(1) by simp
  have bl: "buff_ind pos1 < ?ls ! ?e" using p(2) e(3) by (auto simp: place_ok_def split: if_splits)
  have nn: "0 \<le> sum_list (drop (Suc ?e) (take ?g ?ls))"
    using fine_lens(3) [OF f] by (intro sum_list_nonneg_int) (auto dest!: in_set_dropD in_set_takeD)
  have "sum_list (take ?g ?ls) = sum_list (take (Suc ?e) ?ls) + sum_list (drop (Suc ?e) (take ?g ?ls))"
    by (metis append_take_drop_id e(1) min.absorb1 sum_list_append take_take)
  then have s: "0 \<le> sum_list (take ?g ?ls) - sum_list (take (Suc ?e) ?ls)" using nn by simp
  show "scatp_comp sc sc pos1 pos2 = flat sc pos1 - flat sc pos2 + buff_ind pos2"
    using legal same less b len sum_take_Suc [OF e(3)] by (simp add: scatp_comp_def flat_def flat_at_def)
  show "scatp_comp sc sc pos1 pos2 < 0" using legal same less b len bl s by (simp add: scatp_comp_def)
  show c: "scatp_comp sc sc pos2 pos1 = flat sc pos2 - flat sc pos1 - buff_ind pos2"
    using legal same less b len sum_take_Suc [OF e(3)] by (simp add: scatp_comp_def flat_def flat_at_def)
  show "0 < scatp_comp sc sc pos2 pos1" using legal same less b len bl s by (simp add: scatp_comp_def)
qed

subsection \<open>Copying is copying bytes\<close>

lemma next_elem_place:
  assumes "fine sc" and "e < length (sc_lens sc)"
  shows "place_ok sc (next_elem sc e) 0" and "sum_list (take (next_elem sc e) (sc_lens sc)) = sum_list (take (Suc e) (sc_lens sc))"
    and "next_elem sc e \<le> length (sc_lens sc)"
proof -
  let ?ls = "sc_lens sc" and ?d = "drop (Suc e) (sc_lens sc)" let ?t = "takeWhile (\<lambda>l. l = 0) ?d"
  have le: "length ?t \<le> length ?d" by (rule length_takeWhile_le)
  show "next_elem sc e \<le> length ?ls" using le assms(2) by (simp add: next_elem_def)
  show "place_ok sc (next_elem sc e) 0"
  proof (cases "length ?t = length ?d")
    case True
    then have "next_elem sc e = length ?ls" using assms(2) by (simp add: next_elem_def)
    then show ?thesis by (simp add: place_ok_def)
  next
    case False
    then have lt: "length ?t < length ?d" using le by simp
    then have "?d ! length ?t \<noteq> 0" by (rule nth_length_takeWhile)
    moreover have "0 \<le> ?d ! length ?t" using fine_lens(3) [OF assms(1)] lt by (meson in_set_dropD nth_mem)
    ultimately show ?thesis using lt by (auto simp: place_ok_def next_elem_def)
  qed
  have "take (next_elem sc e) ?ls = take (Suc e) ?ls @ take (length ?t) ?d" unfolding next_elem_def by (rule take_add)
  moreover have "take (length ?t) ?d = ?t" by (metis append_eq_conv_conj takeWhile_dropWhile_id)
  moreover have "sum_list (takeWhile (\<lambda>l. l = 0) xs) = 0" for xs :: "int list" by (induction xs) auto
  ultimately show "sum_list (take (next_elem sc e) ?ls) = sum_list (take (Suc e) ?ls)" by simp
qed

lemma elem_step_place:
  assumes "fine sc" and "place_ok sc e b" and "e < length (sc_lens sc)" and "0 \<le> n" and "n \<le> sc_lens sc ! e - b"
    and "elem_step sc e b n = (e', b')"
  shows "place_ok sc e' b'" and "flat_at sc e' b' = flat_at sc e b + n"
proof -
  have b: "0 \<le> b" "b < sc_lens sc ! e" using assms(2,3) by (auto simp: place_ok_def split: if_splits)
  show "place_ok sc e' b'"
    using assms(3-6) b next_elem_place(1) [OF assms(1,3)] lens_at [OF assms(3)]
    by (auto simp: elem_step_def place_ok_def split: if_splits)
  show "flat_at sc e' b' = flat_at sc e b + n"
    using assms(6) next_elem_place(2) [OF assms(1,3)] lens_at [OF assms(3)] sum_take_Suc [OF assms(3)]
    by (auto simp: elem_step_def flat_at_def split: if_splits)
qed

lemma map_fst_put: "map fst (es[e := (fst (es ! e), x)]) = map fst es"
proof (rule nth_equalityI)
  fix i
  assume "i < length (map fst (es[e := (fst (es ! e), x)]))"
  then show "map fst (es[e := (fst (es ! e), x)]) ! i = map fst es ! i" by (cases "e = i") simp_all
qed simp

lemma put_bytes_lens [simp]: "sc_lens (put_bytes e b bs sc) = sc_lens sc" "sc_num_elements (put_bytes e b bs sc) = sc_num_elements sc"
  by (simp_all add: put_bytes_def sc_lens_def map_fst_put flip: take_map)

lemma len_at_put [simp]: "len_at (put_bytes e b bs sc) i = len_at sc i"
  by (cases "e < length (sc_elements sc)") (auto simp: put_bytes_def len_at_def nth_list_update list_update_beyond)

lemma sc_data_split:
  assumes "fine sc" and "e < length (sc_lens sc)"
  shows "sc_data sc = concat (map snd (take e (sc_elements sc))) @ snd (sc_elements sc ! e)
      @ concat (map snd (drop (Suc e) (take (nat (sc_num_elements sc)) (sc_elements sc))))"
    and "int (length (concat (map snd (take e (sc_elements sc))))) = sum_list (take e (sc_lens sc))"
    and "int (length (snd (sc_elements sc ! e))) = sc_lens sc ! e"
proof -
  let ?n = "nat (sc_num_elements sc)" and ?es = "sc_elements sc"
  have e: "e < ?n" "e < length ?es" using assms fine_lens(1) [OF assms(1)] by (auto simp: fine_def)
  have "take ?n ?es = take e (take ?n ?es) @ take ?n ?es ! e # drop (Suc e) (take ?n ?es)"
    by (rule id_take_nth_drop) (use e in simp)
  then have t: "take ?n ?es = take e ?es @ ?es ! e # drop (Suc e) (take ?n ?es)" using e by (simp add: min_absorb1)
  have "map snd (take ?n ?es) = map snd (take e ?es) @ snd (?es ! e) # map snd (drop (Suc e) (take ?n ?es))"
    by (subst t) simp
  then show "sc_data sc = concat (map snd (take e ?es)) @ snd (?es ! e) @ concat (map snd (drop (Suc e) (take ?n ?es)))"
    by (simp add: sc_data_def)
  have all: "\<forall>x \<in> set (take ?n ?es). 0 \<le> fst x \<and> length (snd x) = nat (fst x)" using assms(1) by (simp add: fine_def)
  have sub: "\<forall>x \<in> set xs. 0 \<le> fst x \<and> length (snd x) = nat (fst x) \<Longrightarrow> int (length (concat (map snd xs))) = sum_list (map fst xs)"
    for xs :: "element list" by (induction xs) auto
  have "set (take e ?es) \<subseteq> set (take ?n ?es)" using e(1) by (intro set_take_subset_set_take) simp
  then have "int (length (concat (map snd (take e ?es)))) = sum_list (map fst (take e ?es))" using all by (intro sub) blast
  then show "int (length (concat (map snd (take e ?es)))) = sum_list (take e (sc_lens sc))"
    using e(1) by (simp add: sc_lens_def take_map min_absorb1)
  have "?es ! e \<in> set (take ?n ?es)" using e by (metis in_set_conv_nth length_take min_less_iff_conj nth_take)
  then show "int (length (snd (?es ! e))) = sc_lens sc ! e" using all e by (simp add: sc_lens_def)
qed

lemma put_bytes_data:
  assumes "fine sc" and "place_ok sc e b" and "e < length (sc_lens sc)" and "int (length bs) \<le> sc_lens sc ! e - b"
  shows "sc_data (put_bytes e b bs sc) = overwrite (nat (flat_at sc e b)) bs (sc_data sc)" and "fine (put_bytes e b bs sc)"
proof -
  let ?n = "nat (sc_num_elements sc)" and ?es = "sc_elements sc" and ?m = "snd (sc_elements sc ! e)"
  note d = sc_data_split [OF assms(1,3)]
  have b: "0 \<le> b" "b < sc_lens sc ! e" using assms(2,3) by (auto simp: place_ok_def split: if_splits)
  have fit: "nat b + length bs \<le> length ?m" using b assms(4) d(3) by linarith
  have e: "e < ?n" "e < length ?es" using assms(1,3) fine_lens(1) [OF assms(1)] by (auto simp: fine_def)
  have lo: "length (overwrite (nat b) bs ?m) = length ?m" using fit by (simp add: overwrite_def)
  have "take ?n (?es[e := (fst (?es ! e), overwrite (nat b) bs ?m)]) = (take ?n ?es)[e := (fst (?es ! e), overwrite (nat b) bs ?m)]"
    by (rule take_update_swap)
  then show f: "fine (put_bytes e b bs sc)"
  proof -
    let ?x = "(fst (?es ! e), overwrite (nat b) bs ?m)"
    have all: "\<forall>x \<in> set (take ?n ?es). 0 \<le> fst x \<and> length (snd x) = nat (fst x)" using assms(1) by (simp add: fine_def)
    have "?es ! e \<in> set (take ?n ?es)" using e by (metis in_set_conv_nth length_take min_less_iff_conj nth_take)
    then have "0 \<le> fst ?x \<and> length (snd ?x) = nat (fst ?x)" using all lo by simp
    then have "\<forall>x \<in> set ((take ?n ?es)[e := ?x]). 0 \<le> fst x \<and> length (snd x) = nat (fst x)"
      using all set_update_subset_insert [of "take ?n ?es" e ?x] by blast
    then show ?thesis using assms(1) by (simp add: fine_def put_bytes_def bad_count_def take_update_swap)
  qed
  have l2: "e < length (sc_lens (put_bytes e b bs sc))" using assms(3) by simp
  have "sc_data (put_bytes e b bs sc) = concat (map snd (take e ?es)) @ overwrite (nat b) bs ?m
      @ concat (map snd (drop (Suc e) (take ?n ?es)))"
    using sc_data_split(1) [OF f l2] e by (simp add: put_bytes_def take_update_swap drop_update_cancel list_update_beyond)
  moreover have "nat (flat_at sc e b) = length (concat (map snd (take e ?es))) + nat b"
    using d(2) b(1) by (simp add: flat_at_def)
  ultimately show "sc_data (put_bytes e b bs sc) = overwrite (nat (flat_at sc e b)) bs (sc_data sc)"
    unfolding d(1) using fit by (simp add: overwrite_def)
qed

text \<open>
  A run of copies, seen as bytes: what it has copied so far, from which place to which.
\<close>

definition copied :: "scatter \<Rightarrow> copy_st \<Rightarrow> copy_st \<Rightarrow> int \<Rightarrow> bool" where
  "copied src c c' n \<longleftrightarrow> fine (cp_dst c') \<and> sc_lens (cp_dst c') = sc_lens (cp_dst c)
     \<and> sc_data (cp_dst c') = overwrite (nat (flat_at (cp_dst c) (cp_de c) (cp_do c)))
         (take (nat n) (drop (nat (flat_at src (cp_se c) (cp_so c))) (sc_data src))) (sc_data (cp_dst c))
     \<and> flat_at (cp_dst c) (cp_de c') (cp_do c') = flat_at (cp_dst c) (cp_de c) (cp_do c) + n
     \<and> flat_at src (cp_se c') (cp_so c') = flat_at src (cp_se c) (cp_so c) + n
     \<and> place_ok (cp_dst c) (cp_de c') (cp_do c') \<and> place_ok src (cp_se c') (cp_so c') \<and> cp_left c' = cp_left c - n"

definition copy_ok :: "scatter \<Rightarrow> copy_st \<Rightarrow> bool" where
  "copy_ok src c \<longleftrightarrow> fine src \<and> fine (cp_dst c) \<and> place_ok (cp_dst c) (cp_de c) (cp_do c) \<and> place_ok src (cp_se c) (cp_so c) \<and> 0 \<le> cp_left c"

lemma overwrite_overwrite:
  assumes "at + length xs + length ys \<le> length buf"
  shows "overwrite (at + length xs) ys (overwrite at xs buf) = overwrite at (xs @ ys) buf"
  using assms by (simp add: overwrite_def ac_simps)

lemma sc_data_take:
  assumes "fine sc" and "place_ok sc e b" and "e < length (sc_lens sc)" and "0 \<le> n" and "n \<le> sc_lens sc ! e - b"
  shows "take (nat n) (drop (nat b) (snd (sc_elements sc ! e))) = take (nat n) (drop (nat (flat_at sc e b)) (sc_data sc))"
proof -
  note d = sc_data_split [OF assms(1,3)]
  have b: "0 \<le> b" "b < sc_lens sc ! e" using assms(2,3) by (auto simp: place_ok_def split: if_splits)
  have "nat (flat_at sc e b) = length (concat (map snd (take e (sc_elements sc)))) + nat b" using d(2) b(1) by (simp add: flat_at_def)
  moreover have "nat b \<le> length (snd (sc_elements sc ! e))" "nat n \<le> length (snd (sc_elements sc ! e)) - nat b"
    using d(3) b assms(4,5) by linarith+
  ultimately show ?thesis unfolding d(1) by simp
qed

lemma copy_step_copies:
  assumes ok: "copy_ok src c" and run: "copying src c"
  shows "0 < copy_size src c" and "copied src c (copy_step src c) (copy_size src c)" and "copy_ok src (copy_step src c)"
    and "copy_size src c \<le> cp_left c"
proof -
  let ?d = "cp_dst c" and ?n = "copy_size src c"
  have f: "fine src" "fine ?d" and p: "place_ok ?d (cp_de c) (cp_do c)" "place_ok src (cp_se c) (cp_so c)" and left: "0 < cp_left c"
    using ok run by (auto simp: copy_ok_def copying_def)
  have e: "cp_de c < length (sc_lens ?d)" "cp_se c < length (sc_lens src)"
    using run fine_lens(1,2) [OF f(1)] fine_lens(1,2) [OF f(2)] by (auto simp: copying_def)
  have b: "cp_do c < sc_lens ?d ! cp_de c" "cp_so c < sc_lens src ! cp_se c" "0 \<le> cp_do c" "0 \<le> cp_so c"
    using p e by (auto simp: place_ok_def split: if_splits)
  have n: "?n = min (min (sc_lens ?d ! cp_de c - cp_do c) (sc_lens src ! cp_se c - cp_so c)) (cp_left c)"
    using lens_at [OF e(1)] lens_at [OF e(2)] by (simp add: copy_size_def)
  show pos: "0 < ?n" using n b left by simp
  show nl: "?n \<le> cp_left c" using n by simp
  have fit: "?n \<le> sc_lens ?d ! cp_de c - cp_do c" "?n \<le> sc_lens src ! cp_se c - cp_so c" using n by simp_all
  let ?bs = "take (nat ?n) (drop (nat (cp_so c)) (snd (sc_elements src ! cp_se c)))"
  obtain de dt where de: "elem_step ?d (cp_de c) (cp_do c) ?n = (de, dt)" by fastforce
  obtain se st where se: "elem_step src (cp_se c) (cp_so c) ?n = (se, st)" by fastforce
  have step: "copy_step src c = c\<lparr>cp_dst := put_bytes (cp_de c) (cp_do c) ?bs ?d, cp_de := de, cp_do := dt, cp_se := se, cp_so := st,
      cp_left := cp_left c - ?n\<rparr>" by (simp add: copy_step_def Let_def de se)
  note dst = elem_step_place [OF f(2) p(1) e(1) less_imp_le [OF pos] fit(1) de]
  note src = elem_step_place [OF f(1) p(2) e(2) less_imp_le [OF pos] fit(2) se]
  have "length ?bs = nat ?n" using sc_data_split(3) [OF f(1) e(2)] fit(2) b(4) by simp
  then have lb: "int (length ?bs) \<le> sc_lens ?d ! cp_de c - cp_do c" using fit(1) pos by simp
  note put = put_bytes_data [OF f(2) p(1) e(1) lb]
  have bs: "?bs = take (nat ?n) (drop (nat (flat_at src (cp_se c) (cp_so c))) (sc_data src))"
    by (rule sc_data_take [OF f(1) p(2) e(2) less_imp_le [OF pos] fit(2)])
  show "copied src c (copy_step src c) ?n"
    unfolding copied_def step using put dst src bs by simp
  have pk: "place_ok (put_bytes (cp_de c) (cp_do c) ?bs ?d) de dt" using dst(1) by (simp add: place_ok_def)
  show "copy_ok src (copy_step src c)" unfolding copy_ok_def step using put(2) pk src(1) f(1) nl by simp
qed

lemma copied_trans:
  assumes "copied src c c1 n" and "copied src c1 c2 m" and "0 \<le> n" and "0 \<le> m" and "copy_ok src c"
    and "flat_at src (cp_se c) (cp_so c) + n + m \<le> sum_list (sc_lens src)"
    and "flat_at (cp_dst c) (cp_de c) (cp_do c) + n + m \<le> sum_list (sc_lens (cp_dst c))"
  shows "copied src c c2 (n + m)"
proof -
  let ?d = "flat_at (cp_dst c) (cp_de c) (cp_do c)" and ?s = "flat_at src (cp_se c) (cp_so c)"
  have lens: "sc_lens (cp_dst c1) = sc_lens (cp_dst c)" using assms(1) by (simp add: copied_def)
  then have fl: "flat_at (cp_dst c1) e b = flat_at (cp_dst c) e b" "place_ok (cp_dst c1) e b = place_ok (cp_dst c) e b" for e b
    by (simp_all add: flat_at_def place_ok_def)
  have at: "flat_at (cp_dst c) (cp_de c1) (cp_do c1) = ?d + n" "flat_at src (cp_se c1) (cp_so c1) = ?s + n"
    using assms(1) by (simp_all add: copied_def)
  have f: "fine src" "fine (cp_dst c)" "0 \<le> ?d" "0 \<le> ?s"
    using assms(5) flat_range(1) by (auto simp: copy_ok_def)
  let ?xs = "take (nat n) (drop (nat ?s) (sc_data src))" and ?ys = "take (nat m) (drop (nat (?s + n)) (sc_data src))"
  have lx: "length ?xs = nat n" "length ?ys \<le> nat m" using fine_lens(4) [OF f(1)] f(4) assms(3,4,6) by auto
  have nd: "nat (?d + n) = nat ?d + length ?xs" using lx(1) f(3) assms(3) by simp
  have "int (length (sc_data (cp_dst c))) = sum_list (sc_lens (cp_dst c))" by (rule fine_lens(4) [OF f(2)])
  then have fit: "nat ?d + length ?xs + length ?ys \<le> length (sc_data (cp_dst c))" using lx f(3) assms(3,4,7) by linarith
  have "?xs @ ?ys = take (nat (n + m)) (drop (nat ?s) (sc_data src))"
  proof -
    have "nat (n + m) = nat n + nat m" "nat (?s + n) = nat n + nat ?s" using assms(3,4) f(4) by simp_all
    then show ?thesis by (simp only: take_add drop_drop)
  qed
  moreover have "sc_data (cp_dst c2) = overwrite (nat (?d + n)) ?ys (overwrite (nat ?d) ?xs (sc_data (cp_dst c)))"
    using assms(1,2) at fl by (simp add: copied_def)
  ultimately have "sc_data (cp_dst c2) = overwrite (nat ?d) (take (nat (n + m)) (drop (nat ?s) (sc_data src))) (sc_data (cp_dst c))"
    unfolding nd using overwrite_overwrite [OF fit] by simp
  then show ?thesis using assms(1,2) at fl lens by (simp add: copied_def)
qed

definition can_copy :: "scatter \<Rightarrow> copy_st \<Rightarrow> int" where
  "can_copy src c = min (cp_left c) (min (sum_list (sc_lens src) - flat_at src (cp_se c) (cp_so c))
     (sum_list (sc_lens (cp_dst c)) - flat_at (cp_dst c) (cp_de c) (cp_do c)))"

lemma copied_nothing:
  assumes "copy_ok src c" and "\<not> copying src c"
  shows "can_copy src c = 0" and "copied src c c 0"
proof -
  have f: "fine src" "fine (cp_dst c)" "place_ok (cp_dst c) (cp_de c) (cp_do c)" "place_ok src (cp_se c) (cp_so c)" "0 \<le> cp_left c"
    using assms(1) by (simp_all add: copy_ok_def)
  note r = flat_range(2) [OF f(2,3)] flat_range(2) [OF f(1,4)]
  consider "cp_left c = 0" | "cp_de c = length (sc_lens (cp_dst c))" | "cp_se c = length (sc_lens src)"
    using assms(2) f(3,4) fine_lens(1,2) [OF f(1)] fine_lens(1,2) [OF f(2)] by (auto simp: copying_def place_ok_def split: if_splits)
  then show "can_copy src c = 0"
    using f(3-5) r by cases (auto simp: can_copy_def flat_at_def place_ok_def)
  show "copied src c c 0" using f by (simp add: copied_def overwrite_def)
qed

lemma copy_run_copies:
  assumes "copy_ok src c" and "nat (cp_left c) \<le> fuel"
  shows "\<exists>c'. copy_run fuel src c = Inr (True, c') \<and> copied src c c' (can_copy src c)"
  using assms
proof (induction fuel arbitrary: c)
  case 0
  then have "\<not> copying src c" by (simp add: copying_def copy_ok_def)
  then show ?case using copied_nothing [OF "0.prems"(1)] by simp
next
  case (Suc fuel)
  show ?case
  proof (cases "copying src c")
    case False
    then show ?thesis using copied_nothing [OF Suc.prems(1)] by simp
  next
    case True
    let ?c = "copy_step src c" and ?n = "copy_size src c"
    note st = copy_step_copies [OF Suc.prems(1) True]
    have left: "cp_left ?c = cp_left c - ?n" using st(2) by (simp add: copied_def)
    then have "nat (cp_left ?c) \<le> fuel" using st(1,4) Suc.prems(2) by linarith
    from Suc.IH [OF st(3) this] obtain c' where c': "copy_run fuel src ?c = Inr (True, c')" "copied src ?c c' (can_copy src ?c)" by blast
    have f: "fine (cp_dst c)" "place_ok (cp_dst c) (cp_de c) (cp_do c)" using Suc.prems(1) by (simp_all add: copy_ok_def)
    have lens: "sc_lens (cp_dst ?c) = sc_lens (cp_dst c)" using st(2) by (simp add: copied_def)
    then have fl: "flat_at (cp_dst ?c) e b = flat_at (cp_dst c) e b" for e b by (simp add: flat_at_def)
    have can: "can_copy src c = ?n + can_copy src ?c" and nn: "0 \<le> can_copy src ?c"
    proof -
      have at: "flat_at (cp_dst c) (cp_de ?c) (cp_do ?c) = flat_at (cp_dst c) (cp_de c) (cp_do c) + ?n"
        "flat_at src (cp_se ?c) (cp_so ?c) = flat_at src (cp_se c) (cp_so c) + ?n"
        using st(2) by (simp_all add: copied_def)
      then show "can_copy src c = ?n + can_copy src ?c" unfolding can_copy_def lens fl at left by simp
      have "fine src" "fine (cp_dst ?c)" "place_ok (cp_dst ?c) (cp_de ?c) (cp_do ?c)" "place_ok src (cp_se ?c) (cp_so ?c)" "0 \<le> cp_left ?c"
        using st(3) by (simp_all add: copy_ok_def)
      then show "0 \<le> can_copy src ?c" using flat_range(2) by (fastforce simp: can_copy_def)
    qed
    have "copied src c c' (?n + can_copy src ?c)"
    proof (rule copied_trans [OF st(2) c'(2) less_imp_le [OF st(1)] nn Suc.prems(1)])
      show "flat_at src (cp_se c) (cp_so c) + ?n + can_copy src ?c \<le> sum_list (sc_lens src)"
        "flat_at (cp_dst c) (cp_de c) (cp_do c) + ?n + can_copy src ?c \<le> sum_list (sc_lens (cp_dst c))"
        using can by (simp_all add: can_copy_def [of src c])
    qed
    then show ?thesis using c'(1) True st(1) can by auto
  qed
qed

definition moved_by :: "scatter \<Rightarrow> scatp \<Rightarrow> bool \<Rightarrow> int \<Rightarrow> scatp \<Rightarrow> bool" where
  "moved_by sc pos moves n pos' \<longleftrightarrow>
     (if moves then \<not> scatp_is_not_legal sc pos' \<and> flat sc pos' = flat sc pos + n \<and> p_scat pos' = p_scat pos else pos' = pos)"

lemma adv_cpy0_copies:
  assumes f: "fine d" "fine sc" and legal: "\<not> scatp_is_not_legal d dst" "\<not> scatp_is_not_legal sc src" and n: "0 \<le> n"
    and k: "k = min n (min (sum_list (sc_lens sc) - flat sc src) (sum_list (sc_lens d) - flat d dst))"
  shows "\<exists>d' dst' src'. scatp_adv_cpy0 d dst sc src n adv_dst adv_src = Inr (k, d', dst', src')
     \<and> fine d' \<and> sc_lens d' = sc_lens d
     \<and> sc_data d' = overwrite (nat (flat d dst)) (take (nat k) (drop (nat (flat sc src)) (sc_data sc))) (sc_data d)
     \<and> moved_by d dst (adv_dst \<and> k = n) n dst' \<and> moved_by sc src (adv_src \<and> k = n) n src'"
proof -
  have p: "0 \<le> elem_ind dst" "place_ok d (nat (elem_ind dst)) (buff_ind dst)" "0 \<le> elem_ind src" "place_ok sc (nat (elem_ind src)) (buff_ind src)"
    using legal legal_place(1) [OF f(1)] legal_place(1) [OF f(2)] by auto
  let ?c = "\<lparr>cp_dst = d, cp_de = nat (elem_ind dst), cp_do = buff_ind dst, cp_se = nat (elem_ind src), cp_so = buff_ind src, cp_left = n\<rparr>"
  have ok: "copy_ok sc ?c" using f p n by (simp add: copy_ok_def)
  have can: "can_copy sc ?c = k" using k by (simp add: can_copy_def flat_def)
  from copy_run_copies [OF ok, of "nat n"] obtain c' where c': "copy_run (nat n) sc ?c = Inr (True, c')" "copied sc ?c c' k"
    unfolding can by auto
  note r = flat_range(2) [OF f(1) p(2)] flat_range(2) [OF f(2) p(4)]
  show ?thesis
  proof (cases "scatp_is_end d dst \<noteq> 0 \<or> scatp_is_end sc src \<noteq> 0")
    case True
    then have "flat d dst = sum_list (sc_lens d) \<or> flat sc src = sum_list (sc_lens sc)"
      using legal_place(2) [OF f(1)] legal_place(2) [OF f(2)] fine_lens(1) [OF f(1)] fine_lens(1) [OF f(2)]
      by (auto simp: flat_def flat_at_def)
    then have "k = 0" using k n r by (auto simp: flat_def)
    then show ?thesis using True legal n f by (auto simp: scatp_adv_cpy0_def overwrite_def moved_by_def)
  next
    case False
    have lens: "fine (cp_dst c')" "sc_lens (cp_dst c') = sc_lens d" "cp_left c' = n - k" using c'(2) by (simp_all add: copied_def)
    have data: "sc_data (cp_dst c') = overwrite (nat (flat d dst)) (take (nat k) (drop (nat (flat sc src)) (sc_data sc))) (sc_data d)"
      using c'(2) by (simp add: copied_def flat_def)
    have mv: "moved_by d dst True k (dst\<lparr>elem_ind := int (cp_de c'), buff_ind := cp_do c'\<rparr>)"
      "moved_by sc src True k (src\<lparr>elem_ind := int (cp_se c'), buff_ind := cp_so c'\<rparr>)"
      using c'(2) legal_place(1) [OF f(1)] legal_place(1) [OF f(2)] by (simp_all add: copied_def moved_by_def flat_def)
    show ?thesis using False legal n c'(1) lens data mv
      by (cases "k = n") (auto simp: scatp_adv_cpy0_def moved_def moved_by_def)
  qed
qed

subsection \<open>Properties\<close>

text \<open>
  C40: copying between scatters is copying bytes. From any legal position to any other, in scatters
  cut into elements in any way, \<open>scatp_adv_cpy0\<close> copies as many bytes as are asked for, left in the
  source and room for in the destination; it says how many, changes no other byte, and moves the
  positions it was asked to move, by exactly these bytes, when it could copy all of them.
\<close>

theorem copies_bytes:
  assumes "fine d" and "fine sc" and "\<not> scatp_is_not_legal d dst" and "\<not> scatp_is_not_legal sc src" and "0 \<le> n"
    and "k = min n (min (sum_list (sc_lens sc) - flat sc src) (sum_list (sc_lens d) - flat d dst))"
  shows "\<exists>d' dst' src'. scatp_adv_cpy0 d dst sc src n adv_dst adv_src = Inr (k, d', dst', src')
     \<and> fine d' \<and> sc_lens d' = sc_lens d
     \<and> sc_data d' = overwrite (nat (flat d dst)) (take (nat k) (drop (nat (flat sc src)) (sc_data sc))) (sc_data d)
     \<and> moved_by d dst (adv_dst \<and> k = n) n dst' \<and> moved_by sc src (adv_src \<and> k = n) n src'"
  using assms by (rule adv_cpy0_copies)

definition scatter_example :: scatter where
  "scatter_example = \<lparr>sc_num_elements = 3, sc_elements = [(2, [1, 2]), (0, []), (3, [3, 4, 5])]\<rparr>"

definition room_example :: scatter where
  "room_example = \<lparr>sc_num_elements = 2, sc_elements = [(3, [0, 0, 0]), (1, [0])]\<rparr>"

theorem copies_bytes_witness:
  "\<exists>d' dst' src'. scatp_adv_cpy0 room_example \<lparr>p_scat = 1, elem_ind = 0, buff_ind = 1\<rparr> scatter_example \<lparr>p_scat = 0, elem_ind = 0, buff_ind = 1\<rparr> 9 True True
     = Inr (3, d', dst', src') \<and> sc_data d' = [0, 2, 3, 4]"
proof -
  have "fine room_example" "fine scatter_example" "\<not> scatp_is_not_legal room_example \<lparr>p_scat = 1, elem_ind = 0, buff_ind = 1\<rparr>"
    "\<not> scatp_is_not_legal scatter_example \<lparr>p_scat = 0, elem_ind = 0, buff_ind = 1\<rparr>" "(0 :: int) \<le> 9"
    "3 = min 9 (min (sum_list (sc_lens scatter_example) - flat scatter_example \<lparr>p_scat = 0, elem_ind = 0, buff_ind = 1\<rparr>)
      (sum_list (sc_lens room_example) - flat room_example \<lparr>p_scat = 1, elem_ind = 0, buff_ind = 1\<rparr>))"
    "overwrite (nat (flat room_example \<lparr>p_scat = 1, elem_ind = 0, buff_ind = 1\<rparr>))
      (take (nat 3) (drop (nat (flat scatter_example \<lparr>p_scat = 0, elem_ind = 0, buff_ind = 1\<rparr>)) (sc_data scatter_example))) (sc_data room_example)
      = [0, 2, 3, 4]"
    by code_simp+
  then show ?thesis using copies_bytes [of room_example scatter_example _ _ 9 3 True True] by metis
qed

end
