(* ===== verification/Spec2Isabelle.thy ===== *)
theory Spec2Isabelle
  imports Daemon Packet_Transfer Token_Visit Recovery Session_Properties Client_Properties Event_Loop Scatp
begin

text \<open>
  A verification development for the Spread group communication system of this repository
  (\<open>src/spread-src-4.0.0\<close>): the token ring that orders and retransmits packets, the membership
  algorithm that forms the ring, the process groups and client sessions on top, and the layers
  below them.

  \<^bold>\<open>The program.\<close> A daemon is one process of a configured set of daemons, grouped into segments
  (broadcast domains). \<open>events.c\<close> runs timers and handlers. \<open>network.c\<close> packs packets into
  datagrams, routes them to the segments and passes the token to the next member.
  \<open>protocol.c\<close> numbers, retransmits, delivers and discards packets as the token goes round.
  \<open>membership.c\<close> finds other daemons, forms a ring of them with a form token, and installs
  the new membership with the delivery rules of extended virtual synchrony.
  \<open>configuration.c\<close> knows the configured daemons. Clients connect to a daemon: \<open>session.c\<close>
  accepts and authenticates them by the methods of \<open>acm.c\<close>, reads their messages piece by piece,
  hands them to the protocol, and delivers what the protocol orders. \<open>groups.c\<close> keeps which
  process is a member of which group, on which daemon, and tells the members; after a change of
  the ring the daemons exchange their groups and merge them. The client side of a session is the
  library \<open>libspread/sp.c\<close>: it connects, sends and receives messages and takes the membership
  messages apart.

  \<^bold>\<open>Theories and code.\<close>
  \<^item> \<open>Prelude\<close>: outcomes (a value, or the exit, assertion, undefined access or endless loop a run
    ends in), loops, C arrays and 16-bit narrowing.
  \<^item> \<open>Net_Types\<close>: \<open>net_types.h\<close>, \<open>arch.h\<close>; headers, type words, byte
    order (interface \<open>byte_flip\<close>).
  \<^item> \<open>Events\<close>: \<open>events.c\<close>; the timer queue (interface \<open>timer_queue\<close>), file descriptors.
    \<open>Event_Loop\<close>: its loop, with the answers of \<open>select\<close> as inputs.
  \<^item> \<open>Configuration\<close>: \<open>configuration.c\<close>; lookups, hash, loading and reloading.
  \<^item> \<open>Wire\<close>: the bodies of membership packets and tokens (\<open>membership.c\<close>, \<open>protocol.c\<close>;
    interface \<open>foreign_order\<close>).
  \<^item> \<open>Network\<close>: \<open>network.c\<close>; routes, packing, sending, receiving.
  \<^item> \<open>Membership_Lists\<close>: the list routines of \<open>membership.c\<close> (interface \<open>selection\<close>).
  \<^item> \<open>Daemon_State\<close>: the static variables of \<open>membership.c\<close> and \<open>prot_body.h\<close> as one record
    \<open>daemon\<close>, which extends the records of the layers below.
  \<^item> \<open>Flow_Control\<close>: \<open>flow_control.c\<close>.
  \<^item> \<open>Memb_View\<close>: the views \<open>membership.c\<close> installs, and backing off.
  \<^item> \<open>Delivery\<close>: the delivery and discarding routines of \<open>protocol.c\<close>.
  \<^item> \<open>Form_Token\<close>, \<open>Membership\<close>: the form token, and every handler and timer of \<open>membership.c\<close>.
  \<^item> \<open>Protocol\<close>: the rest of \<open>protocol.c\<close>.
  \<^item> \<open>Memb_Invariant\<close>: the invariant of the membership states and the frames of the operations
    below them; the theories above it show that every handler keeps it.
  \<^item> \<open>Startup\<close>: what \<open>Prot_init\<close> leaves behind. \<open>Stops\<close>: which handler stops where.
  \<^item> \<open>Daemon\<close>: the handlers as steps, reachable states (interface \<open>step_system\<close>) and what holds
    in them.
  \<^item> \<open>Packet_Transfer\<close>: from the sender's packing to the receiver's unpacking. \<open>Token_Visit\<close>: what
    one visit of the token acknowledges. \<open>Recovery\<close>: the holes of the form token.
  \<^item> \<open>Skiplist\<close>: \<open>stdskl.c\<close>, which holds the groups, their daemons and members
    (interface \<open>ordered_store\<close>); its refinement to ordered lists.
  \<^item> \<open>Bytes\<close>, \<open>Message\<close>: integers and names as bytes; \<open>message.c\<close>, \<open>sess_types.h\<close>, \<open>scatter.h\<close>.
  \<^item> \<open>Access\<close>: \<open>acm.c\<close>, \<open>acp-permit.c\<close>, \<open>auth-null.c\<close>, \<open>auth-ip.c\<close>, \<open>auth-pword.c\<close>.
  \<^item> \<open>Session_Table\<close>, \<open>Session_Write\<close>, \<open>Session_Connect\<close>, \<open>Session_Read\<close>, \<open>Session_Deliver\<close>:
    \<open>session.c\<close>; the table of sessions, writing to slow clients, connecting, reading and
    delivering. \<open>Session_Auth\<close>, \<open>Session_Admission\<close>, \<open>Session_Stream\<close> and \<open>Session_Reading\<close> prove
    what the connecting and reading guarantee, \<open>Session_Properties\<close> states it.
  \<^item> \<open>Group_State\<close>, \<open>Group_Views\<close>, \<open>Group_Exchange\<close>, \<open>Group_Handlers\<close>: \<open>groups.c\<close>; the groups, the
    messages to their members, the groups messages between daemons, the handlers.
    \<open>Group_Invariant\<close>, \<open>Group_Frame\<close>, \<open>Group_Telling\<close>, \<open>Group_Roster\<close>, \<open>Group_Changes\<close>,
    \<open>Group_Departures\<close>, \<open>Group_Memberships\<close>, \<open>Group_Messages\<close> and \<open>Group_Merge\<close> prove that the
    handlers keep the groups well-formed and what each does to the roster (who is in which group,
    on which daemon); \<open>Group_Properties\<close> states it.
  \<^item> \<open>Client_Library\<close>, \<open>Client_Connect\<close>, \<open>Client_Views\<close>: \<open>libspread/sp.c\<close>; sending and receiving,
    connecting, membership messages. \<open>Client_Stream\<close> (interface \<open>byte_source\<close>) and
    \<open>Client_Receiving\<close> prove that a receive takes or keeps the next message of the stream,
    \<open>Client_Sending\<close> that the daemon accepts what the library sends, \<open>Client_Memberships\<close> that the
    library reads back the views the daemon writes; \<open>Client_Properties\<close> states it.
  \<^item> \<open>Scatp\<close>: \<open>libspread/scatp.c\<close>; positions in a scatter, refined to positions in its bytes.

  \<^bold>\<open>Conventions.\<close> A C struct is a record, a union or a body by type a datatype, a pointer into
  the configuration an index. Process ids, type words and hashes are \<open>32 word\<close>; sequence
  numbers, times and counters are \<open>int\<close>, narrowed by \<open>int16_of\<close> where the code stores an
  \<open>int16\<close>. An \<open>Alarm( EXIT )\<close> is \<open>Alarm_exit\<close> with the function's name, a failed \<open>assert\<close> is
  \<open>Assert_fail\<close>, a read outside an array or of an unknown process is \<open>Undefined\<close>. The results of
  \<open>DL_send\<close>, \<open>DL_recv\<close>, \<open>gettimeofday\<close>, \<open>send\<close> and \<open>recv\<close> are fields or arguments. What the
  ring protocol sends and the calls it makes into the session layer are logged in \<open>Output\<close>; what
  the session layer sends and the calls it makes into the protocol and the event system in
  \<open>sess_out\<close>, the bytes it receives in \<open>sess_in\<close>. Linked lists are lists, or lists of indices of the
  session array. The sockets of a client are scripts of the events their calls will meet.

  \<^bold>\<open>Fuel.\<close> Some loops of the code need not end and have fuel: \<open>recv_loop\<close> and \<open>split_packets\<close>
  (one more than the bytes received, since a step that moves forward moves by at least one
  byte), \<open>send_loop\<close> (the packets and messages waiting, since each round takes one from the
  queue), \<open>build_bufs\<close> (one more than the entries to write; building is proved to end),
  \<open>get_groups\<close> (the length of the message) and \<open>read_body\<close> (two more than the elements of a message;
  proved to be enough), the event loop (timers and turns) and \<open>copy_run\<close> (the bytes to copy;
  proved to be enough). Running out of fuel is the outcome \<open>Hang\<close>. The loop that draws random
  names takes the numbers drawn from \<open>Randoms\<close>.

  \<^bold>\<open>Not modelled.\<close> Sockets and their options (\<open>data_link.c\<close>,
  \<open>Sess_init\<close>), printing and status reports; the memory pools (\<open>memory.c\<close>); the yacc grammar, whose
  result is an argument; in the client library the mutexes, timeouts and socket options; the flush
  library (\<open>fl.c\<close>) over it; the monitor and the test programs.
\<close>

end
